(* ===== verification/Prelude.thy ===== *)
theory Prelude
  imports Main "HOL-Library.Word" "HOL-Library.Monad_Syntax"
begin

text \<open>
  Shared vocabulary of the development: the machine integer types of an RV64
  build, the arithmetic macros of \<^verbatim>\<open>riscv-pk/machine/bits.h\<close>, the error
  numbers of the C library that the kernel returns, the loop
  \<^verbatim>\<open>for (a = x; a < lim; a += RISCV_PGSIZE)\<close> that every
  page-granular operation of \<^verbatim>\<open>riscv-pk/pk/mmap.c\<close> uses, and the generic
  lemmas on words, options and counting that the components share.

  Conventions.  A C function that reads and writes kernel state takes the state and
  returns \<^theory_text>\<open>Some (value, state)\<close>; \<^theory_text>\<open>None\<close> says that the call does not return,
  because an assertion failed (\<^verbatim>\<open>kassert\<close>, \<^verbatim>\<open>assert\<close>, \<^verbatim>\<open>panic\<close> end in an
  infinite loop after telling the host) or because a loop of the code runs forever.
\<close>

unbundle bit_operations_syntax

type_synonym u8 = "8 word"
type_synonym u16 = "16 word"
type_synonym u32 = "32 word"
type_synonym u64 = "64 word"

named_theorems cdefs
  \<open>definitions of the model that automation may unfold\<close>

subsection \<open>Arithmetic macros (bits.h)\<close>

definition ROUNDUP :: "u64 \<Rightarrow> u64 \<Rightarrow> u64" where
  "ROUNDUP a b = ((a - 1) div b + 1) * b"

definition ROUNDDOWN :: "u64 \<Rightarrow> u64 \<Rightarrow> u64" where
  "ROUNDDOWN a b = a div b * b"

definition C_MAX :: "u64 \<Rightarrow> u64 \<Rightarrow> u64" where
  "C_MAX a b = (if a > b then a else b)"

definition C_MIN :: "u64 \<Rightarrow> u64 \<Rightarrow> u64" where
  "C_MIN a b = (if a < b then a else b)"

definition EXTRACT_FIELD :: "u64 \<Rightarrow> u64 \<Rightarrow> u64" where
  "EXTRACT_FIELD val which = (val AND which) div (which AND NOT (which - 1))"

definition INSERT_FIELD :: "u64 \<Rightarrow> u64 \<Rightarrow> u64 \<Rightarrow> u64" where
  "INSERT_FIELD val which fieldval =
     (val AND NOT which) OR (fieldval * (which AND NOT (which - 1)))"

subsection \<open>Constants\<close>

abbreviation RISCV_PGSHIFT :: nat where "RISCV_PGSHIFT \<equiv> 12"
abbreviation RISCV_PGSIZE :: u64 where "RISCV_PGSIZE \<equiv> 4096"

text \<open>Error numbers as 64-bit values; the code returns their negations.\<close>

abbreviation EBADF :: u64 where "EBADF \<equiv> 9"
abbreviation ENOMEM :: u64 where "ENOMEM \<equiv> 12"
abbreviation EACCES :: u64 where "EACCES \<equiv> 13"
abbreviation EINVAL :: u64 where "EINVAL \<equiv> 22"
abbreviation ENOSYS :: u64 where "ENOSYS \<equiv> 38"

subsection \<open>Words and naturals\<close>

lemma unat_of_nat64: "n < 2 ^ 64 \<Longrightarrow> unat (of_nat n :: u64) = n"
  by (simp add: unsigned_of_nat take_bit_nat_eq_self)

lemma unat_lt64: "unat (w :: u64) < 2 ^ 64"
proof -
  have "unat w < 2 ^ LENGTH(64)" by (rule unsigned_less)
  then show ?thesis by simp
qed

lemma no_wrap:
  assumes "\<not> a + b < (a :: u64)"
  shows "unat (a + b) = unat a + unat b"
proof (rule ccontr)
  assume n: "unat (a + b) \<noteq> unat a + unat b"
  have "unat (a + b) = (unat a + unat b) mod 2 ^ 64" by (simp add: unat_word_ariths)
  moreover from this n have "2 ^ 64 \<le> unat a + unat b" by (metis mod_less not_less)
  moreover have "unat a < 2 ^ 64" "unat b < 2 ^ 64" by (rule unat_lt64)+
  ultimately have "unat (a + b) < unat a" by (simp add: le_mod_geq)
  with assms show False by (simp add: word_less_nat_alt)
qed

lemma unat_diff64: "unat y \<le> unat x \<Longrightarrow> unat (x - y) = unat x - unat y" for x y :: u64
  by (simp add: unat_sub word_le_nat_alt)

lemma unat_and_mask: "unat (w AND mask n) = unat w mod 2 ^ n"
  by (simp only: take_bit_eq_mask [symmetric] unsigned_take_bit_eq) (simp add: take_bit_eq_mod)

lemma unat_and_7: "unat (w AND 7) = unat w mod 8"
  using unat_and_mask [of w 3] by (simp add: mask_numeral)

lemma unat_and_4095: "unat ((w :: u64) AND 4095) = unat w mod 4096"
  using unat_and_mask [of w 12] by (simp add: mask_numeral)

lemma not_bit_beyond: "LENGTH('a) \<le> k \<Longrightarrow> \<not> bit (w :: 'a :: len word) k"
  using bit_imp_le_length [of w k] by auto

lemma sint_nonneg_unat:
  assumes "0 \<le> sint (w :: 'a :: len word)"
  shows "unat w = nat (sint w)"
proof -
  have "sint w < 2 ^ (LENGTH('a) - 1)" by (rule sint_lt)
  also have "(2 :: int) ^ (LENGTH('a) - 1) \<le> 2 ^ LENGTH('a)" by (rule power_increasing) simp_all
  finally have "uint w = sint w"
    using assms by (simp add: uint_sint take_bit_int_eq_self)
  then show ?thesis by (simp add: unsigned_of_int flip: nat_uint_eq)
qed

lemma sint_small_u32:
  assumes "unat (w :: u32) < 2 ^ 31"
  shows "sint w = int (unat w)"
proof -
  have "uint w < 2 ^ 31" using assms by (simp add: nat_less_iff flip: nat_uint_eq)
  moreover have "- (2 ^ 31) \<le> uint w"
    by (rule order_trans [OF _ unsigned_greater_eq]) simp
  ultimately show ?thesis by (simp add: sint_uint signed_take_bit_int_eq_self)
qed

subsection \<open>Options as computations\<close>

definition kassert :: "bool \<Rightarrow> unit option" where
  "kassert b = (if b then Some () else None)"

lemma bind_SomeE:
  assumes "Option.bind m f = Some r"
  obtains x where "m = Some x" and "f x = Some r"
  using assms by (cases m) auto

lemma case_prod_Some_iff:
  "(case p of (a, b) \<Rightarrow> f a b) = Some r \<longleftrightarrow> (\<exists>a b. p = (a, b) \<and> f a b = Some r)"
  by (cases p) simp

lemma bind_Some_iff: "Option.bind m f = Some r \<longleftrightarrow> (\<exists>x. m = Some x \<and> f x = Some r)"
  by (cases m) auto

lemma kassert_bind [simp]:
  "(kassert b \<bind> f = Some r) \<longleftrightarrow> (b \<and> f () = Some r)"
  by (simp add: kassert_def)

lemma kassert_iff [simp]: "(kassert b = Some u) \<longleftrightarrow> b"
  by (simp add: kassert_def)

lemma kassert_True [simp]: "kassert True = Some ()"
  by (simp add: kassert_def)

lemma kassert_False [simp]: "kassert False = None"
  by (simp add: kassert_def)

subsection \<open>The page loop of the code\<close>

text \<open>
  \<^verbatim>\<open>for (uintptr_t a = x; a < lim; a += RISCV_PGSIZE) body\<close>, with the
  unsigned comparison and the wrap-around of the addition as in C: a limit in the last
  page of the address space makes the loop run forever unless the body stops it.
\<close>

partial_function (option) page_for ::
  "(u64 \<Rightarrow> 's \<Rightarrow> 's option) \<Rightarrow> u64 \<Rightarrow> u64 \<Rightarrow> 's \<Rightarrow> 's option" where
  "page_for body a lim s =
     (if a < lim
      then body a s \<bind> page_for body (a + RISCV_PGSIZE) lim
      else Some s)"

definition page_count :: "u64 \<Rightarrow> u64 \<Rightarrow> nat" where
  "page_count a lim = (unat lim - unat a + 4095) div 4096"

lemma page_count_0: "\<not> a < lim \<Longrightarrow> page_count a lim = 0"
  by (simp add: page_count_def word_less_nat_alt)

lemma unat_add_page:
  assumes "a < lim" and "unat lim \<le> 2 ^ 64 - 4096"
  shows "unat (a + RISCV_PGSIZE) = unat a + 4096"
  using assms by (simp add: word_less_nat_alt unat_word_ariths)

lemma page_ceil_Suc: "0 < d \<Longrightarrow> (d + 4095) div 4096 = Suc ((d - 4096 + 4095) div (4096 :: nat))"
proof (cases "d \<le> 4096")
  case True
  assume "0 < d"
  then have "(d + 4095) div 4096 = 1"
    using True by (intro div_nat_eqI) auto
  with True show ?thesis by simp
next
  case False
  then have "d + 4095 = (d - 4096 + 4095) + 4096" by simp
  then show ?thesis by (metis div_add_self2 add.commute plus_1_eq_Suc zero_neq_numeral)
qed

lemma page_count_Suc:
  assumes "a < lim" and "unat lim \<le> 2 ^ 64 - 4096"
  shows "page_count a lim = Suc (page_count (a + RISCV_PGSIZE) lim)"
proof -
  have "unat a < unat lim" using assms(1) by (simp add: word_less_nat_alt)
  then have "0 < unat lim - unat a" by simp
  from page_ceil_Suc [OF this] show ?thesis
    unfolding page_count_def unat_add_page [OF assms] by (simp add: diff_diff_left)
qed

lemma page_for_total:
  assumes "P 0 s" and "unat lim \<le> 2 ^ 64 - 4096"
    and "\<And>i s. i < page_count a lim \<Longrightarrow> P i s \<Longrightarrow>
           \<exists>s'. body (a + of_nat i * RISCV_PGSIZE) s = Some s' \<and> P (Suc i) s'"
  shows "\<exists>s'. page_for body a lim s = Some s' \<and> P (page_count a lim) s'"
  using assms
proof (induction "page_count a lim" arbitrary: a s P)
  case 0
  then have "\<not> a < lim"
    using page_count_Suc by fastforce
  with 0 show ?case by (simp add: page_for.simps)
next
  case (Suc n)
  then have lt: "a < lim"
    using page_count_0 by fastforce
  have n: "n = page_count (a + RISCV_PGSIZE) lim"
    using Suc.hyps(2) Suc.prems(2) lt page_count_Suc by auto
  obtain s1 where s1: "body a s = Some s1" "P 1 s1"
    using Suc.prems(1) Suc.prems(3) [of 0 s] Suc.hyps(2) by auto
  have "\<exists>s'. page_for body (a + RISCV_PGSIZE) lim s1 = Some s' \<and> P (Suc (page_count (a + RISCV_PGSIZE) lim)) s'"
  proof (rule Suc.hyps(1) [OF n, where P = "\<lambda>i. P (Suc i)"])
    fix i s assume i: "i < page_count (a + RISCV_PGSIZE) lim" and P: "P (Suc i) s"
    have "a + of_nat (Suc i) * RISCV_PGSIZE = a + RISCV_PGSIZE + of_nat i * RISCV_PGSIZE"
      by (simp add: algebra_simps)
    then show "\<exists>s'. body (a + RISCV_PGSIZE + of_nat i * RISCV_PGSIZE) s = Some s' \<and> P (Suc (Suc i)) s'"
      using Suc.prems(3) [of "Suc i" s] i P Suc.hyps(2) n by (simp add: add.assoc)
  qed (use s1 Suc.prems in auto)
  then show ?case
    using lt s1 Suc.hyps(2) n by (simp add: page_for.simps [of body a])
qed

lemma page_for_partial:
  assumes "page_for body a lim s = Some s'" and "P 0 s" and "unat lim \<le> 2 ^ 64 - 4096"
    and "\<And>i s s'. i < page_count a lim \<Longrightarrow> P i s \<Longrightarrow>
           body (a + of_nat i * RISCV_PGSIZE) s = Some s' \<Longrightarrow> P (Suc i) s'"
  shows "P (page_count a lim) s'"
  using assms
proof (induction "page_count a lim" arbitrary: a s P)
  case 0
  then have "\<not> a < lim"
    using page_count_Suc by fastforce
  with 0 show ?case by (simp add: page_for.simps)
next
  case (Suc n)
  then have lt: "a < lim"
    using page_count_0 by fastforce
  have n: "n = page_count (a + RISCV_PGSIZE) lim"
    using Suc.hyps(2) Suc.prems(3) lt page_count_Suc by auto
  obtain s1 where s1: "body a s = Some s1" "page_for body (a + RISCV_PGSIZE) lim s1 = Some s'"
    using Suc.prems(1) lt by (auto simp: page_for.simps [of body a] bind_Some_iff)
  have P1: "P 1 s1"
    using Suc.prems(2) Suc.prems(4) [of 0 s s1] Suc.hyps(2) s1 by auto
  have "P (Suc (page_count (a + RISCV_PGSIZE) lim)) s'"
  proof (rule Suc.hyps(1) [OF n s1(2), where P = "\<lambda>i. P (Suc i)"])
    fix i s s' assume i: "i < page_count (a + RISCV_PGSIZE) lim" and P: "P (Suc i) s"
      and b: "body (a + RISCV_PGSIZE + of_nat i * RISCV_PGSIZE) s = Some s'"
    have "a + of_nat (Suc i) * RISCV_PGSIZE = a + RISCV_PGSIZE + of_nat i * RISCV_PGSIZE"
      by (simp add: algebra_simps)
    then show "P (Suc (Suc i)) s'"
      using Suc.prems(4) [of "Suc i" s s'] i P b Suc.hyps(2) n by (simp add: add.assoc)
  qed (use P1 Suc.prems in auto)
  then show ?case
    using Suc.hyps(2) n by simp
qed

text \<open>An invariant that every iteration keeps, whatever the bounds.\<close>

lemma page_for_inv:
  assumes ret: "page_for body a lim s = Some s'" and "P s"
    and step: "\<And>a s s'. P s \<Longrightarrow> body a s = Some s' \<Longrightarrow> P s'"
  shows "P s'"
proof -
  have "body = body \<longrightarrow> P s \<longrightarrow> P s'"
  proof (rule page_for.raw_induct [where P = "\<lambda>b a lim s s'. b = body \<longrightarrow> P s \<longrightarrow> P s'", OF _ ret])
    fix f b a lim s s'
    assume IH: "\<And>b a lim s s'. f b a lim s = Some s' \<Longrightarrow> b = body \<longrightarrow> P s \<longrightarrow> P s'"
      and eq: "(if a < lim then b a s \<bind> f b (a + RISCV_PGSIZE) lim else Some s) = Some s'"
    show "b = body \<longrightarrow> P s \<longrightarrow> P s'"
    proof (intro impI)
      assume b: "b = body" and Ps: "P s"
      show "P s'"
      proof (cases "a < lim")
        case True
        with eq obtain s1 where "b a s = Some s1" "f b (a + RISCV_PGSIZE) lim s1 = Some s'"
          by (auto simp: bind_Some_iff)
        with IH b Ps step show ?thesis by blast
      next
        case False
        with eq Ps show ?thesis by simp
      qed
    qed
  qed
  with assms(2) show ?thesis by simp
qed

subsection \<open>First index that satisfies a test\<close>

text \<open>\<^verbatim>\<open>for (i = 0; i < n; i++) if (p(i)) return i;\<close>\<close>

function scan_from :: "(nat \<Rightarrow> bool) \<Rightarrow> nat \<Rightarrow> nat \<Rightarrow> nat option" where
  "scan_from p i n =
     (if i < n then (if p i then Some i else scan_from p (Suc i) n) else None)"
  by pat_completeness auto
termination
  by (relation "measure (\<lambda>(p, i, n). n - i)") auto

declare scan_from.simps [simp del]

lemma scan_from_SomeD:
  "scan_from p i n = Some j \<Longrightarrow> i \<le> j \<and> j < n \<and> p j \<and> (\<forall>k. i \<le> k \<longrightarrow> k < j \<longrightarrow> \<not> p k)"
proof (induction p i n rule: scan_from.induct)
  case (1 p i n)
  show ?case
  proof (cases "i < n \<and> \<not> p i")
    case True
    with 1 have "Suc i \<le> j \<and> j < n \<and> p j \<and> (\<forall>k. Suc i \<le> k \<longrightarrow> k < j \<longrightarrow> \<not> p k)"
      by (simp add: scan_from.simps [of p i n])
    with True show ?thesis by (metis Suc_leI Suc_leD le_neq_implies_less)
  next
    case False
    with "1.prems" show ?thesis
      by (auto simp: scan_from.simps [of p i n] split: if_splits)
  qed
qed

lemma scan_from_NoneD: "scan_from p i n = None \<Longrightarrow> i \<le> k \<Longrightarrow> k < n \<Longrightarrow> \<not> p k"
proof (induction p i n rule: scan_from.induct)
  case (1 p i n)
  then show ?case
    by (cases "k = i") (auto simp: scan_from.simps [of p i n] split: if_splits)
qed

lemma scan_from_None_iff: "scan_from p 0 n = None \<longleftrightarrow> (\<forall>k < n. \<not> p k)"
  by (metis le0 not_Some_eq scan_from_NoneD scan_from_SomeD)

subsection \<open>Counting under a point update\<close>

text \<open>How many indices below a bound satisfy a test, and how one update changes it.\<close>

definition tally :: "nat \<Rightarrow> (nat \<Rightarrow> bool) \<Rightarrow> nat" where
  "tally n p = card {i. i < n \<and> p i}"

lemma tally_remove:
  assumes "i < n"
  shows "tally n p = card ({j. j < n \<and> p j} - {i}) + (if p i then 1 else 0)"
proof (cases "p i")
  case True
  with assms have "i \<in> {j. j < n \<and> p j}" by simp
  then have "card {j. j < n \<and> p j} = Suc (card ({j. j < n \<and> p j} - {i}))"
    by (intro card.remove) auto
  with True show ?thesis by (simp add: tally_def)
next
  case False
  then have "{j. j < n \<and> p j} - {i} = {j. j < n \<and> p j}" by auto
  with False show ?thesis by (simp add: tally_def)
qed

lemma tally_update:
  assumes "i < n" and "\<And>j. j \<noteq> i \<Longrightarrow> q j = p j"
  shows "tally n q + (if p i then 1 else 0) = tally n p + (if q i then 1 else 0)"
proof -
  have "{j. j < n \<and> q j} - {i} = {j. j < n \<and> p j} - {i}"
    using assms(2) by (auto; metis)
  then show ?thesis
    using tally_remove [OF assms(1), of p] tally_remove [OF assms(1), of q] by simp
qed

lemma tally_fun_upd:
  assumes "i < n"
  shows "tally n (\<lambda>j. p ((g(i := v)) j)) + (if p (g i) then 1 else 0) =
    tally n (\<lambda>j. p (g j)) + (if p v then 1 else 0)"
  using tally_update [OF assms, of "\<lambda>j. p ((g(i := v)) j)" "\<lambda>j. p (g j)"] by simp

lemma tally_cong: "(\<And>i. i < n \<Longrightarrow> p i = q i) \<Longrightarrow> tally n p = tally n q"
  unfolding tally_def by (rule arg_cong [where f = card]) auto

lemma tally_zero: "(\<And>i. i < n \<Longrightarrow> \<not> p i) \<Longrightarrow> tally n p = 0"
  by (simp add: tally_def card_eq_0_iff)

lemma tally_pos: "i < n \<Longrightarrow> p i \<Longrightarrow> 0 < tally n p"
  by (auto simp: tally_def card_gt_0_iff)

lemma tally_le: "tally n p \<le> n"
proof -
  have "card {i. i < n \<and> p i} \<le> card {..<n}"
    by (rule card_mono) auto
  then show ?thesis by (simp add: tally_def)
qed

end
