(* ===== verification/Bytes.thy ===== *)
theory Bytes
  imports Prelude
begin

text \<open>
  Byte-addressed memory and little-endian accesses of one to eight bytes, the way the
  hardware performs the \<^verbatim>\<open>uint8_t\<close> to \<^verbatim>\<open>uint64_t\<close> loads and stores of the C code.
  The lemmas describe a multi-byte access byte by byte and bit by bit.
\<close>

type_synonym mem = "u64 \<Rightarrow> u8"

primrec load_le :: "nat \<Rightarrow> mem \<Rightarrow> u64 \<Rightarrow> u64" where
  "load_le 0 m a = 0"
| "load_le (Suc n) m a = ucast (m a) OR push_bit 8 (load_le n m (a + 1))"

primrec store_le :: "nat \<Rightarrow> mem \<Rightarrow> u64 \<Rightarrow> u64 \<Rightarrow> mem" where
  "store_le 0 m a v = m"
| "store_le (Suc n) m a v = store_le n (m(a := ucast v)) (a + 1) (drop_bit 8 v)"

abbreviation load64 :: "mem \<Rightarrow> u64 \<Rightarrow> u64" where "load64 \<equiv> load_le 8"
abbreviation store64 :: "mem \<Rightarrow> u64 \<Rightarrow> u64 \<Rightarrow> mem" where "store64 \<equiv> store_le 8"

lemma bit_load_le:
  "bit (load_le n m a) k \<longleftrightarrow> k < 64 \<and> k < 8 * n \<and> bit (m (a + of_nat (k div 8))) (k mod 8)"
proof (induction n arbitrary: a k)
  case 0
  then show ?case by simp
next
  case (Suc n)
  show ?case
  proof (cases "k < 8")
    case True
    then show ?thesis
      by (auto simp: bit_or_iff bit_push_bit_iff bit_unsigned_iff)
  next
    case False
    then have k: "k div 8 = Suc ((k - 8) div 8)" "k mod 8 = (k - 8) mod 8"
      by (metis le_div_geq not_less zero_less_numeral, metis le_mod_geq not_less)
    have a: "a + 1 + of_nat ((k - 8) div 8) = a + (of_nat (k div 8) :: u64)"
      by (simp add: k)
    have big: "\<not> bit (m a) k"
      using False not_bit_beyond [where w = "m a" and k = k] by simp
    show ?thesis
      using False big Suc.IH [of "a + 1" "k - 8"]
      by (auto simp: bit_or_iff bit_push_bit_iff bit_unsigned_iff a k(2))
  qed
qed

lemma store_le_other:
  "(\<And>i. i < n \<Longrightarrow> x \<noteq> a + of_nat i) \<Longrightarrow> store_le n m a v x = m x"
proof (induction n arbitrary: m a v)
  case 0
  then show ?case by simp
next
  case (Suc n)
  have "x \<noteq> a" using Suc.prems [of 0] by simp
  moreover have "x \<noteq> a + 1 + of_nat i" if "i < n" for i
    using Suc.prems [of "Suc i"] that by (simp add: algebra_simps)
  ultimately show ?case using Suc.IH by simp
qed

lemma store_le_same:
  assumes "i < n" and "n \<le> 8"
  shows "store_le n m a v (a + of_nat i) = ucast (drop_bit (8 * i) v)"
  using assms
proof (induction n arbitrary: m a v i)
  case 0
  then show ?case by simp
next
  case (Suc n)
  show ?case
  proof (cases i)
    case 0
    have "a \<noteq> a + 1 + of_nat j" if "j < n" for j
    proof -
      have "unat (of_nat (Suc j) :: u64) = Suc j"
        using that Suc.prems by (intro unat_of_nat64) simp
      then have "(of_nat (Suc j) :: u64) \<noteq> 0" by auto
      then show ?thesis by (simp add: algebra_simps)
    qed
    then show ?thesis using 0 by (simp add: store_le_other)
  next
    case (Suc j)
    have a: "a + of_nat i = a + 1 + of_nat j" using Suc by simp
    have "store_le (Suc n) m a v (a + of_nat i) = ucast (drop_bit (8 * j) (drop_bit 8 v))"
      unfolding a store_le.simps using Suc.prems Suc by (intro Suc.IH) simp_all
    then show ?thesis
      using Suc by (simp add: drop_bit_drop_bit add.commute)
  qed
qed

lemma byte_load_le:
  assumes "i < n" and "n \<le> 8"
  shows "(ucast (drop_bit (8 * i) (load_le n m a)) :: u8) = m (a + of_nat i)"
proof (rule bit_word_eqI)
  fix k assume "k < LENGTH(8)"
  then show "bit ((ucast (drop_bit (8 * i) (load_le n m a)) :: u8)) k \<longleftrightarrow> bit (m (a + of_nat i)) k"
    using assms by (auto simp: bit_unsigned_iff bit_drop_bit_eq bit_load_le)
qed

text \<open>Reading back what was written, cut to the width of the access.\<close>

lemma load_store_le:
  assumes "n \<le> 8"
  shows "load_le n (store_le n m a v) a = take_bit (8 * n) v"
proof (rule bit_word_eqI)
  fix k assume "k < LENGTH(64)"
  then show "bit (load_le n (store_le n m a v) a) k \<longleftrightarrow> bit (take_bit (8 * n) v) k"
    using assms
    by (auto simp: bit_load_le bit_take_bit_iff bit_unsigned_iff bit_drop_bit_eq store_le_same
        less_mult_imp_div_less mult.commute)
qed

text \<open>Copying an access of eight bytes copies eight bytes.\<close>

lemma store_load64:
  "i < 8 \<Longrightarrow> store64 m d (load64 m s) (d + of_nat i) = m (s + of_nat i)"
  by (simp only: store_le_same [OF _ order_refl] byte_load_le [OF _ order_refl])

subsection \<open>Bytes at an address\<close>

definition span :: "u64 \<Rightarrow> nat \<Rightarrow> u64 set" where
  "span a n = {x. unat a \<le> unat x \<and> unat x < unat a + n}"

lemma in_span: "i < n \<Longrightarrow> unat a + n \<le> 2 ^ 64 \<Longrightarrow> a + of_nat i \<in> span a n"
  by (simp add: span_def unat_word_ariths unat_of_nat64)

lemma spanE:
  assumes "x \<in> span a n"
  obtains i where "i < n" "x = a + of_nat i"
proof
  show "unat x - unat a < n"
    using assms by (auto simp: span_def)
  show "x = a + of_nat (unat x - unat a)"
    using assms by (simp add: span_def of_nat_diff)
qed

lemma span_mono: "n \<le> m \<Longrightarrow> span a n \<subseteq> span a m"
  by (auto simp: span_def)

definition word_bytes :: "u64 \<Rightarrow> u8 list" where
  "word_bytes v = map (\<lambda>i. ucast (drop_bit (8 * i) v)) [0..<8]"

lemma length_word_bytes [simp]: "length (word_bytes v) = 8"
  by (simp add: word_bytes_def)

lemma load64_bytes:
  assumes "\<And>i. i < 8 \<Longrightarrow> m (a + of_nat i) = word_bytes v ! i"
  shows "load64 m a = v"
proof (rule bit_word_eqI)
  fix k
  assume k: "k < LENGTH(64)"
  then have "m (a + of_nat (k div 8)) = word_bytes v ! (k div 8)"
    by (intro assms) simp
  then show "bit (load64 m a) k = bit v k"
    using k by (simp add: bit_load_le word_bytes_def bit_unsigned_iff bit_drop_bit_eq)
qed

lemma load64_list:
  assumes "map (\<lambda>i. m (a + of_nat i)) [0..<8] = word_bytes v"
  shows "load64 m a = v"
proof (rule load64_bytes)
  fix i :: nat
  assume "i < 8"
  then show "m (a + of_nat i) = word_bytes v ! i"
    using arg_cong [OF assms, of "\<lambda>xs. xs ! i"] by simp
qed

lemma bytes_load64: "i < 8 \<Longrightarrow> word_bytes (load64 m a) ! i = m (a + of_nat i)"
  by (simp add: word_bytes_def byte_load_le)

subsection \<open>Accesses apart from each other\<close>

lemma in_spanI: "x \<in> span a n \<Longrightarrow> n \<le> m \<Longrightarrow> x \<in> span a m"
  using span_mono by blast

lemma span_disjoint: "unat a + n \<le> unat b \<or> unat b + m \<le> unat a \<Longrightarrow> span a n \<inter> span b m = {}"
  by (auto simp: span_def)

lemma load_le_cong:
  "(\<And>i. i < n \<Longrightarrow> m (a + of_nat i) = m' (a + of_nat i)) \<Longrightarrow> load_le n m a = load_le n m' a"
  by (rule bit_word_eqI) (auto simp: bit_load_le)

lemma load_le_span:
  assumes "unat a + n \<le> 2 ^ 64" "\<And>x. x \<in> span a n \<Longrightarrow> m x = m' x"
  shows "load_le n m a = load_le n m' a"
  by (rule load_le_cong, rule assms(2), erule in_span [OF _ assms(1)])

lemma store_le_outside: "x \<notin> span a n \<Longrightarrow> unat a + n \<le> 2 ^ 64 \<Longrightarrow> store_le n m a v x = m x"
  by (rule store_le_other) (auto dest: in_span)

lemma load_store_disjoint:
  assumes "span a n \<inter> span b k = {}" "unat a + n \<le> 2 ^ 64" "unat b + k \<le> 2 ^ 64"
  shows "load_le n (store_le k m b v) a = load_le n m a"
proof (rule load_le_span [OF assms(2)])
  fix x
  assume "x \<in> span a n"
  then have "x \<notin> span b k"
    using assms(1) by blast
  then show "store_le k m b v x = m x"
    using assms(3) by (rule store_le_outside)
qed

lemma load_store_apart:
  "unat a + n \<le> unat b \<or> unat b + k \<le> unat a \<Longrightarrow> unat a + n \<le> 2 ^ 64 \<Longrightarrow> unat b + k \<le> 2 ^ 64 \<Longrightarrow>
   load_le n (store_le k m b v) a = load_le n m a"
  by (intro load_store_disjoint span_disjoint)

lemma load_store64 [simp]: "load64 (store64 m a v) a = v"
  by (simp add: load_store_le take_bit_word_eq_self)

subsection \<open>A list of bytes laid out in memory\<close>

primrec put_bytes :: "u64 \<Rightarrow> u8 list \<Rightarrow> mem \<Rightarrow> mem" where
  "put_bytes a [] m = m"
| "put_bytes a (b # bs) m = put_bytes (a + 1) bs (m(a := b))"

lemma put_bytes_snoc: "put_bytes a (bs @ [b]) m = (put_bytes a bs m)(a + of_nat (length bs) := b)"
  by (induction bs arbitrary: a m) (simp_all add: algebra_simps)

lemma put_bytes_outside:
  "x \<notin> span a (length bs) \<Longrightarrow> unat a + length bs \<le> 2 ^ 64 \<Longrightarrow> put_bytes a bs m x = m x"
proof (induction bs rule: rev_induct)
  case (snoc b bs)
  have "a + of_nat (length bs) \<in> span a (length (bs @ [b]))"
    using snoc.prems(2) by (intro in_span) simp_all
  moreover have "x \<notin> span a (length bs)"
    using snoc.prems(1) in_spanI [of x a "length bs"] by auto
  ultimately show ?case
    using snoc by (auto simp: put_bytes_snoc)
qed simp

lemma put_bytes_inside:
  "i < length bs \<Longrightarrow> unat a + length bs \<le> 2 ^ 64 \<Longrightarrow> put_bytes a bs m (a + of_nat i) = bs ! i"
proof (induction bs rule: rev_induct)
  case (snoc b bs)
  have "(of_nat i :: u64) \<noteq> of_nat (length bs)" if "i \<noteq> length bs"
    using that snoc.prems unat_of_nat64 [of i] unat_of_nat64 [of "length bs"] by fastforce
  then show ?case
    using snoc by (auto simp: put_bytes_snoc nth_append less_Suc_eq)
qed simp

end
