(* ===== verification/CString.thy ===== *)
theory CString
  imports Bytes
begin

text \<open>
  The freestanding string library of the proxy kernel, \<^verbatim>\<open>riscv-pk/util/string.c\<close>,
  over byte memory.  Pointers are 64-bit words and pointer arithmetic wraps; a scan for
  a NUL byte is a partial function, since nothing but the memory bounds it.
  \<^theory_text>\<open>blit\<close> and \<^theory_text>\<open>fill\<close> say what \<^verbatim>\<open>memcpy\<close> and \<^verbatim>\<open>memset\<close> should do to memory,
  \<^theory_text>\<open>cstring\<close> what a NUL-terminated string at an address is.
\<close>

subsection \<open>memcpy\<close>

partial_function (option) memcpy_words ::
  "mem \<Rightarrow> u64 \<Rightarrow> u64 \<Rightarrow> u64 \<Rightarrow> (mem \<times> u64 \<times> u64) option" where
  "memcpy_words m d s lim =
     (if d < lim then memcpy_words (store64 m d (load64 m s)) (d + 8) (s + 8) lim
      else Some (m, d, s))"

partial_function (option) memcpy_bytes :: "mem \<Rightarrow> u64 \<Rightarrow> u64 \<Rightarrow> u64 \<Rightarrow> mem option" where
  "memcpy_bytes m d s lim =
     (if d < lim then memcpy_bytes (m(d := m s)) (d + 1) (s + 1) lim else Some m)"

definition memcpy :: "mem \<Rightarrow> u64 \<Rightarrow> u64 \<Rightarrow> u64 \<Rightarrow> mem option" where
  "memcpy m dest src len =
     do {
       (m1, d, s) \<leftarrow>
         (if (dest OR src) AND 7 = 0
          then memcpy_words m dest src (dest + len - 7)
          else Some (m, dest, src));
       memcpy_bytes m1 d s (dest + len)
     }"

subsection \<open>memset\<close>

partial_function (option) memset_words :: "mem \<Rightarrow> u64 \<Rightarrow> u64 \<Rightarrow> u64 \<Rightarrow> mem option" where
  "memset_words m d lim w =
     (if d < lim then memset_words (store64 m d w) (d + 8) lim w else Some m)"

partial_function (option) memset_bytes :: "mem \<Rightarrow> u64 \<Rightarrow> u64 \<Rightarrow> u8 \<Rightarrow> mem option" where
  "memset_bytes m d lim b =
     (if d < lim then memset_bytes (m(d := b)) (d + 1) lim b else Some m)"

definition memset_word :: "u32 \<Rightarrow> u64" where
  "memset_word byte =
     (let w0 = scast byte AND 0xFF;
          w1 = w0 OR push_bit 8 w0;
          w2 = w1 OR push_bit 16 w1
      in w2 OR push_bit 16 (push_bit 16 w2))"

definition memset :: "mem \<Rightarrow> u64 \<Rightarrow> u32 \<Rightarrow> u64 \<Rightarrow> mem option" where
  "memset m dest byte len =
     (if (dest OR len) AND 7 = 0
      then memset_words m dest (dest + len) (memset_word byte)
      else memset_bytes m dest (dest + len) (ucast byte))"

subsection \<open>Strings\<close>

partial_function (option) strlen_loop :: "mem \<Rightarrow> u64 \<Rightarrow> u64 option" where
  "strlen_loop m p = (if m p \<noteq> 0 then strlen_loop m (p + 1) else Some p)"

definition strlen :: "mem \<Rightarrow> u64 \<Rightarrow> u64 option" where
  "strlen m s = do { p \<leftarrow> strlen_loop m s; Some (p - s) }"

partial_function (option) strcmp :: "mem \<Rightarrow> u64 \<Rightarrow> u64 \<Rightarrow> int option" where
  "strcmp m s1 s2 =
     (let c1 = m s1; c2 = m s2
      in if c1 \<noteq> 0 \<and> c1 = c2 then strcmp m (s1 + 1) (s2 + 1)
         else Some (uint c1 - uint c2))"

partial_function (option) strcpy :: "mem \<Rightarrow> u64 \<Rightarrow> u64 \<Rightarrow> mem option" where
  "strcpy m d s =
     (let c = m s; m1 = m(d := c)
      in if c \<noteq> 0 then strcpy m1 (d + 1) (s + 1) else Some m1)"

partial_function (option) atol_spaces :: "mem \<Rightarrow> u64 \<Rightarrow> u64 option" where
  "atol_spaces m s = (if m s = 0x20 then atol_spaces m (s + 1) else Some s)"

partial_function (option) atol_digits :: "mem \<Rightarrow> u64 \<Rightarrow> u64 \<Rightarrow> u64 option" where
  "atol_digits m s res =
     (if m s \<noteq> 0 then atol_digits m (s + 1) (res * 10 + (ucast (m s) - 0x30)) else Some res)"

definition atol :: "mem \<Rightarrow> u64 \<Rightarrow> u64 option" where
  "atol m str =
     do {
       s \<leftarrow> atol_spaces m str;
       let sign = (m s = 0x2D);
       let s1 = (if m s = 0x2D \<or> m s = 0x2B then s + 1 else s);
       res \<leftarrow> atol_digits m s1 0;
       Some (if sign then - res else res)
     }"

subsection \<open>What memcpy does: blit\<close>

definition blit :: "mem \<Rightarrow> u64 \<Rightarrow> u64 \<Rightarrow> nat \<Rightarrow> mem" where
  "blit m d s n = (\<lambda>x. if unat (x - d) < n then m (s + (x - d)) else m x)"

definition fill :: "mem \<Rightarrow> u64 \<Rightarrow> u8 \<Rightarrow> nat \<Rightarrow> mem" where
  "fill m d b n = (\<lambda>x. if unat (x - d) < n then b else m x)"

lemma blit_0 [simp]: "blit m d s 0 = m"
  by (simp add: blit_def)

lemma fill_0 [simp]: "fill m d b 0 = m"
  by (simp add: fill_def)

lemma offset_eq: "n < 2 ^ 64 \<Longrightarrow> unat (x - d) = n \<longleftrightarrow> x = d + (of_nat n :: u64)"
proof -
  assume n: "n < 2 ^ 64"
  have "unat (x - d) = n \<longleftrightarrow> x - d = of_nat n"
    using unat_of_nat64 [OF n] by (simp add: word_unat_eq_iff)
  then show ?thesis by (auto simp: algebra_simps)
qed

lemma offset_of_nat: "n < 2 ^ 64 \<Longrightarrow> unat (d + of_nat n - (d :: u64)) = n"
  by (simp add: unat_of_nat64)

lemma source_intact:
  assumes "unat (s - d) + n \<le> 2 ^ 64" and "k < n" and "j \<le> k"
  shows "\<not> unat (s + of_nat k - d :: u64) < j"
proof -
  have "k < 2 ^ 64" using assms by linarith
  then have "unat (s - d + of_nat k) = unat (s - d) + k"
    using assms by (simp add: unat_word_ariths unat_of_nat64)
  moreover have "s + of_nat k - d = s - d + of_nat k" by simp
  ultimately show ?thesis using assms by (simp only:)
qed

lemma blit_source:
  "unat (s - d) + n \<le> 2 ^ 64 \<Longrightarrow> k < n \<Longrightarrow> j \<le> k \<Longrightarrow> blit m d s j (s + of_nat k) = m (s + of_nat k)"
  using source_intact by (simp add: blit_def)

lemma blit_byte:
  assumes "unat (s - d) + n \<le> 2 ^ 64" and "k < n" and "n < 2 ^ 64"
  shows "(blit m d s k)(d + of_nat k := blit m d s k (s + of_nat k)) = blit m d s (Suc k)"
proof (rule ext)
  fix x
  have "blit m d s k (s + of_nat k) = m (s + of_nat k)"
    using assms by (intro blit_source) auto
  then show "((blit m d s k)(d + of_nat k := blit m d s k (s + of_nat k))) x = blit m d s (Suc k) x"
    using offset_eq [of k x d] assms by (auto simp: blit_def less_Suc_eq)
qed

lemma blit_word:
  assumes "unat (s - d) + n \<le> 2 ^ 64" and "k + 8 \<le> n" and "n < 2 ^ 64"
  shows "store64 (blit m d s k) (d + of_nat k) (load64 (blit m d s k) (s + of_nat k))
         = blit m d s (k + 8)"
proof (rule ext)
  fix x
  let ?b = "blit m d s k"
  show "store64 ?b (d + of_nat k) (load64 ?b (s + of_nat k)) x = blit m d s (k + 8) x"
  proof (cases "unat (x - d) \<ge> k \<and> unat (x - d) < k + 8")
    case True
    define i where "i = unat (x - d) - k"
    have i: "i < 8" "unat (x - d) = k + i" using True by (auto simp: i_def)
    have x: "x = d + of_nat k + of_nat i"
      using offset_eq [of "k + i" x d] i assms by simp
    have src: "?b (s + of_nat (k + i)) = m (s + of_nat (k + i))"
      using assms i by (intro blit_source) auto
    have "store64 ?b (d + of_nat k) (load64 ?b (s + of_nat k)) x = ?b (s + of_nat k + of_nat i)"
      unfolding x by (rule store_load64) (rule i)
    also have "\<dots> = m (s + of_nat (k + i))"
      using src by (simp add: add.assoc)
    also have "of_nat (k + i) = x - d"
      by (simp add: x)
    finally show ?thesis
      using i by (simp add: blit_def)
  next
    case False
    have "x \<noteq> d + of_nat k + of_nat i" if "i < 8" for i
      using False that assms offset_of_nat [of "k + i" d] by auto
    then have "store64 ?b (d + of_nat k) (load64 ?b (s + of_nat k)) x = ?b x"
      by (intro store_le_other) auto
    then show ?thesis using False by (auto simp: blit_def)
  qed
qed


text \<open>The two loops of \<^verbatim>\<open>memcpy\<close>, from the state in which \<open>k\<close> bytes are copied.\<close>

lemma memcpy_bytes_blit:
  assumes "unat (s - d) + n \<le> 2 ^ 64" and "unat d + n < 2 ^ 64" and "k \<le> n"
  shows "memcpy_bytes (blit m d s k) (d + of_nat k) (s + of_nat k) (d + of_nat n) = Some (blit m d s n)"
  using assms(3)
proof (induction "n - k" arbitrary: k)
  case 0
  then show ?case by (simp add: memcpy_bytes.simps)
next
  case (Suc j)
  then have k: "k < n" by simp
  have "d + of_nat k < d + of_nat n"
    using assms(2) k by (simp add: word_less_nat_alt unat_word_ariths unat_of_nat64)
  moreover have "memcpy_bytes (blit m d s (Suc k)) (d + of_nat (Suc k)) (s + of_nat (Suc k))
      (d + of_nat n) = Some (blit m d s n)"
    using Suc k by (intro Suc.hyps(1)) auto
  moreover have "(blit m d s k)(d + of_nat k := blit m d s k (s + of_nat k)) = blit m d s (Suc k)"
    using assms k by (intro blit_byte [where n = n]) auto
  ultimately show ?case
    by (simp add: memcpy_bytes.simps [of "blit m d s k"] add_ac del: fun_upd_apply)
qed

lemma memcpy_words_blit:
  assumes "unat (s - d) + n \<le> 2 ^ 64" and "unat d + n < 2 ^ 64" and "7 \<le> unat d + n"
    and "k \<le> n"
  shows "\<exists>j. k \<le> j \<and> j \<le> n \<and>
    memcpy_words (blit m d s k) (d + of_nat k) (s + of_nat k) (d + of_nat n - 7)
      = Some (blit m d s j, d + of_nat j, s + of_nat j)"
  using assms(4)
proof (induction "n - k" arbitrary: k rule: less_induct)
  case less
  have "unat (d + of_nat n - 7) = unat d + n - 7"
    using assms by (subst unat_sub) (simp_all add: word_le_nat_alt unat_word_ariths unat_of_nat64)
  then have guard: "d + of_nat k < d + of_nat n - 7 \<longleftrightarrow> k + 7 < n"
    using assms less.prems by (simp add: word_less_nat_alt unat_word_ariths unat_of_nat64) linarith
  show ?case
  proof (cases "k + 7 < n")
    case True
    have "\<exists>j. k + 8 \<le> j \<and> j \<le> n \<and>
      memcpy_words (blit m d s (k + 8)) (d + of_nat (k + 8)) (s + of_nat (k + 8)) (d + of_nat n - 7)
        = Some (blit m d s j, d + of_nat j, s + of_nat j)"
      using True by (intro less.hyps) auto
    then obtain j where "k + 8 \<le> j" "j \<le> n" and
      "memcpy_words (blit m d s (k + 8)) (d + of_nat (k + 8)) (s + of_nat (k + 8)) (d + of_nat n - 7)
        = Some (blit m d s j, d + of_nat j, s + of_nat j)"
      by blast
    moreover have "store64 (blit m d s k) (d + of_nat k) (load64 (blit m d s k) (s + of_nat k))
        = blit m d s (k + 8)"
      using assms True by (intro blit_word [where n = n]) auto
    ultimately show ?thesis
      using guard True
      by (intro exI [of _ j])
        (simp add: memcpy_words.simps [of "blit m d s k"] add.assoc del: load_le.simps store_le.simps)
  next
    case False
    then have "memcpy_words (blit m d s k) (d + of_nat k) (s + of_nat k) (d + of_nat n - 7)
        = Some (blit m d s k, d + of_nat k, s + of_nat k)"
      using guard by (simp add: memcpy_words.simps)
    then show ?thesis using less.prems by blast
  qed
qed

lemma memcpy_blit:
  assumes "unat (src - dest) + unat len \<le> 2 ^ 64" and "unat dest + unat len < 2 ^ 64"
    and "dest \<noteq> 0"
  shows "memcpy m dest src len = Some (blit m dest src (unat len))"
proof (cases "(dest OR src) AND 7 = 0")
  case False
  then show ?thesis
    using memcpy_bytes_blit [OF assms(1,2), of 0 m] by (simp add: memcpy_def)
next
  case True
  have "dest AND 7 = 0"
    using True by (simp add: bit.conj_disj_distrib2 or_eq_0_iff)
  then have "unat dest mod 8 = 0"
    by (simp flip: unat_and_7)
  moreover have "unat dest \<noteq> 0"
    using assms(3) by (simp add: unat_eq_0)
  ultimately have "7 \<le> unat dest + unat len"
    by (cases "unat dest < 8") auto
  then obtain j where j: "j \<le> unat len" and
    "memcpy_words m dest src (dest + len - 7)
       = Some (blit m dest src j, dest + of_nat j, src + of_nat j)"
    using memcpy_words_blit [OF assms(1,2), of 0 m] by auto
  with True show ?thesis
    using memcpy_bytes_blit [OF assms(1,2) j, of m] by (simp add: memcpy_def)
qed

subsection \<open>What memset does: fill\<close>

lemma memset_word_bytes:
  assumes "i < 8"
  shows "ucast (drop_bit (8 * i) (memset_word byte)) = (ucast byte :: u8)"
proof (rule bit_word_eqI)
  fix k assume k: "k < LENGTH(8)"
  have ff: "bit (0xFF :: u64) j \<longleftrightarrow> j < 8" for j
    using bit_mask_iff [where 'a = u64, of 8 j] by (auto simp: mask_numeral)
  have ff8: "bit (0xFF :: u8) j \<longleftrightarrow> j < 8" for j
    using bit_mask_iff [where 'a = u8, of 8 j] by (auto simp: mask_numeral)
  have ffi: "bit (0xFF :: int) j \<longleftrightarrow> j < 8" for j
    using bit_mask_iff [where 'a = int, of 8 j] by (auto simp: mask_numeral)
  have ff32: "bit (0xFF :: u32) j \<longleftrightarrow> j < 8" for j
    using bit_mask_iff [where 'a = u32, of 8 j] by (auto simp: mask_numeral)
  have "i \<in> {0, 1, 2, 3, 4, 5, 6, 7}" using assms by auto
  then show "bit (ucast (drop_bit (8 * i) (memset_word byte)) :: u8) k \<longleftrightarrow> bit (ucast byte :: u8) k"
    using k
    by (elim insertE emptyE)
      (simp_all add: memset_word_def Let_def bit_simps ff ff8 ff32 ffi)
qed

lemma fill_byte: "k < 2 ^ 64 \<Longrightarrow> (fill m d b k)(d + of_nat k := b) = fill m d b (Suc k)"
  by (rule ext) (auto simp: fill_def less_Suc_eq offset_eq [of k _ d])

lemma fill_word:
  assumes "k + 8 < 2 ^ 64"
  shows "store64 (fill m d (ucast byte) k) (d + of_nat k) (memset_word byte) = fill m d (ucast byte) (k + 8)"
proof (rule ext)
  fix x
  let ?f = "fill m d (ucast byte) k"
  show "store64 ?f (d + of_nat k) (memset_word byte) x = fill m d (ucast byte) (k + 8) x"
  proof (cases "unat (x - d) \<ge> k \<and> unat (x - d) < k + 8")
    case True
    define i where "i = unat (x - d) - k"
    have i: "i < 8" "unat (x - d) = k + i" using True by (auto simp: i_def)
    have x: "x = d + of_nat k + of_nat i"
      using offset_eq [of "k + i" x d] i assms by simp
    show ?thesis
      using i unfolding x store_le_same [OF i(1) order_refl] memset_word_bytes [OF i(1)]
      by (simp add: fill_def x [symmetric])
  next
    case False
    have "x \<noteq> d + of_nat k + of_nat i" if "i < 8" for i
      using False that assms offset_of_nat [of "k + i" d] by auto
    then have "store64 ?f (d + of_nat k) (memset_word byte) x = ?f x"
      by (intro store_le_other) auto
    then show ?thesis using False by (auto simp: fill_def)
  qed
qed

lemma memset_bytes_fill:
  assumes "unat d + n < 2 ^ 64" and "k \<le> n"
  shows "memset_bytes (fill m d b k) (d + of_nat k) (d + of_nat n) b = Some (fill m d b n)"
  using assms(2)
proof (induction "n - k" arbitrary: k)
  case 0
  then show ?case by (simp add: memset_bytes.simps)
next
  case (Suc j)
  then have k: "k < n" by simp
  have "d + of_nat k < d + of_nat n"
    using assms(1) k by (simp add: word_less_nat_alt unat_word_ariths unat_of_nat64)
  moreover have "memset_bytes (fill m d b (Suc k)) (d + of_nat (Suc k)) (d + of_nat n) b
      = Some (fill m d b n)"
    using Suc k by (intro Suc.hyps(1)) auto
  moreover have "(fill m d b k)(d + of_nat k := b) = fill m d b (Suc k)"
    using assms k by (intro fill_byte) auto
  ultimately show ?case
    by (simp add: memset_bytes.simps [of "fill m d b k"] add_ac del: fun_upd_apply)
qed

lemma memset_words_fill:
  assumes "unat d + 8 * n < 2 ^ 64" and "k \<le> n"
  shows "memset_words (fill m d (ucast byte) (8 * k)) (d + of_nat (8 * k)) (d + of_nat (8 * n))
           (memset_word byte) = Some (fill m d (ucast byte) (8 * n))"
  using assms(2)
proof (induction "n - k" arbitrary: k)
  case 0
  then show ?case by (simp add: memset_words.simps)
next
  case (Suc j)
  then have k: "k < n" by simp
  have "d + of_nat (8 * k) < d + of_nat (8 * n)"
    using assms(1) k
    by (simp add: word_less_nat_alt unat_word_ariths unat_of_nat64 del: of_nat_mult)
  moreover have "memset_words (fill m d (ucast byte) (8 * Suc k)) (d + of_nat (8 * Suc k))
      (d + of_nat (8 * n)) (memset_word byte) = Some (fill m d (ucast byte) (8 * n))"
    using Suc k by (intro Suc.hyps(1)) auto
  moreover have "store64 (fill m d (ucast byte) (8 * k)) (d + of_nat (8 * k)) (memset_word byte)
      = fill m d (ucast byte) (8 * Suc k)"
    using assms k fill_word [of "8 * k" m d byte] by (simp add: add.commute)
  ultimately show ?case
    by (simp add: memset_words.simps [of "fill m d (ucast byte) (8 * k)"] add_ac
        del: load_le.simps store_le.simps)
qed

lemma memset_fill:
  assumes "unat dest + unat len < 2 ^ 64"
  shows "memset m dest byte len = Some (fill m dest (ucast byte) (unat len))"
proof (cases "(dest OR len) AND 7 = 0")
  case False
  then show ?thesis
    using memset_bytes_fill [OF assms, of 0 m] by (simp add: memset_def)
next
  case True
  have "len AND 7 = 0"
    using True by (simp add: bit.conj_disj_distrib2 or_eq_0_iff)
  then have "unat len mod 8 = 0"
    by (simp flip: unat_and_7)
  then obtain n where n: "unat len = 8 * n" by auto
  moreover have "(of_nat (unat len) :: u64) = len"
    by simp
  ultimately have "len = of_nat (8 * n)"
    by (simp only:)
  then show ?thesis
    using memset_words_fill [of dest n 0 m byte] True assms n by (simp add: memset_def)
qed

subsection \<open>NUL-terminated strings\<close>

text \<open>\<^theory_text>\<open>cstring m a xs\<close>: the string at \<open>a\<close> has the non-NUL bytes \<open>xs\<close>.\<close>

primrec cstring :: "mem \<Rightarrow> u64 \<Rightarrow> u8 list \<Rightarrow> bool" where
  "cstring m a [] = (m a = 0)"
| "cstring m a (x # xs) = (m a = x \<and> x \<noteq> 0 \<and> cstring m (a + 1) xs)"

lemma strlen_loop_cstring: "cstring m a xs \<Longrightarrow> strlen_loop m a = Some (a + of_nat (length xs))"
  by (induction xs arbitrary: a) (simp_all add: strlen_loop.simps add.assoc)

lemma strlen_cstring: "cstring m a xs \<Longrightarrow> strlen m a = Some (of_nat (length xs))"
  by (simp add: strlen_def strlen_loop_cstring)

text \<open>What \<^verbatim>\<open>strcmp\<close> computes: the difference at the first place where the strings differ.\<close>

fun first_difference :: "u8 list \<Rightarrow> u8 list \<Rightarrow> int" where
  "first_difference [] [] = 0"
| "first_difference [] (y # ys) = - uint y"
| "first_difference (x # xs) [] = uint x"
| "first_difference (x # xs) (y # ys) =
     (if x = y then first_difference xs ys else uint x - uint y)"

lemma strcmp_cstring:
  "cstring m a xs \<Longrightarrow> cstring m b ys \<Longrightarrow> strcmp m a b = Some (first_difference xs ys)"
  by (induction xs ys arbitrary: a b rule: first_difference.induct)
    (simp_all add: strcmp.simps Let_def)

lemma first_difference_0:
  assumes "0 \<notin> set xs" and "0 \<notin> set ys"
  shows "first_difference xs ys = 0 \<longleftrightarrow> xs = ys"
  using assms
  by (induction xs ys rule: first_difference.induct)
    (auto simp: unsigned_eq_0_iff dest: unsigned_word_eqI)

lemma cstring_nonzero: "cstring m a xs \<Longrightarrow> 0 \<notin> set xs"
  by (induction xs arbitrary: a) auto

lemma cstring_nth: "cstring m a xs \<Longrightarrow> i < length xs \<Longrightarrow> m (a + of_nat i) = xs ! i"
proof (induction xs arbitrary: a i)
  case Nil
  then show ?case by simp
next
  case (Cons x xs)
  then show ?case
    by (cases i) (auto simp: add.assoc [symmetric] dest: Cons.IH [of "a + 1"])
qed

lemma cstring_end: "cstring m a xs \<Longrightarrow> m (a + of_nat (length xs)) = 0"
proof (induction xs arbitrary: a)
  case (Cons x xs)
  then have "m (a + 1 + of_nat (length xs)) = 0" by simp
  then show ?case by (simp add: add_ac)
qed simp

lemma strcpy_cstring:
  assumes "cstring m s xs"
    and "\<And>i j. i \<le> length xs \<Longrightarrow> j \<le> length xs \<Longrightarrow> d + of_nat i \<noteq> s + of_nat j"
    and "length xs < 2 ^ 64 - 1"
  shows "strcpy m d s = Some (blit m d s (Suc (length xs)))"
  using assms
proof (induction xs arbitrary: m d s)
  case Nil
  have "blit m d s (Suc 0) = m(d := 0)"
    using Nil by (auto simp: blit_def unsigned_eq_0_iff)
  with Nil show ?case by (simp add: strcpy.simps Let_def fun_upd_def)
next
  case (Cons x xs)
  let ?m = "m(d := x)"
  have frame: "cstring ?m (s + 1 + of_nat k) ys = cstring m (s + 1 + of_nat k) ys"
    if "k + length ys \<le> length xs" for k ys
    using that
  proof (induction ys arbitrary: k)
    case Nil
    have "d \<noteq> s + 1 + of_nat k"
      using Cons.prems(2) [of 0 "Suc k"] Nil by (simp add: add_ac)
    then show ?case by simp
  next
    case (Cons y ys)
    have "d \<noteq> s + 1 + of_nat k"
      using Cons.prems \<open>\<And>i j. i \<le> length (x # xs) \<Longrightarrow> j \<le> length (x # xs) \<Longrightarrow> d + of_nat i \<noteq> s + of_nat j\<close> [of 0 "Suc k"]
      by (simp add: add_ac)
    with Cons.IH [of "Suc k"] Cons.prems show ?case
      by (simp add: add_ac)
  qed
  have "cstring ?m (s + 1) xs"
    using frame [of 0 xs] Cons.prems(1) by simp
  moreover have "d + 1 + of_nat i \<noteq> s + 1 + of_nat j" if "i \<le> length xs" "j \<le> length xs" for i j
    using Cons.prems(2) [of "Suc i" "Suc j"] that by (simp add: add_ac)
  ultimately have rec: "strcpy ?m (d + 1) (s + 1) = Some (blit ?m (d + 1) (s + 1) (Suc (length xs)))"
    using Cons.prems(3) by (intro Cons.IH) (simp_all del: fun_upd_apply)
  have "blit ?m (d + 1) (s + 1) (Suc (length xs)) = blit m d s (Suc (length (x # xs)))"
  proof (rule ext)
    fix y
    let ?k = "unat (y - d)"
    show "blit ?m (d + 1) (s + 1) (Suc (length xs)) y = blit m d s (Suc (length (x # xs))) y"
    proof (cases "y = d")
      case True
      have "unat (- 1 :: u64) = 2 ^ 64 - 1"
        by (simp add: unsigned_minus_1_eq_mask mask_eq_exp_minus_1)
      then show ?thesis
        using True Cons.prems(1,3) by (simp add: blit_def)
    next
      case False
      then have "unat (y - d) \<noteq> 0" by (simp add: unsigned_eq_0_iff)
      then have "unat (y - (d + 1)) = ?k - 1"
        by (simp add: unat_minus_one diff_diff_eq [symmetric] unsigned_eq_0_iff)
      moreover have "s + (y - d) \<noteq> d" if "?k \<le> length xs + 1"
        using Cons.prems(2) [of 0 ?k] that by auto
      ultimately show ?thesis
        using False \<open>unat (y - d) \<noteq> 0\<close> by (auto simp: blit_def algebra_simps)
    qed
  qed
  with rec show ?case
    using Cons.prems(1) by (simp add: strcpy.simps [of m] Let_def)
qed

subsection \<open>Properties\<close>

lemma blit_nth: "i < n \<Longrightarrow> n < 2 ^ 64 \<Longrightarrow> blit m d s n (d + of_nat i) = m (s + of_nat i)"
  using offset_of_nat [of i d] by (simp add: blit_def)

text \<open>
  C38. \<^verbatim>\<open>memcpy\<close> returns with exactly the \<open>len\<close> bytes at \<open>dest\<close> replaced by the bytes at
  \<open>src\<close>, whichever of the word and the byte loop runs, provided that the destination is
  not null, does not wrap around the address space and does not start inside the source.
\<close>
theorem memcpy_copies:
  assumes "unat (src - dest) + unat len \<le> 2 ^ 64" and "unat dest + unat len < 2 ^ 64"
    and "dest \<noteq> 0"
  shows "\<exists>m'. memcpy m dest src len = Some m'
    \<and> (\<forall>i < unat len. m' (dest + of_nat i) = m (src + of_nat i))
    \<and> (\<forall>x. \<not> x - dest < len \<longrightarrow> m' x = m x)"
proof (intro exI conjI allI impI)
  show "memcpy m dest src len = Some (blit m dest src (unat len))"
    using assms by (rule memcpy_blit)
next
  fix i assume "i < unat len"
  then show "blit m dest src (unat len) (dest + of_nat i) = m (src + of_nat i)"
    using assms(2) by (intro blit_nth) auto
next
  fix x assume "\<not> x - dest < len"
  then show "blit m dest src (unat len) x = m x"
    by (simp add: blit_def word_less_nat_alt)
qed

theorem memcpy_copies_witness:
  "\<exists>m'. memcpy (\<lambda>a. ucast a) 0x100 0x200 20 = Some m'
    \<and> (\<forall>i < unat (20 :: u64). m' (0x100 + of_nat i) = ucast (0x200 + of_nat i :: u64))
    \<and> (\<forall>x. \<not> x - 0x100 < 20 \<longrightarrow> m' x = ucast x)"
  by (rule memcpy_copies) simp_all

text \<open>
  \<^verbatim>\<open>memset\<close> sets exactly the \<open>len\<close> bytes at \<open>dest\<close> to the low byte of its argument;
  the word loop with the byte replicated eight times and the byte loop agree.
\<close>
lemma memset_fills:
  assumes "unat dest + unat len < 2 ^ 64"
  shows "\<exists>m'. memset m dest byte len = Some m'
    \<and> (\<forall>x. m' x = (if x - dest < len then ucast byte else m x))"
  using memset_fill [OF assms, of m byte] by (auto simp: fill_def word_less_nat_alt)

text \<open>
  \<^verbatim>\<open>strcmp\<close> of two NUL-terminated strings returns, and returns 0 exactly when the
  strings are equal; otherwise it returns the difference of the first bytes that differ.
\<close>
lemma strcmp_decides_equality:
  assumes "cstring m a xs" and "cstring m b ys"
  shows "\<exists>d. strcmp m a b = Some d \<and> (d = 0 \<longleftrightarrow> xs = ys) \<and> d = first_difference xs ys"
  using strcmp_cstring [OF assms] first_difference_0
    cstring_nonzero [OF assms(1)] cstring_nonzero [OF assms(2)] by auto

end
