(* ===== verification/PkState.thy ===== *)
theory PkState
  imports CString
begin

text \<open>
  The state of the proxy kernel: the globals of \<^verbatim>\<open>riscv-pk/pk/file.c\<close> (descriptor table
  and open files), of \<^verbatim>\<open>riscv-pk/pk/mmap.c\<close> (lock, mapping records, page pool, page
  tables), the \<^verbatim>\<open>elf_info\<close> of the running program (\<^verbatim>\<open>pk/boot.h\<close>), physical memory, and
  the host behind the HTIF interface.

  A \<^verbatim>\<open>file_t*\<close> is the index of an entry of \<^verbatim>\<open>files\<close>, a \<^verbatim>\<open>vmr_t*\<close> its address.  The pages
  that hold page tables are kept apart from the rest of memory, as 64-bit words at their
  addresses (\<^theory_text>\<open>ptmem\<close>); everything else is bytes at physical addresses (\<^theory_text>\<open>mem\<close>).
  The host is a parameter: given its own state, memory and the eight words of a request
  it returns the new state, the memory after its accesses and the word it answers.
  \<^theory_text>\<open>kbuf\<close> is the address, on the kernel's stack, of the local array that a function hands
  to the host (\<^verbatim>\<open>out\<close> of \<^verbatim>\<open>vprintk\<close>, \<^verbatim>\<open>buf\<close> of \<^verbatim>\<open>file_stat\<close>); no two of them are live at once.
\<close>

type_synonym 'h host = "'h \<Rightarrow> mem \<Rightarrow> u64 list \<Rightarrow> 'h \<times> mem \<times> u64"

record elf_info =
  phent :: u32
  phnum :: u32
  is_supervisor :: u32
  phdr :: u64
  phdr_size :: u64
  bias :: u64
  entry :: u64
  brk_min :: u64
  brk :: u64
  brk_max :: u64
  mmap_max :: u64
  stack_top :: u64
  time0 :: u64
  cycle0 :: u64
  instret0 :: u64

record vmr_t =
  v_addr :: u64
  v_length :: u64
  v_file :: "nat option"
  v_offset :: u64
  v_refcnt :: u32
  v_prot :: u32

record 'h pk =
  fds :: "nat \<Rightarrow> nat option"
  f_kfd :: "nat \<Rightarrow> u32"
  f_refcnt :: "nat \<Rightarrow> u32"
  hst :: 'h
  mem :: mem
  vm_lock :: bool
  vmrs :: u64
  vmr_at :: "nat \<Rightarrow> vmr_t"
  first_free_paddr :: u64
  first_free_page :: u64
  next_free_page :: u64
  free_pages :: u64
  demand_paging :: bool
  root_page_table :: u64
  ptmem :: "u64 \<Rightarrow> u64"
  current :: elf_info
  mem_size :: u64
  kbuf :: u64

abbreviation MAX_FDS :: nat where "MAX_FDS \<equiv> 128"
abbreviation MAX_FILES :: nat where "MAX_FILES \<equiv> 128"

text \<open>\<^verbatim>\<open>RISCV_PGSIZE*100 / sizeof(vmr_t)\<close>, with a \<^verbatim>\<open>vmr_t\<close> of 40 bytes.\<close>

abbreviation MAX_VMR :: nat where "MAX_VMR \<equiv> 10240"

text \<open>
  What an operation on files may change: the descriptor table, the open files, the host
  and memory; the virtual-memory state and the program's \<^verbatim>\<open>elf_info\<close> stay.
\<close>

definition same_vm :: "'h pk \<Rightarrow> 'h pk \<Rightarrow> bool" where
  "same_vm s s' \<longleftrightarrow>
     vm_lock s' = vm_lock s \<and> vmrs s' = vmrs s \<and> vmr_at s' = vmr_at s \<and>
     first_free_paddr s' = first_free_paddr s \<and> first_free_page s' = first_free_page s \<and>
     next_free_page s' = next_free_page s \<and> free_pages s' = free_pages s \<and>
     demand_paging s' = demand_paging s \<and> root_page_table s' = root_page_table s \<and>
     ptmem s' = ptmem s \<and> current s' = current s \<and> mem_size s' = mem_size s \<and>
     kbuf s' = kbuf s"

lemma same_vm_refl [simp]: "same_vm s s"
  by (simp add: same_vm_def)

lemma same_vm_trans [trans]: "same_vm s t \<Longrightarrow> same_vm t u \<Longrightarrow> same_vm s u"
  by (simp add: same_vm_def)

lemma same_vm_updates [simp]:
  "same_vm s (t\<lparr>fds := a\<rparr>) = same_vm s t"
  "same_vm s (t\<lparr>f_kfd := b\<rparr>) = same_vm s t"
  "same_vm s (t\<lparr>f_refcnt := c\<rparr>) = same_vm s t"
  "same_vm s (t\<lparr>hst := d\<rparr>) = same_vm s t"
  "same_vm s (t\<lparr>mem := e\<rparr>) = same_vm s t"
  by (simp_all add: same_vm_def)

lemma same_vmD:
  assumes "same_vm s s'"
  shows "vm_lock s' = vm_lock s" "vmrs s' = vmrs s" "vmr_at s' = vmr_at s"
    "first_free_paddr s' = first_free_paddr s" "first_free_page s' = first_free_page s"
    "next_free_page s' = next_free_page s" "free_pages s' = free_pages s"
    "demand_paging s' = demand_paging s" "root_page_table s' = root_page_table s"
    "ptmem s' = ptmem s" "current s' = current s" "mem_size s' = mem_size s" "kbuf s' = kbuf s"
  using assms by (auto simp: same_vm_def)

subsection \<open>Addresses\<close>

abbreviation DRAM_BASE :: u64 where "DRAM_BASE \<equiv> 0x80000000"

text \<open>\<^verbatim>\<open>va2pa\<close> of \<^verbatim>\<open>pk/mmap.h\<close>: the kernel is mapped to itself, user memory at a fixed offset.\<close>

definition va2pa :: "'h pk \<Rightarrow> u64 \<Rightarrow> u64" where
  "va2pa s va = (if va \<ge> DRAM_BASE then va else va + first_free_paddr s)"

text \<open>Memory as the kernel and the program see it, by virtual address.\<close>

definition vmem :: "'h pk \<Rightarrow> mem" where
  "vmem s = (\<lambda>va. mem s (va2pa s va))"

end
