(* ===== verification/Files.thy ===== *)
theory Files
  imports PkState
begin

text \<open>
  Open files and descriptors: \<^verbatim>\<open>riscv-pk/pk/file.c\<close> without the operations that touch
  user memory, and the request to the host of \<^verbatim>\<open>riscv-pk/pk/frontend.c\<close>.

  A free entry of \<^verbatim>\<open>files\<close> has reference count 0; \<^verbatim>\<open>file_get_free\<close> hands an entry out
  with count 2, and \<^verbatim>\<open>file_decref\<close> closes the file when it finds the count at 2.  So a
  count \<open>c\<close> of an open file stands for at most \<open>c - 1\<close> references.  The invariant
  \<^theory_text>\<open>files_inv e s\<close> says so: descriptors, live mapping records and the \<open>e f\<close>
  references that running code holds number less than the count of every open file, and
  nothing refers to a free entry.
\<close>

abbreviation SYS_close :: u64 where "SYS_close \<equiv> 57"
abbreviation SYS_lseek :: u64 where "SYS_lseek \<equiv> 62"
abbreviation SYS_ftruncate :: u64 where "SYS_ftruncate \<equiv> 46"

subsection \<open>The operations\<close>

definition frontend_syscall :: "'h host \<Rightarrow> u64 \<Rightarrow> u64 list \<Rightarrow> 'h pk \<Rightarrow> u64 \<times> 'h pk" where
  "frontend_syscall H n args s =
     (let (h, m, r) = H (hst s) (mem s) (n # args) in (r, s\<lparr>hst := h, mem := m\<rparr>))"

definition file_incref :: "nat \<Rightarrow> 'h pk \<Rightarrow> 'h pk option" where
  "file_incref f s =
     do {
       let prev = f_refcnt s f;
       let s1 = s\<lparr>f_refcnt := (f_refcnt s)(f := prev + 1)\<rparr>;
       kassert (prev > 0);
       Some s1
     }"

definition file_decref :: "'h host \<Rightarrow> nat \<Rightarrow> 'h pk \<Rightarrow> 'h pk" where
  "file_decref H f s =
     (let old = f_refcnt s f;
          s1 = s\<lparr>f_refcnt := (f_refcnt s)(f := old - 1)\<rparr>
      in if old = 2 then
           (let kfd = f_kfd s1 f;
                s2 = s1\<lparr>f_refcnt := (f_refcnt s1)(f := 0)\<rparr>
            in snd (frontend_syscall H SYS_close [scast kfd, 0, 0, 0, 0, 0, 0] s2))
         else s1)"

definition file_get_free :: "'h pk \<Rightarrow> nat option \<times> 'h pk" where
  "file_get_free s =
     (case scan_from (\<lambda>f. f_refcnt s f = 0) 0 MAX_FILES of
        None \<Rightarrow> (None, s)
      | Some f \<Rightarrow> (Some f, s\<lparr>f_refcnt := (f_refcnt s)(f := 2)\<rparr>))"

definition file_dup :: "nat \<Rightarrow> 'h pk \<Rightarrow> (u32 \<times> 'h pk) option" where
  "file_dup f s =
     (case scan_from (\<lambda>i. fds s i = None) 0 MAX_FDS of
        None \<Rightarrow> Some (- 1, s)
      | Some i \<Rightarrow>
          do {
            s1 \<leftarrow> file_incref f (s\<lparr>fds := (fds s)(i := Some f)\<rparr>);
            Some (of_nat i, s1)
          })"

text \<open>The body of \<^verbatim>\<open>file_init\<close>'s loop; a null file would be written through.\<close>

definition file_init_step :: "nat \<Rightarrow> 'h pk \<Rightarrow> 'h pk option" where
  "file_init_step i s =
     (case file_get_free s of
        (None, s1) \<Rightarrow> None
      | (Some f, s1) \<Rightarrow> map_option snd (file_dup f (s1\<lparr>f_kfd := (f_kfd s1)(f := of_nat i)\<rparr>)))"

definition file_init :: "'h pk \<Rightarrow> 'h pk option" where
  "file_init s = file_init_step 0 s \<bind> file_init_step 1 \<bind> file_init_step 2"

text \<open>
  \<^verbatim>\<open>file_get\<close>; its compare-and-swap loop succeeds the first time when nothing else runs.
\<close>

definition file_get :: "u32 \<Rightarrow> 'h pk \<Rightarrow> nat option \<times> 'h pk" where
  "file_get fd s =
     (if sint fd < 0 \<or> sint fd \<ge> int MAX_FDS then (None, s)
      else case fds s (unat fd) of
             None \<Rightarrow> (None, s)
           | Some f \<Rightarrow>
               (let old_cnt = f_refcnt s f
                in if old_cnt = 0 then (None, s)
                   else (Some f, s\<lparr>f_refcnt := (f_refcnt s)(f := old_cnt + 1)\<rparr>)))"

definition fd_close :: "'h host \<Rightarrow> u32 \<Rightarrow> 'h pk \<Rightarrow> u32 \<times> 'h pk" where
  "fd_close H fd s =
     (case file_get fd s of
        (None, s1) \<Rightarrow> (- 1, s1)
      | (Some f, s1) \<Rightarrow>
          (let old = fds s1 (unat fd);
               s2 = (if old = Some f then s1\<lparr>fds := (fds s1)(unat fd := None)\<rparr> else s1);
               s3 = file_decref H f s2
           in if old \<noteq> Some f then (- 1, s3) else (0, file_decref H f s3)))"

definition file_truncate :: "'h host \<Rightarrow> nat \<Rightarrow> u64 \<Rightarrow> 'h pk \<Rightarrow> u32 \<times> 'h pk" where
  "file_truncate H f len s =
     map_prod ucast id (frontend_syscall H SYS_ftruncate [scast (f_kfd s f), len, 0, 0, 0, 0, 0] s)"

definition file_lseek :: "'h host \<Rightarrow> nat \<Rightarrow> u64 \<Rightarrow> u32 \<Rightarrow> 'h pk \<Rightarrow> u64 \<times> 'h pk" where
  "file_lseek H f ptr dir s =
     frontend_syscall H SYS_lseek [scast (f_kfd s f), ptr, scast dir, 0, 0, 0, 0] s"

subsection \<open>The reference-count invariant\<close>

definition fd_refs :: "'h pk \<Rightarrow> nat \<Rightarrow> nat" where
  "fd_refs s f = tally MAX_FDS (\<lambda>i. fds s i = Some f)"

definition vmr_live :: "'h pk \<Rightarrow> nat \<Rightarrow> bool" where
  "vmr_live s j = (v_refcnt (vmr_at s j) \<noteq> 0)"

definition vmr_refs :: "'h pk \<Rightarrow> nat \<Rightarrow> nat" where
  "vmr_refs s f = tally MAX_VMR (\<lambda>j. vmr_live s j \<and> v_file (vmr_at s j) = Some f)"

definition file_ok :: "u32 \<Rightarrow> nat \<Rightarrow> bool" where
  "file_ok c r = (if c = 0 then r = 0 else 2 \<le> unat c \<and> r < unat c)"

definition files_inv :: "(nat \<Rightarrow> nat) \<Rightarrow> 'h pk \<Rightarrow> bool" where
  "files_inv e s \<longleftrightarrow>
     (\<forall>i < MAX_FDS. \<forall>f. fds s i = Some f \<longrightarrow> f < MAX_FILES) \<and>
     (\<forall>j < MAX_VMR. \<forall>f. vmr_live s j \<longrightarrow> v_file (vmr_at s j) = Some f \<longrightarrow> f < MAX_FILES) \<and>
     (\<forall>f < MAX_FILES. file_ok (f_refcnt s f) (fd_refs s f + vmr_refs s f + e f))"

text \<open>The count of a file is not about to wrap.\<close>

definition unsaturated :: "'h pk \<Rightarrow> nat \<Rightarrow> bool" where
  "unsaturated s f = (unat (f_refcnt s f) < 2 ^ 32 - 1)"

lemma file_ok_incr:
  "file_ok c r \<Longrightarrow> c \<noteq> 0 \<Longrightarrow> unat c < 2 ^ 32 - 1 \<Longrightarrow> file_ok (c + 1) (Suc r)"
  by (auto simp: file_ok_def unat_word_ariths unat_eq_0 [symmetric])

lemma file_ok_decr:
  assumes "file_ok c (Suc r)"
  shows "file_ok (if c = 2 then 0 else c - 1) r"
proof -
  have c: "c \<noteq> 0" "2 \<le> unat c" "Suc r < unat c"
    using assms by (auto simp: file_ok_def split: if_splits)
  have one: "unat (c - 1) = unat c - 1"
    using c(1) by (rule unat_minus_one)
  show ?thesis
  proof (cases "c = 2")
    case True
    with c show ?thesis by (simp add: file_ok_def)
  next
    case False
    then have "unat c \<noteq> unat (2 :: u32)" by (metis word_unat_eq_iff)
    with c have "3 \<le> unat c" by simp
    with one c have "2 \<le> unat (c - 1)" "r < unat (c - 1)" by auto
    moreover from this have "c - 1 \<noteq> 0" by auto
    ultimately show ?thesis using False by (simp add: file_ok_def)
  qed
qed

lemma file_ok_nonzero: "file_ok c (Suc r) \<Longrightarrow> c \<noteq> 0"
  by (auto simp: file_ok_def)

lemma fd_refs_cong: "fds s' = fds s \<Longrightarrow> fd_refs s' = fd_refs s"
  by (simp add: fd_refs_def fun_eq_iff)

lemma vmr_refs_cong: "vmr_at s' = vmr_at s \<Longrightarrow> vmr_refs s' = vmr_refs s"
  by (simp add: vmr_refs_def vmr_live_def fun_eq_iff)

lemma vmr_live_cong: "vmr_at s' = vmr_at s \<Longrightarrow> vmr_live s' = vmr_live s"
  by (simp add: vmr_live_def fun_eq_iff)

text \<open>The invariant looks at the table, the counts and the mapping records only.\<close>

lemma files_inv_cong:
  "fds s' = fds s \<Longrightarrow> f_refcnt s' = f_refcnt s \<Longrightarrow> vmr_at s' = vmr_at s \<Longrightarrow>
   files_inv e s' = files_inv e s"
  by (simp add: files_inv_def fd_refs_cong [of s' s] vmr_refs_cong [of s' s]
      vmr_live_cong [of s' s])

lemma files_inv_updates [simp]:
  "files_inv e (s\<lparr>f_kfd := k\<rparr>) = files_inv e s"
  "files_inv e (s\<lparr>hst := h\<rparr>) = files_inv e s"
  "files_inv e (s\<lparr>mem := m\<rparr>) = files_inv e s"
  by (rule files_inv_cong; simp)+

lemma files_inv_refcnt:
  assumes "files_inv e s" and "f < MAX_FILES"
    and "file_ok c (fd_refs s f + vmr_refs s f + k)"
  shows "files_inv (e(f := k)) (s\<lparr>f_refcnt := (f_refcnt s)(f := c)\<rparr>)"
  using assms
  by (auto simp: files_inv_def fd_refs_cong [of "s\<lparr>f_refcnt := r\<rparr>" s for r]
      vmr_refs_cong [of "s\<lparr>f_refcnt := r\<rparr>" s for r] vmr_live_cong [of "s\<lparr>f_refcnt := r\<rparr>" s for r])

lemma files_invD:
  assumes "files_inv e s" and "f < MAX_FILES"
  shows "file_ok (f_refcnt s f) (fd_refs s f + vmr_refs s f + e f)"
  using assms by (simp add: files_inv_def)

lemma frontend_files_inv:
  "frontend_syscall H n args s = (r, s') \<Longrightarrow> files_inv e s' = files_inv e s"
  by (auto simp: frontend_syscall_def split: prod.splits)

lemma frontend_frame:
  assumes "frontend_syscall H n args s = (r, s')"
  shows "same_vm s s'" "fds s' = fds s" "f_refcnt s' = f_refcnt s" "f_kfd s' = f_kfd s"
  using assms by (auto simp: frontend_syscall_def split: prod.splits)

subsection \<open>Every operation keeps it\<close>

lemma file_incref_inv:
  assumes "files_inv e s" and "f < MAX_FILES" and "unsaturated s f"
    and "file_incref f s = Some s'"
  shows "files_inv (e(f := Suc (e f))) s' \<and> same_vm s s'"
proof -
  have c: "f_refcnt s f \<noteq> 0" and s': "s' = s\<lparr>f_refcnt := (f_refcnt s)(f := f_refcnt s f + 1)\<rparr>"
    using assms(4) by (auto simp: file_incref_def Let_def word_gt_0)
  have "file_ok (f_refcnt s f + 1) (Suc (fd_refs s f + vmr_refs s f + e f))"
    using files_invD [OF assms(1,2)] c assms(3) by (intro file_ok_incr) (auto simp: unsaturated_def)
  then show ?thesis
    unfolding s' using files_inv_refcnt [OF assms(1,2)] by simp
qed

lemma file_decref_alt:
  "\<exists>h m. file_decref H f s =
     s\<lparr>f_refcnt := (f_refcnt s)(f := if f_refcnt s f = 2 then 0 else f_refcnt s f - 1),
       hst := h, mem := m\<rparr>"
proof (cases "f_refcnt s f = 2")
  case True
  then show ?thesis
    by (cases "H (hst s) (mem s) [SYS_close, scast (f_kfd s f), 0, 0, 0, 0, 0, 0]")
      (auto simp: file_decref_def Let_def frontend_syscall_def)
next
  case False
  then show ?thesis
    by (intro exI [of _ "hst s"] exI [of _ "mem s"]) (simp add: file_decref_def Let_def)
qed

lemma file_decref_frame [simp]:
  "fds (file_decref H f s) = fds s" "f_kfd (file_decref H f s) = f_kfd s"
  "vmr_at (file_decref H f s) = vmr_at s" "same_vm s (file_decref H f s)"
  "f_refcnt (file_decref H f s) =
     (f_refcnt s)(f := if f_refcnt s f = 2 then 0 else f_refcnt s f - 1)"
  using file_decref_alt [of H f s] by auto

lemma same_vm_decref [simp]: "same_vm s (file_decref H f t) = same_vm s t"
  using file_decref_alt [of H f t] by auto

lemma file_decref_inv:
  assumes "files_inv e s" and "f < MAX_FILES" and "0 < e f"
  shows "files_inv (e(f := e f - 1)) (file_decref H f s)"
proof -
  obtain k where k: "e f = Suc k" using assms(3) by (cases "e f") auto
  obtain h m where d: "file_decref H f s =
     s\<lparr>f_refcnt := (f_refcnt s)(f := if f_refcnt s f = 2 then 0 else f_refcnt s f - 1),
       hst := h, mem := m\<rparr>"
    using file_decref_alt [of H f s] by blast
  have "file_ok (f_refcnt s f) (Suc (fd_refs s f + vmr_refs s f + k))"
    using files_invD [OF assms(1,2)] k by simp
  from files_inv_refcnt [OF assms(1,2), OF file_ok_decr [OF this]]
  show ?thesis unfolding d using k by simp
qed

lemma file_get_free_inv:
  assumes "files_inv e s" and "file_get_free s = (r, s')"
  shows "case r of None \<Rightarrow> s' = s
         | Some f \<Rightarrow> f < MAX_FILES \<and> f_refcnt s f = 0 \<and> e f = 0 \<and>
             files_inv (e(f := 1)) s' \<and> same_vm s s'"
proof (cases "scan_from (\<lambda>f. f_refcnt s f = 0) 0 MAX_FILES")
  case None
  with assms show ?thesis by (simp add: file_get_free_def)
next
  case (Some f)
  then have f: "f < MAX_FILES" "f_refcnt s f = 0"
    using scan_from_SomeD by blast+
  have "fd_refs s f + vmr_refs s f + e f = 0"
    using files_invD [OF assms(1) f(1)] f(2) by (simp add: file_ok_def)
  moreover have "file_ok 2 (0 + 0 + 1)" by (simp add: file_ok_def)
  moreover have "r = Some f" "s' = s\<lparr>f_refcnt := (f_refcnt s)(f := 2)\<rparr>"
    using Some assms(2) by (simp_all add: file_get_free_def)
  ultimately show ?thesis
    using f files_inv_refcnt [OF assms(1) f(1), of 2 1] by simp
qed

lemma file_get_inv:
  assumes "files_inv e s" and "file_get fd s = (r, s')"
    and "\<And>f. f < MAX_FILES \<Longrightarrow> unsaturated s f"
  shows "case r of None \<Rightarrow> s' = s
         | Some f \<Rightarrow> f < MAX_FILES \<and> unat fd < MAX_FDS \<and> fds s (unat fd) = Some f \<and>
             files_inv (e(f := Suc (e f))) s' \<and> same_vm s s' \<and> fds s' = fds s"
proof (cases r)
  case None
  with assms show ?thesis
    by (auto simp: file_get_def Let_def split: if_splits option.splits)
next
  case (Some f)
  with assms(2) have fd: "0 \<le> sint fd" "sint fd < int MAX_FDS"
    and f: "fds s (unat fd) = Some f" and c: "f_refcnt s f \<noteq> 0"
    and s': "s' = s\<lparr>f_refcnt := (f_refcnt s)(f := f_refcnt s f + 1)\<rparr>"
    by (auto simp: file_get_def Let_def split: if_splits option.splits)
  have ufd: "unat fd < MAX_FDS"
    using sint_nonneg_unat [OF fd(1)] fd by linarith
  then have lt: "f < MAX_FILES" using assms(1) f by (auto simp: files_inv_def)
  have "file_ok (f_refcnt s f + 1) (Suc (fd_refs s f + vmr_refs s f + e f))"
    using files_invD [OF assms(1) lt] c assms(3) [OF lt]
    by (intro file_ok_incr) (auto simp: unsaturated_def)
  then show ?thesis
    unfolding s' using Some f lt ufd files_inv_refcnt [OF assms(1) lt] by simp
qed

lemma fd_refs_clear:
  assumes "i < MAX_FDS" and "fds s i = Some f"
  shows "fd_refs s g = fd_refs (s\<lparr>fds := (fds s)(i := None)\<rparr>) g + (if g = f then 1 else 0)"
  using assms tally_fun_upd [OF assms(1), of "\<lambda>x. x = Some g" "fds s" None]
  by (simp del: fun_upd_apply add: fd_refs_def split: if_splits)

lemma fd_refs_set:
  assumes "i < MAX_FDS" and "fds s i = None"
  shows "fd_refs (s\<lparr>fds := (fds s)(i := Some f)\<rparr>) g = fd_refs s g + (if g = f then 1 else 0)"
  using assms tally_fun_upd [OF assms(1), of "\<lambda>x. x = Some g" "fds s" "Some f"]
  by (simp del: fun_upd_apply add: fd_refs_def split: if_splits)

text \<open>Taking a file out of the table, or putting it in, moves one reference.\<close>

lemma fd_clear_inv:
  assumes "files_inv e s" and "i < MAX_FDS" and "fds s i = Some f"
  shows "files_inv (e(f := Suc (e f))) (s\<lparr>fds := (fds s)(i := None)\<rparr>)"
  using assms(1) fd_refs_clear [OF assms(2,3)]
  by (auto simp: files_inv_def vmr_refs_cong [of "s\<lparr>fds := t\<rparr>" s for t]
      vmr_live_cong [of "s\<lparr>fds := t\<rparr>" s for t])

lemma fd_set_inv:
  assumes "files_inv (e(f := Suc (e f))) s" and "i < MAX_FDS" and "fds s i = None"
    and "f < MAX_FILES"
  shows "files_inv e (s\<lparr>fds := (fds s)(i := Some f)\<rparr>)"
  using assms(1,4) fd_refs_set [OF assms(2,3)]
  by (auto simp: files_inv_def vmr_refs_cong [of "s\<lparr>fds := t\<rparr>" s for t]
      vmr_live_cong [of "s\<lparr>fds := t\<rparr>" s for t])

lemma file_dup_inv:
  assumes inv: "files_inv e s" and f: "f < MAX_FILES" "unsaturated s f"
    and ret: "file_dup f s = Some (r, s')"
  shows "files_inv e s' \<and> same_vm s s' \<and>
     (if r = - 1 then s' = s \<and> (\<forall>i < MAX_FDS. fds s i \<noteq> None)
      else \<exists>i < MAX_FDS. r = of_nat i \<and> fds s i = None \<and> fds s' = (fds s)(i := Some f) \<and>
             f_refcnt s' = (f_refcnt s)(f := f_refcnt s f + 1))"
proof (cases "scan_from (\<lambda>i. fds s i = None) 0 MAX_FDS")
  case None
  then have "\<forall>i < MAX_FDS. fds s i \<noteq> None"
    unfolding scan_from_None_iff by simp
  then show ?thesis using None ret inv by (simp add: file_dup_def)
next
  case (Some i)
  then have i: "i < MAX_FDS" "fds s i = None"
    using scan_from_SomeD by blast+
  have ni: "(of_nat i :: u32) \<noteq> - 1"
  proof
    assume "(of_nat i :: u32) = - 1"
    then have "unat (of_nat i :: u32) = unat (- 1 :: u32)" by simp
    moreover have "unat (of_nat i :: u32) = i"
      using i(1) by (simp add: unsigned_of_nat take_bit_nat_eq_self)
    moreover have "unat (- 1 :: u32) = 4294967295"
      by (simp add: unsigned_minus_1_eq_mask mask_eq_exp_minus_1)
    ultimately show False using i(1) by simp
  qed
  let ?c = "f_refcnt s f"
  have s': "s' = s\<lparr>fds := (fds s)(i := Some f), f_refcnt := (f_refcnt s)(f := ?c + 1)\<rparr>"
    and r: "r = of_nat i" and c: "?c > 0"
    using ret Some by (auto simp: file_dup_def file_incref_def Let_def bind_Some_iff)
  have "file_incref f s = Some (s\<lparr>f_refcnt := (f_refcnt s)(f := ?c + 1)\<rparr>)"
    using c by (simp add: file_incref_def)
  from file_incref_inv [OF inv f this]
  have "files_inv e (s\<lparr>f_refcnt := (f_refcnt s)(f := ?c + 1), fds := (fds s)(i := Some f)\<rparr>)"
    using fd_set_inv [of e f "s\<lparr>f_refcnt := (f_refcnt s)(f := ?c + 1)\<rparr>" i] i f by simp
  moreover have "s' = s\<lparr>f_refcnt := (f_refcnt s)(f := ?c + 1), fds := (fds s)(i := Some f)\<rparr>"
    using s' by simp
  ultimately have "files_inv e s'" by simp
  then show ?thesis
    unfolding r using ni i by (auto simp: s')
qed

subsection \<open>Closing and initialising\<close>

lemma file_open_count:
  assumes "files_inv e s" and "i < MAX_FDS" and "fds s i = Some f"
  shows "f < MAX_FILES \<and> 2 \<le> unat (f_refcnt s f) \<and> f_refcnt s f \<noteq> 0"
proof -
  have f: "f < MAX_FILES"
    using assms by (auto simp: files_inv_def)
  have "0 < fd_refs s f"
    unfolding fd_refs_def using assms by (intro tally_pos)
  then show ?thesis
    using files_invD [OF assms(1) f] f by (auto simp: file_ok_def split: if_splits)
qed

lemma file_get_open:
  assumes "files_inv e s" and "fds s (unat fd) = Some f" and "unat fd < MAX_FDS"
  shows "file_get fd s = (Some f, s\<lparr>f_refcnt := (f_refcnt s)(f := f_refcnt s f + 1)\<rparr>)"
proof -
  have "0 \<le> sint fd \<and> sint fd < int MAX_FDS"
  proof -
    have e: "sint fd = int (unat fd)"
      using assms(3) by (intro sint_small_u32) simp
    show ?thesis
      using assms(3) unfolding e of_nat_less_iff by (intro conjI of_nat_0_le_iff)
  qed
  then show ?thesis
    using assms(2) file_open_count [OF assms(1,3,2)] by (simp add: file_get_def)
qed

lemma file_get_fail:
  assumes "file_get fd s = (None, s')" and "files_inv e s"
  shows "s' = s \<and> (unat fd < MAX_FDS \<longrightarrow> fds s (unat fd) = None)"
proof -
  have "s' = s"
    using assms(1) by (auto simp: file_get_def Let_def split: if_splits option.splits)
  moreover have "fds s (unat fd) = None" if "unat fd < MAX_FDS"
    using file_get_open [OF assms(2) _ that] assms(1) by (cases "fds s (unat fd)") auto
  ultimately show ?thesis by simp
qed

lemma unsaturated_Suc:
  "unsaturated s f \<Longrightarrow> unat (f_refcnt s f + 1) = Suc (unat (f_refcnt s f))"
  by (simp add: unsaturated_def unat_word_ariths)

lemma fd_close_spec:
  assumes inv: "files_inv e s" and sat: "\<And>f. f < MAX_FILES \<Longrightarrow> unsaturated s f"
    and ret: "fd_close H fd s = (r, s')"
  shows "files_inv e s' \<and> same_vm s s' \<and>
    (case (if unat fd < MAX_FDS then fds s (unat fd) else None) of
       None \<Rightarrow> r = - 1 \<and> s' = s
     | Some f \<Rightarrow> r = 0 \<and> fds s' = (fds s)(unat fd := None) \<and>
         f_refcnt s' = (f_refcnt s)(f := if f_refcnt s f = 2 then 0 else f_refcnt s f - 1))"
proof (cases "file_get fd s")
  case (Pair q s1)
  show ?thesis
  proof (cases q)
    case None
    with Pair ret inv file_get_fail [of fd s s1 e] show ?thesis
      by (auto simp: fd_close_def)
  next
    case (Some f)
    have g: "f < MAX_FILES" "unat fd < MAX_FDS" "fds s (unat fd) = Some f"
      "files_inv (e(f := Suc (e f))) s1" "same_vm s s1" "fds s1 = fds s"
      using file_get_inv [OF inv Pair sat] Some by auto
    have s1: "s1 = s\<lparr>f_refcnt := (f_refcnt s)(f := f_refcnt s f + 1)\<rparr>"
      using file_get_open [OF inv g(3,2)] Pair by simp
    define s2 where "s2 = s1\<lparr>fds := (fds s1)(unat fd := None)\<rparr>"
    define s3 where "s3 = file_decref H f s2"
    have out: "r = 0" "s' = file_decref H f s3"
      using ret Pair Some g by (auto simp: fd_close_def s2_def s3_def)
    have i2: "files_inv (e(f := Suc (Suc (e f)))) s2"
      using fd_clear_inv [OF g(4,2), of f] g(3,6) by (simp add: s2_def)
    have i3: "files_inv (e(f := Suc (e f))) s3"
      using file_decref_inv [OF i2 g(1), of H] by (simp add: s3_def)
    have i4: "files_inv e s'"
      using file_decref_inv [OF i3 g(1), of H] out by simp
    have "unat (f_refcnt s f + 1) \<noteq> unat (2 :: u32)"
      using file_open_count [OF inv g(2,3)] unsaturated_Suc [OF sat [OF g(1)]] by simp
    then have "f_refcnt s f + 1 \<noteq> 2" by metis
    then have "f_refcnt s3 = f_refcnt s"
      by (simp add: s3_def s2_def s1)
    then have c: "f_refcnt s' = (f_refcnt s)(f := if f_refcnt s f = 2 then 0 else f_refcnt s f - 1)"
      by (simp add: out)
    have "same_vm s s'"
      using g(5) by (simp add: out s3_def s2_def)
    moreover have "fds s' = (fds s)(unat fd := None)"
      using g(6) by (simp add: out s3_def s2_def)
    ultimately show ?thesis using i4 c out(1) g by simp
  qed
qed

text \<open>
  C11. Closing a descriptor: \<^verbatim>\<open>fd_close\<close> answers 0 exactly when the descriptor is open,
  and then the entry of the table is cleared, exactly one reference of its file is given
  back and no other file changes; otherwise it answers -1 and changes nothing.  Either
  way the reference-count invariant holds afterwards and the virtual-memory state is
  untouched.
\<close>

theorem fd_close_releases:
  assumes inv: "files_inv e s" and sat: "\<And>f. f < MAX_FILES \<Longrightarrow> unsaturated s f"
    and ret: "fd_close H fd s = (r, s')"
  shows "files_inv e s' \<and> same_vm s s' \<and>
    (case (if unat fd < MAX_FDS then fds s (unat fd) else None) of
       None \<Rightarrow> r = - 1 \<and> s' = s
     | Some f \<Rightarrow> r = 0 \<and> fds s' = (fds s)(unat fd := None) \<and>
         f_refcnt s' = (f_refcnt s)(f := if f_refcnt s f = 2 then 0 else f_refcnt s f - 1))"
  using assms by (rule fd_close_spec)

text \<open>A concrete table: descriptor 3 is file 5 with the count that \<^verbatim>\<open>open\<close> leaves.\<close>

definition sample_elf :: elf_info where
  "sample_elf = \<lparr>phent = 56, phnum = 2, is_supervisor = 0, phdr = 0x10000, phdr_size = 512,
     bias = 0, entry = 0x10100, brk_min = 0x20000, brk = 0x20000, brk_max = 0x30000,
     mmap_max = 0x7FFFF000, stack_top = 0x7FFFF000, time0 = 0, cycle0 = 0, instret0 = 0\<rparr>"

definition sample_pk :: "unit pk" where
  "sample_pk = \<lparr>fds = (\<lambda>i. if i = 3 then Some 5 else None), f_kfd = (\<lambda>f. 7),
     f_refcnt = (\<lambda>f. if f = 5 then 2 else 0), hst = (), mem = (\<lambda>a. 0), vm_lock = False,
     vmrs = 0x80100000, vmr_at = (\<lambda>j. \<lparr>v_addr = 0, v_length = 0, v_file = None, v_offset = 0,
       v_refcnt = 0, v_prot = 0\<rparr>), first_free_paddr = 0x80200000,
     first_free_page = 0x80164000, next_free_page = 0, free_pages = 128, demand_paging = True,
     root_page_table = 0x80165000, ptmem = (\<lambda>a. 0), current = sample_elf,
     mem_size = 0x80000000, kbuf = 0x80010000\<rparr>"

lemma sample_files_inv: "files_inv (\<lambda>f. 0) sample_pk"
proof -
  have "{i. i < MAX_FDS \<and> i = 3} = {3}" by auto
  then have "tally MAX_FDS (\<lambda>i. i = 3) = 1" by (simp add: tally_def)
  moreover have "tally n (\<lambda>i. False) = 0" for n
    by (simp add: tally_def)
  ultimately show ?thesis
    by (simp add: files_inv_def sample_pk_def fd_refs_def vmr_refs_def vmr_live_def file_ok_def)
qed

definition sample_host :: "unit host" where
  "sample_host h m args = (h, m, 0)"

lemma sample_pk_sel [simp]:
  "fds sample_pk = (\<lambda>i. if i = 3 then Some 5 else None)"
  "f_refcnt sample_pk = (\<lambda>f. if f = 5 then 2 else 0)"
  by (simp_all add: sample_pk_def)

lemma sample_unsaturated: "unsaturated sample_pk f"
  by (simp add: unsaturated_def)

theorem fd_close_releases_witness:
  "case fd_close sample_host 3 sample_pk of (r, s') \<Rightarrow>
     files_inv (\<lambda>f. 0) s' \<and> same_vm sample_pk s' \<and> r = 0 \<and> fds s' 3 = None \<and> f_refcnt s' 5 = 0"
proof (cases "fd_close sample_host 3 sample_pk")
  case (Pair r s')
  show ?thesis
    using fd_close_releases [OF sample_files_inv sample_unsaturated Pair]
    by (simp add: Pair)
qed

end
