(* ===== verification/PageTable.thy ===== *)
theory PageTable
  imports Files
begin

text \<open>
  The Sv39 page tables of \<^verbatim>\<open>riscv-pk/pk/mmap.c\<close> and \<^verbatim>\<open>machine/vm.h\<close>: the page pool, the
  walk, and the walk that allocates missing tables.  A \<^verbatim>\<open>pte_t*\<close> is an address into
  \<^theory_text>\<open>ptmem\<close>, 0 the null pointer.

  The invariant \<^theory_text>\<open>pt_inv\<close> says that the tables form a tree: some assignment of a level
  and an address prefix to the pages of the pool agrees with every valid table entry.
  Under it the tables represent a map from virtual pages to entries, \<^theory_text>\<open>pte_at\<close>; the
  lemmas of the section \<open>page map\<close> are all that the rest of the kernel needs.
\<close>

subsection \<open>Entries\<close>

abbreviation PTE_V :: u64 where "PTE_V \<equiv> 1"
abbreviation PTE_R :: u64 where "PTE_R \<equiv> 2"
abbreviation PTE_W :: u64 where "PTE_W \<equiv> 4"
abbreviation PTE_X :: u64 where "PTE_X \<equiv> 8"
abbreviation PTE_U :: u64 where "PTE_U \<equiv> 0x10"
abbreviation PTE_A :: u64 where "PTE_A \<equiv> 0x40"
abbreviation PTE_D :: u64 where "PTE_D \<equiv> 0x80"

abbreviation PROT_READ :: u32 where "PROT_READ \<equiv> 1"
abbreviation PROT_WRITE :: u32 where "PROT_WRITE \<equiv> 2"
abbreviation PROT_EXEC :: u32 where "PROT_EXEC \<equiv> 4"

definition pte_create :: "u64 \<Rightarrow> u64 \<Rightarrow> u64" where
  "pte_create ppn type = push_bit 10 ppn OR PTE_V OR type"

definition ptd_create :: "u64 \<Rightarrow> u64" where
  "ptd_create ppn = pte_create ppn PTE_V"

definition pte_ppn :: "u64 \<Rightarrow> u64" where
  "pte_ppn pte = drop_bit 10 pte"

definition ppn :: "u64 \<Rightarrow> u64" where
  "ppn addr = drop_bit RISCV_PGSHIFT addr"

definition pt_idx :: "u64 \<Rightarrow> nat \<Rightarrow> u64" where
  "pt_idx addr level = drop_bit (9 * level + RISCV_PGSHIFT) addr AND 511"

definition prot_to_type :: "u32 \<Rightarrow> bool \<Rightarrow> u64" where
  "prot_to_type prot user =
     (let p0 = 0;
          p1 = (if prot AND PROT_READ \<noteq> 0 then p0 OR (PTE_R OR PTE_A) else p0);
          p2 = (if prot AND PROT_WRITE \<noteq> 0 then p1 OR (PTE_W OR PTE_D) else p1);
          p3 = (if prot AND PROT_EXEC \<noteq> 0 then p2 OR (PTE_X OR PTE_A) else p2);
          p4 = (if p3 = 0 then PTE_R else p3)
      in if user then p4 OR PTE_U else p4)"

subsection \<open>The page pool\<close>

definition page_alloc :: "'h pk \<Rightarrow> (u64 \<times> 'h pk) option" where
  "page_alloc s =
     do {
       kassert (next_free_page s \<noteq> free_pages s);
       let addr = first_free_page s + RISCV_PGSIZE * next_free_page s;
       Some (addr, s\<lparr>next_free_page := next_free_page s + 1,
                     ptmem := (\<lambda>a. if a - addr < RISCV_PGSIZE then 0 else ptmem s a)\<rparr>)
     }"

text \<open>The hundred pages of the mapping records; clearing them makes every record free.\<close>

definition page_alloc1 :: "'h pk \<Rightarrow> (u64 \<times> 'h pk) option" where
  "page_alloc1 s =
     do {
       kassert (next_free_page s \<noteq> free_pages s);
       let addr = first_free_page s + RISCV_PGSIZE * 100 * next_free_page s;
       Some (addr, s\<lparr>next_free_page := next_free_page s + 100,
                     vmr_at := (\<lambda>j. \<lparr>v_addr = 0, v_length = 0, v_file = None, v_offset = 0,
                                     v_refcnt = 0, v_prot = 0\<rparr>)\<rparr>)
     }"

subsection \<open>The walk\<close>

text \<open>
  The loop of \<^verbatim>\<open>__walk_internal\<close>, from table \<open>t\<close> of level \<open>i\<close>: \<^theory_text>\<open>Inl\<close> the first
  entry on the way that is not valid, \<^theory_text>\<open>Inr\<close> the entry of the last level.
\<close>

primrec walk_loop :: "(u64 \<Rightarrow> u64) \<Rightarrow> u64 \<Rightarrow> u64 \<Rightarrow> nat \<Rightarrow> u64 + u64" where
  "walk_loop m addr t 0 = Inr (t + 8 * pt_idx addr 0)"
| "walk_loop m addr t (Suc i) =
     (let slot = t + 8 * pt_idx addr (Suc i)
      in if m slot AND PTE_V = 0 then Inl slot
         else walk_loop m addr (push_bit RISCV_PGSHIFT (pte_ppn (m slot))) i)"

definition walk :: "'h pk \<Rightarrow> u64 \<Rightarrow> u64" where
  "walk s addr =
     (case walk_loop (ptmem s) addr (root_page_table s) 2 of Inl _ \<Rightarrow> 0 | Inr p \<Rightarrow> p)"

text \<open>\<^verbatim>\<open>__walk_create\<close> starts again from the root after each table it adds.\<close>

partial_function (option) walk_create :: "u64 \<Rightarrow> 'h pk \<Rightarrow> (u64 \<times> 'h pk) option" where
  "walk_create addr s =
     (case walk_loop (ptmem s) addr (root_page_table s) 2 of
        Inr p \<Rightarrow> Some (p, s)
      | Inl slot \<Rightarrow>
          do {
            (page, s1) \<leftarrow> page_alloc s;
            walk_create addr (s1\<lparr>ptmem := (ptmem s1)(slot := ptd_create (ppn page))\<rparr>)
          })"

definition set_pte :: "u64 \<Rightarrow> u64 \<Rightarrow> 'h pk \<Rightarrow> 'h pk" where
  "set_pte p x s = s\<lparr>ptmem := (ptmem s)(p := x)\<rparr>"

text \<open>What the entry for an address holds; 0 where the walk ends early.\<close>

definition pte_at :: "'h pk \<Rightarrow> u64 \<Rightarrow> u64" where
  "pte_at s va = (if walk s va = 0 then 0 else ptmem s (walk s va))"

subsection \<open>The tables form a tree\<close>

text \<open>
  \<^theory_text>\<open>tkey va n\<close> is the address without its lowest \<open>n\<close> indices: a table of level \<open>l\<close> that
  the walk for \<open>va\<close> meets serves exactly the addresses with the same \<^theory_text>\<open>tkey va (Suc l)\<close>,
  and \<^theory_text>\<open>tkey va 0\<close> is the virtual page number.
\<close>

definition tkey :: "u64 \<Rightarrow> nat \<Rightarrow> u64" where
  "tkey va n = drop_bit (12 + 9 * n) (take_bit 39 va)"

abbreviation vpn_of :: "u64 \<Rightarrow> u64" where "vpn_of va \<equiv> tkey va 0"

definition pool_page :: "'h pk \<Rightarrow> u64 \<Rightarrow> bool" where
  "pool_page s t \<longleftrightarrow>
     (\<exists>k < unat (next_free_page s). t = first_free_page s + RISCV_PGSIZE * of_nat k)"

definition pool_ok :: "'h pk \<Rightarrow> bool" where
  "pool_ok s \<longleftrightarrow>
     unat (first_free_page s) mod 4096 = 0 \<and> first_free_page s \<noteq> 0 \<and>
     unat (first_free_page s) + 4096 * unat (free_pages s) \<le> 2 ^ 64 \<and>
     next_free_page s \<le> free_pages s"

definition child :: "u64 \<Rightarrow> u64" where
  "child pte = push_bit RISCV_PGSHIFT (pte_ppn pte)"

definition pt_tree :: "'h pk \<Rightarrow> (u64 \<Rightarrow> (nat \<times> u64) option) \<Rightarrow> bool" where
  "pt_tree s own \<longleftrightarrow>
     pool_ok s \<and> own (root_page_table s) = Some (2, 0) \<and>
     (\<forall>t x. own t = Some x \<longrightarrow> pool_page s t) \<and>
     (\<forall>t va l. own t = Some (Suc l, tkey va (Suc (Suc l))) \<longrightarrow>
        ptmem s (t + 8 * pt_idx va (Suc l)) AND PTE_V \<noteq> 0 \<longrightarrow>
        own (child (ptmem s (t + 8 * pt_idx va (Suc l)))) = Some (l, tkey va (Suc l)))"

definition pt_inv :: "'h pk \<Rightarrow> bool" where
  "pt_inv s \<longleftrightarrow> (\<exists>own. pt_tree s own)"

lemma tkey_3 [simp]: "tkey va 3 = 0"
proof (rule bit_word_eqI)
  fix k assume "k < LENGTH(64)"
  then show "bit (tkey va 3) k \<longleftrightarrow> bit (0 :: u64) k"
    by (simp add: tkey_def bit_drop_bit_eq bit_take_bit_iff)
qed

lemma bit_tkey: "bit (tkey va n) k \<longleftrightarrow> 12 + 9 * n + k < 39 \<and> bit va (12 + 9 * n + k)"
  by (auto simp: tkey_def bit_drop_bit_eq bit_take_bit_iff)

lemma pt_idx_take: "pt_idx va l = take_bit 9 (drop_bit (12 + 9 * l) va)"
  by (simp add: pt_idx_def take_bit_eq_mask mask_numeral add.commute)

lemma bit_pt_idx: "bit (pt_idx va l) k \<longleftrightarrow> k < 9 \<and> bit va (12 + 9 * l + k)"
  by (simp add: pt_idx_take bit_take_bit_iff bit_drop_bit_eq)

lemma pt_idx_less: "unat (pt_idx va l) < 512"
  using take_bit_nat_less_exp [of 9 "unat (drop_bit (12 + 9 * l) va)"]
  by (simp only: pt_idx_take unsigned_take_bit_eq) simp

lemma tkey_split:
  assumes "l < 3"
  shows "tkey va l = tkey va' l \<longleftrightarrow> tkey va (Suc l) = tkey va' (Suc l) \<and> pt_idx va l = pt_idx va' l"
proof
  assume *: "tkey va l = tkey va' l"
  have b: "bit va (12 + 9 * l + k) = bit va' (12 + 9 * l + k)" if "12 + 9 * l + k < 39" for k
    using bit_tkey [of va l k] bit_tkey [of va' l k] that * by simp
  have "tkey va (Suc l) = tkey va' (Suc l)"
  proof (rule bit_word_eqI)
    fix k show "bit (tkey va (Suc l)) k = bit (tkey va' (Suc l)) k"
      using b [of "9 + k"] by (auto simp: bit_tkey algebra_simps)
  qed
  moreover have "pt_idx va l = pt_idx va' l"
  proof (rule bit_word_eqI)
    fix k show "bit (pt_idx va l) k = bit (pt_idx va' l) k"
      using b [of k] assms by (cases "k < 9") (auto simp: bit_pt_idx)
  qed
  ultimately show "tkey va (Suc l) = tkey va' (Suc l) \<and> pt_idx va l = pt_idx va' l" by simp
next
  assume *: "tkey va (Suc l) = tkey va' (Suc l) \<and> pt_idx va l = pt_idx va' l"
  show "tkey va l = tkey va' l"
  proof (rule bit_word_eqI)
    fix k
    show "bit (tkey va l) k = bit (tkey va' l) k"
    proof (cases "k < 9")
      case True
      then show ?thesis
        using * bit_pt_idx [of va l k] bit_pt_idx [of va' l k] by (simp add: bit_tkey)
    next
      case False
      then have "12 + 9 * l + k = 12 + 9 * Suc l + (k - 9)" by simp
      then show ?thesis
        using * bit_tkey [of va "Suc l" "k - 9"] bit_tkey [of va' "Suc l" "k - 9"]
        by (simp add: bit_tkey add.assoc)
    qed
  qed
qed

text \<open>Slots of aligned tables determine the table and the index.\<close>

lemma slot_unat:
  assumes "unat t mod 4096 = 0"
  shows "unat (t + 8 * pt_idx va l) = unat t + 8 * unat (pt_idx va l)"
proof -
  have i: "unat (8 * pt_idx va l) = 8 * unat (pt_idx va l)"
    using pt_idx_less [of va l] by (simp add: unat_word_ariths)
  have "unat t < 2 ^ 64" by (rule unat_lt64)
  moreover obtain q where "unat t = 4096 * q"
    using assms by (auto elim: dvdE simp: mod_eq_0_iff_dvd)
  ultimately have "unat t + 4096 \<le> 2 ^ 64" by simp
  then show ?thesis
    using i pt_idx_less [of va l] by (simp add: unat_word_ariths)
qed

lemma slot_inj:
  assumes "unat t mod 4096 = 0" and "unat t' mod 4096 = 0"
    and "t + 8 * pt_idx va l = t' + 8 * pt_idx va' l'"
  shows "t = t' \<and> pt_idx va l = pt_idx va' l'"
proof -
  have e: "unat t + 8 * unat (pt_idx va l) = unat t' + 8 * unat (pt_idx va' l')"
    using slot_unat [OF assms(1)] slot_unat [OF assms(2)] assms(3) by metis
  obtain q q' where q: "unat t = 4096 * q" "unat t' = 4096 * q'"
    using assms(1,2) by (auto elim!: dvdE simp: mod_eq_0_iff_dvd)
  have "(4096 * q + 8 * unat (pt_idx va l)) div 4096 = q"
    "(4096 * q' + 8 * unat (pt_idx va' l')) div 4096 = q'"
    using pt_idx_less [of va l] pt_idx_less [of va' l'] by simp_all
  with e q have "unat t = unat t'" by simp
  with e show ?thesis by (simp add: word_unat_eq_iff)
qed

lemma pool_page_aligned:
  assumes "pool_ok s" and "pool_page s t"
  shows "unat t mod 4096 = 0" "t \<noteq> 0"
    "\<And>k. t = first_free_page s + RISCV_PGSIZE * of_nat k \<Longrightarrow> k < unat (free_pages s) \<Longrightarrow>
       unat t = unat (first_free_page s) + 4096 * k"
proof -
  have u: "unat (first_free_page s + RISCV_PGSIZE * of_nat k) = unat (first_free_page s) + 4096 * k"
    if "k < unat (free_pages s)" for k
  proof -
    have b: "unat (first_free_page s) + 4096 * k < 2 ^ 64"
      using assms(1) that by (auto simp: pool_ok_def)
    then have "unat (RISCV_PGSIZE * of_nat k :: u64) = 4096 * k"
      by (simp add: unat_word_ariths unat_of_nat64)
    with b show ?thesis by (simp add: unat_word_ariths)
  qed
  show "unat t = unat (first_free_page s) + 4096 * k"
    if "t = first_free_page s + RISCV_PGSIZE * of_nat k" "k < unat (free_pages s)" for k
    using u that by simp
  obtain k where k: "k < unat (next_free_page s)"
    "t = first_free_page s + RISCV_PGSIZE * of_nat k"
    using assms(2) by (auto simp: pool_page_def)
  moreover have "k < unat (free_pages s)"
    using k(1) assms(1) by (simp add: pool_ok_def word_le_nat_alt)
  ultimately have e: "unat t = unat (first_free_page s) + 4096 * k" using u by simp
  then show "unat t mod 4096 = 0"
    using assms(1) by (simp add: pool_ok_def)
  show "t \<noteq> 0"
    using e assms(1) by (auto simp: pool_ok_def unat_eq_0)
qed

subsection \<open>The walk in a tree\<close>

lemma pt_treeD:
  assumes "pt_tree s own"
  shows "pool_ok s" "own (root_page_table s) = Some (2, 0)"
    "own t = Some x \<Longrightarrow> pool_page s t"
    "own t = Some (Suc l, tkey va (Suc (Suc l))) \<Longrightarrow>
       ptmem s (t + 8 * pt_idx va (Suc l)) AND PTE_V \<noteq> 0 \<Longrightarrow>
       own (child (ptmem s (t + 8 * pt_idx va (Suc l)))) = Some (l, tkey va (Suc l))"
  using assms by (auto simp: pt_tree_def)

lemma Suc_2_3: "Suc 2 = 3"
  by simp

lemma own_root: "pt_tree s own \<Longrightarrow> own (root_page_table s) = Some (2, tkey va (Suc 2))"
  using pt_treeD(2) [of s own] by (simp only: Suc_2_3 tkey_3)

lemma own_aligned: "pt_tree s own \<Longrightarrow> own t = Some x \<Longrightarrow> unat t mod 4096 = 0"
  using pool_page_aligned(1) pt_treeD(1,3) by blast

lemma own_slot_inj:
  assumes "pt_tree s own" and "own t = Some x" and "own t' = Some x'"
    and "t + 8 * pt_idx va l = t' + 8 * pt_idx va' l'"
  shows "t = t' \<and> pt_idx va l = pt_idx va' l'"
  by (rule slot_inj [OF own_aligned [OF assms(1,2)] own_aligned [OF assms(1,3)] assms(4)])

text \<open>The walk ends in the slot of a table that serves the address.\<close>

lemma walk_loop_Inr:
  assumes "pt_tree s own" and "own t = Some (n, tkey va (Suc n))"
    and "walk_loop (ptmem s) va t n = Inr p"
  shows "\<exists>t'. own t' = Some (0, tkey va 1) \<and> p = t' + 8 * pt_idx va 0"
  using assms(2,3)
proof (induction n arbitrary: t)
  case 0
  then show ?case by auto
next
  case (Suc n)
  then have v: "ptmem s (t + 8 * pt_idx va (Suc n)) AND PTE_V \<noteq> 0"
    and w: "walk_loop (ptmem s) va (child (ptmem s (t + 8 * pt_idx va (Suc n)))) n = Inr p"
    by (auto simp: Let_def child_def split: if_splits)
  show ?case
    by (rule Suc.IH [OF _ w]) (use pt_treeD(4) [OF assms(1) Suc.prems(1) v] in simp)
qed

lemma walk_loop_Inl:
  assumes "pt_tree s own" and "own t = Some (n, tkey va (Suc n))"
    and "walk_loop (ptmem s) va t n = Inl slot"
  shows "\<exists>t' l. l < n \<and> own t' = Some (Suc l, tkey va (Suc (Suc l))) \<and>
           slot = t' + 8 * pt_idx va (Suc l) \<and> ptmem s slot AND PTE_V = 0"
  using assms(2,3)
proof (induction n arbitrary: t)
  case 0
  then show ?case by simp
next
  case (Suc n)
  show ?case
  proof (cases "ptmem s (t + 8 * pt_idx va (Suc n)) AND PTE_V = 0")
    case True
    then have "slot = t + 8 * pt_idx va (Suc n)"
      using Suc.prems(2) by (auto simp: Let_def)
    then show ?thesis using True Suc.prems(1) by blast
  next
    case False
    then have w: "walk_loop (ptmem s) va (child (ptmem s (t + 8 * pt_idx va (Suc n)))) n = Inl slot"
      using Suc.prems(2) by (simp add: Let_def child_def)
    have "own (child (ptmem s (t + 8 * pt_idx va (Suc n)))) = Some (n, tkey va (Suc n))"
      using pt_treeD(4) [OF assms(1) Suc.prems(1) False] by simp
    from Suc.IH [OF this w] show ?thesis
      using less_SucI by blast
  qed
qed

lemma walk_slot:
  assumes "pt_tree s own" and "walk s va \<noteq> 0"
  shows "\<exists>t. own t = Some (0, tkey va 1) \<and> walk s va = t + 8 * pt_idx va 0"
  using assms walk_loop_Inr [OF assms(1) own_root [OF assms(1)]]
  by (auto simp: walk_def split: sum.splits)

lemma slot_nonzero:
  assumes "pt_tree s own" and "own t = Some x"
  shows "t + 8 * pt_idx va l \<noteq> 0"
proof
  assume z: "t + 8 * pt_idx va l = 0"
  have "unat (t + 8 * pt_idx va l) = unat t + 8 * unat (pt_idx va l)"
    by (rule slot_unat [OF own_aligned [OF assms]])
  then have "t = 0" using z by (simp add: unat_eq_0)
  then show False
    using pool_page_aligned(2) pt_treeD(1,3) assms by blast
qed

lemma walk_Inr:
  assumes "pt_tree s own" and "walk_loop (ptmem s) va (root_page_table s) 2 = Inr p"
  shows "p \<noteq> 0 \<and> walk s va = p"
  using walk_loop_Inr [OF assms(1) own_root [OF assms(1)] assms(2)] slot_nonzero [OF assms(1)] assms(2)
  by (auto simp: walk_def)

text \<open>Equal slots mean the same virtual page.\<close>

lemma walk_eq_iff:
  assumes "pt_tree s own" and "walk s va \<noteq> 0"
  shows "walk s va' = walk s va \<longleftrightarrow> vpn_of va' = vpn_of va"
proof
  assume e: "walk s va' = walk s va"
  obtain t t' where t: "own t = Some (0, tkey va 1)" "walk s va = t + 8 * pt_idx va 0"
    and t': "own t' = Some (0, tkey va' 1)" "walk s va' = t' + 8 * pt_idx va' 0"
    using walk_slot [OF assms(1)] assms(2) e by metis
  have "t = t' \<and> pt_idx va 0 = pt_idx va' 0"
    using own_slot_inj [OF assms(1) t(1) t'(1)] t(2) t'(2) e by simp
  with t(1) t'(1) show "vpn_of va' = vpn_of va"
    using tkey_split [of 0 va' va] by simp
next
  assume v: "vpn_of va' = vpn_of va"
  have k: "tkey va' (Suc n) = tkey va (Suc n)" "pt_idx va' n = pt_idx va n" if "n \<le> 2" for n
  proof -
    have "tkey va' 1 = tkey va 1 \<and> pt_idx va' 0 = pt_idx va 0"
      "tkey va' 2 = tkey va 2 \<and> pt_idx va' 1 = pt_idx va 1"
      "tkey va' 3 = tkey va 3 \<and> pt_idx va' 2 = pt_idx va 2"
      using v tkey_split [of 0 va' va] tkey_split [of 1 va' va] tkey_split [of 2 va' va]
      by (auto simp: eval_nat_numeral)
    moreover have "n = 0 \<or> n = 1 \<or> n = 2" using that by auto
    ultimately show "tkey va' (Suc n) = tkey va (Suc n)" "pt_idx va' n = pt_idx va n"
      by (auto simp: eval_nat_numeral)
  qed
  have "walk_loop m va' t n = walk_loop m va t n" if "n \<le> 2" for m t n
    using that by (induction n arbitrary: t) (simp_all add: k Let_def)
  then show "walk s va' = walk s va" by (simp add: walk_def)
qed

subsection \<open>Adding a table\<close>

lemma aligned_add:
  assumes "unat (t :: u64) mod 4096 = 0" and "unat d < 4096"
  shows "unat (t + d) = unat t + unat d"
proof -
  obtain q where q: "unat t = 4096 * q"
    using assms(1) by (auto elim: dvdE simp: mod_eq_0_iff_dvd)
  have "unat t < 2 ^ 64" by (rule unat_lt64)
  with q assms(2) have "unat t + unat d < 2 ^ 64" by simp
  then show ?thesis by (simp add: unat_word_ariths)
qed

lemma in_page_iff:
  assumes "unat t mod 4096 = 0" and "unat page mod 4096 = 0"
  shows "t + 8 * pt_idx va l - page < RISCV_PGSIZE \<longleftrightarrow> t = page"
proof
  assume "t + 8 * pt_idx va l - page < RISCV_PGSIZE"
  then have d: "unat (t + 8 * pt_idx va l - page) < 4096"
    by (simp add: word_less_nat_alt)
  obtain q q' where q: "unat t = 4096 * q" "unat page = 4096 * q'"
    using assms by (auto elim!: dvdE simp: mod_eq_0_iff_dvd)
  have "unat (page + (t + 8 * pt_idx va l - page)) = 4096 * q' + unat (t + 8 * pt_idx va l - page)"
    using aligned_add [OF assms(2) d] q by simp
  then have "4096 * q + 8 * unat (pt_idx va l) = 4096 * q' + unat (t + 8 * pt_idx va l - page)"
    using slot_unat [OF assms(1), of va l] q by simp
  moreover have "(4096 * q + 8 * unat (pt_idx va l)) div 4096 = q"
    "(4096 * q' + unat (t + 8 * pt_idx va l - page)) div 4096 = q'"
    using pt_idx_less [of va l] d by simp_all
  ultimately show "t = page" using q by (simp add: word_unat_eq_iff)
next
  have i: "unat (8 * pt_idx va l) = 8 * unat (pt_idx va l)"
    using pt_idx_less [of va l] by (simp add: unat_word_ariths)
  assume "t = page"
  then have "t + 8 * pt_idx va l - page = 8 * pt_idx va l" by simp
  then show "t + 8 * pt_idx va l - page < RISCV_PGSIZE"
    using i pt_idx_less [of va l] by (simp add: word_less_nat_alt)
qed

lemma child_ptd:
  assumes "unat page mod 4096 = 0"
  shows "child (ptd_create (ppn page)) = page" "ptd_create (ppn page) AND PTE_V \<noteq> 0"
proof -
  have "take_bit 12 page = 0"
  proof -
    have "unat (take_bit 12 page) = unat page mod 2 ^ 12"
      by (simp only: take_bit_eq_mask unat_and_mask)
    then show ?thesis using assms by (simp add: unat_eq_0)
  qed
  then have b: "\<not> bit page k" if "k < 12" for k
    using bit_take_bit_iff [of 12 page k] that by simp
  have "bit (child (ptd_create (ppn page))) k = bit page k" if "k < 64" for k
    using that b [of k]
    by (cases "k < 12") (auto simp: child_def pte_ppn_def ptd_create_def pte_create_def ppn_def
        bit_push_bit_iff bit_drop_bit_eq bit_or_iff bit_1_iff not_less)
  then show "child (ptd_create (ppn page)) = page" by (intro bit_word_eqI) simp
  have "bit (ptd_create (ppn page) AND PTE_V) 0"
    by (simp add: ptd_create_def pte_create_def bit_and_iff bit_or_iff bit_1_iff)
  then show "ptd_create (ppn page) AND PTE_V \<noteq> 0" by auto
qed

lemma page_alloc_fresh:
  assumes "pt_tree s own" and "page_alloc s = Some (page, s1)"
  shows "own page = None \<and> unat page mod 4096 = 0 \<and> page \<noteq> 0 \<and> pool_ok s1 \<and> pool_page s1 page \<and>
    (\<forall>t. pool_page s t \<longrightarrow> pool_page s1 t) \<and>
    s1 = s\<lparr>next_free_page := next_free_page s + 1,
           ptmem := (\<lambda>a. if a - page < RISCV_PGSIZE then 0 else ptmem s a)\<rparr>"
proof -
  let ?n = "next_free_page s"
  have ok: "pool_ok s" using pt_treeD(1) [OF assms(1)] .
  have s1: "s1 = s\<lparr>next_free_page := next_free_page s + 1,
           ptmem := (\<lambda>a. if a - page < RISCV_PGSIZE then 0 else ptmem s a)\<rparr>"
    and page: "page = first_free_page s + RISCV_PGSIZE * of_nat (unat ?n)" and ne: "?n \<noteq> free_pages s"
    using assms(2) by (auto simp: page_alloc_def Let_def)
  have lt: "unat ?n < unat (free_pages s)"
    using ok ne by (simp add: pool_ok_def word_le_nat_alt word_unat_eq_iff)
  have n1: "unat (?n + 1) = Suc (unat ?n)"
  proof -
    have "unat (free_pages s) < 2 ^ 64" by (rule unat_lt64)
    with lt show ?thesis by (simp add: unat_word_ariths)
  qed
  have ok1: "pool_ok s1"
    using ok lt n1 by (simp add: pool_ok_def s1 word_le_nat_alt)
  have p1: "pool_page s1 page"
    unfolding pool_page_def by (rule exI [of _ "unat ?n"]) (simp add: s1 page n1)
  have mono: "\<forall>t. pool_page s t \<longrightarrow> pool_page s1 t"
  proof (intro allI impI)
    fix t assume "pool_page s t"
    then obtain k where "k < unat ?n" "t = first_free_page s + RISCV_PGSIZE * of_nat k"
      by (auto simp: pool_page_def)
    then show "pool_page s1 t"
      unfolding pool_page_def using n1 by (intro exI [of _ k]) (simp add: s1)
  qed
  have "own page = None"
  proof (rule ccontr)
    assume "own page \<noteq> None"
    then have "pool_page s page" using pt_treeD(3) [OF assms(1)] by blast
    then obtain k where k: "k < unat ?n" "page = first_free_page s + RISCV_PGSIZE * of_nat k"
      by (auto simp: pool_page_def)
    have "k < unat (free_pages s)" using k(1) lt by simp
    from pool_page_aligned(3) [OF ok \<open>pool_page s page\<close> k(2) this]
      pool_page_aligned(3) [OF ok \<open>pool_page s page\<close> page lt]
    have "k = unat ?n" by linarith
    then show False using k(1) by simp
  qed
  then show ?thesis
    using ok1 p1 mono s1 pool_page_aligned(1,2) [OF ok1 p1] by blast
qed

text \<open>One step of the walk that creates: where the new memory differs.\<close>

lemma create_mem:
  assumes tree: "pt_tree s own" and t0: "own t0 = Some (Suc l, tkey va (Suc (Suc l)))"
    and slot: "slot = t0 + 8 * pt_idx va (Suc l)"
    and alloc: "page_alloc s = Some (page, s1)"
    and s2: "s2 = s1\<lparr>ptmem := (ptmem s1)(slot := ptd_create (ppn page))\<rparr>"
  shows "own t = Some x \<Longrightarrow> t + 8 * pt_idx w n \<noteq> slot \<Longrightarrow>
           ptmem s2 (t + 8 * pt_idx w n) = ptmem s (t + 8 * pt_idx w n)"
    "ptmem s2 (page + 8 * pt_idx w n) = 0"
    "child (ptmem s2 slot) = page" "ptmem s2 slot AND PTE_V \<noteq> 0"
proof -
  note f = page_alloc_fresh [OF tree alloc]
  have m: "ptmem s2 a = (if a = slot then ptd_create (ppn page)
      else if a - page < RISCV_PGSIZE then 0 else ptmem s a)" for a
    using f by (simp add: s2)
  show "child (ptmem s2 slot) = page" "ptmem s2 slot AND PTE_V \<noteq> 0"
    using child_ptd f by (simp_all add: m)
  have al: "unat page mod 4096 = 0" using f by simp
  have "page + 8 * pt_idx w n \<noteq> slot"
  proof
    assume "page + 8 * pt_idx w n = slot"
    then have "page = t0"
      using slot_inj [OF al own_aligned [OF tree t0]] unfolding slot by blast
    with f t0 show False by simp
  qed
  moreover have "page + 8 * pt_idx w n - page < RISCV_PGSIZE"
    unfolding in_page_iff [OF al al] by (rule refl)
  ultimately show "ptmem s2 (page + 8 * pt_idx w n) = 0" by (simp add: m)
  assume o: "own t = Some x" and "t + 8 * pt_idx w n \<noteq> slot"
  moreover have "t \<noteq> page" using f o by auto
  then have "\<not> t + 8 * pt_idx w n - page < RISCV_PGSIZE"
    unfolding in_page_iff [OF own_aligned [OF tree o] al] .
  ultimately show "ptmem s2 (t + 8 * pt_idx w n) = ptmem s (t + 8 * pt_idx w n)" by (simp add: m)
qed

lemma create_tree:
  assumes tree: "pt_tree s own" and t0: "own t0 = Some (Suc l, tkey va (Suc (Suc l)))"
    and slot: "slot = t0 + 8 * pt_idx va (Suc l)" and l: "l < 2"
    and alloc: "page_alloc s = Some (page, s1)"
    and s2: "s2 = s1\<lparr>ptmem := (ptmem s1)(slot := ptd_create (ppn page))\<rparr>"
  shows "pt_tree s2 (own(page \<mapsto> (l, tkey va (Suc l))))"
proof -
  note f = page_alloc_fresh [OF tree alloc] and mem = create_mem [OF tree t0 slot alloc s2]
  let ?own = "own(page \<mapsto> (l, tkey va (Suc l)))"
  have pool: "pool_page s2 t" if "pool_page s1 t" for t
    using that by (simp add: s2 pool_page_def)
  have "?own (child (ptmem s2 (t + 8 * pt_idx w (Suc n)))) = Some (n, tkey w (Suc n))"
    if own: "?own t = Some (Suc n, tkey w (Suc (Suc n)))"
      and v: "ptmem s2 (t + 8 * pt_idx w (Suc n)) AND PTE_V \<noteq> 0" for t w n
  proof -
    have t: "own t = Some (Suc n, tkey w (Suc (Suc n)))" "t \<noteq> page"
      using own v mem(2) by (auto split: if_splits)
    show ?thesis
    proof (cases "t + 8 * pt_idx w (Suc n) = slot")
      case True
      then have "t = t0 \<and> pt_idx w (Suc n) = pt_idx va (Suc l)"
        using own_slot_inj [OF tree t(1) t0] slot by simp
      with t(1) t0 l have "n = l" "tkey w (Suc n) = tkey va (Suc l)"
        using tkey_split [of "Suc l" w va] by auto
      then show ?thesis using True mem(3) by simp
    next
      case False
      have e: "ptmem s2 (t + 8 * pt_idx w (Suc n)) = ptmem s (t + 8 * pt_idx w (Suc n))"
        by (rule mem(1) [OF t(1) False])
      have "own (child (ptmem s (t + 8 * pt_idx w (Suc n)))) = Some (n, tkey w (Suc n))"
        using pt_treeD(4) [OF tree t(1)] v e by simp
      then show ?thesis using f e by auto
    qed
  qed
  moreover have "pool_ok s2"
  proof -
    have "pool_ok s1" using f by blast
    then show ?thesis by (simp add: s2 pool_ok_def)
  qed
  moreover have "?own (root_page_table s2) = Some (2, 0)"
    using f pt_treeD(2) [OF tree] by (auto simp: s2)
  moreover have "pool_page s2 t" if "?own t = Some x" for t x
    using that f pool pt_treeD(3) [OF tree] by (auto split: if_splits)
  ultimately show ?thesis unfolding pt_tree_def by blast
qed

text \<open>No walk reads another value than before.\<close>

lemma create_walk:
  assumes tree: "pt_tree s own" and t0: "own t0 = Some (Suc l, tkey va (Suc (Suc l)))"
    and slot: "slot = t0 + 8 * pt_idx va (Suc l)" and inv: "ptmem s slot AND PTE_V = 0"
    and alloc: "page_alloc s = Some (page, s1)"
    and s2: "s2 = s1\<lparr>ptmem := (ptmem s1)(slot := ptd_create (ppn page))\<rparr>"
    and t: "own t = Some (n, tkey w (Suc n))"
  shows "case walk_loop (ptmem s2) w t n of
           Inr p \<Rightarrow> ptmem s2 p = (case walk_loop (ptmem s) w t n of Inl _ \<Rightarrow> 0 | Inr q \<Rightarrow> ptmem s q)
         | Inl _ \<Rightarrow> (\<exists>x. walk_loop (ptmem s) w t n = Inl x)"
  using t
proof (induction n arbitrary: t)
  case 0
  note mem = create_mem [OF tree t0 slot alloc s2]
  have "t + 8 * pt_idx w 0 \<noteq> slot"
    using own_slot_inj [OF tree "0.prems" t0, of w 0 va "Suc l"] slot "0.prems" t0 by auto
  then show ?case using mem(1) [OF "0.prems"] by simp
next
  case (Suc n)
  note mem = create_mem [OF tree t0 slot alloc s2]
  let ?a = "t + 8 * pt_idx w (Suc n)"
  show ?case
  proof (cases "?a = slot")
    case True
    have "walk_loop (ptmem s) w t (Suc n) = Inl slot"
      using True inv by simp
    moreover have "walk_loop (ptmem s2) w t (Suc n) = walk_loop (ptmem s2) w page n"
      using True mem(3,4) by (simp add: child_def)
    moreover have "case walk_loop (ptmem s2) w page n of Inr p \<Rightarrow> ptmem s2 p = 0 | Inl _ \<Rightarrow> True"
      using mem(2) by (cases n) (auto simp: Let_def)
    ultimately show ?thesis by (auto split: sum.splits)
  next
    case False
    have e: "ptmem s2 ?a = ptmem s ?a"
      by (rule mem(1) [OF Suc.prems False])
    show ?thesis
    proof (cases "ptmem s ?a AND PTE_V = 0")
      case True
      then show ?thesis using e by simp
    next
      case v: False
      have "own (child (ptmem s ?a)) = Some (n, tkey w (Suc n))"
        by (rule pt_treeD(4) [OF tree Suc.prems v])
      moreover have "walk_loop (ptmem s) w t (Suc n) = walk_loop (ptmem s) w (child (ptmem s ?a)) n"
        "walk_loop (ptmem s2) w t (Suc n) = walk_loop (ptmem s2) w (child (ptmem s ?a)) n"
        using v e by (simp_all add: child_def)
      ultimately show ?thesis using Suc.IH by (simp only:)
    qed
  qed
qed

lemma create_pte_at:
  assumes tree: "pt_tree s own" and t0: "own t0 = Some (Suc l, tkey va (Suc (Suc l)))"
    and slot: "slot = t0 + 8 * pt_idx va (Suc l)" and inv: "ptmem s slot AND PTE_V = 0"
    and l: "l < 2" and alloc: "page_alloc s = Some (page, s1)"
    and s2: "s2 = s1\<lparr>ptmem := (ptmem s1)(slot := ptd_create (ppn page))\<rparr>"
  shows "pte_at s2 w = pte_at s w"
proof -
  have r: "root_page_table s2 = root_page_table s"
    using page_alloc_fresh [OF tree alloc] by (simp add: s2)
  note tree2 = create_tree [OF tree t0 slot l alloc s2]
  note nz = walk_Inr [OF tree, of w] and nz2 = walk_Inr [OF tree2, of w]
  from create_walk [OF tree t0 slot inv alloc s2 own_root [OF tree, of w]] nz nz2 show ?thesis
    unfolding r pte_at_def walk_def by (auto split: sum.splits)
qed

definition pt_frame :: "'h pk \<Rightarrow> 'h pk \<Rightarrow> bool" where
  "pt_frame s s' \<longleftrightarrow> (\<exists>m n. s' = s\<lparr>ptmem := m, next_free_page := n\<rparr>)"

lemma pt_frame_refl [simp]: "pt_frame s s"
  unfolding pt_frame_def by (rule exI [of _ "ptmem s"], rule exI [of _ "next_free_page s"]) simp

lemma pt_frame_trans: "pt_frame s t \<Longrightarrow> pt_frame t u \<Longrightarrow> pt_frame s u"
  unfolding pt_frame_def by fastforce

lemma pt_frame_same:
  assumes "pt_frame s s'"
  shows "fds s' = fds s" "f_refcnt s' = f_refcnt s" "f_kfd s' = f_kfd s" "vmr_at s' = vmr_at s"
    "vmrs s' = vmrs s" "current s' = current s" "vm_lock s' = vm_lock s"
    "first_free_paddr s' = first_free_paddr s" "first_free_page s' = first_free_page s"
    "free_pages s' = free_pages s" "demand_paging s' = demand_paging s" "mem s' = mem s"
    "hst s' = hst s" "root_page_table s' = root_page_table s" "kbuf s' = kbuf s"
    "mem_size s' = mem_size s"
  using assms by (auto simp: pt_frame_def)

lemma walk_create_spec:
  assumes ret: "walk_create va s = Some (p, s')" and "pt_inv s"
  shows "pt_inv s' \<and> p \<noteq> 0 \<and> walk s' va = p \<and> (\<forall>w. pte_at s' w = pte_at s w) \<and> pt_frame s s'"
proof -
  let ?P = "\<lambda>s p s'. pt_inv s \<longrightarrow>
     pt_inv s' \<and> p \<noteq> 0 \<and> walk s' va = p \<and> (\<forall>w. pte_at s' w = pte_at s w) \<and> pt_frame s s'"
  have "va = va \<longrightarrow> (case (p, s') of (p, s') \<Rightarrow> ?P s p s')"
  proof (rule walk_create.raw_induct
      [where P = "\<lambda>a s r. a = va \<longrightarrow> (case r of (p, s') \<Rightarrow> ?P s p s')", OF _ ret])
    fix f a s r
    assume IH: "\<And>a s r. f a s = Some r \<Longrightarrow> a = va \<longrightarrow> (case r of (p, s') \<Rightarrow> ?P s p s')"
      and eq: "(case walk_loop (ptmem s) a (root_page_table s) 2 of
        Inl slot \<Rightarrow> page_alloc s \<bind> (\<lambda>(page, s1).
            f a (s1\<lparr>ptmem := (ptmem s1)(slot := ptd_create (ppn page))\<rparr>))
      | Inr p \<Rightarrow> Some (p, s)) = Some r"
    show "a = va \<longrightarrow> (case r of (p, s') \<Rightarrow> ?P s p s')"
    proof (intro impI, clarify)
      fix p s' assume a: "a = va" and r: "r = (p, s')" and "pt_inv s"
      then obtain own where tree: "pt_tree s own" by (auto simp: pt_inv_def)
      show "pt_inv s' \<and> p \<noteq> 0 \<and> walk s' va = p \<and> (\<forall>w. pte_at s' w = pte_at s w) \<and> pt_frame s s'"
      proof (cases "walk_loop (ptmem s) va (root_page_table s) 2")
        case (Inr q)
        then have "p = q" "s' = s" using eq a r by auto
        then show ?thesis using walk_Inr [OF tree Inr] \<open>pt_inv s\<close> by simp
      next
        case (Inl slot)
        then obtain page s1 where al: "page_alloc s = Some (page, s1)"
          and rec: "f va (s1\<lparr>ptmem := (ptmem s1)(slot := ptd_create (ppn page))\<rparr>) = Some (p, s')"
          using eq a r by (auto simp: bind_Some_iff)
        define s2 where s2: "s2 = s1\<lparr>ptmem := (ptmem s1)(slot := ptd_create (ppn page))\<rparr>"
        obtain t l where t: "l < 2" "own t = Some (Suc l, tkey va (Suc (Suc l)))"
          "slot = t + 8 * pt_idx va (Suc l)" "ptmem s slot AND PTE_V = 0"
          using walk_loop_Inl [OF tree own_root [OF tree] Inl] by blast
        have "pt_inv s2"
          using create_tree [OF tree t(2,3,1) al s2] by (auto simp: pt_inv_def)
        moreover have "pte_at s2 w = pte_at s w" for w
          by (rule create_pte_at [OF tree t(2,3,4,1) al s2])
        moreover have "pt_frame s s2"
          using page_alloc_fresh [OF tree al] unfolding pt_frame_def s2
          by (intro exI [of _ "ptmem s2"] exI [of _ "next_free_page s2"]) (simp add: s2)
        ultimately show ?thesis
          using IH [OF rec [folded s2]] pt_frame_trans [of s s2 s'] by auto
      qed
    qed
  qed
  with assms(2) show ?thesis by simp
qed

text \<open>It returns while the pool has a page for every missing level.\<close>

lemma create_walk_same:
  assumes tree: "pt_tree s own" and t0: "own t0 = Some (Suc l, tkey va (Suc (Suc l)))"
    and slot: "slot = t0 + 8 * pt_idx va (Suc l)" and alloc: "page_alloc s = Some (page, s1)"
    and s2: "s2 = s1\<lparr>ptmem := (ptmem s1)(slot := ptd_create (ppn page))\<rparr>"
    and t: "own t = Some (n, tkey va (Suc n))" and w: "walk_loop (ptmem s) va t n = Inl slot"
  shows "walk_loop (ptmem s2) va t n = walk_loop (ptmem s2) va page l"
  using t w
proof (induction n arbitrary: t)
  case 0
  then show ?case by simp
next
  case (Suc n)
  note mem = create_mem [OF tree t0 slot alloc s2]
  let ?a = "t + 8 * pt_idx va (Suc n)"
  show ?case
  proof (cases "?a = slot")
    case True
    then have "t = t0"
      using own_slot_inj [OF tree Suc.prems(1) t0] slot by simp
    with Suc.prems(1) t0 have "n = l" by simp
    then show ?thesis using True mem(3,4) by (simp add: child_def)
  next
    case False
    then have v: "ptmem s ?a AND PTE_V \<noteq> 0"
      and w: "walk_loop (ptmem s) va (child (ptmem s ?a)) n = Inl slot"
      using Suc.prems(2) by (auto simp: Let_def child_def split: if_splits)
    have "own (child (ptmem s ?a)) = Some (n, tkey va (Suc n))"
      by (rule pt_treeD(4) [OF tree Suc.prems(1) v])
    from Suc.IH [OF this w] show ?thesis
      using mem(1) [OF Suc.prems(1) False] v by (simp add: child_def)
  qed
qed

lemma walk_create_missing:
  assumes "pt_tree s own" and "walk_loop (ptmem s) va (root_page_table s) 2 = Inl slot"
    and "own t = Some (Suc l, tkey va (Suc (Suc l)))" and "slot = t + 8 * pt_idx va (Suc l)"
    and "ptmem s slot AND PTE_V = 0" and "l < 2"
    and "unat (next_free_page s) + Suc l \<le> unat (free_pages s)"
  shows "\<exists>p s'. walk_create va s = Some (p, s') \<and>
           unat (next_free_page s') = unat (next_free_page s) + Suc l"
  using assms
proof (induction l arbitrary: s own slot t)
  case (0 s own slot t)
  note tree = 0(1)
  have "next_free_page s \<noteq> free_pages s" using 0(7) by auto
  then obtain page s1 where al: "page_alloc s = Some (page, s1)"
    by (auto simp: page_alloc_def Let_def)
  define s2 where s2: "s2 = s1\<lparr>ptmem := (ptmem s1)(slot := ptd_create (ppn page))\<rparr>"
  have r: "root_page_table s2 = root_page_table s"
    using page_alloc_fresh [OF tree al] by (simp add: s2)
  have "walk_loop (ptmem s2) va (root_page_table s) 2 = walk_loop (ptmem s2) va page 0"
    by (rule create_walk_same [OF tree 0(3,4) al s2 own_root [OF tree] 0(2)])
  then have "walk_create va s = Some (page + 8 * pt_idx va 0, s2)"
    using 0(2) al by (subst walk_create.simps, simp, subst walk_create.simps, simp add: r flip: s2)
  moreover have "unat (next_free_page s2) = Suc (unat (next_free_page s))"
    using page_alloc_fresh [OF tree al] 0(7) unat_lt64 [of "free_pages s"]
    by (simp add: s2 unat_word_ariths)
  ultimately show ?case by simp
next
  case (Suc l s own slot t)
  note tree = Suc.prems(1)
  have "next_free_page s \<noteq> free_pages s" using Suc.prems(7) by auto
  then obtain page s1 where al: "page_alloc s = Some (page, s1)"
    by (auto simp: page_alloc_def Let_def)
  define s2 where s2: "s2 = s1\<lparr>ptmem := (ptmem s1)(slot := ptd_create (ppn page))\<rparr>"
  note f = page_alloc_fresh [OF tree al]
  have r: "root_page_table s2 = root_page_table s" "free_pages s2 = free_pages s"
    using f by (simp_all add: s2)
  have n: "unat (next_free_page s2) = Suc (unat (next_free_page s))"
    using f Suc.prems(7) unat_lt64 [of "free_pages s"] by (simp add: s2 unat_word_ariths)
  note mem = create_mem [OF tree Suc.prems(3,4) al s2]
  have "walk_loop (ptmem s2) va (root_page_table s) 2 = walk_loop (ptmem s2) va page (Suc l)"
    by (rule create_walk_same [OF tree Suc.prems(3,4) al s2 own_root [OF tree] Suc.prems(2)])
  also have "\<dots> = Inl (page + 8 * pt_idx va (Suc l))"
    using mem(2) by simp
  finally have w: "walk_loop (ptmem s2) va (root_page_table s2) 2 = Inl (page + 8 * pt_idx va (Suc l))"
    by (simp add: r)
  have "\<exists>p s'. walk_create va s2 = Some (p, s') \<and>
           unat (next_free_page s') = unat (next_free_page s2) + Suc l"
    by (rule Suc.IH [OF create_tree [OF tree Suc.prems(3,4,6) al s2] w])
      (use mem(2) Suc.prems n r in auto)
  moreover have "walk_create va s = walk_create va s2"
    using Suc.prems(2) al by (subst walk_create.simps) (simp flip: s2)
  ultimately show ?case using n by simp
qed

lemma walk_create_total:
  assumes "pt_inv s" and "unat (next_free_page s) + 2 \<le> unat (free_pages s)"
  shows "\<exists>p s'. walk_create va s = Some (p, s') \<and>
           unat (next_free_page s') \<le> unat (next_free_page s) + 2"
proof -
  obtain own where tree: "pt_tree s own" using assms(1) by (auto simp: pt_inv_def)
  show ?thesis
  proof (cases "walk_loop (ptmem s) va (root_page_table s) 2")
    case (Inr p)
    then show ?thesis by (simp add: walk_create.simps)
  next
    case (Inl slot)
    obtain t l where t: "l < 2" "own t = Some (Suc l, tkey va (Suc (Suc l)))"
      "slot = t + 8 * pt_idx va (Suc l)" "ptmem s slot AND PTE_V = 0"
      using walk_loop_Inl [OF tree own_root [OF tree] Inl] by blast
    have "unat (next_free_page s) + Suc l \<le> unat (free_pages s)" using t(1) assms(2) by simp
    from walk_create_missing [OF tree Inl t(2,3,4,1) this] t(1) show ?thesis by fastforce
  qed
qed

subsection \<open>Storing an entry\<close>

lemma set_pte_frame: "pt_frame s (set_pte p x s)"
  unfolding pt_frame_def set_pte_def
  by (intro exI [of _ "(ptmem s)(p := x)"] exI [of _ "next_free_page s"]) simp

lemma set_pte_walk_loop:
  assumes tree: "pt_tree s own" and t0: "own t0 = Some (0, k)" and p: "p = t0 + 8 * pt_idx va 0"
    and t: "own t = Some (n, tkey w (Suc n))"
  shows "walk_loop ((ptmem s)(p := x)) w t n = walk_loop (ptmem s) w t n"
  using t
proof (induction n arbitrary: t)
  case 0
  then show ?case by simp
next
  case (Suc n)
  let ?a = "t + 8 * pt_idx w (Suc n)"
  have "?a \<noteq> p"
  proof
    assume "?a = p"
    then have "t = t0" using own_slot_inj [OF tree Suc.prems t0] p by blast
    with Suc.prems t0 show False by simp
  qed
  then show ?case
    using Suc.IH pt_treeD(4) [OF tree Suc.prems] by (simp add: Let_def child_def)
qed

lemma set_pte_tree:
  assumes tree: "pt_tree s own" and t0: "own t0 = Some (0, k)" and p: "p = t0 + 8 * pt_idx va 0"
  shows "pt_tree (set_pte p x s) own"
proof -
  have "own (child (ptmem (set_pte p x s) (t + 8 * pt_idx w (Suc l)))) = Some (l, tkey w (Suc l))"
    if own: "own t = Some (Suc l, tkey w (Suc (Suc l)))"
      and v: "ptmem (set_pte p x s) (t + 8 * pt_idx w (Suc l)) AND PTE_V \<noteq> 0" for t w l
  proof -
    have "t + 8 * pt_idx w (Suc l) \<noteq> p"
    proof
      assume "t + 8 * pt_idx w (Suc l) = p"
      then have "t = t0" using own_slot_inj [OF tree own t0] p by blast
      with own t0 show False by simp
    qed
    then show ?thesis using pt_treeD(4) [OF tree own] v by (simp add: set_pte_def)
  qed
  then show ?thesis
    using tree by (auto simp: pt_tree_def set_pte_def pool_ok_def pool_page_def)
qed

lemma set_pte_spec:
  assumes "pt_inv s" and nz: "walk s va \<noteq> 0"
  shows "pt_inv (set_pte (walk s va) x s) \<and>
    (\<forall>w. walk (set_pte (walk s va) x s) w = walk s w) \<and>
    (\<forall>w. pte_at (set_pte (walk s va) x s) w = (if vpn_of w = vpn_of va then x else pte_at s w))"
proof -
  obtain own where tree: "pt_tree s own" using assms(1) by (auto simp: pt_inv_def)
  obtain t where t: "own t = Some (0, tkey va 1)" "walk s va = t + 8 * pt_idx va 0"
    using walk_slot [OF tree nz] by blast
  have w: "walk (set_pte (walk s va) x s) w = walk s w" for w
    using set_pte_walk_loop [OF tree t own_root [OF tree, of w]] by (simp add: walk_def set_pte_def)
  have "pte_at (set_pte (walk s va) x s) w = (if vpn_of w = vpn_of va then x else pte_at s w)" for w
    using walk_eq_iff [OF tree nz, of w] nz unfolding pte_at_def w
    by (auto simp: set_pte_def)
  then show ?thesis
    using set_pte_tree [OF tree t] w by (auto simp: pt_inv_def)
qed

lemma pte_at_cong: "pt_inv s \<Longrightarrow> vpn_of w = vpn_of va \<Longrightarrow> pte_at s w = pte_at s va"
  unfolding pt_inv_def pte_at_def by (metis walk_eq_iff)

subsection \<open>The page map\<close>

text \<open>
  What the mapping operations use of the tables: \<open>reserve\<close> makes the slot of an address
  exist without changing any entry, \<open>put\<close> stores one entry.
\<close>

locale page_map =
  fixes inv :: "'s \<Rightarrow> bool"
    and get :: "'s \<Rightarrow> u64 \<Rightarrow> u64"
    and slot :: "'s \<Rightarrow> u64 \<Rightarrow> u64"
    and reserve :: "u64 \<Rightarrow> 's \<Rightarrow> (u64 \<times> 's) option"
    and put :: "u64 \<Rightarrow> u64 \<Rightarrow> 's \<Rightarrow> 's"
    and frame :: "'s \<Rightarrow> 's \<Rightarrow> bool"
  assumes frame_refl: "frame s s"
    and frame_trans: "frame s t \<Longrightarrow> frame t u \<Longrightarrow> frame s u"
    and reserve_law: "inv s \<Longrightarrow> reserve va s = Some (p, s') \<Longrightarrow>
      inv s' \<and> p = slot s' va \<and> p \<noteq> 0 \<and> (\<forall>w. get s' w = get s w) \<and> frame s s'"
    and put_law: "inv s \<Longrightarrow> slot s va \<noteq> 0 \<Longrightarrow>
      inv (put (slot s va) x s) \<and> frame s (put (slot s va) x s) \<and>
      (\<forall>w. get (put (slot s va) x s) w = (if vpn_of w = vpn_of va then x else get s w))"
begin

text \<open>Reserving and storing is an update of the map.\<close>

definition enter :: "(u64 \<Rightarrow> u64) \<Rightarrow> u64 \<Rightarrow> 's \<Rightarrow> 's option" where
  "enter f va s = (case reserve va s of None \<Rightarrow> None | Some (p, s1) \<Rightarrow> Some (put p (f va) s1))"

lemma enter_law:
  assumes "inv s" and "enter f va s = Some s'"
  shows "inv s' \<and> frame s s' \<and> (\<forall>w. get s' w = (if vpn_of w = vpn_of va then f va else get s w))"
proof -
  obtain p s1 where r: "reserve va s = Some (p, s1)" and s': "s' = put p (f va) s1"
    using assms(2) by (auto simp: enter_def split: option.splits)
  note a = reserve_law [OF assms(1) r]
  then have "inv s1" "slot s1 va \<noteq> 0" "p = slot s1 va" by auto
  from put_law [OF this(1,2), of "f va"] a s' \<open>p = slot s1 va\<close> frame_trans [of s s1 s']
  show ?thesis by auto
qed

text \<open>Entering a list of addresses, later ones over earlier ones.\<close>

primrec enter_all :: "(u64 \<Rightarrow> u64) \<Rightarrow> u64 list \<Rightarrow> 's \<Rightarrow> 's option" where
  "enter_all f [] s = Some s"
| "enter_all f (va # vas) s = (case enter f va s of None \<Rightarrow> None | Some s1 \<Rightarrow> enter_all f vas s1)"

lemma enter_all_law:
  assumes "inv s" and "enter_all f vas s = Some s'"
  shows "inv s' \<and> frame s s' \<and>
    (\<forall>w. vpn_of w \<notin> vpn_of ` set vas \<longrightarrow> get s' w = get s w) \<and>
    (distinct (map vpn_of vas) \<longrightarrow> (\<forall>va \<in> set vas. \<forall>w. vpn_of w = vpn_of va \<longrightarrow> get s' w = f va))"
  using assms
proof (induction vas arbitrary: s)
  case Nil
  then show ?case using frame_refl by simp
next
  case (Cons va vas)
  then obtain s1 where s1: "enter f va s = Some s1" "enter_all f vas s1 = Some s'"
    by (auto split: option.splits)
  note e = enter_law [OF Cons.prems(1) s1(1)]
  then have "inv s1" by simp
  from Cons.IH [OF this s1(2)] e frame_trans [of s s1 s'] show ?case by auto
qed

end

interpretation pages: page_map pt_inv pte_at walk walk_create set_pte pt_frame
proof
  fix s s' :: "'a pk" and va p x
  show "pt_inv s' \<and> p = walk s' va \<and> p \<noteq> 0 \<and> (\<forall>w. pte_at s' w = pte_at s w) \<and> pt_frame s s'"
    if "pt_inv s" and "walk_create va s = Some (p, s')"
    using walk_create_spec [OF that(2,1)] by blast
  show "pt_inv (set_pte (walk s va) x s) \<and> pt_frame s (set_pte (walk s va) x s) \<and>
      (\<forall>w. pte_at (set_pte (walk s va) x s) w = (if vpn_of w = vpn_of va then x else pte_at s w))"
    if "pt_inv s" and "walk s va \<noteq> 0"
    using set_pte_spec [OF that, of x] set_pte_frame by blast
qed (auto intro: pt_frame_trans)

subsection \<open>Properties\<close>

text \<open>
  C12. \<^verbatim>\<open>__walk_create\<close> on page tables that form a tree: it returns whenever two pages of
  the pool are left, with a slot that is not null; no entry of any page changes by it;
  and a store through the slot is an update of exactly that page in the map from virtual
  pages to entries.
\<close>

theorem walk_create_refines_map:
  assumes inv: "pt_inv s" and free: "unat (next_free_page s) + 2 \<le> unat (free_pages s)"
  shows "\<exists>p s'. walk_create va s = Some (p, s') \<and> p \<noteq> 0 \<and> walk s' va = p \<and> pt_inv s' \<and>
    pte_at s' = pte_at s \<and>
    (\<forall>x w. pte_at (set_pte p x s') w = (if vpn_of w = vpn_of va then x else pte_at s w))"
proof -
  obtain p s' where c: "walk_create va s = Some (p, s')"
    using walk_create_total [OF assms] by blast
  from walk_create_spec [OF c inv] have w: "pt_inv s'" "p \<noteq> 0" "walk s' va = p" "pte_at s' = pte_at s"
    by (auto simp: fun_eq_iff)
  moreover have "pte_at (set_pte p x s') w = (if vpn_of w = vpn_of va then x else pte_at s w)" for x w
    using set_pte_spec [OF w(1), of va x] w(2-4) by simp
  ultimately show ?thesis using c by blast
qed

text \<open>A pool of 128 pages whose second page is an empty root table.\<close>

definition sample_pt :: "unit pk" where
  "sample_pt = sample_pk\<lparr>next_free_page := 2\<rparr>"

lemma sample_pt_inv: "pt_inv sample_pt"
proof -
  have "pt_tree sample_pt [0x80165000 \<mapsto> (2, 0)]"
    unfolding pt_tree_def pool_ok_def pool_page_def
    by (auto simp: sample_pt_def sample_pk_def intro: exI [of _ "1 :: nat"])
  then show ?thesis by (auto simp: pt_inv_def)
qed

theorem walk_create_refines_map_witness:
  "\<exists>p s'. walk_create 0x10000 sample_pt = Some (p, s') \<and> p \<noteq> 0 \<and> pt_inv s' \<and>
     pte_at (set_pte p 9 s') 0x10008 = 9"
proof -
  have "unat (next_free_page sample_pt) + 2 \<le> unat (free_pages sample_pt)"
    by (simp add: sample_pt_def sample_pk_def)
  note r = walk_create_refines_map [OF sample_pt_inv this, where va = "0x10000"]
  then obtain p s' where "walk_create 0x10000 sample_pt = Some (p, s')" "p \<noteq> 0" "pt_inv s'"
    and u: "\<And>x w. pte_at (set_pte p x s') w = (if vpn_of w = vpn_of 0x10000 then x else pte_at sample_pt w)"
    by blast
  moreover have "vpn_of 0x10008 = vpn_of 0x10000" by (simp add: tkey_def)
  ultimately show ?thesis by auto
qed

text \<open>
  C19. The page pool and the mapping records: \<^verbatim>\<open>__page_alloc1\<close> puts the records at page
  \<open>100 k\<close> of the pool, where \<open>k\<close> pages are in use, but marks only the pages up to
  \<open>k + 100\<close> as used.  A later \<^verbatim>\<open>__page_alloc\<close> therefore hands out a page inside the
  records exactly when it is the page \<open>m\<close> with \<open>100 k \<le> m < 100 k + 100\<close>; before that
  page tables and records are disjoint.
\<close>

theorem vmr_table_overlap:
  assumes recs: "page_alloc1 s = Some (v, s1)" and page: "page_alloc s2 = Some (page, s3)"
    and pool: "first_free_page s2 = first_free_page s" "next_free_page s2 < free_pages s2"
    and fits: "unat (first_free_page s) + 4096 * unat (free_pages s2) \<le> 2 ^ 64"
      "unat (first_free_page s) + 4096 * (100 * unat (next_free_page s)) + 409600 \<le> 2 ^ 64"
  shows "(unat v \<le> unat page \<and> unat page < unat v + 409600) \<longleftrightarrow>
    (100 * unat (next_free_page s) \<le> unat (next_free_page s2) \<and>
     unat (next_free_page s2) < 100 * unat (next_free_page s) + 100)"
proof -
  have lin: "unat (a + b * w :: u64) = unat a + unat b * unat w" if "unat a + unat b * unat w < 2 ^ 64"
    for a b w :: u64
    using that by (simp add: unat_word_ariths)
  have "page = first_free_page s + RISCV_PGSIZE * next_free_page s2"
    using page pool by (auto simp: page_alloc_def Let_def)
  moreover have "unat (next_free_page s2) < unat (free_pages s2)"
    using pool(2) by (simp add: word_less_nat_alt)
  ultimately have p: "unat page = unat (first_free_page s) + 4096 * unat (next_free_page s2)"
    using fits(1) by (simp add: lin)
  have "v = first_free_page s + 409600 * next_free_page s"
    using recs by (auto simp: page_alloc1_def Let_def)
  then have v: "unat v = unat (first_free_page s) + 409600 * unat (next_free_page s)"
    using fits(2) by (simp add: lin)
  show ?thesis unfolding p v by linarith
qed

text \<open>Five pages in use when the records are placed, five hundred when the next table is.\<close>

theorem vmr_table_overlap_witness:
  "\<exists>v s1 page s3.
     page_alloc1 (sample_pk\<lparr>next_free_page := 5, free_pages := 1024\<rparr>) = Some (v, s1) \<and>
     page_alloc (sample_pk\<lparr>next_free_page := 500, free_pages := 1024\<rparr>) = Some (page, s3) \<and>
     unat v \<le> unat page \<and> unat page < unat v + 409600"
proof -
  let ?s = "sample_pk\<lparr>next_free_page := 5, free_pages := 1024\<rparr>"
  let ?t = "sample_pk\<lparr>next_free_page := 500, free_pages := 1024\<rparr>"
  obtain v s1 where v: "page_alloc1 ?s = Some (v, s1)"
    by (auto simp: page_alloc1_def Let_def)
  obtain page s3 where p: "page_alloc ?t = Some (page, s3)"
    by (auto simp: page_alloc_def Let_def)
  have "unat v \<le> unat page \<and> unat page < unat v + 409600"
    using vmr_table_overlap [OF v p] by (simp add: sample_pk_def)
  with v p show ?thesis by blast
qed

end
