(* ===== verification/Snprintf.thy ===== *)
theory Snprintf
  imports CString
begin

text \<open>
  The formatter of the proxy kernel, \<^verbatim>\<open>vsnprintf\<close> of \<^verbatim>\<open>riscv-pk/util/snprintf.c\<close>,
  which \<^verbatim>\<open>printk\<close>, \<^verbatim>\<open>printm\<close> and every panic message go through.

  The format and the \<^verbatim>\<open>%s\<close> arguments are given by the bytes before their NUL; the
  output buffer is memory at \<open>out\<close>, of which the code may write \<open>n\<close> bytes.
  \<^theory_text>\<open>text_of\<close> is the specification: the complete text, with no buffer in sight.
\<close>

subsection \<open>The model\<close>

text \<open>An argument with the type that the call site gave it.\<close>

datatype va = VLong u64 | VInt u32 | VStr "u8 list"

text \<open>The bytes of a string literal.\<close>

definition lit :: "string \<Rightarrow> u8 list" where
  "lit cs = map of_char cs"

text \<open>\<^verbatim>\<open>longarg ? va_arg(vl, long) : va_arg(vl, int)\<close>, as the value of a \<^verbatim>\<open>long\<close>;
  an argument of another type is undefined behaviour.\<close>

fun va_num :: "bool \<Rightarrow> va list \<Rightarrow> (int \<times> va list) option" where
  "va_num True (VLong w # vl) = Some (sint w, vl)"
| "va_num False (VInt w # vl) = Some (sint w, vl)"
| "va_num _ _ = None"

text \<open>C division and remainder on signed values truncate towards zero.\<close>

definition cdiv :: "int \<Rightarrow> int \<Rightarrow> int" where
  "cdiv a b = sgn a * sgn b * (\<bar>a\<bar> div \<bar>b\<bar>)"

definition crem :: "int \<Rightarrow> int \<Rightarrow> int" where
  "crem a b = a - cdiv a b * b"

text \<open>\<^verbatim>\<open>if (++pos < n) out[pos-1] = c;\<close>\<close>

definition emit :: "u64 \<Rightarrow> u64 \<Rightarrow> u8 \<Rightarrow> u64 \<times> mem \<Rightarrow> u64 \<times> mem" where
  "emit out n c = (\<lambda>(pos, m).
     (pos + 1, if pos + 1 < n then m(out + pos := c) else m))"

definition hex_char :: "int \<Rightarrow> nat \<Rightarrow> u8" where
  "hex_char num i =
     (let d = drop_bit (4 * i) num AND 0xF
      in if d < 10 then word_of_int (0x30 + d) else word_of_int (0x61 + d - 10))"

primrec emit_hex :: "u64 \<Rightarrow> u64 \<Rightarrow> int \<Rightarrow> nat \<Rightarrow> u64 \<times> mem \<Rightarrow> u64 \<times> mem" where
  "emit_hex out n num 0 st = st"
| "emit_hex out n num (Suc i) st = emit_hex out n num i (emit out n (hex_char num i) st)"

text \<open>\<^verbatim>\<open>for (long nn = num; nn /= 10; digits++) ;\<close>\<close>

function count_digits :: "int \<Rightarrow> nat \<Rightarrow> nat" where
  "count_digits nn digits =
     (if cdiv nn 10 \<noteq> 0 then count_digits (cdiv nn 10) (Suc digits) else digits)"
  by pat_completeness auto
termination
  by (relation "measure (\<lambda>(nn, digits). nat \<bar>nn\<bar>)") (auto simp: cdiv_def abs_mult sgn_if split: if_splits)

declare count_digits.simps [simp del]

text \<open>The digit loop runs from the last digit to the first.\<close>

primrec emit_dec :: "u64 \<Rightarrow> u64 \<Rightarrow> u64 \<Rightarrow> nat \<Rightarrow> int \<Rightarrow> mem \<Rightarrow> mem" where
  "emit_dec out n pos 0 num m = m"
| "emit_dec out n pos (Suc i) num m =
     emit_dec out n pos i (cdiv num 10)
       (if pos + of_nat i + 1 < n
        then m(out + (pos + of_nat i) := word_of_int (0x30 + crem num 10)) else m)"

fun emit_str :: "u64 \<Rightarrow> u64 \<Rightarrow> u8 list \<Rightarrow> u64 \<times> mem \<Rightarrow> u64 \<times> mem" where
  "emit_str out n [] st = st"
| "emit_str out n (c # cs) st = emit_str out n cs (emit out n c st)"

text \<open>One conversion \<^verbatim>\<open>%d\<close>; the negation wraps, as it does on RV64.\<close>

definition emit_num :: "u64 \<Rightarrow> u64 \<Rightarrow> int \<Rightarrow> u64 \<times> mem \<Rightarrow> u64 \<times> mem" where
  "emit_num out n num st =
     (let num' = (if num < 0 then sint (- (word_of_int num :: u64)) else num);
          (pos, m) = (if num < 0 then emit out n 0x2D st else st);
          digits = count_digits num' 1
      in (pos + of_nat digits, emit_dec out n pos digits num' m))"

text \<open>
  The main loop over the format: \<open>fm\<close> is \<^verbatim>\<open>format\<close>, \<open>lg\<close> is \<^verbatim>\<open>longarg\<close>.  An unknown
  conversion character is skipped and leaves \<^verbatim>\<open>format\<close> set.
\<close>

fun vsn_loop ::
  "u64 \<Rightarrow> u64 \<Rightarrow> bool \<Rightarrow> bool \<Rightarrow> u8 list \<Rightarrow> va list \<Rightarrow> u64 \<times> mem \<Rightarrow> (u64 \<times> mem) option" where
  "vsn_loop out n fm lg [] vl st = Some st"
| "vsn_loop out n fm lg (c # s) vl st =
     (if fm then
        if c = 0x6C then vsn_loop out n True True s vl st
        else if c = 0x70 then
          (case va_num True vl of
             None \<Rightarrow> None
           | Some (num, vl') \<Rightarrow>
               vsn_loop out n False False s vl'
                 (emit_hex out n num 16 (emit out n 0x78 (emit out n 0x30 st))))
        else if c = 0x78 then
          (case va_num lg vl of
             None \<Rightarrow> None
           | Some (num, vl') \<Rightarrow>
               vsn_loop out n False False s vl' (emit_hex out n num (if lg then 16 else 8) st))
        else if c = 0x64 then
          (case va_num lg vl of
             None \<Rightarrow> None
           | Some (num, vl') \<Rightarrow> vsn_loop out n False False s vl' (emit_num out n num st))
        else if c = 0x73 then
          (case vl of
             VStr cs # vl' \<Rightarrow> vsn_loop out n False False s vl' (emit_str out n cs st)
           | _ \<Rightarrow> None)
        else if c = 0x63 then
          (case vl of
             VInt w # vl' \<Rightarrow> vsn_loop out n False False s vl' (emit out n (ucast w) st)
           | _ \<Rightarrow> None)
        else vsn_loop out n True lg s vl st
      else if c = 0x25 then vsn_loop out n True lg s vl st
      else vsn_loop out n False lg s vl (emit out n c st))"

definition vsnprintf ::
  "u64 \<Rightarrow> u64 \<Rightarrow> u8 list \<Rightarrow> va list \<Rightarrow> mem \<Rightarrow> (u32 \<times> mem) option" where
  "vsnprintf out n s vl m =
     do {
       (pos, m1) \<leftarrow> vsn_loop out n False False s vl (0, m);
       Some (ucast pos,
             if pos < n then m1(out + pos := 0)
             else if n \<noteq> 0 then m1(out + n - 1 := 0)
             else m1)
     }"

subsection \<open>The specification: the text of a format\<close>

fun decimal :: "nat \<Rightarrow> u8 list" where
  "decimal k = (if k < 10 then [of_nat (48 + k)] else decimal (k div 10) @ [of_nat (48 + k mod 10)])"

declare decimal.simps [simp del]

definition decimal_int :: "int \<Rightarrow> u8 list" where
  "decimal_int z = (if z < 0 then 0x2D # decimal (nat (- z)) else decimal (nat z))"

definition hexadecimal :: "int \<Rightarrow> nat \<Rightarrow> u8 list" where
  "hexadecimal z k = map (hex_char z) (rev [0..<k])"

fun text_of :: "bool \<Rightarrow> bool \<Rightarrow> u8 list \<Rightarrow> va list \<Rightarrow> u8 list option" where
  "text_of fm lg [] vl = Some []"
| "text_of fm lg (c # s) vl =
     (if fm then
        if c = 0x6C then text_of True True s vl
        else if c = 0x70 then
          (case va_num True vl of
             None \<Rightarrow> None
           | Some (num, vl') \<Rightarrow> map_option ((@) (0x30 # 0x78 # hexadecimal num 16)) (text_of False False s vl'))
        else if c = 0x78 then
          (case va_num lg vl of
             None \<Rightarrow> None
           | Some (num, vl') \<Rightarrow>
               map_option ((@) (hexadecimal num (if lg then 16 else 8))) (text_of False False s vl'))
        else if c = 0x64 then
          (case va_num lg vl of
             None \<Rightarrow> None
           | Some (num, vl') \<Rightarrow> map_option ((@) (decimal_int num)) (text_of False False s vl'))
        else if c = 0x73 then
          (case vl of
             VStr cs # vl' \<Rightarrow> map_option ((@) cs) (text_of False False s vl')
           | _ \<Rightarrow> None)
        else if c = 0x63 then
          (case vl of
             VInt w # vl' \<Rightarrow> map_option ((#) (ucast w)) (text_of False False s vl')
           | _ \<Rightarrow> None)
        else text_of True lg s vl
      else if c = 0x25 then text_of True lg s vl
      else map_option ((#) c) (text_of False lg s vl))"

text \<open>A buffer of \<open>n\<close> bytes at \<open>out\<close> that has received the text \<open>t\<close>, cut to \<open>n - 1\<close> bytes.\<close>

definition rendered :: "mem \<Rightarrow> u64 \<Rightarrow> u64 \<Rightarrow> u8 list \<Rightarrow> mem" where
  "rendered m out n t =
     (\<lambda>x. let i = unat (x - out) in if i < length t \<and> i + 1 < unat n then t ! i else m x)"

subsection \<open>Each emitter appends to the rendered text\<close>

definition out_state :: "mem \<Rightarrow> u64 \<Rightarrow> u64 \<Rightarrow> u8 list \<Rightarrow> u64 \<times> mem" where
  "out_state m out n t = (of_nat (length t), rendered m out n t)"

lemma rendered_append:
  assumes "length t + 1 < 2 ^ 64"
  shows "rendered m out n (t @ [c]) =
    (if length t + 1 < unat n then (rendered m out n t)(out + of_nat (length t) := c)
     else rendered m out n t)"
proof (rule ext)
  fix x
  have "unat (x - out) = length t \<longleftrightarrow> x = out + of_nat (length t)"
    using assms by (intro offset_eq) simp
  then show "rendered m out n (t @ [c]) x =
    (if length t + 1 < unat n then (rendered m out n t)(out + of_nat (length t) := c)
     else rendered m out n t) x"
    by (auto simp: rendered_def Let_def nth_append less_Suc_eq)
qed

lemma pos_less: "k < 2 ^ 64 - 1 \<Longrightarrow> of_nat k + 1 < n \<longleftrightarrow> k + 1 < unat (n :: u64)"
  by (simp add: word_less_nat_alt unat_of_nat64 unat_word_ariths)

lemma emit_out_state:
  assumes "length t < 2 ^ 64 - 1"
  shows "emit out n c (out_state m out n t) = out_state m out n (t @ [c])"
  using assms pos_less [of "length t" n]
  by (simp add: emit_def out_state_def rendered_append add.commute)

lemma emit_str_out_state:
  "length t + length cs < 2 ^ 64 - 1 \<Longrightarrow>
   emit_str out n cs (out_state m out n t) = out_state m out n (t @ cs)"
  by (induction cs arbitrary: t) (simp_all add: emit_out_state)

lemma hexadecimal_Suc: "hexadecimal num (Suc k) = hex_char num k # hexadecimal num k"
  by (simp add: hexadecimal_def)

lemma length_hexadecimal [simp]: "length (hexadecimal num k) = k"
  by (simp add: hexadecimal_def)

lemma emit_hex_out_state:
  "length t + k < 2 ^ 64 - 1 \<Longrightarrow>
   emit_hex out n num k (out_state m out n t) = out_state m out n (t @ hexadecimal num k)"
proof (induction k arbitrary: t)
  case 0
  then show ?case by (simp add: hexadecimal_def)
next
  case (Suc k)
  then show ?case by (simp add: emit_out_state hexadecimal_Suc)
qed

subsection \<open>Decimal digits\<close>

lemma cdiv_nonneg: "0 \<le> a \<Longrightarrow> cdiv a 10 = a div 10"
  by (cases "a = 0") (simp_all add: cdiv_def)

lemma crem_nonneg: "0 \<le> a \<Longrightarrow> crem a 10 = a mod 10"
  by (simp add: crem_def cdiv_nonneg minus_div_mult_eq_mod)

lemma decimal_nonempty: "0 < length (decimal k)"
  by (subst decimal.simps) simp

lemma count_digits_decimal: "count_digits (int k) d + 1 = d + length (decimal k)"
proof (induction k arbitrary: d rule: less_induct)
  case (less k)
  have div: "cdiv (int k) 10 = int (k div 10)"
    by (simp add: cdiv_nonneg zdiv_int)
  show ?case
  proof (cases "k < 10")
    case True
    then show ?thesis by (simp add: count_digits.simps [of "int k"] decimal.simps [of k] div)
  next
    case False
    then have "count_digits (int (k div 10)) (Suc d) + 1 = Suc d + length (decimal (k div 10))"
      by (intro less.IH) auto
    moreover have "k div 10 \<noteq> 0" using False by auto
    ultimately show ?thesis using False
      by (simp add: count_digits.simps [of "int k"] decimal.simps [of k] div)
  qed
qed

primrec last_digits :: "nat \<Rightarrow> int \<Rightarrow> u8 list" where
  "last_digits 0 num = []"
| "last_digits (Suc i) num = last_digits i (cdiv num 10) @ [word_of_int (0x30 + crem num 10)]"

lemma length_last_digits [simp]: "length (last_digits k num) = k"
  by (induction k arbitrary: num) auto

lemma last_digits_decimal: "last_digits (length (decimal k)) (int k) = decimal k"
proof (induction k rule: less_induct)
  case (less k)
  have div: "cdiv (int k) 10 = int (k div 10)" and rem: "crem (int k) 10 = int (k mod 10)"
    by (simp_all add: cdiv_nonneg crem_nonneg zdiv_int zmod_int)
  show ?case
  proof (cases "k < 10")
    case True
    then show ?thesis by (simp add: decimal.simps [of k] rem)
  next
    case False
    then have "last_digits (length (decimal (k div 10))) (int (k div 10)) = decimal (k div 10)"
      by (intro less.IH) auto
    with False show ?thesis
      by (simp add: decimal.simps [of k] div rem)
  qed
qed

lemma emit_dec_spec:
  assumes "p + k < 2 ^ 64 - 1"
  shows "emit_dec out n (of_nat p) k num m =
    (\<lambda>x. let i = unat (x - out)
         in if p \<le> i \<and> i < p + k \<and> i + 1 < unat n then last_digits k num ! (i - p) else m x)"
  using assms
proof (induction k arbitrary: num m)
  case 0
  show ?case by (rule ext) (auto simp: Let_def)
next
  case (Suc k)
  let ?c = "word_of_int (0x30 + crem num 10) :: u8"
  let ?m = "if p + k + 1 < unat n then m(out + of_nat (p + k) := ?c) else m"
  have "emit_dec out n (of_nat p) (Suc k) num m = emit_dec out n (of_nat p) k (cdiv num 10) ?m"
    using Suc.prems pos_less [of "p + k" n] by (simp add: add.assoc)
  also have "\<dots> = (\<lambda>x. let i = unat (x - out)
       in if p \<le> i \<and> i < p + k \<and> i + 1 < unat n then last_digits k (cdiv num 10) ! (i - p) else ?m x)"
    using Suc.prems by (intro Suc.IH) simp
  also have "\<dots> = (\<lambda>x. let i = unat (x - out)
       in if p \<le> i \<and> i < p + Suc k \<and> i + 1 < unat n then last_digits (Suc k) num ! (i - p) else m x)"
  proof (rule ext)
    fix x
    have "unat (x - out) = p + k \<longleftrightarrow> x = out + of_nat (p + k)"
      using Suc.prems by (intro offset_eq) simp
    then show "(let i = unat (x - out)
       in if p \<le> i \<and> i < p + k \<and> i + 1 < unat n then last_digits k (cdiv num 10) ! (i - p) else ?m x)
      = (let i = unat (x - out)
       in if p \<le> i \<and> i < p + Suc k \<and> i + 1 < unat n then last_digits (Suc k) num ! (i - p) else m x)"
      by (auto simp: Let_def nth_append less_Suc_eq)
  qed
  finally show ?case .
qed

lemma emit_num_nonneg:
  assumes "length t + length (decimal k) < 2 ^ 64 - 1"
  shows "(let digits = count_digits (int k) 1
          in (of_nat (length t) + of_nat digits,
              emit_dec out n (of_nat (length t)) digits (int k) (rendered m out n t)))
         = out_state m out n (t @ decimal k)"
proof -
  have digits: "count_digits (int k) (Suc 0) = length (decimal k)"
    using count_digits_decimal [of k 1] by simp
  have "emit_dec out n (of_nat (length t)) (length (decimal k)) (int k) (rendered m out n t)
        = rendered m out n (t @ decimal k)"
    unfolding emit_dec_spec [OF assms] last_digits_decimal
    by (rule ext) (auto simp: rendered_def Let_def nth_append)
  then show ?thesis
    by (simp add: Let_def digits out_state_def)
qed

lemma emit_num_out_state:
  assumes "length t + length (decimal_int num) < 2 ^ 64 - 1"
    and "- (2 ^ 63) < num" and "num < 2 ^ 63"
  shows "emit_num out n num (out_state m out n t) = out_state m out n (t @ decimal_int num)"
proof (cases "num < 0")
  case True
  have "sint (- (word_of_int num :: u64)) = - num"
    using True assms
    by (simp add: signed_of_int signed_take_bit_int_eq_self flip: of_int_minus)
  with True emit_num_nonneg [of "t @ [0x2D]" "nat (- num)"] assms show ?thesis
    by (simp add: emit_num_def emit_out_state decimal_int_def Let_def out_state_def [of m out n "t @ [0x2D]"])
next
  case False
  with emit_num_nonneg [of t "nat num"] assms show ?thesis
    by (simp add: emit_num_def decimal_int_def Let_def out_state_def [of m out n t])
qed

subsection \<open>The formatter meets its specification\<close>

text \<open>The arguments whose decimal text the code gets right: every value but the least \<^verbatim>\<open>long\<close>.\<close>

definition negatable :: "va \<Rightarrow> bool" where
  "negatable a = (a \<noteq> VLong 0x8000000000000000)"

lemma va_num_SomeD:
  "va_num lg vl = Some (num, vl') \<Longrightarrow>
   (\<exists>w. vl = VLong w # vl' \<and> num = sint w) \<or> (\<exists>w. vl = VInt w # vl' \<and> num = sint w)"
  by (cases "(lg, vl)" rule: va_num.cases) auto

lemma sint64_negatable:
  assumes "negatable (VLong w)"
  shows "- (2 ^ 63) < sint w" and "sint w < 2 ^ 63"
proof -
  have "sint w \<noteq> sint (0x8000000000000000 :: u64)"
  proof
    assume "sint w = sint (0x8000000000000000 :: u64)"
    then have "w = 0x8000000000000000" by (rule signed_word_eqI)
    with assms show False by (simp add: negatable_def)
  qed
  then have "sint w \<noteq> - (2 ^ 63)" by simp
  moreover have "- (2 ^ 63) \<le> sint w" "sint w < 2 ^ 63"
    using sint_range_size [of w] by (simp_all add: word_size)
  ultimately show "- (2 ^ 63) < sint w" and "sint w < 2 ^ 63" by simp_all
qed

lemma va_num_range:
  assumes "va_num lg vl = Some (num, vl')" and "\<forall>a \<in> set vl. negatable a"
  shows "- (2 ^ 63) < num" and "num < 2 ^ 63" and "\<forall>a \<in> set vl'. negatable a"
proof -
  have int: "- (2 ^ 63) < sint w \<and> sint w < 2 ^ 63" for w :: u32
    using sint_range_size [of w] by (simp add: word_size)
  show "- (2 ^ 63) < num" "num < 2 ^ 63" "\<forall>a \<in> set vl'. negatable a"
    using va_num_SomeD [OF assms(1)] assms(2) sint64_negatable int by auto
qed

lemma vsn_loop_text:
  assumes "text_of fm lg s vl = Some u" and "length t + length u < 2 ^ 64 - 1"
    and "\<forall>a \<in> set vl. negatable a"
  shows "vsn_loop out n fm lg s vl (out_state m out n t) = Some (out_state m out n (t @ u))"
  using assms
proof (induction fm lg s vl arbitrary: t u rule: text_of.induct)
  case (1 fm lg vl)
  then show ?case by simp
next
  case (2 fm lg c s vl)
  note range = va_num_range [OF _ "2.prems"(3)]
  consider "fm" "c = 0x6C" | "fm" "c = 0x70" | "fm" "c = 0x78" | "fm" "c = 0x64"
    | "fm" "c = 0x73" | "fm" "c = 0x63" | "fm" "c \<notin> {0x6C, 0x70, 0x78, 0x64, 0x73, 0x63}"
    | "\<not> fm" by auto
  then show ?case
  proof cases
    case 1
    then show ?thesis using "2.IH"(1) "2.prems" by simp
  next
    case 2
    then obtain num vl' v where v: "va_num True vl = Some (num, vl')"
      "text_of False False s vl' = Some v" "u = 0x30 # 0x78 # hexadecimal num 16 @ v"
      using "2.prems"(1) by (auto split: option.splits)
    have "vsn_loop out n False False s vl' (out_state m out n (t @ 0x30 # 0x78 # hexadecimal num 16))
        = Some (out_state m out n ((t @ 0x30 # 0x78 # hexadecimal num 16) @ v))"
      using 2 v "2.prems" range [OF v(1)] by (intro "2.IH"(2) [of "(num, vl')" num vl']) auto
    then show ?thesis
      using 2 v "2.prems"(2) by (simp add: emit_out_state emit_hex_out_state)
  next
    case 3
    then obtain num vl' v where v: "va_num lg vl = Some (num, vl')"
      "text_of False False s vl' = Some v" "u = hexadecimal num (if lg then 16 else 8) @ v"
      using "2.prems"(1) by (auto split: option.splits)
    have "vsn_loop out n False False s vl' (out_state m out n (t @ hexadecimal num (if lg then 16 else 8)))
        = Some (out_state m out n ((t @ hexadecimal num (if lg then 16 else 8)) @ v))"
      using 3 v "2.prems" range [OF v(1)] by (intro "2.IH"(3) [of "(num, vl')" num vl']) auto
    then show ?thesis
      using 3 v "2.prems"(2) by (simp add: emit_hex_out_state)
  next
    case 4
    then obtain num vl' v where v: "va_num lg vl = Some (num, vl')"
      "text_of False False s vl' = Some v" "u = decimal_int num @ v"
      using "2.prems"(1) by (auto split: option.splits)
    have "vsn_loop out n False False s vl' (out_state m out n (t @ decimal_int num))
        = Some (out_state m out n ((t @ decimal_int num) @ v))"
      using 4 v "2.prems" range [OF v(1)] by (intro "2.IH"(4) [of "(num, vl')" num vl']) auto
    then show ?thesis
      using 4 v "2.prems"(2) range [OF v(1)] by (simp add: emit_num_out_state)
  next
    case 5
    then obtain cs vl' v where v: "vl = VStr cs # vl'" "text_of False False s vl' = Some v" "u = cs @ v"
      using "2.prems"(1) by (auto split: list.splits va.splits)
    then show ?thesis
      using 5 "2.prems" "2.IH"(5) [of "VStr cs" vl' cs v "t @ cs"] by (simp add: emit_str_out_state)
  next
    case 6
    then obtain w vl' v where v: "vl = VInt w # vl'" "text_of False False s vl' = Some v" "u = ucast w # v"
      using "2.prems"(1) by (auto split: list.splits va.splits)
    then show ?thesis
      using 6 "2.prems" "2.IH"(6) [of "VInt w" vl' w v "t @ [ucast w]"] by (simp add: emit_out_state)
  next
    case 7
    then show ?thesis using "2.IH"(7) "2.prems" by simp
  next
    case 8
    show ?thesis
    proof (cases "c = 0x25")
      case True
      then show ?thesis using 8 "2.IH"(8) "2.prems" by simp
    next
      case False
      with 8 obtain v where "text_of False lg s vl = Some v" "u = c # v"
        using "2.prems"(1) by auto
      then show ?thesis
        using 8 False "2.IH"(9) [of v "t @ [c]"] "2.prems" by (simp add: emit_out_state)
    qed
  qed
qed

lemma vsnprintf_render:
  assumes "text_of False False s vl = Some t" and "length t < 2 ^ 64 - 1"
    and "\<forall>a \<in> set vl. negatable a"
  shows "vsnprintf out n s vl m = Some (of_nat (length t),
    if length t < unat n then (rendered m out n t)(out + of_nat (length t) := 0)
    else if n \<noteq> 0 then (rendered m out n t)(out + n - 1 := 0)
    else rendered m out n t)"
proof -
  have "out_state m out n [] = (0, m)"
    by (simp add: out_state_def rendered_def Let_def)
  moreover have "vsn_loop out n False False s vl (out_state m out n []) = Some (out_state m out n ([] @ t))"
    using assms by (intro vsn_loop_text) auto
  moreover have "of_nat (length t) < n \<longleftrightarrow> length t < unat n"
    using assms(2) by (simp add: word_less_nat_alt unat_of_nat64)
  ultimately show ?thesis
    using assms(2) by (simp add: vsnprintf_def out_state_def unsigned_of_nat take_bit_nat_eq_self)
qed

subsection \<open>atol reads decimal text back\<close>

primrec decimal_value :: "u8 list \<Rightarrow> u64 \<Rightarrow> u64" where
  "decimal_value [] res = res"
| "decimal_value (c # cs) res = decimal_value cs (res * 10 + (ucast c - 0x30))"

lemma atol_digits_value: "cstring m s xs \<Longrightarrow> atol_digits m s res = Some (decimal_value xs res)"
  by (induction xs arbitrary: s res) (simp_all add: atol_digits.simps)

lemma decimal_value_append: "decimal_value (xs @ ys) res = decimal_value ys (decimal_value xs res)"
  by (induction xs arbitrary: res) simp_all

lemma digit_byte:
  assumes "d < 10"
  shows "ucast (of_nat (48 + d) :: u8) = (of_nat (48 + d) :: u64)"
  using assms by (simp add: unsigned_of_nat take_bit_nat_eq_self del: of_nat_add)

lemma decimal_value_decimal: "decimal_value (decimal k) 0 = of_nat k"
proof (induction k rule: less_induct)
  case (less k)
  have byte: "ucast (of_nat (48 + d) :: u8) - 0x30 = (of_nat d :: u64)" if "d < 10" for d
    using that by (simp add: digit_byte del: of_nat_add) simp
  show ?case
  proof (cases "k < 10")
    case True
    then show ?thesis by (simp only: decimal.simps [of k] decimal_value.simps byte if_True) simp
  next
    case False
    then have "decimal_value (decimal (k div 10)) 0 = of_nat (k div 10)"
      by (intro less.IH) auto
    moreover have "(of_nat (k div 10) * 10 + of_nat (k mod 10) :: u64) = of_nat k"
      by (metis (no_types) mult.commute mult_div_mod_eq of_nat_add of_nat_mult of_nat_numeral)
    ultimately show ?thesis
      using False
      by (simp only: decimal.simps [of k] decimal_value_append decimal_value.simps if_False
          byte [of "k mod 10"] mod_less_divisor zero_less_numeral)
  qed
qed

lemma hd_decimal_nat: "\<exists>d < 10. hd (decimal k) = (of_nat (48 + d) :: u8)"
proof (induction k rule: less_induct)
  case (less k)
  show ?case
  proof (cases "k < 10")
    case True
    then show ?thesis by (auto simp: decimal.simps [of k])
  next
    case False
    then have "\<exists>d < 10. hd (decimal (k div 10)) = (of_nat (48 + d) :: u8)"
      by (intro less.IH) auto
    with False show ?thesis
      using decimal_nonempty [of "k div 10"] by (auto simp: decimal.simps [of k])
  qed
qed

lemma hd_decimal: "hd (decimal k) \<notin> {0, 0x20, 0x2B, 0x2D}"
proof -
  obtain d where "d < 10" "hd (decimal k) = (of_nat (48 + d) :: u8)"
    using hd_decimal_nat by blast
  then have "unat (hd (decimal k)) = 48 + d"
    by (simp add: unsigned_of_nat take_bit_nat_eq_self del: of_nat_add)
  then show ?thesis by auto
qed

lemma cstring_hd: "cstring m s xs \<Longrightarrow> xs \<noteq> [] \<Longrightarrow> m s = hd xs"
  by (cases xs) auto

lemma atol_decimal:
  assumes "cstring m str (decimal_int z)"
  shows "atol m str = Some (word_of_int z)"
proof (cases "z < 0")
  case True
  with assms have "m str = 0x2D" and "cstring m (str + 1) (decimal (nat (- z)))"
    by (auto simp: decimal_int_def)
  moreover have "word_of_int z = - (of_nat (nat (- z)) :: u64)"
    using True by (simp flip: of_int_minus)
  ultimately show ?thesis
    by (simp add: atol_def atol_spaces.simps atol_digits_value decimal_value_decimal Let_def)
next
  case False
  then have str: "cstring m str (decimal (nat z))"
    using assms by (simp add: decimal_int_def)
  then have "m str \<notin> {0, 0x20, 0x2B, 0x2D}"
    using cstring_hd [OF str] hd_decimal [of "nat z"] decimal_nonempty [of "nat z"] by simp
  moreover have "word_of_int z = (of_nat (nat z) :: u64)"
    using False by simp
  ultimately show ?thesis
    using str by (simp add: atol_def atol_spaces.simps atol_digits_value decimal_value_decimal Let_def)
qed

subsection \<open>Properties\<close>

lemma rendered_nth:
  "i < length t \<Longrightarrow> i + 1 < unat n \<Longrightarrow> rendered m out n t (out + of_nat i) = t ! i"
  using unat_lt64 [of n] unat_of_nat64 [of i] by (simp add: rendered_def Let_def)

lemma rendered_outside: "\<not> x - out < n \<Longrightarrow> rendered m out n t x = m x"
  by (auto simp: rendered_def Let_def word_less_nat_alt)



text \<open>
  the exception to the property above is a defect: the negation of the least \<^verbatim>\<open>long\<close>
  wraps, its remainders are negative, and \<^verbatim>\<open>%ld\<close> prints bytes that are not digits
  (the byte after the minus sign is an apostrophe).
\<close>
lemma vsnprintf_least_long:
  "\<exists>m'. vsnprintf 0x100 64 [0x25, 0x6C, 0x64] [VLong 0x8000000000000000] (\<lambda>_. 0) = Some (20, m')
    \<and> m' 0x100 = 0x2D \<and> m' 0x101 = 0x27"
proof -
  have digits: "count_digits (- 9223372036854775808) (Suc 0) = 19"
    by (simp add: count_digits.simps cdiv_def)
  have first: "last_digits 19 (- 9223372036854775808) ! 0 = 0x27"
    by code_simp
  let ?m = "emit_dec 0x100 64 (of_nat 1) 19 (- 9223372036854775808) ((\<lambda>_. 0)(0x100 := 0x2D))"
  have "vsnprintf 0x100 64 [0x25, 0x6C, 0x64] [VLong 0x8000000000000000] (\<lambda>_. 0)
      = Some (20, ?m(0x100 + 20 := 0))"
    by (simp add: vsnprintf_def emit_num_def emit_def Let_def digits)
  moreover have "?m 0x100 = 0x2D" and "?m 0x101 = 0x27"
    using emit_dec_spec [of 1 19] first by (simp_all add: Let_def)
  ultimately show ?thesis by simp
qed

text \<open>
  C40. \<^verbatim>\<open>atol\<close> reads back what \<^verbatim>\<open>%ld\<close> prints: on the decimal text of an integer it
  returns that integer as a \<^verbatim>\<open>long\<close>.
\<close>
theorem atol_reads_decimal:
  assumes "cstring m str (decimal_int z)"
  shows "atol m str = Some (word_of_int z)"
  using assms by (rule atol_decimal)

theorem atol_reads_decimal_witness:
  "atol ((\<lambda>_. 0)(8 := 0x2D, 9 := 0x34, 10 := 0x32)) 8 = Some (word_of_int (- 42))"
  by (rule atol_reads_decimal) (simp add: decimal_int_def decimal.simps)

end
