(* ===== verification/FileIO.thy ===== *)
theory FileIO
  imports PageTable Snprintf
begin

text \<open>
  Transfers between files and memory: the second half of \<^verbatim>\<open>riscv-pk/pk/file.c\<close>,
  \<^verbatim>\<open>populate_mapping\<close> of \<^verbatim>\<open>pk/mmap.c\<close>, \<^verbatim>\<open>copy_stat\<close> of \<^verbatim>\<open>pk/frontend.c\<close> and
  \<^verbatim>\<open>printk\<close> of \<^verbatim>\<open>pk/console.c\<close>.

  A kernel access to a user page that its page-table entry does not allow traps, and the
  handler is \<^verbatim>\<open>handle_page_fault\<close>; it is an argument here (\<^theory_text>\<open>fault\<close>) because the handler
  itself reads from files.  Code that holds the lock of the mapping state gets the
  handler \<^theory_text>\<open>no_fault\<close> that never returns, since the handler would wait for that lock.
\<close>

abbreviation SYS_read :: u64 where "SYS_read \<equiv> 63"
abbreviation SYS_write :: u64 where "SYS_write \<equiv> 64"
abbreviation SYS_pread :: u64 where "SYS_pread \<equiv> 67"
abbreviation SYS_pwrite :: u64 where "SYS_pwrite \<equiv> 68"
abbreviation SYS_openat :: u64 where "SYS_openat \<equiv> 56"
abbreviation AT_FDCWD :: u32 where "AT_FDCWD \<equiv> - 100"
abbreviation SYS_fstat :: u64 where "SYS_fstat \<equiv> 80"

type_synonym 'h fault = "u64 \<Rightarrow> u32 \<Rightarrow> 'h pk \<Rightarrow> (u32 \<times> 'h pk) option"

abbreviation no_fault :: "'h fault" where "no_fault \<equiv> (\<lambda>_ _ _. None)"

subsection \<open>Touching pages\<close>

text \<open>
  What the hardware lets the kernel access: everything before translation is on, the
  kernel's own range, and pages whose entry has the permission bits, the accessed bit for
  a load and the dirty bit for a store among them.
\<close>

definition accessible :: "'h pk \<Rightarrow> u64 \<Rightarrow> u32 \<Rightarrow> bool" where
  "accessible s a prot \<longleftrightarrow>
     root_page_table s = 0 \<or> (DRAM_BASE \<le> a \<and> a < first_free_paddr s) \<or>
     (let perms = pte_create 0 (prot_to_type prot False) in pte_at s a AND perms = perms)"

definition touch :: "'h fault \<Rightarrow> u32 \<Rightarrow> u64 \<Rightarrow> 'h pk \<Rightarrow> 'h pk option" where
  "touch fault prot a s =
     (if accessible s a prot then Some s
      else do {
        (r, s1) \<leftarrow> fault a prot s;
        kassert (r = 0);
        Some s1
      })"

definition populate_mapping :: "'h fault \<Rightarrow> u64 \<Rightarrow> u64 \<Rightarrow> u32 \<Rightarrow> 'h pk \<Rightarrow> 'h pk option" where
  "populate_mapping fault start sz prot s =
     page_for (touch fault (if prot AND PROT_WRITE \<noteq> 0 then PROT_WRITE else PROT_READ))
       (ROUNDDOWN start RISCV_PGSIZE) (start + sz) s"

subsection \<open>Kernel loads and stores in user memory\<close>

text \<open>
  Each access touches its page first.  \<open>ustrlen\<close> and \<open>ustore_string\<close> are
  \<^verbatim>\<open>strlen\<close> and \<^verbatim>\<open>strcpy\<close> on addresses of the program; an eight-byte access may touch
  two pages.
\<close>

partial_function (option) ustrlen_loop :: "'h fault \<Rightarrow> u64 \<Rightarrow> 'h pk \<Rightarrow> (u64 \<times> 'h pk) option" where
  "ustrlen_loop fault p s =
     do {
       s1 \<leftarrow> touch fault PROT_READ p s;
       (if mem s1 (va2pa s1 p) \<noteq> 0 then ustrlen_loop fault (p + 1) s1 else Some (p, s1))
     }"

definition ustrlen :: "'h fault \<Rightarrow> u64 \<Rightarrow> 'h pk \<Rightarrow> (u64 \<times> 'h pk) option" where
  "ustrlen fault a s = do { (p, s1) \<leftarrow> ustrlen_loop fault a s; Some (p - a, s1) }"

definition ustore8 :: "'h fault \<Rightarrow> u64 \<Rightarrow> u8 \<Rightarrow> 'h pk \<Rightarrow> 'h pk option" where
  "ustore8 fault a b s =
     do { s1 \<leftarrow> touch fault PROT_WRITE a s; Some (s1\<lparr>mem := (mem s1)(va2pa s1 a := b)\<rparr>) }"

primrec ustore_bytes :: "'h fault \<Rightarrow> u64 \<Rightarrow> u8 list \<Rightarrow> 'h pk \<Rightarrow> 'h pk option" where
  "ustore_bytes fault a [] s = Some s"
| "ustore_bytes fault a (b # bs) s = ustore8 fault a b s \<bind> ustore_bytes fault (a + 1) bs"

definition ustore_string :: "'h fault \<Rightarrow> u64 \<Rightarrow> u8 list \<Rightarrow> 'h pk \<Rightarrow> 'h pk option" where
  "ustore_string fault a bs s = ustore_bytes fault a (bs @ [0]) s"

definition ustore64 :: "'h fault \<Rightarrow> u64 \<Rightarrow> u64 \<Rightarrow> 'h pk \<Rightarrow> 'h pk option" where
  "ustore64 fault a v s =
     do {
       s1 \<leftarrow> touch fault PROT_WRITE a s;
       s2 \<leftarrow> touch fault PROT_WRITE (a + 7) s1;
       Some (s2\<lparr>mem := store64 (mem s2) (va2pa s2 a) v\<rparr>)
     }"

definition uload64 :: "'h fault \<Rightarrow> u64 \<Rightarrow> 'h pk \<Rightarrow> (u64 \<times> 'h pk) option" where
  "uload64 fault a s =
     do {
       s1 \<leftarrow> touch fault PROT_READ a s;
       s2 \<leftarrow> touch fault PROT_READ (a + 7) s1;
       Some (load64 (mem s2) (va2pa s2 a), s2)
     }"

subsection \<open>Opening files\<close>

text \<open>\<^verbatim>\<open>ERR_PTR(e)\<close> is \<^theory_text>\<open>Inl e\<close>; \<open>fn\<close> is the address of the file name.\<close>

definition file_openat ::
  "'h fault \<Rightarrow> 'h host \<Rightarrow> u32 \<Rightarrow> u64 \<Rightarrow> u32 \<Rightarrow> u32 \<Rightarrow> 'h pk \<Rightarrow> ((u64 + nat) \<times> 'h pk) option" where
  "file_openat fault H dirfd fn flags mode s =
     (case file_get_free s of
        (None, s1) \<Rightarrow> Some (Inl (- ENOMEM), s1)
      | (Some f, s1) \<Rightarrow>
          do {
            (len, s2) \<leftarrow> ustrlen fault fn s1;
            let fn_size = len + 1;
            let (ret, s3) = frontend_syscall H SYS_openat
                  [scast dirfd, va2pa s2 fn, fn_size, scast flags, scast mode, 0, 0] s2;
            Some (if sint ret \<ge> 0
                  then (Inr f, s3\<lparr>f_kfd := (f_kfd s3)(f := ucast ret)\<rparr>)
                  else (Inl ret, file_decref H f s3))
          })"

definition file_open ::
  "'h fault \<Rightarrow> 'h host \<Rightarrow> u64 \<Rightarrow> u32 \<Rightarrow> u32 \<Rightarrow> 'h pk \<Rightarrow> ((u64 + nat) \<times> 'h pk) option" where
  "file_open fault H fn flags mode s = file_openat fault H AT_FDCWD fn flags mode s"

subsection \<open>Reading and writing\<close>

definition file_read ::
  "'h fault \<Rightarrow> 'h host \<Rightarrow> nat \<Rightarrow> u64 \<Rightarrow> u64 \<Rightarrow> 'h pk \<Rightarrow> (u64 \<times> 'h pk) option" where
  "file_read fault H f buf sz s =
     do {
       s1 \<leftarrow> populate_mapping fault buf sz PROT_WRITE s;
       Some (frontend_syscall H SYS_read [scast (f_kfd s1 f), va2pa s1 buf, sz, 0, 0, 0, 0] s1)
     }"

definition file_pread ::
  "'h fault \<Rightarrow> 'h host \<Rightarrow> nat \<Rightarrow> u64 \<Rightarrow> u64 \<Rightarrow> u64 \<Rightarrow> 'h pk \<Rightarrow> (u64 \<times> 'h pk) option" where
  "file_pread fault H f buf sz off s =
     do {
       s1 \<leftarrow> populate_mapping fault buf sz PROT_WRITE s;
       Some (frontend_syscall H SYS_pread [scast (f_kfd s1 f), va2pa s1 buf, sz, off, 0, 0, 0] s1)
     }"

definition file_write ::
  "'h fault \<Rightarrow> 'h host \<Rightarrow> nat \<Rightarrow> u64 \<Rightarrow> u64 \<Rightarrow> 'h pk \<Rightarrow> (u64 \<times> 'h pk) option" where
  "file_write fault H f buf sz s =
     do {
       s1 \<leftarrow> populate_mapping fault buf sz PROT_READ s;
       Some (frontend_syscall H SYS_write [scast (f_kfd s1 f), va2pa s1 buf, sz, 0, 0, 0, 0] s1)
     }"

definition file_pwrite ::
  "'h fault \<Rightarrow> 'h host \<Rightarrow> nat \<Rightarrow> u64 \<Rightarrow> u64 \<Rightarrow> u64 \<Rightarrow> 'h pk \<Rightarrow> (u64 \<times> 'h pk) option" where
  "file_pwrite fault H f buf sz off s =
     do {
       s1 \<leftarrow> populate_mapping fault buf sz PROT_READ s;
       Some (frontend_syscall H SYS_pwrite [scast (f_kfd s1 f), va2pa s1 buf, sz, off, 0, 0, 0] s1)
     }"

subsection \<open>File status\<close>

record stat =
  st_dev :: u64
  st_ino :: u64
  st_mode :: u32
  st_nlink :: u32
  st_uid :: u32
  st_gid :: u32
  st_rdev :: u64
  st_size :: u64
  st_blksize :: u32
  st_blocks :: u64
  st_atime :: u64
  st_mtime :: u64
  st_ctime :: u64

text \<open>
  \<^verbatim>\<open>copy_stat\<close> reads a \<^verbatim>\<open>struct frontend_stat\<close> from memory, at the offsets of
  \<^verbatim>\<open>pk/frontend.h\<close>.  How the program's C library lays out its \<^verbatim>\<open>struct stat\<close> is not part
  of the repository: storing it is the argument \<open>put_stat\<close> of what follows.
\<close>

definition copy_stat :: "mem \<Rightarrow> u64 \<Rightarrow> stat" where
  "copy_stat m src =
     \<lparr>st_dev = load_le 8 m src,
      st_ino = load_le 8 m (src + 8),
      st_mode = ucast (load_le 4 m (src + 16)),
      st_nlink = ucast (load_le 4 m (src + 20)),
      st_uid = ucast (load_le 4 m (src + 24)),
      st_gid = ucast (load_le 4 m (src + 28)),
      st_rdev = load_le 8 m (src + 32),
      st_size = load_le 8 m (src + 48),
      st_blksize = ucast (load_le 4 m (src + 56)),
      st_blocks = load_le 8 m (src + 64),
      st_atime = load_le 8 m (src + 72),
      st_mtime = load_le 8 m (src + 88),
      st_ctime = load_le 8 m (src + 104)\<rparr>"

type_synonym 'h put_stat = "u64 \<Rightarrow> stat \<Rightarrow> 'h pk \<Rightarrow> 'h pk option"

definition file_stat ::
  "'h put_stat \<Rightarrow> 'h host \<Rightarrow> nat \<Rightarrow> u64 \<Rightarrow> 'h pk \<Rightarrow> (u32 \<times> 'h pk) option" where
  "file_stat put H f st s =
     (let buf = kbuf s;
          (ret, s1) = frontend_syscall H SYS_fstat [scast (f_kfd s f), va2pa s buf, 0, 0, 0, 0, 0] s
      in do {
           s2 \<leftarrow> put st (copy_stat (mem s1) (va2pa s1 buf)) s1;
           Some (ucast ret, s2)
         })"

subsection \<open>The console\<close>

definition vprintk :: "'h fault \<Rightarrow> 'h host \<Rightarrow> u8 list \<Rightarrow> va list \<Rightarrow> 'h pk \<Rightarrow> 'h pk option" where
  "vprintk fault H fmt vl s =
     do {
       let out = kbuf s;
       (res, m) \<leftarrow> vsnprintf out 256 fmt vl (mem s);
       (r, s1) \<leftarrow> file_write fault H 2 out
          (if scast res < (256 :: u64) then scast res else 256) (s\<lparr>mem := m\<rparr>);
       Some s1
     }"

abbreviation printk :: "'h fault \<Rightarrow> 'h host \<Rightarrow> u8 list \<Rightarrow> va list \<Rightarrow> 'h pk \<Rightarrow> 'h pk option" where
  "printk \<equiv> vprintk"

subsection \<open>What these operations leave alone\<close>

definition files_frame :: "'h pk \<Rightarrow> 'h pk \<Rightarrow> bool" where
  "files_frame s s' \<longleftrightarrow>
     same_vm s s' \<and> fds s' = fds s \<and> f_refcnt s' = f_refcnt s \<and> f_kfd s' = f_kfd s"

lemma files_frame_refl [simp]: "files_frame s s"
  by (simp add: files_frame_def)

lemma files_frame_trans: "files_frame s t \<Longrightarrow> files_frame t u \<Longrightarrow> files_frame s u"
  unfolding files_frame_def by (metis same_vm_trans)

lemma files_frame_frontend:
  "frontend_syscall H n args s = (r, s') \<Longrightarrow> files_frame s s'"
  using frontend_frame [of H n args s r s'] by (simp add: files_frame_def)

lemma files_frame_mem [simp]: "files_frame s (t\<lparr>mem := m\<rparr>) = files_frame s t"
  by (simp add: files_frame_def)

lemma files_frame_inv: "files_frame s s' \<Longrightarrow> files_inv e s' = files_inv e s"
  by (rule files_inv_cong) (auto simp: files_frame_def same_vm_def)

lemma frontend_eq: "\<exists>h m r. frontend_syscall H n args s = (r, s\<lparr>hst := h, mem := m\<rparr>)"
  by (cases "H (hst s) (mem s) (n # args)") (auto simp: frontend_syscall_def)

text \<open>
  The interface through which kernel code reaches user memory: a fault handler whose
  successful answers stay within a relation \<open>R\<close> on states that is a preorder and allows
  what the host does.  Everything built from touches and requests then stays within it.
\<close>

locale user_access =
  fixes fault :: "'h fault" and R :: "'h pk \<Rightarrow> 'h pk \<Rightarrow> bool"
  assumes R_refl: "R s s"
    and R_trans: "R s t \<Longrightarrow> R t u \<Longrightarrow> R s u"
    and R_host: "R s (s\<lparr>hst := h, mem := m\<rparr>)"
    and R_fault: "fault a p s = Some (0, s') \<Longrightarrow> R s s'"
begin

lemma R_mem: "R s (s\<lparr>mem := m\<rparr>)"
  using R_host [where s = s and h = "hst s" and m = m] by simp

lemma R_frontend: "frontend_syscall H n args s = (r, s') \<Longrightarrow> R s s'"
  using frontend_eq [of H n args s] R_host by auto

lemma R_touch: "touch fault prot a s = Some s' \<Longrightarrow> R s s'"
  using R_refl R_fault by (auto simp: touch_def bind_Some_iff split: if_splits)

lemma R_touch_mem: "touch fault prot a s = Some t \<Longrightarrow> R s (t\<lparr>mem := m\<rparr>)"
  using R_touch R_mem R_trans by blast

lemma R_populate:
  assumes "populate_mapping fault start sz prot s = Some s'"
  shows "R s s'"
  using assms unfolding populate_mapping_def
  by (rule page_for_inv [where P = "R s"]) (use R_refl R_touch R_trans in blast)+

lemma R_ustrlen_loop: "ustrlen_loop fault a s = Some (p, s') \<Longrightarrow> R s s'"
proof -
  assume ret: "ustrlen_loop fault a s = Some (p, s')"
  have "f = fault \<longrightarrow> R s (snd (p, s'))"
    if "ustrlen_loop f a s = Some (p, s')" for f
  proof (rule ustrlen_loop.raw_induct [where P = "\<lambda>f a s r. f = fault \<longrightarrow> R s (snd r)", OF _ that])
    fix g f a s r
    assume IH: "\<And>f a s r. g f a s = Some r \<Longrightarrow> f = fault \<longrightarrow> R s (snd r)"
      and eq: "do {
          s1 \<leftarrow> touch f PROT_READ a s;
          if mem s1 (va2pa s1 a) \<noteq> 0 then g f (a + 1) s1 else Some (a, s1)
        } = Some r"
    show "f = fault \<longrightarrow> R s (snd r)"
    proof
      assume f: "f = fault"
      then obtain s1 where s1: "touch fault PROT_READ a s = Some s1"
        and k: "(if mem s1 (va2pa s1 a) \<noteq> 0 then g f (a + 1) s1 else Some (a, s1)) = Some r"
        using eq by (auto simp: bind_Some_iff)
      have "R s1 (snd r)" using k IH [of f "a + 1" s1 r] f R_refl by (auto split: if_splits)
      then show "R s (snd r)" using R_touch [OF s1] R_trans by blast
    qed
  qed
  with ret show ?thesis by simp
qed

lemma R_ustrlen: "ustrlen fault a s = Some (n, s') \<Longrightarrow> R s s'"
  using R_ustrlen_loop by (auto simp: ustrlen_def bind_Some_iff)

lemma R_ustore8: "ustore8 fault a b s = Some s' \<Longrightarrow> R s s'"
  using R_touch_mem by (auto simp: ustore8_def bind_Some_iff)

lemma R_ustore_bytes: "ustore_bytes fault a bs s = Some s' \<Longrightarrow> R s s'"
proof (induction bs arbitrary: a s)
  case Nil
  then show ?case using R_refl by simp
next
  case (Cons b bs)
  then show ?case using R_ustore8 R_trans by (fastforce simp: bind_Some_iff)
qed

lemma R_ustore_string: "ustore_string fault a bs s = Some s' \<Longrightarrow> R s s'"
  using R_ustore_bytes by (simp add: ustore_string_def)

lemma R_ustore64: "ustore64 fault a v s = Some s' \<Longrightarrow> R s s'"
  by (auto simp: ustore64_def bind_Some_iff intro: R_trans R_touch R_touch_mem)

lemma R_uload64: "uload64 fault a s = Some (v, s') \<Longrightarrow> R s s'"
  by (auto simp: uload64_def bind_Some_iff intro: R_trans R_touch)

lemma R_file_read: "file_read fault H f buf sz s = Some (r, s') \<Longrightarrow> R s s'"
  by (auto simp: file_read_def bind_Some_iff intro: R_trans R_populate R_frontend)

lemma R_file_pread: "file_pread fault H f buf sz off s = Some (r, s') \<Longrightarrow> R s s'"
  by (auto simp: file_pread_def bind_Some_iff intro: R_trans R_populate R_frontend)

lemma R_file_write: "file_write fault H f buf sz s = Some (r, s') \<Longrightarrow> R s s'"
  by (auto simp: file_write_def bind_Some_iff intro: R_trans R_populate R_frontend)

lemma R_vprintk: "vprintk fault H fmt vl s = Some s' \<Longrightarrow> R s s'"
proof -
  assume "vprintk fault H fmt vl s = Some s'"
  then obtain m r n where "file_write fault H 2 (kbuf s) n (s\<lparr>mem := m\<rparr>) = Some (r, s')"
    by (auto simp: vprintk_def Let_def bind_Some_iff split: prod.splits)
  then show ?thesis using R_file_write R_mem R_trans by blast
qed

end

text \<open>Code that holds the lock: the handler never answers, and only the host acts.\<close>

interpretation locked: user_access no_fault files_frame
  by unfold_locales (auto simp: files_frame_def intro: same_vm_trans)

lemmas file_pread_no_fault = locked.R_file_pread
lemmas file_write_no_fault = locked.R_file_write
lemmas vprintk_no_fault = locked.R_vprintk

lemma populate_no_fault:
  assumes "populate_mapping no_fault start sz prot s = Some s'"
  shows "s' = s"
  using assms unfolding populate_mapping_def
  by (rule page_for_inv [where P = "\<lambda>t. t = s"]) (auto simp: touch_def split: if_splits)

end
