(* ===== verification/Vm.thy ===== *)
theory Vm
  imports FileIO
begin

text \<open>
  The memory mappings of \<^verbatim>\<open>riscv-pk/pk/mmap.c\<close>.  A page is in one of three states: its
  entry is 0 (nothing mapped); it is an entry without the valid bit, the address of the
  \<^verbatim>\<open>vmr_t\<close> that describes the mapping, not yet touched; or it is valid.  The functions
  the code prefixes with two underscores carry the suffix \<open>_locked\<close>, except for those
  that have no counterpart without the prefix.  A lock that is already held makes a call
  wait forever.
\<close>

abbreviation MAP_PRIVATE :: u32 where "MAP_PRIVATE \<equiv> 0x2"
abbreviation MAP_FIXED :: u32 where "MAP_FIXED \<equiv> 0x10"
abbreviation MAP_ANONYMOUS :: u32 where "MAP_ANONYMOUS \<equiv> 0x20"
abbreviation MAP_POPULATE :: u32 where "MAP_POPULATE \<equiv> 0x8000"

subsection \<open>Mapping records\<close>

definition spinlock_lock :: "'h pk \<Rightarrow> 'h pk option" where
  "spinlock_lock s = do { kassert (\<not> vm_lock s); Some (s\<lparr>vm_lock := True\<rparr>) }"

definition spinlock_unlock :: "'h pk \<Rightarrow> 'h pk" where
  "spinlock_unlock s = s\<lparr>vm_lock := False\<rparr>"

definition vmr_ptr :: "'h pk \<Rightarrow> nat \<Rightarrow> u64" where
  "vmr_ptr s j = vmrs s + 40 * of_nat j"

definition vmr_idx :: "'h pk \<Rightarrow> u64 \<Rightarrow> nat" where
  "vmr_idx s v = unat ((v - vmrs s) div 40)"

definition vmr_table :: "'h pk \<Rightarrow> 'h pk option" where
  "vmr_table s =
     (if vmrs s = 0 then
        do {
          s1 \<leftarrow> spinlock_lock s;
          s2 \<leftarrow> (if vmrs s1 = 0 then
                  do { (page, s2) \<leftarrow> page_alloc1 s1; Some (s2\<lparr>vmrs := page\<rparr>) }
                else Some s1);
          Some (spinlock_unlock s2)
        }
      else Some s)"

definition vmr_alloc ::
  "u64 \<Rightarrow> u64 \<Rightarrow> nat option \<Rightarrow> u64 \<Rightarrow> u32 \<Rightarrow> u32 \<Rightarrow> 'h pk \<Rightarrow> (u64 \<times> 'h pk) option" where
  "vmr_alloc addr len file offset refcnt prot s =
     do {
       s1 \<leftarrow> vmr_table s;
       (case scan_from (\<lambda>j. v_refcnt (vmr_at s1 j) = 0) 0 MAX_VMR of
          None \<Rightarrow> Some (0, s1)
        | Some j \<Rightarrow>
            do {
              s2 \<leftarrow> (case file of None \<Rightarrow> Some s1 | Some f \<Rightarrow> file_incref f s1);
              Some (vmr_ptr s2 j,
                s2\<lparr>vmr_at := (vmr_at s2)(j := \<lparr>v_addr = addr, v_length = len, v_file = file,
                     v_offset = offset, v_refcnt = refcnt, v_prot = prot\<rparr>)\<rparr>)
            })
     }"

definition vmr_decref :: "'h host \<Rightarrow> u64 \<Rightarrow> u32 \<Rightarrow> 'h pk \<Rightarrow> 'h pk" where
  "vmr_decref H v dec s =
     (let j = vmr_idx s v;
          r = vmr_at s j;
          n = v_refcnt r - dec;
          s1 = s\<lparr>vmr_at := (vmr_at s)(j := r\<lparr>v_refcnt := n\<rparr>)\<rparr>
      in if n = 0
         then (case v_file r of None \<Rightarrow> s1 | Some f \<Rightarrow> file_decref H f s1)
         else s1)"

subsection \<open>Free address ranges\<close>

definition va_avail :: "'h pk \<Rightarrow> u64 \<Rightarrow> bool" where
  "va_avail s vaddr = (let pte = walk s vaddr in pte = 0 \<or> ptmem s pte = 0)"

text \<open>The inner loop of \<^verbatim>\<open>__vm_alloc\<close>, downwards from the last page of a candidate.\<close>

partial_function (option) vm_alloc_down :: "'h pk \<Rightarrow> u64 \<Rightarrow> u64 \<Rightarrow> u64 option" where
  "vm_alloc_down s first a =
     (if a > first \<and> va_avail s a then vm_alloc_down s first (a - RISCV_PGSIZE) else Some a)"

partial_function (option) vm_alloc_loop :: "'h pk \<Rightarrow> u64 \<Rightarrow> u64 \<Rightarrow> u64 \<Rightarrow> u64 option" where
  "vm_alloc_loop s npage a fin =
     (if a \<le> fin then
        (if \<not> va_avail s a then vm_alloc_loop s npage (a + RISCV_PGSIZE) fin
         else do {
           let first = a;
           let last = a + (npage - 1) * RISCV_PGSIZE;
           a1 \<leftarrow> vm_alloc_down s first last;
           (if a1 > first then vm_alloc_loop s npage (a1 + RISCV_PGSIZE) fin else Some a1)
         })
      else Some 0)"

definition vm_alloc :: "u64 \<Rightarrow> 'h pk \<Rightarrow> u64 option" where
  "vm_alloc npage s =
     vm_alloc_loop s npage (brk (current s)) (mmap_max (current s) - npage * RISCV_PGSIZE)"

definition valid_user_range :: "'h pk \<Rightarrow> u64 \<Rightarrow> u64 \<Rightarrow> bool" where
  "valid_user_range s vaddr len =
     (if vaddr + len < vaddr then False else vaddr + len \<le> mmap_max (current s))"

subsection \<open>Page faults\<close>

text \<open>The contents of a page: from the file, the rest of the page zero, or all zero.\<close>

definition fetch_page :: "'h host \<Rightarrow> vmr_t \<Rightarrow> u64 \<Rightarrow> 'h pk \<Rightarrow> 'h pk option" where
  "fetch_page H r vaddr s =
     (case v_file r of
        Some f \<Rightarrow>
          do {
            let flen = C_MIN RISCV_PGSIZE (v_length r - (vaddr - v_addr r));
            (ret, s1) \<leftarrow> file_pread no_fault H f vaddr flen (vaddr - v_addr r + v_offset r) s;
            kassert (sint ret > 0);
            (if sint ret < sint RISCV_PGSIZE
             then do {
               m \<leftarrow> memset (mem s1) (va2pa s1 (vaddr + ret)) 0 (RISCV_PGSIZE - ret);
               Some (s1\<lparr>mem := m\<rparr>)
             }
             else Some s1)
          }
      | None \<Rightarrow>
          do {
            m \<leftarrow> memset (mem s) (va2pa s vaddr) 0 RISCV_PGSIZE;
            Some (s\<lparr>mem := m\<rparr>)
          })"

definition page_in :: "'h host \<Rightarrow> u64 \<Rightarrow> u64 \<Rightarrow> 'h pk \<Rightarrow> 'h pk option" where
  "page_in H vaddr pte s =
     do {
       let ppn = drop_bit RISCV_PGSHIFT vaddr + first_free_paddr s div RISCV_PGSIZE;
       let v = ptmem s pte;
       let s1 = set_pte pte (pte_create ppn (prot_to_type (PROT_READ OR PROT_WRITE) False)) s;
       s2 \<leftarrow> fetch_page H (vmr_at s1 (vmr_idx s1 v)) vaddr s1;
       let s3 = vmr_decref H v 1 s2;
       Some (set_pte pte (pte_create ppn (prot_to_type (v_prot (vmr_at s3 (vmr_idx s3 v))) True)) s3)
     }"

definition handle_page_fault_locked ::
  "'h host \<Rightarrow> u64 \<Rightarrow> u32 \<Rightarrow> 'h pk \<Rightarrow> (u32 \<times> 'h pk) option" where
  "handle_page_fault_locked H vaddr0 prot s =
     do {
       let vaddr = push_bit RISCV_PGSHIFT (drop_bit RISCV_PGSHIFT vaddr0);
       let pte = walk s vaddr;
       (if pte = 0 \<or> ptmem s pte = 0 \<or> \<not> valid_user_range s vaddr 1 then Some (- 1, s)
        else do {
          s1 \<leftarrow> (if ptmem s pte AND PTE_V = 0 then page_in H vaddr pte s else Some s);
          let perms = pte_create 0 (prot_to_type prot True);
          Some (if ptmem s1 pte AND perms \<noteq> perms then - 1 else 0, s1)
        })
     }"

definition handle_page_fault :: "'h host \<Rightarrow> u64 \<Rightarrow> u32 \<Rightarrow> 'h pk \<Rightarrow> (u32 \<times> 'h pk) option" where
  "handle_page_fault H vaddr prot s =
     do {
       s1 \<leftarrow> spinlock_lock s;
       (ret, s2) \<leftarrow> handle_page_fault_locked H vaddr prot s1;
       Some (ret, spinlock_unlock s2)
     }"

subsection \<open>Unmapping and mapping\<close>

definition unmap_page :: "'h host \<Rightarrow> u64 \<Rightarrow> 'h pk \<Rightarrow> 'h pk option" where
  "unmap_page H a s =
     (let pte = walk s a
      in if pte = 0 \<or> ptmem s pte = 0 then Some s
         else Some (set_pte pte 0
                (if ptmem s pte AND PTE_V = 0 then vmr_decref H (ptmem s pte) 1 s else s)))"

definition do_munmap_locked :: "'h host \<Rightarrow> u64 \<Rightarrow> u64 \<Rightarrow> 'h pk \<Rightarrow> 'h pk option" where
  "do_munmap_locked H addr len s = page_for (unmap_page H) addr (addr + len) s"

text \<open>The bodies of the two loops of \<^verbatim>\<open>__do_mmap\<close>.\<close>

definition map_page :: "'h host \<Rightarrow> u64 \<Rightarrow> u64 \<Rightarrow> 'h pk \<Rightarrow> 'h pk option" where
  "map_page H v a s =
     do {
       (pte, s1) \<leftarrow> walk_create a s;
       kassert (pte \<noteq> 0);
       s2 \<leftarrow> (if ptmem s1 pte \<noteq> 0 then do_munmap_locked H a RISCV_PGSIZE s1 else Some s1);
       Some (set_pte pte v s2)
     }"

definition populate_page :: "'h host \<Rightarrow> u32 \<Rightarrow> u64 \<Rightarrow> 'h pk \<Rightarrow> 'h pk option" where
  "populate_page H prot a s =
     do {
       (r, s1) \<leftarrow> handle_page_fault_locked H a prot s;
       kassert (r = 0);
       Some s1
     }"

definition do_mmap_locked ::
  "'h host \<Rightarrow> u64 \<Rightarrow> u64 \<Rightarrow> u32 \<Rightarrow> u32 \<Rightarrow> nat option \<Rightarrow> u64 \<Rightarrow> 'h pk \<Rightarrow> (u64 \<times> 'h pk) option" where
  "do_mmap_locked H addr0 len prot flags f offset s =
     do {
       let npage = (len - 1) div RISCV_PGSIZE + 1;
       addr \<leftarrow> (if flags AND MAP_FIXED \<noteq> 0 then Some addr0 else vm_alloc npage s);
       (if flags AND MAP_FIXED \<noteq> 0 \<and>
           (addr AND (RISCV_PGSIZE - 1) \<noteq> 0 \<or> \<not> valid_user_range s addr len)
        then do {
          s1 \<leftarrow> printk no_fault H (lit ''domap: 0x%lx, %d, %d'' @ [10])
            [VLong addr, VInt (ucast (addr AND (RISCV_PGSIZE - 1))),
             VInt (if valid_user_range s addr len then 1 else 0)] s;
          Some (- 1, s1)
        }
        else if flags AND MAP_FIXED = 0 \<and> addr = 0
        then do {
          s1 \<leftarrow> printk no_fault H (lit ''domap failed 1'' @ [10]) [] s;
          Some (- 1, s1)
        }
        else do {
          (v, s1) \<leftarrow> vmr_alloc addr len f offset (ucast npage) prot s;
          (if v = 0
           then do {
             s2 \<leftarrow> printk no_fault H (lit ''__vmr_alloc failed '' @ [10]) [] s1;
             Some (- 1, s2)
           }
           else do {
             s2 \<leftarrow> page_for (map_page H v) addr (addr + len) s1;
             s3 \<leftarrow> (if \<not> demand_paging s2 \<or> flags AND MAP_POPULATE \<noteq> 0
                   then page_for (populate_page H prot) addr (addr + len) s2
                   else Some s2);
             Some (addr, s3)
           })
        })
     }"

definition do_munmap :: "'h host \<Rightarrow> u64 \<Rightarrow> u64 \<Rightarrow> 'h pk \<Rightarrow> (u32 \<times> 'h pk) option" where
  "do_munmap H addr len s =
     (if addr AND (RISCV_PGSIZE - 1) \<noteq> 0 \<or> \<not> valid_user_range s addr len
      then Some (- ucast EINVAL, s)
      else do {
        s1 \<leftarrow> spinlock_lock s;
        s2 \<leftarrow> do_munmap_locked H addr len s1;
        Some (0, spinlock_unlock s2)
      })"

definition do_mmap ::
  "'h host \<Rightarrow> u64 \<Rightarrow> u64 \<Rightarrow> u32 \<Rightarrow> u32 \<Rightarrow> u32 \<Rightarrow> u64 \<Rightarrow> 'h pk \<Rightarrow> (u64 \<times> 'h pk) option" where
  "do_mmap H addr len prot flags fd offset s =
     (if flags AND MAP_PRIVATE = 0 \<or> len = 0 \<or> offset AND (RISCV_PGSIZE - 1) \<noteq> 0
      then Some (- EINVAL, s)
      else
        (let (f, s1) = (if flags AND MAP_ANONYMOUS = 0 then file_get fd s else (None, s))
         in if flags AND MAP_ANONYMOUS = 0 \<and> f = None then Some (- EBADF, s1)
            else do {
              s2 \<leftarrow> spinlock_lock s1;
              (r, s3) \<leftarrow> do_mmap_locked H addr len prot flags f offset s2;
              let s4 = (if r < brk_max (current s3)
                        then s3\<lparr>current := (current s3)\<lparr>brk_max := r\<rparr>\<rparr> else s3);
              let s5 = spinlock_unlock s4;
              Some (r, case f of None \<Rightarrow> s5 | Some f \<Rightarrow> file_decref H f s5)
            }))"

subsection \<open>The break\<close>

definition move_brk :: "'h host \<Rightarrow> u64 \<Rightarrow> 'h pk \<Rightarrow> 'h pk option" where
  "move_brk H newbrk_page s =
     (if brk (current s) > newbrk_page
      then do_munmap_locked H newbrk_page (brk (current s) - newbrk_page) s
      else if brk (current s) < newbrk_page
      then do {
        (r, s1) \<leftarrow> do_mmap_locked H (brk (current s)) (newbrk_page - brk (current s)) (- 1)
           (MAP_FIXED OR MAP_PRIVATE OR MAP_ANONYMOUS) None 0 s;
        kassert (r = brk (current s1));
        Some s1
      }
      else Some s)"

definition do_brk_locked :: "'h host \<Rightarrow> u64 \<Rightarrow> 'h pk \<Rightarrow> (u64 \<times> 'h pk) option" where
  "do_brk_locked H addr s =
     do {
       let newbrk = (if addr < brk_min (current s) then brk_min (current s)
                     else if addr > brk_max (current s) then brk_max (current s) else addr);
       let s1 = (if brk (current s) = 0
                 then s\<lparr>current := (current s)\<lparr>brk := ROUNDUP (brk_min (current s)) RISCV_PGSIZE\<rparr>\<rparr>
                 else s);
       let newbrk_page = ROUNDUP newbrk RISCV_PGSIZE;
       s2 \<leftarrow> move_brk H newbrk_page s1;
       Some (newbrk, s2\<lparr>current := (current s2)\<lparr>brk := newbrk_page\<rparr>\<rparr>)
     }"

definition do_brk :: "'h host \<Rightarrow> u64 \<Rightarrow> 'h pk \<Rightarrow> (u64 \<times> 'h pk) option" where
  "do_brk H addr s =
     do {
       s1 \<leftarrow> spinlock_lock s;
       (r, s2) \<leftarrow> do_brk_locked H addr s1;
       Some (r, spinlock_unlock s2)
     }"

definition do_mremap :: "u64 \<Rightarrow> u64 \<Rightarrow> u64 \<Rightarrow> u32 \<Rightarrow> u64" where
  "do_mremap addr old_size new_size flags = - ENOSYS"

subsection \<open>Protection\<close>

text \<open>The body of \<^verbatim>\<open>do_mprotect\<close>'s loop; a result that is not 0 stands for its \<^verbatim>\<open>break\<close>.\<close>

definition mprotect_page :: "u32 \<Rightarrow> u64 \<Rightarrow> 'h pk \<Rightarrow> u64 \<times> 'h pk" where
  "mprotect_page prot a s =
     (let pte = walk s a
      in if pte = 0 \<or> ptmem s pte = 0 then (- ENOMEM, s)
         else if ptmem s pte AND PTE_V = 0 then
           (let j = vmr_idx s (ptmem s pte);
                r = vmr_at s j
            in if (v_prot r XOR prot) AND NOT (v_prot r) \<noteq> 0 then (- EACCES, s)
               else (0, s\<lparr>vmr_at := (vmr_at s)(j := r\<lparr>v_prot := prot\<rparr>)\<rparr>))
         else
           (let e = ptmem s pte
            in if e AND PTE_U = 0 \<or>
                  (prot AND PROT_READ \<noteq> 0 \<and> e AND PTE_R = 0) \<or>
                  (prot AND PROT_WRITE \<noteq> 0 \<and> e AND PTE_W = 0) \<or>
                  (prot AND PROT_EXEC \<noteq> 0 \<and> e AND PTE_X = 0)
               then (- EACCES, s)
               else (0, set_pte pte (pte_create (pte_ppn e) (prot_to_type prot True)) s)))"

partial_function (option) mprotect_loop :: "u32 \<Rightarrow> u64 \<Rightarrow> u64 \<Rightarrow> 'h pk \<Rightarrow> (u64 \<times> 'h pk) option" where
  "mprotect_loop prot a fin s =
     (if a < fin then
        (let (res, s1) = mprotect_page prot a s
         in if res \<noteq> 0 then Some (res, s1)
            else mprotect_loop prot (a + RISCV_PGSIZE) fin s1)
      else Some (0, s))"

definition do_mprotect :: "u64 \<Rightarrow> u64 \<Rightarrow> u32 \<Rightarrow> 'h pk \<Rightarrow> (u64 \<times> 'h pk) option" where
  "do_mprotect addr len prot s =
     (if addr AND (RISCV_PGSIZE - 1) \<noteq> 0 then Some (- EINVAL, s)
      else do {
        s1 \<leftarrow> spinlock_lock s;
        (res, s2) \<leftarrow> mprotect_loop prot addr (addr + len) s1;
        Some (res, spinlock_unlock s2)
      })"

subsection \<open>Kernel mappings\<close>

fun map_kernel_loop :: "nat \<Rightarrow> u64 \<Rightarrow> u64 \<Rightarrow> u32 \<Rightarrow> 'h pk \<Rightarrow> 'h pk option" where
  "map_kernel_loop 0 a offset prot s = Some s"
| "map_kernel_loop (Suc n) a offset prot s =
     do {
       (pte, s1) \<leftarrow> walk_create a s;
       kassert (pte \<noteq> 0);
       map_kernel_loop n (a + RISCV_PGSIZE) offset prot
         (set_pte pte (pte_create (drop_bit RISCV_PGSHIFT (a + offset)) (prot_to_type prot False)) s1)
     }"

definition map_kernel_range :: "u64 \<Rightarrow> u64 \<Rightarrow> u64 \<Rightarrow> u32 \<Rightarrow> 'h pk \<Rightarrow> 'h pk option" where
  "map_kernel_range vaddr paddr len prot s =
     map_kernel_loop (unat (ROUNDUP len RISCV_PGSIZE div RISCV_PGSIZE)) vaddr (paddr - vaddr) prot s"

text \<open>\<^verbatim>\<open>kend\<close> is the address of the linker's \<^verbatim>\<open>_end\<close>; the CSR write of the root is left out.\<close>

definition pk_vm_init :: "'h host \<Rightarrow> u64 \<Rightarrow> 'h pk \<Rightarrow> (u64 \<times> 'h pk) option" where
  "pk_vm_init H kend s =
     do {
       let ms = 0x40000000;
       let mem_pages = drop_bit RISCV_PGSHIFT ms;
       let s1 = s\<lparr>mem_size := ms, free_pages := C_MAX 8 (drop_bit 8 mem_pages)\<rparr>;
       s2 \<leftarrow> printk no_fault H (lit ''memsize: 0x%lx, free_pages: 0x%lx, RISCV_PGLEVEL_BITS: %d'' @ [10])
               [VLong ms, VLong (free_pages s1), VInt 9] s1;
       let ffp = ROUNDUP kend RISCV_PGSIZE;
       let s3 = s2\<lparr>first_free_page := ffp, first_free_paddr := ffp + free_pages s2 * RISCV_PGSIZE\<rparr>;
       (root, s4) \<leftarrow> page_alloc s3;
       let s5 = s4\<lparr>root_page_table := root\<rparr>;
       s6 \<leftarrow> map_kernel_range DRAM_BASE DRAM_BASE (first_free_paddr s5 - DRAM_BASE)
               (PROT_READ OR PROT_WRITE OR PROT_EXEC) s5;
       let lim = C_MIN DRAM_BASE (ms - (first_free_paddr s6 - DRAM_BASE));
       let s7 = s6\<lparr>current := (current s6)\<lparr>mmap_max := lim, brk_max := lim\<rparr>\<rparr>;
       let stack_size = C_MIN (drop_bit 5 mem_pages) 2048 * RISCV_PGSIZE;
       (stack_bottom, s8) \<leftarrow> do_mmap_locked H (mmap_max (current s7) - stack_size) stack_size
               (PROT_READ OR PROT_WRITE OR PROT_EXEC) (MAP_PRIVATE OR MAP_ANONYMOUS OR MAP_FIXED) None 0 s7;
       kassert (stack_bottom \<noteq> - 1);
       let s9 = s8\<lparr>current := (current s8)\<lparr>stack_top := stack_bottom + stack_size\<rparr>\<rparr>;
       s10 \<leftarrow> printk no_fault H
               (lit ''mmap_max: 0x%lx, brk_max: 0x%lx, stack_size: 0x%lx, stack_bottom: 0x%lx, stack_top: 0x%lx'' @ [10])
               [VLong (mmap_max (current s9)), VLong (brk_max (current s9)), VLong stack_size,
                VLong stack_bottom, VLong (stack_top (current s9))] s9;
       (top, s11) \<leftarrow> page_alloc s10;
       Some (top + RISCV_PGSIZE, s11)
     }"

end
