(* ===== verification/VmInv.thy ===== *)
theory VmInv
  imports Vm
begin

text \<open>
  The invariant of the mapping state and its preservation.  Pages are numbered by their
  virtual page number below \<^theory_text>\<open>NPAGES\<close>; \<^theory_text>\<open>pmap s k\<close> is the entry of page \<open>k\<close>.  The
  reference count of a mapping record is the number of pages that still point to it plus
  the number \<open>d j\<close> of pages that running code is about to enter or has just taken out.
\<close>

abbreviation NPAGES :: nat where "NPAGES \<equiv> 2 ^ 27"

definition page_va :: "nat \<Rightarrow> u64" where
  "page_va k = of_nat k * RISCV_PGSIZE"

definition vp :: "u64 \<Rightarrow> nat" where
  "vp va = unat (vpn_of va)"

definition pmap :: "'h pk \<Rightarrow> nat \<Rightarrow> u64" where
  "pmap s k = pte_at s (page_va k)"

definition recs_ok :: "'h pk \<Rightarrow> bool" where
  "recs_ok s \<longleftrightarrow> vmrs s \<noteq> 0 \<and> unat (vmrs s) mod 8 = 0 \<and> unat (vmrs s) + 40 * MAX_VMR \<le> 2 ^ 64"

definition lazy :: "u64 \<Rightarrow> bool" where
  "lazy x \<longleftrightarrow> x \<noteq> 0 \<and> x AND PTE_V = 0"

definition maps_inv :: "(nat \<Rightarrow> nat) \<Rightarrow> 'h pk \<Rightarrow> bool" where
  "maps_inv d s \<longleftrightarrow>
     pt_inv s \<and> recs_ok s \<and>
     (\<forall>j < MAX_VMR. unat (v_refcnt (vmr_at s j)) = tally NPAGES (\<lambda>k. pmap s k = vmr_ptr s j) + d j) \<and>
     (\<forall>k < NPAGES. lazy (pmap s k) \<longrightarrow> (\<exists>j < MAX_VMR. pmap s k = vmr_ptr s j))"

definition vm_inv :: "(nat \<Rightarrow> nat) \<Rightarrow> (nat \<Rightarrow> nat) \<Rightarrow> 'h pk \<Rightarrow> bool" where
  "vm_inv d e s \<longleftrightarrow> maps_inv d s \<and> files_inv e s"

subsection \<open>Page numbers\<close>

lemma vp_less: "vp va < NPAGES"
proof -
  have e: "vpn_of va = take_bit 27 (drop_bit 12 va)"
    by (rule bit_word_eqI) (auto simp: bit_tkey bit_take_bit_iff bit_drop_bit_eq)
  show ?thesis
    using take_bit_nat_less_exp [of 27 "unat (drop_bit 12 va)"]
    by (simp only: vp_def e unsigned_take_bit_eq)
qed

lemma vp_page_va: "k < NPAGES \<Longrightarrow> vp (page_va k) = k"
proof -
  assume k: "k < NPAGES"
  have u: "unat (page_va k) = 4096 * k"
    using k by (simp add: page_va_def unat_word_ariths unat_of_nat64)
  have "vpn_of (page_va k) = drop_bit 12 (page_va k)"
  proof (rule bit_word_eqI)
    fix n assume "n < LENGTH(64)"
    have "take_bit 39 (page_va k) = page_va k"
      using k by (simp add: word_unat_eq_iff unsigned_take_bit_eq u take_bit_nat_eq_self)
    then show "bit (vpn_of (page_va k)) n = bit (drop_bit 12 (page_va k)) n"
      by (simp add: tkey_def)
  qed
  then show ?thesis
    using u by (simp add: vp_def drop_bit_eq_div unat_div_distrib)
qed

lemma vp_eq_iff: "vp va = vp wa \<longleftrightarrow> vpn_of va = vpn_of wa"
  by (simp add: vp_def word_unat_eq_iff)

lemma pmap_vp: "pt_inv s \<Longrightarrow> pte_at s va = pmap s (vp va)"
  unfolding pmap_def by (rule pte_at_cong) (simp_all add: vp_page_va [OF vp_less] flip: vp_eq_iff)

lemma pmap_set:
  assumes "pt_inv s" and "walk s va \<noteq> 0" and "k < NPAGES"
  shows "pmap (set_pte (walk s va) x s) k = ((pmap s)(vp va := x)) k"
  using set_pte_spec [OF assms(1,2), of x] vp_page_va [OF assms(3)]
  by (auto simp: pmap_def simp flip: vp_eq_iff)

subsection \<open>Pointers to records\<close>

lemma vmr_ptr_unat:
  assumes "recs_ok s" and "j < MAX_VMR"
  shows "unat (vmr_ptr s j) = unat (vmrs s) + 40 * j"
proof -
  have j: "unat (of_nat j :: u64) = j"
    using assms(2) by (intro unat_of_nat64) simp
  have "unat (vmrs s) + 40 * j < 2 ^ 64"
    using assms by (simp add: recs_ok_def)
  moreover have "unat (40 * of_nat j :: u64) = 40 * j"
    using assms(2) by (simp add: unat_word_ariths j)
  ultimately show ?thesis
    unfolding vmr_ptr_def by (simp only: unat_word_ariths) simp
qed

lemma vmr_ptr_inj: "recs_ok s \<Longrightarrow> i < MAX_VMR \<Longrightarrow> j < MAX_VMR \<Longrightarrow> vmr_ptr s i = vmr_ptr s j \<longleftrightarrow> i = j"
proof
  assume "recs_ok s" "i < MAX_VMR" "j < MAX_VMR" "vmr_ptr s i = vmr_ptr s j"
  then have "unat (vmrs s) + 40 * i = unat (vmrs s) + 40 * j"
    using vmr_ptr_unat [of s i] vmr_ptr_unat [of s j] by metis
  then show "i = j" by linarith
qed simp

lemma vmr_ptr_lazy:
  assumes "recs_ok s" and "j < MAX_VMR"
  shows "lazy (vmr_ptr s j)"
proof -
  have u: "unat (vmr_ptr s j) = unat (vmrs s) + 40 * j"
    by (rule vmr_ptr_unat [OF assms])
  have "unat (vmr_ptr s j) mod 2 = 0"
  proof -
    have "unat (vmrs s) mod 8 = 0" using assms(1) by (simp add: recs_ok_def)
    then have "unat (vmrs s) mod 2 = 0" by presburger
    then show ?thesis unfolding u by presburger
  qed
  moreover have "unat (vmr_ptr s j AND 1) = unat (vmr_ptr s j) mod 2 ^ 1"
    using unat_and_mask [of "vmr_ptr s j" 1] by simp
  ultimately have "vmr_ptr s j AND 1 = 0" by (simp add: unat_eq_0)
  moreover have "vmr_ptr s j \<noteq> 0"
    using u assms(1) by (auto simp: recs_ok_def unat_eq_0)
  ultimately show ?thesis by (simp add: lazy_def)
qed

lemma vmr_idx_ptr:
  assumes "recs_ok s" and "j < MAX_VMR"
  shows "vmr_idx s (vmr_ptr s j) = j"
proof -
  have j: "unat (of_nat j :: u64) = j"
    using assms(2) by (intro unat_of_nat64) simp
  have "vmr_ptr s j - vmrs s = 40 * of_nat j" by (simp add: vmr_ptr_def)
  moreover have "unat (40 * of_nat j :: u64) = 40 * j"
    using assms(2) by (simp add: unat_word_ariths j)
  ultimately show ?thesis by (simp add: vmr_idx_def unat_div_distrib)
qed

lemma vmr_ptr_cong: "vmrs s' = vmrs s \<Longrightarrow> vmr_ptr s' = vmr_ptr s"
  by (simp add: vmr_ptr_def fun_eq_iff)

lemma recs_ok_cong: "vmrs s' = vmrs s \<Longrightarrow> recs_ok s' = recs_ok s"
  by (simp add: recs_ok_def)

lemma pte_create_valid: "pte_create p t AND PTE_V \<noteq> 0"
proof -
  have "bit (pte_create p t AND PTE_V) 0"
    by (simp add: pte_create_def bit_and_iff bit_or_iff bit_1_iff)
  then show ?thesis by auto
qed

lemma valid_not_lazy: "x AND PTE_V \<noteq> 0 \<Longrightarrow> \<not> lazy x"
  by (simp add: lazy_def)

subsection \<open>Storing an entry\<close>

lemma maps_invD:
  assumes "maps_inv d s"
  shows "pt_inv s" "recs_ok s"
    "j < MAX_VMR \<Longrightarrow>
       unat (v_refcnt (vmr_at s j)) = tally NPAGES (\<lambda>k. pmap s k = vmr_ptr s j) + d j"
    "k < NPAGES \<Longrightarrow> lazy (pmap s k) \<Longrightarrow> \<exists>j < MAX_VMR. pmap s k = vmr_ptr s j"
  using assms by (auto simp: maps_inv_def)

lemma set_pte_sel [simp]:
  "vmr_at (set_pte p x s) = vmr_at s" "vmrs (set_pte p x s) = vmrs s"
  "fds (set_pte p x s) = fds s" "f_refcnt (set_pte p x s) = f_refcnt s"
  "current (set_pte p x s) = current s" "vm_lock (set_pte p x s) = vm_lock s"
  "mem (set_pte p x s) = mem s" "first_free_paddr (set_pte p x s) = first_free_paddr s"
  "root_page_table (set_pte p x s) = root_page_table s" "hst (set_pte p x s) = hst s"
  "f_kfd (set_pte p x s) = f_kfd s" "kbuf (set_pte p x s) = kbuf s"
  "demand_paging (set_pte p x s) = demand_paging s"
  "free_pages (set_pte p x s) = free_pages s" "next_free_page (set_pte p x s) = next_free_page s"
  by (simp_all add: set_pte_def)

lemma pmap_tally:
  assumes "pt_inv s" and "walk s va \<noteq> 0"
  shows "tally NPAGES (\<lambda>k. pmap (set_pte (walk s va) x s) k = v) +
           (if pmap s (vp va) = v then 1 else 0) =
         tally NPAGES (\<lambda>k. pmap s k = v) + (if x = v then 1 else 0)"
proof -
  have "tally NPAGES (\<lambda>k. pmap (set_pte (walk s va) x s) k = v) =
    tally NPAGES (\<lambda>k. ((pmap s)(vp va := x)) k = v)"
    by (rule tally_cong) (simp only: pmap_set [OF assms])
  then show ?thesis
    using tally_fun_upd [OF vp_less, of "\<lambda>y. y = v" "pmap s" va x] by simp
qed

lemma maps_set:
  assumes inv: "maps_inv d s" and w: "walk s va \<noteq> 0"
    and x: "lazy x \<Longrightarrow> \<exists>j < MAX_VMR. x = vmr_ptr s j"
    and d': "\<And>j. j < MAX_VMR \<Longrightarrow> d' j + (if x = vmr_ptr s j then 1 else 0) =
               d j + (if pmap s (vp va) = vmr_ptr s j then 1 else 0)"
  shows "maps_inv d' (set_pte (walk s va) x s)"
proof -
  let ?s = "set_pte (walk s va) x s"
  note D = maps_invD [OF inv]
  have ptr: "vmr_ptr ?s = vmr_ptr s" by (rule vmr_ptr_cong) simp
  have "pt_inv ?s" using set_pte_spec [OF D(1) w] by blast
  moreover have "recs_ok ?s" using D(2) by (simp add: recs_ok_cong [of ?s s])
  moreover have "unat (v_refcnt (vmr_at ?s j)) = tally NPAGES (\<lambda>k. pmap ?s k = vmr_ptr ?s j) + d' j"
    if j: "j < MAX_VMR" for j
    using D(3) [OF j] pmap_tally [OF D(1) w, of x "vmr_ptr s j"] d' [OF j] unfolding ptr by simp
  moreover have "\<exists>j < MAX_VMR. pmap ?s k = vmr_ptr ?s j" if k: "k < NPAGES" "lazy (pmap ?s k)" for k
    using D(4) [OF k(1)] k x unfolding ptr pmap_set [OF D(1) w k(1)] by (cases "k = vp va") auto
  ultimately show ?thesis unfolding maps_inv_def by blast
qed

lemma maps_inv_cong:
  assumes "ptmem s' = ptmem s" "root_page_table s' = root_page_table s"
    "first_free_page s' = first_free_page s" "free_pages s' = free_pages s"
    "next_free_page s' = next_free_page s" "vmrs s' = vmrs s" "vmr_at s' = vmr_at s"
  shows "maps_inv d s' = maps_inv d s"
  using assms
  by (simp add: maps_inv_def pt_inv_def pt_tree_def pool_ok_def pool_page_def recs_ok_def
      pmap_def pte_at_def walk_def vmr_ptr_def)

lemma pmap_cong:
  "ptmem s' = ptmem s \<Longrightarrow> root_page_table s' = root_page_table s \<Longrightarrow> pmap s' = pmap s"
  by (rule ext) (simp add: pmap_def pte_at_def walk_def)

lemma walk_cong:
  "ptmem s' = ptmem s \<Longrightarrow> root_page_table s' = root_page_table s \<Longrightarrow> walk s' = walk s"
  by (rule ext) (simp add: walk_def)

lemma pt_inv_cong:
  assumes "ptmem s' = ptmem s" "root_page_table s' = root_page_table s"
    "first_free_page s' = first_free_page s" "free_pages s' = free_pages s"
    "next_free_page s' = next_free_page s"
  shows "pt_inv s' = pt_inv s"
  using assms by (simp add: pt_inv_def pt_tree_def pool_ok_def pool_page_def)

lemma same_vm_maps: "same_vm s s' \<Longrightarrow> maps_inv d s' = maps_inv d s"
  by (rule maps_inv_cong) (simp_all add: same_vmD)

lemma vm_inv_frame: "files_frame s s' \<Longrightarrow> vm_inv d e s' = vm_inv d e s"
  by (simp add: vm_inv_def files_frame_inv) (auto simp: files_frame_def same_vm_maps)

lemma vm_inv_updates [simp]:
  "vm_inv d e (s\<lparr>vm_lock := b\<rparr>) = vm_inv d e s"
  "vm_inv d e (s\<lparr>current := c\<rparr>) = vm_inv d e s"
  "vm_inv d e (s\<lparr>mem := m\<rparr>) = vm_inv d e s"
  by (auto simp: vm_inv_def files_inv_cong [of "s\<lparr>vm_lock := b\<rparr>" s]
      files_inv_cong [of "s\<lparr>current := c\<rparr>" s]
      maps_inv_cong [of "s\<lparr>vm_lock := b\<rparr>" s] maps_inv_cong [of "s\<lparr>current := c\<rparr>" s]
      maps_inv_cong [of "s\<lparr>mem := m\<rparr>" s])

lemma set_pte_files_inv [simp]: "files_inv e (set_pte p x s) = files_inv e s"
  by (rule files_inv_cong) simp_all

subsection \<open>Dropping a reference to a record\<close>

lemma file_decref_sel [simp]:
  "ptmem (file_decref H f s) = ptmem s" "root_page_table (file_decref H f s) = root_page_table s"
  "vmrs (file_decref H f s) = vmrs s" "current (file_decref H f s) = current s"
  "vm_lock (file_decref H f s) = vm_lock s" "next_free_page (file_decref H f s) = next_free_page s"
  "free_pages (file_decref H f s) = free_pages s" "demand_paging (file_decref H f s) = demand_paging s"
  "first_free_page (file_decref H f s) = first_free_page s"
  "first_free_paddr (file_decref H f s) = first_free_paddr s" "kbuf (file_decref H f s) = kbuf s"
  using same_vmD [OF file_decref_frame(4) [of s H f]] by auto

lemma vmr_decref_sel [simp]:
  "ptmem (vmr_decref H v n s) = ptmem s" "root_page_table (vmr_decref H v n s) = root_page_table s"
  "vmrs (vmr_decref H v n s) = vmrs s" "current (vmr_decref H v n s) = current s"
  "vm_lock (vmr_decref H v n s) = vm_lock s" "next_free_page (vmr_decref H v n s) = next_free_page s"
  "free_pages (vmr_decref H v n s) = free_pages s" "kbuf (vmr_decref H v n s) = kbuf s"
  "demand_paging (vmr_decref H v n s) = demand_paging s"
  "first_free_page (vmr_decref H v n s) = first_free_page s"
  "first_free_paddr (vmr_decref H v n s) = first_free_paddr s" "fds (vmr_decref H v n s) = fds s"
  "vmr_at (vmr_decref H v n s) = (vmr_at s)(vmr_idx s v :=
     (vmr_at s (vmr_idx s v))\<lparr>v_refcnt := v_refcnt (vmr_at s (vmr_idx s v)) - n\<rparr>)"
  by (simp_all add: vmr_decref_def Let_def split: option.split)

lemma vmr_refs_upd:
  assumes "j < MAX_VMR"
  shows "vmr_refs (s\<lparr>vmr_at := (vmr_at s)(j := r)\<rparr>) g +
      (if v_refcnt (vmr_at s j) \<noteq> 0 \<and> v_file (vmr_at s j) = Some g then 1 else 0) =
    vmr_refs s g + (if v_refcnt r \<noteq> 0 \<and> v_file r = Some g then 1 else 0)"
  using tally_fun_upd [OF assms, of "\<lambda>r. v_refcnt r \<noteq> 0 \<and> v_file r = Some g" "vmr_at s" r]
  by (simp add: vmr_refs_def vmr_live_def)

text \<open>Replacing a record moves its reference between the record and the code.\<close>

lemma vmr_upd_files_inv:
  assumes inv: "files_inv e s" and j: "j < MAX_VMR"
    and f: "\<And>g. v_refcnt r \<noteq> 0 \<Longrightarrow> v_file r = Some g \<Longrightarrow> g < MAX_FILES"
    and e': "\<And>g. g < MAX_FILES \<Longrightarrow>
      e' g + (if v_refcnt r \<noteq> 0 \<and> v_file r = Some g then 1 else 0) =
      e g + (if v_refcnt (vmr_at s j) \<noteq> 0 \<and> v_file (vmr_at s j) = Some g then 1 else 0)"
  shows "files_inv e' (s\<lparr>vmr_at := (vmr_at s)(j := r)\<rparr>)"
proof -
  let ?s = "s\<lparr>vmr_at := (vmr_at s)(j := r)\<rparr>"
  have "file_ok (f_refcnt s g) (fd_refs s g + vmr_refs ?s g + e' g)" if "g < MAX_FILES" for g
  proof -
    have "fd_refs s g + vmr_refs ?s g + e' g = fd_refs s g + vmr_refs s g + e g"
      using vmr_refs_upd [OF j, of s r g] e' [OF that] by linarith
    then show ?thesis using files_invD [OF inv that] by (simp only:)
  qed
  moreover have "\<forall>i < MAX_VMR. \<forall>g. vmr_live ?s i \<longrightarrow> v_file (vmr_at ?s i) = Some g \<longrightarrow> g < MAX_FILES"
    using inv f by (auto simp: files_inv_def vmr_live_def)
  moreover have "fd_refs ?s = fd_refs s" by (rule fd_refs_cong) simp
  ultimately show ?thesis using inv unfolding files_inv_def by simp
qed

lemma vmr_decref_maps:
  assumes inv: "maps_inv d s" and j: "j < MAX_VMR" and d: "0 < d j"
  shows "maps_inv (d(j := d j - 1)) (vmr_decref H (vmr_ptr s j) 1 s)"
proof -
  let ?s = "vmr_decref H (vmr_ptr s j) 1 s"
  note D = maps_invD [OF inv]
  have idx: "vmr_idx s (vmr_ptr s j) = j" by (rule vmr_idx_ptr [OF D(2) j])
  have ptr: "vmr_ptr ?s = vmr_ptr s" by (rule vmr_ptr_cong) simp
  have pm: "pmap ?s = pmap s" by (rule pmap_cong) simp_all
  have "v_refcnt (vmr_at s j) \<noteq> 0"
    using D(3) [OF j] d by auto
  then have n: "unat (v_refcnt (vmr_at s j) - 1) = unat (v_refcnt (vmr_at s j)) - 1"
    by (rule unat_minus_one)
  have "pt_inv ?s" using D(1) by (subst pt_inv_cong) simp_all
  moreover have "recs_ok ?s" using D(2) by (simp add: recs_ok_cong [of ?s s])
  ultimately show ?thesis
    unfolding maps_inv_def ptr pm using D(3,4) d n by (auto simp: idx)
qed

lemma vmr_decref_files:
  assumes inv: "files_inv e s" and j: "j < MAX_VMR" and idx: "vmr_idx s v = j"
    and live: "v_refcnt (vmr_at s j) \<noteq> 0"
  shows "files_inv e (vmr_decref H v 1 s)"
proof -
  let ?r = "vmr_at s j"
  let ?n = "v_refcnt ?r - 1"
  let ?s = "s\<lparr>vmr_at := (vmr_at s)(j := ?r\<lparr>v_refcnt := ?n\<rparr>)\<rparr>"
  have g: "f < MAX_FILES" if "v_file ?r = Some f" for f
    using inv j live that by (auto simp: files_inv_def vmr_live_def)
  show ?thesis
  proof (cases "?n = 0 \<and> (\<exists>f. v_file ?r = Some f)")
    case True
    then obtain f where f: "v_file ?r = Some f" by blast
    have "files_inv (e(f := Suc (e f))) ?s"
      using True live f by (intro vmr_upd_files_inv [OF inv j]) auto
    from file_decref_inv [OF this g [OF f], of H] show ?thesis
      using True f idx by (simp add: vmr_decref_def Let_def)
  next
    case False
    then have "files_inv e ?s"
      using live g by (intro vmr_upd_files_inv [OF inv j]) auto
    then show ?thesis
      using False idx by (auto simp: vmr_decref_def Let_def split: option.split)
  qed
qed

text \<open>File counts that do not grow.\<close>

definition counts_le :: "'h pk \<Rightarrow> 'h pk \<Rightarrow> bool" where
  "counts_le s s' \<longleftrightarrow> (\<forall>f < MAX_FILES. unat (f_refcnt s' f) \<le> unat (f_refcnt s f))"

lemma counts_le_refl [simp]: "counts_le s s"
  by (simp add: counts_le_def)

lemma counts_le_trans: "counts_le s t \<Longrightarrow> counts_le t u \<Longrightarrow> counts_le s u"
  unfolding counts_le_def by (meson order_trans)

lemma counts_le_same: "f_refcnt s' = f_refcnt s \<Longrightarrow> counts_le s s'"
  by (simp add: counts_le_def)

lemma file_decref_counts:
  assumes "f_refcnt s f \<noteq> 0"
  shows "counts_le s (file_decref H f s)"
  using assms unat_minus_one [of "f_refcnt s f"] by (auto simp: counts_le_def)

lemma vmr_decref_counts:
  assumes inv: "vm_inv d e s" and j: "j < MAX_VMR" and d: "0 < d j"
  shows "counts_le s (vmr_decref H (vmr_ptr s j) 1 s)"
proof -
  have m: "maps_inv d s" and f: "files_inv e s" using inv by (auto simp: vm_inv_def)
  have live: "v_refcnt (vmr_at s j) \<noteq> 0"
    using maps_invD(3) [OF m j] d by auto
  have idx: "vmr_idx s (vmr_ptr s j) = j" by (rule vmr_idx_ptr [OF maps_invD(2) [OF m] j])
  let ?s = "s\<lparr>vmr_at := (vmr_at s)(j := (vmr_at s j)\<lparr>v_refcnt := v_refcnt (vmr_at s j) - 1\<rparr>)\<rparr>"
  show ?thesis
  proof (cases "v_refcnt (vmr_at s j) - 1 = 0 \<and> (\<exists>f. v_file (vmr_at s j) = Some f)")
    case True
    then obtain g where g: "v_file (vmr_at s j) = Some g" by blast
    have "0 < vmr_refs s g"
      unfolding vmr_refs_def using j live g by (intro tally_pos [of j]) (auto simp: vmr_live_def)
    moreover have gm: "g < MAX_FILES" using f j live g by (auto simp: files_inv_def vmr_live_def)
    ultimately have "f_refcnt ?s g \<noteq> 0" using files_invD [OF f gm] by (auto simp: file_ok_def)
    from file_decref_counts [OF this, of H] show ?thesis
      using True g idx by (simp add: vmr_decref_def Let_def counts_le_def)
  next
    case False
    then show ?thesis
      using idx by (auto simp: vmr_decref_def Let_def counts_le_def split: option.split)
  qed
qed

lemma vmr_decref_inv:
  assumes inv: "vm_inv d e s" and j: "j < MAX_VMR" and d: "0 < d j"
  shows "vm_inv (d(j := d j - 1)) e (vmr_decref H (vmr_ptr s j) 1 s)"
proof -
  have m: "maps_inv d s" and f: "files_inv e s" using inv by (auto simp: vm_inv_def)
  have "v_refcnt (vmr_at s j) \<noteq> 0"
    using maps_invD(3) [OF m j] d by auto
  then show ?thesis
    using vmr_decref_maps [OF m j d] vmr_decref_files [OF f j vmr_idx_ptr [OF maps_invD(2) [OF m] j]]
    by (simp add: vm_inv_def)
qed

subsection \<open>Unmapping\<close>

lemma set_pte_vmr_decref: "set_pte p x (vmr_decref H v n s) = vmr_decref H v n (set_pte p x s)"
proof -
  have fd: "set_pte p x (file_decref H f t) = file_decref H f (set_pte p x t)" for f t
    by (simp add: set_pte_def file_decref_def frontend_syscall_def Let_def split: prod.split)
  have u: "set_pte p x (s\<lparr>vmr_at := a\<rparr>) = (set_pte p x s)\<lparr>vmr_at := a\<rparr>" for a
    by (simp add: set_pte_def)
  have i: "vmr_idx (set_pte p x s) v = vmr_idx s v" by (simp add: vmr_idx_def)
  show ?thesis
    by (simp add: vmr_decref_def Let_def fd u i split: option.split)
qed

lemma not_lazy_ptr: "recs_ok s \<Longrightarrow> j < MAX_VMR \<Longrightarrow> \<not> lazy x \<Longrightarrow> x \<noteq> vmr_ptr s j"
  using vmr_ptr_lazy by blast

lemma lazy_0 [simp]: "\<not> lazy 0"
  by (simp add: lazy_def)

lemma maps_files_set:
  assumes "vm_inv d e s" and "maps_inv d' (set_pte p x s)"
  shows "vm_inv d' e (set_pte p x s)"
  using assms by (simp add: vm_inv_def)

text \<open>Taking a valid page out, or putting a valid entry over another.\<close>

lemma set_valid_inv:
  assumes inv: "vm_inv d e s" and w: "walk s va \<noteq> 0" and old: "\<not> lazy (pmap s (vp va))"
    and x: "\<not> lazy x"
  shows "vm_inv d e (set_pte (walk s va) x s)"
proof -
  have m: "maps_inv d s" using inv by (simp add: vm_inv_def)
  note D = maps_invD [OF m]
  have "maps_inv d (set_pte (walk s va) x s)"
    using not_lazy_ptr [OF D(2) _ old] not_lazy_ptr [OF D(2) _ x] x
    by (intro maps_set [OF m w]) auto
  then show ?thesis by (rule maps_files_set [OF inv])
qed

text \<open>Replacing the pointer to record \<open>j\<close> leaves the reference with the code.\<close>

lemma set_lazy_inv:
  assumes inv: "vm_inv d e s" and w: "walk s va \<noteq> 0" and j: "j < MAX_VMR"
    and old: "pmap s (vp va) = vmr_ptr s j" and x: "\<not> lazy x"
  shows "vm_inv (d(j := Suc (d j))) e (set_pte (walk s va) x s)"
proof -
  have m: "maps_inv d s" using inv by (simp add: vm_inv_def)
  note D = maps_invD [OF m]
  have "maps_inv (d(j := Suc (d j))) (set_pte (walk s va) x s)"
    using not_lazy_ptr [OF D(2) _ x] vmr_ptr_inj [OF D(2) j] x
    by (intro maps_set [OF m w]) (auto simp: old)
  then show ?thesis by (rule maps_files_set [OF inv])
qed

text \<open>Entering record \<open>j\<close> for a page without one takes the reference from the code.\<close>

lemma set_ptr_inv:
  assumes inv: "vm_inv d e s" and w: "walk s va \<noteq> 0" and j: "j < MAX_VMR"
    and old: "\<not> lazy (pmap s (vp va))" and d: "0 < d j"
  shows "vm_inv (d(j := d j - 1)) e (set_pte (walk s va) (vmr_ptr s j) s)"
proof -
  have m: "maps_inv d s" using inv by (simp add: vm_inv_def)
  note D = maps_invD [OF m]
  have "maps_inv (d(j := d j - 1)) (set_pte (walk s va) (vmr_ptr s j) s)"
    using not_lazy_ptr [OF D(2) _ old] vmr_ptr_inj [OF D(2) j] j d
    by (intro maps_set [OF m w]) auto
  then show ?thesis by (rule maps_files_set [OF inv])
qed

lemma vm_inv_pt: "vm_inv d e s \<Longrightarrow> pt_inv s" "vm_inv d e s \<Longrightarrow> recs_ok s"
  by (simp_all add: vm_inv_def maps_inv_def)

lemma pte_at_walk: "walk s va \<noteq> 0 \<Longrightarrow> ptmem s (walk s va) = pte_at s va"
  by (simp add: pte_at_def)

lemma lazy_record:
  assumes "vm_inv d e s" and "lazy (pte_at s va)"
  obtains j where "j < MAX_VMR" "pmap s (vp va) = vmr_ptr s j" "pte_at s va = vmr_ptr s j"
proof -
  have e: "pte_at s va = pmap s (vp va)" using pmap_vp vm_inv_pt(1) assms(1) by blast
  have "lazy (pmap s (vp va))" using assms(2) e by simp
  with assms(1) vp_less [of va] obtain j where "j < MAX_VMR" "pmap s (vp va) = vmr_ptr s j"
    unfolding vm_inv_def maps_inv_def by blast
  with e that show ?thesis by simp
qed

lemma unmap_page_spec:
  assumes inv: "vm_inv d e s"
  shows "\<exists>s'. unmap_page H a s = Some s' \<and> vm_inv d e s' \<and>
    (\<forall>k < NPAGES. pmap s' k = (if k = vp a then 0 else pmap s k)) \<and>
    current s' = current s \<and> vm_lock s' = vm_lock s \<and> fds s' = fds s \<and> vmrs s' = vmrs s \<and>
    first_free_paddr s' = first_free_paddr s \<and> (\<forall>w. walk s' w = walk s w) \<and>
    demand_paging s' = demand_paging s \<and> kbuf s' = kbuf s \<and>
    (\<forall>i < MAX_VMR. pmap s (vp a) \<noteq> vmr_ptr s i \<longrightarrow> vmr_at s' i = vmr_at s i) \<and> counts_le s s'"
proof (cases "walk s a = 0 \<or> ptmem s (walk s a) = 0")
  case True
  then have "pmap s (vp a) = 0"
    using pmap_vp [OF vm_inv_pt(1) [OF inv], of a] by (auto simp: pte_at_def split: if_splits)
  then show ?thesis using True inv by (auto simp: unmap_page_def)
next
  case False
  let ?p = "walk s a"
  note pt = vm_inv_pt(1) [OF inv]
  have w: "?p \<noteq> 0" and x: "ptmem s ?p = pte_at s a" "pte_at s a \<noteq> 0"
    using False by (auto simp: pte_at_def)
  show ?thesis
  proof (cases "ptmem s ?p AND PTE_V = 0")
    case True
    then have "lazy (pte_at s a)" using x by (simp add: lazy_def)
    then obtain j where j: "j < MAX_VMR" "pmap s (vp a) = vmr_ptr s j" "pte_at s a = vmr_ptr s j"
      by (rule lazy_record [OF inv])
    let ?t = "set_pte ?p 0 s"
    have "vmr_ptr ?t j = vmr_ptr s j" by (simp add: vmr_ptr_def)
    moreover have "vm_inv (d(j := Suc (d j))) e ?t"
      by (rule set_lazy_inv [OF inv w j(1,2)]) simp
    ultimately have i: "vm_inv d e (vmr_decref H (vmr_ptr s j) 1 ?t)"
      using vmr_decref_inv [of "d(j := Suc (d j))" e ?t j H] j(1) by simp
    have "counts_le ?t (vmr_decref H (vmr_ptr ?t j) 1 ?t)"
      by (rule vmr_decref_counts [OF _ j(1)]) (rule set_lazy_inv [OF inv w j(1,2)], simp_all)
    then have cnt: "counts_le s (vmr_decref H (vmr_ptr s j) 1 ?t)"
      by (simp add: counts_le_def \<open>vmr_ptr ?t j = vmr_ptr s j\<close>)
    have r: "unmap_page H a s = Some (vmr_decref H (vmr_ptr s j) 1 ?t)"
      using False True x j by (simp add: unmap_page_def set_pte_vmr_decref)
    have "pmap (vmr_decref H (vmr_ptr s j) 1 ?t) = pmap ?t" by (rule pmap_cong) simp_all
    moreover have "walk (vmr_decref H (vmr_ptr s j) 1 ?t) = walk ?t" by (rule walk_cong) simp_all
    moreover have "vmr_idx ?t (vmr_ptr s j) = j"
      using vmr_idx_ptr [OF vm_inv_pt(2) [OF inv] j(1)] by (simp add: vmr_idx_def)
    ultimately show ?thesis
      using i r j pmap_set [OF pt w] set_pte_spec [OF pt w] cnt by auto
  next
    case v: False
    then have "\<not> lazy (pmap s (vp a))"
      using x pmap_vp [OF pt, of a] by (simp add: lazy_def)
    then have "vm_inv d e (set_pte ?p 0 s)"
      by (intro set_valid_inv [OF inv w]) auto
    then show ?thesis
      using False v pmap_set [OF pt w] set_pte_spec [OF pt w] by (auto simp: unmap_page_def counts_le_def)
  qed
qed

text \<open>What the operations on mappings leave alone.\<close>

definition vm_frame :: "'h pk \<Rightarrow> 'h pk \<Rightarrow> bool" where
  "vm_frame s s' \<longleftrightarrow> current s' = current s \<and> vm_lock s' = vm_lock s \<and> fds s' = fds s \<and>
     vmrs s' = vmrs s \<and> first_free_paddr s' = first_free_paddr s \<and>
     demand_paging s' = demand_paging s \<and> kbuf s' = kbuf s"

lemma vm_frame_refl [simp]: "vm_frame s s"
  by (simp add: vm_frame_def)

lemma vm_frame_trans: "vm_frame s t \<Longrightarrow> vm_frame t u \<Longrightarrow> vm_frame s u"
  by (simp add: vm_frame_def)

lemma valid_range_cong: "current s' = current s \<Longrightarrow> valid_user_range s' = valid_user_range s"
  by (simp add: valid_user_range_def fun_eq_iff)

subsection \<open>Ranges of pages\<close>

text \<open>Page-aligned ranges below 2 GiB, and the page numbers they cover.\<close>

definition user_range :: "u64 \<Rightarrow> u64 \<Rightarrow> bool" where
  "user_range a len \<longleftrightarrow> unat a mod 4096 = 0 \<and> unat a + unat len \<le> 2 ^ 31"

definition range_pages :: "u64 \<Rightarrow> u64 \<Rightarrow> nat set" where
  "range_pages a len = {k. unat a div 4096 \<le> k \<and> k < unat a div 4096 + (unat len + 4095) div 4096}"

lemma user_range_count:
  assumes "user_range a len"
  shows "page_count a (a + len) = (unat len + 4095) div 4096" "unat (a + len) = unat a + unat len"
    "unat (a + len) \<le> 2 ^ 64 - 4096"
proof -
  show u: "unat (a + len) = unat a + unat len"
    using assms by (simp add: user_range_def unat_word_ariths)
  then show "page_count a (a + len) = (unat len + 4095) div 4096" by (simp add: page_count_def)
  show "unat (a + len) \<le> 2 ^ 64 - 4096" using u assms by (simp add: user_range_def)
qed

lemma vp_small:
  assumes "unat va < 2 ^ 39"
  shows "vp va = unat va div 4096"
proof -
  have "take_bit 39 va = va"
    using assms by (simp add: word_unat_eq_iff unsigned_take_bit_eq take_bit_nat_eq_self)
  then show ?thesis
    by (simp add: vp_def tkey_def drop_bit_eq_div unat_div_distrib)
qed

lemma nth_page:
  assumes r: "user_range a len" and i: "i < (unat len + 4095) div 4096"
  shows "vp (a + of_nat i * RISCV_PGSIZE) = unat a div 4096 + i"
    "unat (a + of_nat i * RISCV_PGSIZE) = unat a + 4096 * i"
    "unat a + 4096 * i < unat a + unat len"
proof -
  have l: "4096 * i < unat len"
    using i by simp
  have n: "unat (of_nat i :: u64) = i"
    using l r by (intro unat_of_nat64) (simp add: user_range_def)
  then show u: "unat (a + of_nat i * RISCV_PGSIZE) = unat a + 4096 * i"
    using l r by (simp add: user_range_def unat_word_ariths)
  show "unat a + 4096 * i < unat a + unat len" using l by simp
  have "vp (a + of_nat i * RISCV_PGSIZE) = (unat a + 4096 * i) div 4096"
    using u l r by (subst vp_small) (simp_all add: user_range_def)
  then show "vp (a + of_nat i * RISCV_PGSIZE) = unat a div 4096 + i" by simp
qed

lemma do_munmap_locked_spec:
  assumes inv: "vm_inv d e s" and r: "user_range a len"
  shows "\<exists>s'. do_munmap_locked H a len s = Some s' \<and> vm_inv d e s' \<and> vm_frame s s' \<and>
    (\<forall>k < NPAGES. pmap s' k = (if k \<in> range_pages a len then 0 else pmap s k))"
proof -
  let ?b = "unat a div 4096"
  let ?P = "\<lambda>i t. vm_inv d e t \<and> vm_frame s t \<and>
    (\<forall>k < NPAGES. pmap t k = (if ?b \<le> k \<and> k < ?b + i then 0 else pmap s k))"
  note c = user_range_count [OF r]
  have "\<exists>s'. page_for (unmap_page H) a (a + len) s = Some s' \<and> ?P (page_count a (a + len)) s'"
  proof (rule page_for_total [where P = ?P])
    show "?P 0 s" using inv by auto
    show "unat (a + len) \<le> 2 ^ 64 - 4096" by (rule c(3))
    fix i t
    assume i: "i < page_count a (a + len)" and P: "?P i t"
    let ?a = "a + of_nat i * RISCV_PGSIZE"
    have v: "vp ?a = ?b + i" using nth_page(1) [OF r] i c(1) by simp
    from P have "vm_inv d e t" by simp
    then obtain t' where t': "unmap_page H ?a t = Some t'" "vm_inv d e t'"
      "\<forall>k < NPAGES. pmap t' k = (if k = vp ?a then 0 else pmap t k)" "vm_frame t t'"
      using unmap_page_spec [of d e t H ?a] by (auto simp: vm_frame_def)
    have "?P (Suc i) t'"
      using t' P v vm_frame_trans [of s t t'] by auto
    with t'(1) show "\<exists>s'. unmap_page H ?a t = Some s' \<and> ?P (Suc i) s'" by blast
  qed
  then show ?thesis
    unfolding do_munmap_locked_def c(1) range_pages_def by auto
qed

lemma munmap_one:
  assumes "user_range a 4096"
  shows "do_munmap_locked H a RISCV_PGSIZE s = unmap_page H a s"
proof -
  have "unat (a + 4096) = unat a + 4096"
    using user_range_count(2) [OF assms] by simp
  then have lt: "a < a + RISCV_PGSIZE" by (simp add: word_less_nat_alt)
  have "page_for (unmap_page H) (a + RISCV_PGSIZE) (a + RISCV_PGSIZE) t = Some t" for t
    by (simp add: page_for.simps)
  with lt show ?thesis
    unfolding do_munmap_locked_def page_for.simps [of _ a] by (cases "unmap_page H a s") simp_all
qed

subsection \<open>Mapping\<close>

lemma walk_create_inv:
  assumes inv: "vm_inv d e s" and ret: "walk_create a s = Some (p, s1)"
  shows "vm_inv d e s1 \<and> pmap s1 = pmap s \<and> walk s1 a = p \<and> p \<noteq> 0 \<and> vm_frame s s1"
proof -
  have W: "pt_inv s1" "p \<noteq> 0" "walk s1 a = p" "\<And>w. pte_at s1 w = pte_at s w" "pt_frame s s1"
    using walk_create_spec [OF ret vm_inv_pt(1) [OF inv]] by auto
  note f = pt_frame_same [OF W(5)]
  have pm: "pmap s1 = pmap s" by (rule ext) (simp add: pmap_def W(4))
  have "maps_inv d s1"
    using inv W(1) unfolding vm_inv_def maps_inv_def pm vmr_ptr_cong [OF f(5)] recs_ok_cong [OF f(5)] f(4)
    by blast
  moreover have "files_inv e s1"
    using inv files_inv_cong [OF f(1,2,4)] by (simp add: vm_inv_def)
  ultimately show ?thesis using W pm f by (simp add: vm_inv_def vm_frame_def)
qed

lemma map_page_spec:
  assumes inv: "vm_inv d e s" and j: "j < MAX_VMR" and d: "0 < d j" and r: "user_range a 4096"
    and ret: "map_page H (vmr_ptr s j) a s = Some s'"
  shows "vm_inv (d(j := d j - 1)) e s' \<and> vm_frame s s' \<and>
    (\<forall>k < NPAGES. pmap s' k = (if k = vp a then vmr_ptr s j else pmap s k)) \<and>
    (pmap s (vp a) \<noteq> vmr_ptr s j \<longrightarrow> vmr_at s' j = vmr_at s j) \<and> counts_le s s'"
proof -
  obtain p s1 s2 where c: "walk_create a s = Some (p, s1)"
    and s2: "(if ptmem s1 p \<noteq> 0 then unmap_page H a s1 else Some s1) = Some s2"
    and s': "s' = set_pte p (vmr_ptr s j) s2"
    using ret unfolding map_page_def munmap_one [OF r] by (auto simp: bind_Some_iff)
  note C = walk_create_inv [OF inv c]
  have "f_refcnt s1 = f_refcnt s"
    using pt_frame_same(2) walk_create_spec [OF c vm_inv_pt(1) [OF inv]] by blast
  then have cnt: "counts_le s s1"
    by (rule counts_le_same)
  have va: "vmr_at s1 = vmr_at s"
    using pt_frame_same(4) walk_create_spec [OF c vm_inv_pt(1) [OF inv]] by blast
  have ptr1: "vmr_ptr s1 = vmr_ptr s" using C by (intro vmr_ptr_cong) (simp add: vm_frame_def)
  have S: "vm_inv d e s2 \<and> vm_frame s1 s2 \<and> walk s2 a = walk s1 a \<and>
    (\<forall>k < NPAGES. pmap s2 k = (if k = vp a then 0 else pmap s1 k)) \<and>
    (pmap s (vp a) \<noteq> vmr_ptr s j \<longrightarrow> vmr_at s2 j = vmr_at s1 j) \<and> counts_le s1 s2"
  proof (cases "ptmem s1 p = 0")
    case True
    then have "pmap s1 (vp a) = 0"
      using pmap_vp [of s1 a] C vm_inv_pt(1) by (auto simp: pte_at_def)
    with True s2 C show ?thesis by auto
  next
    case False
    with s2 have "unmap_page H a s1 = Some s2" by simp
    with unmap_page_spec [of d e s1 H a] C j ptr1 show ?thesis by (auto simp: vm_frame_def)
  qed
  have w: "walk s2 a \<noteq> 0" "p = walk s2 a" using S C by auto
  have fr: "vm_frame s s2" using C S vm_frame_trans by blast
  then have ptr: "vmr_ptr s2 = vmr_ptr s" by (intro vmr_ptr_cong) (simp add: vm_frame_def)
  have "vm_inv (d(j := d j - 1)) e s'"
    unfolding s' w(2) ptr [symmetric]
  proof (rule set_ptr_inv [where d = d, OF _ w(1) j _ d])
    show "vm_inv d e s2" using S by blast
    show "\<not> lazy (pmap s2 (vp a))" using S vp_less by simp
  qed
  moreover have "vm_frame s s'" using fr by (simp add: s' vm_frame_def)
  moreover have "vmr_at s' j = vmr_at s j" if "pmap s (vp a) \<noteq> vmr_ptr s j"
    using S that va by (simp add: s')
  moreover have "counts_le s s'"
    using counts_le_trans [OF cnt, of s2] S by (simp add: s' counts_le_def)
  moreover have "pmap s' k = (if k = vp a then vmr_ptr s j else pmap s k)" if k: "k < NPAGES" for k
  proof -
    have "pt_inv s2" using S vm_inv_pt(1) by blast
    then have "pmap s' k = ((pmap s2)(vp a := vmr_ptr s j)) k"
      unfolding s' w(2) by (rule pmap_set [OF _ w(1) k])
    with S C k show ?thesis by simp
  qed
  ultimately show ?thesis by blast
qed

lemma user_range_page:
  assumes "user_range a len" and "i < (unat len + 4095) div 4096"
  shows "user_range (a + of_nat i * RISCV_PGSIZE) 4096"
proof -
  note n = nth_page(2,3) [OF assms]
  obtain q where q: "unat a = 4096 * q" using assms(1) by (auto simp: user_range_def elim: dvdE)
  have "4096 * (q + i) < 2 ^ 31" using n q assms(1) by (simp add: user_range_def)
  then have "q + i < 524288" by simp
  then have "4096 * (q + i) + 4096 \<le> 2 ^ 31" by simp
  then show ?thesis using n(1) q by (simp add: user_range_def)
qed

lemma map_range_spec:
  assumes inv: "vm_inv d e s" and j: "j < MAX_VMR" and r: "user_range a len"
    and d: "d j = (unat len + 4095) div 4096"
    and ret: "page_for (map_page H (vmr_ptr s j)) a (a + len) s = Some s'"
    and new: "\<And>k. k < NPAGES \<Longrightarrow> pmap s k \<noteq> vmr_ptr s j"
  shows "vm_inv (d(j := 0)) e s' \<and> vm_frame s s' \<and>
    (\<forall>k < NPAGES. pmap s' k = (if k \<in> range_pages a len then vmr_ptr s j else pmap s k)) \<and>
    vmr_at s' j = vmr_at s j \<and> counts_le s s'"
proof -
  let ?b = "unat a div 4096"
  let ?P = "\<lambda>i t. vm_inv (d(j := d j - i)) e t \<and> vm_frame s t \<and>
    (\<forall>k < NPAGES. pmap t k = (if ?b \<le> k \<and> k < ?b + i then vmr_ptr s j else pmap s k)) \<and>
    vmr_at t j = vmr_at s j \<and> counts_le s t"
  note c = user_range_count [OF r]
  have "?P (page_count a (a + len)) s'"
  proof (rule page_for_partial [where P = ?P, OF ret])
    show "?P 0 s" using inv by auto
    show "unat (a + len) \<le> 2 ^ 64 - 4096" by (rule c(3))
    fix i t t'
    assume i: "i < page_count a (a + len)" and P: "?P i t"
      and step: "map_page H (vmr_ptr s j) (a + of_nat i * RISCV_PGSIZE) t = Some t'"
    have ptr: "vmr_ptr t = vmr_ptr s" using P by (intro vmr_ptr_cong) (simp add: vm_frame_def)
    have v: "vp (a + of_nat i * RISCV_PGSIZE) = ?b + i" using nth_page(1) [OF r] i c(1) by simp
    have ur: "user_range (a + of_nat i * RISCV_PGSIZE) 4096"
      using user_range_page [OF r] i c(1) by simp
    have "d j - i > 0" using i c(1) d by simp
    moreover have "pmap t (?b + i) \<noteq> vmr_ptr s j"
      using P new vp_less [of "a + of_nat i * RISCV_PGSIZE"] unfolding v by simp
    ultimately have "vm_inv (d(j := d j - Suc i)) e t' \<and> vm_frame t t' \<and>
      (\<forall>k < NPAGES. pmap t' k = (if k = ?b + i then vmr_ptr s j else pmap t k)) \<and>
      vmr_at t' j = vmr_at t j \<and> counts_le t t'"
      using map_page_spec [of "d(j := d j - i)" e t j _ H t', OF _ j _ ur] P step ptr
      unfolding v by simp
    with P vm_frame_trans [of s t t'] counts_le_trans [of s t t'] show "?P (Suc i) t'" by auto
  qed
  then show ?thesis unfolding c(1) range_pages_def using d by simp
qed

subsection \<open>Taking a record\<close>

lemma vmr_alloc_spec:
  assumes inv: "vm_inv d e s" and n: "n \<noteq> 0"
    and f: "\<And>f. file = Some f \<Longrightarrow> f < MAX_FILES \<and> unsaturated s f"
    and ret: "vmr_alloc addr len file off n prot s = Some (v, s1)"
  shows "if v = 0 then s1 = s else
    (\<exists>j < MAX_VMR. v = vmr_ptr s j \<and> v_refcnt (vmr_at s j) = 0 \<and> d j = 0 \<and>
       (\<forall>k < NPAGES. pmap s k \<noteq> vmr_ptr s j) \<and>
       vm_inv (d(j := unat n)) e s1 \<and> pmap s1 = pmap s \<and> vm_frame s s1 \<and>
       vmr_at s1 = (vmr_at s)(j := \<lparr>v_addr = addr, v_length = len, v_file = file,
                     v_offset = off, v_refcnt = n, v_prot = prot\<rparr>) \<and>
       (\<forall>g. unat (f_refcnt s1 g) \<le> unat (f_refcnt s g) + (if file = Some g then 1 else 0)))"
proof -
  have m: "maps_inv d s" and fi: "files_inv e s" using inv by (auto simp: vm_inv_def)
  note D = maps_invD [OF m]
  have t: "vmr_table s = Some s" using D(2) by (simp add: vmr_table_def recs_ok_def)
  show ?thesis
  proof (cases "scan_from (\<lambda>j. v_refcnt (vmr_at s j) = 0) 0 MAX_VMR")
    case None
    then show ?thesis using ret t by (simp add: vmr_alloc_def)
  next
    case (Some j)
    let ?r = "\<lparr>v_addr = addr, v_length = len, v_file = file, v_offset = off, v_refcnt = n, v_prot = prot\<rparr>"
    have j: "j < MAX_VMR" "v_refcnt (vmr_at s j) = 0" using scan_from_SomeD [OF Some] by auto
    obtain s2 where s2: "(case file of None \<Rightarrow> Some s | Some f \<Rightarrow> file_incref f s) = Some s2"
      and s1: "s1 = s2\<lparr>vmr_at := (vmr_at s2)(j := ?r)\<rparr>" and v: "v = vmr_ptr s2 j"
      using ret t Some by (auto simp: vmr_alloc_def bind_Some_iff)
    have sv: "same_vm s s2" and fds: "fds s2 = fds s"
      and fi2: "files_inv (case file of None \<Rightarrow> e | Some f \<Rightarrow> e(f := Suc (e f))) s2"
      using s2 fi f file_incref_inv [OF fi] by (auto simp: file_incref_def Let_def split: option.splits)
    have cnt: "\<forall>g. unat (f_refcnt s1 g) \<le> unat (f_refcnt s g) + (if file = Some g then 1 else 0)"
      using s2 f by (auto simp: s1 file_incref_def Let_def unsaturated_def unat_word_ariths split: option.splits)
    note sm = same_vmD [OF sv]
    have ptr: "vmr_ptr s1 = vmr_ptr s" "vmr_ptr s2 = vmr_ptr s"
      using sm by (auto intro: vmr_ptr_cong simp: s1)
    have z: "tally NPAGES (\<lambda>k. pmap s k = vmr_ptr s j) = 0" "d j = 0"
      using D(3) [OF j(1)] j(2) by auto
    then have none: "\<forall>k < NPAGES. pmap s k \<noteq> vmr_ptr s j"
      using tally_pos [of _ NPAGES "\<lambda>k. pmap s k = vmr_ptr s j"] by force
    have pm: "pmap s1 = pmap s" by (rule pmap_cong) (simp_all add: s1 sm)
    have "pt_inv s1" using D(1) by (subst pt_inv_cong) (simp_all add: s1 sm)
    moreover have "recs_ok s1" using D(2) by (subst recs_ok_cong) (simp_all add: s1 sm)
    ultimately have "maps_inv (d(j := unat n)) s1"
      using D(3,4) z unfolding maps_inv_def ptr pm by (auto simp: s1 sm)
    moreover have "files_inv e s1"
      unfolding s1
    proof (rule vmr_upd_files_inv [OF fi2 j(1)])
      show "g < MAX_FILES" if "v_refcnt ?r \<noteq> 0" "v_file ?r = Some g" for g
        using that f by simp
      show "e g + (if v_refcnt ?r \<noteq> 0 \<and> v_file ?r = Some g then 1 else 0) =
        (case file of None \<Rightarrow> e | Some f \<Rightarrow> e(f := Suc (e f))) g +
          (if v_refcnt (vmr_at s2 j) \<noteq> 0 \<and> v_file (vmr_at s2 j) = Some g then 1 else 0)" for g
        using j(2) n by (simp add: sm split: option.split)
    qed
    ultimately have "vm_inv (d(j := unat n)) e s1" by (simp add: vm_inv_def)
    moreover have "v \<noteq> 0" "v = vmr_ptr s j"
      using vmr_ptr_lazy [OF D(2) j(1)] v ptr by (auto simp: lazy_def)
    moreover have "vm_frame s s1" by (simp add: vm_frame_def s1 sm fds)
    ultimately show ?thesis using j z none pm cnt by (auto simp: s1 sm)
  qed
qed

subsection \<open>Page faults\<close>

definition page_base :: "u64 \<Rightarrow> u64" where
  "page_base va = push_bit RISCV_PGSHIFT (drop_bit RISCV_PGSHIFT va)"

lemma vpn_page_base: "vpn_of (page_base va) = vpn_of va"
proof (rule bit_word_eqI)
  fix k assume "k < LENGTH(64)"
  then show "bit (vpn_of (page_base va)) k = bit (vpn_of va) k"
    by (auto simp: bit_tkey page_base_def bit_push_bit_iff bit_drop_bit_eq)
qed

lemma vp_page_base [simp]: "vp (page_base va) = vp va"
  by (simp add: vp_eq_iff vpn_page_base)

text \<open>The entry that paging in leaves: the frame of the page and the record's rights.\<close>

definition paged_pte :: "'h pk \<Rightarrow> u64 \<Rightarrow> vmr_t \<Rightarrow> u64" where
  "paged_pte s vaddr r =
     pte_create (drop_bit RISCV_PGSHIFT vaddr + first_free_paddr s div RISCV_PGSIZE)
       (prot_to_type (v_prot r) True)"

lemma fetch_page_frame:
  assumes "fetch_page H r vaddr s = Some s'"
  shows "files_frame s s'"
proof (cases "v_file r")
  case None
  then show ?thesis using assms by (auto simp: fetch_page_def bind_Some_iff)
next
  case (Some f)
  then obtain ret s1 where p: "file_pread no_fault H f vaddr
      (C_MIN RISCV_PGSIZE (v_length r - (vaddr - v_addr r))) (vaddr - v_addr r + v_offset r) s = Some (ret, s1)"
    and q: "(if sint ret < sint RISCV_PGSIZE
      then memset (mem s1) (va2pa s1 (vaddr + ret)) 0 (RISCV_PGSIZE - ret) \<bind> (\<lambda>m. Some (s1\<lparr>mem := m\<rparr>))
      else Some s1) = Some s'"
    using assms by (auto simp: fetch_page_def Let_def bind_Some_iff split: prod.splits)
  have "files_frame s s1" by (rule file_pread_no_fault [OF p])
  moreover have "files_frame s1 s'"
    using q by (auto simp: bind_Some_iff split: if_splits)
  ultimately show ?thesis by (rule files_frame_trans)
qed

lemma page_in_spec:
  assumes inv: "vm_inv d e s" and w: "walk s va \<noteq> 0" and lz: "lazy (pte_at s va)"
    and ret: "page_in H vaddr (walk s va) s = Some s'"
  shows "\<exists>j < MAX_VMR. pmap s (vp va) = vmr_ptr s j \<and> vm_inv d e s' \<and> vm_frame s s' \<and> counts_le s s' \<and>
    walk s' va = walk s va \<and>
    (\<forall>k < NPAGES. pmap s' k = (if k = vp va then paged_pte s vaddr (vmr_at s j) else pmap s k))"
proof -
  let ?p = "walk s va"
  obtain j where j: "j < MAX_VMR" "pmap s (vp va) = vmr_ptr s j" "pte_at s va = vmr_ptr s j"
    by (rule lazy_record [OF inv lz])
  define x where "x = pte_create (drop_bit RISCV_PGSHIFT vaddr + first_free_paddr s div RISCV_PGSIZE)
    (prot_to_type (PROT_READ OR PROT_WRITE) False)"
  define s1 where "s1 = set_pte ?p x s"
  have ptm: "ptmem s ?p = vmr_ptr s j" using j(3) w by (simp add: pte_at_def)
  obtain s2 where s2: "fetch_page H (vmr_at s1 (vmr_idx s1 (vmr_ptr s j))) vaddr s1 = Some s2"
    using ret by (auto simp: page_in_def Let_def bind_Some_iff s1_def x_def ptm)
  define s3 where "s3 = vmr_decref H (vmr_ptr s j) 1 s2"
  define y where "y = pte_create (drop_bit RISCV_PGSHIFT vaddr + first_free_paddr s div RISCV_PGSIZE)
    (prot_to_type (v_prot (vmr_at s3 (vmr_idx s3 (vmr_ptr s j)))) True)"
  have s': "s' = set_pte ?p y s3"
    using ret s2 by (auto simp: page_in_def Let_def bind_Some_iff s1_def x_def ptm s3_def y_def)
  have i1: "vm_inv (d(j := Suc (d j))) e s1"
    unfolding s1_def using valid_not_lazy [OF pte_create_valid]
    by (intro set_lazy_inv [OF inv w j(1,2)]) (simp add: x_def)
  note fr = fetch_page_frame [OF s2]
  have i2: "vm_inv (d(j := Suc (d j))) e s2" using i1 vm_inv_frame [OF fr] by simp
  note sv = same_vmD [of s1 s2]
  have sm: "same_vm s1 s2" "fds s2 = fds s1" using fr by (auto simp: files_frame_def)
  note sv = same_vmD [OF sm(1)]
  have ptr: "vmr_ptr s2 = vmr_ptr s" "vmr_ptr s3 = vmr_ptr s"
    by (auto intro!: vmr_ptr_cong simp: s3_def sv s1_def)
  have rc: "recs_ok s3" using vm_inv_pt(2) [OF inv] by (subst recs_ok_cong) (simp_all add: s3_def sv s1_def)
  have i3: "vm_inv d e s3"
    using vmr_decref_inv [OF i2 j(1), of H] unfolding s3_def ptr by simp
  have w3: "walk s3 = walk s1" by (rule walk_cong) (simp_all add: s3_def sv)
  have p3: "pmap s3 = pmap s1" by (rule pmap_cong) (simp_all add: s3_def sv)
  note pt = vm_inv_pt(1) [OF inv]
  have w1: "walk s1 va = ?p" using set_pte_spec [OF pt w, of x] by (simp add: s1_def)
  have p1: "pmap s1 k = (if k = vp va then x else pmap s k)" if "k < NPAGES" for k
    unfolding s1_def using pmap_set [OF pt w that] by simp
  have nl: "\<not> lazy x" "\<not> lazy y" using valid_not_lazy [OF pte_create_valid] by (simp_all add: x_def y_def)
  have wp: "walk s3 va = ?p" "walk s3 va \<noteq> 0" using w3 w1 w by simp_all
  have "vm_inv d e s'"
    unfolding s' wp(1) [symmetric] using nl p1 p3 vp_less by (intro set_valid_inv [OF i3 wp(2)]) simp_all
  moreover have "counts_le s s'"
  proof -
    have "counts_le s2 s3"
      unfolding s3_def ptr(1) [symmetric] using vmr_decref_counts [OF i2 j(1), of H] by simp
    moreover have "f_refcnt s2 = f_refcnt s" using fr by (simp add: files_frame_def s1_def)
    ultimately show ?thesis by (simp add: counts_le_def s')
  qed
  moreover have "vm_frame s s'"
    using sm by (simp add: vm_frame_def s' s3_def sv s1_def)
  moreover have "walk s' va = ?p"
    using set_pte_spec [OF vm_inv_pt(1) [OF i3] wp(2), of y] wp(1) by (simp add: s')
  moreover have "y = paged_pte s vaddr (vmr_at s j)"
  proof -
    have "vmr_idx s3 (vmr_ptr s j) = j" "vmr_idx s2 (vmr_ptr s j) = j"
      using vmr_idx_ptr [OF rc j(1)] vmr_idx_ptr [OF vm_inv_pt(2) [OF i2] j(1)] ptr by simp_all
    then show ?thesis by (simp add: y_def paged_pte_def s3_def sv s1_def)
  qed
  moreover have "pmap s' k = (if k = vp va then y else pmap s k)" if "k < NPAGES" for k
    using pmap_set [OF vm_inv_pt(1) [OF i3] wp(2) that, of y] p3 p1 [OF that] wp(1) by (simp add: s')
  ultimately show ?thesis using j by blast
qed

definition permits :: "u64 \<Rightarrow> u32 \<Rightarrow> bool" where
  "permits pte prot \<longleftrightarrow> (let perms = pte_create 0 (prot_to_type prot True) in pte AND perms = perms)"

lemma handle_page_fault_locked_alt:
  "handle_page_fault_locked H va prot s =
     (let p = walk s (page_base va)
      in if p = 0 \<or> ptmem s p = 0 \<or> \<not> valid_user_range s (page_base va) 1 then Some (- 1, s)
         else do {
           s1 \<leftarrow> (if ptmem s p AND PTE_V = 0 then page_in H (page_base va) p s else Some s);
           Some (if permits (ptmem s1 p) prot then 0 else - 1, s1)
         })"
proof -
  have sw: "(if a \<noteq> b then x else y) = (if a = b then y else x)" for a b :: u64 and x y :: u32
    by simp
  show ?thesis
    unfolding handle_page_fault_locked_def page_base_def permits_def Let_def sw by simp
qed

lemma handle_page_fault_locked_spec:
  assumes inv: "vm_inv d e s" and ret: "handle_page_fault_locked H va prot s = Some (r, s')"
  shows "vm_inv d e s' \<and> vm_frame s s' \<and> counts_le s s' \<and>
    (\<forall>k < NPAGES. k \<noteq> vp va \<longrightarrow> pmap s' k = pmap s k) \<and>
    (if pmap s (vp va) = 0 \<or> \<not> valid_user_range s (page_base va) 1 then r = - 1 \<and> s' = s
     else (if lazy (pmap s (vp va))
           then \<exists>j < MAX_VMR. pmap s (vp va) = vmr_ptr s j \<and>
                  pmap s' (vp va) = paged_pte s (page_base va) (vmr_at s j)
           else s' = s) \<and>
          r = (if permits (pmap s' (vp va)) prot then 0 else - 1))"
proof -
  let ?va = "page_base va" and ?p = "walk s (page_base va)"
  note pt = vm_inv_pt(1) [OF inv]
  have x: "pte_at s ?va = pmap s (vp va)" using pmap_vp [OF pt, of ?va] by simp
  show ?thesis
  proof (cases "pmap s (vp va) = 0 \<or> \<not> valid_user_range s ?va 1")
    case True
    then have "?p = 0 \<or> ptmem s ?p = 0 \<or> \<not> valid_user_range s ?va 1"
      using x by (auto simp: pte_at_def split: if_splits)
    then have "r = - 1 \<and> s' = s"
      using ret by (auto simp: handle_page_fault_locked_alt Let_def)
    with True inv show ?thesis by simp
  next
    case False
    then have w: "?p \<noteq> 0" and m: "ptmem s ?p = pmap s (vp va)"
      using x by (auto simp: pte_at_def split: if_splits)
    obtain s1 where s1: "(if ptmem s ?p AND PTE_V = 0 then page_in H ?va ?p s else Some s) = Some s1"
      and r: "r = (if permits (ptmem s1 ?p) prot then 0 else - 1)" and s': "s' = s1"
      using ret False w m
      by (auto simp: handle_page_fault_locked_alt Let_def bind_Some_iff)
    show ?thesis
    proof (cases "lazy (pmap s (vp va))")
      case True
      then have pi: "page_in H ?va ?p s = Some s1" using s1 m by (simp add: lazy_def)
      have lz: "lazy (pte_at s ?va)" using True x by simp
      from page_in_spec [OF inv w lz pi] obtain j where j: "j < MAX_VMR" "pmap s (vp va) = vmr_ptr s j"
        "vm_inv d e s1" "vm_frame s s1" "counts_le s s1" "walk s1 ?va = ?p"
        and q: "\<forall>k < NPAGES. pmap s1 k = (if k = vp va then paged_pte s ?va (vmr_at s j) else pmap s k)"
        unfolding vp_page_base by blast
      have "ptmem s1 ?p = pmap s1 (vp va)"
        using pmap_vp [OF vm_inv_pt(1) [OF j(3)], of ?va] j(6) w by (simp add: pte_at_def)
      then show ?thesis using False True j q r vp_less [of va] unfolding s' by auto
    next
      case nl: False
      then have "s1 = s" using s1 m False by (auto simp: lazy_def)
      then show ?thesis using False nl inv r m unfolding s' by simp
    qed
  qed
qed

subsection \<open>Protection\<close>

lemma mprotect_page_spec:
  assumes inv: "vm_inv d e s" and ret: "mprotect_page prot a s = (res, s')"
  shows "vm_inv d e s' \<and> vm_frame s s' \<and>
    (\<forall>k < NPAGES. k \<noteq> vp a \<or> lazy (pmap s k) \<longrightarrow> pmap s' k = pmap s k) \<and>
    (pmap s' (vp a) \<noteq> pmap s (vp a) \<longrightarrow>
       pmap s (vp a) AND PTE_U \<noteq> 0 \<and> pmap s (vp a) AND PTE_V \<noteq> 0 \<and>
       pmap s' (vp a) = pte_create (pte_ppn (pmap s (vp a))) (prot_to_type prot True) \<and>
       (prot AND PROT_READ \<noteq> 0 \<longrightarrow> pmap s (vp a) AND PTE_R \<noteq> 0) \<and>
       (prot AND PROT_WRITE \<noteq> 0 \<longrightarrow> pmap s (vp a) AND PTE_W \<noteq> 0) \<and>
       (prot AND PROT_EXEC \<noteq> 0 \<longrightarrow> pmap s (vp a) AND PTE_X \<noteq> 0)) \<and>
    (\<forall>j. vmr_at s' j = vmr_at s j \<or>
       vmr_at s' j = (vmr_at s j)\<lparr>v_prot := prot\<rparr> \<and> prot AND NOT (v_prot (vmr_at s j)) = 0)"
proof -
  let ?p = "walk s a"
  note pt = vm_inv_pt(1) [OF inv]
  have x: "pte_at s a = pmap s (vp a)" using pmap_vp [OF pt, of a] by simp
  consider (none) "?p = 0 \<or> ptmem s ?p = 0"
    | (lazy) "?p \<noteq> 0" "lazy (ptmem s ?p)" | (valid) "?p \<noteq> 0" "ptmem s ?p AND PTE_V \<noteq> 0"
    by (auto simp: lazy_def)
  then show ?thesis
  proof cases
    case none
    then have "s' = s" using ret by (auto simp: mprotect_page_def Let_def)
    then show ?thesis using inv by simp
  next
    case lazy
    let ?j = "vmr_idx s (ptmem s ?p)"
    let ?r = "vmr_at s ?j"
    have z: "ptmem s ?p \<noteq> 0" "ptmem s ?p AND PTE_V = 0" using lazy(2) by (auto simp: lazy_def)
    show ?thesis
    proof (cases "(v_prot ?r XOR prot) AND NOT (v_prot ?r) = 0")
      case False
      then have "s' = s" using ret lazy z by (simp add: mprotect_page_def Let_def)
      then show ?thesis using inv by simp
    next
      case True
      have "prot AND NOT (v_prot ?r) = 0"
      proof -
        have "(v_prot ?r XOR prot) AND NOT (v_prot ?r) = prot AND NOT (v_prot ?r)"
          by (rule bit_word_eqI) (auto simp: bit_and_iff bit_xor_iff bit_not_iff)
        with True show ?thesis by simp
      qed
      moreover have s': "s' = s\<lparr>vmr_at := (vmr_at s)(?j := ?r\<lparr>v_prot := prot\<rparr>)\<rparr>"
        using True ret lazy z by (simp add: mprotect_page_def Let_def)
      moreover have "vm_inv d e s'"
      proof -
        have "maps_inv d s" "files_inv e s" using inv by (auto simp: vm_inv_def)
        have q: "v_refcnt (vmr_at s' j) = v_refcnt (vmr_at s j)" "v_file (vmr_at s' j) = v_file (vmr_at s j)" for j
          by (simp_all add: s')
        have pm: "pmap s' = pmap s" by (rule pmap_cong) (simp_all add: s')
        have ptr: "vmr_ptr s' = vmr_ptr s" by (rule vmr_ptr_cong) (simp add: s')
        have "pt_inv s' = pt_inv s" by (rule pt_inv_cong) (simp_all add: s')
        moreover have "recs_ok s' = recs_ok s" by (rule recs_ok_cong) (simp add: s')
        moreover have "vmr_refs s' = vmr_refs s" "vmr_live s' = vmr_live s"
          by (simp_all add: vmr_refs_def vmr_live_def q fun_eq_iff)
        moreover have "fd_refs s' = fd_refs s" by (rule fd_refs_cong) (simp add: s')
        moreover have "fds s' = fds s" "f_refcnt s' = f_refcnt s" by (simp_all add: s')
        ultimately show ?thesis
          using inv by (simp add: vm_inv_def maps_inv_def files_inv_def q pm ptr)
      qed
      moreover have "pmap s' = pmap s" by (rule pmap_cong) (simp_all add: s')
      ultimately show ?thesis by (auto simp: vm_frame_def)
    qed
  next
    case valid
    then have z: "ptmem s ?p \<noteq> 0" by auto
    have m: "ptmem s ?p = pmap s (vp a)" using x valid(1) by (simp add: pte_at_def)
    show ?thesis
    proof (cases "s' = s")
      case True
      then show ?thesis using inv by simp
    next
      case False
      let ?y = "pte_create (pte_ppn (ptmem s ?p)) (prot_to_type prot True)"
      have s': "s' = set_pte ?p ?y s" and c: "ptmem s ?p AND PTE_U \<noteq> 0"
        "prot AND PROT_READ \<noteq> 0 \<longrightarrow> ptmem s ?p AND PTE_R \<noteq> 0"
        "prot AND PROT_WRITE \<noteq> 0 \<longrightarrow> ptmem s ?p AND PTE_W \<noteq> 0"
        "prot AND PROT_EXEC \<noteq> 0 \<longrightarrow> ptmem s ?p AND PTE_X \<noteq> 0"
        using False ret valid z by (auto simp: mprotect_page_def Let_def split: if_splits)
      have "vm_inv d e s'"
        unfolding s' using valid_not_lazy [OF valid(2)] valid_not_lazy [OF pte_create_valid] m
        by (intro set_valid_inv [OF inv valid(1)]) simp_all
      moreover have "pmap s' k = (if k = vp a then ?y else pmap s k)" if "k < NPAGES" for k
        unfolding s' using pmap_set [OF pt valid(1) that] by simp
      moreover have "\<not> lazy (pmap s (vp a))" using valid_not_lazy [OF valid(2)] m by simp
      ultimately show ?thesis
        using c valid(2) vp_less [of a] unfolding m by (auto simp: s' vm_frame_def)
    qed
  qed
qed

end
