(* ===== verification/VmCost.thy ===== *)
theory VmCost
  imports VmInv
begin

text \<open>
  What mapping a range of pages takes from the page pool: consecutive pages share their
  last table, so a range needs two pages of the pool at most for every 2 MiB it meets.
\<close>

subsection \<open>What consecutive pages cost\<close>

text \<open>Pages that share the lower 18 bits above the offset share their last table.\<close>

lemma walk_loop_neighbour:
  assumes key: "tkey va' 1 = tkey va 1" and n: "n \<le> 2"
  shows "walk_loop m va' t n =
    (case walk_loop m va t n of Inl p \<Rightarrow> Inl p | Inr p \<Rightarrow> Inr (p - 8 * pt_idx va 0 + 8 * pt_idx va' 0))"
proof -
  have i: "pt_idx va' l = pt_idx va l" if "l = 1 \<or> l = 2" for l
    using that key tkey_split [of 1 va' va] tkey_split [of 2 va' va] by (auto simp: eval_nat_numeral)
  show ?thesis
    using n
  proof (induction n arbitrary: t)
    case (Suc n)
    then have "pt_idx va' (Suc n) = pt_idx va (Suc n)"
      by (intro i) auto
    then show ?case
      using Suc by (simp add: Let_def)
  qed simp
qed

lemma walk_create_neighbour:
  assumes inv: "pt_inv s" and w: "walk s va \<noteq> 0" and key: "tkey va' 1 = tkey va 1"
  shows "walk s va' \<noteq> 0" "walk_create va' s = Some (walk s va', s)"
proof -
  obtain own where tree: "pt_tree s own"
    using inv by (auto simp: pt_inv_def)
  obtain p where "walk_loop (ptmem s) va (root_page_table s) 2 = Inr p"
    using w by (auto simp: walk_def split: sum.splits)
  then obtain q where q: "walk_loop (ptmem s) va' (root_page_table s) 2 = Inr q"
    using walk_loop_neighbour [OF key order_refl] by simp
  then show "walk s va' \<noteq> 0" "walk_create va' s = Some (walk s va', s)"
    using walk_Inr [OF tree q] by (simp_all add: walk_create.simps)
qed

text \<open>The last-level tables that \<open>n\<close> pages from page \<open>b\<close> on need.\<close>

definition tables_for :: "nat \<Rightarrow> nat \<Rightarrow> nat" where
  "tables_for b n = (if n = 0 then 0 else (b + n - 1) div 512 - b div 512 + 1)"

lemma tables_for_le: "tables_for b n \<le> n div 512 + 2"
proof (cases n)
  case (Suc m)
  have "b mod 512 + m mod 512 < 2 * 512"
    using mod_less_divisor [of 512 b] mod_less_divisor [of 512 m] by linarith
  then have "(b mod 512 + m mod 512) div 512 \<le> 1"
    by (simp add: less_mult_imp_div_less flip: less_Suc_eq_le)
  then have "(b + m) div 512 \<le> b div 512 + (m div 512 + 1)"
    unfolding div_add1_eq [of b m] by linarith
  also have "m div 512 \<le> n div 512"
    using Suc by (simp add: div_le_mono)
  finally show ?thesis
    using Suc by (simp add: tables_for_def)
qed (simp add: tables_for_def)

lemma tables_for_Suc:
  "tables_for b (Suc n) = tables_for b n + (if n \<noteq> 0 \<and> (b + n) div 512 = (b + (n - 1)) div 512 then 0 else 1)"
proof (cases n)
  case (Suc m)
  have "(b + Suc m) div 512 = (b + m) div 512 \<or> (b + Suc m) div 512 = Suc ((b + m) div 512)"
    by (simp add: div_Suc)
  moreover have "b div 512 \<le> (b + m) div 512"
    by (simp add: div_le_mono)
  ultimately show ?thesis
    using Suc by (auto simp: tables_for_def)
qed (simp add: tables_for_def)

lemma tkey_1_iff: "tkey va' 1 = tkey va 1 \<longleftrightarrow> vp va' div 512 = vp va div 512"
proof -
  have "tkey w 1 = drop_bit 9 (tkey w 0)" for w
    by (simp add: tkey_def)
  then have "unat (tkey w 1) = vp w div 512" for w
    by (simp add: vp_def drop_bit_eq_div unat_div_distrib)
  then show ?thesis
    by (simp add: word_unat_eq_iff)
qed

lemma tables_for_less: "tables_for b n \<le> n"
  by (induction n) (auto simp: tables_for_Suc, simp add: tables_for_def)

lemma tables_for_mono: "m \<le> n \<Longrightarrow> tables_for b m \<le> tables_for b n"
  by (auto simp: tables_for_def intro!: diff_le_mono div_le_mono)

text \<open>The page after the ones that have been reached: a table is added only where one ends.\<close>

lemma reserve_next:
  assumes inv: "pt_inv t" and a: "vp a = b + i"
    and prev: "i \<noteq> 0 \<Longrightarrow> walk t prev \<noteq> 0 \<and> vp prev = b + (i - 1)"
    and cost: "unat (next_free_page t) \<le> n0 + 2 * tables_for b i"
    and pool: "n0 + 2 * tables_for b (Suc i) \<le> unat (free_pages t)"
  shows "\<exists>p t'. walk_create a t = Some (p, t') \<and> unat (next_free_page t') \<le> n0 + 2 * tables_for b (Suc i)"
proof (cases "i \<noteq> 0 \<and> (b + i) div 512 = (b + (i - 1)) div 512")
  case True
  then have "walk t prev \<noteq> 0" "tkey a 1 = tkey prev 1"
    using prev by (auto simp: tkey_1_iff [unfolded One_nat_def] a)
  then show ?thesis
    using walk_create_neighbour(2) [OF inv] cost by (auto simp: tables_for_Suc)
next
  case False
  then have "tables_for b (Suc i) = tables_for b i + 1"
    by (auto simp: tables_for_Suc)
  then show ?thesis
    using walk_create_total [OF inv, of a] cost pool by force
qed

lemma unmap_page_pool:
  "unmap_page H a s = Some s' \<Longrightarrow> next_free_page s' = next_free_page s \<and> free_pages s' = free_pages s"
  by (auto simp: unmap_page_def Let_def split: if_splits)

lemma map_page_reaches:
  assumes inv: "vm_inv d e s" and r: "user_range a 4096" and c: "walk_create a s = Some (p, s1)"
  shows "\<exists>s'. map_page H v a s = Some s' \<and> free_pages s' = free_pages s \<and>
    next_free_page s' = next_free_page s1 \<and> walk s' a \<noteq> 0"
proof -
  note C = walk_create_inv [OF inv c]
  have fp: "free_pages s1 = free_pages s"
    using pt_frame_same(10) walk_create_spec [OF c vm_inv_pt(1) [OF inv]] by blast
  obtain s2 where s2: "(if ptmem s1 p \<noteq> 0 then unmap_page H a s1 else Some s1) = Some s2"
    "walk s2 a = walk s1 a" "vm_inv d e s2"
    using unmap_page_spec [of d e s1 H a] C by (cases "ptmem s1 p = 0") auto
  have q: "next_free_page s2 = next_free_page s1 \<and> free_pages s2 = free_pages s1"
    using s2(1) unmap_page_pool [of H a s1 s2] by (auto split: if_splits)
  have "walk s2 a \<noteq> 0" "p = walk s2 a"
    using s2(2) C by auto
  then have "walk (set_pte p v s2) a \<noteq> 0"
    using set_pte_spec [OF vm_inv_pt(1) [OF s2(3)], of a v] by auto
  then show ?thesis
    using c C s2 fp q by (auto simp: map_page_def munmap_one [OF r])
qed

lemma map_range_returns:
  assumes inv: "vm_inv d e s" and j: "j < MAX_VMR" and r: "user_range a len"
    and d: "d j = (unat len + 4095) div 4096"
    and pool: "unat (next_free_page s) + 2 * tables_for (unat a div 4096) ((unat len + 4095) div 4096)
      \<le> unat (free_pages s)"
  shows "\<exists>s'. page_for (map_page H (vmr_ptr s j)) a (a + len) s = Some s' \<and> vm_frame s s' \<and>
    free_pages s' = free_pages s \<and>
    unat (next_free_page s') \<le> unat (next_free_page s) +
      2 * tables_for (unat a div 4096) ((unat len + 4095) div 4096)"
proof -
  let ?n = "(unat len + 4095) div 4096" and ?b = "unat a div 4096" and ?used = "unat (next_free_page s)"
  let ?a = "\<lambda>i. a + of_nat i * RISCV_PGSIZE"
  let ?P = "\<lambda>i t. vm_inv (d(j := d j - i)) e t \<and> vm_frame s t \<and> free_pages t = free_pages s \<and>
    unat (next_free_page t) \<le> ?used + 2 * tables_for ?b i \<and> (i \<noteq> 0 \<longrightarrow> walk t (?a (i - 1)) \<noteq> 0)"
  note c = user_range_count [OF r]
  have "\<exists>s'. page_for (map_page H (vmr_ptr s j)) a (a + len) s = Some s' \<and> ?P (page_count a (a + len)) s'"
  proof (rule page_for_total [where P = ?P])
    show "?P 0 s" using inv by simp
    show "unat (a + len) \<le> 2 ^ 64 - 4096" by (rule c(3))
    fix i t
    assume i: "i < page_count a (a + len)" and P: "?P i t"
    have ur: "user_range (?a i) 4096" using user_range_page [OF r] i c(1) by simp
    have ptr: "vmr_ptr t = vmr_ptr s" using P by (intro vmr_ptr_cong) (simp add: vm_frame_def)
    have inv': "vm_inv (d(j := d j - i)) e t" using P by simp
    have vps: "vp (?a i) = ?b + i" "vp (?a (i - 1)) = ?b + (i - 1)"
      using nth_page(1) [OF r] i c(1) by simp_all
    have "tables_for ?b (Suc i) \<le> tables_for ?b ?n"
      using i c(1) by (intro tables_for_mono) simp
    then have room: "?used + 2 * tables_for ?b (Suc i) \<le> unat (free_pages t)"
      using P pool by simp
    have "\<exists>p t1. walk_create (?a i) t = Some (p, t1) \<and>
        unat (next_free_page t1) \<le> ?used + 2 * tables_for ?b (Suc i)"
      by (rule reserve_next [OF vm_inv_pt(1) [OF inv'] vps(1) _ _ room, where prev = "?a (i - 1)"])
        (use P vps(2) in blast)+
    then obtain p t1 where t1: "walk_create (?a i) t = Some (p, t1)"
      "unat (next_free_page t1) \<le> ?used + 2 * tables_for ?b (Suc i)"
      by blast
    obtain t' where t': "map_page H (vmr_ptr s j) (?a i) t = Some t'" "free_pages t' = free_pages t"
      "next_free_page t' = next_free_page t1" "walk t' (?a i) \<noteq> 0"
      using map_page_reaches [OF inv' ur t1(1)] by blast
    have "0 < (d(j := d j - i)) j" using i c(1) d by simp
    with map_page_spec [of "d(j := d j - i)" e t j "?a i" H t'] P j ur t'(1) ptr
    have "vm_inv (d(j := d j - Suc i)) e t' \<and> vm_frame t t'" by simp
    with P t' t1(2) vm_frame_trans [of s t t'] have "?P (Suc i) t'" by auto
    with t'(1) show "\<exists>s'. map_page H (vmr_ptr s j) (?a i) t = Some s' \<and> ?P (Suc i) s'" by blast
  qed
  then show ?thesis unfolding c(1) by blast
qed

end
