(* ===== verification/VmProps.thy ===== *)
theory VmProps
  imports VmCost
begin

text \<open>
  What the system calls on mappings guarantee: the search for a free range, mapping and
  unmapping, page faults, protection and the break, each with the invariant of
  \<^theory_text>\<open>VmInv\<close> before and after.
\<close>

abbreviation no_refs :: "nat \<Rightarrow> nat" where "no_refs \<equiv> (\<lambda>_. 0)"

subsection \<open>The search for a free range\<close>

lemma va_avail_iff: "va_avail s va \<longleftrightarrow> pte_at s va = 0"
  by (auto simp: va_avail_def pte_at_def Let_def)

text \<open>The \<open>i\<close>th page after an address.\<close>

definition pg :: "u64 \<Rightarrow> nat \<Rightarrow> u64" where
  "pg a i = a + of_nat i * RISCV_PGSIZE"

lemma pg_unat: "unat a + 4096 * i < 2 ^ 64 \<Longrightarrow> unat (pg a i) = unat a + 4096 * i"
proof -
  assume b: "unat a + 4096 * i < 2 ^ 64"
  then have "unat (of_nat i :: u64) = i" by (intro unat_of_nat64) linarith
  with b show ?thesis by (simp add: pg_def unat_word_ariths)
qed

lemma pg_Suc: "pg a i + RISCV_PGSIZE = pg a (Suc i)"
  by (simp add: pg_def algebra_simps)

lemma pg_add: "pg (pg a i) j = pg a (i + j)"
  by (simp add: pg_def algebra_simps)

lemma vm_alloc_down_spec:
  assumes "unat a + 4096 * n < 2 ^ 64"
  shows "\<exists>m \<le> n. vm_alloc_down s a (pg a n) = Some (pg a m) \<and>
    (\<forall>i. m < i \<longrightarrow> i \<le> n \<longrightarrow> va_avail s (pg a i)) \<and> (0 < m \<longrightarrow> \<not> va_avail s (pg a m))"
  using assms
proof (induction n)
  case 0
  have "pg a 0 = a" by (simp add: pg_def)
  then show ?case by (auto simp: vm_alloc_down.simps)
next
  case (Suc n)
  have lt: "pg a (Suc n) > a"
    using pg_unat [of a "Suc n"] Suc.prems by (simp add: word_less_nat_alt)
  have m: "pg a (Suc n) - RISCV_PGSIZE = pg a n" by (simp flip: pg_Suc)
  show ?case
  proof (cases "va_avail s (pg a (Suc n))")
    case True
    obtain k where "k \<le> n" "vm_alloc_down s a (pg a n) = Some (pg a k)"
      "\<forall>i. k < i \<longrightarrow> i \<le> n \<longrightarrow> va_avail s (pg a i)" "0 < k \<longrightarrow> \<not> va_avail s (pg a k)"
      using Suc by auto
    then show ?thesis
      using True lt m by (intro exI [of _ k]) (auto simp: vm_alloc_down.simps [of s a "pg a (Suc n)"] le_Suc_eq)
  next
    case False
    then show ?thesis
      by (intro exI [of _ "Suc n"]) (simp add: vm_alloc_down.simps [of s a "pg a (Suc n)"])
  qed
qed

text \<open>Candidate \<open>c\<close> is good when the \<open>n\<close> pages from it are free.\<close>

definition free_run :: "'h pk \<Rightarrow> u64 \<Rightarrow> nat \<Rightarrow> nat \<Rightarrow> bool" where
  "free_run s base n c \<longleftrightarrow> (\<forall>q < n. va_avail s (pg base (c + q)))"

lemma vm_alloc_loop_spec:
  assumes n: "unat npage = n" "0 < n" and fin: "unat fin = unat base + 4096 * N + k" "k < 4096"
    and nz: "base \<noteq> 0" and b: "unat fin + 4096 * (n + 1) < 2 ^ 64" and i: "i \<le> Suc N"
  shows "\<exists>r. vm_alloc_loop s npage (pg base i) fin = Some r \<and>
    (if r = 0 then \<forall>c. i \<le> c \<longrightarrow> c \<le> N \<longrightarrow> \<not> free_run s base n c
     else \<exists>c. i \<le> c \<and> c \<le> N \<and> r = pg base c \<and> free_run s base n c)"
  using i
proof (induction "Suc N - i" arbitrary: i rule: less_induct)
  case less
  have u: "unat (pg base j) = unat base + 4096 * j" if "j \<le> Suc N + n" for j
  proof -
    have "4096 * j \<le> 4096 * (Suc N + n)" using that by simp
    then show ?thesis using b fin by (intro pg_unat) simp
  qed
  have ui: "unat (pg base i) = unat base + 4096 * i" using less.prems by (intro u) simp
  show ?case
  proof (cases "i \<le> N")
    case False
    then have "\<not> pg base i \<le> fin"
      using ui fin less.prems by (simp add: word_le_nat_alt)
    then show ?thesis
      using False by (simp add: vm_alloc_loop.simps [of s npage "pg base i"])
  next
    case True
    then have le: "pg base i \<le> fin" using ui fin by (simp add: word_le_nat_alt)
    show ?thesis
    proof (cases "va_avail s (pg base i)")
      case False
      have "vm_alloc_loop s npage (pg base i) fin = vm_alloc_loop s npage (pg base (Suc i)) fin"
        using le False by (simp add: vm_alloc_loop.simps [of s npage "pg base i"] pg_Suc)
      moreover have "\<not> free_run s base n i"
        using False n(2) by (auto simp: free_run_def intro!: exI [of _ 0])
      moreover have "Suc N - Suc i < Suc N - i" "Suc i \<le> Suc N" using True by auto
      ultimately show ?thesis
        using less.hyps [of "Suc i"] by (metis Suc_leD Suc_leI le_neq_implies_less)
    next
      case av: True
      have last: "pg base i + (npage - 1) * RISCV_PGSIZE = pg (pg base i) (n - 1)"
      proof -
        have "npage = of_nat n" using n(1) by auto
        then have "npage - 1 = of_nat (n - 1)" using n(2) by (simp add: of_nat_diff)
        then show ?thesis by (simp add: pg_def)
      qed
      have "unat (pg base i) + 4096 * (n - 1) < 2 ^ 64"
      proof -
        have "4096 * i \<le> 4096 * N" "4096 * (n - 1) \<le> 4096 * (n + 1)" using True by simp_all
        then show ?thesis using ui b fin(1) by simp
      qed
      from vm_alloc_down_spec [OF this, of s]
      obtain m where m: "m \<le> n - 1" "vm_alloc_down s (pg base i) (pg (pg base i) (n - 1)) = Some (pg base (i + m))"
        and free: "\<forall>q. m < q \<longrightarrow> q \<le> n - 1 \<longrightarrow> va_avail s (pg base (i + q))"
        and stop: "0 < m \<longrightarrow> \<not> va_avail s (pg base (i + m))"
        unfolding pg_add by blast
      have um: "unat (pg base (i + m)) = unat base + 4096 * (i + m)" using m(1) True n(2) by (intro u) simp
      have step: "vm_alloc_loop s npage (pg base i) fin =
        (if pg base (i + m) > pg base i then vm_alloc_loop s npage (pg base (Suc (i + m))) fin
         else Some (pg base (i + m)))"
        using le av m(2) last by (simp add: vm_alloc_loop.simps [of s npage "pg base i"] Let_def pg_Suc)
      show ?thesis
      proof (cases "m = 0")
        case True
        have "free_run s base n i"
          unfolding free_run_def
        proof (intro allI impI)
          fix q assume "q < n"
          then show "va_avail s (pg base (i + q))"
            using av free True by (cases "q = 0") auto
        qed
        moreover have "pg base i \<noteq> 0"
          using ui nz by (auto simp: unat_eq_0 [symmetric])
        ultimately show ?thesis using True step \<open>i \<le> N\<close> by auto
      next
        case False
        then have gt: "pg base (i + m) > pg base i" using um ui by (simp add: word_less_nat_alt)
        have bad: "\<not> free_run s base n c" if "i \<le> c" "c \<le> i + m" for c
        proof -
          have "i + m = c + (i + m - c)" "i + m - c < n" using that m(1) n(2) by auto
          then show ?thesis using stop False unfolding free_run_def by (metis gr_zeroI)
        qed
        show ?thesis
        proof (cases "i + m \<le> N")
          case True
          then have "Suc N - Suc (i + m) < Suc N - i" "Suc (i + m) \<le> Suc N" by auto
          from less.hyps [OF this] obtain r where
            r: "vm_alloc_loop s npage (pg base (Suc (i + m))) fin = Some r"
            "if r = 0 then \<forall>c. Suc (i + m) \<le> c \<longrightarrow> c \<le> N \<longrightarrow> \<not> free_run s base n c
             else \<exists>c. Suc (i + m) \<le> c \<and> c \<le> N \<and> r = pg base c \<and> free_run s base n c"
            by blast
          have "if r = 0 then \<forall>c. i \<le> c \<longrightarrow> c \<le> N \<longrightarrow> \<not> free_run s base n c
             else \<exists>c. i \<le> c \<and> c \<le> N \<and> r = pg base c \<and> free_run s base n c"
          proof (cases "r = 0")
            case True
            then show ?thesis using r(2) bad by (metis not_less_eq_eq)
          next
            case False
            then obtain c where "Suc (i + m) \<le> c" "c \<le> N" "r = pg base c" "free_run s base n c"
              using r(2) by auto
            moreover have "i \<le> c" using \<open>Suc (i + m) \<le> c\<close> by simp
            ultimately have "\<exists>c. i \<le> c \<and> c \<le> N \<and> r = pg base c \<and> free_run s base n c" by blast
            with False show ?thesis by (simp only: if_False)
          qed
          then show ?thesis using step gt r(1) by auto
        next
          case f: False
          have "unat (pg base (Suc (i + m))) = unat base + 4096 * Suc (i + m)"
            using m(1) \<open>i \<le> N\<close> n(2) by (intro u) simp
          then have "\<not> pg base (Suc (i + m)) \<le> fin"
            using f fin by (simp add: word_le_nat_alt)
          then have "vm_alloc_loop s npage (pg base i) fin = Some 0"
            using step gt by (simp add: vm_alloc_loop.simps [of s npage "pg base (Suc (i + m))"])
          then show ?thesis using bad f by auto
        qed
      qed
    qed
  qed
qed

text \<open>The limits of the address space of a program, as \<^verbatim>\<open>pk_vm_init\<close> and \<^verbatim>\<open>load_elf\<close> leave them.\<close>

definition limits_ok :: "elf_info \<Rightarrow> bool" where
  "limits_ok c \<longleftrightarrow> unat (mmap_max c) \<le> 2 ^ 31 \<and> unat (mmap_max c) mod 4096 = 0 \<and>
     unat (brk c) mod 4096 = 0 \<and> brk c \<noteq> 0 \<and> unat (brk c) \<le> unat (mmap_max c)"

lemma mod_4096_obtain:
  assumes "unat (a :: u64) mod 4096 = 0"
  obtains q where "unat a = 4096 * q"
  using assms by (auto elim: dvdE simp: mod_eq_0_iff_dvd)

lemma vm_alloc_spec:
  assumes lim: "limits_ok (current s)" and n: "0 < unat npage"
    and fits: "4096 * unat npage \<le> unat (mmap_max (current s))"
  shows "\<exists>r. vm_alloc npage s = Some r \<and>
    (let lo = unat (brk (current s)); hi = unat (mmap_max (current s)); n = 4096 * unat npage
     in if r = 0
        then \<forall>a. unat a mod 4096 = 0 \<longrightarrow> lo \<le> unat a \<longrightarrow> unat a + n \<le> hi \<longrightarrow>
               \<not> free_run s a (unat npage) 0
        else lo \<le> unat r \<and> unat r + n \<le> hi \<and> unat r mod 4096 = 0 \<and> free_run s r (unat npage) 0)"
proof -
  let ?b = "brk (current s)" and ?m = "mmap_max (current s)" and ?n = "unat npage"
  let ?fin = "?m - npage * RISCV_PGSIZE"
  obtain qb where qb: "unat ?b = 4096 * qb" using lim by (auto simp: limits_ok_def elim: mod_4096_obtain)
  obtain qm where qm: "unat ?m = 4096 * qm" using lim by (auto simp: limits_ok_def elim: mod_4096_obtain)
  have m31: "unat ?m \<le> 2 ^ 31" and nz: "?b \<noteq> 0" using lim by (auto simp: limits_ok_def)
  have np: "unat (npage * RISCV_PGSIZE) = 4096 * ?n"
    using fits m31 by (simp add: unat_word_ariths)
  have fin: "unat ?fin = 4096 * (qm - ?n)"
  proof -
    have "npage * RISCV_PGSIZE \<le> ?m" using np fits by (simp add: word_le_nat_alt)
    then show ?thesis using np qm by (simp add: unat_sub diff_mult_distrib2)
  qed
  have run: "free_run s ?b ?n c \<longleftrightarrow> free_run s (pg ?b c) ?n 0" for c
    by (simp add: free_run_def pg_add)
  have v0: "vm_alloc npage s = vm_alloc_loop s npage (pg ?b 0) ?fin"
    by (simp add: vm_alloc_def pg_def)
  show ?thesis
  proof (cases "qb + ?n \<le> qm")
    case False
    then have "\<not> pg ?b 0 \<le> ?fin"
      using fin qb fits qm by (simp add: pg_def word_le_nat_alt)
    then have "vm_alloc npage s = Some 0"
      unfolding v0 by (simp add: vm_alloc_loop.simps)
    then show ?thesis using False qb qm by (auto simp: Let_def)
  next
    case True
    let ?N = "qm - ?n - qb"
    have "unat ?fin = unat ?b + 4096 * ?N + 0" using fin qb True by simp
    moreover have "unat ?fin + 4096 * (?n + 1) < 2 ^ 64" using fin fits qm m31 by simp
    ultimately obtain r where r: "vm_alloc npage s = Some r"
      and c: "if r = 0 then \<forall>c. 0 \<le> c \<longrightarrow> c \<le> ?N \<longrightarrow> \<not> free_run s ?b ?n c
             else \<exists>c. 0 \<le> c \<and> c \<le> ?N \<and> r = pg ?b c \<and> free_run s ?b ?n c"
      using vm_alloc_loop_spec [OF refl n, of ?fin ?b ?N 0 0 s] nz unfolding v0 by auto
    have u: "unat (pg ?b c) = 4096 * (qb + c)" if "c \<le> ?N" for c
      using that qb qm m31 True by (subst pg_unat) simp_all
    show ?thesis
    proof (cases "r = 0")
      case z: True
      have "\<not> free_run s a ?n 0" if a: "unat a mod 4096 = 0" "unat ?b \<le> unat a" "unat a + 4096 * ?n \<le> unat ?m" for a
      proof -
        obtain qa where qa: "unat a = 4096 * qa" by (rule mod_4096_obtain [OF a(1)])
        then have "qb \<le> qa" "qa - qb \<le> ?N" using a qb qm by auto
        moreover from this have "a = pg ?b (qa - qb)"
          using u [of "qa - qb"] qa by (simp add: word_unat_eq_iff)
        ultimately show ?thesis using c z run [of "qa - qb"] by simp
      qed
      then show ?thesis using r z by (simp add: Let_def)
    next
      case False
      then obtain c where "c \<le> ?N" "r = pg ?b c" "free_run s ?b ?n c" using c by auto
      then show ?thesis
        using False r u [of c] run [of c] qb qm True by (simp add: Let_def)
    qed
  qed
qed

subsection \<open>Mapping\<close>

lemma user_valid_range:
  assumes "unat (mmap_max (current s)) \<le> 2 ^ 31" and "a AND (RISCV_PGSIZE - 1) = 0"
    and "valid_user_range s a len"
  shows "user_range a len"
proof -
  have "\<not> a + len < a" "a + len \<le> mmap_max (current s)"
    using assms(3) by (auto simp: valid_user_range_def split: if_splits)
  then have "unat (a + len) = unat a + unat len" "unat (a + len) \<le> 2 ^ 31"
    using assms(1) by (simp_all add: no_wrap word_le_nat_alt)
  moreover have "unat a mod 4096 = 0"
    using assms(2) unat_and_4095 [of a] by simp
  ultimately show ?thesis by (simp add: user_range_def)
qed

lemma free_run_pages:
  assumes "pt_inv s" and "free_run s r n 0" and r: "user_range r len" and n: "n = (unat len + 4095) div 4096"
    and k: "k \<in> range_pages r len"
  shows "pmap s k = 0"
proof -
  let ?i = "k - unat r div 4096"
  have i: "?i < n" "unat r div 4096 + ?i = k" using k n by (auto simp: range_pages_def)
  then have "va_avail s (pg r ?i)" using assms(2) by (simp add: free_run_def)
  moreover have "vp (pg r ?i) = k" using nth_page(1) [OF r, of ?i] i n by (simp add: pg_def)
  ultimately show ?thesis using pmap_vp [OF assms(1), of "pg r ?i"] by (simp add: va_avail_iff)
qed

lemma printk_vm_inv:
  assumes "printk no_fault H fmt vl s = Some s'"
  shows "vm_inv d e s' = vm_inv d e s" "vm_frame s s'" "pmap s' = pmap s" "vmr_at s' = vmr_at s"
proof -
  have f: "files_frame s s'" by (rule vprintk_no_fault [OF assms])
  then show "vm_inv d e s' = vm_inv d e s" by (rule vm_inv_frame)
  have sv: "same_vm s s'" "fds s' = fds s" using f by (auto simp: files_frame_def)
  note sm = same_vmD [OF sv(1)]
  show "vm_frame s s'" by (simp add: vm_frame_def sm sv)
  show "pmap s' = pmap s" by (rule pmap_cong) (simp_all add: sm)
  show "vmr_at s' = vmr_at s" by (rule sm(3))
qed

lemma populate_pages_inv:
  assumes ret: "page_for (populate_page H prot) a lim s = Some s'" and inv: "vm_inv d e s"
  shows "vm_inv d e s' \<and> vm_frame s s' \<and> counts_le s s'"
proof (rule page_for_inv [where P = "\<lambda>t. vm_inv d e t \<and> vm_frame s t \<and> counts_le s t", OF ret])
  show "vm_inv d e s \<and> vm_frame s s \<and> counts_le s s" using inv by simp
  fix a t t'
  assume t: "vm_inv d e t \<and> vm_frame s t \<and> counts_le s t" and "populate_page H prot a t = Some t'"
  then obtain r where "handle_page_fault_locked H a prot t = Some (r, t')"
    by (auto simp: populate_page_def bind_Some_iff)
  with handle_page_fault_locked_spec [of d e t H a prot r t'] t vm_frame_trans [of s t t']
    counts_le_trans [of s t t']
  show "vm_inv d e t' \<and> vm_frame s t' \<and> counts_le s t'" by auto
qed

text \<open>What a successful mapping of a range is: every page points to one new record.\<close>

definition fresh_mapping ::
  "'h pk \<Rightarrow> 'h pk \<Rightarrow> u64 \<Rightarrow> u64 \<Rightarrow> vmr_t \<Rightarrow> bool" where
  "fresh_mapping s s' r len rec \<longleftrightarrow>
     (\<exists>j < MAX_VMR. v_refcnt (vmr_at s j) = 0 \<and> vmr_at s' j = rec \<and>
        (\<forall>k < NPAGES. pmap s' k = (if k \<in> range_pages r len then vmr_ptr s j else pmap s k)))"

lemma printk_counts: "printk no_fault H fmt vl s = Some s' \<Longrightarrow> f_refcnt s' = f_refcnt s"
  using vprintk_no_fault [of H fmt vl s s'] by (simp add: files_frame_def)

lemma do_mmap_locked_spec:
  assumes inv: "vm_inv d e s" and len: "len \<noteq> 0"
    and lim: "unat (mmap_max (current s)) \<le> 2 ^ 31"
    and how: "flags AND MAP_FIXED = 0 \<Longrightarrow>
        limits_ok (current s) \<and> unat len \<le> unat (mmap_max (current s))"
    and f: "\<And>g. file = Some g \<Longrightarrow> g < MAX_FILES \<and> unsaturated s g"
    and ret: "do_mmap_locked H addr0 len prot flags file off s = Some (r, s')"
  shows "vm_inv d e s' \<and> vm_frame s s' \<and>
    (\<forall>g < MAX_FILES. unat (f_refcnt s' g) \<le> unat (f_refcnt s g) + (if file = Some g then 1 else 0)) \<and>
    (if r = - 1 then \<forall>k < NPAGES. pmap s' k = pmap s k
     else user_range r len \<and> valid_user_range s r len \<and>
       (flags AND MAP_FIXED \<noteq> 0 \<longrightarrow> r = addr0) \<and>
       (flags AND MAP_FIXED = 0 \<longrightarrow> unat (brk (current s)) \<le> unat r \<and>
          (\<forall>k \<in> range_pages r len. pmap s k = 0)) \<and>
       (demand_paging s \<and> flags AND MAP_POPULATE = 0 \<longrightarrow>
          fresh_mapping s s' r len \<lparr>v_addr = r, v_length = len, v_file = file, v_offset = off,
            v_refcnt = ucast ((len - 1) div RISCV_PGSIZE + 1), v_prot = prot\<rparr>))"
proof -
  let ?np = "(len - 1) div RISCV_PGSIZE + 1"
  let ?rec = "\<lambda>a. \<lparr>v_addr = a, v_length = len, v_file = file, v_offset = off,
            v_refcnt = ucast ?np, v_prot = prot\<rparr>"
  have np: "unat ?np = (unat len + 4095) div 4096"
  proof -
    have l: "0 < unat len" using len by (simp add: unat_gt_0)
    have "unat (len - 1) = unat len - 1" using len by (rule unat_minus_one)
    then have d: "unat ((len - 1) div RISCV_PGSIZE) = (unat len - 1) div 4096"
      by (simp add: unat_div_distrib)
    have "unat len < 2 ^ 64" by (rule unat_lt64)
    then have "unat ?np = (unat len - 1) div 4096 + 1"
      using d by (simp add: unat_word_ariths)
    also have "\<dots> = (unat len - 1 + 4096) div 4096" by simp
    finally show ?thesis using l by simp
  qed
  have m1: "\<not> user_range (- 1) len"
    by (simp add: user_range_def unsigned_minus_1_eq_mask mask_eq_exp_minus_1)
  obtain addr where addr: "(if flags AND MAP_FIXED \<noteq> 0 then Some addr0 else vm_alloc ?np s) = Some addr"
    using ret by (auto simp: do_mmap_locked_def Let_def bind_Some_iff)
  have A: "(flags AND MAP_FIXED \<noteq> 0 \<longrightarrow> addr = addr0) \<and> (flags AND MAP_FIXED = 0 \<and> addr \<noteq> 0 \<longrightarrow>
      user_range addr len \<and> valid_user_range s addr len \<and> unat (brk (current s)) \<le> unat addr \<and>
      (\<forall>k \<in> range_pages addr len. pmap s k = 0))"
  proof (cases "flags AND MAP_FIXED = 0 \<and> addr \<noteq> 0")
    case False
    then show ?thesis using addr by auto
  next
    case True
    have va: "vm_alloc ?np s = Some addr" using addr True by simp
    have lo: "limits_ok (current s)" and ll: "unat len \<le> unat (mmap_max (current s))"
      using how True by auto
    obtain q where q: "unat (mmap_max (current s)) = 4096 * q"
      using lo by (auto simp: limits_ok_def elim: mod_4096_obtain)
    have fits: "4096 * unat ?np \<le> unat (mmap_max (current s))"
      using ll q unfolding np by simp
    have n0: "0 < unat ?np" unfolding np using len by (simp add: unat_gt_0 div_greater_zero_iff Suc_le_eq)
    have P: "unat (brk (current s)) \<le> unat addr" "unat addr + 4096 * unat ?np \<le> unat (mmap_max (current s))"
      "unat addr mod 4096 = 0" "free_run s addr (unat ?np) 0"
      using vm_alloc_spec [OF lo n0 fits] va True by (auto simp: Let_def)
    have "unat len \<le> 4096 * unat ?np" unfolding np by simp
    then have a2: "unat addr + unat len \<le> unat (mmap_max (current s))" using P(2) by linarith
    then have ur: "user_range addr len" using P(3) lim by (simp add: user_range_def)
    moreover have "valid_user_range s addr len"
      using user_range_count(2) [OF ur] a2
      by (simp add: valid_user_range_def word_less_nat_alt word_le_nat_alt)
    ultimately show ?thesis
      using True P(1) free_run_pages [OF vm_inv_pt(1) [OF inv] P(4) ur np] by auto
  qed
  show ?thesis
  proof (cases "(flags AND MAP_FIXED \<noteq> 0 \<and> (addr AND (RISCV_PGSIZE - 1) \<noteq> 0 \<or> \<not> valid_user_range s addr len))
      \<or> (flags AND MAP_FIXED = 0 \<and> addr = 0)")
    case True
    then obtain fmt vl where "printk no_fault H fmt vl s = Some s'" and "r = - 1"
      using ret addr by (auto simp: do_mmap_locked_def Let_def bind_Some_iff split: if_splits)
    then show ?thesis using printk_vm_inv [of H fmt vl s s'] printk_counts [of H fmt vl s s'] inv by simp
  next
    case False
    have ur: "user_range addr len" and vr: "valid_user_range s addr len"
      using A False user_valid_range [OF lim, of addr len] by auto
    have n32: "unat (ucast ?np :: u32) = (unat len + 4095) div 4096"
    proof -
      have "unat len \<le> 2 ^ 31" using ur by (simp add: user_range_def)
      then have "(unat len + 4095) div 4096 < 2 ^ 32" by simp
      then show ?thesis using np by (simp add: unsigned_ucast_eq take_bit_nat_eq_self)
    qed
    have n0: "(ucast ?np :: u32) \<noteq> 0"
    proof
      assume "(ucast ?np :: u32) = 0"
      then have "(unat len + 4095) div 4096 = 0" using n32 by simp
      then have "unat len = 0" by simp
      with len show False by (simp add: unat_eq_0)
    qed
    obtain v s1 where v: "vmr_alloc addr len file off (ucast ?np) prot s = Some (v, s1)"
      using ret addr False by (auto simp: do_mmap_locked_def Let_def bind_Some_iff split: if_splits)
    note V = vmr_alloc_spec [OF inv n0 f v]
    show ?thesis
    proof (cases "v = 0")
      case True
      then have "s1 = s" using V by simp
      then obtain fmt vl where "printk no_fault H fmt vl s = Some s'" and "r = - 1"
        using ret addr False v True by (auto simp: do_mmap_locked_def Let_def bind_Some_iff)
      then show ?thesis using printk_vm_inv [of H fmt vl s s'] printk_counts [of H fmt vl s s'] inv by simp
    next
      case nz: False
      then obtain j where j: "j < MAX_VMR" "v = vmr_ptr s j" "v_refcnt (vmr_at s j) = 0" "d j = 0"
        and new: "\<forall>k < NPAGES. pmap s k \<noteq> vmr_ptr s j"
        and i1: "vm_inv (d(j := unat (ucast ?np :: u32))) e s1" and pm: "pmap s1 = pmap s"
        and cnt: "\<forall>g. unat (f_refcnt s1 g) \<le> unat (f_refcnt s g) + (if file = Some g then 1 else 0)"
        and fr: "vm_frame s s1" and rec: "vmr_at s1 = (vmr_at s)(j := ?rec addr)"
        using V by auto
      have ptr: "vmr_ptr s1 = vmr_ptr s" using fr by (intro vmr_ptr_cong) (simp add: vm_frame_def)
      obtain s2 where s2: "page_for (map_page H (vmr_ptr s1 j)) addr (addr + len) s1 = Some s2"
        and s3: "(if \<not> demand_paging s2 \<or> flags AND MAP_POPULATE \<noteq> 0
             then page_for (populate_page H prot) addr (addr + len) s2 else Some s2) = Some s'"
        and r: "r = addr"
        using ret addr False v nz j(2) ptr
        by (auto simp: do_mmap_locked_def Let_def bind_Some_iff)
      have M: "vm_inv ((d(j := unat (ucast ?np :: u32)))(j := 0)) e s2 \<and> vm_frame s1 s2 \<and>
        (\<forall>k < NPAGES. pmap s2 k = (if k \<in> range_pages addr len then vmr_ptr s1 j else pmap s1 k)) \<and>
        vmr_at s2 j = vmr_at s1 j \<and> counts_le s1 s2"
        by (rule map_range_spec [OF i1 j(1) ur _ s2]) (use n32 new in \<open>auto simp: pm ptr\<close>)
      have dd: "(d(j := unat (ucast ?np :: u32)))(j := 0) = d" using j(4) by auto
      have dp: "demand_paging s2 = demand_paging s" using M fr by (simp add: vm_frame_def)
      have "vm_inv d e s' \<and> vm_frame s2 s' \<and> counts_le s2 s'"
        using s3 populate_pages_inv [of H prot addr "addr + len" s2 s' d e] M unfolding dd
        by (auto split: if_splits)
      moreover from this have "\<forall>g < MAX_FILES. unat (f_refcnt s' g) \<le>
          unat (f_refcnt s g) + (if file = Some g then 1 else 0)"
        using M cnt unfolding counts_le_def by (meson order_trans)
      moreover have "vm_frame s s2" using M fr vm_frame_trans by blast
      moreover have "fresh_mapping s s' r len (?rec r)" if "demand_paging s" "flags AND MAP_POPULATE = 0"
        using that s3 dp M j rec r ptr pm unfolding fresh_mapping_def by auto
      moreover have "r \<noteq> - 1" using ur m1 r by auto
      ultimately show ?thesis
        using ur vr A False vm_frame_trans [of s s2 s'] unfolding r by auto
    qed
  qed
qed

lemma spinlock_lock_iff: "spinlock_lock s = Some t \<longleftrightarrow> \<not> vm_lock s \<and> t = s\<lparr>vm_lock := True\<rparr>"
  by (auto simp: spinlock_lock_def)

lemma pmap_upd [simp]:
  "pmap (s\<lparr>vm_lock := b\<rparr>) = pmap s" "pmap (s\<lparr>current := c\<rparr>) = pmap s"
  "pmap (file_decref H f s) = pmap s" "pmap (spinlock_unlock s) = pmap s"
  "pmap (s\<lparr>f_refcnt := r\<rparr>) = pmap s" "pmap (s\<lparr>mem := m\<rparr>) = pmap s"
  by (rule pmap_cong; simp add: spinlock_unlock_def)+

lemma vmr_ptr_upd [simp]:
  "vmr_ptr (s\<lparr>vm_lock := b\<rparr>) = vmr_ptr s" "vmr_ptr (s\<lparr>f_refcnt := r\<rparr>) = vmr_ptr s"
  by (rule vmr_ptr_cong; simp)+

lemma vm_inv_unlock [simp]: "vm_inv d e (spinlock_unlock s) = vm_inv d e s"
  by (simp add: spinlock_unlock_def)

lemma vm_inv_decref:
  assumes "vm_inv d e s" and "f < MAX_FILES" and "0 < e f"
  shows "vm_inv d (e(f := e f - 1)) (file_decref H f s)"
  using assms file_decref_inv [of e s f H] same_vm_maps [OF file_decref_frame(4), of d H f s]
  by (simp add: vm_inv_def)

lemma vm_inv_get:
  assumes "vm_inv d e s" and "file_get fd s = (r, s')" and "\<And>f. f < MAX_FILES \<Longrightarrow> unsaturated s f"
  shows "case r of None \<Rightarrow> s' = s
         | Some f \<Rightarrow> f < MAX_FILES \<and> vm_inv d (e(f := Suc (e f))) s' \<and> same_vm s s' \<and> fds s' = fds s"
  using assms file_get_inv [of e s fd r s'] same_vm_maps [of s s' d]
  by (auto simp: vm_inv_def split: option.splits)

text \<open>Counts two below saturation: \<^verbatim>\<open>mmap\<close> of a file takes two references.\<close>

definition counts_ok :: "'h pk \<Rightarrow> bool" where
  "counts_ok s \<longleftrightarrow> (\<forall>f < MAX_FILES. unat (f_refcnt s f) + 2 < 2 ^ 32)"

lemma counts_okD: "counts_ok s \<Longrightarrow> f < MAX_FILES \<Longrightarrow> unsaturated s f"
  by (auto simp: counts_ok_def unsaturated_def)

lemma file_get_unsaturated:
  assumes "counts_ok s" and "file_get fd s = (Some f, s')" and "f < MAX_FILES"
  shows "unsaturated s' f"
proof -
  have "unat (f_refcnt s f) + 2 < 2 ^ 32" using assms(1,3) by (simp add: counts_ok_def)
  moreover have "f_refcnt s' f = f_refcnt s f + 1"
    using assms(2) by (auto simp: file_get_def Let_def split: if_splits option.splits)
  ultimately show ?thesis by (simp add: unsaturated_def unat_word_ariths)
qed

lemma same_vm_pmap: "same_vm s s' \<Longrightarrow> pmap s' = pmap s"
  by (rule pmap_cong) (simp_all add: same_vmD)

lemma do_mmap_spec:
  assumes inv: "vm_inv no_refs no_refs s" and cnt: "counts_ok s"
    and lim: "unat (mmap_max (current s)) \<le> 2 ^ 31"
    and small: "flags AND MAP_FIXED = 0 \<Longrightarrow>
        limits_ok (current s) \<and> unat len \<le> unat (mmap_max (current s))"
    and ret: "do_mmap H addr len prot flags fd offset s = Some (r, s')"
  shows "vm_inv no_refs no_refs s' \<and> vm_lock s' = vm_lock s \<and> fds s' = fds s \<and>
    (if r \<in> {- EINVAL, - EBADF, - 1}
     then current s' = current s \<and> (\<forall>k < NPAGES. pmap s' k = pmap s k)
     else user_range r len \<and> valid_user_range s r len \<and>
       current s' = (current s)\<lparr>brk_max := (if r < brk_max (current s) then r else brk_max (current s))\<rparr> \<and>
       (flags AND MAP_FIXED \<noteq> 0 \<longrightarrow> r = addr) \<and>
       (flags AND MAP_FIXED = 0 \<longrightarrow> unat (brk (current s)) \<le> unat r \<and>
          (\<forall>k \<in> range_pages r len. pmap s k = 0)) \<and>
       (demand_paging s \<and> flags AND MAP_POPULATE = 0 \<longrightarrow>
          (\<exists>f. (f = None \<longleftrightarrow> flags AND MAP_ANONYMOUS \<noteq> 0) \<and>
             fresh_mapping s s' r len \<lparr>v_addr = r, v_length = len, v_file = f, v_offset = offset,
               v_refcnt = ucast ((len - 1) div RISCV_PGSIZE + 1), v_prot = prot\<rparr>)))"
proof (cases "flags AND MAP_PRIVATE = 0 \<or> len = 0 \<or> offset AND (RISCV_PGSIZE - 1) \<noteq> 0")
  case True
  then show ?thesis using ret inv by (auto simp: do_mmap_def)
next
  case False
  obtain f s1 where g: "(if flags AND MAP_ANONYMOUS = 0 then file_get fd s else (None, s)) = (f, s1)"
    by fastforce
  show ?thesis
  proof (cases "flags AND MAP_ANONYMOUS = 0 \<and> f = None")
    case True
    then have "s1 = s" using g vm_inv_get [OF inv _ counts_okD [OF cnt], of fd f s1] by simp
    then show ?thesis using ret g False True inv by (auto simp: do_mmap_def)
  next
    case nf: False
    define e1 where "e1 = (case f of None \<Rightarrow> no_refs | Some f \<Rightarrow> no_refs(f := 1))"
    have G: "vm_inv no_refs e1 s1" "same_vm s s1" "fds s1 = fds s"
      "\<And>h. f = Some h \<Longrightarrow> h < MAX_FILES \<and> unsaturated s1 h"
      using g nf inv vm_inv_get [OF inv _ counts_okD [OF cnt], of fd f s1]
        file_get_unsaturated [OF cnt, of fd _ s1]
      by (auto simp: e1_def split: if_splits option.splits)
    note sm = same_vmD [OF G(2)]
    obtain r' s3 where L: "\<not> vm_lock s1"
      and M: "do_mmap_locked H addr len prot flags f offset (s1\<lparr>vm_lock := True\<rparr>) = Some (r', s3)"
      and r: "r' = r" and s': "s' = (case f of None \<Rightarrow> id | Some f \<Rightarrow> file_decref H f)
        (spinlock_unlock (if r < brk_max (current s3)
                        then s3\<lparr>current := (current s3)\<lparr>brk_max := r\<rparr>\<rparr> else s3))"
      using ret g False nf
      by (auto simp: do_mmap_def Let_def bind_Some_iff spinlock_lock_iff split: option.splits)
    have lim31: "unat (mmap_max (current (s1\<lparr>vm_lock := True\<rparr>))) \<le> 2 ^ 31"
      using lim by (simp add: sm)
    have R: "vm_inv no_refs e1 s3 \<and> vm_frame (s1\<lparr>vm_lock := True\<rparr>) s3 \<and>
      (if r = - 1 then \<forall>k < NPAGES. pmap s3 k = pmap s1 k
       else user_range r len \<and> valid_user_range (s1\<lparr>vm_lock := True\<rparr>) r len \<and>
       (flags AND MAP_FIXED \<noteq> 0 \<longrightarrow> r = addr) \<and>
       (flags AND MAP_FIXED = 0 \<longrightarrow> unat (brk (current s1)) \<le> unat r \<and>
          (\<forall>k \<in> range_pages r len. pmap s1 k = 0)) \<and>
       (demand_paging s1 \<and> flags AND MAP_POPULATE = 0 \<longrightarrow>
          fresh_mapping (s1\<lparr>vm_lock := True\<rparr>) s3 r len \<lparr>v_addr = r, v_length = len, v_file = f,
            v_offset = offset, v_refcnt = ucast ((len - 1) div RISCV_PGSIZE + 1), v_prot = prot\<rparr>))"
      using do_mmap_locked_spec [of no_refs e1 "s1\<lparr>vm_lock := True\<rparr>", OF _ _ lim31 _ _ M] G(1,4)
        False small lim sm(11)
      unfolding r by (auto simp: unsaturated_def)
    have i4: "vm_inv no_refs e1 (spinlock_unlock (if r < brk_max (current s3)
                        then s3\<lparr>current := (current s3)\<lparr>brk_max := r\<rparr>\<rparr> else s3))" (is "vm_inv _ _ ?s4")
      using R by simp
    have inv': "vm_inv no_refs no_refs s'"
    proof (cases f)
      case None
      then show ?thesis using i4 s' by (simp add: e1_def)
    next
      case (Some h)
      with i4 have "vm_inv no_refs (no_refs(h := 1)) ?s4" by (simp add: e1_def)
      then have "vm_inv no_refs ((no_refs(h := 1))(h := (no_refs(h := 1)) h - 1)) (file_decref H h ?s4)"
        using G(4) [OF Some] by (intro vm_inv_decref) auto
      moreover have "(no_refs(h := 1))(h := (no_refs(h := 1)) h - 1) = no_refs" by auto
      ultimately have "vm_inv no_refs no_refs (file_decref H h ?s4)" by (simp only:)
      then show ?thesis using s' Some by simp
    qed
    have sel: "pmap s' = pmap s3" "vmr_at s' = vmr_at s3" "fds s' = fds s3" "vm_lock s' = False"
      "current s' = (if r < brk_max (current s3) then (current s3)\<lparr>brk_max := r\<rparr> else current s3)"
      unfolding s' by (cases f; simp add: spinlock_unlock_def)+
    have pm: "pmap s1 = pmap s" and ptr: "vmr_ptr s1 = vmr_ptr s"
      using same_vm_pmap [OF G(2)] sm(2) by (auto intro: vmr_ptr_cong)
    have cur: "current s3 = current s" "fds s3 = fds s" using R G(3) sm(11) by (auto simp: vm_frame_def)
    have val: "valid_user_range (s1\<lparr>vm_lock := True\<rparr>) = valid_user_range s"
      by (rule valid_range_cong) (simp add: sm(11))
    have noerr: "\<not> user_range x len" if "x \<in> {- EINVAL, - EBADF, - 1}" for x
    proof -
      have "unat (- EINVAL) = 2 ^ 64 - 22" "unat (- EBADF) = 2 ^ 64 - 9" "unat (- 1 :: u64) = 2 ^ 64 - 1"
        by (simp_all add: unsigned_minus_1_eq_mask mask_eq_exp_minus_1)
      then show ?thesis using that by (auto simp: user_range_def)
    qed
    have fm: "fresh_mapping (s1\<lparr>vm_lock := True\<rparr>) s3 r len x = fresh_mapping s s' r len x" for x
      by (simp add: fresh_mapping_def sel pm ptr sm(3))
    show ?thesis
    proof (cases "r = - 1")
      case True
      have "\<not> r < brk_max (current s3)" using True word_order.extremum_strict by simp
      then show ?thesis using True inv' R sel cur pm L sm(1) by simp
    next
      case nz: False
      then have "user_range r len" using R by simp
      then have "r \<notin> {- EINVAL, - EBADF, - 1}" using noerr by blast
      then have ne: "(r \<in> {- EINVAL, - EBADF, - 1}) = False" by simp
      have R2: "user_range r len \<and> valid_user_range s r len \<and>
       (flags AND MAP_FIXED \<noteq> 0 \<longrightarrow> r = addr) \<and>
       (flags AND MAP_FIXED = 0 \<longrightarrow> unat (brk (current s)) \<le> unat r \<and>
          (\<forall>k \<in> range_pages r len. pmap s k = 0)) \<and>
       (demand_paging s \<and> flags AND MAP_POPULATE = 0 \<longrightarrow>
          fresh_mapping s s' r len \<lparr>v_addr = r, v_length = len, v_file = f,
            v_offset = offset, v_refcnt = ucast ((len - 1) div RISCV_PGSIZE + 1), v_prot = prot\<rparr>)"
        using R nz unfolding val fm pm sm(8,11) if_not_P [OF nz] by blast
      have fx: "(f = None) = (flags AND MAP_ANONYMOUS \<noteq> 0)"
        using g nf by (auto split: if_splits)
      have cs: "current s' = (current s)\<lparr>brk_max := if r < brk_max (current s) then r else brk_max (current s)\<rparr>"
        using sel(5) cur by simp
      have "vm_lock s' = vm_lock s" "fds s' = fds s" using sel cur L sm(1) by simp_all
      with R2 fx cs inv' show ?thesis unfolding ne if_False by blast
    qed
  qed
qed


subsection \<open>Unmapping\<close>

text \<open>
  C3. \<^verbatim>\<open>munmap\<close> returns on every range when the lock is free.  A range that is not page
  aligned or leaves the program's address space gets \<^verbatim>\<open>-EINVAL\<close> and nothing changes;
  otherwise the answer is 0 and afterwards exactly the pages of the range are unmapped,
  all others keep their entries, and all invariants hold: no mapping record and no file
  is left with a count that does not match its references.
\<close>

theorem munmap_clears_range:
  assumes inv: "vm_inv no_refs no_refs s" and lock: "\<not> vm_lock s"
    and lim: "unat (mmap_max (current s)) \<le> 2 ^ 31"
  shows "if unat addr mod 4096 \<noteq> 0 \<or> \<not> valid_user_range s addr len
    then do_munmap H addr len s = Some (- 22, s)
    else \<exists>s'. do_munmap H addr len s = Some (0, s') \<and> vm_inv no_refs no_refs s' \<and> \<not> vm_lock s' \<and>
       current s' = current s \<and> fds s' = fds s \<and>
       (\<forall>k < NPAGES. pmap s' k = (if k \<in> range_pages addr len then 0 else pmap s k))"
proof -
  have al: "unat addr mod 4096 \<noteq> 0 \<longleftrightarrow> addr AND (RISCV_PGSIZE - 1) \<noteq> 0"
    using unat_and_4095 [of addr] unat_eq_0 [of "addr AND 4095"] by simp
  show ?thesis
  proof (cases "unat addr mod 4096 \<noteq> 0 \<or> \<not> valid_user_range s addr len")
    case True
    then show ?thesis unfolding al by (simp add: do_munmap_def)
  next
    case False
    then have ur: "user_range addr len"
      using user_valid_range [OF lim] al by blast
    obtain s' where s': "do_munmap_locked H addr len (s\<lparr>vm_lock := True\<rparr>) = Some s'"
      "vm_inv no_refs no_refs s'" "vm_frame (s\<lparr>vm_lock := True\<rparr>) s'"
      "\<forall>k < NPAGES. pmap s' k = (if k \<in> range_pages addr len then 0 else pmap s k)"
      using do_munmap_locked_spec [of no_refs no_refs "s\<lparr>vm_lock := True\<rparr>" addr len H, OF _ ur] inv by auto
    have "do_munmap H addr len s = Some (0, spinlock_unlock s')"
      using False lock s'(1) unfolding al by (simp add: do_munmap_def spinlock_lock_def)
    moreover have "current (spinlock_unlock s') = current s" "fds (spinlock_unlock s') = fds s"
      "\<not> vm_lock (spinlock_unlock s')"
      using s'(3) by (simp_all add: spinlock_unlock_def vm_frame_def)
    ultimately show ?thesis using False s'(2,4) by auto
  qed
qed

subsection \<open>Page faults\<close>

lemma fault_spec:
  assumes inv: "vm_inv no_refs no_refs s"
    and ret: "handle_page_fault H va prot s = Some (r, s')"
  shows "vm_inv no_refs no_refs s' \<and> \<not> vm_lock s' \<and> current s' = current s \<and> fds s' = fds s \<and>
    (\<forall>k < NPAGES. k \<noteq> vp va \<longrightarrow> pmap s' k = pmap s k) \<and>
    (r = 0 \<longleftrightarrow> pmap s (vp va) \<noteq> 0 \<and> valid_user_range s (page_base va) 1 \<and>
       permits (pmap s' (vp va)) prot) \<and>
    (if lazy (pmap s (vp va)) \<and> valid_user_range s (page_base va) 1
     then \<exists>j < MAX_VMR. pmap s (vp va) = vmr_ptr s j \<and>
            pmap s' (vp va) = paged_pte s (page_base va) (vmr_at s j)
     else pmap s' (vp va) = pmap s (vp va))"
proof -
  obtain t where L: "\<not> vm_lock s"
    and t: "handle_page_fault_locked H va prot (s\<lparr>vm_lock := True\<rparr>) = Some (r, t)"
    and s': "s' = spinlock_unlock t"
    using ret by (auto simp: handle_page_fault_def bind_Some_iff spinlock_lock_iff)
  have val: "valid_user_range (s\<lparr>vm_lock := True\<rparr>) = valid_user_range s"
    by (rule valid_range_cong) simp
  have pp: "paged_pte (s\<lparr>vm_lock := True\<rparr>) = paged_pte s"
    by (simp add: paged_pte_def fun_eq_iff)
  have i: "vm_inv no_refs no_refs (s\<lparr>vm_lock := True\<rparr>)" using inv by simp
  have va: "vmr_at (s\<lparr>vm_lock := True\<rparr>) = vmr_at s" by simp
  note S = handle_page_fault_locked_spec [OF i t, unfolded val pp va vmr_ptr_upd pmap_upd]
  have pm: "pmap s' = pmap t" by (simp add: s')
  have lz: "lazy (pmap s (vp va)) \<Longrightarrow> pmap s (vp va) \<noteq> 0" by (simp add: lazy_def)
  have fr: "\<not> vm_lock s'" "current s' = current s" "fds s' = fds s" "vm_inv no_refs no_refs s'"
    using S by (simp_all add: s' spinlock_unlock_def vm_frame_def)
  have ne: "(- 1 :: u32) \<noteq> 0" by simp
  show ?thesis
  proof (cases "pmap s (vp va) = 0 \<or> \<not> valid_user_range s (page_base va) 1")
    case True
    then have "r = - 1" "t = s\<lparr>vm_lock := True\<rparr>" using S by auto
    then have "pmap s' = pmap s" by (simp add: pm)
    then show ?thesis using True fr lz \<open>r = - 1\<close> by auto
  next
    case False
    then have R: "(if lazy (pmap s (vp va))
           then \<exists>j < MAX_VMR. pmap s (vp va) = vmr_ptr s j \<and>
                  pmap t (vp va) = paged_pte s (page_base va) (vmr_at s j)
           else t = s\<lparr>vm_lock := True\<rparr>) \<and> r = (if permits (pmap t (vp va)) prot then 0 else - 1)"
      using S by simp
    then have "r = 0 \<longleftrightarrow> permits (pmap s' (vp va)) prot" by (simp add: pm)
    moreover have "\<forall>k < NPAGES. k \<noteq> vp va \<longrightarrow> pmap s' k = pmap s k" using S by (simp add: pm)
    moreover have "if lazy (pmap s (vp va)) then \<exists>j < MAX_VMR. pmap s (vp va) = vmr_ptr s j \<and>
            pmap s' (vp va) = paged_pte s (page_base va) (vmr_at s j)
     else pmap s' (vp va) = pmap s (vp va)"
      using R unfolding pm by (auto split: if_splits)
    ultimately show ?thesis using False fr by simp
  qed
qed

text \<open>
  C4. A page fault, whenever its handler returns: the lock is free, all invariants hold and
  no page but the faulting one changes.  The answer is 0 exactly when the page was mapped,
  lies in the program's address space and its entry now permits the access; a page that
  was only recorded now has a valid entry for the frame at the fixed offset of its
  address, with the rights of its record.
\<close>

theorem page_fault_resolves:
  assumes inv: "vm_inv no_refs no_refs s"
    and ret: "handle_page_fault H va prot s = Some (r, s')"
  shows "vm_inv no_refs no_refs s' \<and> \<not> vm_lock s' \<and> current s' = current s \<and> fds s' = fds s \<and>
    (\<forall>k < NPAGES. k \<noteq> vp va \<longrightarrow> pmap s' k = pmap s k) \<and>
    (r = 0 \<longleftrightarrow> pmap s (vp va) \<noteq> 0 \<and> valid_user_range s (page_base va) 1 \<and>
       permits (pmap s' (vp va)) prot) \<and>
    (if lazy (pmap s (vp va)) \<and> valid_user_range s (page_base va) 1
     then \<exists>j < MAX_VMR. pmap s (vp va) = vmr_ptr s j \<and>
            pmap s' (vp va) = paged_pte s (page_base va) (vmr_at s j)
     else pmap s' (vp va) = pmap s (vp va))"
  by (rule fault_spec [OF assms])

lemma fill_in: "i < n \<Longrightarrow> n < 2 ^ 64 \<Longrightarrow> fill m d b n (d + of_nat i) = b"
  by (simp add: fill_def unat_of_nat64)

lemma page_base_user:
  assumes "valid_user_range s (page_base va) 1" and "unat (mmap_max (current s)) \<le> 2 ^ 31"
  shows "unat (page_base va) < 2 ^ 31" "\<not> DRAM_BASE \<le> page_base va"
proof -
  have "\<not> page_base va + 1 < page_base va" "page_base va + 1 \<le> mmap_max (current s)"
    using assms(1) by (auto simp: valid_user_range_def split: if_splits)
  then show u: "unat (page_base va) < 2 ^ 31"
    using no_wrap [of "page_base va" 1] assms(2) by (simp add: word_le_nat_alt)
  then show "\<not> DRAM_BASE \<le> page_base va" by (simp add: word_le_nat_alt)
qed

lemma anon_fault:
  assumes inv: "vm_inv no_refs no_refs s" and lock: "\<not> vm_lock s"
    and j: "j < MAX_VMR" "pmap s (vp va) = vmr_ptr s j" "v_file (vmr_at s j) = None"
    and usr: "valid_user_range s (page_base va) 1" and lim: "unat (mmap_max (current s)) \<le> 2 ^ 31"
    and ffp: "unat (first_free_paddr s) + 2 ^ 31 + 4096 < 2 ^ 64"
  shows "\<exists>s'. handle_page_fault H va prot s =
      Some (if permits (paged_pte s (page_base va) (vmr_at s j)) prot then 0 else - 1, s') \<and>
    hst s' = hst s \<and> mem s' = fill (mem s) (page_base va + first_free_paddr s) 0 4096 \<and>
    (\<forall>i < 4096. mem s' (page_base va + first_free_paddr s + of_nat i) = 0) \<and> vm_frame s s' \<and>
    vmr_at s' = (vmr_at s)(j := (vmr_at s j)\<lparr>v_refcnt := v_refcnt (vmr_at s j) - 1\<rparr>)"
proof -
  let ?s = "s\<lparr>vm_lock := True\<rparr>" and ?b = "page_base va" and ?v = "vmr_ptr s j"
  let ?p = "walk s ?b"
  define x where "x = pte_create (drop_bit RISCV_PGSHIFT ?b + first_free_paddr s div RISCV_PGSIZE)
    (prot_to_type (PROT_READ OR PROT_WRITE) False)"
  define s1 where "s1 = set_pte ?p x ?s"
  have i: "vm_inv no_refs no_refs ?s" using inv by simp
  note pt = vm_inv_pt(1) [OF inv] and rc = vm_inv_pt(2) [OF inv]
  have lz: "lazy ?v" by (rule vmr_ptr_lazy [OF rc j(1)])
  have at: "pte_at s ?b = ?v" using pmap_vp [OF pt, of ?b] j(2) by simp
  have w: "?p \<noteq> 0" "ptmem s ?p = ?v"
    using at lz by (auto simp: pte_at_def lazy_def split: if_splits)
  have idx: "vmr_idx s1 ?v = j" using vmr_idx_ptr [OF rc j(1)] by (simp add: vmr_idx_def s1_def)
  have b: "unat ?b < 2 ^ 31" "\<not> DRAM_BASE \<le> ?b" using page_base_user [OF usr lim] by auto
  have pa: "va2pa s1 ?b = ?b + first_free_paddr s" using b(2) by (simp add: va2pa_def s1_def)
  have sum: "unat (?b + first_free_paddr s) + unat RISCV_PGSIZE < 2 ^ 64"
    using b(1) ffp by (simp add: unat_word_ariths)
  have fetch: "fetch_page H (vmr_at s1 (vmr_idx s1 ?v)) ?b s1 =
      Some (s1\<lparr>mem := fill (mem s) (?b + first_free_paddr s) 0 4096\<rparr>)"
    using j(3) memset_fill [OF sum, of "mem s" 0] unfolding idx fetch_page_def pa
    by (simp add: s1_def)
  define s2 where "s2 = s1\<lparr>mem := fill (mem s) (?b + first_free_paddr s) 0 4096\<rparr>"
  define s3 where "s3 = vmr_decref H ?v 1 s2"
  have idx2: "vmr_idx s2 ?v = j" "vmr_idx s3 ?v = j"
    using idx by (simp_all add: vmr_idx_def s2_def s3_def)
  have "v_file (vmr_at s2 j) = None" using j(3) by (simp add: s2_def s1_def)
  then have s3: "s3 = s2\<lparr>vmr_at := (vmr_at s2)(j := (vmr_at s2 j)\<lparr>v_refcnt := v_refcnt (vmr_at s2 j) - 1\<rparr>)\<rparr>"
    by (simp add: s3_def vmr_decref_def Let_def idx2(1))
  define s4 where "s4 = set_pte ?p (paged_pte s ?b (vmr_at s j)) s3"
  have wl: "walk ?s ?b = ?p" by (simp add: walk_def)
  have pi: "page_in H ?b ?p ?s = Some s4"
  proof -
    have "ptmem ?s ?p = ?v" using w by simp
    moreover have "v_prot (vmr_at s3 (vmr_idx s3 ?v)) = v_prot (vmr_at s j)"
      by (simp only: idx2(2)) (simp add: s3 s2_def s1_def)
    moreover have "first_free_paddr ?s = first_free_paddr s" by simp
    moreover note fetch [folded s2_def]
    ultimately show ?thesis
      unfolding page_in_def Let_def s4_def paged_pte_def
      by (simp only: x_def [symmetric] s1_def [symmetric] s3_def [symmetric] Option.bind_lunit)
  qed
  have "handle_page_fault_locked H va prot ?s =
      Some (if permits (paged_pte s ?b (vmr_at s j)) prot then 0 else - 1, s4)"
  proof -
    have "ptmem ?s ?p \<noteq> 0" "ptmem ?s ?p AND PTE_V = 0" using w(2) lz by (auto simp: lazy_def)
    moreover have "valid_user_range ?s ?b 1" using usr valid_range_cong [of ?s s] by simp
    moreover have "ptmem s4 ?p = paged_pte s ?b (vmr_at s j)" by (simp add: s4_def set_pte_def)
    ultimately show ?thesis
      using w(1) pi by (simp add: handle_page_fault_locked_alt Let_def wl)
  qed
  then have "handle_page_fault H va prot s =
      Some (if permits (paged_pte s ?b (vmr_at s j)) prot then 0 else - 1, spinlock_unlock s4)"
    using lock by (simp add: handle_page_fault_def spinlock_lock_def)
  moreover have "mem (spinlock_unlock s4) = fill (mem s) (?b + first_free_paddr s) 0 4096"
    "hst (spinlock_unlock s4) = hst s"
    by (simp_all add: spinlock_unlock_def s4_def s3 s2_def s1_def)
  moreover have "vm_frame s (spinlock_unlock s4) \<and> vmr_at (spinlock_unlock s4) =
      (vmr_at s)(j := (vmr_at s j)\<lparr>v_refcnt := v_refcnt (vmr_at s j) - 1\<rparr>)"
    using lock by (simp add: spinlock_unlock_def s4_def s3 s2_def s1_def vm_frame_def)
  ultimately show ?thesis by (simp add: fill_in)
qed

text \<open>
  C16. A fault on a page of an anonymous mapping always returns when the lock is free, never
  asks the host, fills exactly the 4096 bytes of the page's frame with zero, and answers 0
  exactly when the mapping's protection permits the access.
\<close>

theorem anonymous_fault_zero_fills:
  assumes inv: "vm_inv no_refs no_refs s" and lock: "\<not> vm_lock s"
    and j: "j < MAX_VMR" "pmap s (vp va) = vmr_ptr s j" "v_file (vmr_at s j) = None"
    and usr: "valid_user_range s (page_base va) 1" and lim: "unat (mmap_max (current s)) \<le> 2 ^ 31"
    and ffp: "unat (first_free_paddr s) + 2 ^ 31 + 4096 < 2 ^ 64"
  shows "\<exists>s'. handle_page_fault H va prot s =
      Some (if permits (paged_pte s (page_base va) (vmr_at s j)) prot then 0 else - 1, s') \<and>
    hst s' = hst s \<and> mem s' = fill (mem s) (page_base va + first_free_paddr s) 0 4096 \<and>
    (\<forall>i < 4096. mem s' (page_base va + first_free_paddr s + of_nat i) = 0)"
  using anon_fault [OF assms, of H prot] by blast

subsection \<open>Protection\<close>

text \<open>How one page and the records may have changed when the loop has passed them.\<close>

definition demoted :: "u32 \<Rightarrow> u64 \<Rightarrow> u64 \<Rightarrow> bool" where
  "demoted prot x y \<longleftrightarrow> x AND PTE_U \<noteq> 0 \<and> (\<exists>t. y = pte_create (pte_ppn x) t) \<and>
     (x AND PTE_W = 0 \<longrightarrow> prot AND PROT_WRITE = 0) \<and> (x AND PTE_X = 0 \<longrightarrow> prot AND PROT_EXEC = 0)"

definition recs_demoted :: "u32 \<Rightarrow> 'h pk \<Rightarrow> 'h pk \<Rightarrow> bool" where
  "recs_demoted prot s t \<longleftrightarrow> (\<forall>j. v_prot (vmr_at t j) = v_prot (vmr_at s j) \<or>
     v_prot (vmr_at t j) = prot \<and> prot AND NOT (v_prot (vmr_at s j)) = 0)"

lemma mprotect_loop_spec:
  assumes r: "user_range addr len" and i: "i \<le> (unat len + 4095) div 4096"
    and inv: "vm_inv d e t" and fr: "vm_frame s t" and rec: "recs_demoted prot s t"
    and pm: "\<forall>k < NPAGES. pmap t k = pmap s k \<or>
      (k \<in> range_pages addr len \<and> k < unat addr div 4096 + i \<and> demoted prot (pmap s k) (pmap t k))"
    and ret: "mprotect_loop prot (pg addr i) (addr + len) t = Some (res, s')"
  shows "vm_inv d e s' \<and> vm_frame s s' \<and> recs_demoted prot s s' \<and>
    (\<forall>k < NPAGES. pmap s' k = pmap s k \<or>
      (k \<in> range_pages addr len \<and> demoted prot (pmap s k) (pmap s' k)))"
  using i inv fr rec pm ret
proof (induction "(unat len + 4095) div 4096 - i" arbitrary: i t)
  case 0
  then have "i = (unat len + 4095) div 4096" by simp
  then have "unat len \<le> 4096 * i" "4096 * i \<le> unat len + 4095" by simp_all
  then have "\<not> pg addr i < addr + len"
    using pg_unat [of addr i] user_range_count(2) [OF r] r
    by (simp add: word_less_nat_alt user_range_def)
  then have "s' = t" using 0 by (simp add: mprotect_loop.simps)
  with 0 show ?case by blast
next
  case (Suc n)
  then have i: "i < (unat len + 4095) div 4096" by simp
  note np = nth_page [OF r i, folded pg_def]
  have lt: "pg addr i < addr + len"
    using np(2,3) user_range_count(2) [OF r] by (simp add: word_less_nat_alt)
  obtain q t1 where st: "mprotect_page prot (pg addr i) t = (q, t1)" by fastforce
  note S = mprotect_page_spec [OF Suc.prems(2) st]
  have k: "vp (pg addr i) \<in> range_pages addr len" "vp (pg addr i) = unat addr div 4096 + i"
    using np(1) i by (auto simp: range_pages_def)
  have fr1: "vm_frame s t1" using S Suc.prems(3) vm_frame_trans by blast
  have rec1: "recs_demoted prot s t1"
    unfolding recs_demoted_def
  proof (intro allI)
    fix j
    have "vmr_at t1 j = vmr_at t j \<or>
       vmr_at t1 j = (vmr_at t j)\<lparr>v_prot := prot\<rparr> \<and> prot AND NOT (v_prot (vmr_at t j)) = 0"
      using S by blast
    moreover have "v_prot (vmr_at t j) = v_prot (vmr_at s j) \<or>
     v_prot (vmr_at t j) = prot \<and> prot AND NOT (v_prot (vmr_at s j)) = 0"
      using Suc.prems(4) by (simp add: recs_demoted_def)
    ultimately show "v_prot (vmr_at t1 j) = v_prot (vmr_at s j) \<or>
     v_prot (vmr_at t1 j) = prot \<and> prot AND NOT (v_prot (vmr_at s j)) = 0" by auto
  qed
  have pm1: "pmap t1 k = pmap s k \<or>
      (k \<in> range_pages addr len \<and> k < unat addr div 4096 + Suc i \<and> demoted prot (pmap s k) (pmap t1 k))"
    if kn: "k < NPAGES" for k
  proof (cases "k = vp (pg addr i)")
    case False
    then have "pmap t1 k = pmap t k" using S kn by blast
    with Suc.prems(5) kn show ?thesis by auto
  next
    case True
    then have e: "pmap t k = pmap s k" using Suc.prems(5) kn k(2) by auto
    show ?thesis
    proof (cases "pmap t1 k = pmap t k")
      case True
      then show ?thesis using e by simp
    next
      case False
      then have "demoted prot (pmap t k) (pmap t1 k)"
        using S unfolding True demoted_def by auto
      then show ?thesis using True k e by simp
    qed
  qed
  show ?case
  proof (cases "q \<noteq> 0")
    case True
    then have "s' = t1" using Suc.prems(6) lt st by (simp add: mprotect_loop.simps [of prot "pg addr i"])
    then show ?thesis using S fr1 rec1 pm1 by blast
  next
    case False
    then have l: "mprotect_loop prot (pg addr (Suc i)) (addr + len) t1 = Some (res, s')"
      using Suc.prems(6) lt st by (simp add: mprotect_loop.simps [of prot "pg addr i"] pg_Suc)
    have "n = (unat len + 4095) div 4096 - Suc i" using Suc.hyps(2) by simp
    from Suc.hyps(1) [OF this _ _ fr1 rec1 _ l] pm1 S i show ?thesis by simp
  qed
qed


subsection \<open>The break\<close>

lemma roundup_unat:
  assumes "unat a \<le> 2 ^ 32"
  shows "unat (ROUNDUP a RISCV_PGSIZE) = (unat a + 4095) div 4096 * 4096"
proof (cases "a = 0")
  case True
  then show ?thesis by (simp add: ROUNDUP_def)
next
  case False
  have u: "unat (a - 1) = unat a - 1" using False by (rule unat_minus_one)
  then have d: "unat ((a - 1) div RISCV_PGSIZE) = (unat a - 1) div 4096"
    by (simp add: unat_div_distrib)
  have "unat a > 0" using False by (simp add: unat_gt_0)
  then have "(unat a - 1) div 4096 + 1 = (unat a + 4095) div 4096" by simp
  moreover have "(unat a + 4095) div 4096 * 4096 < 2 ^ 64" using assms by simp
  ultimately show ?thesis
    using d unfolding ROUNDUP_def by (simp add: unat_word_ariths)
qed

text \<open>The limits the break needs: \<^verbatim>\<open>load_elf\<close> leaves \<^verbatim>\<open>brk\<close> 0, \<^verbatim>\<open>brk\<close> sets it.\<close>

definition brk_limits :: "elf_info \<Rightarrow> bool" where
  "brk_limits c \<longleftrightarrow> unat (mmap_max c) \<le> 2 ^ 31 \<and> unat (brk_max c) \<le> 2 ^ 31 \<and>
     unat (brk_max c) mod 4096 = 0 \<and> brk_min c \<le> brk_max c \<and>
     unat (brk c) mod 4096 = 0 \<and> unat (brk c) \<le> 2 ^ 31"

definition brk_clamp :: "elf_info \<Rightarrow> u64 \<Rightarrow> u64" where
  "brk_clamp c a = min (max a (brk_min c)) (brk_max c)"

text \<open>The pages between the two breaks, when it grows and when it shrinks.\<close>

definition brk_pages :: "u64 \<Rightarrow> u64 \<Rightarrow> 'h pk \<Rightarrow> 'h pk \<Rightarrow> bool" where
  "brk_pages old new s s' \<longleftrightarrow>
     (new \<le> old \<longrightarrow> (\<forall>k < NPAGES. pmap s' k =
        (if k \<in> range_pages new (old - new) then 0 else pmap s k))) \<and>
     (old < new \<and> demand_paging s \<longrightarrow>
        (\<forall>k < NPAGES. k \<notin> range_pages old (new - old) \<longrightarrow> pmap s' k = pmap s k) \<and>
        (\<forall>k \<in> range_pages old (new - old). lazy (pmap s' k)))"

lemma brk_range:
  assumes "a \<le> b" and "unat a mod 4096 = 0" and "unat b \<le> 2 ^ 31"
  shows "user_range a (b - a)"
proof -
  have "unat (b - a) = unat b - unat a" using assms(1) by (rule unat_sub)
  moreover have "unat a \<le> unat b" using assms(1) by (simp add: word_le_nat_alt)
  ultimately show ?thesis using assms(2,3) by (simp add: user_range_def)
qed

lemma range_pages_less:
  assumes "user_range a len" and "k \<in> range_pages a len"
  shows "k < NPAGES"
proof -
  have "k < unat a div 4096 + (unat len + 4095) div 4096" using assms(2) by (simp add: range_pages_def)
  then show ?thesis using assms(1) by (auto simp: user_range_def)
qed

lemma move_brk_spec:
  assumes inv: "vm_inv d e s" and lim: "unat (mmap_max (current s)) \<le> 2 ^ 31"
    and old: "unat (brk (current s)) mod 4096 = 0" "unat (brk (current s)) \<le> 2 ^ 31"
    and new: "unat new mod 4096 = 0" "unat new \<le> 2 ^ 31"
    and ret: "move_brk H new s = Some s'"
  shows "vm_inv d e s' \<and> vm_frame s s' \<and> brk_pages (brk (current s)) new s s'"
proof -
  let ?old = "brk (current s)"
  consider (shrink) "new < ?old" | (grow) "?old < new" | (same) "?old = new"
    by (metis linorder_neqE)
  then show ?thesis
  proof cases
    case shrink
    then have ur: "user_range new (?old - new)" using new old by (intro brk_range) simp_all
    have "do_munmap_locked H new (?old - new) s = Some s'" using ret shrink by (simp add: move_brk_def)
    with do_munmap_locked_spec [OF inv ur, of H] shrink show ?thesis by (auto simp: brk_pages_def)
  next
    case grow
    then have "\<not> new < ?old" by simp
    with ret grow obtain r where m: "do_mmap_locked H ?old (new - ?old) (- 1)
         (MAP_FIXED OR MAP_PRIVATE OR MAP_ANONYMOUS) None 0 s = Some (r, s')" and r: "r = brk (current s')"
      by (auto simp: move_brk_def bind_Some_iff)
    have ln: "new - ?old \<noteq> 0" using grow by auto
    have fl: "(MAP_FIXED OR MAP_PRIVATE OR MAP_ANONYMOUS) AND MAP_FIXED \<noteq> 0"
      "(MAP_FIXED OR MAP_PRIVATE OR MAP_ANONYMOUS) AND MAP_POPULATE = 0" by simp_all
    note M = do_mmap_locked_spec [OF inv ln lim _ _ m]
    have fr: "vm_inv d e s' \<and> vm_frame s s'" using M fl by simp
    then have "brk (current s') = ?old" by (simp add: vm_frame_def)
    have "r \<noteq> - 1"
    proof
      assume "r = - 1"
      then have "unat ?old = unat (- 1 :: u64)" using r \<open>brk (current s') = ?old\<close> by simp
      then show False using old by (simp add: unsigned_minus_1_eq_mask mask_eq_exp_minus_1)
    qed
    then have fm: "demand_paging s \<Longrightarrow> \<exists>rec. fresh_mapping s s' ?old (new - ?old) rec"
      and ur: "user_range ?old (new - ?old)"
      using M fl r \<open>brk (current s') = ?old\<close> by auto
    have "brk_pages ?old new s s'"
    proof (cases "demand_paging s")
      case False
      moreover have "\<not> new \<le> ?old" using grow by simp
      ultimately show ?thesis by (simp add: brk_pages_def)
    next
      case True
      then obtain rec j where "j < MAX_VMR"
        "\<forall>k < NPAGES. pmap s' k = (if k \<in> range_pages ?old (new - ?old) then vmr_ptr s j else pmap s k)"
        using fm by (auto simp: fresh_mapping_def)
      then show ?thesis
        using grow vmr_ptr_lazy [OF vm_inv_pt(2) [OF inv]] range_pages_less [OF ur]
        by (auto simp: brk_pages_def)
    qed
    with fr show ?thesis by simp
  next
    case same
    then have "s' = s" using ret by (simp add: move_brk_def)
    moreover have "range_pages new (?old - new) = {}" using same by (auto simp: range_pages_def)
    ultimately show ?thesis using inv same by (simp add: brk_pages_def)
  qed
qed

text \<open>What \<^verbatim>\<open>__do_brk\<close> takes for the new break, whatever the order of the limits.\<close>

definition brk_target :: "elf_info \<Rightarrow> u64 \<Rightarrow> u64" where
  "brk_target c a = (if a < brk_min c then brk_min c else if a > brk_max c then brk_max c else a)"

lemma do_brk_spec:
  assumes inv: "vm_inv no_refs no_refs s"
    and lim: "unat (mmap_max (current s)) \<le> 2 ^ 31" "unat (brk_max (current s)) \<le> 2 ^ 31"
      "unat (brk_min (current s)) \<le> 2 ^ 31" "unat (brk (current s)) mod 4096 = 0"
      "unat (brk (current s)) \<le> 2 ^ 31"
    and ret: "do_brk H addr s = Some (r, s')"
  shows "let c = current s;
      old = (if brk c = 0 then ROUNDUP (brk_min c) RISCV_PGSIZE else brk c);
      new = ROUNDUP r RISCV_PGSIZE
    in r = brk_target c addr \<and> current s' = c\<lparr>brk := new\<rparr> \<and> vm_inv no_refs no_refs s' \<and>
       \<not> vm_lock s' \<and> fds s' = fds s \<and> brk_pages old new s s'"
proof -
  let ?c = "current s"
  define n where "n = brk_target ?c addr"
  let ?new = "ROUNDUP n RISCV_PGSIZE"
  define old where "old = (if brk ?c = 0 then ROUNDUP (brk_min ?c) RISCV_PGSIZE else brk ?c)"
  define s1 where "s1 = (if brk ?c = 0
    then s\<lparr>vm_lock := True, current := ?c\<lparr>brk := ROUNDUP (brk_min ?c) RISCV_PGSIZE\<rparr>\<rparr>
    else s\<lparr>vm_lock := True\<rparr>)"
  obtain t where L: "\<not> vm_lock s" and t: "do_brk_locked H addr (s\<lparr>vm_lock := True\<rparr>) = Some (r, t)"
    and s': "s' = spinlock_unlock t"
    using ret by (auto simp: do_brk_def bind_Some_iff spinlock_lock_iff)
  have "do_brk_locked H addr (s\<lparr>vm_lock := True\<rparr>) =
    do { s2 \<leftarrow> move_brk H ?new s1; Some (n, s2\<lparr>current := (current s2)\<lparr>brk := ?new\<rparr>\<rparr>) }"
    by (simp add: do_brk_locked_def s1_def n_def brk_target_def Let_def)
  then obtain s2 where s2: "move_brk H ?new s1 = Some s2" and r: "r = n"
    and tt: "t = s2\<lparr>current := (current s2)\<lparr>brk := ?new\<rparr>\<rparr>"
    by (cases "move_brk H ?new s1") (use t in auto)
  have sel: "brk (current s1) = old" "unat (mmap_max (current s1)) \<le> 2 ^ 31" "fds s1 = fds s"
    "demand_paging s1 = demand_paging s"
    using lim by (simp_all add: s1_def old_def)
  have cur: "(current s1)\<lparr>brk := x\<rparr> = ?c\<lparr>brk := x\<rparr>" for x by (simp add: s1_def)
  have i1: "vm_inv no_refs no_refs s1" and pm1: "pmap s1 = pmap s"
    using inv by (simp_all add: s1_def)
  have le: "unat n \<le> 2 ^ 31"
    using lim(2,3) by (auto simp: n_def brk_target_def word_le_nat_alt not_less)
  have R: "unat (ROUNDUP a RISCV_PGSIZE) mod 4096 = 0 \<and> unat (ROUNDUP a RISCV_PGSIZE) \<le> 2 ^ 31"
    if "unat a \<le> 2 ^ 31" for a
    using that roundup_unat [of a] by simp
  have rn: "unat ?new mod 4096 = 0" "unat ?new \<le> 2 ^ 31" using R [of n] le by simp_all
  have ro: "unat old mod 4096 = 0" "unat old \<le> 2 ^ 31"
    using lim R [OF lim(3)] by (simp_all add: old_def)
  have M: "vm_inv no_refs no_refs s2 \<and> vm_frame s1 s2 \<and> brk_pages old ?new s1 s2"
    using move_brk_spec [OF i1 sel(2) _ _ rn s2] ro unfolding sel(1) by blast
  have "pmap s' = pmap s2" by (simp add: s' tt)
  then have "brk_pages old ?new s s'"
    using M by (simp add: brk_pages_def pm1 sel)
  moreover have "current s' = ?c\<lparr>brk := ?new\<rparr>" "\<not> vm_lock s'" "fds s' = fds s"
    using M by (simp_all add: s' tt spinlock_unlock_def vm_frame_def cur sel)
  moreover have "vm_inv no_refs no_refs s'" using M by (simp add: s' tt)
  ultimately show ?thesis unfolding Let_def r n_def [symmetric] old_def by blast
qed


subsection \<open>Mapping returns\<close>

lemma mmap_fixed_locked:
  assumes inv: "vm_inv no_refs no_refs s" and dp: "demand_paging s"
    and r: "user_range addr len" "valid_user_range s addr len" "len \<noteq> 0"
    and free: "j < MAX_VMR" "v_refcnt (vmr_at s j) = 0"
    and pool: "unat (next_free_page s) + 2 * tables_for (unat addr div 4096) ((unat len + 4095) div 4096)
      \<le> unat (free_pages s)"
  shows "\<exists>s'. do_mmap_locked H addr len prot (MAP_PRIVATE OR MAP_ANONYMOUS OR MAP_FIXED) None 0 s = Some (addr, s') \<and>
    free_pages s' = free_pages s \<and> unat (next_free_page s') \<le> unat (next_free_page s) +
      2 * tables_for (unat addr div 4096) ((unat len + 4095) div 4096)"
proof -
  let ?np = "(len - 1) div RISCV_PGSIZE + 1"
  have al: "addr AND (RISCV_PGSIZE - 1) = 0"
    using unat_and_4095 [of addr] unat_eq_0 [of "addr AND 4095"] r(1) by (simp add: user_range_def)
  have np: "unat (ucast ?np :: u32) = (unat len + 4095) div 4096"
  proof -
    have "unat (len - 1) = unat len - 1" using r(3) by (rule unat_minus_one)
    then have d: "unat ((len - 1) div RISCV_PGSIZE) = (unat len - 1) div 4096"
      by (simp add: unat_div_distrib)
    have l: "0 < unat len" "unat len \<le> 2 ^ 31" using r(1,3) by (auto simp: unat_gt_0 user_range_def)
    have "unat ?np = (unat len - 1) div 4096 + 1" using d l by (simp add: unat_word_ariths)
    also have "\<dots> = (unat len + 4095) div 4096" using l by simp
    finally have u: "unat ?np = (unat len + 4095) div 4096" .
    have "(unat len + 4095) div 4096 < 2 ^ 32" using l by simp
    then show ?thesis using u by (simp add: unsigned_ucast_eq take_bit_nat_eq_self)
  qed
  have n0: "(ucast ?np :: u32) \<noteq> 0"
  proof
    assume "(ucast ?np :: u32) = 0"
    then have "(unat len + 4095) div 4096 = 0" using np by simp
    then have "unat len = 0" by simp
    with r(3) show False by (simp add: unat_eq_0)
  qed
  have rc: "recs_ok s" using vm_inv_pt(2) [OF inv] .
  then have tb: "vmr_table s = Some s" by (simp add: vmr_table_def recs_ok_def)
  have "scan_from (\<lambda>j. v_refcnt (vmr_at s j) = 0) 0 MAX_VMR \<noteq> None"
    using scan_from_NoneD [of "\<lambda>j. v_refcnt (vmr_at s j) = 0" 0 MAX_VMR j] free by auto
  then obtain i' where sc: "scan_from (\<lambda>j. v_refcnt (vmr_at s j) = 0) 0 MAX_VMR = Some i'" by blast
  let ?rec = "\<lparr>v_addr = addr, v_length = len, v_file = None, v_offset = 0,
                     v_refcnt = ucast ?np, v_prot = prot\<rparr>"
  let ?s1 = "s\<lparr>vmr_at := (vmr_at s)(i' := ?rec)\<rparr>"
  have va: "vmr_alloc addr len None 0 (ucast ?np) prot s = Some (vmr_ptr s i', ?s1)"
    using tb sc by (simp add: vmr_alloc_def)
  have i': "i' < MAX_VMR" using scan_from_SomeD [OF sc] by simp
  have nz: "vmr_ptr s i' \<noteq> 0" using vmr_ptr_lazy [OF rc i'] by (simp add: lazy_def)
  have i1: "vm_inv (no_refs(i' := (unat len + 4095) div 4096)) no_refs ?s1"
    using vmr_alloc_spec [OF inv n0 _ va] nz vmr_ptr_inj [OF rc i'] unfolding np by auto
  have ptr: "vmr_ptr ?s1 i' = vmr_ptr s i'" by (simp add: vmr_ptr_def)
  obtain s2 where s2: "page_for (map_page H (vmr_ptr s i')) addr (addr + len) ?s1 = Some s2"
    and fr: "vm_frame ?s1 s2" "free_pages s2 = free_pages s" "unat (next_free_page s2) \<le>
      unat (next_free_page s) + 2 * tables_for (unat addr div 4096) ((unat len + 4095) div 4096)"
    using map_range_returns [OF i1 i' r(1), of H] pool unfolding ptr by auto
  from fr(1) have dp2: "demand_paging s2" using dp by (simp add: vm_frame_def)
  show ?thesis
    using al r(2) va nz s2 dp2 fr(2,3) by (simp add: do_mmap_locked_def Let_def)
qed

lemma mmap_fixed_total:
  assumes inv: "vm_inv no_refs no_refs s" and lock: "\<not> vm_lock s" and dp: "demand_paging s"
    and r: "user_range addr len" "valid_user_range s addr len" "len \<noteq> 0"
    and free: "j < MAX_VMR" "v_refcnt (vmr_at s j) = 0"
    and pool: "unat (next_free_page s) + 2 * ((unat len + 4095) div 4096) \<le> unat (free_pages s)"
  shows "\<exists>s'. do_mmap H addr len prot (MAP_PRIVATE OR MAP_ANONYMOUS OR MAP_FIXED) fd 0 s = Some (addr, s')"
proof -
  let ?s = "s\<lparr>vm_lock := True\<rparr>"
  have "vm_inv no_refs no_refs ?s" "demand_paging ?s" "v_refcnt (vmr_at ?s j) = 0"
    using inv dp free by simp_all
  moreover have "valid_user_range ?s addr len"
    using r(2) valid_range_cong [of ?s s] by simp
  moreover have "unat (next_free_page ?s) + 2 * tables_for (unat addr div 4096) ((unat len + 4095) div 4096)
      \<le> unat (free_pages ?s)"
    using pool tables_for_less [of "unat addr div 4096" "(unat len + 4095) div 4096"] by simp
  ultimately obtain s' where "do_mmap_locked H addr len prot (MAP_PRIVATE OR MAP_ANONYMOUS OR MAP_FIXED) None 0 ?s
      = Some (addr, s')"
    using mmap_fixed_locked [of ?s addr len j H prot] r free(1) by blast
  then show ?thesis
    using r(3) lock by (simp add: do_mmap_def Let_def spinlock_lock_def)
qed

text \<open>
  C15. \<^verbatim>\<open>mmap\<close> at a fixed address always returns that address, for an anonymous mapping with
  demand paging: when the lock is free, the range lies in the program's address space,
  some mapping record is unused and the page pool holds two pages for each page of the
  range (at most two tables are missing on the way to a page).
\<close>

theorem mmap_fixed_returns:
  assumes "vm_inv no_refs no_refs s" and "\<not> vm_lock s" and "demand_paging s"
    and "user_range addr len" and "valid_user_range s addr len" and "len \<noteq> 0"
    and "j < MAX_VMR" and "v_refcnt (vmr_at s j) = 0"
    and "unat (next_free_page s) + 2 * ((unat len + 4095) div 4096) \<le> unat (free_pages s)"
  shows "\<exists>s'. do_mmap H addr len prot (MAP_PRIVATE OR MAP_ANONYMOUS OR MAP_FIXED) fd 0 s = Some (addr, s')"
  by (rule mmap_fixed_total [OF assms])

subsection \<open>A concrete address space\<close>

lemma sample_pt_sel:
  "v_refcnt (vmr_at sample_pt j) = 0" "vm_lock sample_pt = False" "demand_paging sample_pt"
  "mmap_max (current sample_pt) = 0x7FFFF000" "brk (current sample_pt) = 0x20000"
  "brk_max (current sample_pt) = 0x30000" "brk_min (current sample_pt) = 0x20000"
  "next_free_page sample_pt = 2" "free_pages sample_pt = 128"
  "first_free_paddr sample_pt = 0x80200000"
  "f_refcnt sample_pt f = (if f = 5 then 2 else 0)"
  by (simp_all add: sample_pt_def sample_pk_def sample_elf_def)

lemma sample_vm_inv: "vm_inv no_refs no_refs sample_pt"
proof -
  have z: "pmap sample_pt k = 0" for k
    by (simp add: pmap_def pte_at_def walk_def sample_pt_def sample_pk_def numeral_2_eq_2)
  have rc: "recs_ok sample_pt" by (simp add: recs_ok_def sample_pt_def sample_pk_def)
  have "tally NPAGES (\<lambda>k. pmap sample_pt k = vmr_ptr sample_pt j) = 0" if "j < MAX_VMR" for j
    using vmr_ptr_lazy [OF rc that] by (intro tally_zero) (simp add: z lazy_def)
  then have "maps_inv no_refs sample_pt"
    unfolding maps_inv_def using sample_pt_inv rc by (simp add: z sample_pt_sel)
  moreover have "files_inv no_refs sample_pt"
    using sample_files_inv files_inv_cong [of sample_pt sample_pk no_refs] by (simp add: sample_pt_def)
  ultimately show ?thesis by (simp add: vm_inv_def)
qed

lemma sample_counts: "counts_ok sample_pt"
  by (simp add: counts_ok_def sample_pt_sel)

lemma sample_limits: "limits_ok (current sample_pt)" "brk_limits (current sample_pt)"
  "unat (mmap_max (current sample_pt)) \<le> 2 ^ 31"
  by (simp_all add: limits_ok_def brk_limits_def sample_pt_sel)

lemma sample_range: "user_range 0x10000 0x2000" "valid_user_range sample_pt 0x10000 0x2000"
  by (simp_all add: user_range_def valid_user_range_def sample_pt_sel)

text \<open>Mapping two pages at 0x10000.\<close>

lemma sample_mmap:
  "\<exists>s'. do_mmap H 0x10000 0x2000 3 (MAP_PRIVATE OR MAP_ANONYMOUS OR MAP_FIXED) 0 0 sample_pt
     = Some (0x10000, s')"
  by (rule mmap_fixed_total [OF sample_vm_inv _ _ sample_range, of 0])
    (simp_all add: sample_pt_sel)

theorem mmap_fixed_returns_witness:
  "\<exists>s'. do_mmap sample_host 0x10000 0x2000 3 (MAP_PRIVATE OR MAP_ANONYMOUS OR MAP_FIXED) 0 0 sample_pt
     = Some (0x10000, s')"
  by (rule mmap_fixed_returns [OF sample_vm_inv _ _ sample_range, of 0])
    (simp_all add: sample_pt_sel)


theorem munmap_clears_range_witness:
  "\<exists>s'. do_munmap sample_host 0x10000 0x2000 sample_pt = Some (0, s') \<and> vm_inv no_refs no_refs s' \<and>
     pmap s' 16 = 0"
  using munmap_clears_range [OF sample_vm_inv, of "0x10000" "0x2000" sample_host] sample_range(2)
  by (auto simp: sample_pt_sel range_pages_def)

text \<open>The space after that mapping, with its second page not yet touched.\<close>

lemma sample_mapped:
  "\<exists>(s :: unit pk) j. vm_inv no_refs no_refs s \<and> \<not> vm_lock s \<and> j < MAX_VMR \<and> pmap s (vp 0x11008) = vmr_ptr s j \<and>
     v_file (vmr_at s j) = None \<and> v_prot (vmr_at s j) = 3 \<and> valid_user_range s (page_base 0x11008) 1 \<and>
     current s = current sample_pt \<and> first_free_paddr s = 0x80200000"
proof -
  let ?fl = "MAP_PRIVATE OR MAP_ANONYMOUS OR MAP_FIXED"
  let ?s = "sample_pt\<lparr>vm_lock := True\<rparr>"
  obtain s' where m: "do_mmap sample_host 0x10000 0x2000 3 ?fl 0 0 sample_pt = Some (0x10000, s')"
    using sample_mmap by blast
  then obtain t where t: "do_mmap_locked sample_host 0x10000 0x2000 3 ?fl None 0 ?s = Some (0x10000, t)"
    by (auto simp: do_mmap_def Let_def bind_Some_iff spinlock_lock_iff)
  have i: "vm_inv no_refs no_refs ?s" using sample_vm_inv by simp
  have l: "unat (mmap_max (current ?s)) \<le> 2 ^ 31" by (simp add: sample_pt_sel)
  have "(0x10000 :: u64) \<noteq> - 1" by simp
  with do_mmap_locked_spec [OF i _ l _ _ t]
  have T: "vm_inv no_refs no_refs t" "vm_frame ?s t"
    and fm: "fresh_mapping ?s t 0x10000 0x2000 \<lparr>v_addr = 0x10000, v_length = 0x2000, v_file = None,
      v_offset = 0, v_refcnt = ucast ((0x2000 - 1) div RISCV_PGSIZE + 1 :: u64), v_prot = 3\<rparr>"
    by (simp_all add: sample_pt_sel)
  have b: "page_base 0x11008 = 0x11000" by (simp add: page_base_def)
  have v: "vp 0x11008 = 17" by (simp add: vp_small)
  obtain j where j: "j < MAX_VMR" "v_file (vmr_at t j) = None" "v_prot (vmr_at t j) = 3"
    "pmap t 17 = vmr_ptr ?s j"
    using fm by (auto simp: fresh_mapping_def range_pages_def)
  let ?u = "spinlock_unlock t"
  have "vmr_ptr ?u = vmr_ptr ?s"
    using T(2) by (intro vmr_ptr_cong) (simp add: vm_frame_def spinlock_unlock_def)
  moreover have "current ?u = current sample_pt" "\<not> vm_lock ?u" "vmr_at ?u = vmr_at t"
    "first_free_paddr ?u = 0x80200000"
    using T(2) by (simp_all add: vm_frame_def spinlock_unlock_def sample_pt_sel)
  moreover from this have "valid_user_range ?u (page_base 0x11008) 1"
    by (simp add: b valid_user_range_def sample_pt_sel)
  ultimately show ?thesis
    using T(1) j v by (intro exI [of _ ?u] exI [of _ j]) simp
qed

lemma sample_permits: "permits (pte_create f (prot_to_type 3 True)) 2"
proof -
  have e: "pte_create f (prot_to_type 3 True) = push_bit 10 f OR 215"
    "pte_create 0 (prot_to_type 2 True) = 149"
    by (simp_all add: pte_create_def prot_to_type_def or.assoc)
  have "(149 :: u64) = 215 AND 149" by simp
  then have b: "bit (149 :: u64) n \<Longrightarrow> bit (215 :: u64) n" for n
    by (metis bit_and_iff)
  have "(push_bit 10 f OR 215) AND 149 = (149 :: u64)"
    by (rule bit_word_eqI) (use b in \<open>auto simp only: bit_and_iff bit_or_iff\<close>)
  then show ?thesis unfolding permits_def e by simp
qed

theorem anonymous_fault_zero_fills_witness:
  "\<exists>(s :: unit pk) s'. handle_page_fault sample_host 0x11008 2 s = Some (0, s') \<and>
     mem s' (0x11000 + first_free_paddr s + of_nat 100) = 0"
proof -
  obtain s :: "unit pk" and j where s: "vm_inv no_refs no_refs s" "\<not> vm_lock s" "j < MAX_VMR"
    "pmap s (vp 0x11008) = vmr_ptr s j" "v_file (vmr_at s j) = None" "v_prot (vmr_at s j) = 3"
    "valid_user_range s (page_base 0x11008) 1" "current s = current sample_pt"
    "first_free_paddr s = 0x80200000"
    using sample_mapped by blast
  have b: "page_base 0x11008 = 0x11000" by (simp add: page_base_def)
  have "unat (mmap_max (current s)) \<le> 2 ^ 31" "unat (first_free_paddr s) + 2 ^ 31 + 4096 < 2 ^ 64"
    by (simp_all add: s(8,9) sample_pt_sel)
  from anonymous_fault_zero_fills [OF s(1-5,7) this, of sample_host 2] obtain s' where
    "handle_page_fault sample_host 0x11008 2 s = Some (0, s')"
    "\<forall>i < 4096. mem s' (0x11000 + first_free_paddr s + of_nat i) = 0"
    using sample_permits by (auto simp: paged_pte_def s(6) b)
  then show ?thesis by (intro exI [of _ s] exI [of _ s']) (auto simp del: of_nat_numeral)
qed

theorem page_fault_resolves_witness:
  "\<exists>(s :: unit pk) s'. handle_page_fault sample_host 0x11008 2 s = Some (0, s') \<and>
     vm_inv no_refs no_refs s' \<and> permits (pmap s' (vp 0x11008)) 2"
proof -
  obtain s :: "unit pk" and j where s: "vm_inv no_refs no_refs s" "\<not> vm_lock s" "j < MAX_VMR"
    "pmap s (vp 0x11008) = vmr_ptr s j" "v_file (vmr_at s j) = None" "v_prot (vmr_at s j) = 3"
    "valid_user_range s (page_base 0x11008) 1" "current s = current sample_pt"
    "first_free_paddr s = 0x80200000"
    using sample_mapped by blast
  have "unat (mmap_max (current s)) \<le> 2 ^ 31" "unat (first_free_paddr s) + 2 ^ 31 + 4096 < 2 ^ 64"
    by (simp_all add: s(8,9) sample_pt_sel)
  from anon_fault [OF s(1-5,7) this, of sample_host 2] obtain s' where
    r: "handle_page_fault sample_host 0x11008 2 s = Some (0, s')"
    using sample_permits by (auto simp: paged_pte_def s(6))
  with page_fault_resolves [OF s(1) r] show ?thesis by blast
qed

text \<open>Making the two pages read-only before they are touched.\<close>

lemma unmapped_mprotect:
  "do_mprotect 0x10000 0x2000 1 sample_pt = Some (- ENOMEM, sample_pt)"
proof -
  have "walk sample_pt 0x10000 = 0"
    by (simp add: walk_def sample_pt_def sample_pk_def numeral_2_eq_2)
  then have w: "walk (sample_pt\<lparr>vm_lock := True\<rparr>) 0x10000 = 0" by (simp add: walk_def)
  have "mprotect_loop 1 0x10000 (0x10000 + 0x2000) (sample_pt\<lparr>vm_lock := True\<rparr>) =
    Some (- ENOMEM, sample_pt\<lparr>vm_lock := True\<rparr>)"
    by (simp add: mprotect_loop.simps [of _ "0x10000"] mprotect_page_def w)
  moreover have "sample_pt\<lparr>vm_lock := False\<rparr> = sample_pt"
    by (simp add: sample_pt_def sample_pk_def)
  ultimately show ?thesis
    by (simp add: do_mprotect_def spinlock_lock_def spinlock_unlock_def sample_pt_sel)
qed


lemma sample_brk: "\<exists>s'. do_brk H 0 sample_pt = Some (0x20000, s')"
  by (simp add: do_brk_def do_brk_locked_def move_brk_def spinlock_lock_def sample_pt_sel ROUNDUP_def)


subsection \<open>Searching, and lengths that wrap\<close>

text \<open>
  C17. \<^verbatim>\<open>__vm_alloc\<close> returns for every length that fits the address space.  It answers 0 only
  when no page-aligned free run of that many pages exists between the break and the end
  of the address space, and otherwise the start of such a run.
\<close>

theorem vm_alloc_finds_free_run:
  assumes "limits_ok (current s)" and "0 < unat npage"
    and "4096 * unat npage \<le> unat (mmap_max (current s))"
  shows "\<exists>r. vm_alloc npage s = Some r \<and>
    (let lo = unat (brk (current s)); hi = unat (mmap_max (current s)); n = 4096 * unat npage
     in if r = 0
        then \<forall>a. unat a mod 4096 = 0 \<longrightarrow> lo \<le> unat a \<longrightarrow> unat a + n \<le> hi \<longrightarrow>
               \<not> free_run s a (unat npage) 0
        else lo \<le> unat r \<and> unat r + n \<le> hi \<and> unat r mod 4096 = 0 \<and> free_run s r (unat npage) 0)"
  by (rule vm_alloc_spec [OF assms])

theorem vm_alloc_finds_free_run_witness:
  "\<exists>r. vm_alloc 2 sample_pt = Some r \<and> r \<noteq> 0 \<and> 0x20000 \<le> unat r \<and> free_run sample_pt r 2 0"
proof -
  have run: "free_run sample_pt 0x20000 2 0"
    by (simp add: free_run_def va_avail_iff pte_at_def walk_def sample_pt_def sample_pk_def
        numeral_2_eq_2)
  have f: "\<not> (\<forall>a. unat a mod 4096 = 0 \<longrightarrow> 0x20000 \<le> unat a \<longrightarrow> unat a + 8192 \<le> 0x7FFFF000 \<longrightarrow>
      \<not> free_run sample_pt a 2 0)"
    using run by (intro notI) (drule spec [of _ "0x20000"], simp)
  obtain r where r: "vm_alloc 2 sample_pt = Some r" and c:
    "if r = 0
     then \<forall>a. unat a mod 4096 = 0 \<longrightarrow> unat (brk (current sample_pt)) \<le> unat a \<longrightarrow>
        unat a + 4096 * unat (2 :: u64) \<le> unat (mmap_max (current sample_pt)) \<longrightarrow>
        \<not> free_run sample_pt a (unat (2 :: u64)) 0
     else unat (brk (current sample_pt)) \<le> unat r \<and>
        unat r + 4096 * unat (2 :: u64) \<le> unat (mmap_max (current sample_pt)) \<and>
        unat r mod 4096 = 0 \<and> free_run sample_pt r (unat (2 :: u64)) 0"
  proof -
    have "0 < unat (2 :: u64)" "4096 * unat (2 :: u64) \<le> unat (mmap_max (current sample_pt))"
      by (simp_all add: sample_pt_sel)
    from vm_alloc_finds_free_run [OF sample_limits(1) this] that show ?thesis
      unfolding Let_def by blast
  qed
  show ?thesis
  proof (cases "r = 0")
    case True
    with c f show ?thesis by (simp add: sample_pt_sel)
  next
    case False
    with r c show ?thesis by (auto simp: sample_pt_sel)
  qed
qed

text \<open>
  C18. A length of \<open>2^64 - 1\<close> is not refused: the number of pages wraps, \<^verbatim>\<open>mmap\<close> answers the
  page below the break although nothing gets mapped there, and the upper limit of the
  break drops below the break itself.
\<close>

theorem mmap_huge_length_succeeds:
  assumes inv: "vm_inv no_refs no_refs s" and lock: "\<not> vm_lock s" and dp: "demand_paging s"
    and lim: "limits_ok (current s)" and brk: "4096 < unat (brk (current s))"
    and avail: "va_avail s (brk (current s))" and top: "brk (current s) \<le> brk_max (current s)"
    and free: "j < MAX_VMR" "v_refcnt (vmr_at s j) = 0"
  shows "\<exists>s'. do_mmap H 0 (- 1) 3 (MAP_PRIVATE OR MAP_ANONYMOUS) 0 0 s = Some (brk (current s) - 4096, s') \<and>
    pmap s' = pmap s \<and> brk_max (current s') = brk (current s) - 4096 \<and>
    brk_max (current s') < brk (current s')"
proof -
  let ?s = "s\<lparr>vm_lock := True\<rparr>" and ?b = "brk (current s)"
  have wl: "walk ?s = walk s" by (rule walk_cong) simp_all
  have av: "va_avail ?s ?b" using avail by (simp add: va_avail_def wl)
  have ub: "unat (?b - 4096) = unat ?b - 4096" using brk by (subst unat_sub) (simp_all add: word_le_nat_alt)
  have lt: "?b - 4096 < ?b" using ub brk by (simp add: word_less_nat_alt)
  have nlt: "\<not> ?b < ?b - 4096" using lt by simp
  have wr: "2 ^ 52 * RISCV_PGSIZE = 0" "(2 ^ 52 - 1) * RISCV_PGSIZE = - 4096" by simp_all
  have np: "(- 1 - 1) div RISCV_PGSIZE + 1 = (2 ^ 52 :: u64)"
  proof -
    have "(- 1 - 1 :: u64) = 18446744073709551614" by simp
    then show ?thesis by (simp only:) simp
  qed
  have "vm_alloc (2 ^ 52) ?s = Some (?b - 4096)"
  proof -
    have "vm_alloc_down ?s ?b (?b - 4096) = Some (?b - 4096)"
      using nlt by (subst vm_alloc_down.simps) simp
    moreover have "?b \<le> mmap_max (current s)"
      using lim by (simp add: limits_ok_def word_le_nat_alt)
    ultimately show ?thesis
      using av nlt
      unfolding vm_alloc_def vm_alloc_loop.simps [of ?s _ "brk (current ?s)"] wr Let_def by simp
  qed
  note va = this
  have rc: "recs_ok ?s" using vm_inv_pt(2) [OF inv] by (simp add: recs_ok_cong [of ?s s])
  then have tb: "vmr_table ?s = Some ?s" by (simp add: vmr_table_def recs_ok_def)
  have "scan_from (\<lambda>j. v_refcnt (vmr_at ?s j) = 0) 0 MAX_VMR \<noteq> None"
    using scan_from_NoneD [of "\<lambda>j. v_refcnt (vmr_at ?s j) = 0" 0 MAX_VMR j] free by auto
  then obtain i where sc: "scan_from (\<lambda>j. v_refcnt (vmr_at ?s j) = 0) 0 MAX_VMR = Some i" by blast
  let ?s1 = "?s\<lparr>vmr_at := (vmr_at ?s)(i := \<lparr>v_addr = ?b - 4096, v_length = - 1, v_file = None,
      v_offset = 0, v_refcnt = 0, v_prot = 3\<rparr>)\<rparr>"
  have al: "vmr_alloc (?b - 4096) (- 1) None 0 0 3 ?s = Some (vmr_ptr ?s i, ?s1)"
    using tb sc by (simp add: vmr_alloc_def)
  have nz: "vmr_ptr ?s i \<noteq> 0"
    using vmr_ptr_lazy [OF rc] scan_from_SomeD [OF sc] by (simp add: lazy_def)
  have b0: "?b - 4096 \<noteq> 0" using ub brk by (metis unat_0 zero_less_diff less_irrefl)
  have lim2: "\<not> ?b - 4096 < ?b - 4096 + - 1"
  proof -
    have "unat (?b - 4096 - 1) = unat (?b - 4096) - 1" using b0 by (rule unat_minus_one)
    then show ?thesis by (simp add: word_less_nat_alt)
  qed
  have lp: "page_for f (?b - 4096) (?b - 4096 + - 1) t = Some t" for f and t :: "'a pk"
    using lim2 by (simp add: page_for.simps)
  have uc: "(ucast (2 ^ 52 :: u64) :: u32) = 0" by simp
  have "do_mmap_locked H 0 (- 1) 3 (MAP_PRIVATE OR MAP_ANONYMOUS) None 0 ?s = Some (?b - 4096, ?s1)"
    unfolding do_mmap_locked_def Let_def np uc
    using va al nz b0 dp lp by (simp add: uc)
  moreover have "?b - 4096 < brk_max (current s)" using lt top by simp
  ultimately have "do_mmap H 0 (- 1) 3 (MAP_PRIVATE OR MAP_ANONYMOUS) 0 0 s =
    Some (?b - 4096, spinlock_unlock (?s1\<lparr>current := (current s)\<lparr>brk_max := ?b - 4096\<rparr>\<rparr>))"
    using lock by (simp add: do_mmap_def spinlock_lock_def)
  moreover have "pmap (spinlock_unlock (?s1\<lparr>current := (current s)\<lparr>brk_max := ?b - 4096\<rparr>\<rparr>)) = pmap s"
    by (rule pmap_cong) (simp_all add: spinlock_unlock_def)
  ultimately show ?thesis using lt by (auto simp: spinlock_unlock_def)
qed

theorem mmap_huge_length_succeeds_witness:
  "\<exists>s'. do_mmap sample_host 0 (- 1) 3 (MAP_PRIVATE OR MAP_ANONYMOUS) 0 0 sample_pt = Some (0x1F000, s') \<and>
     brk_max (current s') < brk (current s')"
proof -
  have "va_avail sample_pt (brk (current sample_pt))"
    by (simp add: va_avail_iff pte_at_def walk_def sample_pt_def sample_pk_def numeral_2_eq_2)
  from mmap_huge_length_succeeds [OF sample_vm_inv _ _ sample_limits(1) _ this, of 0 sample_host]
  show ?thesis by (auto simp: sample_pt_sel)
qed

end
