(* ===== verification/Syscall.thy ===== *)
theory Syscall
  imports VmProps
begin

text \<open>
  The system calls of the proxy kernel, \<^verbatim>\<open>riscv-pk/pk/syscall.c\<close>, one definition per
  \<^verbatim>\<open>sys_\<close> function, and the dispatch through the two tables of \<^verbatim>\<open>do_syscall\<close>.  An
  \<^verbatim>\<open>int\<close> parameter is the low half of its register, an \<^verbatim>\<open>int\<close> result is sign-extended.
  The environment of a call holds the host, the way the program's C library stores a
  \<^verbatim>\<open>struct stat\<close>, and what the three counters read during the call.
\<close>

record 'h env =
  e_host :: "'h host"
  e_put :: "'h put_stat"
  e_cycle :: u64
  e_time :: u64
  e_instret :: u64

abbreviation pf :: "'h env \<Rightarrow> 'h fault" where "pf E \<equiv> handle_page_fault (e_host E)"

abbreviation CLOCK_FREQ :: u64 where "CLOCK_FREQ \<equiv> 1000000000"

subsection \<open>Termination of the program\<close>

text \<open>\<^verbatim>\<open>shutdown\<close> asks the host to exit and spins: the state in which it does.\<close>

definition shutdown :: "'h host \<Rightarrow> u32 \<Rightarrow> 'h pk \<Rightarrow> 'h pk" where
  "shutdown H code s = snd (frontend_syscall H 93 [scast code, 0, 0, 0, 0, 0, 0] s)"

text \<open>Unsigned division of the machine: all ones for a zero divisor.\<close>

definition udiv64 :: "u64 \<Rightarrow> u64 \<Rightarrow> u64" where
  "udiv64 a b = (if b = 0 then - 1 else a div b)"

definition sys_exit :: "'h env \<Rightarrow> u32 \<Rightarrow> 'h pk \<Rightarrow> 'h pk option" where
  "sys_exit E code s =
     do {
       s1 \<leftarrow>
         (if cycle0 (current s) \<noteq> 0 then
            do {
              let dt = e_time E - time0 (current s);
              let dc = e_cycle E - cycle0 (current s);
              let di = e_instret E - instret0 (current s);
              s1 \<leftarrow> printk (pf E) (e_host E) (lit ''%ld ticks'' @ [10]) [VLong dt] s;
              s2 \<leftarrow> printk (pf E) (e_host E) (lit ''%ld cycles'' @ [10]) [VLong dc] s1;
              s3 \<leftarrow> printk (pf E) (e_host E) (lit ''%ld instructions'' @ [10]) [VLong di] s2;
              printk (pf E) (e_host E) (lit ''%d.%d%d CPI'' @ [10])
                [VInt (ucast (udiv64 dc di)), VInt (ucast (udiv64 (10 * dc) di mod 10)),
                 VInt (ucast (udiv64 (100 * dc + di div 2) di mod 10))] s3
            }
          else Some s);
       Some (shutdown (e_host E) code s1)
     }"

subsection \<open>Reading and writing\<close>

definition sys_read :: "'h env \<Rightarrow> u32 \<Rightarrow> u64 \<Rightarrow> u64 \<Rightarrow> 'h pk \<Rightarrow> (u64 \<times> 'h pk) option" where
  "sys_read E fd buf n s =
     (case file_get fd s of
        (None, s1) \<Rightarrow> Some (- EBADF, s1)
      | (Some f, s1) \<Rightarrow>
          do {
            (r, s2) \<leftarrow> file_read (pf E) (e_host E) f buf n s1;
            Some (r, file_decref (e_host E) f s2)
          })"

definition sys_pread :: "'h env \<Rightarrow> u32 \<Rightarrow> u64 \<Rightarrow> u64 \<Rightarrow> u64 \<Rightarrow> 'h pk \<Rightarrow> (u64 \<times> 'h pk) option" where
  "sys_pread E fd buf n offset s =
     (case file_get fd s of
        (None, s1) \<Rightarrow> Some (- EBADF, s1)
      | (Some f, s1) \<Rightarrow>
          do {
            (r, s2) \<leftarrow> file_pread (pf E) (e_host E) f buf n offset s1;
            Some (r, file_decref (e_host E) f s2)
          })"

definition sys_write :: "'h env \<Rightarrow> u32 \<Rightarrow> u64 \<Rightarrow> u64 \<Rightarrow> 'h pk \<Rightarrow> (u64 \<times> 'h pk) option" where
  "sys_write E fd buf n s =
     (case file_get fd s of
        (None, s1) \<Rightarrow> Some (- EBADF, s1)
      | (Some f, s1) \<Rightarrow>
          do {
            (r, s2) \<leftarrow> file_write (pf E) (e_host E) f buf n s1;
            Some (r, file_decref (e_host E) f s2)
          })"

primrec writev_loop ::
  "'h env \<Rightarrow> u32 \<Rightarrow> u64 \<Rightarrow> nat \<Rightarrow> u64 \<Rightarrow> u64 \<Rightarrow> 'h pk \<Rightarrow> (u64 \<times> 'h pk) option" where
  "writev_loop E fd iov 0 i ret s = Some (ret, s)"
| "writev_loop E fd iov (Suc k) i ret s =
     do {
       (base, s1) \<leftarrow> uload64 (pf E) (iov + 16 * i) s;
       (len, s2) \<leftarrow> uload64 (pf E) (iov + 16 * i + 8) s1;
       (r, s3) \<leftarrow> sys_write E fd base len s2;
       (if sint r < 0 then Some (r, s3) else writev_loop E fd iov k (i + 1) (ret + r) s3)
     }"

definition sys_writev :: "'h env \<Rightarrow> u32 \<Rightarrow> u64 \<Rightarrow> u32 \<Rightarrow> 'h pk \<Rightarrow> (u64 \<times> 'h pk) option" where
  "sys_writev E fd iov cnt s = writev_loop E fd iov (nat (sint cnt)) 0 0 s"

subsection \<open>Names in directories\<close>

definition at_kfd :: "u32 \<Rightarrow> 'h pk \<Rightarrow> u32 \<times> 'h pk" where
  "at_kfd dirfd s =
     (if dirfd = AT_FDCWD then (AT_FDCWD, s)
      else case file_get dirfd s of
             (None, s1) \<Rightarrow> (- 1, s1)
           | (Some f, s1) \<Rightarrow> (f_kfd s1 f, s1))"

definition IS_ERR_VALUE :: "u64 \<Rightarrow> bool" where
  "IS_ERR_VALUE x = (x \<ge> - 4096)"

text \<open>
  A pointer to an entry of \<^verbatim>\<open>files\<close> is never an error value; an error of the host is one
  unless it is below -4095.
\<close>

definition sys_openat :: "'h env \<Rightarrow> u32 \<Rightarrow> u64 \<Rightarrow> u32 \<Rightarrow> u32 \<Rightarrow> 'h pk \<Rightarrow> (u32 \<times> 'h pk) option" where
  "sys_openat E dirfd name flags mode s =
     (let (kfd, s1) = at_kfd dirfd s
      in if kfd \<noteq> - 1 then
           do {
             (r, s2) \<leftarrow> file_openat (pf E) (e_host E) kfd name flags mode s1;
             (case r of
                Inl err \<Rightarrow> do { kassert (IS_ERR_VALUE err); Some (ucast err, s2) }
              | Inr f \<Rightarrow>
                  do {
                    (fd, s3) \<leftarrow> file_dup f s2;
                    Some (if sint fd < 0 then (- ucast ENOMEM, file_decref (e_host E) f s3)
                          else (fd, s3))
                  })
           }
         else Some (- ucast EBADF, s1))"

definition sys_open :: "'h env \<Rightarrow> u64 \<Rightarrow> u32 \<Rightarrow> u32 \<Rightarrow> 'h pk \<Rightarrow> (u32 \<times> 'h pk) option" where
  "sys_open E name flags mode s = sys_openat E AT_FDCWD name flags mode s"

definition sys_close :: "'h env \<Rightarrow> u32 \<Rightarrow> 'h pk \<Rightarrow> u32 \<times> 'h pk" where
  "sys_close E fd s =
     (let (ret, s1) = fd_close (e_host E) fd s
      in if sint ret < 0 then (- ucast EBADF, s1) else (ret, s1))"

text \<open>Two names, each with the directory it starts from.\<close>

definition sys_renameat ::
  "'h env \<Rightarrow> u32 \<Rightarrow> u64 \<Rightarrow> u32 \<Rightarrow> u64 \<Rightarrow> 'h pk \<Rightarrow> (u32 \<times> 'h pk) option" where
  "sys_renameat E old_fd old_path new_fd new_path s =
     (let (old_kfd, s1) = at_kfd old_fd s;
          (new_kfd, s2) = at_kfd new_fd s1
      in if old_kfd \<noteq> - 1 \<and> new_kfd \<noteq> - 1 then
           do {
             (old_len, s3) \<leftarrow> ustrlen (pf E) old_path s2;
             (new_len, s4) \<leftarrow> ustrlen (pf E) new_path s3;
             let (r, s5) = frontend_syscall (e_host E) 38
                [scast old_kfd, va2pa s4 old_path, old_len + 1, scast new_kfd, va2pa s4 new_path,
                 new_len + 1, 0] s4;
             Some (ucast r, s5)
           }
         else Some (- ucast EBADF, s2))"

definition sys_linkat ::
  "'h env \<Rightarrow> u32 \<Rightarrow> u64 \<Rightarrow> u32 \<Rightarrow> u64 \<Rightarrow> u32 \<Rightarrow> 'h pk \<Rightarrow> (u64 \<times> 'h pk) option" where
  "sys_linkat E old_dirfd old_name new_dirfd new_name flags s =
     (let (old_kfd, s1) = at_kfd old_dirfd s;
          (new_kfd, s2) = at_kfd new_dirfd s1
      in if old_kfd \<noteq> - 1 \<and> new_kfd \<noteq> - 1 then
           do {
             (old_len, s3) \<leftarrow> ustrlen (pf E) old_name s2;
             (new_len, s4) \<leftarrow> ustrlen (pf E) new_name s3;
             Some (frontend_syscall (e_host E) 37
                [scast old_kfd, va2pa s4 old_name, old_len + 1, scast new_kfd, va2pa s4 new_name,
                 new_len + 1, scast flags] s4)
           }
         else Some (- EBADF, s2))"

definition sys_link :: "'h env \<Rightarrow> u64 \<Rightarrow> u64 \<Rightarrow> 'h pk \<Rightarrow> (u64 \<times> 'h pk) option" where
  "sys_link E old_name new_name s = sys_linkat E AT_FDCWD old_name AT_FDCWD new_name 0 s"

text \<open>One name and one more word: the shape of \<^verbatim>\<open>faccessat\<close>, \<^verbatim>\<open>unlinkat\<close> and \<^verbatim>\<open>mkdirat\<close>.\<close>

definition sys_name_at ::
  "u64 \<Rightarrow> 'h env \<Rightarrow> u32 \<Rightarrow> u64 \<Rightarrow> u32 \<Rightarrow> 'h pk \<Rightarrow> (u64 \<times> 'h pk) option" where
  "sys_name_at nr E dirfd name x s =
     (let (kfd, s1) = at_kfd dirfd s
      in if kfd \<noteq> - 1 then
           do {
             (len, s2) \<leftarrow> ustrlen (pf E) name s1;
             Some (frontend_syscall (e_host E) nr
                [scast kfd, va2pa s2 name, len + 1, scast x, 0, 0, 0] s2)
           }
         else Some (- EBADF, s1))"

definition sys_faccessat :: "'h env \<Rightarrow> u32 \<Rightarrow> u64 \<Rightarrow> u32 \<Rightarrow> 'h pk \<Rightarrow> (u64 \<times> 'h pk) option" where
  "sys_faccessat = sys_name_at 48"

definition sys_access :: "'h env \<Rightarrow> u64 \<Rightarrow> u32 \<Rightarrow> 'h pk \<Rightarrow> (u64 \<times> 'h pk) option" where
  "sys_access E name mode s = sys_faccessat E AT_FDCWD name mode s"

definition sys_unlinkat :: "'h env \<Rightarrow> u32 \<Rightarrow> u64 \<Rightarrow> u32 \<Rightarrow> 'h pk \<Rightarrow> (u64 \<times> 'h pk) option" where
  "sys_unlinkat = sys_name_at 35"

definition sys_unlink :: "'h env \<Rightarrow> u64 \<Rightarrow> 'h pk \<Rightarrow> (u64 \<times> 'h pk) option" where
  "sys_unlink E name s = sys_unlinkat E AT_FDCWD name 0 s"

definition sys_mkdirat :: "'h env \<Rightarrow> u32 \<Rightarrow> u64 \<Rightarrow> u32 \<Rightarrow> 'h pk \<Rightarrow> (u64 \<times> 'h pk) option" where
  "sys_mkdirat = sys_name_at 34"

definition sys_mkdir :: "'h env \<Rightarrow> u64 \<Rightarrow> u32 \<Rightarrow> 'h pk \<Rightarrow> (u64 \<times> 'h pk) option" where
  "sys_mkdir E name mode s = sys_mkdirat E AT_FDCWD name mode s"

definition sys_getcwd :: "'h env \<Rightarrow> u64 \<Rightarrow> u64 \<Rightarrow> 'h pk \<Rightarrow> (u64 \<times> 'h pk) option" where
  "sys_getcwd E buf sz s =
     do {
       s1 \<leftarrow> populate_mapping (pf E) buf sz PROT_WRITE s;
       Some (frontend_syscall (e_host E) 17 [va2pa s1 buf, sz, 0, 0, 0, 0, 0] s1)
     }"

definition sys_chdir :: "'h env \<Rightarrow> u64 \<Rightarrow> 'h pk \<Rightarrow> u32 \<times> 'h pk" where
  "sys_chdir E path s =
     map_prod ucast id (frontend_syscall (e_host E) 49 [va2pa s path, 0, 0, 0, 0, 0, 0] s)"

subsection \<open>Descriptors\<close>

definition sys_fstat :: "'h env \<Rightarrow> u32 \<Rightarrow> u64 \<Rightarrow> 'h pk \<Rightarrow> (u32 \<times> 'h pk) option" where
  "sys_fstat E fd st s =
     (case file_get fd s of
        (None, s1) \<Rightarrow> Some (- ucast EBADF, s1)
      | (Some f, s1) \<Rightarrow>
          do {
            (r, s2) \<leftarrow> file_stat (e_put E) (e_host E) f st s1;
            Some (r, file_decref (e_host E) f s2)
          })"

definition sys_fcntl :: "'h env \<Rightarrow> u32 \<Rightarrow> u32 \<Rightarrow> u32 \<Rightarrow> 'h pk \<Rightarrow> u32 \<times> 'h pk" where
  "sys_fcntl E fd cmd arg s =
     (case file_get fd s of
        (None, s1) \<Rightarrow> (- ucast EBADF, s1)
      | (Some f, s1) \<Rightarrow>
          (let (r, s2) = frontend_syscall (e_host E) 25
                 [scast (f_kfd s1 f), scast cmd, scast arg, 0, 0, 0, 0] s1
           in (ucast r, file_decref (e_host E) f s2)))"

definition sys_ftruncate :: "'h env \<Rightarrow> u32 \<Rightarrow> u64 \<Rightarrow> 'h pk \<Rightarrow> u32 \<times> 'h pk" where
  "sys_ftruncate E fd len s =
     (case file_get fd s of
        (None, s1) \<Rightarrow> (- ucast EBADF, s1)
      | (Some f, s1) \<Rightarrow>
          (let (r, s2) = file_truncate (e_host E) f len s1
           in (r, file_decref (e_host E) f s2)))"

definition sys_dup :: "'h env \<Rightarrow> u32 \<Rightarrow> 'h pk \<Rightarrow> (u32 \<times> 'h pk) option" where
  "sys_dup E fd s =
     (case file_get fd s of
        (None, s1) \<Rightarrow> Some (- ucast EBADF, s1)
      | (Some f, s1) \<Rightarrow>
          do {
            (r, s2) \<leftarrow> file_dup f s1;
            Some (r, file_decref (e_host E) f s2)
          })"

definition sys_lseek :: "'h env \<Rightarrow> u32 \<Rightarrow> u64 \<Rightarrow> u32 \<Rightarrow> 'h pk \<Rightarrow> u64 \<times> 'h pk" where
  "sys_lseek E fd ptr dir s =
     (case file_get fd s of
        (None, s1) \<Rightarrow> (- EBADF, s1)
      | (Some f, s1) \<Rightarrow>
          (let (r, s2) = file_lseek (e_host E) f ptr dir s1
           in (r, file_decref (e_host E) f s2)))"

definition sys_lstat :: "'h env \<Rightarrow> u64 \<Rightarrow> u64 \<Rightarrow> 'h pk \<Rightarrow> (u64 \<times> 'h pk) option" where
  "sys_lstat E name st s =
     do {
       let buf = kbuf s;
       (len, s1) \<leftarrow> ustrlen (pf E) name s;
       let (ret, s2) = frontend_syscall (e_host E) 1039
             [va2pa s1 name, len + 1, va2pa s1 buf, 0, 0, 0, 0] s1;
       s3 \<leftarrow> e_put E st (copy_stat (mem s2) (va2pa s2 buf)) s2;
       Some (ret, s3)
     }"

definition sys_fstatat :: "'h env \<Rightarrow> u32 \<Rightarrow> u64 \<Rightarrow> u64 \<Rightarrow> u32 \<Rightarrow> 'h pk \<Rightarrow> (u64 \<times> 'h pk) option" where
  "sys_fstatat E dirfd name st flags s =
     (let (kfd, s1) = at_kfd dirfd s
      in if kfd \<noteq> - 1 then
           do {
             let buf = kbuf s1;
             (len, s2) \<leftarrow> ustrlen (pf E) name s1;
             let (ret, s3) = frontend_syscall (e_host E) 79
                   [scast kfd, va2pa s2 name, len + 1, va2pa s2 buf, scast flags, 0, 0] s2;
             s4 \<leftarrow> e_put E st (copy_stat (mem s3) (va2pa s3 buf)) s3;
             Some (ret, s4)
           }
         else Some (- EBADF, s1))"

definition sys_stat :: "'h env \<Rightarrow> u64 \<Rightarrow> u64 \<Rightarrow> 'h pk \<Rightarrow> (u64 \<times> 'h pk) option" where
  "sys_stat E name st s = sys_fstatat E AT_FDCWD name st 0 s"

subsection \<open>Memory\<close>

definition sys_brk :: "'h env \<Rightarrow> u64 \<Rightarrow> 'h pk \<Rightarrow> (u64 \<times> 'h pk) option" where
  "sys_brk E pos s = do_brk (e_host E) pos s"

definition sys_mmap ::
  "'h env \<Rightarrow> u64 \<Rightarrow> u64 \<Rightarrow> u32 \<Rightarrow> u32 \<Rightarrow> u32 \<Rightarrow> u64 \<Rightarrow> 'h pk \<Rightarrow> (u64 \<times> 'h pk) option" where
  "sys_mmap E addr len prot flags fd offset s = do_mmap (e_host E) addr len prot flags fd offset s"

definition sys_munmap :: "'h env \<Rightarrow> u64 \<Rightarrow> u64 \<Rightarrow> 'h pk \<Rightarrow> (u32 \<times> 'h pk) option" where
  "sys_munmap E addr len s = do_munmap (e_host E) addr len s"

definition sys_mremap :: "u64 \<Rightarrow> u64 \<Rightarrow> u64 \<Rightarrow> u32 \<Rightarrow> 'h pk \<Rightarrow> u64 \<times> 'h pk" where
  "sys_mremap addr old_size new_size flags s = (do_mremap addr old_size new_size flags, s)"

definition sys_mprotect :: "u64 \<Rightarrow> u64 \<Rightarrow> u32 \<Rightarrow> 'h pk \<Rightarrow> (u64 \<times> 'h pk) option" where
  "sys_mprotect addr len prot s = do_mprotect addr len prot s"

subsection \<open>Identity, signals and time\<close>

definition sys_uname :: "'h env \<Rightarrow> u64 \<Rightarrow> 'h pk \<Rightarrow> (u32 \<times> 'h pk) option" where
  "sys_uname E buf s =
     do {
       s0 \<leftarrow> ustore_string (pf E) (buf + 0 * 65) (lit ''Proxy Kernel'') s;
       s1 \<leftarrow> ustore_string (pf E) (buf + 1 * 65) [] s0;
       s2 \<leftarrow> ustore_string (pf E) (buf + 2 * 65) (lit ''4.15.0'') s1;
       s3 \<leftarrow> ustore_string (pf E) (buf + 3 * 65) [] s2;
       s4 \<leftarrow> ustore_string (pf E) (buf + 4 * 65) [] s3;
       s5 \<leftarrow> ustore_string (pf E) (buf + 5 * 65) [] s4;
       Some (0, s5)
     }"

definition sys_getpid :: u32 where "sys_getpid = 0"

definition sys_getuid :: u32 where "sys_getuid = 0"

definition sys_rt_sigaction :: "'h env \<Rightarrow> u64 \<Rightarrow> 'h pk \<Rightarrow> (u32 \<times> 'h pk) option" where
  "sys_rt_sigaction E oact s =
     do {
       s1 \<leftarrow> (if oact \<noteq> 0 then ustore_bytes (pf E) oact (replicate 24 0) s else Some s);
       Some (0, s1)
     }"

definition sys_time :: "'h env \<Rightarrow> u64 \<Rightarrow> 'h pk \<Rightarrow> (u64 \<times> 'h pk) option" where
  "sys_time E loc s =
     do {
       let t = e_cycle E div CLOCK_FREQ;
       s1 \<leftarrow> (if loc \<noteq> 0 then ustore64 (pf E) loc t s else Some s);
       Some (t, s1)
     }"

definition sys_times :: "'h env \<Rightarrow> u64 \<Rightarrow> 'h pk \<Rightarrow> (u32 \<times> 'h pk) option" where
  "sys_times E loc s =
     do {
       let t = e_cycle E;
       kassert (CLOCK_FREQ mod 1000000 = 0);
       s1 \<leftarrow> ustore64 (pf E) loc (t div (CLOCK_FREQ div 1000000)) s;
       s2 \<leftarrow> ustore64 (pf E) (loc + 8) 0 s1;
       s3 \<leftarrow> ustore64 (pf E) (loc + 16) 0 s2;
       s4 \<leftarrow> ustore64 (pf E) (loc + 24) 0 s3;
       Some (0, s4)
     }"

definition sys_gettimeofday :: "'h env \<Rightarrow> u64 \<Rightarrow> 'h pk \<Rightarrow> (u32 \<times> 'h pk) option" where
  "sys_gettimeofday E loc s =
     do {
       let t = e_cycle E;
       s1 \<leftarrow> ustore64 (pf E) loc (t div CLOCK_FREQ) s;
       s2 \<leftarrow> ustore64 (pf E) (loc + 8) (t mod CLOCK_FREQ div (CLOCK_FREQ div 1000000)) s1;
       Some (0, s2)
     }"

definition sys_clock_gettime :: "'h env \<Rightarrow> u64 \<Rightarrow> 'h pk \<Rightarrow> (u64 \<times> 'h pk) option" where
  "sys_clock_gettime E loc s =
     do {
       let t = e_cycle E;
       s1 \<leftarrow> ustore64 (pf E) loc (t div CLOCK_FREQ) s;
       s2 \<leftarrow> ustore64 (pf E) (loc + 8) (t mod CLOCK_FREQ div (CLOCK_FREQ div 1000000000)) s1;
       Some (0, s2)
     }"

definition sys_getdents :: u32 where "sys_getdents = 0"

definition sys_stub_success :: u32 where "sys_stub_success = 0"

definition sys_stub_nosys :: u32 where "sys_stub_nosys = - ucast ENOSYS"

subsection \<open>Dispatch\<close>

text \<open>
  A call either returns a word or ends the program (\<^theory_text>\<open>Inl\<close>); no value is a panic or an
  access that never completes.
\<close>

type_synonym 'h outcome = "('h pk + u64 \<times> 'h pk) option"
type_synonym sysargs = "u64 \<times> u64 \<times> u64 \<times> u64 \<times> u64 \<times> u64"
type_synonym 'h handler = "'h env \<Rightarrow> sysargs \<Rightarrow> 'h pk \<Rightarrow> 'h outcome"

definition ret64 :: "(u64 \<times> 'h pk) option \<Rightarrow> 'h outcome" where
  "ret64 r = map_option Inr r"

definition ret32 :: "(u32 \<times> 'h pk) option \<Rightarrow> 'h outcome" where
  "ret32 r = map_option (\<lambda>(x, s). Inr (scast x, s)) r"

definition syscall_table :: "(u64 \<times> 'h handler) list" where
  "syscall_table =
     [(93, \<lambda>E (a0, _, _, _, _, _) s. map_option Inl (sys_exit E (ucast a0) s)),
      (94, \<lambda>E (a0, _, _, _, _, _) s. map_option Inl (sys_exit E (ucast a0) s)),
      (63, \<lambda>E (a0, a1, a2, _, _, _) s. ret64 (sys_read E (ucast a0) a1 a2 s)),
      (67, \<lambda>E (a0, a1, a2, a3, _, _) s. ret64 (sys_pread E (ucast a0) a1 a2 a3 s)),
      (64, \<lambda>E (a0, a1, a2, _, _, _) s. ret64 (sys_write E (ucast a0) a1 a2 s)),
      (56, \<lambda>E (a0, a1, a2, a3, _, _) s. ret32 (sys_openat E (ucast a0) a1 (ucast a2) (ucast a3) s)),
      (57, \<lambda>E (a0, _, _, _, _, _) s. ret32 (Some (sys_close E (ucast a0) s))),
      (80, \<lambda>E (a0, a1, _, _, _, _) s. ret32 (sys_fstat E (ucast a0) a1 s)),
      (62, \<lambda>E (a0, a1, a2, _, _, _) s. ret64 (Some (sys_lseek E (ucast a0) a1 (ucast a2) s))),
      (79, \<lambda>E (a0, a1, a2, a3, _, _) s. ret64 (sys_fstatat E (ucast a0) a1 a2 (ucast a3) s)),
      (37, \<lambda>E (a0, a1, a2, a3, a4, _) s. ret64 (sys_linkat E (ucast a0) a1 (ucast a2) a3 (ucast a4) s)),
      (35, \<lambda>E (a0, a1, a2, _, _, _) s. ret64 (sys_unlinkat E (ucast a0) a1 (ucast a2) s)),
      (34, \<lambda>E (a0, a1, a2, _, _, _) s. ret64 (sys_mkdirat E (ucast a0) a1 (ucast a2) s)),
      (38, \<lambda>E (a0, a1, a2, a3, _, _) s. ret32 (sys_renameat E (ucast a0) a1 (ucast a2) a3 s)),
      (17, \<lambda>E (a0, a1, _, _, _, _) s. ret64 (sys_getcwd E a0 a1 s)),
      (214, \<lambda>E (a0, _, _, _, _, _) s. ret64 (sys_brk E a0 s)),
      (160, \<lambda>E (a0, _, _, _, _, _) s. ret32 (sys_uname E a0 s)),
      (172, \<lambda>_ (_, _, _, _, _, _) s. ret32 (Some (sys_getpid, s))),
      (174, \<lambda>_ (_, _, _, _, _, _) s. ret32 (Some (sys_getuid, s))),
      (175, \<lambda>_ (_, _, _, _, _, _) s. ret32 (Some (sys_getuid, s))),
      (176, \<lambda>_ (_, _, _, _, _, _) s. ret32 (Some (sys_getuid, s))),
      (177, \<lambda>_ (_, _, _, _, _, _) s. ret32 (Some (sys_getuid, s))),
      (222, \<lambda>E (a0, a1, a2, a3, a4, a5) s. ret64 (sys_mmap E a0 a1 (ucast a2) (ucast a3) (ucast a4) a5 s)),
      (215, \<lambda>E (a0, a1, _, _, _, _) s. ret32 (sys_munmap E a0 a1 s)),
      (216, \<lambda>_ (a0, a1, a2, a3, _, _) s. ret64 (Some (sys_mremap a0 a1 a2 (ucast a3) s))),
      (226, \<lambda>_ (a0, a1, a2, _, _, _) s. ret64 (sys_mprotect a0 a1 (ucast a2) s)),
      (261, \<lambda>_ (_, _, _, _, _, _) s. ret32 (Some (sys_stub_nosys, s))),
      (134, \<lambda>E (_, _, a2, _, _, _) s. ret32 (sys_rt_sigaction E a2 s)),
      (169, \<lambda>E (a0, _, _, _, _, _) s. ret32 (sys_gettimeofday E a0 s)),
      (153, \<lambda>E (a0, _, _, _, _, _) s. ret32 (sys_times E a0 s)),
      (66, \<lambda>E (a0, a1, a2, _, _, _) s. ret64 (sys_writev E (ucast a0) a1 (ucast a2) s)),
      (48, \<lambda>E (a0, a1, a2, _, _, _) s. ret64 (sys_faccessat E (ucast a0) a1 (ucast a2) s)),
      (25, \<lambda>E (a0, a1, a2, _, _, _) s. ret32 (Some (sys_fcntl E (ucast a0) (ucast a1) (ucast a2) s))),
      (46, \<lambda>E (a0, a1, _, _, _, _) s. ret32 (Some (sys_ftruncate E (ucast a0) a1 s))),
      (61, \<lambda>_ (_, _, _, _, _, _) s. ret32 (Some (sys_getdents, s))),
      (23, \<lambda>E (a0, _, _, _, _, _) s. ret32 (sys_dup E (ucast a0) s)),
      (78, \<lambda>_ (_, _, _, _, _, _) s. ret32 (Some (sys_stub_nosys, s))),
      (135, \<lambda>_ (_, _, _, _, _, _) s. ret32 (Some (sys_stub_success, s))),
      (29, \<lambda>_ (_, _, _, _, _, _) s. ret32 (Some (sys_stub_nosys, s))),
      (113, \<lambda>E (_, a1, _, _, _, _) s. ret64 (sys_clock_gettime E a1 s)),
      (165, \<lambda>_ (_, _, _, _, _, _) s. ret32 (Some (sys_stub_nosys, s))),
      (163, \<lambda>_ (_, _, _, _, _, _) s. ret32 (Some (sys_stub_nosys, s))),
      (164, \<lambda>_ (_, _, _, _, _, _) s. ret32 (Some (sys_stub_nosys, s))),
      (49, \<lambda>E (a0, _, _, _, _, _) s. ret32 (Some (sys_chdir E a0 s))),
      (96, \<lambda>_ (_, _, _, _, _, _) s. ret32 (Some (sys_stub_nosys, s))),
      (99, \<lambda>_ (_, _, _, _, _, _) s. ret32 (Some (sys_stub_nosys, s))),
      (233, \<lambda>_ (_, _, _, _, _, _) s. ret32 (Some (sys_stub_nosys, s)))]"

text \<open>Indexed from \<^verbatim>\<open>OLD_SYSCALL_THRESHOLD\<close>.\<close>

definition old_syscall_table :: "(u64 \<times> 'h handler) list" where
  "old_syscall_table =
     [(0, \<lambda>E (a0, a1, a2, _, _, _) s. ret32 (sys_open E a0 (ucast a1) (ucast a2) s)),
      (1, \<lambda>E (a0, a1, _, _, _, _) s. ret64 (sys_link E a0 a1 s)),
      (2, \<lambda>E (a0, _, _, _, _, _) s. ret64 (sys_unlink E a0 s)),
      (6, \<lambda>E (a0, a1, _, _, _, _) s. ret64 (sys_mkdir E a0 (ucast a1) s)),
      (9, \<lambda>E (a0, a1, _, _, _, _) s. ret64 (sys_access E a0 (ucast a1) s)),
      (14, \<lambda>E (a0, a1, _, _, _, _) s. ret64 (sys_stat E a0 a1 s)),
      (15, \<lambda>E (a0, a1, _, _, _, _) s. ret64 (sys_lstat E a0 a1 s)),
      (38, \<lambda>E (a0, _, _, _, _, _) s. ret64 (sys_time E a0 s))]"

text \<open>The sizes of the two arrays: one more than their largest index.\<close>

definition syscall_handler :: "u64 \<Rightarrow> 'h handler option" where
  "syscall_handler n =
     (if n < 262 then map_of syscall_table n
      else if n - 1024 < 39 then map_of old_syscall_table (n - 1024)
      else None)"

definition do_syscall :: "'h env \<Rightarrow> sysargs \<Rightarrow> u64 \<Rightarrow> 'h pk \<Rightarrow> 'h outcome" where
  "do_syscall E args n s =
     (case syscall_handler n of None \<Rightarrow> None | Some f \<Rightarrow> f E args s)"

end
