(* ===== verification/SyscallInv.thy ===== *)
theory SyscallInv
  imports Syscall
begin

text \<open>
  What the system calls keep.  The invariant of the proxy kernel between two calls is
  \<^theory_text>\<open>sys_inv\<close>: page tables, mapping records and reference counts are consistent, and the
  limits of the program's address space are in order.  User accesses may page in
  (\<^theory_text>\<open>keeps\<close>), which is the interface \<^theory_text>\<open>user_access\<close> at the kernel's own fault handler.
\<close>

subsection \<open>Page faults under system calls\<close>

definition keeps :: "'h pk \<Rightarrow> 'h pk \<Rightarrow> bool" where
  "keeps s s' \<longleftrightarrow> (\<forall>e. vm_inv no_refs e s \<longrightarrow>
     vm_inv no_refs e s' \<and> counts_le s s' \<and> current s' = current s \<and> fds s' = fds s)"

lemma keepsD:
  assumes "keeps s s'" and "vm_inv no_refs e s"
  shows "vm_inv no_refs e s'" "counts_le s s'" "current s' = current s" "fds s' = fds s"
  using assms by (auto simp: keeps_def)

lemma keeps_refl [simp]: "keeps s s"
  by (simp add: keeps_def)

lemma keeps_trans: "keeps s t \<Longrightarrow> keeps t u \<Longrightarrow> keeps s u"
  unfolding keeps_def by (metis counts_le_trans)

lemma keeps_frame: "files_frame s s' \<Longrightarrow> keeps s s'"
  using vm_inv_frame [of s s' no_refs]
  by (simp add: keeps_def files_frame_def same_vmD(11) counts_le_same)

lemma keeps_host: "keeps s (s\<lparr>hst := h, mem := m\<rparr>)"
  by (rule keeps_frame) (simp add: files_frame_def)

lemma keeps_fault:
  assumes "handle_page_fault H a p s = Some (r, s')"
  shows "keeps s s'"
  unfolding keeps_def
proof (intro allI impI)
  fix e
  assume inv: "vm_inv no_refs e s"
  obtain s2 where s2: "handle_page_fault_locked H a p (s\<lparr>vm_lock := True\<rparr>) = Some (r, s2)"
    and s': "s' = spinlock_unlock s2"
    using assms by (auto simp: handle_page_fault_def bind_Some_iff spinlock_lock_iff)
  have "vm_inv no_refs e (s\<lparr>vm_lock := True\<rparr>)" using inv by simp
  from handle_page_fault_locked_spec [OF this s2]
  show "vm_inv no_refs e s' \<and> counts_le s s' \<and> current s' = current s \<and> fds s' = fds s"
    by (simp add: s' vm_frame_def counts_le_def spinlock_unlock_def)
qed

interpretation ua: user_access "handle_page_fault H" keeps for H
  by unfold_locales (auto intro: keeps_trans keeps_host keeps_fault)

subsection \<open>The invariant between calls\<close>

definition sys_limits :: "elf_info \<Rightarrow> bool" where
  "sys_limits c \<longleftrightarrow> unat (mmap_max c) \<le> 2 ^ 31 \<and> unat (mmap_max c) mod 4096 = 0 \<and>
     unat (brk_max c) mod 4096 = 0 \<and> brk_max c \<le> mmap_max c \<and> brk_min c \<le> mmap_max c \<and>
     unat (brk c) mod 4096 = 0 \<and> brk c \<le> mmap_max c"

definition sys_inv :: "'h pk \<Rightarrow> bool" where
  "sys_inv s \<longleftrightarrow> vm_inv no_refs no_refs s \<and> sys_limits (current s)"

lemma files_inv_less:
  assumes "files_inv e s" and "\<And>f. e' f \<le> e f"
  shows "files_inv e' s"
proof -
  have "file_ok c r'" if "file_ok c r" "r' \<le> r" for c r r'
    using that by (auto simp: file_ok_def split: if_splits)
  then show ?thesis
    using assms unfolding files_inv_def by (meson add_left_mono)
qed

text \<open>References that are forgotten, never given back, do not break the invariant.\<close>

lemma vm_inv_forget: "vm_inv d e s \<Longrightarrow> vm_inv d no_refs s"
  unfolding vm_inv_def using files_inv_less [of e s no_refs] by simp

lemma sys_inv_vm: "sys_inv s \<Longrightarrow> vm_inv no_refs no_refs s"
  by (simp add: sys_inv_def)

lemma no_refs_upd [simp]: "no_refs(f := 0) = no_refs"
  by auto

definition slack :: "nat \<Rightarrow> 'h pk \<Rightarrow> bool" where
  "slack n s \<longleftrightarrow> (\<forall>f < MAX_FILES. unat (f_refcnt s f) + n < 2 ^ 32)"

lemma counts_slack: "counts_ok s \<longleftrightarrow> slack 2 s"
  by (simp add: counts_ok_def slack_def)

lemma slack_unsaturated: "slack (Suc n) s \<Longrightarrow> f < MAX_FILES \<Longrightarrow> unsaturated s f"
  by (auto simp: slack_def unsaturated_def)

lemma slack_le: "slack n s \<Longrightarrow> m \<le> n \<Longrightarrow> slack m s"
  by (auto simp: slack_def)

lemma slack_counts_le: "slack n s \<Longrightarrow> counts_le s s' \<Longrightarrow> slack n s'"
  by (fastforce simp: slack_def counts_le_def)

lemma slack_incr:
  assumes "slack (Suc n) s" and "f_refcnt s' = (f_refcnt s)(f := f_refcnt s f + 1)" and "f < MAX_FILES"
  shows "slack n s'"
  using assms unsaturated_Suc [OF slack_unsaturated [OF assms(1,3)]]
  by (auto simp: slack_def)

lemma sys_get:
  assumes "vm_inv d e s" and "slack (Suc n) s" and "file_get fd s = (r, s')"
  shows "case r of None \<Rightarrow> s' = s
    | Some f \<Rightarrow> f < MAX_FILES \<and> vm_inv d (e(f := Suc (e f))) s' \<and> current s' = current s \<and>
        fds s' = fds s \<and> f_refcnt s' = (f_refcnt s)(f := f_refcnt s f + 1)"
proof -
  have "case r of None \<Rightarrow> s' = s
    | Some f \<Rightarrow> f < MAX_FILES \<and> vm_inv d (e(f := Suc (e f))) s' \<and> same_vm s s' \<and> fds s' = fds s"
    using assms slack_unsaturated by (intro vm_inv_get) auto
  then show ?thesis
    using assms(3) by (auto simp: file_get_def Let_def dest: same_vmD split: option.splits if_splits)
qed

text \<open>
  The shape that most calls on a descriptor share: take the file, do something within
  \<^theory_text>\<open>keeps\<close>, give the file back.
\<close>

lemma with_file:
  assumes inv: "sys_inv s" and cnt: "slack (Suc n) s" and get: "file_get fd s = (Some f, s1)"
    and k: "keeps s1 s2"
  shows "sys_inv (file_decref H f s2) \<and> counts_le s (file_decref H f s2) \<and>
    current (file_decref H f s2) = current s"
proof -
  from sys_get [OF sys_inv_vm [OF inv] cnt get]
  have g: "f < MAX_FILES" "vm_inv no_refs (no_refs(f := 1)) s1" "current s1 = current s"
    "f_refcnt s1 = (f_refcnt s)(f := f_refcnt s f + 1)"
    by simp_all
  note K = keepsD [OF k g(2)]
  have i: "vm_inv no_refs no_refs (file_decref H f s2)"
    using vm_inv_decref [OF K(1) g(1), of H] by simp
  have "file_ok (f_refcnt s2 f) (fd_refs s2 f + vmr_refs s2 f + 1)"
    using K(1) files_invD [of "no_refs(f := 1)" s2 f] g(1) by (simp add: vm_inv_def)
  then have pos: "f_refcnt s2 f \<noteq> 0" by (auto simp: file_ok_def)
  have "unat (f_refcnt (file_decref H f s2) h) \<le> unat (f_refcnt s h)" if "h < MAX_FILES" for h
  proof (cases "h = f")
    case False
    then show ?thesis using K(2) g(4) that by (auto simp: counts_le_def)
  next
    case True
    have "unat (f_refcnt s2 f) \<le> Suc (unat (f_refcnt s f))"
      using K(2) g(1,4) unsaturated_Suc [OF slack_unsaturated [OF cnt g(1)]] by (auto simp: counts_le_def)
    then show ?thesis using True unat_minus_one [OF pos] by auto
  qed
  then have "counts_le s (file_decref H f s2)" by (simp add: counts_le_def)
  moreover have "current (file_decref H f s2) = current s"
    using K(3) g(3) same_vmD(11) [OF file_decref_frame(4), of H f s2] by simp
  ultimately show ?thesis using i inv by (simp add: sys_inv_def)
qed

lemma keeps_sys_inv: "keeps s s' \<Longrightarrow> sys_inv s \<Longrightarrow> sys_inv s'"
  by (auto simp: sys_inv_def dest: keepsD)

lemma without_file:
  assumes "sys_inv s" and "slack (Suc n) s" and "file_get fd s = (None, s1)"
  shows "s1 = s"
  using sys_get [OF sys_inv_vm [OF assms(1)] assms(2,3)] by simp

subsection \<open>Calls on a descriptor\<close>

lemma keeps_frontend: "frontend_syscall H n args s = (r, s') \<Longrightarrow> keeps s s'"
  by (rule keeps_frame) (rule files_frame_frontend)

definition stays :: "'h pk \<Rightarrow> 'h pk \<Rightarrow> bool" where
  "stays s s' \<longleftrightarrow> sys_inv s' \<and> counts_le s s' \<and> current s' = current s"

lemma stays_refl: "sys_inv s \<Longrightarrow> stays s s"
  by (simp add: stays_def)

lemma keeps_stays: "keeps s s' \<Longrightarrow> sys_inv s \<Longrightarrow> stays s s'"
  using keepsD [of s s' no_refs] by (simp add: stays_def sys_inv_def)

lemma stays_trans: "stays s t \<Longrightarrow> stays t u \<Longrightarrow> stays s u"
  unfolding stays_def by (metis counts_le_trans)

lemma stays_slack: "stays s s' \<Longrightarrow> slack n s \<Longrightarrow> slack n s'"
  using slack_counts_le unfolding stays_def by blast

lemma with_file_stays:
  assumes "sys_inv s" and "slack (Suc n) s" and "file_get fd s = (Some f, s1)" and "keeps s1 s2"
  shows "stays s (file_decref H f s2)"
  using with_file [OF assms, of H] by (simp add: stays_def)

lemma sys_read_stays:
  assumes "sys_inv s" and "slack (Suc n) s" and "sys_read E fd buf len s = Some (r, s')"
  shows "stays s s'"
  using assms with_file_stays without_file
  by (fastforce simp: sys_read_def bind_Some_iff stays_refl dest: ua.R_file_read split: prod.splits option.splits)

lemma sys_pread_stays:
  assumes "sys_inv s" and "slack (Suc n) s" and "sys_pread E fd buf len off s = Some (r, s')"
  shows "stays s s'"
  using assms with_file_stays without_file
  by (fastforce simp: sys_pread_def bind_Some_iff stays_refl dest: ua.R_file_pread split: prod.splits option.splits)

lemma sys_write_stays:
  assumes "sys_inv s" and "slack (Suc n) s" and "sys_write E fd buf len s = Some (r, s')"
  shows "stays s s'"
  using assms with_file_stays without_file
  by (fastforce simp: sys_write_def bind_Some_iff stays_refl dest: ua.R_file_write split: prod.splits option.splits)

lemma writev_loop_stays:
  assumes "sys_inv s" and "slack (Suc n) s" and "writev_loop E fd iov k i acc s = Some (r, s')"
  shows "stays s s'"
  using assms
proof (induction k arbitrary: i acc s)
  case 0
  then show ?case by (simp add: stays_refl)
next
  case (Suc k)
  from Suc.prems(3) obtain base s1 len s2 r1 s3
    where u: "uload64 (pf E) (iov + 16 * i) s = Some (base, s1)"
      "uload64 (pf E) (iov + 16 * i + 8) s1 = Some (len, s2)"
      and w: "sys_write E fd base len s2 = Some (r1, s3)"
      and k: "(if sint r1 < 0 then Some (r1, s3) else writev_loop E fd iov k (i + 1) (acc + r1) s3)
        = Some (r, s')"
    by (auto simp: bind_Some_iff)
  have "keeps s s2" using ua.R_uload64 [OF u(1)] ua.R_uload64 [OF u(2)] by (rule keeps_trans)
  then have a: "stays s s2" using Suc.prems(1) by (rule keeps_stays)
  then have b: "stays s2 s3"
    using sys_write_stays [OF _ _ w] stays_slack [OF a Suc.prems(2)] by (auto simp: stays_def)
  then have c: "stays s s3" using a stays_trans by blast
  show ?case
  proof (cases "sint r1 < 0")
    case True
    then show ?thesis using k c by simp
  next
    case False
    then have "stays s3 s'"
      using k Suc.IH [of s3] stays_slack [OF c Suc.prems(2)] c by (auto simp: stays_def)
    with c show ?thesis by (rule stays_trans)
  qed
qed

lemma sys_writev_stays:
  assumes "sys_inv s" and "slack (Suc n) s" and "sys_writev E fd iov cnt s = Some (r, s')"
  shows "stays s s'"
  using writev_loop_stays assms unfolding sys_writev_def by blast

lemma sys_fcntl_stays:
  assumes "sys_inv s" and "slack (Suc n) s" and "sys_fcntl E fd cmd arg s = (r, s')"
  shows "stays s s'"
  using assms with_file_stays without_file
  by (fastforce simp: sys_fcntl_def stays_refl dest: keeps_frontend split: prod.splits option.splits)

lemma keeps_truncate: "file_truncate H f len s = (r, s') \<Longrightarrow> keeps s s'"
  using keeps_frontend [of H SYS_ftruncate "[scast (f_kfd s f), len, 0, 0, 0, 0, 0]" s]
  by (cases "frontend_syscall H SYS_ftruncate [scast (f_kfd s f), len, 0, 0, 0, 0, 0] s")
    (simp add: file_truncate_def)

lemma keeps_lseek: "file_lseek H f p d s = (r, s') \<Longrightarrow> keeps s s'"
  unfolding file_lseek_def by (rule keeps_frontend)

lemma sys_ftruncate_stays:
  assumes "sys_inv s" and "slack (Suc n) s" and "sys_ftruncate E fd len s = (r, s')"
  shows "stays s s'"
  using assms with_file_stays without_file
  by (fastforce simp: sys_ftruncate_def stays_refl dest: keeps_truncate
      split: prod.splits option.splits)

lemma sys_lseek_stays:
  assumes "sys_inv s" and "slack (Suc n) s" and "sys_lseek E fd p d s = (r, s')"
  shows "stays s s'"
  using assms with_file_stays without_file
  by (fastforce simp: sys_lseek_def stays_refl dest: keeps_lseek
      split: prod.splits option.splits)

text \<open>What is relied on of the C library's way to store a \<^verbatim>\<open>struct stat\<close>.\<close>

definition put_ok :: "'h env \<Rightarrow> bool" where
  "put_ok E \<longleftrightarrow> (\<forall>a x s s'. e_put E a x s = Some s' \<longrightarrow> keeps s s')"

lemma sys_fstat_stays:
  assumes "put_ok E" and "sys_inv s" and "slack (Suc n) s" and "sys_fstat E fd st s = Some (r, s')"
  shows "stays s s'"
proof -
  have "keeps t t'" if st: "file_stat (e_put E) (e_host E) f st t = Some (x, t')" for f x t t'
  proof -
    obtain y u where "frontend_syscall (e_host E) SYS_fstat
        [scast (f_kfd t f), va2pa t (kbuf t), 0, 0, 0, 0, 0] t = (y, u)"
      and "e_put E st (copy_stat (mem u) (va2pa u (kbuf t))) u = Some t'"
      using st by (auto simp: file_stat_def Let_def bind_Some_iff split: prod.splits)
    then show ?thesis
      using keeps_frontend keeps_trans assms(1) unfolding put_ok_def by blast
  qed
  then show ?thesis
    using assms(2-) with_file_stays without_file
    by (fastforce simp: sys_fstat_def bind_Some_iff stays_refl split: prod.splits option.splits)
qed

text \<open>Putting a file into the table.\<close>

lemma vm_inv_dup:
  assumes "vm_inv d e s" and "f < MAX_FILES" and "unsaturated s f" and "file_dup f s = Some (r, s')"
  shows "vm_inv d e s'" "current s' = current s"
proof -
  have "files_inv e s' \<and> same_vm s s'"
    using file_dup_inv [of e s f r s'] assms by (auto simp: vm_inv_def)
  then show "vm_inv d e s'" "current s' = current s"
    using assms(1) same_vm_maps [of s s' d] same_vmD(11) [of s s'] by (auto simp: vm_inv_def)
qed

lemma sys_dup_inv:
  assumes inv: "sys_inv s" and cnt: "slack 2 s" and ret: "sys_dup E fd s = Some (r, s')"
  shows "sys_inv s'"
proof (cases "file_get fd s")
  case (Pair q s1)
  show ?thesis
  proof (cases q)
    case None
    then have "s1 = s" using without_file [OF inv, of 1 fd s1] cnt Pair by (simp add: eval_nat_numeral)
    with Pair None ret inv show ?thesis by (simp add: sys_dup_def)
  next
    case (Some f)
    have sl: "slack (Suc 1) s" using cnt by (simp add: eval_nat_numeral)
    from sys_get [OF sys_inv_vm [OF inv] sl Pair] Some
    have g: "f < MAX_FILES" "vm_inv no_refs (no_refs(f := 1)) s1" "current s1 = current s"
      "f_refcnt s1 = (f_refcnt s)(f := f_refcnt s f + 1)"
      by simp_all
    have "slack (Suc 0) s1" using slack_incr [OF sl g(4,1)] by simp
    then have u: "unsaturated s1 f" using g(1) by (rule slack_unsaturated)
    obtain s2 where d: "file_dup f s1 = Some (r, s2)" and s': "s' = file_decref (e_host E) f s2"
      using ret Pair Some by (auto simp: sys_dup_def bind_Some_iff)
    note i = vm_inv_dup [OF g(2,1) u d]
    have "vm_inv no_refs no_refs s'"
      using vm_inv_decref [OF i(1) g(1), of "e_host E"] by (simp add: s')
    moreover have "current s' = current s"
      using i(2) g(3) same_vmD(11) [OF file_decref_frame(4), of "e_host E" f s2] by (simp add: s')
    ultimately show ?thesis using inv by (simp add: sys_inv_def)
  qed
qed

subsection \<open>Calls on names\<close>

lemma at_kfd_inv:
  assumes inv: "sys_inv s" and cnt: "slack (Suc n) s" and ret: "at_kfd dirfd s = (k, s1)"
  shows "sys_inv s1" "slack n s1"
proof -
  have "sys_inv s1 \<and> slack n s1"
  proof (cases "dirfd = AT_FDCWD")
    case True
    then show ?thesis using assms slack_le [OF cnt, of n] by (simp add: at_kfd_def)
  next
    case False
    then obtain q where q: "file_get dirfd s = (q, s1)"
      using ret by (auto simp: at_kfd_def split: prod.splits option.splits)
    show ?thesis
    proof (cases q)
      case None
      then have "s1 = s" using without_file [OF inv cnt] q by blast
      then show ?thesis using inv slack_le [OF cnt, of n] by simp
    next
      case (Some f)
      with sys_get [OF sys_inv_vm [OF inv] cnt q]
      have "f < MAX_FILES" "vm_inv no_refs (no_refs(f := 1)) s1" "current s1 = current s"
        "f_refcnt s1 = (f_refcnt s)(f := f_refcnt s f + 1)"
        by simp_all
      then show ?thesis
        using vm_inv_forget slack_incr [OF cnt] inv by (auto simp: sys_inv_def)
    qed
  qed
  then show "sys_inv s1" "slack n s1" by simp_all
qed

lemma sys_name_at_inv:
  assumes inv: "sys_inv s" and cnt: "slack (Suc n) s" and ret: "sys_name_at nr E dirfd name x s = Some (r, s')"
  shows "sys_inv s'"
proof (cases "at_kfd dirfd s")
  case (Pair k s1)
  have i: "sys_inv s1" using at_kfd_inv [OF inv cnt Pair] by simp
  show ?thesis
  proof (cases "k = - 1")
    case True
    then show ?thesis using ret Pair i by (simp add: sys_name_at_def)
  next
    case False
    then obtain len s2 where "ustrlen (pf E) name s1 = Some (len, s2)"
      and "frontend_syscall (e_host E) nr [scast k, va2pa s2 name, len + 1, scast x, 0, 0, 0] s2 = (r, s')"
      using ret Pair by (auto simp: sys_name_at_def bind_Some_iff)
    then have "keeps s1 s'" using ua.R_ustrlen keeps_frontend keeps_trans by blast
    then show ?thesis using i by (rule keeps_sys_inv)
  qed
qed

lemma keeps_two_names:
  assumes "ustrlen (pf E) a s = Some (n, s1)" and "ustrlen (pf E) b s1 = Some (m, s2)"
    and "frontend_syscall H k args s2 = (r, s3)"
  shows "keeps s s3"
  using ua.R_ustrlen [OF assms(1)] ua.R_ustrlen [OF assms(2)] keeps_frontend [OF assms(3)]
  by (blast intro: keeps_trans)

lemma sys_renameat_inv:
  assumes inv: "sys_inv s" and cnt: "slack 2 s"
    and ret: "sys_renameat E d1 n1 d2 n2 s = Some (r, s')"
  shows "sys_inv s'"
proof -
  obtain k1 s1 where a: "at_kfd d1 s = (k1, s1)" by fastforce
  obtain k2 s2 where b: "at_kfd d2 s1 = (k2, s2)" by fastforce
  have sl: "slack (Suc (Suc 0)) s" using cnt by (simp add: eval_nat_numeral)
  note i1 = at_kfd_inv [OF inv sl a]
  note i2 = at_kfd_inv [OF i1 b]
  show ?thesis
  proof (cases "k1 \<noteq> - 1 \<and> k2 \<noteq> - 1")
    case True
    with ret a b obtain l1 s3 l2 s4 where u: "ustrlen (pf E) n1 s2 = Some (l1, s3)"
      "ustrlen (pf E) n2 s3 = Some (l2, s4)"
      and e: "(case frontend_syscall (e_host E) 38
          [scast k1, va2pa s4 n1, l1 + 1, scast k2, va2pa s4 n2, l2 + 1, 0] s4 of
        (x, s5) \<Rightarrow> Some (ucast x, s5)) = Some (r, s')"
      by (auto simp: sys_renameat_def Let_def bind_Some_iff)
    then obtain x where "frontend_syscall (e_host E) 38
        [scast k1, va2pa s4 n1, l1 + 1, scast k2, va2pa s4 n2, l2 + 1, 0] s4 = (x, s')"
      by (auto split: prod.splits)
    with u show ?thesis by (rule keeps_sys_inv [OF keeps_two_names i2(1)])
  next
    case False
    then show ?thesis using ret a b i2(1) by (auto simp: sys_renameat_def)
  qed
qed

lemma sys_linkat_inv:
  assumes inv: "sys_inv s" and cnt: "slack 2 s"
    and ret: "sys_linkat E d1 n1 d2 n2 fl s = Some (r, s')"
  shows "sys_inv s'"
proof -
  obtain k1 s1 where a: "at_kfd d1 s = (k1, s1)" by fastforce
  obtain k2 s2 where b: "at_kfd d2 s1 = (k2, s2)" by fastforce
  have sl: "slack (Suc (Suc 0)) s" using cnt by (simp add: eval_nat_numeral)
  note i1 = at_kfd_inv [OF inv sl a]
  note i2 = at_kfd_inv [OF i1 b]
  show ?thesis
  proof (cases "k1 \<noteq> - 1 \<and> k2 \<noteq> - 1")
    case True
    with ret a b obtain l1 s3 l2 s4 where "ustrlen (pf E) n1 s2 = Some (l1, s3)"
      "ustrlen (pf E) n2 s3 = Some (l2, s4)"
      "frontend_syscall (e_host E) 37
        [scast k1, va2pa s4 n1, l1 + 1, scast k2, va2pa s4 n2, l2 + 1, scast fl] s4 = (r, s')"
      by (auto simp: sys_linkat_def Let_def bind_Some_iff split: prod.splits)
    then show ?thesis by (rule keeps_sys_inv [OF keeps_two_names i2(1)])
  next
    case False
    then show ?thesis using ret a b i2(1) by (auto simp: sys_linkat_def)
  qed
qed

lemma keeps_stat_req:
  assumes "put_ok E" and "ustrlen (pf E) a s = Some (n, s1)"
    and "frontend_syscall H k args s1 = (r, s2)" and "e_put E st x s2 = Some s3"
  shows "keeps s s3"
proof -
  have "keeps s s2" using ua.R_ustrlen [OF assms(2)] keeps_frontend [OF assms(3)] by (rule keeps_trans)
  moreover have "keeps s2 s3" using assms(1,4) by (auto simp: put_ok_def)
  ultimately show ?thesis by (rule keeps_trans)
qed

lemma sys_fstatat_inv:
  assumes put: "put_ok E" and inv: "sys_inv s" and cnt: "slack (Suc n) s"
    and ret: "sys_fstatat E dirfd name st fl s = Some (r, s')"
  shows "sys_inv s'"
proof (cases "at_kfd dirfd s")
  case (Pair k s1)
  have i: "sys_inv s1" using at_kfd_inv [OF inv cnt Pair] by simp
  show ?thesis
  proof (cases "k = - 1")
    case True
    then show ?thesis using ret Pair i by (simp add: sys_fstatat_def)
  next
    case False
    then obtain len s2 s3 where "ustrlen (pf E) name s1 = Some (len, s2)"
      and "frontend_syscall (e_host E) 79
        [scast k, va2pa s2 name, len + 1, va2pa s2 (kbuf s1), scast fl, 0, 0] s2 = (r, s3)"
      and "e_put E st (copy_stat (mem s3) (va2pa s3 (kbuf s1))) s3 = Some s'"
      using ret Pair by (auto simp: sys_fstatat_def Let_def bind_Some_iff case_prod_Some_iff)
    then have "keeps s1 s'" by (rule keeps_stat_req [OF put])
    then show ?thesis using i by (rule keeps_sys_inv)
  qed
qed

lemma sys_lstat_inv:
  assumes put: "put_ok E" and inv: "sys_inv s" and ret: "sys_lstat E name st s = Some (r, s')"
  shows "sys_inv s'"
proof -
  obtain len s2 s3 where "ustrlen (pf E) name s = Some (len, s2)"
    and "frontend_syscall (e_host E) 1039
      [va2pa s2 name, len + 1, va2pa s2 (kbuf s), 0, 0, 0, 0] s2 = (r, s3)"
    and "e_put E st (copy_stat (mem s3) (va2pa s3 (kbuf s))) s3 = Some s'"
    using ret by (auto simp: sys_lstat_def Let_def bind_Some_iff case_prod_Some_iff)
  then have "keeps s s'" by (rule keeps_stat_req [OF put])
  then show ?thesis using inv by (rule keeps_sys_inv)
qed

text \<open>Opening: the answer is the file taken from the pool, which the caller now refers to.\<close>

lemma file_openat_inv:
  assumes inv: "vm_inv no_refs no_refs s" and sl: "slack n s" and n: "n \<le> 2"
    and ret: "file_openat (handle_page_fault H) K dirfd fn flags mode s = Some (r, s')"
  shows "current s' = current s \<and>
    (case r of
       Inl _ \<Rightarrow> vm_inv no_refs no_refs s'
     | Inr f \<Rightarrow> f < MAX_FILES \<and> vm_inv no_refs (no_refs(f := 1)) s' \<and> slack n s' \<and>
         f_refcnt s f = 0 \<and> f_refcnt s' f = 2)"
proof (cases "file_get_free s")
  case (Pair q s1)
  have fi: "files_inv no_refs s" using inv by (simp add: vm_inv_def)
  show ?thesis
  proof (cases q)
    case None
    with Pair ret inv file_get_free_inv [OF fi Pair] show ?thesis by (auto simp: file_openat_def)
  next
    case (Some f)
    with file_get_free_inv [OF fi Pair]
    have g: "f < MAX_FILES" "f_refcnt s f = 0" "files_inv (no_refs(f := 1)) s1" "same_vm s s1"
      by simp_all
    have rc: "f_refcnt s1 = (f_refcnt s)(f := 2)"
      using Pair Some by (auto simp: file_get_free_def split: option.splits)
    have i1: "vm_inv no_refs (no_refs(f := 1)) s1"
      using g inv same_vm_maps [OF g(4), of no_refs] by (simp add: vm_inv_def)
    obtain len s2 x s3 where u: "ustrlen (handle_page_fault H) fn s1 = Some (len, s2)"
      and h: "frontend_syscall K SYS_openat
        [scast dirfd, va2pa s2 fn, len + 1, scast flags, scast mode, 0, 0] s2 = (x, s3)"
      and out: "(r, s') = (if sint x \<ge> 0 then (Inr f, s3\<lparr>f_kfd := (f_kfd s3)(f := ucast x)\<rparr>)
        else (Inl x, file_decref K f s3))"
      using ret Pair Some by (fastforce simp: file_openat_def Let_def bind_Some_iff case_prod_Some_iff)
    have k: "keeps s1 s3" using ua.R_ustrlen [OF u] keeps_frontend [OF h] by (rule keeps_trans)
    note K = keepsD [OF k i1]
    have c1: "current s1 = current s" using same_vmD(11) [OF g(4)] by simp
    have "slack n s1" using sl n rc by (auto simp: slack_def)
    then have sl3: "slack n s3" using K(2) by (rule slack_counts_le)
    have "unat (f_refcnt s3 f) \<le> 2" using K(2) g(1) rc by (auto simp: counts_le_def)
    moreover have "file_ok (f_refcnt s3 f) (fd_refs s3 f + vmr_refs s3 f + 1)"
      using K(1) files_invD [of "no_refs(f := 1)" s3 f] g(1) by (simp add: vm_inv_def)
    ultimately have "unat (f_refcnt s3 f) = unat (2 :: u32)" by (auto simp: file_ok_def split: if_splits)
    then have un: "f_refcnt s3 f = 2" by (metis word_unat_eq_iff)
    show ?thesis
    proof (cases "sint x \<ge> 0")
      case True
      have "vm_inv no_refs (no_refs(f := 1)) (s3\<lparr>f_kfd := (f_kfd s3)(f := ucast x)\<rparr>)"
        using K(1) same_vm_maps [of s3 "s3\<lparr>f_kfd := (f_kfd s3)(f := ucast x)\<rparr>" no_refs]
        by (simp add: vm_inv_def)
      then show ?thesis using out True g K(3) c1 sl3 un by (simp add: slack_def)
    next
      case False
      have "vm_inv no_refs no_refs (file_decref K f s3)"
        using vm_inv_decref [OF K(1) g(1), of K] by simp
      moreover have "current (file_decref K f s3) = current s"
        using K(3) c1 same_vmD(11) [OF file_decref_frame(4), of K f s3] by simp
      ultimately show ?thesis using out False by simp
    qed
  qed
qed

lemma sys_openat_inv:
  assumes inv: "sys_inv s" and cnt: "slack 2 s" and ret: "sys_openat E dirfd name fl mode s = Some (r, s')"
  shows "sys_inv s'"
proof (cases "at_kfd dirfd s")
  case (Pair k s1)
  have sl: "slack (Suc 1) s" using cnt by (simp add: eval_nat_numeral)
  note i = at_kfd_inv [OF inv sl Pair]
  show ?thesis
  proof (cases "k = - 1")
    case True
    then show ?thesis using ret Pair i by (simp add: sys_openat_def)
  next
    case False
    then obtain q s2 where o: "file_openat (pf E) (e_host E) k name fl mode s1 = Some (q, s2)"
      using ret Pair by (auto simp: sys_openat_def bind_Some_iff)
    note O = file_openat_inv [OF sys_inv_vm [OF i(1)] i(2) _ o, simplified]
    have cur: "sys_limits (current s2)" using O i(1) by (simp add: sys_inv_def)
    show ?thesis
    proof (cases q)
      case (Inl err)
      then show ?thesis using ret Pair False o O cur by (simp add: sys_openat_def sys_inv_def)
    next
      case (Inr f)
      then have f: "f < MAX_FILES" "vm_inv no_refs (no_refs(f := 1)) s2" "unsaturated s2 f"
        using O by (simp_all add: unsaturated_def)
      obtain fd s3 where d: "file_dup f s2 = Some (fd, s3)"
        and s': "s' = (if sint fd < 0 then file_decref (e_host E) f s3 else s3)"
        using ret Pair False o Inr by (auto simp: sys_openat_def bind_Some_iff split: if_splits)
      note D = vm_inv_dup [OF f(2,1,3) d]
      have "vm_inv no_refs no_refs s3" using vm_inv_forget [OF D(1)] .
      moreover have "vm_inv no_refs no_refs (file_decref (e_host E) f s3)"
        using vm_inv_decref [OF D(1) f(1), of "e_host E"] by simp
      moreover have "current s' = current s2"
        using D(2) same_vmD(11) [OF file_decref_frame(4), of "e_host E" f s3] s' by simp
      ultimately show ?thesis using cur s' by (simp add: sys_inv_def)
    qed
  qed
qed

lemma sys_close_inv:
  assumes inv: "sys_inv s" and cnt: "slack (Suc n) s" and ret: "sys_close E fd s = (r, s')"
  shows "sys_inv s'"
proof -
  obtain x where c: "fd_close (e_host E) fd s = (x, s')"
    using ret by (auto simp: sys_close_def split: prod.splits if_splits)
  have "files_inv no_refs s' \<and> same_vm s s'"
    using fd_close_spec [OF _ _ c, of no_refs] inv slack_unsaturated [OF cnt]
    by (simp add: sys_inv_def vm_inv_def)
  then show ?thesis
    using inv same_vm_maps [of s s' no_refs] same_vmD(11) [of s s'] by (simp add: sys_inv_def vm_inv_def)
qed

lemma sys_getcwd_inv:
  assumes "sys_inv s" and "sys_getcwd E buf sz s = Some (r, s')"
  shows "sys_inv s'"
proof -
  have "keeps s s'"
    using assms(2) by (auto simp: sys_getcwd_def bind_Some_iff
        intro: keeps_trans ua.R_populate keeps_frontend)
  then show ?thesis using assms(1) by (rule keeps_sys_inv)
qed

lemma sys_chdir_inv:
  assumes "sys_inv s" and "sys_chdir E path s = (r, s')"
  shows "sys_inv s'"
  using assms keeps_sys_inv [OF keeps_frontend]
  by (cases "frontend_syscall (e_host E) 49 [va2pa s path, 0, 0, 0, 0, 0, 0] s") (auto simp: sys_chdir_def)

lemmas user_stores = ua.R_ustore64 ua.R_ustore_string ua.R_ustore_bytes

lemma sys_uname_keeps:
  assumes "sys_uname E a s = Some (r, s')"
  shows "keeps s s'"
proof -
  obtain s0 s1 s2 s3 s4 where "keeps s s0" "keeps s0 s1" "keeps s1 s2" "keeps s2 s3" "keeps s3 s4"
    "keeps s4 s'"
    using assms unfolding sys_uname_def bind_Some_iff by (auto dest!: user_stores)
  then show ?thesis by (meson keeps_trans)
qed

lemma sys_times_keeps:
  assumes "sys_times E a s = Some (r, s')"
  shows "keeps s s'"
proof -
  obtain s1 s2 s3 where "keeps s s1" "keeps s1 s2" "keeps s2 s3" "keeps s3 s'"
    using assms unfolding sys_times_def Let_def bind_Some_iff by (auto dest!: user_stores)
  then show ?thesis by (meson keeps_trans)
qed

lemma sys_clock_keeps:
  "sys_rt_sigaction E a s = Some (r, s') \<Longrightarrow> keeps s s'"
  "sys_time E a s = Some (t, s') \<Longrightarrow> keeps s s'"
  "sys_gettimeofday E a s = Some (r, s') \<Longrightarrow> keeps s s'"
  "sys_clock_gettime E a s = Some (t, s') \<Longrightarrow> keeps s s'"
  by (auto simp: sys_rt_sigaction_def sys_time_def sys_gettimeofday_def sys_clock_gettime_def
      bind_Some_iff Let_def split: if_splits intro: user_stores keeps_trans)

subsection \<open>Calls on memory\<close>

lemma sys_brk_inv:
  assumes inv: "sys_inv s" and ret: "sys_brk E a s = Some (r, s')"
  shows "sys_inv s'"
proof -
  let ?c = "current s"
  have lim: "unat (mmap_max ?c) \<le> 2 ^ 31" "unat (mmap_max ?c) mod 4096 = 0"
    "brk_max ?c \<le> mmap_max ?c" "brk_min ?c \<le> mmap_max ?c" "unat (brk ?c) mod 4096 = 0" "brk ?c \<le> mmap_max ?c"
    "unat (brk_max ?c) mod 4096 = 0"
    using inv by (simp_all add: sys_inv_def sys_limits_def)
  have D: "r = brk_target ?c a" "current s' = ?c\<lparr>brk := ROUNDUP r RISCV_PGSIZE\<rparr>"
    "vm_inv no_refs no_refs s'"
    using do_brk_spec [OF sys_inv_vm [OF inv] _ _ _ _ _ ret [unfolded sys_brk_def]] lim
    by (auto simp: Let_def word_le_nat_alt)
  have le: "unat r \<le> unat (mmap_max ?c)"
    using lim(3,4) by (auto simp: D(1) brk_target_def word_le_nat_alt not_less)
  then have "unat (ROUNDUP r RISCV_PGSIZE) = (unat r + 4095) div 4096 * 4096"
    using lim(1) by (intro roundup_unat) simp
  moreover obtain q where "unat (mmap_max ?c) = 4096 * q" by (rule mod_4096_obtain [OF lim(2)])
  ultimately have "unat (ROUNDUP r RISCV_PGSIZE) mod 4096 = 0"
    "unat (ROUNDUP r RISCV_PGSIZE) \<le> unat (mmap_max ?c)"
    using le by simp_all
  then show ?thesis using D lim by (simp add: sys_inv_def sys_limits_def word_le_nat_alt)
qed

lemma sys_munmap_inv:
  assumes inv: "sys_inv s" and ret: "sys_munmap E a len s = Some (r, s')"
  shows "sys_inv s'"
proof (cases "a AND (RISCV_PGSIZE - 1) \<noteq> 0 \<or> \<not> valid_user_range s a len")
  case True
  then show ?thesis using ret inv by (simp add: sys_munmap_def do_munmap_def)
next
  case False
  obtain t where t: "do_munmap_locked (e_host E) a len (s\<lparr>vm_lock := True\<rparr>) = Some t"
    and s': "s' = spinlock_unlock t"
    using ret False by (auto simp: sys_munmap_def do_munmap_def bind_Some_iff spinlock_lock_iff)
  have "user_range a len" using user_valid_range [of s a len] inv False by (simp add: sys_inv_def sys_limits_def)
  from do_munmap_locked_spec [of no_refs no_refs "s\<lparr>vm_lock := True\<rparr>", OF _ this, of "e_host E"] t inv
  show ?thesis by (simp add: sys_inv_def s' vm_frame_def spinlock_unlock_def [abs_def])
qed

lemma mprotect_loop_inv:
  assumes "mprotect_loop prot a lim s = Some (r, s')" and "vm_inv d e s"
  shows "vm_inv d e s' \<and> current s' = current s \<and> f_refcnt s' = f_refcnt s"
proof -
  let ?Q = "\<lambda>s x. vm_inv d e s \<longrightarrow> vm_inv d e (snd x) \<and>
    current (snd x) = current s \<and> f_refcnt (snd x) = f_refcnt s"
  have "?Q s (r, s')"
  proof (rule mprotect_loop.raw_induct [where P = "\<lambda>p a l s x. ?Q s x", OF _ assms(1)])
    fix f p a l and s :: "'a pk" and x
    assume IH: "\<And>p a l s x. f p a l s = Some x \<Longrightarrow> ?Q s x"
      and eq: "(if a < l
          then let (res, s1) = mprotect_page p a s
            in if res \<noteq> 0 then Some (res, s1) else f p (a + RISCV_PGSIZE) l s1
          else Some (0, s)) = Some x"
    obtain res s1 where m: "mprotect_page p a s = (res, s1)" by fastforce
    show "?Q s x"
    proof (cases "a < l")
      case False
      then show ?thesis using eq by auto
    next
      case True
      then have k: "(if res \<noteq> 0 then Some (res, s1) else f p (a + RISCV_PGSIZE) l s1) = Some x"
        using eq m by simp
      have "?Q s1 x" using k IH [of p "a + RISCV_PGSIZE" l s1 x] by (auto split: if_splits)
      moreover have "f_refcnt s1 = f_refcnt s"
        using m by (auto simp: mprotect_page_def Let_def split: if_splits)
      ultimately show ?thesis using mprotect_page_spec [OF _ m, of d e] by (auto simp: vm_frame_def)
    qed
  qed
  then show ?thesis using assms(2) by simp
qed

lemma sys_mprotect_inv:
  assumes inv: "sys_inv s" and ret: "sys_mprotect a len prot s = Some (r, s')"
  shows "sys_inv s'"
proof (cases "a AND (RISCV_PGSIZE - 1) \<noteq> 0")
  case True
  then show ?thesis using ret inv by (simp add: sys_mprotect_def do_mprotect_def)
next
  case False
  then obtain t where t: "mprotect_loop prot a (a + len) (s\<lparr>vm_lock := True\<rparr>) = Some (r, t)"
    and s': "s' = spinlock_unlock t"
    using ret by (auto simp: sys_mprotect_def do_mprotect_def bind_Some_iff spinlock_lock_iff)
  from mprotect_loop_inv [OF t, of no_refs no_refs] inv show ?thesis
    by (simp add: sys_inv_def s' spinlock_unlock_def [abs_def])
qed

lemma sys_mmap_inv:
  assumes inv: "sys_inv s" and cnt: "slack 2 s"
    and small: "flags AND MAP_FIXED = 0 \<Longrightarrow>
        brk (current s) \<noteq> 0 \<and> len \<le> mmap_max (current s)"
    and ret: "sys_mmap E a len prot flags fd off s = Some (r, s')"
  shows "sys_inv s'"
proof -
  let ?c = "current s"
  have lim: "sys_limits ?c" using inv by (simp add: sys_inv_def)
  have sm: "limits_ok ?c \<and> unat len \<le> unat (mmap_max ?c)" if "flags AND MAP_FIXED = 0"
    using small [OF that] lim by (simp add: limits_ok_def sys_limits_def word_le_nat_alt)
  have l31: "unat (mmap_max ?c) \<le> 2 ^ 31" using lim by (simp add: sys_limits_def)
  note M = do_mmap_spec [OF sys_inv_vm [OF inv] _ l31 sm ret [unfolded sys_mmap_def]]
  have "sys_limits (current s')"
  proof (cases "r \<in> {- EINVAL, - EBADF, - 1}")
    case True
    then have "current s' = ?c" using M cnt by (simp add: counts_slack)
    then show ?thesis using lim by simp
  next
    case False
    then have "user_range r len"
      "current s' = ?c\<lparr>brk_max := (if r < brk_max ?c then r else brk_max ?c)\<rparr>"
      using M cnt by (simp_all add: counts_slack)
    then show ?thesis using lim by (auto simp: sys_limits_def user_range_def)
  qed
  then show ?thesis using M cnt by (simp add: sys_inv_def counts_slack)
qed

end
