(* ===== verification/SyscallProps.thy ===== *)
theory SyscallProps
  imports SyscallInv
begin

text \<open>
  The system-call interface as a whole: dispatch keeps the invariant of the kernel, bad
  descriptors get \<^verbatim>\<open>EBADF\<close>, and what opening, closing and the directory calls do to the
  reference counts.
\<close>

subsection \<open>Dispatch\<close>

lemma ret64_iff: "ret64 x = Some (Inr (r, s)) \<longleftrightarrow> x = Some (r, s)"
  by (cases x) (auto simp: ret64_def)

lemma ret32_iff: "ret32 x = Some (Inr (r, s)) \<longleftrightarrow> (\<exists>y. x = Some (y, s) \<and> r = scast y)"
  by (cases x) (auto simp: ret32_def)

text \<open>
  When a call may be made: counts are two below saturation, and a mapping whose place the
  kernel chooses is not larger than the address space and comes after the first \<^verbatim>\<open>brk\<close>.
\<close>

definition mmap_args_ok :: "sysargs \<Rightarrow> 'h pk \<Rightarrow> bool" where
  "mmap_args_ok args s = (case args of (a0, a1, a2, a3, a4, a5) \<Rightarrow>
     (ucast a3 :: u32) AND MAP_FIXED = 0 \<longrightarrow> brk (current s) \<noteq> 0 \<and> a1 \<le> mmap_max (current s))"

definition call_ok :: "u64 \<Rightarrow> sysargs \<Rightarrow> 'h pk \<Rightarrow> bool" where
  "call_ok n args s \<longleftrightarrow> counts_ok s \<and> (n = 222 \<longrightarrow> mmap_args_ok args s)"

lemma stays_inv: "stays s s' \<Longrightarrow> sys_inv s'"
  by (simp add: stays_def)

lemmas descriptor_calls =
  stays_inv [OF sys_read_stays [where n = 1, unfolded Suc_1]]
  stays_inv [OF sys_pread_stays [where n = 1, unfolded Suc_1]]
  stays_inv [OF sys_write_stays [where n = 1, unfolded Suc_1]]
  stays_inv [OF sys_writev_stays [where n = 1, unfolded Suc_1]]
  stays_inv [OF sys_fcntl_stays [where n = 1, unfolded Suc_1]]
  stays_inv [OF sys_ftruncate_stays [where n = 1, unfolded Suc_1]]
  stays_inv [OF sys_lseek_stays [where n = 1, unfolded Suc_1]]
  stays_inv [OF sys_fstat_stays [where n = 1, unfolded Suc_1]]
  sys_dup_inv

lemmas name_calls =
  sys_openat_inv sys_close_inv [where n = 1, unfolded Suc_1]
  sys_name_at_inv [where n = 1, unfolded Suc_1] sys_fstatat_inv [where n = 1, unfolded Suc_1]
  sys_renameat_inv sys_linkat_inv sys_lstat_inv sys_getcwd_inv sys_chdir_inv

lemmas memory_calls = sys_brk_inv sys_munmap_inv sys_mprotect_inv sys_mmap_inv

lemmas clock_calls =
  keeps_sys_inv [OF sys_uname_keeps] keeps_sys_inv [OF sys_times_keeps]
  keeps_sys_inv [OF sys_clock_keeps(1)] keeps_sys_inv [OF sys_clock_keeps(2)]
  keeps_sys_inv [OF sys_clock_keeps(3)] keeps_sys_inv [OF sys_clock_keeps(4)]

definition handler_ok :: "u64 \<times> 'h handler \<Rightarrow> bool" where
  "handler_ok nh \<longleftrightarrow> (\<forall>E args s r s'. put_ok E \<and> sys_inv s \<and> call_ok (fst nh) args s \<longrightarrow>
     snd nh E args s = Some (Inr (r, s')) \<longrightarrow> sys_inv s')"

lemma handler_okI:
  assumes "\<And>E a0 a1 a2 a3 a4 a5 s r s'. put_ok E \<Longrightarrow> sys_inv s \<Longrightarrow> slack 2 s \<Longrightarrow>
      (n = 222 \<Longrightarrow> mmap_args_ok (a0, a1, a2, a3, a4, a5) s) \<Longrightarrow>
      h E (a0, a1, a2, a3, a4, a5) s = Some (Inr (r, s')) \<Longrightarrow> sys_inv s'"
  shows "handler_ok (n, h)"
  using assms by (auto simp: handler_ok_def call_ok_def counts_slack)

lemma syscall_table_ok: "list_all handler_ok syscall_table"
  unfolding syscall_table_def list.pred_inject
  by (intro conjI list.pred_inject(1))
    (rule handler_okI;
     auto simp: ret64_iff ret32_iff mmap_args_ok_def sys_faccessat_def sys_unlinkat_def
       sys_mkdirat_def sys_mremap_def
       dest: descriptor_calls name_calls memory_calls clock_calls)+

lemma old_syscall_table_ok: "list_all handler_ok old_syscall_table"
  unfolding old_syscall_table_def list.pred_inject
  by (intro conjI list.pred_inject(1))
    (rule handler_okI;
     auto simp: ret64_iff ret32_iff sys_open_def sys_link_def sys_unlink_def sys_mkdir_def
       sys_access_def sys_stat_def sys_faccessat_def sys_unlinkat_def sys_mkdirat_def
       dest: descriptor_calls name_calls memory_calls clock_calls)+

lemma handler_in_table:
  assumes "syscall_handler n = Some h"
  shows "(n, h) \<in> set syscall_table \<or> 1024 \<le> n \<and> (n - 1024, h) \<in> set old_syscall_table"
proof (cases "n < 262")
  case True
  then show ?thesis using assms by (auto simp: syscall_handler_def dest: map_of_SomeD)
next
  case False
  then have "n - 1024 < 39" and "map_of old_syscall_table (n - 1024) = Some h"
    using assms by (auto simp: syscall_handler_def split: if_splits)
  moreover have "1024 \<le> n" if "n - 1024 < (39 :: u64)" "\<not> n < 262"
    using that by unat_arith auto
  ultimately show ?thesis using False by (auto dest: map_of_SomeD)
qed

lemma do_syscall_inv:
  assumes "put_ok E" and "sys_inv s" and "call_ok n args s"
    and ret: "do_syscall E args n s = Some (Inr (r, s'))"
  shows "sys_inv s'"
proof -
  obtain h where h: "syscall_handler n = Some h" and e: "h E args s = Some (Inr (r, s'))"
    using ret by (auto simp: do_syscall_def split: option.splits)
  consider "(n, h) \<in> set syscall_table" | "1024 \<le> n" "(n - 1024, h) \<in> set old_syscall_table"
    using handler_in_table [OF h] by blast
  then show ?thesis
  proof cases
    case 1
    then have "handler_ok (n, h)" using syscall_table_ok by (auto simp: list_all_iff)
    then show ?thesis using assms e unfolding handler_ok_def fst_conv snd_conv by blast
  next
    case 2
    then have "handler_ok (n - 1024, h)" using old_syscall_table_ok by (auto simp: list_all_iff)
    moreover have "call_ok (n - 1024) args s"
    proof -
      have "n - 1024 \<noteq> 222"
      proof
        assume "n - 1024 = 222"
        then have "(222, h) \<in> set old_syscall_table" using 2 by simp
        then show False by (simp add: old_syscall_table_def)
      qed
      then show ?thesis using assms(3) by (simp add: call_ok_def)
    qed
    ultimately show ?thesis using assms e unfolding handler_ok_def fst_conv snd_conv by blast
  qed
qed


lemma unknown_syscall:
  assumes "262 \<le> n \<and> n < 1024 \<or> 1063 \<le> n"
  shows "do_syscall E args n s = None"
proof -
  have "\<not> n < 262 \<and> \<not> n - 1024 < 39"
    using assms by unat_arith auto
  then have "(syscall_handler n :: 'a handler option) = None"
    by (simp add: syscall_handler_def)
  then show ?thesis by (simp add: do_syscall_def)
qed

subsection \<open>Descriptors\<close>

lemma closed_get:
  assumes "files_inv e s" and "unat fd < MAX_FDS \<Longrightarrow> fds s (unat fd) = None"
  shows "file_get fd s = (None, s)"
proof -
  have "unat fd < MAX_FDS" if "\<not> sint fd < 0" "\<not> int MAX_FDS \<le> sint fd"
    using sint_nonneg_unat [of fd] that by simp
  then show ?thesis using assms(2) by (auto simp: file_get_def)
qed


text \<open>
  C23. A call that names a directory by an open descriptor never gives the directory back:
  where the kernel's code holds \<open>e\<close> references before \<^verbatim>\<open>mkdirat\<close>, it holds one more after,
  and so after each such call, until the count of the file saturates.
\<close>

theorem directory_call_leaks:
  assumes inv: "vm_inv no_refs e s" and cnt: "slack (Suc n) s"
    and fd: "unat dirfd < MAX_FDS" "fds s (unat dirfd) = Some f"
    and ret: "sys_mkdirat E dirfd name mode s = Some (r, s')"
  shows "vm_inv no_refs (e(f := Suc (e f))) s'"
proof -
  have fi: "files_inv e s" using inv by (simp add: vm_inv_def)
  let ?s1 = "s\<lparr>f_refcnt := (f_refcnt s)(f := f_refcnt s f + 1)\<rparr>"
  have g: "file_get dirfd s = (Some f, ?s1)" by (rule file_get_open [OF fi fd(2,1)])
  have i: "vm_inv no_refs (e(f := Suc (e f))) ?s1" using sys_get [OF inv cnt g] by simp
  have "dirfd \<noteq> AT_FDCWD" using fd(1) by auto
  then have "at_kfd dirfd s = (f_kfd s f, ?s1)" using g by (simp add: at_kfd_def)
  with ret have "keeps ?s1 s'"
    by (auto simp: sys_mkdirat_def sys_name_at_def bind_Some_iff split: if_splits
        intro: keeps_trans [OF ua.R_ustrlen keeps_frontend])
  then show ?thesis using i by (rule keepsD)
qed

lemma err_value_negative:
  assumes "IS_ERR_VALUE err"
  shows "sint (ucast err :: u32) < 0"
proof -
  have "unat (- 4096 :: u64) = 2 ^ 64 - 4096" by simp
  then have "2 ^ 64 - 4096 \<le> unat err"
    using assms unfolding IS_ERR_VALUE_def word_le_nat_alt by simp
  moreover have "unat err < 2 ^ 64" using unsigned_less [of err] by simp
  ultimately have "unat err div 2 ^ 31 = 2 ^ 33 - 1" by (intro div_nat_eqI) simp_all
  then have "bit err 31"
    using bit_unsigned_iff [where ?'b = 64 and ?'a = nat, of err 31] by (simp add: bit_iff_odd)
  then have "bit (ucast err :: u32) 31" by (simp add: bit_ucast_iff)
  then show ?thesis using bit_last_iff [of "ucast err :: u32"] by simp
qed

text \<open>
  C22. Opening and closing does not return the file: after a successful \<^verbatim>\<open>openat\<close> and a
  \<^verbatim>\<open>close\<close> of its descriptor the descriptor is free again, but the entry of \<^verbatim>\<open>files\<close>, which
  was free before, is left with count 2 although nothing refers to it, and the host was
  never asked to close the file.
\<close>

theorem open_close_leaks:
  assumes inv: "sys_inv s" and cnt: "counts_ok s"
    and op: "sys_openat E dirfd name flags mode s = Some (fd, s1)" "0 \<le> sint fd"
  shows "\<exists>f s2. sys_close E fd s1 = (0, s2) \<and> fds s1 (unat fd) = Some f \<and> fds s2 (unat fd) = None \<and>
    f_refcnt s2 f = 2 \<and> fd_refs s2 f + vmr_refs s2 f = 0 \<and> hst s2 = hst s1"
proof -
  obtain k sk where a: "at_kfd dirfd s = (k, sk)" by fastforce
  have sl: "slack (Suc 1) s" using cnt by (simp add: counts_slack eval_nat_numeral)
  note i = at_kfd_inv [OF inv sl a]
  have nk: "k \<noteq> - 1"
  proof
    assume "k = - 1"
    then have "fd = - 9" using op(1) a by (simp add: sys_openat_def)
    then show False using op(2) by simp
  qed
  obtain q t where o: "file_openat (pf E) (e_host E) k name flags mode sk = Some (q, t)"
    using op(1) a nk by (auto simp: sys_openat_def bind_Some_iff)
  note O = file_openat_inv [OF sys_inv_vm [OF i(1)] i(2) _ o, simplified]
  have out: "(case q of Inl err \<Rightarrow> do { kassert (IS_ERR_VALUE err); Some (ucast err, t) }
     | Inr f \<Rightarrow> do {
         (fd, s3) \<leftarrow> file_dup f t;
         Some (if sint fd < 0 then (- ucast ENOMEM, file_decref (e_host E) f s3) else (fd, s3))
       }) = Some (fd, s1)"
    using op(1) a nk o by (simp add: sys_openat_def)
  show ?thesis
  proof (cases q)
    case (Inl err)
    then show ?thesis using out op(2) err_value_negative [of err] by auto
  next
    case (Inr f)
    then have f: "f < MAX_FILES" "vm_inv no_refs (no_refs(f := 1)) t" "f_refcnt t f = 2"
      using O by simp_all
    obtain x s3 where d: "file_dup f t = Some (x, s3)" and x: "x = fd" "s3 = s1"
      using out Inr op(2) by (auto simp: bind_Some_iff split: if_splits)
    have fi: "files_inv (no_refs(f := 1)) t" using f(2) by (simp add: vm_inv_def)
    have ok: "fd_refs t f + vmr_refs t f = 0"
      using files_invD [OF fi f(1)] by (simp add: f(3) file_ok_def)
    have ne: "fd \<noteq> - 1" using op(2) by auto
    have "unsaturated t f" by (simp add: unsaturated_def f(3))
    from file_dup_inv [OF fi f(1) this d] ne obtain j where j: "j < MAX_FDS" "fd = of_nat j"
      "fds t j = None" "fds s1 = (fds t)(j := Some f)" "f_refcnt s1 = (f_refcnt t)(f := 3)"
      and i1: "files_inv (no_refs(f := 1)) s1" and sv: "same_vm t s1"
      unfolding x by (auto simp: f(3))
    have uj: "unat fd = j" using j(1,2) by (simp add: unsigned_of_nat take_bit_nat_eq_self)
    have at: "fds s1 (unat fd) = Some f" "unat fd < MAX_FDS" using j uj by simp_all
    have e: "fds s1 = (fds t)(unat fd := Some f)" "f_refcnt s1 = (f_refcnt t)(f := 3)"
      using j(4,5) uj by simp_all
    define s2 where "s2 = s1\<lparr>fds := (fds s1)(unat fd := None), f_refcnt := (f_refcnt s1)(f := 2)\<rparr>"
    have cl: "sys_close E fd s1 = (0, s2)"
      using file_get_open [OF i1 at] by (simp add: sys_close_def fd_close_def file_decref_def e s2_def)
    have "fds s2 = fds t" using j(3) uj by (auto simp: s2_def e)
    moreover have "vmr_at s2 = vmr_at t" using same_vmD(3) [OF sv] by (simp add: s2_def)
    ultimately have "fd_refs s2 f + vmr_refs s2 f = 0"
      using ok fd_refs_cong [of s2 t] vmr_refs_cong [of s2 t] by simp
    then show ?thesis
      using cl at by (intro exI [of _ f] exI [of _ s2]) (simp add: s2_def)
  qed
qed

subsection \<open>Mapping before the first break\<close>

lemma vm_alloc_at_zero:
  assumes "brk (current s) = 0" and n: "unat npage = Suc n" and "npage * RISCV_PGSIZE \<le> mmap_max (current s)"
    and small: "4096 * n < 2 ^ 64" and free: "\<And>i. i \<le> n \<Longrightarrow> va_avail s (pg 0 i)"
  shows "vm_alloc npage s = Some 0"
proof -
  have av: "va_avail s 0" using free [of 0] by (simp add: pg_def)
  have "npage = of_nat (Suc n)" by (simp flip: n)
  then have last: "npage * RISCV_PGSIZE - RISCV_PGSIZE = pg 0 n" by (simp add: pg_def mult.commute)
  obtain m where m: "m \<le> n" "vm_alloc_down s 0 (pg 0 n) = Some (pg 0 m)"
    "0 < m \<longrightarrow> \<not> va_avail s (pg 0 m)"
    using vm_alloc_down_spec [of 0 n s] small by auto
  then have "m = 0" using free [of m] by auto
  then have "vm_alloc_down s 0 (pg 0 n) = Some 0" using m(2) by (simp add: pg_def)
  then show ?thesis
    using av assms(1) by (simp add: vm_alloc_def vm_alloc_loop.simps left_diff_distrib last)
qed

lemma mmap_locked_before_brk:
  assumes brk: "brk (current s) = 0" and flags: "flags AND MAP_FIXED = 0"
    and npage: "unat ((len - 1) div RISCV_PGSIZE + 1) = Suc n"
    and fits: "((len - 1) div RISCV_PGSIZE + 1) * RISCV_PGSIZE \<le> mmap_max (current s)"
    and free: "\<And>i. i \<le> n \<Longrightarrow> va_avail s (pg 0 i)"
    and ret: "do_mmap_locked H addr len prot flags f off s = Some (r, s')"
  shows "r = - 1 \<and> files_frame s s'"
proof -
  let ?np = "(len - 1) div RISCV_PGSIZE + 1"
  have "unat ((len - 1) div RISCV_PGSIZE) \<le> unat (len - 1)"
    by (simp add: unat_div_distrib)
  have "unat ((len - 1) div RISCV_PGSIZE) < 2 ^ 52"
  proof -
    have "unat (len - 1) < 2 ^ 64" using unsigned_less [of "len - 1"] by simp
    then show ?thesis by (simp add: unat_div_distrib)
  qed
  then have "unat ?np = unat ((len - 1) div RISCV_PGSIZE) + 1" by (simp add: unat_word_ariths)
  then have small: "4096 * n < 2 ^ 64"
    using npage \<open>unat ((len - 1) div RISCV_PGSIZE) < 2 ^ 52\<close> by simp
  have "vm_alloc ?np s = Some 0" by (rule vm_alloc_at_zero [OF brk npage fits small free])
  then have "printk no_fault H (lit ''domap failed 1'' @ [10]) [] s = Some s'" and "r = - 1"
    using ret flags by (auto simp: do_mmap_locked_def bind_Some_iff Let_def)
  then show ?thesis using vprintk_no_fault by blast
qed

text \<open>
  C24. Before the first call of \<^verbatim>\<open>brk\<close>, when the break is still 0, the kernel cannot place a
  mapping in an empty address space: the run of free pages it finds starts at address 0,
  which \<^verbatim>\<open>__do_mmap\<close> takes for failure, and \<^verbatim>\<open>mmap\<close> answers -1.
\<close>

theorem mmap_before_brk_fails:
  assumes brk: "brk (current s) = 0"
    and npage: "unat ((len - 1) div RISCV_PGSIZE + 1) = Suc n"
    and fits: "((len - 1) div RISCV_PGSIZE + 1) * RISCV_PGSIZE \<le> mmap_max (current s)"
    and free: "\<And>i. i \<le> n \<Longrightarrow> va_avail s (pg 0 i)"
    and ret: "do_mmap H addr len prot (MAP_PRIVATE OR MAP_ANONYMOUS) fd 0 s = Some (r, s')" "len \<noteq> 0"
  shows "r = - 1 \<and> pmap s' = pmap s \<and> current s' = current s"
proof -
  let ?s = "s\<lparr>vm_lock := True\<rparr>"
  have fl: "(MAP_PRIVATE OR MAP_ANONYMOUS) AND MAP_PRIVATE \<noteq> 0"
    "(MAP_PRIVATE OR MAP_ANONYMOUS) AND MAP_ANONYMOUS \<noteq> 0"
    "(MAP_PRIVATE OR MAP_ANONYMOUS) AND MAP_FIXED = 0" by simp_all
  obtain t where t: "do_mmap_locked H addr len prot (MAP_PRIVATE OR MAP_ANONYMOUS) None 0 ?s = Some (r, t)"
    and s': "s' = spinlock_unlock (if r < brk_max (current t)
        then t\<lparr>current := (current t)\<lparr>brk_max := r\<rparr>\<rparr> else t)"
    using ret fl by (auto simp: do_mmap_def Let_def bind_Some_iff spinlock_lock_iff)
  have wl: "walk ?s = walk s" by (rule walk_cong) simp_all
  have L: "r = - 1 \<and> files_frame ?s t"
    by (rule mmap_locked_before_brk [OF _ fl(3) npage _ _ t])
      (use brk fits free in \<open>simp_all add: va_avail_def wl\<close>)
  then have "\<not> r < brk_max (current t)" using word_order.extremum_strict by simp
  moreover have "same_vm ?s t" using L by (simp add: files_frame_def)
  ultimately show ?thesis
    using L same_vm_pmap [of ?s t] same_vmD(11) [of ?s t] by (simp add: s' spinlock_unlock_def)
qed

subsection \<open>Witnesses\<close>

definition sample_env :: "unit env" where
  "sample_env = \<lparr>e_host = sample_host, e_put = (\<lambda>_ _ s. Some s), e_cycle = 5, e_time = 5, e_instret = 3\<rparr>"

lemma sample_env_sel [simp]: "e_host sample_env = sample_host"
  by (simp add: sample_env_def)

lemma sample_put: "put_ok sample_env"
  by (simp add: put_ok_def sample_env_def)

lemma sample_sys_inv: "sys_inv sample_pt"
  using sample_vm_inv by (simp add: sys_inv_def sys_limits_def sample_pt_sel)



text \<open>A name in the kernel's own memory: no page is touched, and it is empty.\<close>

lemma sample_strlen:
  assumes "mem s = (\<lambda>_. 0)" and "first_free_paddr s = 0x80200000"
  shows "ustrlen fault 0x80000100 s = Some (0, s)"
  using assms
  by (simp add: ustrlen_def ustrlen_loop.simps touch_def accessible_def)

lemma sample_open:
  "\<exists>s'. sys_openat sample_env AT_FDCWD 0x80000100 0 0 sample_pt = Some (0, s')"
  by (simp add: sys_openat_def at_kfd_def file_openat_def file_get_free_def scan_from.simps sample_pt_sel
      sample_pt_def sample_strlen sample_pk_def frontend_syscall_def sample_host_def file_dup_def
      file_incref_def)

theorem open_close_leaks_witness:
  "\<exists>s1 s2 f. sys_openat sample_env AT_FDCWD 0x80000100 0 0 sample_pt = Some (0, s1) \<and>
     sys_close sample_env 0 s1 = (0, s2) \<and> f_refcnt s2 f = 2 \<and> fd_refs s2 f + vmr_refs s2 f = 0"
proof -
  obtain s1 where o: "sys_openat sample_env AT_FDCWD 0x80000100 0 0 sample_pt = Some (0, s1)"
    using sample_open by blast
  from open_close_leaks [OF sample_sys_inv sample_counts o] o show ?thesis by auto
qed

theorem directory_call_leaks_witness:
  "\<exists>r s'. sys_mkdirat sample_env 3 0x80000100 0 sample_pt = Some (r, s') \<and>
     vm_inv no_refs (no_refs(5 := 1)) s'"
proof -
  have "\<exists>r s'. sys_mkdirat sample_env 3 0x80000100 0 sample_pt = Some (r, s')"
    by (simp add: sys_mkdirat_def sys_name_at_def at_kfd_def file_get_def sample_pt_sel
        sample_pt_def sample_pk_def sample_strlen frontend_syscall_def sample_host_def)
  then obtain r s' where m: "sys_mkdirat sample_env 3 0x80000100 0 sample_pt = Some (r, s')" by blast
  have sl: "slack (Suc 1) sample_pt" using sample_counts by (simp add: counts_slack eval_nat_numeral)
  have fd: "unat (3 :: u32) < MAX_FDS" "fds sample_pt (unat (3 :: u32)) = Some 5"
    by (simp_all add: sample_pt_def)
  from directory_call_leaks [OF sample_vm_inv sl fd m] m show ?thesis by auto
qed

definition sample_unset :: "unit pk" where
  "sample_unset = sample_pt\<lparr>current := sample_elf\<lparr>brk := 0\<rparr>\<rparr>"

lemma sample_printk:
  assumes "kbuf s = 0x80010000" and "first_free_paddr s = 0x80200000"
  shows "\<exists>s'. printk no_fault sample_host (lit ''domap failed 1'' @ [10]) [] s = Some s'"
proof -
  have "text_of False False (lit ''domap failed 1'' @ [10]) [] = Some (lit ''domap failed 1'' @ [10])"
    by (simp add: lit_def of_char_def)
  from vsnprintf_render [OF this, of "0x80010000" 256] obtain m where
    "vsnprintf 0x80010000 256 (lit ''domap failed 1'' @ [10]) [] (mem s) = Some (15, m)"
    by (simp add: lit_def)
  then show ?thesis
    using assms by (simp add: vprintk_def file_write_def populate_mapping_def ROUNDDOWN_def page_for.simps
        touch_def accessible_def frontend_syscall_def sample_host_def)
qed

theorem mmap_before_brk_fails_witness:
  "\<exists>s'. do_mmap sample_host 0 1 3 (MAP_PRIVATE OR MAP_ANONYMOUS) 0 0 sample_unset = Some (- 1, s') \<and>
     pmap s' = pmap sample_unset"
proof -
  have sel: "brk (current sample_unset) = 0" "mmap_max (current sample_unset) = 0x7FFFF000"
    "vm_lock sample_unset = False" "kbuf sample_unset = 0x80010000"
    "first_free_paddr sample_unset = 0x80200000"
    by (simp_all add: sample_unset_def sample_pt_def sample_pk_def sample_elf_def)
  have av: "va_avail t (pg 0 0)" if "t = sample_unset \<or> t = sample_unset\<lparr>vm_lock := True\<rparr>" for t
    using that by (auto simp: va_avail_iff pte_at_def walk_def sample_unset_def sample_pt_def sample_pk_def
        numeral_2_eq_2)
  have "vm_alloc 1 (sample_unset\<lparr>vm_lock := True\<rparr>) = Some 0"
    using sel av by (intro vm_alloc_at_zero [where n = 0]) simp_all
  moreover obtain t where "printk no_fault sample_host (lit ''domap failed 1'' @ [10]) []
      (sample_unset\<lparr>vm_lock := True\<rparr>) = Some t"
    using sample_printk [of "sample_unset\<lparr>vm_lock := True\<rparr>"] sel by auto
  ultimately obtain s' where d:
    "do_mmap sample_host 0 1 3 (MAP_PRIVATE OR MAP_ANONYMOUS) 0 0 sample_unset = Some (- 1, s')"
    using sel by (simp add: do_mmap_def do_mmap_locked_def spinlock_lock_def)
  have "r = - 1 \<and> pmap t = pmap sample_unset"
    if "do_mmap sample_host 0 1 3 (MAP_PRIVATE OR MAP_ANONYMOUS) 0 0 sample_unset = Some (r, t)" for r t
    using mmap_before_brk_fails [OF sel(1) _ _ _ that, of 0] sel av by simp
  then show ?thesis using d by blast
qed

end
