(* ===== verification/Handlers.thy ===== *)
theory Handlers
  imports SyscallProps
begin

text \<open>
  The trap handlers of the proxy kernel, \<^verbatim>\<open>riscv-pk/pk/handlers.c\<close>, with \<^verbatim>\<open>dump_tf\<close> and
  \<^verbatim>\<open>do_panic\<close> of \<^verbatim>\<open>pk/console.c\<close>.  A trap either comes back with a trap frame, from which
  the program goes on, or ends in the state in which the machine has been asked to stop
  (\<^theory_text>\<open>Inl\<close>); there is no value where an assertion fails or the kernel hangs.  Then the
  life of a program as the kernel sees it: the states it can reach by traps.
\<close>

record trapframe =
  gpr :: "nat \<Rightarrow> u64"
  tf_status :: u64
  tf_epc :: u64
  tf_badvaddr :: u64
  tf_cause :: u64
  tf_insn :: u64

type_synonym 'h trapped = "('h pk + trapframe \<times> 'h pk) option"
type_synonym 'h trap_handler = "'h env \<Rightarrow> trapframe \<Rightarrow> 'h pk \<Rightarrow> 'h trapped"

subsection \<open>Panics\<close>

definition do_panic :: "'h env \<Rightarrow> u8 list \<Rightarrow> va list \<Rightarrow> 'h pk \<Rightarrow> 'h pk option" where
  "do_panic E fmt vl s =
     do { s1 \<leftarrow> vprintk (pf E) (e_host E) fmt vl s; Some (shutdown (e_host E) (- 1) s1) }"

text \<open>The macro \<^verbatim>\<open>panic\<close> adds a newline.\<close>

definition panic :: "'h env \<Rightarrow> string \<Rightarrow> va list \<Rightarrow> 'h pk \<Rightarrow> 'h trapped" where
  "panic E msg vl s = map_option Inl (do_panic E (lit msg @ [10]) vl s)"

definition regnames :: "string list" where
  "regnames =
     [''z '', ''ra'', ''sp'', ''gp'', ''tp'', ''t0'', ''t1'', ''t2'',
      ''s0'', ''s1'', ''a0'', ''a1'', ''a2'', ''a3'', ''a4'', ''a5'',
      ''a6'', ''a7'', ''s2'', ''s3'', ''s4'', ''s5'', ''s6'', ''s7'',
      ''s8'', ''s9'', ''sA'', ''sB'', ''t3'', ''t4'', ''t5'', ''t6'']"

primrec dump_regs :: "'h env \<Rightarrow> trapframe \<Rightarrow> nat list \<Rightarrow> 'h pk \<Rightarrow> 'h pk option" where
  "dump_regs E tf [] s = Some s"
| "dump_regs E tf (i # is) s =
     do {
       s1 \<leftarrow> printk (pf E) (e_host E) (lit ''%s %lx%c'')
         [VStr (lit (regnames ! i)), VLong (gpr tf i), VInt (if i mod 4 < 3 then 32 else 10)] s;
       dump_regs E tf is s1
     }"

definition dump_tf :: "'h env \<Rightarrow> trapframe \<Rightarrow> 'h pk \<Rightarrow> (trapframe \<times> 'h pk) option" where
  "dump_tf E tf s =
     do {
       let tf1 = tf\<lparr>gpr := (gpr tf)(0 := 0)\<rparr>;
       s1 \<leftarrow> dump_regs E tf1 [0..<32] s;
       s2 \<leftarrow> printk (pf E) (e_host E) (lit ''pc %lx va %lx insn       %x sr %lx'' @ [10])
         [VLong (tf_epc tf1), VLong (tf_badvaddr tf1), VInt (ucast (tf_insn tf1)), VLong (tf_status tf1)] s1;
       Some (tf1, s2)
     }"

text \<open>Handlers that print the frame and give up.\<close>

definition dump_and_panic :: "string \<Rightarrow> 'h trap_handler" where
  "dump_and_panic msg E tf s = do { (tf1, s1) \<leftarrow> dump_tf E tf s; panic E msg [] s1 }"

definition handle_instruction_access_fault :: "'h trap_handler" where
  "handle_instruction_access_fault = dump_and_panic ''Instruction access fault!''"

definition handle_load_access_fault :: "'h trap_handler" where
  "handle_load_access_fault = dump_and_panic ''Load access fault!''"

definition handle_store_access_fault :: "'h trap_handler" where
  "handle_store_access_fault = dump_and_panic ''Store/AMO access fault!''"

definition handle_misaligned_fetch :: "'h trap_handler" where
  "handle_misaligned_fetch = dump_and_panic ''Misaligned instruction access!''"

definition handle_misaligned_load :: "'h trap_handler" where
  "handle_misaligned_load = dump_and_panic ''Misaligned Load!''"

definition handle_misaligned_store :: "'h trap_handler" where
  "handle_misaligned_store = dump_and_panic ''Misaligned AMO!''"

definition insn_len :: "u64 \<Rightarrow> u32" where
  "insn_len insn = (if insn AND 3 < 3 then 2 else 4)"

text \<open>A two-byte load at an address of the program.\<close>

definition uload16 :: "'h fault \<Rightarrow> u64 \<Rightarrow> 'h pk \<Rightarrow> (u64 \<times> 'h pk) option" where
  "uload16 fault a s =
     do {
       s1 \<leftarrow> touch fault PROT_READ a s;
       s2 \<leftarrow> touch fault PROT_READ (a + 1) s1;
       Some (load_le 2 (mem s2) (va2pa s2 a), s2)
     }"

definition handle_illegal_instruction :: "'h trap_handler" where
  "handle_illegal_instruction E tf s =
     do {
       (lo, s1) \<leftarrow> uload16 (pf E) (tf_epc tf) s;
       (insn, s2) \<leftarrow>
         (if insn_len lo = 4 then
            do {
              (hi, s2) \<leftarrow> uload16 (pf E) (tf_epc tf + 2) s1;
              Some (lo OR ucast (push_bit 16 (ucast hi) :: u32), s2)
            }
          else do { kassert (insn_len lo = 2); Some (lo, s1) });
       (tf1, s3) \<leftarrow> dump_tf E (tf\<lparr>tf_insn := insn\<rparr>) s2;
       panic E ''An illegal instruction was executed!'' [] s3
     }"

definition handle_breakpoint :: "'h trap_handler" where
  "handle_breakpoint E tf s =
     do {
       (tf1, s1) \<leftarrow> dump_tf E tf s;
       s2 \<leftarrow> printk (pf E) (e_host E) (lit ''Breakpoint!'' @ [10]) [] s1;
       Some (Inr (tf1\<lparr>tf_epc := tf_epc tf1 + 4\<rparr>, s2))
     }"

subsection \<open>Page faults and system calls\<close>

abbreviation SSTATUS_SPP :: u64 where "SSTATUS_SPP \<equiv> 0x100"

definition segfault :: "'h env \<Rightarrow> trapframe \<Rightarrow> u64 \<Rightarrow> string \<Rightarrow> 'h pk \<Rightarrow> 'h trapped" where
  "segfault E tf addr type s =
     do {
       (tf1, s1) \<leftarrow> dump_tf E tf s;
       let who = (if tf_status tf1 AND SSTATUS_SPP \<noteq> 0 then ''Kernel'' else ''User'');
       panic E ''%s %s segfault @ %p'' [VStr (lit who), VStr (lit type), VLong addr] s1
     }"

definition handle_fault :: "u32 \<Rightarrow> string \<Rightarrow> 'h trap_handler" where
  "handle_fault prot type E tf s =
     do {
       (r, s1) \<leftarrow> handle_page_fault (e_host E) (tf_badvaddr tf) prot s;
       (if r \<noteq> 0 then segfault E tf (tf_badvaddr tf) type s1 else Some (Inr (tf, s1)))
     }"

definition handle_fault_fetch :: "'h trap_handler" where
  "handle_fault_fetch = handle_fault PROT_EXEC ''fetch''"

definition handle_fault_load :: "'h trap_handler" where
  "handle_fault_load = handle_fault PROT_READ ''load''"

definition handle_fault_store :: "'h trap_handler" where
  "handle_fault_store = handle_fault PROT_WRITE ''store''"

definition handle_syscall :: "'h trap_handler" where
  "handle_syscall E tf s =
     map_option (map_sum id (\<lambda>(r, s1). (tf\<lparr>gpr := (gpr tf)(10 := r), tf_epc := tf_epc tf + 4\<rparr>, s1)))
       (do_syscall E (gpr tf 10, gpr tf 11, gpr tf 12, gpr tf 13, gpr tf 14, gpr tf 15) (gpr tf 17) s)"

text \<open>Clearing the pending software interrupt is all; CSRs are not part of the state.\<close>

definition handle_interrupt :: "'h trap_handler" where
  "handle_interrupt E tf s = Some (Inr (tf, s))"

definition trap_handlers :: "(u64 \<times> 'h trap_handler) list" where
  "trap_handlers =
     [(0, handle_misaligned_fetch), (1, handle_instruction_access_fault),
      (5, handle_load_access_fault), (7, handle_store_access_fault),
      (12, handle_fault_fetch), (2, handle_illegal_instruction), (8, handle_syscall),
      (3, handle_breakpoint), (4, handle_misaligned_load), (6, handle_misaligned_store),
      (13, handle_fault_load), (15, handle_fault_store)]"

definition handle_trap :: "'h trap_handler" where
  "handle_trap E tf s =
     (if sint (tf_cause tf) < 0 then handle_interrupt E tf s
      else case map_of trap_handlers (tf_cause tf) of
             None \<Rightarrow> None
           | Some h \<Rightarrow> h E tf s)"

subsection \<open>What a trap leaves behind\<close>

lemma dump_regs_keeps: "dump_regs E tf is s = Some s' \<Longrightarrow> keeps s s'"
proof (induction "is" arbitrary: s)
  case Nil
  then show ?case by simp
next
  case (Cons i "is")
  then show ?case
    by (auto simp: bind_Some_iff dest!: ua.R_vprintk intro: keeps_trans)
qed

lemma dump_tf_keeps:
  assumes "dump_tf E tf s = Some (tf', s')"
  shows "keeps s s' \<and> tf' = tf\<lparr>gpr := (gpr tf)(0 := 0)\<rparr>"
  using assms
  by (auto simp: dump_tf_def Let_def bind_Some_iff dest!: ua.R_vprintk dump_regs_keeps intro: keeps_trans)

lemma panic_stops: "panic E msg vl s \<noteq> Some (Inr r)"
  by (auto simp: panic_def)

lemma dump_and_panic_stops: "dump_and_panic msg E tf s \<noteq> Some (Inr r)"
  by (auto simp: dump_and_panic_def bind_Some_iff panic_stops)

lemma illegal_stops: "handle_illegal_instruction E tf s \<noteq> Some (Inr r)"
  by (auto simp: handle_illegal_instruction_def bind_Some_iff panic_stops)

lemma segfault_stops: "segfault E tf a t s \<noteq> Some (Inr r)"
  by (auto simp: segfault_def Let_def bind_Some_iff panic_stops)

lemma handle_fault_iff:
  "handle_fault prot type E tf s = Some (Inr (tf', s')) \<longleftrightarrow>
     tf' = tf \<and> handle_page_fault (e_host E) (tf_badvaddr tf) prot s = Some (0, s')"
  by (auto simp: handle_fault_def bind_Some_iff segfault_stops split: if_splits)

lemmas stopping_handlers =
  handle_misaligned_fetch_def handle_instruction_access_fault_def handle_load_access_fault_def
  handle_store_access_fault_def handle_misaligned_load_def handle_misaligned_store_def
  dump_and_panic_stops illegal_stops

lemmas fault_handlers = handle_fault_fetch_def handle_fault_load_def handle_fault_store_def handle_fault_iff

abbreviation syscall_args :: "trapframe \<Rightarrow> sysargs" where
  "syscall_args tf \<equiv> (gpr tf 10, gpr tf 11, gpr tf 12, gpr tf 13, gpr tf 14, gpr tf 15)"

lemma handle_syscall_iff:
  "handle_syscall E tf s = Some (Inr (tf', s')) \<longleftrightarrow>
     (\<exists>r. do_syscall E (syscall_args tf) (gpr tf 17) s = Some (Inr (r, s')) \<and>
          tf' = tf\<lparr>gpr := (gpr tf)(10 := r), tf_epc := tf_epc tf + 4\<rparr>)"
proof (cases "do_syscall E (syscall_args tf) (gpr tf 17) s")
  case (Some x)
  then show ?thesis by (cases x) (auto simp: handle_syscall_def)
qed (simp add: handle_syscall_def)

lemma handle_breakpoint_returns:
  assumes "handle_breakpoint E tf s = Some (Inr (tf', s'))"
  shows "keeps s s' \<and> tf' = tf\<lparr>gpr := (gpr tf)(0 := 0), tf_epc := tf_epc tf + 4\<rparr>"
proof -
  obtain tf1 s1 s2 where d: "dump_tf E tf s = Some (tf1, s1)"
    and p: "printk (pf E) (e_host E) (lit ''Breakpoint!'' @ [10]) [] s1 = Some s2"
    and out: "tf' = tf1\<lparr>tf_epc := tf_epc tf1 + 4\<rparr>" "s' = s2"
    using assms by (auto simp: handle_breakpoint_def bind_Some_iff)
  have "keeps s s'" using dump_tf_keeps [OF d] ua.R_vprintk [OF p] out(2) keeps_trans by blast
  moreover have "tf1 = tf\<lparr>gpr := (gpr tf)(0 := 0)\<rparr>" using dump_tf_keeps [OF d] by blast
  ultimately show ?thesis unfolding out(1) by simp
qed

lemma handle_trap_cases:
  assumes "handle_trap E tf s = Some (Inr (tf', s'))"
  obtains
    (interrupt) "sint (tf_cause tf) < 0" "tf' = tf" "s' = s"
  | (fault) prot where "(tf_cause tf, prot) \<in> {(12, PROT_EXEC), (13, PROT_READ), (15, PROT_WRITE)}"
      "tf' = tf" "handle_page_fault (e_host E) (tf_badvaddr tf) prot s = Some (0, s')"
  | (ecall) r where "tf_cause tf = 8" "do_syscall E (syscall_args tf) (gpr tf 17) s = Some (Inr (r, s'))"
      "tf' = tf\<lparr>gpr := (gpr tf)(10 := r), tf_epc := tf_epc tf + 4\<rparr>"
  | (breakpoint) "tf_cause tf = 3" "keeps s s'"
      "tf' = tf\<lparr>gpr := (gpr tf)(0 := 0), tf_epc := tf_epc tf + 4\<rparr>"
proof (cases "sint (tf_cause tf) < 0")
  case True
  then have "tf' = tf" "s' = s" using assms by (auto simp: handle_trap_def handle_interrupt_def)
  then show ?thesis using True interrupt by blast
next
  case False
  then obtain h where m: "(tf_cause tf, h) \<in> set trap_handlers" and h: "h E tf s = Some (Inr (tf', s'))"
    using assms by (auto simp: handle_trap_def split: option.splits dest: map_of_SomeD)
  have "h \<notin> {handle_misaligned_fetch, handle_instruction_access_fault, handle_load_access_fault,
      handle_store_access_fault, handle_misaligned_load, handle_misaligned_store,
      handle_illegal_instruction}"
    using h by (auto simp: stopping_handlers)
  then consider "tf_cause tf = 8" "h = handle_syscall" | "tf_cause tf = 3" "h = handle_breakpoint"
    | prot t where "(tf_cause tf, prot) \<in> {(12, PROT_EXEC), (13, PROT_READ), (15, PROT_WRITE)}"
        "h = handle_fault prot t"
    using m unfolding trap_handlers_def handle_fault_fetch_def handle_fault_load_def handle_fault_store_def
    by (simp only: list.set insert_iff prod.inject empty_iff) blast
  then show ?thesis
  proof cases
    case 1
    then show ?thesis using h ecall unfolding \<open>h = handle_syscall\<close> handle_syscall_iff by blast
  next
    case 2
    then show ?thesis using handle_breakpoint_returns [of E tf s tf' s'] h breakpoint by blast
  next
    case (3 prot t)
    then show ?thesis using h fault [of prot] unfolding \<open>h = _\<close> handle_fault_iff by blast
  qed
qed


subsection \<open>The life of a program\<close>

text \<open>
  The program runs and changes memory, then something traps: the states the kernel can
  reach, under the conditions on calls of \<^theory_text>\<open>call_ok\<close>.
\<close>

inductive kernel_run :: "'h env \<Rightarrow> 'h pk \<Rightarrow> 'h pk \<Rightarrow> bool" for E where
  start: "kernel_run E s s"
| user: "kernel_run E s t \<Longrightarrow> kernel_run E s (t\<lparr>mem := m\<rparr>)"
| trap: "kernel_run E s t \<Longrightarrow> handle_trap E tf t = Some (Inr (tf', u)) \<Longrightarrow>
    (tf_cause tf = 8 \<Longrightarrow> call_ok (gpr tf 17) (syscall_args tf) t) \<Longrightarrow> kernel_run E s u"

lemma handle_trap_inv:
  assumes "put_ok E" and "sys_inv s" and "handle_trap E tf s = Some (Inr (tf', s'))"
    and "tf_cause tf = 8 \<Longrightarrow> call_ok (gpr tf 17) (syscall_args tf) s"
  shows "sys_inv s'"
  using assms(3)
proof (cases rule: handle_trap_cases)
  case interrupt
  then show ?thesis using assms(2) by simp
next
  case fault
  then show ?thesis using keeps_sys_inv [OF keeps_fault assms(2)] by blast
next
  case ecall
  then show ?thesis using do_syscall_inv [OF assms(1,2) assms(4)] by blast
next
  case breakpoint
  then show ?thesis using keeps_sys_inv assms(2) by blast
qed

text \<open>
  Along the whole life of a program, whatever it stores in memory and whatever traps it
  takes, the invariant stays.
\<close>

lemma kernel_run_inv:
  assumes "kernel_run E s s'" and "put_ok E" and "sys_inv s"
  shows "sys_inv s'"
  using assms
proof (induction rule: kernel_run.induct)
  case (start s)
  then show ?case by simp
next
  case (user s t m)
  have "keeps t (t\<lparr>mem := m\<rparr>)" by (rule ua.R_mem)
  then show ?case using user by (blast intro: keeps_sys_inv)
next
  case (trap s t tf tf' u)
  then show ?case by (blast intro: handle_trap_inv)
qed

definition sample_tf :: trapframe where
  "sample_tf = \<lparr>gpr = (\<lambda>i. if i = 17 then 214 else 0), tf_status = 0, tf_epc = 0x10000,
     tf_badvaddr = 0, tf_cause = 8, tf_insn = 0\<rparr>"

lemma sample_trap:
  "\<exists>s'. handle_trap sample_env sample_tf sample_pt =
     Some (Inr (sample_tf\<lparr>gpr := (gpr sample_tf)(10 := 0x20000), tf_epc := 0x10004\<rparr>, s'))"
proof -
  obtain s' where b: "do_brk sample_host 0 sample_pt = Some (0x20000, s')"
    using sample_brk by blast
  have h: "(syscall_handler 214 :: unit handler option) =
      Some (\<lambda>E (a0, _, _, _, _, _) s. ret64 (sys_brk E a0 s))"
    by (simp add: syscall_handler_def syscall_table_def)
  have "handle_syscall sample_env sample_tf sample_pt =
     Some (Inr (sample_tf\<lparr>gpr := (gpr sample_tf)(10 := 0x20000), tf_epc := 0x10004\<rparr>, s'))"
    by (simp add: handle_syscall_def sample_tf_def do_syscall_def h sys_brk_def b ret64_def)
  then show ?thesis
    by (simp add: handle_trap_def sample_tf_def trap_handlers_def)
qed


end
