(* ===== verification/Elf.thy ===== *)
theory Elf
  imports Handlers
begin

text \<open>
  The ELF loader, \<^verbatim>\<open>riscv-pk/pk/elf.c\<close>, with the 64-bit headers of \<^verbatim>\<open>pk/elf.h\<close>.  The
  file header is read once into the kernel's stack (\<^theory_text>\<open>kbuf\<close>), the program headers into the
  array that \<^verbatim>\<open>info->phdr\<close> points to, from which each is read once.  \<^verbatim>\<open>goto fail\<close> is the
  value \<^theory_text>\<open>False\<close>.  The local \<^verbatim>\<open>max_vaddr\<close>, which the code computes and never uses, is left
  out.
\<close>

record elf_ehdr =
  e_ident :: "u8 list"
  e_type :: u64
  e_machine :: u64
  e_version :: u64
  e_entry :: u64
  e_phoff :: u64
  e_shoff :: u64
  e_flags :: u64
  e_ehsize :: u64
  e_phentsize :: u64
  e_phnum :: u64
  e_shentsize :: u64
  e_shnum :: u64
  e_shstrndx :: u64

definition load_ehdr :: "mem \<Rightarrow> u64 \<Rightarrow> elf_ehdr" where
  "load_ehdr m a =
     \<lparr>e_ident = map (\<lambda>i. m (a + of_nat i)) [0..<16],
      e_type = load_le 2 m (a + 16), e_machine = load_le 2 m (a + 18),
      e_version = load_le 4 m (a + 20), e_entry = load_le 8 m (a + 24),
      e_phoff = load_le 8 m (a + 32), e_shoff = load_le 8 m (a + 40),
      e_flags = load_le 4 m (a + 48), e_ehsize = load_le 2 m (a + 52),
      e_phentsize = load_le 2 m (a + 54), e_phnum = load_le 2 m (a + 56),
      e_shentsize = load_le 2 m (a + 58), e_shnum = load_le 2 m (a + 60),
      e_shstrndx = load_le 2 m (a + 62)\<rparr>"

record elf_phdr =
  p_type :: u32
  p_flags :: u32
  p_offset :: u64
  p_vaddr :: u64
  p_paddr :: u64
  p_filesz :: u64
  p_memsz :: u64
  p_align :: u64

definition load_phdr :: "mem \<Rightarrow> u64 \<Rightarrow> elf_phdr" where
  "load_phdr m a =
     \<lparr>p_type = ucast (load_le 4 m a), p_flags = ucast (load_le 4 m (a + 4)),
      p_offset = load_le 8 m (a + 8), p_vaddr = load_le 8 m (a + 16),
      p_paddr = load_le 8 m (a + 24), p_filesz = load_le 8 m (a + 32),
      p_memsz = load_le 8 m (a + 40), p_align = load_le 8 m (a + 48)\<rparr>"

abbreviation EHDR_SIZE :: u64 where "EHDR_SIZE \<equiv> 64"
abbreviation PHDR_SIZE :: u64 where "PHDR_SIZE \<equiv> 56"
abbreviation PT_LOAD :: u32 where "PT_LOAD \<equiv> 1"
abbreviation ET_DYN :: u64 where "ET_DYN \<equiv> 3"

definition IS_ELF :: "elf_ehdr \<Rightarrow> bool" where
  "IS_ELF h = (take 4 (e_ident h) = [0x7f, 0x45, 0x4c, 0x46])"

definition IS_ELF64 :: "elf_ehdr \<Rightarrow> bool" where
  "IS_ELF64 h \<longleftrightarrow> IS_ELF h \<and> e_ident h ! 4 = 2"

definition get_prot :: "u32 \<Rightarrow> u32" where
  "get_prot fl =
     (let prot_x = (if fl AND 1 \<noteq> 0 then PROT_EXEC else 0);
          prot_w = (if fl AND 2 \<noteq> 0 then PROT_WRITE else 0);
          prot_r = (if fl AND 4 \<noteq> 0 then PROT_READ else 0)
      in prot_x OR prot_w OR prot_r)"

definition phdr_at :: "'h pk \<Rightarrow> nat \<Rightarrow> elf_phdr" where
  "phdr_at s i = load_phdr (mem s) (va2pa s (phdr (current s) + of_nat i * PHDR_SIZE))"

subsection \<open>One segment\<close>

text \<open>Recording the end of the program, and saying so.\<close>

definition raise_brk_min :: "'h env \<Rightarrow> nat \<Rightarrow> u64 \<Rightarrow> u64 \<Rightarrow> 'h pk \<Rightarrow> 'h pk option" where
  "raise_brk_min E i vaddr memsz s =
     (if vaddr + memsz > brk_min (current s) then
        let s1 = s\<lparr>current := (current s)\<lparr>brk_min := vaddr + memsz\<rparr>\<rparr>
        in printk (pf E) (e_host E)
             (lit ''load segment %d, vaddr: 0x%lx, pmemsz: 0x%lx, brkmin: 0x%lx'' @ [10])
             [VInt (of_nat i), VLong vaddr, VLong memsz, VLong (brk_min (current s1))] s1
      else Some s)"

definition load_segment :: "'h env \<Rightarrow> nat \<Rightarrow> u64 \<Rightarrow> nat \<Rightarrow> 'h pk \<Rightarrow> (bool \<times> 'h pk) option" where
  "load_segment E file base i s =
     (let ph = phdr_at s i in
      if p_type ph = PT_LOAD \<and> p_memsz ph \<noteq> 0 then
        let prepad = p_vaddr ph mod RISCV_PGSIZE;
            vaddr = p_vaddr ph + base
        in do {
          s1 \<leftarrow> raise_brk_min E i vaddr (p_memsz ph) s;
          let flags = MAP_FIXED OR MAP_PRIVATE;
          let flags2 = flags OR (if prepad \<noteq> 0 then MAP_POPULATE else 0);
          let prot = get_prot (p_flags ph);
          (a, s2) \<leftarrow> do_mmap_locked (e_host E) (vaddr - prepad) (p_filesz ph + prepad)
             (prot OR PROT_WRITE) flags2 (Some file) (p_offset ph - prepad) s1;
          (if a \<noteq> vaddr - prepad then Some (False, s2)
           else do {
             s3 \<leftarrow> ustore_bytes (pf E) (vaddr - prepad) (replicate (unat prepad) 0) s2;
             (r, s4) \<leftarrow>
               (if prot AND PROT_WRITE = 0
                then do_mprotect (vaddr - prepad) (p_filesz ph + prepad) prot s3
                else Some (0, s3));
             (if r \<noteq> 0 then Some (False, s4)
              else
                let mapped = ROUNDUP (p_filesz ph + prepad) RISCV_PGSIZE - prepad in
                if p_memsz ph > mapped then
                  do {
                    (a2, s5) \<leftarrow> do_mmap_locked (e_host E) (vaddr + mapped) (p_memsz ph - mapped)
                       prot (flags OR MAP_ANONYMOUS) None 0 s4;
                    Some (a2 = vaddr + mapped, s5)
                  }
                else Some (True, s4))
           })
        }
      else Some (True, s))"

text \<open>The segments from the last to the first.\<close>

primrec load_segments :: "'h env \<Rightarrow> nat \<Rightarrow> u64 \<Rightarrow> nat \<Rightarrow> 'h pk \<Rightarrow> (bool \<times> 'h pk) option" where
  "load_segments E file base 0 s = Some (True, s)"
| "load_segments E file base (Suc n) s =
     do {
       (ok, s1) \<leftarrow> load_segment E file base n s;
       (if ok then load_segments E file base n s1 else Some (False, s1))
     }"

subsection \<open>The file\<close>

text \<open>From the open file on; the file is given back only at the end.\<close>

definition load_elf_file :: "'h env \<Rightarrow> nat \<Rightarrow> 'h pk \<Rightarrow> (bool \<times> 'h pk) option" where
  "load_elf_file E file s =
     do {
       let eh_buf = kbuf s;
       (ehdr_size, s1) \<leftarrow> file_pread (pf E) (e_host E) file eh_buf EHDR_SIZE 0 s;
       let eh = load_ehdr (mem s1) (va2pa s1 eh_buf);
       (if sint ehdr_size < sint EHDR_SIZE \<or> \<not> IS_ELF eh then Some (False, s1)
        else do {
          kassert (IS_ELF64 eh);
          let phsz = e_phnum eh * PHDR_SIZE;
          (if phsz > phdr_size (current s1) then Some (False, s1)
           else do {
             (ret, s2) \<leftarrow> file_pread (pf E) (e_host E) file (phdr (current s1)) phsz (e_phoff eh) s1;
             (if sint ret < sint phsz then Some (False, s2)
              else do {
                let base = (if e_type eh = ET_DYN then RISCV_PGSIZE else 0);
                let s3 = s2\<lparr>current := (current s2)
                  \<lparr>phnum := ucast (e_phnum eh), phent := ucast PHDR_SIZE, entry := e_entry eh + base\<rparr>\<rparr>;
                (ok, s4) \<leftarrow> load_segments E file base (unat (e_phnum eh)) s3;
                Some (if ok then (True, file_decref (e_host E) file s4) else (False, s4))
              })
           })
        })
     }"

text \<open>Failing prints the name of the program, the bytes at \<open>fn\<close>, which the caller gives.\<close>

definition load_elf :: "'h env \<Rightarrow> u64 \<Rightarrow> u8 list \<Rightarrow> 'h pk \<Rightarrow> ('h pk + 'h pk) option" where
  "load_elf E fn name s =
     do {
       (r, s1) \<leftarrow> file_open (pf E) (e_host E) fn 0 0 s;
       (ok, s2) \<leftarrow>
         (case r of
            Inl err \<Rightarrow> do { kassert (IS_ERR_VALUE err); Some (False, s1) }
          | Inr file \<Rightarrow> load_elf_file E file s1);
       (if ok then Some (Inr s2)
        else map_option Inl (do_panic E (lit ''couldn't open ELF program: %s!'' @ [10]) [VStr name] s2))
     }"

end
