(* ===== verification/Boot.thy ===== *)
theory Boot
  imports Elf
begin

text \<open>
  Starting a program: \<^verbatim>\<open>riscv-pk/pk/pk.c\<close>.  The arguments of the kernel come from the host
  into an array on the kernel's stack (at \<open>args\<close>), options are taken off, the program is
  loaded, and its stack is laid out: program headers, argument strings, and below them
  \<^verbatim>\<open>argc\<close>, \<^verbatim>\<open>argv\<close>, the empty environment and the auxiliary vector.  CSR writes are left
  out; \<^verbatim>\<open>sstatus\<close> is an argument where it is read.
\<close>

abbreviation SYS_getmainvars :: u64 where "SYS_getmainvars \<equiv> 2011"
abbreviation MAX_ARGS :: nat where "MAX_ARGS \<equiv> 256"

text \<open>A word of the kernel's own memory.\<close>

definition kload64 :: "'h pk \<Rightarrow> u64 \<Rightarrow> u64" where
  "kload64 s a = load64 (mem s) (va2pa s a)"

definition kstore64 :: "u64 \<Rightarrow> u64 \<Rightarrow> 'h pk \<Rightarrow> 'h pk" where
  "kstore64 a v s = s\<lparr>mem := store64 (mem s) (va2pa s a) v\<rparr>"

subsection \<open>Arguments\<close>

definition handle_option :: "'h env \<Rightarrow> u64 \<Rightarrow> 'h pk \<Rightarrow> ('h pk + 'h pk) option" where
  "handle_option E str s =
     (let c = mem s (va2pa s (str + 1)) in
      if c = 0x73 then Some (Inr (s\<lparr>current := (current s)\<lparr>cycle0 := 1\<rparr>\<rparr>))
      else if c = 0x70 then Some (Inr (s\<lparr>demand_paging := False\<rparr>))
      else map_option Inl
        (do_panic E (lit ''unrecognized option: `%c'' @ [39, 10]) [VInt (ucast c)] s))"

text \<open>The loop over the options: \<open>Inl\<close> when one of them is not known.\<close>

function parse_options ::
  "'h env \<Rightarrow> u64 \<Rightarrow> u64 \<Rightarrow> u64 \<Rightarrow> 'h pk \<Rightarrow> ('h pk + u64 \<times> 'h pk) option" where
  "parse_options E pk_argv pk_argc arg s =
     (if arg < pk_argc \<and> mem s (va2pa s (kload64 s (pk_argv + 8 * arg))) = 0x2D then
        (case handle_option E (kload64 s (pk_argv + 8 * arg)) s of
           None \<Rightarrow> None
         | Some (Inl s1) \<Rightarrow> Some (Inl s1)
         | Some (Inr s1) \<Rightarrow> parse_options E pk_argv pk_argc (arg + 1) s1)
      else Some (Inr (arg, s)))"
  by pat_completeness auto
termination
proof (relation "measure (\<lambda>(E, pk_argv, pk_argc, arg, s). unat (pk_argc - arg))", goal_cases)
  case 2
  have "unat (n - (a + 1)) < unat (n - a)" if "a < n" for a n :: u64
    using that by unat_arith
  from this [OF conjunct1 [OF 2(1)]] show ?case by simp
qed simp

declare parse_options.simps [simp del]

text \<open>\<^verbatim>\<open>args->argv[i] = pk_argv[arg + i]\<close>, in the array itself.\<close>

function shift_args :: "u64 \<Rightarrow> u64 \<Rightarrow> u64 \<Rightarrow> u64 \<Rightarrow> u64 \<Rightarrow> 'h pk \<Rightarrow> 'h pk" where
  "shift_args args pk_argv pk_argc arg i s =
     (if arg + i < pk_argc
      then shift_args args pk_argv pk_argc arg (i + 1)
             (kstore64 (args + 8 * i) (kload64 s (pk_argv + 8 * (arg + i))) s)
      else s)"
  by pat_completeness auto
termination
proof (relation "measure (\<lambda>(args, pk_argv, pk_argc, arg, i, s). unat (pk_argc - (arg + i)))", goal_cases)
  case 2
  have "unat (n - (a + 1)) < unat (n - a)" if "a < n" for a n :: u64
    using that by unat_arith
  from this [OF 2] show ?case by (simp add: add.assoc)
qed simp

declare shift_args.simps [simp del]

definition parse_args :: "'h env \<Rightarrow> u64 \<Rightarrow> 'h pk \<Rightarrow> ('h pk + u64 \<times> 'h pk) option" where
  "parse_args E args s =
     (let (r, s1) = frontend_syscall (e_host E) SYS_getmainvars
            [va2pa s args, 8 * of_nat MAX_ARGS, 0, 0, 0, 0, 0] s
      in if r \<noteq> 0 then
           map_option Inl (do_panic E (lit ''args must not exceed %d bytes'' @ [10])
             [VInt (8 * of_nat MAX_ARGS)] s1)
         else
           (let pk_argv = args + 8; pk_argc = kload64 s1 args
            in case parse_options E pk_argv pk_argc 1 s1 of
                 None \<Rightarrow> None
               | Some (Inl s2) \<Rightarrow> Some (Inl s2)
               | Some (Inr (arg, s2)) \<Rightarrow>
                   Some (Inr (pk_argc - arg, shift_args args pk_argv pk_argc arg 0 s2))))"

subsection \<open>The initial trap frame\<close>

abbreviation SSTATUS_SIE :: u64 where "SSTATUS_SIE \<equiv> 2"
abbreviation SSTATUS_SPIE :: u64 where "SSTATUS_SPIE \<equiv> 0x20"

definition init_tf :: "u64 \<Rightarrow> u64 \<Rightarrow> u64 \<Rightarrow> trapframe" where
  "init_tf sstatus pc sp =
     \<lparr>gpr = (\<lambda>_. 0)(2 := sp),
      tf_status = (sstatus AND NOT SSTATUS_SPP AND NOT SSTATUS_SIE) OR SSTATUS_SPIE,
      tf_epc = pc, tf_badvaddr = 0, tf_cause = 0, tf_insn = 0\<rparr>"

subsection \<open>The stack of the program\<close>

primrec ucopy :: "'h fault \<Rightarrow> u64 \<Rightarrow> u64 \<Rightarrow> nat \<Rightarrow> 'h pk \<Rightarrow> 'h pk option" where
  "ucopy fault dest src 0 s = Some s"
| "ucopy fault dest src (Suc n) s =
     do {
       s1 \<leftarrow> touch fault PROT_READ src s;
       s2 \<leftarrow> ustore8 fault dest (mem s1 (va2pa s1 src)) s1;
       ucopy fault (dest + 1) (src + 1) n s2
     }"

text \<open>Copying the argument strings from number \<open>i\<close> on, \<open>n\<close> of them.\<close>

primrec copy_args :: "'h env \<Rightarrow> u64 \<Rightarrow> nat \<Rightarrow> nat \<Rightarrow> u64 \<Rightarrow> 'h pk \<Rightarrow> (u64 \<times> 'h pk) option" where
  "copy_args E argv i 0 tp s = Some (tp, s)"
| "copy_args E argv i (Suc n) tp s =
     do {
       let p = kload64 s (argv + 8 * of_nat i);
       (k, s1) \<leftarrow> ustrlen (pf E) p s;
       let len = k + 1;
       let tp2 = tp - len;
       s2 \<leftarrow> ucopy (pf E) tp2 p (unat len) s1;
       copy_args E argv (Suc i) n tp2 (kstore64 (argv + 8 * of_nat i) tp2 s2)
     }"

text \<open>\<^verbatim>\<open>PUSH_ARG\<close> for a list of words.\<close>

primrec push_args :: "'h fault \<Rightarrow> u64 \<Rightarrow> u64 list \<Rightarrow> 'h pk \<Rightarrow> 'h pk option" where
  "push_args fault sp [] s = Some s"
| "push_args fault sp (v # vs) s = ustore64 fault sp v s \<bind> push_args fault (sp + 8) vs"

definition auxv :: "elf_info \<Rightarrow> u64 \<Rightarrow> u64 list" where
  "auxv c rnd =
     [9, entry c, 5, scast (phnum c), 4, scast (phent c), 3, phdr c, 6, RISCV_PGSIZE, 23, 0,
      25, rnd, 0, 0]"

definition arg_words :: "'h pk \<Rightarrow> u64 \<Rightarrow> nat \<Rightarrow> u64 list" where
  "arg_words s argv argc = map (\<lambda>i. kload64 s (argv + 8 * of_nat i)) [0..<argc]"

definition run_loaded_program ::
  "'h env \<Rightarrow> u64 \<Rightarrow> nat \<Rightarrow> u64 \<Rightarrow> 'h pk \<Rightarrow> (trapframe \<times> 'h pk) option" where
  "run_loaded_program E sstatus argc argv s =
     do {
       let tp0 = stack_top (current s) - phdr_size (current s);
       s1 \<leftarrow> ucopy (pf E) tp0 (phdr (current s)) (unat (phdr_size (current s))) s;
       let s2 = s1\<lparr>current := (current s1)\<lparr>phdr := tp0\<rparr>\<rparr>;
       (tp, s3) \<leftarrow> copy_args E argv 0 argc tp0 s2;
       let tp1 = tp AND - 8;
       let aux = auxv (current s3) tp1;
       let sp = (tp1 - (1 + of_nat argc + 1 + 0 + 1 + 2 * 8) * 8) AND - 16;
       s4 \<leftarrow> push_args (pf E) sp
         ([of_nat argc] @ arg_words s3 argv argc @ [0] @ [0] @ aux) s3;
       let s5 = (if cycle0 (current s4) \<noteq> 0
         then s4\<lparr>current := (current s4)\<lparr>time0 := e_time E, cycle0 := e_cycle E, instret0 := e_instret E\<rparr>\<rparr>
         else s4);
       Some (init_tf sstatus (entry (current s5)) sp, s5)
     }"

subsection \<open>Boot\<close>

partial_function (option) str_bytes :: "mem \<Rightarrow> u64 \<Rightarrow> u8 list option" where
  "str_bytes m a =
     (if m a = 0 then Some [] else do { bs \<leftarrow> str_bytes m (a + 1); Some (m a # bs) })"

text \<open>\<open>args\<close> and \<open>phdrs\<close> are the addresses of the local arrays.\<close>

definition rest_of_boot_loader ::
  "'h env \<Rightarrow> u64 \<Rightarrow> u64 \<Rightarrow> u64 \<Rightarrow> 'h pk \<Rightarrow> ('h pk + trapframe \<times> 'h pk) option" where
  "rest_of_boot_loader E sstatus args phdrs s =
     (case parse_args E args s of
        None \<Rightarrow> None
      | Some (Inl s1) \<Rightarrow> Some (Inl s1)
      | Some (Inr (argc, s1)) \<Rightarrow>
          if argc = 0 then map_option Inl (do_panic E (lit ''tell me what ELF to load!'' @ [10]) [] s1)
          else do {
            let s2 = s1\<lparr>current := (current s1)\<lparr>phdr := phdrs, phdr_size := 1024\<rparr>\<rparr>;
            let fn = kload64 s2 args;
            name \<leftarrow> str_bytes (vmem s2) fn;
            r \<leftarrow> load_elf E fn name s2;
            (case r of
               Inl s3 \<Rightarrow> Some (Inl s3)
             | Inr s3 \<Rightarrow> map_option Inr (run_loaded_program E sstatus (unat argc) args s3))
          })"

definition boot_loader ::
  "'h env \<Rightarrow> u64 \<Rightarrow> u64 \<Rightarrow> u64 \<Rightarrow> u64 \<Rightarrow> 'h pk \<Rightarrow> ('h pk + trapframe \<times> 'h pk) option" where
  "boot_loader E kend sstatus args phdrs s =
     do {
       s1 \<leftarrow> file_init s;
       (kstack_top, s2) \<leftarrow> pk_vm_init (e_host E) kend s1;
       rest_of_boot_loader E sstatus args phdrs s2
     }"

end
