(* ===== verification/VmBoot.thy ===== *)
theory VmBoot
  imports SyscallInv
begin

text \<open>
  The address space that \<^verbatim>\<open>file_init\<close> and \<^verbatim>\<open>pk_vm_init\<close> (\<^verbatim>\<open>riscv-pk/pk/mmap.c\<close>) build from
  the zeroed globals of the kernel.  Both always return, and the state they leave has
  the invariant on which the system calls rely.
\<close>

subsection \<open>Messages\<close>

text \<open>The buffer of \<^verbatim>\<open>vprintk\<close> lies in memory that the kernel can reach.\<close>

definition kbuf_ok :: "'h pk \<Rightarrow> bool" where
  "kbuf_ok s \<longleftrightarrow> unat (kbuf s) + 256 \<le> 2 ^ 64 - 4096 \<and>
     (root_page_table s = 0 \<or>
       DRAM_BASE \<le> kbuf s \<and> unat (kbuf s) + 256 \<le> unat (first_free_paddr s))"

lemma populate_returns:
  assumes ok: "kbuf_ok s" and sz: "unat sz \<le> 256"
  shows "populate_mapping no_fault (kbuf s) sz prot s = Some s"
proof -
  let ?a = "ROUNDDOWN (kbuf s) RISCV_PGSIZE" and ?lim = "kbuf s + sz"
  let ?body = "touch no_fault (if prot AND PROT_WRITE \<noteq> 0 then PROT_WRITE else PROT_READ)"
  have lim: "unat ?lim = unat (kbuf s) + unat sz"
    using ok sz by (simp add: kbuf_ok_def unat_word_ariths)
  have "\<exists>s'. page_for ?body ?a ?lim s = Some s' \<and> s' = s"
  proof (rule page_for_total [where P = "\<lambda>i t. t = s"])
    show "unat ?lim \<le> 2 ^ 64 - 4096"
      using ok sz by (simp add: lim kbuf_ok_def)
    fix i t
    assume i: "i < page_count ?a ?lim" and t: "t = s"
    have a: "unat ?a = unat (kbuf s) div 4096 * 4096"
    proof -
      have "unat (kbuf s) div 4096 * 4096 \<le> unat (kbuf s)"
        by simp
      then have "unat (kbuf s) div 4096 * 4096 < 2 ^ 64"
        using unat_lt64 [of "kbuf s"] by (rule le_less_trans)
      then show ?thesis
        by (simp add: ROUNDDOWN_def unat_word_ariths unat_div_distrib)
    qed
    have "4096 * i < unat ?lim - unat ?a"
      using i by (simp add: page_count_def)
    then have lt: "unat ?a + 4096 * i < unat (kbuf s) + 256"
      using lim sz by linarith
    then have i': "unat ?a + 4096 * i < 2 ^ 64 - 4096"
      using ok by (simp add: kbuf_ok_def)
    then have "unat (of_nat i :: u64) = i"
      by (intro unat_of_nat64) simp
    then have u: "unat (?a + of_nat i * RISCV_PGSIZE) = unat ?a + 4096 * i"
      using i' by (simp add: unat_word_ariths)
    have "accessible s (?a + of_nat i * RISCV_PGSIZE) q" for q
    proof (cases "root_page_table s = 0")
      case False
      then have k: "2 ^ 31 \<le> unat (kbuf s)" "unat (kbuf s) + 256 \<le> unat (first_free_paddr s)"
        using ok by (simp_all add: kbuf_ok_def word_le_nat_alt)
      have "2 ^ 31 div 4096 * 4096 \<le> unat (kbuf s) div 4096 * 4096"
        using k(1) by (intro mult_right_mono div_le_mono) auto
      then have "2 ^ 31 \<le> unat ?a"
        by (simp add: a)
      then show ?thesis
        using k(2) lt by (simp add: accessible_def word_le_nat_alt word_less_nat_alt u)
    qed (simp add: accessible_def)
    then show "\<exists>s'. ?body (?a + of_nat i * RISCV_PGSIZE) t = Some s' \<and> s' = s"
      by (simp add: t touch_def)
  qed simp
  then show ?thesis
    by (simp add: populate_mapping_def)
qed

lemma printk_returns:
  assumes "text_of False False fmt vl = Some u" and "length u < 2 ^ 31"
    and "\<forall>a \<in> set vl. negatable a" and ok: "kbuf_ok s"
  shows "\<exists>s'. printk no_fault H fmt vl s = Some s'"
proof -
  obtain m where m: "vsnprintf (kbuf s) 256 fmt vl (mem s) = Some (of_nat (length u), m)"
    using vsnprintf_render [OF assms(1) _ assms(3), of "kbuf s" 256 "mem s"] assms(2) by auto
  let ?sz = "if scast (of_nat (length u) :: u32) < (256 :: u64) then scast (of_nat (length u) :: u32) else 256 :: u64"
  have "kbuf_ok (s\<lparr>mem := m\<rparr>)"
    using ok by (simp add: kbuf_ok_def)
  moreover have "unat ?sz \<le> 256"
    by (simp add: word_less_nat_alt)
  ultimately have "populate_mapping no_fault (kbuf s) ?sz PROT_READ (s\<lparr>mem := m\<rparr>) = Some (s\<lparr>mem := m\<rparr>)"
    using populate_returns [of "s\<lparr>mem := m\<rparr>" ?sz PROT_READ] by simp
  then show ?thesis
    by (simp add: vprintk_def m file_write_def split: prod.split)
qed

subsection \<open>The first table\<close>

lemma root_table:
  assumes ok: "pool_ok s" and free: "next_free_page s \<noteq> free_pages s" and first: "next_free_page s = 0"
    and alloc: "page_alloc s = Some (root, s1)"
  shows "pt_inv (s1\<lparr>root_page_table := root\<rparr>)" "pte_at (s1\<lparr>root_page_table := root\<rparr>) w = 0"
    and "s1 = s\<lparr>next_free_page := 1, ptmem := (\<lambda>a. if a - root < RISCV_PGSIZE then 0 else ptmem s a)\<rparr>"
    and "root = first_free_page s"
proof -
  let ?t = "s1\<lparr>root_page_table := root\<rparr>"
  show s1: "s1 = s\<lparr>next_free_page := 1, ptmem := (\<lambda>a. if a - root < RISCV_PGSIZE then 0 else ptmem s a)\<rparr>"
    and root: "root = first_free_page s"
    using alloc first free by (auto simp: page_alloc_def Let_def)
  have al: "unat root mod 4096 = 0"
    using ok by (simp add: root pool_ok_def)
  have empty: "ptmem ?t (root + 8 * pt_idx va l) = 0" for va l
    using in_page_iff [OF al al] by (simp add: s1)
  have "1 \<le> free_pages s"
    using free first by (simp add: word_le_nat_alt unat_gt_0 Suc_le_eq)
  then have ok': "pool_ok ?t"
    using ok by (simp add: pool_ok_def s1)
  moreover have "pool_page ?t root"
    by (simp add: pool_page_def s1 root)
  ultimately have "pt_tree ?t [root \<mapsto> (2, 0)]"
    unfolding pt_tree_def using empty by auto
  then show "pt_inv ?t"
    by (auto simp: pt_inv_def)
  show "pte_at ?t w = 0"
    using empty by (simp add: pte_at_def walk_def numeral_2_eq_2)
qed

subsection \<open>The kernel's own pages\<close>

definition kernel_pte :: "nat \<Rightarrow> u64 \<Rightarrow> u32 \<Rightarrow> u64" where
  "kernel_pte k offset prot =
     pte_create (drop_bit RISCV_PGSHIFT (page_va k + offset)) (prot_to_type prot False)"

lemma map_kernel_loop_returns:
  assumes inv: "pt_inv t" and fit: "b + (i + n) \<le> NPAGES"
    and prev: "i \<noteq> 0 \<Longrightarrow> walk t (page_va (b + (i - 1))) \<noteq> 0"
    and cost: "unat (next_free_page t) \<le> used + 2 * tables_for b i"
    and pool: "used + 2 * tables_for b (i + n) \<le> unat (free_pages t)"
  shows "\<exists>t'. map_kernel_loop n (page_va (b + i)) offset prot t = Some t' \<and> pt_inv t' \<and> pt_frame t t' \<and>
    unat (next_free_page t') \<le> used + 2 * tables_for b (i + n) \<and>
    (\<forall>k < NPAGES. pmap t' k =
      (if b + i \<le> k \<and> k < b + (i + n) then kernel_pte k offset prot else pmap t k))"
  using assms
proof (induction n arbitrary: i t)
  case 0
  then show ?case by auto
next
  case (Suc n)
  let ?a = "page_va (b + i)"
  have v: "vp ?a = b + i" "i \<noteq> 0 \<Longrightarrow> vp (page_va (b + (i - 1))) = b + (i - 1)"
    using Suc.prems(2) by (intro vp_page_va; simp)+
  have room: "used + 2 * tables_for b (Suc i) \<le> unat (free_pages t)"
    using Suc.prems(5) tables_for_mono [of "Suc i" "i + Suc n" b] by simp
  have "\<exists>p t1. walk_create ?a t = Some (p, t1) \<and> unat (next_free_page t1) \<le> used + 2 * tables_for b (Suc i)"
    by (rule reserve_next [OF Suc.prems(1) v(1) _ Suc.prems(4) room, where prev = "page_va (b + (i - 1))"])
      (use Suc.prems(3) v(2) in blast)
  then obtain p t1 where c: "walk_create ?a t = Some (p, t1)"
    and n1: "unat (next_free_page t1) \<le> used + 2 * tables_for b (Suc i)"
    by blast
  note W = walk_create_spec [OF c Suc.prems(1)]
  define t2 where "t2 = set_pte p (kernel_pte (b + i) offset prot) t1"
  have w: "walk t1 ?a \<noteq> 0" "p = walk t1 ?a" "pt_inv t1"
    using W by auto
  have S: "pt_inv t2 \<and> (\<forall>w. walk t2 w = walk t1 w)"
    using set_pte_spec [OF w(3,1), of "kernel_pte (b + i) offset prot"] unfolding t2_def w(2) by blast
  have fr: "pt_frame t t2"
    using W pt_frame_trans set_pte_frame unfolding t2_def by blast
  have pm: "pmap t2 k = (if k = b + i then kernel_pte k offset prot else pmap t k)" if "k < NPAGES" for k
  proof -
    have "pmap t2 k = ((pmap t1)(vp ?a := kernel_pte (b + i) offset prot)) k"
      unfolding t2_def w(2) by (rule pmap_set [OF w(3,1) that])
    moreover have "pmap t1 k = pmap t k"
      using W by (simp add: pmap_def)
    ultimately show ?thesis
      by (simp add: v(1))
  qed
  have next_a: "?a + RISCV_PGSIZE = page_va (b + Suc i)"
    by (simp add: page_va_def algebra_simps)
  have "\<exists>t'. map_kernel_loop n (page_va (b + Suc i)) offset prot t2 = Some t' \<and> pt_inv t' \<and> pt_frame t2 t' \<and>
    unat (next_free_page t') \<le> used + 2 * tables_for b (Suc i + n) \<and>
    (\<forall>k < NPAGES. pmap t' k =
      (if b + Suc i \<le> k \<and> k < b + (Suc i + n) then kernel_pte k offset prot else pmap t2 k))"
  proof (rule Suc.IH)
    show "pt_inv t2" "Suc i \<noteq> 0 \<Longrightarrow> walk t2 (page_va (b + (Suc i - 1))) \<noteq> 0"
      using S w by auto
    show "unat (next_free_page t2) \<le> used + 2 * tables_for b (Suc i)"
      using n1 by (simp add: t2_def)
    show "used + 2 * tables_for b (Suc i + n) \<le> unat (free_pages t2)"
      using Suc.prems(5) pt_frame_same(10) [OF fr] by simp
  qed (use Suc.prems(2) in simp)
  then obtain t' where t': "map_kernel_loop n (page_va (b + Suc i)) offset prot t2 = Some t'" "pt_inv t'"
    "pt_frame t2 t'" "unat (next_free_page t') \<le> used + 2 * tables_for b (i + Suc n)"
    "\<forall>k < NPAGES. pmap t' k =
      (if b + Suc i \<le> k \<and> k < b + (i + Suc n) then kernel_pte k offset prot else pmap t2 k)"
    by auto
  have "map_kernel_loop (Suc n) ?a offset prot t = Some t'"
    using c w(1,2) t'(1) by (simp add: next_a t2_def kernel_pte_def)
  moreover have "\<forall>k < NPAGES. pmap t' k =
      (if b + i \<le> k \<and> k < b + (i + Suc n) then kernel_pte k offset prot else pmap t k)"
    using t'(5) pm by auto
  ultimately show ?case
    using t' pt_frame_trans [OF fr t'(3)] by blast
qed

subsection \<open>The standard descriptors\<close>

lemma scan_from_first:
  assumes "j < n" and "p j" and "\<And>i. i < j \<Longrightarrow> \<not> p i"
  shows "scan_from p 0 n = Some j"
proof (cases "scan_from p 0 n")
  case None
  then show ?thesis
    using scan_from_NoneD [OF None, of j] assms by simp
next
  case (Some i)
  then have "\<not> j < i" "\<not> i < j"
    using scan_from_SomeD [OF Some] assms by blast+
  then show ?thesis
    using Some by simp
qed

definition std_files :: "nat \<Rightarrow> 'h pk \<Rightarrow> bool" where
  "std_files k s \<longleftrightarrow> fds s = (\<lambda>i. if i < k then Some i else None) \<and> f_refcnt s = (\<lambda>f. if f < k then 3 else 0)"

lemma file_init_step_spec:
  assumes s: "std_files k s" and k: "k < MAX_FILES"
  shows "\<exists>s'. file_init_step k s = Some s' \<and> std_files (Suc k) s' \<and> same_vm s s' \<and>
    f_kfd s' = (f_kfd s)(k := of_nat k) \<and> mem s' = mem s \<and> hst s' = hst s"
proof -
  let ?s1 = "s\<lparr>f_refcnt := (f_refcnt s)(k := 2)\<rparr>"
  let ?s2 = "?s1\<lparr>f_kfd := (f_kfd s)(k := of_nat k)\<rparr>"
  have "scan_from (\<lambda>f. f_refcnt s f = 0) 0 MAX_FILES = Some k"
    using s k by (intro scan_from_first) (auto simp: std_files_def)
  then have g: "file_get_free s = (Some k, ?s1)"
    by (simp add: file_get_free_def)
  have "scan_from (\<lambda>i. fds ?s2 i = None) 0 MAX_FDS = Some k"
    using s k by (intro scan_from_first) (auto simp: std_files_def)
  then have "file_dup k ?s2 = Some (of_nat k, ?s2\<lparr>fds := (fds s)(k := Some k), f_refcnt := (f_refcnt s)(k := 3)\<rparr>)"
    by (simp add: file_dup_def file_incref_def Let_def)
  then have "file_init_step k s = Some (?s2\<lparr>fds := (fds s)(k := Some k), f_refcnt := (f_refcnt s)(k := 3)\<rparr>)"
    by (simp add: file_init_step_def g)
  moreover have "std_files (Suc k) (?s2\<lparr>fds := (fds s)(k := Some k), f_refcnt := (f_refcnt s)(k := 3)\<rparr>)"
    using s by (auto simp: std_files_def less_Suc_eq fun_eq_iff)
  ultimately show ?thesis
    by simp
qed

lemma file_init_spec:
  assumes "std_files 0 s"
  shows "\<exists>s'. file_init s = Some s' \<and> std_files 3 s' \<and> same_vm s s' \<and>
    f_kfd s' = (f_kfd s)(0 := 0, 1 := 1, 2 := 2) \<and> mem s' = mem s \<and> hst s' = hst s"
proof -
  obtain a where a: "file_init_step 0 s = Some a" "std_files 1 a" "same_vm s a"
    "f_kfd a = (f_kfd s)(0 := 0) \<and> mem a = mem s \<and> hst a = hst s"
    using file_init_step_spec [OF assms] by auto
  obtain b where b: "file_init_step 1 a = Some b" "std_files 2 b" "same_vm a b"
    "f_kfd b = (f_kfd a)(1 := 1) \<and> mem b = mem a \<and> hst b = hst a"
    using file_init_step_spec [OF a(2)] by (auto simp: numeral_2_eq_2)
  obtain c where c: "file_init_step 2 b = Some c" "std_files 3 c" "same_vm b c"
    "f_kfd c = (f_kfd b)(2 := 2) \<and> mem c = mem b \<and> hst c = hst b"
    using file_init_step_spec [OF b(2)] by (auto simp: numeral_3_eq_3 numeral_2_eq_2)
  show ?thesis
    using a b c same_vm_trans [of s a b] same_vm_trans [of s b c] by (simp add: file_init_def)
qed

lemma std_files_inv:
  assumes "std_files k s" "k \<le> MAX_FILES" and none: "\<And>j. v_refcnt (vmr_at s j) = 0"
  shows "files_inv no_refs s"
proof -
  have "vmr_refs s f = 0" for f
    unfolding vmr_refs_def using none by (intro tally_zero) (simp add: vmr_live_def)
  moreover have "fd_refs s f = (if f < k then 1 else 0)" if "f < MAX_FILES" for f
  proof -
    have "{i. i < MAX_FDS \<and> (if i < k then Some i else None) = Some f} = (if f < k then {f} else {})"
      using that assms(2) by (auto split: if_splits)
    then show ?thesis
      using assms(1) by (simp add: fd_refs_def tally_def std_files_def)
  qed
  ultimately show ?thesis
    using assms by (auto simp: files_inv_def std_files_def file_ok_def vmr_live_def)
qed

subsection \<open>The table of mapping records\<close>

lemma pt_inv_more:
  assumes "pt_inv s" and "next_free_page s \<le> n" and "n \<le> free_pages s"
  shows "pt_inv (s\<lparr>next_free_page := n\<rparr>)"
proof -
  obtain own where tree: "pt_tree s own"
    using assms(1) by (auto simp: pt_inv_def)
  have "pool_ok (s\<lparr>next_free_page := n\<rparr>)"
    using pt_treeD(1) [OF tree] assms(3) by (simp add: pool_ok_def)
  moreover have "pool_page (s\<lparr>next_free_page := n\<rparr>) t" if "pool_page s t" for t
    using that assms(2) by (auto simp: pool_page_def word_le_nat_alt intro: less_le_trans)
  ultimately have "pt_tree (s\<lparr>next_free_page := n\<rparr>) own"
    using tree by (auto simp: pt_tree_def)
  then show ?thesis
    by (auto simp: pt_inv_def)
qed

lemma vmr_table_spec:
  assumes inv: "pt_inv s" "files_inv no_refs s" and nolazy: "\<And>k. k < NPAGES \<Longrightarrow> \<not> lazy (pmap s k)"
    and s: "vmrs s = 0" "\<not> vm_lock s" and pool: "unat (next_free_page s) + 100 \<le> unat (free_pages s)"
    and high: "unat (first_free_page s) + 409600 * (unat (next_free_page s) + 1) \<le> 2 ^ 64"
    and none: "\<And>j. v_refcnt (vmr_at s j) = 0"
  shows "\<exists>t m. vmr_table s = Some t \<and> vm_inv no_refs no_refs t \<and> pmap t = pmap s \<and>
    t = s\<lparr>next_free_page := next_free_page s + 100, vmrs := vmrs t, vmr_at := m\<rparr> \<and>
    vmrs t \<noteq> 0 \<and> (\<forall>j. v_refcnt (m j) = 0)"
proof -
  let ?p = "first_free_page s + RISCV_PGSIZE * 100 * next_free_page s"
  let ?m = "\<lambda>j :: nat. \<lparr>v_addr = 0, v_length = 0, v_file = None, v_offset = 0, v_refcnt = 0, v_prot = 0\<rparr>"
  let ?t = "s\<lparr>next_free_page := next_free_page s + 100, vmrs := ?p, vmr_at := ?m\<rparr>"
  have ne: "next_free_page s \<noteq> free_pages s"
    using pool by auto
  have t: "vmr_table s = Some ?t"
    using s ne by (simp add: vmr_table_def spinlock_lock_def page_alloc1_def spinlock_unlock_def Let_def)
  have n: "unat (next_free_page s + 100) = unat (next_free_page s) + 100"
    using pool unat_lt64 [of "free_pages s"] by (simp add: unat_word_ariths)
  have "pt_inv (s\<lparr>next_free_page := next_free_page s + 100\<rparr>)"
    using pool n by (intro pt_inv_more [OF inv(1)]) (simp_all add: word_le_nat_alt)
  then have pt: "pt_inv ?t"
    by (subst pt_inv_cong [of _ "s\<lparr>next_free_page := next_free_page s + 100\<rparr>"]) simp_all
  have ok: "unat (first_free_page s) mod 4096 = 0" "first_free_page s \<noteq> 0"
    using inv(1) pt_treeD(1) by (auto simp: pt_inv_def pool_ok_def)
  have "unat (RISCV_PGSIZE * 100 * next_free_page s) = 409600 * unat (next_free_page s)"
    using high by (simp add: unat_word_ariths)
  then have u: "unat ?p = unat (first_free_page s) + 409600 * unat (next_free_page s)"
    using high by (simp add: unat_word_ariths)
  have "?p \<noteq> 0"
    using u ok(2) by (auto simp: unat_eq_0)
  moreover have "unat ?p mod 8 = 0"
  proof -
    obtain q where "unat (first_free_page s) = 4096 * q"
      using ok(1) by (auto elim: dvdE simp: mod_eq_0_iff_dvd)
    then have "unat ?p = 8 * (512 * q + 51200 * unat (next_free_page s))"
      unfolding u by simp
    then show ?thesis
      by simp
  qed
  ultimately have rec: "recs_ok ?t" "?p \<noteq> 0"
    using high u by (simp_all add: recs_ok_def)
  have pm: "pmap ?t = pmap s"
    by (rule pmap_cong) simp_all
  have "tally NPAGES (\<lambda>k. pmap ?t k = vmr_ptr ?t j) = 0" if "j < MAX_VMR" for j
    using nolazy vmr_ptr_lazy [OF rec(1) that] unfolding pm by (intro tally_zero) metis
  then have "maps_inv no_refs ?t"
    using pt rec(1) nolazy unfolding maps_inv_def pm by auto
  moreover have "files_inv no_refs ?t"
  proof -
    have "vmr_refs ?t = vmr_refs s" "fd_refs ?t = fd_refs s"
      using none by (auto simp: fun_eq_iff vmr_refs_def vmr_live_def fd_refs_def intro!: tally_cong)
    then show ?thesis
      using inv(2) by (simp add: files_inv_def vmr_live_def)
  qed
  ultimately show ?thesis
    using t pm rec(2) by (intro exI [of _ ?t] exI [of _ ?m]) (simp add: vm_inv_def)
qed

subsection \<open>A page that is no table\<close>

lemma page_alloc_inv:
  assumes inv: "vm_inv d e s" and alloc: "page_alloc s = Some (page, s')"
  shows "vm_inv d e s'" "pmap s' = pmap s" "vm_frame s s'" "vmr_at s' = vmr_at s" "f_refcnt s' = f_refcnt s"
proof -
  obtain own where tree: "pt_tree s own"
    using vm_inv_pt(1) [OF inv] by (auto simp: pt_inv_def)
  note F = page_alloc_fresh [OF tree alloc]
  then have s': "s' = s\<lparr>next_free_page := next_free_page s + 1,
      ptmem := (\<lambda>a. if a - page < RISCV_PGSIZE then 0 else ptmem s a)\<rparr>"
    by blast
  have al: "unat page mod 4096 = 0"
    using F by blast
  have same: "ptmem s' (t + 8 * pt_idx w n) = ptmem s (t + 8 * pt_idx w n)" if "own t = Some x" for t x w n
  proof -
    have "t \<noteq> page"
      using F that by auto
    then have "\<not> t + 8 * pt_idx w n - page < RISCV_PGSIZE"
      unfolding in_page_iff [OF own_aligned [OF tree that] al] .
    then show ?thesis
      by (simp add: s')
  qed
  have "own (root_page_table s') = Some (2, 0)"
    using pt_treeD(2) [OF tree] by (simp add: s')
  then have tree': "pt_tree s' own"
    using F tree same unfolding pt_tree_def by simp blast
  have loop: "walk_loop (ptmem s') w t n = walk_loop (ptmem s) w t n" if "own t = Some (n, tkey w (Suc n))" for w t n
    using that
  proof (induction n arbitrary: t)
    case (Suc n)
    then show ?case
      using same [OF Suc.prems] pt_treeD(4) [OF tree Suc.prems] by (simp add: Let_def child_def)
  qed simp
  have walk: "walk s' w = walk s w" for w
    using loop [OF own_root [OF tree]] by (simp add: walk_def s')
  have "pte_at s' w = pte_at s w" for w
  proof (cases "walk s w = 0")
    case False
    then show ?thesis
      using walk_slot [OF tree False] same by (auto simp: pte_at_def walk)
  qed (simp add: pte_at_def walk)
  then show pm: "pmap s' = pmap s"
    by (simp add: pmap_def fun_eq_iff)
  have sel: "vmr_at s' = vmr_at s" "vmrs s' = vmrs s" "fds s' = fds s" "f_refcnt s' = f_refcnt s"
    by (simp_all add: s')
  have "vmr_ptr s' = vmr_ptr s" "recs_ok s' = recs_ok s"
    by (rule vmr_ptr_cong [OF sel(2)]) (rule recs_ok_cong [OF sel(2)])
  then have "maps_inv d s'"
    using inv tree' unfolding vm_inv_def maps_inv_def pm sel(1) by (auto simp: pt_inv_def)
  moreover have "files_inv e s'"
    using inv files_inv_cong [OF sel(3,4,1)] by (simp add: vm_inv_def)
  ultimately show "vm_inv d e s'"
    by (simp add: vm_inv_def)
  show "vm_frame s s'" "vmr_at s' = vmr_at s" "f_refcnt s' = f_refcnt s"
    by (simp_all add: vm_frame_def s')
qed

text \<open>The first mapping makes the table of records.\<close>

lemma mmap_fixed_with_table:
  assumes t: "vmr_table s = Some t" "vmrs t \<noteq> 0" "current t = current s"
    and a: "addr AND (RISCV_PGSIZE - 1) = 0" "valid_user_range s addr len"
    and ret: "do_mmap_locked H addr len prot (MAP_PRIVATE OR MAP_ANONYMOUS OR MAP_FIXED) None off t = Some (addr, s')"
  shows "do_mmap_locked H addr len prot (MAP_PRIVATE OR MAP_ANONYMOUS OR MAP_FIXED) None off s = Some (addr, s')"
proof -
  have "vmr_table t = Some t"
    using t(2) by (simp add: vmr_table_def)
  then have "vmr_alloc b l f i n q s = vmr_alloc b l f i n q t" for b l f i n q
    using t(1) by (simp add: vmr_alloc_def)
  moreover have "valid_user_range t addr len"
    using a(2) valid_range_cong [OF t(3)] by simp
  ultimately show ?thesis
    using ret a by (simp add: do_mmap_locked_def Let_def)
qed

subsection \<open>The layout\<close>

text \<open>
  \<^verbatim>\<open>kend\<close> is the end of the kernel's image, which holds its stack; the pages of the kernel are
  those of its image and the 1024 of the pool.
\<close>

definition kernel_image :: "u64 \<Rightarrow> 'h pk \<Rightarrow> bool" where
  "kernel_image kend s \<longleftrightarrow> DRAM_BASE \<le> kbuf s \<and> unat (kbuf s) + 256 \<le> unat kend \<and>
     unat kend \<le> 2 ^ 31 + 2 ^ 27"

definition kernel_pages :: "u64 \<Rightarrow> nat" where
  "kernel_pages kend = (unat kend + 4095) div 4096 - 2 ^ 19 + 1024"

definition user_top :: "u64 \<Rightarrow> u64" where
  "user_top kend = of_nat (4096 * (2 ^ 18 - kernel_pages kend))"

lemma kernel_layout:
  assumes "kernel_image kend s"
  defines "F \<equiv> ROUNDUP kend RISCV_PGSIZE"
  shows "unat F = 4096 * (2 ^ 19 + (kernel_pages kend - 1024))" "1024 \<le> kernel_pages kend" "kernel_pages kend \<le> 33792"
    and "unat (F + 1024 * RISCV_PGSIZE) = 4096 * (2 ^ 19 + kernel_pages kend)"
    and "unat (F + 1024 * RISCV_PGSIZE - DRAM_BASE) = 4096 * kernel_pages kend"
    and "unat kend \<le> unat F"
proof -
  have k: "2 ^ 31 \<le> unat kend" "unat kend \<le> 2 ^ 31 + 2 ^ 27"
    using assms(1) by (simp_all add: kernel_image_def word_le_nat_alt)
  define q where "q = (unat kend + 4095) div 4096"
  have "2 ^ 31 div 4096 \<le> q" "q \<le> (2 ^ 31 + 2 ^ 27 + 4095) div 4096"
    unfolding q_def using k by (intro div_le_mono; simp)+
  then have q: "2 ^ 19 \<le> q" "q \<le> 2 ^ 19 + 2 ^ 15"
    by simp_all
  have F: "unat F = q * 4096"
    unfolding F_def q_def using k by (intro roundup_unat) simp
  show "unat F = 4096 * (2 ^ 19 + (kernel_pages kend - 1024))" "1024 \<le> kernel_pages kend" "kernel_pages kend \<le> 33792"
    using q by (simp_all add: F kernel_pages_def flip: q_def)
  have F2: "unat (F + 1024 * RISCV_PGSIZE) = q * 4096 + 1024 * 4096"
    using q F by (simp add: unat_word_ariths)
  then show "unat (F + 1024 * RISCV_PGSIZE) = 4096 * (2 ^ 19 + kernel_pages kend)"
    using q by (simp add: kernel_pages_def flip: q_def)
  have "unat DRAM_BASE \<le> unat (F + 1024 * RISCV_PGSIZE)"
    using q F2 by simp
  then have "unat (F + 1024 * RISCV_PGSIZE - DRAM_BASE) = unat (F + 1024 * RISCV_PGSIZE) - unat DRAM_BASE"
    by (rule unat_diff64)
  then show "unat (F + 1024 * RISCV_PGSIZE - DRAM_BASE) = 4096 * kernel_pages kend"
    using q F2 by (simp add: kernel_pages_def flip: q_def)
  have "unat kend \<le> (unat kend + 4095) div 4096 * 4096"
    using div_mult_mod_eq [of "unat kend + 4095" 4096] mod_less_divisor [of 4096 "unat kend + 4095"] by linarith
  then show "unat kend \<le> unat F"
    by (simp add: F q_def)
qed

lemma unat_user_top:
  assumes "kernel_image kend s"
  shows "unat (user_top kend) = 4096 * (2 ^ 18 - kernel_pages kend)"
    and "C_MIN DRAM_BASE (0x40000000 - (ROUNDUP kend RISCV_PGSIZE + 1024 * RISCV_PGSIZE - DRAM_BASE)) = user_top kend"
proof -
  note L = kernel_layout [OF assms]
  show u: "unat (user_top kend) = 4096 * (2 ^ 18 - kernel_pages kend)"
    unfolding user_top_def by (intro unat_of_nat64) simp
  define d where "d = ROUNDUP kend RISCV_PGSIZE + 1024 * RISCV_PGSIZE - DRAM_BASE"
  have d: "unat d = 4096 * kernel_pages kend"
    using L(5) by (simp only: d_def)
  then have "unat d \<le> unat (0x40000000 :: u64)"
    using L(3) by simp
  then have e: "unat (0x40000000 - d) = unat (0x40000000 :: u64) - unat d"
    by (rule unat_diff64)
  then have "0x40000000 - d = user_top kend"
    using u d L(3) by (simp add: word_unat_eq_iff)
  moreover have "\<not> DRAM_BASE < user_top kend"
    using u by (simp add: word_less_nat_alt)
  ultimately show "C_MIN DRAM_BASE (0x40000000 - (ROUNDUP kend RISCV_PGSIZE + 1024 * RISCV_PGSIZE - DRAM_BASE)) = user_top kend"
    unfolding C_MIN_def d_def [symmetric] by (simp only: if_False)
qed

subsection \<open>Building the address space\<close>

abbreviation PROT_RWX :: u32 where "PROT_RWX \<equiv> PROT_READ OR PROT_WRITE OR PROT_EXEC"

lemma page_va_DRAM: "page_va (2 ^ 19) = DRAM_BASE"
  by (simp add: page_va_def)

text \<open>The kernel's part: the root table and the pages of image and pool.\<close>

lemma kernel_mapped:
  fixes s :: "'h pk"
  assumes img: "kernel_image kend s" and first: "next_free_page s = 0" "free_pages s = 1024"
  defines "F \<equiv> ROUNDUP kend RISCV_PGSIZE"
  defines "s3 \<equiv> s\<lparr>first_free_page := F, first_free_paddr := F + 1024 * RISCV_PGSIZE\<rparr>"
  shows "\<exists>root s4 s6. page_alloc s3 = Some (root, s4) \<and> root \<noteq> 0 \<and>
    map_kernel_range DRAM_BASE DRAM_BASE (first_free_paddr s3 - DRAM_BASE) PROT_RWX
      (s4\<lparr>root_page_table := root\<rparr>) = Some s6 \<and>
    (\<exists>m n. s6 = s3\<lparr>root_page_table := root, ptmem := m, next_free_page := n\<rparr> \<and> unat n \<le> 137) \<and>
    pt_inv s6 \<and>
    (\<forall>k < NPAGES. pmap s6 k =
      (if 2 ^ 19 \<le> k \<and> k < 2 ^ 19 + kernel_pages kend then kernel_pte k 0 PROT_RWX else 0))"
proof -
  note L = kernel_layout [OF img, folded F_def]
  let ?n = "kernel_pages kend" and ?root = "first_free_page s3"
  have ok: "pool_ok s3"
    using L(1-3) first by (auto simp: pool_ok_def s3_def unat_eq_0)
  have free: "next_free_page s3 \<noteq> free_pages s3" "next_free_page s3 = 0"
    using first by (simp_all add: s3_def)
  obtain s4 where al: "page_alloc s3 = Some (?root, s4)"
    using free by (simp add: page_alloc_def Let_def)
  let ?t = "s4\<lparr>root_page_table := ?root\<rparr>"
  note R = root_table [OF ok free al]
  have cost: "1 + 2 * tables_for (2 ^ 19) ?n \<le> 137"
    using tables_for_le [of "2 ^ 19" ?n] div_le_mono [OF L(3), of 512] by simp
  have len: "unat (ROUNDUP (first_free_paddr s3 - DRAM_BASE) RISCV_PGSIZE div RISCV_PGSIZE) = ?n"
  proof -
    have "unat (ROUNDUP (first_free_paddr s3 - DRAM_BASE) RISCV_PGSIZE) = 4096 * ?n"
      using roundup_unat [of "first_free_paddr s3 - DRAM_BASE"] L(3,5) by (simp add: s3_def)
    then show ?thesis
      by (simp add: unat_div_distrib)
  qed
  have "\<exists>s6. map_kernel_loop ?n (page_va (2 ^ 19 + 0)) 0 PROT_RWX ?t = Some s6 \<and> pt_inv s6 \<and> pt_frame ?t s6 \<and>
      unat (next_free_page s6) \<le> 1 + 2 * tables_for (2 ^ 19) (0 + ?n) \<and>
      (\<forall>k < NPAGES. pmap s6 k = (if 2 ^ 19 + 0 \<le> k \<and> k < 2 ^ 19 + (0 + ?n) then kernel_pte k 0 PROT_RWX
        else pmap ?t k))"
  proof (rule map_kernel_loop_returns)
    show "pt_inv ?t"
      by (rule R(1))
    show "2 ^ 19 + (0 + ?n) \<le> NPAGES"
      using L(3) by simp
    have t: "next_free_page ?t = 1" "free_pages ?t = 1024"
      using first by (simp_all add: R(3) s3_def)
    show "unat (next_free_page ?t) \<le> 1 + 2 * tables_for (2 ^ 19) 0"
      "1 + 2 * tables_for (2 ^ 19) (0 + ?n) \<le> unat (free_pages ?t)"
      using cost by (simp_all add: t)
  qed simp
  then obtain s6 where s6: "map_kernel_loop ?n (page_va (2 ^ 19)) 0 PROT_RWX ?t = Some s6" "pt_inv s6" "pt_frame ?t s6"
    "unat (next_free_page s6) \<le> 1 + 2 * tables_for (2 ^ 19) ?n"
    "\<forall>k < NPAGES. pmap s6 k = (if 2 ^ 19 \<le> k \<and> k < 2 ^ 19 + ?n then kernel_pte k 0 PROT_RWX else pmap ?t k)"
    by auto
  obtain m n where e: "s6 = s3\<lparr>root_page_table := ?root, ptmem := m, next_free_page := n\<rparr>"
    using s6(3) unfolding pt_frame_def R(3) by auto
  have "map_kernel_range DRAM_BASE DRAM_BASE (first_free_paddr s3 - DRAM_BASE) PROT_RWX ?t = Some s6"
    using s6(1) by (simp only: map_kernel_range_def len page_va_DRAM diff_self)
  moreover have "pmap ?t k = 0" for k
    using R(2) by (simp add: pmap_def)
  moreover have "unat n \<le> 137"
    using s6(4) cost by (simp add: e)
  moreover have "?root \<noteq> 0"
    using ok by (simp add: pool_ok_def)
  ultimately show ?thesis
    using al s6(2,5) e by auto
qed

text \<open>The stack of the program, just below the end of its address space.\<close>

abbreviation STACK_SIZE :: u64 where "STACK_SIZE \<equiv> 2048 * RISCV_PGSIZE"

lemma stack_range:
  assumes img: "kernel_image kend s" and top: "mmap_max (current t) = user_top kend"
  defines "a \<equiv> user_top kend - STACK_SIZE"
  shows "unat a = 4096 * (2 ^ 18 - kernel_pages kend - 2048)" "user_range a STACK_SIZE"
    "valid_user_range t a STACK_SIZE" "a AND (RISCV_PGSIZE - 1) = 0" "a + STACK_SIZE = user_top kend" "a \<noteq> - 1"
proof -
  note L = kernel_layout [OF img] and U = unat_user_top [OF img]
  have le: "unat (STACK_SIZE) \<le> unat (user_top kend)"
    using U(1) L(3) by simp
  have "unat a = unat (user_top kend) - unat (STACK_SIZE)"
    unfolding a_def by (rule unat_diff64 [OF le])
  then show u: "unat a = 4096 * (2 ^ 18 - kernel_pages kend - 2048)"
    using U(1) by simp
  show r: "user_range a STACK_SIZE"
    using L(3) by (simp add: user_range_def u)
  show e: "a + STACK_SIZE = user_top kend"
    by (simp add: a_def)
  have "a \<le> user_top kend"
    using u U(1) by (simp add: word_le_nat_alt)
  then show "valid_user_range t a STACK_SIZE"
    unfolding valid_user_range_def e top by (simp add: not_less)
  show "a AND (RISCV_PGSIZE - 1) = 0"
    using unat_and_4095 [of a] unat_eq_0 [of "a AND 4095"] by (simp add: u)
  show "a \<noteq> - 1"
    using r by (auto simp: user_range_def unsigned_minus_1_eq_mask mask_eq_exp_minus_1)
qed

lemma stack_mapped:
  assumes img: "kernel_image kend (s :: 'h pk)" and top: "mmap_max (current s) = user_top kend"
    and inv: "pt_inv s" "files_inv no_refs s" "\<And>k. k < NPAGES \<Longrightarrow> \<not> lazy (pmap s k)"
    and rec: "vmrs s = 0" "\<not> vm_lock s" "demand_paging s" "\<And>j. v_refcnt (vmr_at s j) = 0"
    and pool: "unat (next_free_page s) \<le> 137" "free_pages s = 1024" "unat (first_free_page s) \<le> 2 ^ 32"
  defines "a \<equiv> user_top kend - STACK_SIZE"
  shows "\<exists>s' j. do_mmap_locked H a STACK_SIZE PROT_RWX (MAP_PRIVATE OR MAP_ANONYMOUS OR MAP_FIXED) None 0 s
      = Some (a, s') \<and> vm_inv no_refs no_refs s' \<and> current s' = current s \<and> \<not> vm_lock s' \<and>
    fds s' = fds s \<and> first_free_paddr s' = first_free_paddr s \<and> demand_paging s' \<and> kbuf s' = kbuf s \<and>
    next_free_page s' \<noteq> free_pages s' \<and> counts_le s s' \<and> j < MAX_VMR \<and>
    vmr_at s' j = \<lparr>v_addr = a, v_length = STACK_SIZE, v_file = None, v_offset = 0, v_refcnt = 2048, v_prot = PROT_RWX\<rparr> \<and>
    (\<forall>k < NPAGES. pmap s' k = (if k \<in> range_pages a STACK_SIZE then vmr_ptr s' j else pmap s k))"
proof -
  note R = stack_range [OF img top, folded a_def]
  obtain t m where t: "vmr_table s = Some t" "vm_inv no_refs no_refs t" "pmap t = pmap s"
    "t = s\<lparr>next_free_page := next_free_page s + 100, vmrs := vmrs t, vmr_at := m\<rparr>" "vmrs t \<noteq> 0"
    "\<And>j. v_refcnt (m j) = 0"
    using vmr_table_spec [OF inv rec(1,2) _ _ rec(4)] pool by auto
  have sel: "current t = current s" "demand_paging t" "vm_lock t = vm_lock s" "fds t = fds s"
    "first_free_paddr t = first_free_paddr s" "kbuf t = kbuf s" "vmr_at t = m" "free_pages t = 1024"
    "next_free_page t = next_free_page s + 100" "f_refcnt t = f_refcnt s"
    using rec(3) pool(2) by (subst t(4); simp)+
  have valid: "valid_user_range t a STACK_SIZE"
    using R(3) valid_range_cong [OF sel(1)] by simp
  have len: "(unat (STACK_SIZE) + 4095) div 4096 = 2048"
    by simp
  have cost: "2 * tables_for (unat a div 4096) 2048 \<le> 12"
    using tables_for_le [of "unat a div 4096" 2048] by simp
  have "unat (next_free_page t) = unat (next_free_page s) + 100"
    using pool(1) by (simp add: sel unat_word_ariths)
  then have n: "unat (next_free_page t) \<le> 237"
    using pool(1) by simp
  have room: "unat (next_free_page t) + 2 * tables_for (unat a div 4096) ((unat (STACK_SIZE) + 4095) div 4096)
      \<le> unat (free_pages t)"
    using n cost unfolding len by (simp add: sel(8))
  have "v_refcnt (vmr_at t 0) = 0"
    using t(6) by (simp add: sel)
  then obtain s' where s': "do_mmap_locked H a STACK_SIZE PROT_RWX (MAP_PRIVATE OR MAP_ANONYMOUS OR MAP_FIXED) None 0 t
      = Some (a, s')" "free_pages s' = free_pages t"
    "unat (next_free_page s') \<le> unat (next_free_page t) + 2 * tables_for (unat a div 4096) 2048"
    using mmap_fixed_locked [OF t(2) sel(2) R(2) valid _ _ _ room, of 0 H PROT_RWX] unfolding len by auto
  have ret: "do_mmap_locked H a STACK_SIZE PROT_RWX (MAP_PRIVATE OR MAP_ANONYMOUS OR MAP_FIXED) None 0 s
      = Some (a, s')"
    by (rule mmap_fixed_with_table [OF t(1,5) sel(1) R(4,3) s'(1)])
  have "unat (mmap_max (current t)) \<le> 2 ^ 31"
    using unat_user_top(1) [OF img] by (simp add: sel top)
  then have D: "vm_inv no_refs no_refs s' \<and> vm_frame t s' \<and> counts_le t s' \<and>
      fresh_mapping t s' a STACK_SIZE \<lparr>v_addr = a, v_length = STACK_SIZE, v_file = None, v_offset = 0,
        v_refcnt = 2048, v_prot = PROT_RWX\<rparr>"
    using do_mmap_locked_spec [OF t(2) _ _ _ _ s'(1)] R(6) sel(2) by (simp add: counts_le_def)
  then obtain j where j: "j < MAX_VMR" "vmr_at s' j = \<lparr>v_addr = a, v_length = STACK_SIZE, v_file = None,
      v_offset = 0, v_refcnt = 2048, v_prot = PROT_RWX\<rparr>"
    "\<forall>k < NPAGES. pmap s' k = (if k \<in> range_pages a STACK_SIZE then vmr_ptr t j else pmap t k)"
    by (auto simp: fresh_mapping_def)
  have "vmr_ptr s' = vmr_ptr t"
    using D by (intro vmr_ptr_cong) (simp add: vm_frame_def)
  moreover have "unat (next_free_page s') < unat (free_pages s')"
    using n s'(2,3) cost by (simp add: sel)
  then have "next_free_page s' \<noteq> free_pages s'"
    by auto
  moreover have "counts_le s s'"
    using D sel(10) by (simp add: counts_le_def)
  moreover have "current s' = current s \<and> \<not> vm_lock s' \<and> fds s' = fds s \<and>
      first_free_paddr s' = first_free_paddr s \<and> demand_paging s' \<and> kbuf s' = kbuf s"
    using D sel rec(2) by (simp add: vm_frame_def)
  ultimately show ?thesis
    using ret D j t(3) by (intro exI [of _ s'] exI [of _ j]) simp
qed

lemma memsize_printed:
  assumes "kbuf_ok s" and "unat a < 2 ^ 63" "unat b < 2 ^ 63"
  obtains s' where "printk no_fault H (lit ''memsize: 0x%lx, free_pages: 0x%lx, RISCV_PGLEVEL_BITS: %d'' @ [10])
    [VLong a, VLong b, VInt 9] s = Some s'" "files_frame s s'"
proof -
  obtain u where u: "text_of False False (lit ''memsize: 0x%lx, free_pages: 0x%lx, RISCV_PGLEVEL_BITS: %d'' @ [10])
      [VLong a, VLong b, VInt 9] = Some u" "length u < 2 ^ 31"
    by (simp add: lit_def of_char_def decimal_int_def decimal.simps)
  have "\<forall>x \<in> set [VLong a, VLong b, VInt 9]. negatable x"
    using assms(2,3) by (auto simp: negatable_def)
  from printk_returns [OF u this assms(1), of H] show thesis
    using that vprintk_no_fault by blast
qed

lemma layout_printed:
  assumes "kbuf_ok s" and "\<forall>x \<in> {a, b, c, d, e}. unat x < 2 ^ 63"
  obtains s' where "printk no_fault H
    (lit ''mmap_max: 0x%lx, brk_max: 0x%lx, stack_size: 0x%lx, stack_bottom: 0x%lx, stack_top: 0x%lx'' @ [10])
    [VLong a, VLong b, VLong c, VLong d, VLong e] s = Some s'" "files_frame s s'"
proof -
  obtain u where u: "text_of False False
      (lit ''mmap_max: 0x%lx, brk_max: 0x%lx, stack_size: 0x%lx, stack_bottom: 0x%lx, stack_top: 0x%lx'' @ [10])
      [VLong a, VLong b, VLong c, VLong d, VLong e] = Some u" "length u < 2 ^ 31"
    by (simp add: lit_def of_char_def)
  have "\<forall>x \<in> set [VLong a, VLong b, VLong c, VLong d, VLong e]. negatable x"
    using assms(2) by (auto simp: negatable_def)
  from printk_returns [OF u this assms(1), of H] show thesis
    using that vprintk_no_fault by blast
qed

text \<open>What \<^verbatim>\<open>entry.S\<close> and the loader leave: zeroed globals, \<^verbatim>\<open>demand_paging\<close> set.\<close>

definition powered_on :: "'h pk \<Rightarrow> bool" where
  "powered_on s \<longleftrightarrow> std_files 0 s \<and> vmrs s = 0 \<and> \<not> vm_lock s \<and> root_page_table s = 0 \<and>
     next_free_page s = 0 \<and> demand_paging s \<and> (\<forall>j. v_refcnt (vmr_at s j) = 0) \<and>
     brk (current s) = 0 \<and> brk_min (current s) = 0"

text \<open>The address space in which a program is loaded; record \<open>j\<close> is that of the stack.\<close>

definition initial_space :: "u64 \<Rightarrow> 'h pk \<Rightarrow> nat \<Rightarrow> 'h pk \<Rightarrow> bool" where
  "initial_space kend s j s' \<longleftrightarrow>
     current s' = (current s)\<lparr>mmap_max := user_top kend, brk_max := user_top kend, stack_top := user_top kend\<rparr> \<and>
     first_free_paddr s' = ROUNDUP kend RISCV_PGSIZE + 1024 * RISCV_PGSIZE \<and> kbuf s' = kbuf s \<and>
     vmr_at s' j = \<lparr>v_addr = user_top kend - STACK_SIZE, v_length = STACK_SIZE, v_file = None,
       v_offset = 0, v_refcnt = 2048, v_prot = PROT_RWX\<rparr> \<and>
     (\<forall>k < NPAGES. pmap s' k =
       (if 2 ^ 19 \<le> k \<and> k < 2 ^ 19 + kernel_pages kend then kernel_pte k 0 PROT_RWX
        else if k \<in> range_pages (user_top kend - STACK_SIZE) STACK_SIZE then vmr_ptr s' j else 0))"

lemma vm_init_spec:
  fixes s :: "'h pk"
  assumes img: "kernel_image kend s" and std: "std_files 3 s"
    and s: "vmrs s = 0" "\<not> vm_lock s" "root_page_table s = 0" "next_free_page s = 0" "demand_paging s"
      "\<And>j. v_refcnt (vmr_at s j) = 0"
  shows "\<exists>top s' j. pk_vm_init H kend s = Some (top, s') \<and> vm_inv no_refs no_refs s' \<and> \<not> vm_lock s' \<and>
    fds s' = fds s \<and> counts_le s s' \<and> j < MAX_VMR \<and> initial_space kend s j s'"
proof -
  note L = kernel_layout [OF img]
  let ?F = "ROUNDUP kend RISCV_PGSIZE"
  define lim where "lim = user_top kend"
  define s1 where "s1 = s\<lparr>mem_size := 0x40000000, free_pages := 1024\<rparr>"
  have kb: "DRAM_BASE \<le> kbuf s" "unat (kbuf s) + 256 \<le> unat kend" "unat kend \<le> 2 ^ 31 + 2 ^ 27"
    using img by (simp_all add: kernel_image_def)
  have "kbuf_ok s1"
    using kb s(3) by (simp add: kbuf_ok_def s1_def)
  then obtain s2 where s2: "printk no_fault H (lit ''memsize: 0x%lx, free_pages: 0x%lx, RISCV_PGLEVEL_BITS: %d'' @ [10])
      [VLong 0x40000000, VLong 1024, VInt 9] s1 = Some s2" and f2: "files_frame s1 s2"
    by (rule memsize_printed [where a = "0x40000000" and b = 1024]) simp_all
  note sm2 = same_vmD [OF conjunct1 [OF f2 [unfolded files_frame_def]]]
  have img2: "kernel_image kend s2" and n2: "next_free_page s2 = 0" "free_pages s2 = 1024"
    using img s(4) by (simp_all add: kernel_image_def sm2 s1_def)
  define s3 where "s3 = s2\<lparr>first_free_page := ?F, first_free_paddr := ?F + 1024 * RISCV_PGSIZE\<rparr>"
  obtain root s4 s6 m n where K: "page_alloc s3 = Some (root, s4)" "root \<noteq> 0"
    "map_kernel_range DRAM_BASE DRAM_BASE (first_free_paddr s3 - DRAM_BASE) PROT_RWX
      (s4\<lparr>root_page_table := root\<rparr>) = Some s6"
    "s6 = s3\<lparr>root_page_table := root, ptmem := m, next_free_page := n\<rparr>" "unat n \<le> 137" "pt_inv s6"
    "\<forall>k < NPAGES. pmap s6 k =
      (if 2 ^ 19 \<le> k \<and> k < 2 ^ 19 + kernel_pages kend then kernel_pte k 0 PROT_RWX else 0)"
    using kernel_mapped [OF img2 n2] unfolding s3_def by blast
  have sel6: "vmrs s6 = 0" "vm_lock s6 = vm_lock s" "demand_paging s6" "vmr_at s6 = vmr_at s" "free_pages s6 = 1024"
    "first_free_page s6 = ?F" "first_free_paddr s6 = ?F + 1024 * RISCV_PGSIZE" "current s6 = current s"
    "kbuf s6 = kbuf s" "fds s6 = fds s" "f_refcnt s6 = f_refcnt s" "next_free_page s6 = n" "root_page_table s6 = root"
    using s f2 by (simp_all add: K(4) s3_def sm2 n2 s1_def files_frame_def)
  define s7 where "s7 = s6\<lparr>current := (current s6)\<lparr>mmap_max := lim, brk_max := lim\<rparr>\<rparr>"
  have std7: "std_files 3 s7"
    using std by (simp add: std_files_def s7_def sel6)
  have "\<not> lazy (pmap s7 k)" if "k < NPAGES" for k
  proof -
    have "pmap s7 k = pmap s6 k"
      by (rule fun_cong [OF pmap_cong]) (simp_all add: s7_def)
    then show ?thesis
      using K(7) that pte_create_valid by (simp add: kernel_pte_def valid_not_lazy lazy_0)
  qed
  moreover have "pt_inv s7"
    using K(6) by (subst pt_inv_cong [of _ s6]) (simp_all add: s7_def)
  moreover have "files_inv no_refs s7"
    using s(6) by (intro std_files_inv [OF std7]) (simp_all add: s7_def sel6)
  moreover have "unat (first_free_page s7) \<le> 2 ^ 32"
    using L(1,3) by (simp add: s7_def sel6)
  moreover have "kernel_image kend s7" "mmap_max (current s7) = user_top kend"
    using img by (simp_all add: kernel_image_def s7_def sel6 lim_def)
  ultimately obtain s8 j where S: "do_mmap_locked H (lim - STACK_SIZE) STACK_SIZE PROT_RWX
      (MAP_PRIVATE OR MAP_ANONYMOUS OR MAP_FIXED) None 0 s7 = Some (lim - STACK_SIZE, s8)"
    "vm_inv no_refs no_refs s8" "current s8 = current s7" "\<not> vm_lock s8" "fds s8 = fds s7"
    "first_free_paddr s8 = first_free_paddr s7" "kbuf s8 = kbuf s7" "next_free_page s8 \<noteq> free_pages s8"
    "j < MAX_VMR" "vmr_at s8 j = \<lparr>v_addr = lim - STACK_SIZE, v_length = STACK_SIZE, v_file = None, v_offset = 0,
      v_refcnt = 2048, v_prot = PROT_RWX\<rparr>"
    "\<forall>k < NPAGES. pmap s8 k = (if k \<in> range_pages (lim - STACK_SIZE) STACK_SIZE then vmr_ptr s8 j else pmap s7 k)"
    "counts_le s7 s8"
    using stack_mapped [of kend s7 H] s sel6 K(5) unfolding lim_def by (auto simp: s7_def)
  note R = stack_range [OF img, of s7, folded lim_def]
  have cur8: "current s8 = (current s)\<lparr>mmap_max := lim, brk_max := lim\<rparr>"
    using S(3) by (simp add: s7_def sel6)
  define s9 where "s9 = s8\<lparr>current := (current s8)\<lparr>stack_top := lim - STACK_SIZE + STACK_SIZE\<rparr>\<rparr>"
  have top9: "stack_top (current s9) = lim" "mmap_max (current s9) = lim" "brk_max (current s9) = lim"
    by (simp_all add: s9_def cur8)
  have "unat (kbuf s) + 256 \<le> unat (?F + 1024 * RISCV_PGSIZE)"
    using kb(2) L(1,4,6) by simp
  then have "kbuf_ok s9"
    using kb S(6,7) by (simp add: kbuf_ok_def s9_def s7_def sel6)
  moreover have "unat lim < 2 ^ 63" "unat (lim - STACK_SIZE) < 2 ^ 63" "unat (STACK_SIZE) < 2 ^ 63"
    using unat_user_top(1) [OF img] R(1) by (simp_all add: lim_def s7_def)
  ultimately obtain s10 where s10: "printk no_fault H
    (lit ''mmap_max: 0x%lx, brk_max: 0x%lx, stack_size: 0x%lx, stack_bottom: 0x%lx, stack_top: 0x%lx'' @ [10])
    [VLong lim, VLong lim, VLong STACK_SIZE, VLong (lim - STACK_SIZE), VLong lim] s9 = Some s10"
    and f10: "files_frame s9 s10"
    using layout_printed [of s9 lim lim STACK_SIZE "lim - STACK_SIZE" lim H] by auto
  note P = printk_vm_inv [OF s10] and sm10 = same_vmD [OF conjunct1 [OF f10 [unfolded files_frame_def]]]
  have i10: "vm_inv no_refs no_refs s10"
    using P(1) [of no_refs no_refs] S(2) by (simp add: s9_def)
  obtain top s11 where s11: "page_alloc s10 = Some (top, s11)"
    using S(8) by (simp add: page_alloc_def Let_def sm10 s9_def)
  note A = page_alloc_inv [OF i10 s11]
  have c1: "s\<lparr>mem_size := 0x40000000, free_pages := C_MAX 8 (drop_bit 8 (drop_bit RISCV_PGSHIFT 0x40000000))\<rparr> = s1"
    "free_pages s1 = 1024"
    by (simp_all add: s1_def C_MAX_def)
  have c3: "s2\<lparr>first_free_page := ?F, first_free_paddr := ?F + free_pages s2 * RISCV_PGSIZE\<rparr> = s3"
    by (simp add: s3_def n2)
  have c4: "first_free_paddr (s4\<lparr>root_page_table := root\<rparr>) = first_free_paddr s3"
    using K(1) by (auto simp: page_alloc_def Let_def)
  have c5: "C_MIN DRAM_BASE (0x40000000 - (first_free_paddr s6 - DRAM_BASE)) = lim"
    using unat_user_top(2) [OF img] by (simp only: sel6 lim_def)
  have c7: "C_MIN (drop_bit 5 (drop_bit RISCV_PGSHIFT (0x40000000 :: u64))) 2048 * RISCV_PGSIZE = STACK_SIZE"
    by (simp add: C_MIN_def)
  have c8: "mmap_max (current s7) = lim"
    by (simp add: s7_def)
  note defs = s7_def [symmetric] s9_def [symmetric]
  have ret: "pk_vm_init H kend s = Some (top + RISCV_PGSIZE, s11)"
    by (simp only: pk_vm_init_def Let_def c1 s2 bind.bind_lunit c3 K(1) prod.case c4 K(3) c5 defs c7 c8 S(1) R(6)
      not_False_eq_True kassert_def if_True top9 s10 s11)
  have "pmap s11 = pmap s8"
    using A(2) P(3) pmap_cong [of s9 s8] by (simp add: s9_def)
  moreover have "vmr_ptr s11 = vmr_ptr s8"
    using A(3) by (intro vmr_ptr_cong) (simp add: vm_frame_def sm10 s9_def)
  moreover have "pmap s7 = pmap s6"
    by (rule pmap_cong) (simp_all add: s7_def)
  ultimately have "\<forall>k < NPAGES. pmap s11 k =
      (if 2 ^ 19 \<le> k \<and> k < 2 ^ 19 + kernel_pages kend then kernel_pte k 0 PROT_RWX
       else if k \<in> range_pages (lim - STACK_SIZE) STACK_SIZE then vmr_ptr s11 j else 0)"
    using S(11) K(7) R(1) [OF c8] by (auto simp: range_pages_def)
  moreover have "current s11 = (current s)\<lparr>mmap_max := lim, brk_max := lim, stack_top := lim\<rparr>"
    using A(3) by (simp add: vm_frame_def sm10 s9_def cur8)
  moreover have "\<not> vm_lock s11" "fds s11 = fds s" "vmr_at s11 j = vmr_at s8 j"
    using A(3,4) P(4) S(4,5) f10 by (simp_all add: vm_frame_def files_frame_def sm10 s9_def s7_def sel6)
  moreover have "vmr_at s11 j = \<lparr>v_addr = lim - STACK_SIZE, v_length = STACK_SIZE, v_file = None,
      v_offset = 0, v_refcnt = 2048, v_prot = PROT_RWX\<rparr>"
    using \<open>vmr_at s11 j = vmr_at s8 j\<close> S(10) by (simp only:)
  moreover have "first_free_paddr s11 = ?F + 1024 * RISCV_PGSIZE" "kbuf s11 = kbuf s"
    using A(3) S(6,7) by (simp_all add: vm_frame_def sm10 s9_def s7_def sel6)
  ultimately have "initial_space kend s j s11"
    unfolding initial_space_def lim_def by blast
  moreover have "counts_le s s11"
    using S(12) A(5) f10 by (simp add: counts_le_def files_frame_def s9_def s7_def sel6)
  ultimately show ?thesis
    using ret A(1) S(9) \<open>\<not> vm_lock s11\<close> \<open>fds s11 = fds s\<close> by blast
qed

lemma boot_init_spec:
  assumes "powered_on s" and "kernel_image kend s"
  shows "\<exists>s1 top s' j. file_init s = Some s1 \<and> pk_vm_init H kend s1 = Some (top, s') \<and> sys_inv s' \<and>
    counts_ok s' \<and> \<not> vm_lock s' \<and> fds s' = (\<lambda>i. if i < 3 then Some i else None) \<and>
    j < MAX_VMR \<and> initial_space kend s j s'"
proof -
  obtain s1 where i: "file_init s = Some s1" "std_files 3 s1" "same_vm s s1"
    using file_init_spec [of s] assms(1) by (auto simp: powered_on_def)
  note sm = same_vmD [OF i(3)]
  have img: "kernel_image kend s1"
    using assms(2) by (simp add: kernel_image_def sm)
  have "sys_limits (current s')" if "initial_space kend s j s'" for j s'
    using that assms(1) unat_user_top(1) [OF img] by (simp add: sys_limits_def initial_space_def powered_on_def)
  moreover have "fds s1 = (\<lambda>i. if i < 3 then Some i else None)"
    using i(2) by (simp add: std_files_def)
  moreover obtain top s' j where "pk_vm_init H kend s1 = Some (top, s')" "vm_inv no_refs no_refs s'"
    "\<not> vm_lock s'" "fds s' = fds s1" "counts_le s1 s'" "j < MAX_VMR" "initial_space kend s1 j s'"
    using vm_init_spec [OF img i(2), of H] assms(1) by (auto simp: powered_on_def sm)
  moreover from this(7) have "initial_space kend s j s'"
    unfolding initial_space_def sm by blast
  moreover have "counts_ok s'"
  proof -
    have "unat (f_refcnt s1 f) \<le> 3" for f
      using i(2) by (simp add: std_files_def)
    then have "unat (f_refcnt s' f) \<le> 3" if "f < MAX_FILES" for f
      using \<open>counts_le s1 s'\<close> that unfolding counts_le_def by (meson order_trans)
    then show ?thesis
      by (fastforce simp: counts_ok_def)
  qed
  ultimately show ?thesis
    using i(1) unfolding sys_inv_def
    by (intro exI [of _ s1] exI [of _ top] exI [of _ s'] exI [of _ j]) simp
qed

text \<open>
  C20. \<^verbatim>\<open>file_init\<close> and \<^verbatim>\<open>pk_vm_init\<close>, started on zeroed globals, always return, whatever the host
  answers, and leave the kernel's invariant established: the standard descriptors are open;
  the kernel's image and its page pool are mapped to themselves, without user access;
  the stack of the program is one anonymous mapping of 2048 pages that ends
  where the address space of the program ends; no other page is mapped.  (The image ends at
  most 128 MiB above the start of memory and holds the buffer of \<^verbatim>\<open>vprintk\<close>.)
\<close>

theorem boot_establishes_invariant:
  assumes "powered_on s" and "kernel_image kend s"
  shows "\<exists>s1 top s' j. file_init s = Some s1 \<and> pk_vm_init H kend s1 = Some (top, s') \<and> sys_inv s' \<and>
    counts_ok s' \<and> \<not> vm_lock s' \<and> fds s' = (\<lambda>i. if i < 3 then Some i else None) \<and>
    j < MAX_VMR \<and> initial_space kend s j s'"
  by (rule boot_init_spec [OF assms])

definition sample_boot :: "unit pk" where
  "sample_boot = sample_pk\<lparr>fds := (\<lambda>_. None), f_refcnt := (\<lambda>_. 0), vmrs := 0, root_page_table := 0,
     current := sample_elf\<lparr>brk := 0, brk_min := 0\<rparr>\<rparr>"

theorem boot_establishes_invariant_witness:
  "\<exists>s1 top s'. file_init sample_boot = Some s1 \<and> pk_vm_init sample_host 0x80200000 s1 = Some (top, s') \<and>
     sys_inv s' \<and> mmap_max (current s') = 0x3FA00000 \<and> pmap s' 0x80000 = 0x200000CF"
proof -
  have "powered_on sample_boot" "kernel_image 0x80200000 sample_boot"
    by (simp_all add: powered_on_def std_files_def kernel_image_def sample_boot_def sample_pk_def sample_elf_def)
  from boot_establishes_invariant [OF this, of sample_host] obtain s1 top s' j where
    B: "file_init sample_boot = Some s1" "pk_vm_init sample_host 0x80200000 s1 = Some (top, s')" "sys_inv s'"
    and space: "initial_space 0x80200000 sample_boot j s'"
    by blast
  have k: "kernel_pages 0x80200000 = 1536"
    by (simp add: kernel_pages_def)
  have "pmap s' 0x80000 = kernel_pte 0x80000 0 PROT_RWX"
    using space by (simp add: initial_space_def k)
  also have "\<dots> = 0x200000CF"
    by (simp add: kernel_pte_def page_va_def pte_create_def prot_to_type_def Let_def)
  finally have "pmap s' 0x80000 = 0x200000CF" .
  moreover have "mmap_max (current s') = 0x3FA00000"
    using space by (simp add: initial_space_def user_top_def k)
  ultimately show ?thesis
    using B by blast
qed

end
