(* ===== verification/BootInv.thy ===== *)
theory BootInv
  imports Boot VmBoot
begin

text \<open>
  The invariant from power-on to the running program: reading the arguments, loading the ELF
  file and building the first stack keep it, so that every state that a program reaches
  after \<^verbatim>\<open>boot_loader\<close> has it.
\<close>

subsection \<open>The limits while a program is loaded\<close>

text \<open>All of \<^theory_text>\<open>sys_limits\<close> but the bound of \<^verbatim>\<open>brk_min\<close>, which the headers of the file determine.\<close>

definition base_limits :: "elf_info \<Rightarrow> bool" where
  "base_limits c \<longleftrightarrow> unat (mmap_max c) \<le> 2 ^ 31 \<and> unat (mmap_max c) mod 4096 = 0 \<and>
     unat (brk_max c) mod 4096 = 0 \<and> brk_max c \<le> mmap_max c \<and>
     unat (brk c) mod 4096 = 0 \<and> brk c \<le> mmap_max c"

lemma sys_limits_base: "sys_limits c \<longleftrightarrow> base_limits c \<and> brk_min c \<le> mmap_max c"
  by (auto simp: sys_limits_def base_limits_def)

lemma base_limits_updates [simp]:
  "base_limits (c\<lparr>brk_min := x\<rparr>) = base_limits c" "base_limits (c\<lparr>phdr := x\<rparr>) = base_limits c"
  "base_limits (c\<lparr>phdr_size := x\<rparr>) = base_limits c" "base_limits (c\<lparr>cycle0 := x\<rparr>) = base_limits c"
  "base_limits (c\<lparr>time0 := x\<rparr>) = base_limits c" "base_limits (c\<lparr>instret0 := x\<rparr>) = base_limits c"
  "base_limits (c\<lparr>phnum := y\<rparr>) = base_limits c" "base_limits (c\<lparr>phent := y\<rparr>) = base_limits c"
  "base_limits (c\<lparr>entry := x\<rparr>) = base_limits c"
  by (simp_all add: base_limits_def)

definition loaded :: "'h pk \<Rightarrow> bool" where
  "loaded s \<longleftrightarrow> vm_inv no_refs no_refs s \<and> base_limits (current s)"

lemma sys_inv_loaded: "sys_inv s \<longleftrightarrow> loaded s \<and> brk_min (current s) \<le> mmap_max (current s)"
  by (auto simp: sys_inv_def loaded_def sys_limits_base)

lemma keeps_loaded: "keeps s s' \<Longrightarrow> loaded s \<Longrightarrow> loaded s'"
  by (auto simp: loaded_def keeps_def)

lemma loaded_current: "loaded s \<Longrightarrow> base_limits (f (current s)) \<Longrightarrow> loaded (s\<lparr>current := f (current s)\<rparr>)"
  by (simp add: loaded_def)

text \<open>While \<^verbatim>\<open>load_elf\<close> holds a reference to its file, counted at most \<open>n\<close> times.\<close>

definition loading :: "nat \<Rightarrow> nat \<Rightarrow> 'h pk \<Rightarrow> bool" where
  "loading f n s \<longleftrightarrow> f < MAX_FILES \<and> vm_inv no_refs (no_refs(f := 1)) s \<and> base_limits (current s) \<and>
     unat (f_refcnt s f) \<le> n"

lemma keeps_loading: "keeps s s' \<Longrightarrow> loading f n s \<Longrightarrow> loading f n s'"
  unfolding loading_def keeps_def counts_le_def by (metis order_trans)

lemma loading_current: "loading f n s \<Longrightarrow> base_limits c \<Longrightarrow> loading f n (s\<lparr>current := c\<rparr>)"
  by (simp add: loading_def)

lemma loaded_cur: "loaded s \<Longrightarrow> base_limits c \<Longrightarrow> loaded (s\<lparr>current := c\<rparr>)"
  by (simp add: loaded_def)

lemma loaded_base: "loaded s \<Longrightarrow> base_limits (current s)"
  by (simp add: loaded_def)

lemma loading_base: "loading f n s \<Longrightarrow> base_limits (current s)"
  by (simp add: loading_def)

subsection \<open>Mapping a segment\<close>

text \<open>A segment without bytes in the file: a record is filled in but not taken, and the file's
  count grows (it is never given back).\<close>

lemma mmap_empty:
  assumes inv: "vm_inv no_refs e s" and fixed: "flags AND MAP_FIXED \<noteq> 0"
    and g: "g < MAX_FILES" "unsaturated s g"
    and ret: "do_mmap_locked H a 0 prot flags (Some g) off s = Some (r, s')"
  shows "vm_inv no_refs e s' \<and> current s' = current s \<and> unat (f_refcnt s' g) \<le> unat (f_refcnt s g) + 1"
proof (cases "a AND (RISCV_PGSIZE - 1) \<noteq> 0 \<or> \<not> valid_user_range s a 0")
  case True
  then obtain fmt vl where p: "printk no_fault H fmt vl s = Some s'"
    using ret fixed by (auto simp: do_mmap_locked_def Let_def bind_Some_iff split: if_splits)
  then show ?thesis
    using printk_vm_inv [OF p] printk_counts [OF p] inv by (simp add: vm_frame_def)
next
  case False
  let ?n = "ucast ((0 - 1 :: u64) div RISCV_PGSIZE + 1) :: u32"
  have n0: "?n = 0"
    by (simp add: unsigned_minus_1_eq_mask)
  obtain v s1 where v: "vmr_alloc a 0 (Some g) off ?n prot s = Some (v, s1)"
    using ret fixed False by (auto simp: do_mmap_locked_def Let_def bind_Some_iff split: if_splits)
  have V: "vm_inv no_refs e s1 \<and> current s1 = current s \<and> unat (f_refcnt s1 g) \<le> unat (f_refcnt s g) + 1"
  proof (cases "scan_from (\<lambda>j. v_refcnt (vmr_at s j) = 0) 0 MAX_VMR")
    case None
    then show ?thesis
      using v vm_inv_pt(2) [OF inv] inv by (simp add: vmr_alloc_def vmr_table_def recs_ok_def)
  next
    case (Some j)
    then have j: "j < MAX_VMR" "v_refcnt (vmr_at s j) = 0"
      using scan_from_SomeD by blast+
    obtain s2 where s2: "file_incref g s = Some s2"
      and s1: "s1 = s2\<lparr>vmr_at := (vmr_at s2)(j := \<lparr>v_addr = a, v_length = 0, v_file = Some g,
        v_offset = off, v_refcnt = ?n, v_prot = prot\<rparr>)\<rparr>"
      using v Some vm_inv_pt(2) [OF inv] by (auto simp: vmr_alloc_def vmr_table_def recs_ok_def bind_Some_iff)
    have s2': "s2 = s\<lparr>f_refcnt := (f_refcnt s)(g := f_refcnt s g + 1)\<rparr>"
      using s2 by (auto simp: file_incref_def Let_def)
    have "files_inv (e(g := Suc (e g))) s2"
      using file_incref_inv [OF _ g s2] inv by (simp add: vm_inv_def)
    then have "files_inv e s2"
      by (rule files_inv_less) simp
    moreover have "vmr_refs s1 = vmr_refs s2" "fd_refs s1 = fd_refs s2"
      using j(2) n0 by (auto simp: fun_eq_iff vmr_refs_def vmr_live_def fd_refs_def s1 s2' intro!: tally_cong)
    ultimately have "files_inv e s1"
      using j(2) n0 by (auto simp: files_inv_def vmr_live_def s1 s2')
    moreover have "maps_inv no_refs s1"
    proof -
      have "pmap s1 = pmap s" "vmr_ptr s1 = vmr_ptr s" "recs_ok s1 = recs_ok s"
        by (rule pmap_cong vmr_ptr_cong recs_ok_cong; simp add: s1 s2')+
      moreover have "pt_inv s1 = pt_inv s"
        by (rule pt_inv_cong) (simp_all add: s1 s2')
      moreover have "v_refcnt (vmr_at s1 i) = v_refcnt (vmr_at s i)" for i
        using j(2) n0 by (simp add: s1 s2')
      ultimately show ?thesis
        using inv unfolding vm_inv_def maps_inv_def by simp
    qed
    moreover have "unat (f_refcnt s g + 1) = unat (f_refcnt s g) + 1"
      using g(2) by (simp add: unsaturated_def unat_word_ariths)
    ultimately show ?thesis
      by (simp add: vm_inv_def s1 s2')
  qed
  have nopages: "page_for body a a t = Some t" for body and t :: "'a pk"
    by (simp add: page_for.simps)
  have "s' = s1 \<or> (\<exists>fmt vl. printk no_fault H fmt vl s1 = Some s')"
  proof (cases "v = 0")
    case True
    then show ?thesis
      using ret fixed False v by (auto simp: do_mmap_locked_def Let_def bind_Some_iff)
  next
    case nz: False
    then show ?thesis
      using ret fixed False v by (simp add: do_mmap_locked_def Let_def nopages split: if_splits)
  qed
  then consider "s' = s1" | fmt vl where "printk no_fault H fmt vl s1 = Some s'"
    by blast
  then show ?thesis
  proof cases
    case 1
    then show ?thesis
      using V by simp
  next
    case 2
    then show ?thesis
      using printk_vm_inv [OF 2] printk_counts [OF 2] V by (simp add: vm_frame_def)
  qed
qed

lemma fixed_flags: "flags AND MAP_FIXED \<noteq> 0 \<Longrightarrow> (flags OR x) AND MAP_FIXED \<noteq> 0" for flags x :: u32
  by (simp add: bit.conj_disj_distrib2 or_eq_0_iff)

lemma mmap_segment:
  assumes L: "loading f n s" and n: "n + 1 < 2 ^ 32" and fixed: "flags AND MAP_FIXED \<noteq> 0"
    and ret: "do_mmap_locked H a len prot flags (Some f) off s = Some (r, s')"
  shows "loading f (n + 1) s'"
proof -
  have f: "f < MAX_FILES" "unsaturated s f" and inv: "vm_inv no_refs (no_refs(f := 1)) s"
    using L n by (simp_all add: loading_def unsaturated_def)
  show ?thesis
  proof (cases "len = 0")
    case True
    then show ?thesis
      using mmap_empty [OF inv fixed f] ret L by (fastforce simp: loading_def)
  next
    case False
    have lim: "unat (mmap_max (current s)) \<le> 2 ^ 31"
      using L by (simp add: loading_def base_limits_def)
    have "vm_inv no_refs (no_refs(f := 1)) s' \<and> vm_frame s s' \<and> unat (f_refcnt s' f) \<le> unat (f_refcnt s f) + 1"
      using do_mmap_locked_spec [OF inv False lim _ _ ret] fixed f by auto
    then show ?thesis
      using L by (simp add: loading_def vm_frame_def)
  qed
qed

lemma mmap_anonymous:
  assumes L: "loading f n s" and len: "len \<noteq> 0" and fixed: "flags AND MAP_FIXED \<noteq> 0"
    and ret: "do_mmap_locked H a len prot flags None off s = Some (r, s')"
  shows "loading f n s'"
proof -
  have inv: "vm_inv no_refs (no_refs(f := 1)) s" and lim: "unat (mmap_max (current s)) \<le> 2 ^ 31"
    using L by (simp_all add: loading_def base_limits_def)
  have "vm_inv no_refs (no_refs(f := 1)) s' \<and> vm_frame s s' \<and>
      (\<forall>g < MAX_FILES. unat (f_refcnt s' g) \<le> unat (f_refcnt s g))"
    using do_mmap_locked_spec [OF inv len lim _ _ ret] fixed by auto
  then show ?thesis
    using L by (fastforce simp: loading_def vm_frame_def)
qed

lemma mprotect_loading:
  assumes L: "loading f n s" and ret: "do_mprotect a len prot s = Some (r, s')"
  shows "loading f n s'"
proof (cases "a AND (RISCV_PGSIZE - 1) \<noteq> 0")
  case True
  then show ?thesis
    using L ret by (simp add: do_mprotect_def)
next
  case False
  then obtain t where t: "mprotect_loop prot a (a + len) (s\<lparr>vm_lock := True\<rparr>) = Some (r, t)"
    and s': "s' = spinlock_unlock t"
    using ret by (auto simp: do_mprotect_def bind_Some_iff spinlock_lock_iff)
  show ?thesis
    using mprotect_loop_inv [OF t, of no_refs "no_refs(f := 1)"] L
    by (simp add: loading_def s') (simp add: spinlock_unlock_def)
qed

lemma raise_brk_min_loading:
  assumes L: "loading f n s" and ret: "raise_brk_min E i va sz s = Some s'"
  shows "loading f n s'"
proof (cases "va + sz > brk_min (current s)")
  case True
  then obtain fmt vl where
    "printk (pf E) (e_host E) fmt vl (s\<lparr>current := (current s)\<lparr>brk_min := va + sz\<rparr>\<rparr>) = Some s'"
    using ret by (auto simp: raise_brk_min_def Let_def)
  moreover have "loading f n (s\<lparr>current := (current s)\<lparr>brk_min := va + sz\<rparr>\<rparr>)"
    using L by (intro loading_current) (simp_all add: loading_def)
  ultimately show ?thesis
    by (blast intro: keeps_loading ua.R_vprintk)
qed (use L ret in \<open>simp add: raise_brk_min_def\<close>)

lemma load_segment_loading:
  assumes L: "loading f n s" and n: "n + 1 < 2 ^ 32" and ret: "load_segment E f base i s = Some (ok, s')"
  shows "loading f (n + 1) s'"
proof (cases "p_type (phdr_at s i) = PT_LOAD \<and> p_memsz (phdr_at s i) \<noteq> 0")
  case False
  then show ?thesis
    using L ret by (auto simp: load_segment_def Let_def loading_def)
next
  case True
  let ?ph = "phdr_at s i" and ?fl = "MAP_FIXED OR MAP_PRIVATE"
  let ?pre = "p_vaddr ?ph mod RISCV_PGSIZE" and ?va = "p_vaddr ?ph + base" and ?prot = "get_prot (p_flags ?ph)"
  let ?mapped = "ROUNDUP (p_filesz ?ph + ?pre) RISCV_PGSIZE - ?pre"
  obtain s1 a s2 where s1: "raise_brk_min E i ?va (p_memsz ?ph) s = Some s1"
    and s2: "do_mmap_locked (e_host E) (?va - ?pre) (p_filesz ?ph + ?pre) (?prot OR PROT_WRITE)
      (?fl OR (if ?pre \<noteq> 0 then MAP_POPULATE else 0)) (Some f) (p_offset ?ph - ?pre) s1 = Some (a, s2)"
    and rest: "(if a \<noteq> ?va - ?pre then Some (False, s2)
      else do {
        s3 \<leftarrow> ustore_bytes (pf E) (?va - ?pre) (replicate (unat ?pre) 0) s2;
        (r, s4) \<leftarrow> (if ?prot AND PROT_WRITE = 0 then do_mprotect (?va - ?pre) (p_filesz ?ph + ?pre) ?prot s3
          else Some (0, s3));
        (if r \<noteq> 0 then Some (False, s4)
         else if p_memsz ?ph > ?mapped then
           do {
             (a2, s5) \<leftarrow> do_mmap_locked (e_host E) (?va + ?mapped) (p_memsz ?ph - ?mapped)
               ?prot (?fl OR MAP_ANONYMOUS) None 0 s4;
             Some (a2 = ?va + ?mapped, s5)
           }
         else Some (True, s4))
      }) = Some (ok, s')"
    using ret True unfolding load_segment_def Let_def by (auto simp: bind_Some_iff simp del: if_split)
  have L2: "loading f (n + 1) s2"
    by (rule mmap_segment [OF raise_brk_min_loading [OF L s1] n _ s2]) (rule fixed_flags, simp)
  show ?thesis
  proof (cases "a = ?va - ?pre")
    case False
    then show ?thesis
      using rest L2 by simp
  next
    case True
    then obtain s3 r s4 where s3: "ustore_bytes (pf E) (?va - ?pre) (replicate (unat ?pre) 0) s2 = Some s3"
      and s4: "(if ?prot AND PROT_WRITE = 0 then do_mprotect (?va - ?pre) (p_filesz ?ph + ?pre) ?prot s3
          else Some (0, s3)) = Some (r, s4)"
      and last: "(if r \<noteq> 0 then Some (False, s4)
         else if p_memsz ?ph > ?mapped then
           do {
             (a2, s5) \<leftarrow> do_mmap_locked (e_host E) (?va + ?mapped) (p_memsz ?ph - ?mapped)
               ?prot (?fl OR MAP_ANONYMOUS) None 0 s4;
             Some (a2 = ?va + ?mapped, s5)
           }
         else Some (True, s4)) = Some (ok, s')"
      using rest by (auto simp: bind_Some_iff simp del: if_split)
    have L3: "loading f (n + 1) s3"
      by (rule keeps_loading [OF ua.R_ustore_bytes [OF s3] L2])
    then have L4: "loading f (n + 1) s4"
      using s4 mprotect_loading [OF L3] by (auto split: if_splits)
    show ?thesis
    proof (cases "r = 0 \<and> p_memsz ?ph > ?mapped")
      case False
      then show ?thesis
        using last L4 by (auto split: if_splits)
    next
      case True
      then obtain a2 where s5: "do_mmap_locked (e_host E) (?va + ?mapped) (p_memsz ?ph - ?mapped)
          ?prot (?fl OR MAP_ANONYMOUS) None 0 s4 = Some (a2, s')"
        using last by (auto simp: bind_Some_iff)
      have "p_memsz ?ph - ?mapped \<noteq> 0"
        using True by auto
      then show ?thesis
        by (rule mmap_anonymous [OF L4 _ _ s5]) (rule fixed_flags, simp)
    qed
  qed
qed

subsection \<open>Loading\<close>

lemma load_segments_loading:
  assumes "loading f n s" and "n + k < 2 ^ 32" and "load_segments E f base k s = Some (ok, s')"
  shows "\<exists>m. loading f m s'"
  using assms
proof (induction k arbitrary: n s)
  case 0
  then show ?case by auto
next
  case (Suc k)
  obtain ok1 s1 where s1: "load_segment E f base k s = Some (ok1, s1)"
    and rest: "(if ok1 then load_segments E f base k s1 else Some (False, s1)) = Some (ok, s')"
    using Suc.prems(3) by (auto simp: bind_Some_iff)
  have "loading f (n + 1) s1"
    using load_segment_loading [OF Suc.prems(1) _ s1] Suc.prems(2) by simp
  then show ?case
    using rest Suc.IH [of "n + 1" s1] Suc.prems(2) by (auto split: if_splits)
qed

lemma load_le_2: "unat (load_le 2 m a) < 2 ^ 16"
proof -
  have "take_bit 16 (load_le 2 m a) = load_le 2 m a"
    by (rule bit_word_eqI) (auto simp: bit_take_bit_iff bit_load_le)
  then show ?thesis
    using take_bit_nat_less_exp [of 16 "unat (load_le 2 m a)"] by (metis unsigned_take_bit_eq)
qed

lemma load_elf_file_loaded:
  assumes L: "loading f 2 s" and ret: "load_elf_file E f s = Some (True, s')"
  shows "loaded s'"
proof -
  obtain ehdr_size s1 where s1: "file_pread (pf E) (e_host E) f (kbuf s) EHDR_SIZE 0 s = Some (ehdr_size, s1)"
    using ret by (auto simp: load_elf_file_def Let_def bind_Some_iff)
  let ?eh = "load_ehdr (mem s1) (va2pa s1 (kbuf s))"
  obtain r s2 where s2: "file_pread (pf E) (e_host E) f (phdr (current s1)) (e_phnum ?eh * PHDR_SIZE)
      (e_phoff ?eh) s1 = Some (r, s2)"
    using ret s1 by (auto simp: load_elf_file_def Let_def bind_Some_iff split: if_splits)
  let ?base = "if e_type ?eh = ET_DYN then RISCV_PGSIZE else 0"
  let ?s3 = "s2\<lparr>current := (current s2)
    \<lparr>phnum := ucast (e_phnum ?eh), phent := ucast PHDR_SIZE, entry := e_entry ?eh + ?base\<rparr>\<rparr>"
  obtain s4 where s4: "load_segments E f ?base (unat (e_phnum ?eh)) ?s3 = Some (True, s4)"
    and s': "s' = file_decref (e_host E) f s4"
    using ret s1 s2 by (auto simp: load_elf_file_def Let_def bind_Some_iff split: if_splits)
  have "loading f 2 s2"
    using keeps_loading [OF ua.R_file_pread [OF s2] keeps_loading [OF ua.R_file_pread [OF s1] L]] .
  then have "loading f 2 ?s3"
    by (intro loading_current) (simp_all add: loading_def)
  moreover have "2 + unat (e_phnum ?eh) < 2 ^ 32"
    using load_le_2 [of "mem s1" "va2pa s1 (kbuf s) + 56"] by (simp add: load_ehdr_def)
  ultimately obtain m where "loading f m s4"
    using load_segments_loading [OF _ _ s4] by blast
  then show ?thesis
    using vm_inv_decref [of no_refs "no_refs(f := 1)" s4 f "e_host E"]
    by (simp add: loaded_def loading_def s' same_vmD(11) [OF file_decref_frame(4)])
qed

lemma load_elf_loaded:
  assumes L: "loaded s" and cnt: "counts_ok s" and ret: "load_elf E fn name s = Some (Inr s')"
  shows "loaded s'"
proof -
  obtain r s1 where o1: "file_open (pf E) (e_host E) fn 0 0 s = Some (r, s1)"
    using ret by (auto simp: load_elf_def bind_Some_iff)
  obtain f where r: "r = Inr f" and lf: "load_elf_file E f s1 = Some (True, s')"
    using ret o1 by (auto simp: load_elf_def bind_Some_iff split: sum.splits if_splits)
  have "vm_inv no_refs no_refs s" "slack 2 s"
    using L cnt by (simp_all add: loaded_def counts_slack)
  then have "loading f 2 s1"
    using file_openat_inv [OF _ _ _ o1 [unfolded file_open_def]] L r by (auto simp: loading_def loaded_def)
  then show ?thesis
    by (rule load_elf_file_loaded [OF _ lf])
qed

subsection \<open>Arguments\<close>

lemma loaded_mem [simp]: "loaded (s\<lparr>mem := m\<rparr>) = loaded s"
  by (simp add: loaded_def)

lemma loaded_paging [simp]: "loaded (s\<lparr>demand_paging := b\<rparr>) = loaded s"
proof -
  have "files_inv no_refs (s\<lparr>demand_paging := b\<rparr>) = files_inv no_refs s"
    by (rule files_inv_cong) simp_all
  moreover have "maps_inv no_refs (s\<lparr>demand_paging := b\<rparr>) = maps_inv no_refs s"
    by (rule maps_inv_cong) simp_all
  ultimately show ?thesis
    by (simp add: loaded_def vm_inv_def)
qed

lemma counts_ok_updates [simp]:
  "counts_ok (s\<lparr>mem := m\<rparr>) = counts_ok s" "counts_ok (s\<lparr>demand_paging := b\<rparr>) = counts_ok s"
  "counts_ok (s\<lparr>current := c\<rparr>) = counts_ok s"
  by (simp_all add: counts_ok_def)

lemma counts_ok_le: "counts_le s s' \<Longrightarrow> counts_ok s \<Longrightarrow> counts_ok s'"
  unfolding counts_ok_def counts_le_def by (meson add_le_mono1 le_less_trans)

lemma parse_options_loaded:
  assumes "parse_options E pk_argv pk_argc arg s = Some (Inr (n, s'))" and "loaded s" and "counts_ok s"
  shows "loaded s' \<and> counts_ok s'"
  using assms
proof (induction E pk_argv pk_argc arg s rule: parse_options.induct)
  case (1 E pk_argv pk_argc arg s)
  show ?case
  proof (cases "arg < pk_argc \<and> mem s (va2pa s (kload64 s (pk_argv + 8 * arg))) = 0x2D")
    case False
    then show ?thesis
      using 1(2-4) by (auto simp: parse_options.simps [of E pk_argv pk_argc arg s])
  next
    case True
    obtain s1 where h: "handle_option E (kload64 s (pk_argv + 8 * arg)) s = Some (Inr s1)"
      and r: "parse_options E pk_argv pk_argc (arg + 1) s1 = Some (Inr (n, s'))"
      using True 1(2) by (auto simp: parse_options.simps [of E pk_argv pk_argc arg s]
          split: option.splits sum.splits)
    have "loaded s1 \<and> counts_ok s1"
      using h 1(3,4) by (auto simp: handle_option_def Let_def loaded_cur loaded_base split: if_splits)
    then show ?thesis
      using 1(1) [OF True h _ r] by simp
  qed
qed

lemma shift_args_mem: "\<exists>m. shift_args args pk_argv pk_argc arg i s = s\<lparr>mem := m\<rparr>"
proof (induction args pk_argv pk_argc arg i s rule: shift_args.induct)
  case (1 args pk_argv pk_argc arg i s)
  note eq = shift_args.simps [of args pk_argv pk_argc arg i s]
  show ?case
  proof (cases "arg + i < pk_argc")
    case False
    then show ?thesis
      unfolding eq by (simp only: if_False) (metis pk.surjective pk.update_convs(5))
  next
    case True
    then show ?thesis
      using 1 [OF True] unfolding eq by (auto simp: kstore64_def)
  qed
qed

lemma parse_args_loaded:
  assumes "parse_args E args s = Some (Inr (n, s'))" and L: "loaded s" and cnt: "counts_ok s"
  shows "loaded s' \<and> counts_ok s'"
proof -
  obtain r s1 where f: "frontend_syscall (e_host E) SYS_getmainvars
      [va2pa s args, 8 * of_nat MAX_ARGS, 0, 0, 0, 0, 0] s = (r, s1)"
    by fastforce
  obtain arg s2 m where o2: "parse_options E (args + 8) (kload64 s1 args) 1 s1 = Some (Inr (arg, s2))"
    and s': "s' = s2\<lparr>mem := m\<rparr>"
    using assms(1) f shift_args_mem
    by (fastforce simp: parse_args_def Let_def split: if_splits option.splits sum.splits)
  have k: "keeps s s1"
    using ua.R_frontend [OF f] .
  have "counts_ok s1"
    using counts_ok_le [OF keepsD(2) [OF k, of no_refs] cnt] L by (simp add: loaded_def)
  then show ?thesis
    using parse_options_loaded [OF o2 keeps_loaded [OF k L]] by (simp add: s')
qed

subsection \<open>The stack\<close>

lemma ucopy_keeps: "ucopy (handle_page_fault H) d src n s = Some s' \<Longrightarrow> keeps s s'"
proof (induction n arbitrary: d src s)
  case 0
  then show ?case by simp
next
  case (Suc n)
  then obtain s1 s2 where "touch (handle_page_fault H) PROT_READ src s = Some s1"
    "ustore8 (handle_page_fault H) d (mem s1 (va2pa s1 src)) s1 = Some s2"
    "ucopy (handle_page_fault H) (d + 1) (src + 1) n s2 = Some s'"
    by (auto simp: bind_Some_iff)
  then show ?case
    using ua.R_touch ua.R_ustore8 Suc.IH keeps_trans by meson
qed

lemma copy_args_keeps: "copy_args E argv i n tp s = Some (tp', s') \<Longrightarrow> keeps s s'"
proof (induction n arbitrary: i tp s)
  case 0
  then show ?case by simp
next
  case (Suc n)
  then obtain k s1 s2 where "ustrlen (pf E) (kload64 s (argv + 8 * of_nat i)) s = Some (k, s1)"
    "ucopy (pf E) (tp - (k + 1)) (kload64 s (argv + 8 * of_nat i)) (unat (k + 1)) s1 = Some s2"
    "copy_args E argv (Suc i) n (tp - (k + 1)) (kstore64 (argv + 8 * of_nat i) (tp - (k + 1)) s2) = Some (tp', s')"
    by (auto simp: bind_Some_iff Let_def)
  then have "keeps s s1" "keeps s1 s2" "keeps s2 (kstore64 (argv + 8 * of_nat i) (tp - (k + 1)) s2)"
    "keeps (kstore64 (argv + 8 * of_nat i) (tp - (k + 1)) s2) s'"
    using ua.R_ustrlen ucopy_keeps Suc.IH ua.R_mem by (auto simp: kstore64_def)
  then show ?case
    using keeps_trans by blast
qed

lemma push_args_keeps: "push_args (handle_page_fault H) sp vs s = Some s' \<Longrightarrow> keeps s s'"
proof (induction vs arbitrary: sp s)
  case Nil
  then show ?case by simp
next
  case (Cons v vs)
  then obtain s1 where "ustore64 (handle_page_fault H) sp v s = Some s1"
    "push_args (handle_page_fault H) (sp + 8) vs s1 = Some s'"
    by (auto simp: bind_Some_iff)
  then show ?case
    using ua.R_ustore64 Cons.IH keeps_trans by meson
qed

lemma run_loaded_program_loaded:
  assumes "run_loaded_program E sstatus argc argv s = Some (tf, s')" and L: "loaded s"
  shows "loaded s' \<and> brk_min (current s') = brk_min (current s) \<and> mmap_max (current s') = mmap_max (current s)"
proof -
  let ?top = "stack_top (current s) - phdr_size (current s)"
  define out where "out t = (if cycle0 (current t) \<noteq> 0
      then t\<lparr>current := (current t)\<lparr>time0 := e_time E, cycle0 := e_cycle E, instret0 := e_instret E\<rparr>\<rparr>
      else t)" for t :: "'a pk"
  obtain s1 tp s3 where s1: "ucopy (pf E) (stack_top (current s) - phdr_size (current s))
      (phdr (current s)) (unat (phdr_size (current s))) s = Some s1"
    and s3: "copy_args E argv 0 argc (stack_top (current s) - phdr_size (current s))
      (s1\<lparr>current := (current s1)\<lparr>phdr := stack_top (current s) - phdr_size (current s)\<rparr>\<rparr>) = Some (tp, s3)"
    using assms(1) by (auto simp: run_loaded_program_def Let_def bind_Some_iff)
  obtain sp vs s4 where s4: "push_args (pf E) sp vs s3 = Some s4" and s': "s' = out s4"
    using assms(1) s1 s3 unfolding run_loaded_program_def Let_def out_def [symmetric]
    by (auto simp del: append.simps simp: bind_Some_iff)
  let ?s2 = "s1\<lparr>current := (current s1)\<lparr>phdr := stack_top (current s) - phdr_size (current s)\<rparr>\<rparr>"
  have k1: "loaded s1" "current s1 = current s"
    using ucopy_keeps [OF s1] L by (auto simp: loaded_def keeps_def)
  then have "loaded ?s2"
    using loaded_base [OF L] by (simp add: loaded_cur)
  moreover have "keeps ?s2 s4"
    using copy_args_keeps [OF s3] push_args_keeps [OF s4] by (rule keeps_trans)
  ultimately have "loaded s4 \<and> current s4 = current ?s2"
    by (auto simp: loaded_def keeps_def)
  then show ?thesis
    by (auto simp: s' out_def k1(2) loaded_def)
qed

subsection \<open>The whole boot\<close>

lemma boot_loader_loaded:
  assumes on: "powered_on s" "kernel_image kend s"
    and ret: "boot_loader E kend sstatus args phdrs s = Some (Inr (tf, s'))"
  shows "loaded s'"
proof -
  obtain t1 top t2 where i: "file_init s = Some t1" "pk_vm_init (e_host E) kend t1 = Some (top, t2)"
    "sys_inv t2" "counts_ok t2"
    using boot_init_spec [OF on, of "e_host E"] by blast
  obtain argc s1 where p: "parse_args E args t2 = Some (Inr (argc, s1))"
    and ret2: "rest_of_boot_loader E sstatus args phdrs t2 = Some (Inr (tf, s'))"
    using ret i(1,2) by (auto simp: boot_loader_def rest_of_boot_loader_def split: option.splits sum.splits)
  let ?s2 = "s1\<lparr>current := (current s1)\<lparr>phdr := phdrs, phdr_size := 1024\<rparr>\<rparr>"
  obtain name r where e0: "load_elf E (kload64 ?s2 args) name ?s2 = Some r"
    and r0: "(case r of Inl t \<Rightarrow> Some (Inl t)
      | Inr t \<Rightarrow> map_option Inr (run_loaded_program E sstatus (unat argc) args t)) = Some (Inr (tf, s'))"
    using ret2 p by (auto simp: rest_of_boot_loader_def Let_def bind_Some_iff split: if_splits)
  then obtain s3 where e: "load_elf E (kload64 ?s2 args) name ?s2 = Some (Inr s3)"
    and r: "run_loaded_program E sstatus (unat argc) args s3 = Some (tf, s')"
    by (cases r) auto
  have "loaded s1 \<and> counts_ok s1"
    using parse_args_loaded [OF p _ i(4)] i(3) by (simp add: sys_inv_loaded)
  then have "loaded ?s2" "counts_ok ?s2"
    by (simp_all add: loaded_cur loaded_base)
  then show ?thesis
    using run_loaded_program_loaded [OF r] load_elf_loaded [OF _ _ e] by blast
qed

end
