(* ===== verification/UserMem.thy ===== *)
theory UserMem
  imports Boot VmBoot
begin

text \<open>
  Memory as the kernel reaches it while pages come in on demand.  \<^theory_text>\<open>view\<close> is the partial map of
  the bytes that can be read and written without a fault: the kernel's own memory and the pages
  of the program that are mapped with both rights.  On a stack that is mapped or still anonymous
  (\<^theory_text>\<open>stack_ok\<close>) every access returns, and the lemmas say what it does to the view.
\<close>

text \<open>Where the kernel may load and store without a fault.\<close>

definition reach :: "'h pk \<Rightarrow> u64 set" where
  "reach s = {a. DRAM_BASE \<le> a \<and> a < first_free_paddr s \<or>
     a < DRAM_BASE \<and> accessible s a PROT_READ \<and> accessible s a PROT_WRITE}"

definition view :: "'h pk \<Rightarrow> u64 \<Rightarrow> u8 option" where
  "view s a = (if a \<in> reach s then Some (vmem s a) else None)"

definition holds :: "'h pk \<Rightarrow> u64 \<Rightarrow> u8 list \<Rightarrow> bool" where
  "holds s a bs \<longleftrightarrow> (\<forall>i < length bs. view s (a + of_nat i) = Some (bs ! i))"

lemma holds_Nil [simp]: "holds s a []"
  by (simp add: holds_def)

lemma holds_Cons [simp]: "holds s a (b # bs) \<longleftrightarrow> view s a = Some b \<and> holds s (a + 1) bs"
  by (auto simp: holds_def nth_Cons less_Suc_eq_0_disj algebra_simps)

lemma holds_append: "holds s a (bs @ cs) \<longleftrightarrow> holds s a bs \<and> holds s (a + of_nat (length bs)) cs"
  by (induction bs arbitrary: a) (auto simp: algebra_simps)

lemma viewD: "view s a = Some b \<Longrightarrow> a \<in> reach s \<and> vmem s a = b"
  by (simp add: view_def split: if_splits)

lemma holdsD: "holds s a bs \<Longrightarrow> i < length bs \<Longrightarrow> vmem s (a + of_nat i) = bs ! i"
  by (simp add: holds_def viewD)

lemma touch_reach:
  "a \<in> reach s \<Longrightarrow> prot = PROT_READ \<or> prot = PROT_WRITE \<Longrightarrow> touch fault prot a s = Some s"
  by (auto simp: touch_def reach_def accessible_def)

lemma reach_root: "root_page_table s = 0 \<Longrightarrow> a < DRAM_BASE \<Longrightarrow> a \<in> reach s"
  by (simp add: reach_def accessible_def)

subsection \<open>Rights of a page that came in\<close>

definition anon_at :: "'h pk \<Rightarrow> u64 \<Rightarrow> bool" where
  "anon_at s a \<longleftrightarrow> (\<exists>j < MAX_VMR. pmap s (vp a) = vmr_ptr s j \<and> v_file (vmr_at s j) = None \<and>
     v_prot (vmr_at s j) = PROT_RWX)"

lemma or_and_self:
  fixes c d y :: "'a :: len word"
  assumes "c AND d = d"
  shows "(y OR c) AND d = d"
proof -
  have "(y OR c) AND (c AND d) = c AND d"
    by (rule bit_eqI) (auto simp: bit_simps)
  then show ?thesis
    by (simp only: assms)
qed

lemma rwx_permits:
  assumes "v_prot r = PROT_RWX" and "prot = PROT_READ \<or> prot = PROT_WRITE"
  shows "permits (paged_pte s b r) prot"
    "paged_pte s b r AND pte_create 0 (prot_to_type prot False) = pte_create 0 (prot_to_type prot False)"
proof -
  have "paged_pte s b r = push_bit 10 (drop_bit RISCV_PGSHIFT b + first_free_paddr s div RISCV_PGSIZE) OR 0xDF"
    using assms(1) by (simp add: paged_pte_def pte_create_def prot_to_type_def Let_def or.assoc)
  moreover have "(y OR 0xDF) AND 0x53 = 0x53" "(y OR 0xDF) AND 0x95 = 0x95"
    "(y OR 0xDF) AND 0x43 = 0x43" "(y OR 0xDF) AND 0x85 = 0x85" for y :: u64
    by (intro or_and_self; simp)+
  ultimately show "permits (paged_pte s b r) prot"
    "paged_pte s b r AND pte_create 0 (prot_to_type prot False) = pte_create 0 (prot_to_type prot False)"
    using assms(2) by (auto simp: permits_def pte_create_def prot_to_type_def Let_def)
qed

subsection \<open>A stack that can be touched\<close>

definition stack_ok :: "u64 \<Rightarrow> u64 \<Rightarrow> 'h pk \<Rightarrow> bool" where
  "stack_ok lo hi s \<longleftrightarrow> vm_inv no_refs no_refs s \<and> \<not> vm_lock s \<and>
     unat (mmap_max (current s)) \<le> 2 ^ 31 \<and> hi \<le> mmap_max (current s) \<and>
     DRAM_BASE \<le> first_free_paddr s \<and> unat (first_free_paddr s) + 2 ^ 31 + 4096 < 2 ^ 64 \<and>
     (\<forall>a. lo \<le> a \<and> a < hi \<longrightarrow> a \<in> reach s \<or> anon_at s a)"

text \<open>What a stretch of kernel code may change: the bytes of \<open>D\<close>, and which pages are in.\<close>

definition within :: "u64 \<Rightarrow> u64 \<Rightarrow> u64 set \<Rightarrow> 'h pk \<Rightarrow> 'h pk \<Rightarrow> bool" where
  "within lo hi D s s' \<longleftrightarrow> (stack_ok lo hi s \<longrightarrow> stack_ok lo hi s' \<and> current s' = current s \<and>
     first_free_paddr s' = first_free_paddr s \<and> reach s \<subseteq> reach s' \<and>
     (\<forall>a \<in> reach s - D. vmem s' a = vmem s a))"

lemma within_refl [simp]: "within lo hi D s s"
  by (simp add: within_def)

lemma within_trans: "within lo hi D s t \<Longrightarrow> within lo hi D t u \<Longrightarrow> within lo hi D s u"
  by (auto simp: within_def subset_iff)

lemma within_mono: "within lo hi D s t \<Longrightarrow> D \<subseteq> D' \<Longrightarrow> within lo hi D' s t"
  unfolding within_def by (meson DiffD1 DiffD2 DiffI subsetD)

lemma withinD:
  assumes "within lo hi D s s'" and "stack_ok lo hi s"
  shows "stack_ok lo hi s'" "current s' = current s" "first_free_paddr s' = first_free_paddr s"
    "reach s \<subseteq> reach s'" "a \<in> reach s \<Longrightarrow> a \<notin> D \<Longrightarrow> vmem s' a = vmem s a"
  using assms by (simp_all add: within_def)

lemma within_holds:
  assumes "within lo hi D s s'" and "stack_ok lo hi s" and "holds s a bs"
    and "span a (length bs) \<inter> D = {}" and "unat a + length bs \<le> 2 ^ 64"
  shows "holds s' a bs"
  unfolding holds_def
proof (intro allI impI)
  fix i
  assume i: "i < length bs"
  then have "view s (a + of_nat i) = Some (bs ! i)" "a + of_nat i \<notin> D"
    using assms(3,4) in_span [OF i assms(5)] by (auto simp: holds_def)
  then show "view s' (a + of_nat i) = Some (bs ! i)"
    using withinD(4,5) [OF assms(1,2)] by (auto simp: view_def split: if_splits)
qed

lemma user_pa:
  assumes "stack_ok lo hi s" and "a < DRAM_BASE"
  shows "va2pa s a = a + first_free_paddr s" "unat (va2pa s a) = unat a + unat (first_free_paddr s)"
proof -
  show pa: "va2pa s a = a + first_free_paddr s"
    using assms(2) unfolding va2pa_def not_le [symmetric] by simp
  have "unat a + unat (first_free_paddr s) < 2 ^ 64"
    using assms by (auto simp: stack_ok_def word_less_nat_alt)
  then show "unat (va2pa s a) = unat a + unat (first_free_paddr s)"
    by (simp add: pa unat_word_ariths)
qed

lemma va2pa_inj:
  assumes s: "stack_ok lo hi s" and ab: "a \<in> reach s" "b \<in> reach s" "va2pa s a = va2pa s b"
  shows "a = b"
proof -
  consider "DRAM_BASE \<le> a" "DRAM_BASE \<le> b" | "a < DRAM_BASE" "b < DRAM_BASE"
    | "DRAM_BASE \<le> a" "b < DRAM_BASE" | "a < DRAM_BASE" "DRAM_BASE \<le> b"
    by (meson not_le)
  then show ?thesis
  proof cases
    case 1
    then show ?thesis
      using ab(3) by (simp add: va2pa_def)
  next
    case 2
    then show ?thesis
      using ab(3) user_pa(1) [OF s] by simp
  next
    case 3
    then show ?thesis
      using ab user_pa(2) [OF s 3(2)] by (auto simp: reach_def va2pa_def word_less_nat_alt word_le_nat_alt)
  next
    case 4
    then show ?thesis
      using ab user_pa(2) [OF s 4(1)] by (auto simp: reach_def va2pa_def word_less_nat_alt word_le_nat_alt)
  qed
qed

subsection \<open>Touching the stack\<close>

lemma reach_pte:
  "reach s = {a. DRAM_BASE \<le> a \<and> a < first_free_paddr s \<or> a < DRAM_BASE \<and> (root_page_table s = 0 \<or>
     pte_at s a AND 0x43 = 0x43 \<and> pte_at s a AND 0x85 = 0x85)}"
  by (auto simp: reach_def accessible_def pte_create_def prot_to_type_def Let_def)

lemma rwx_bits:
  assumes "v_prot r = PROT_RWX"
  shows "paged_pte s b r AND 0x43 = 0x43" "paged_pte s b r AND 0x85 = 0x85"
  using rwx_permits(2) [OF assms, of PROT_READ s b] rwx_permits(2) [OF assms, of PROT_WRITE s b]
  by (simp_all add: pte_create_def prot_to_type_def Let_def)

lemma lazy_perms:
  assumes "lazy x"
  shows "x AND pte_create 0 t \<noteq> pte_create 0 t"
proof
  assume "x AND pte_create 0 t = pte_create 0 t"
  then have "pte_create 0 t AND PTE_V = (x AND PTE_V) AND pte_create 0 t"
    by (simp only: and.assoc and.commute and.left_commute)
  with assms show False
    using pte_create_valid [of 0 t] by (simp add: lazy_def)
qed

lemma va2pa_same: "first_free_paddr s' = first_free_paddr s \<Longrightarrow> va2pa s' = va2pa s"
  by (simp add: va2pa_def fun_eq_iff)

text \<open>A fault on an anonymous page of the stack.\<close>

lemma vp_user: "a < DRAM_BASE \<Longrightarrow> vp a = unat a div 4096"
  by (rule vp_small) (simp add: word_less_nat_alt)

lemma page_base_unat: "unat (page_base a) = 4096 * (unat a div 4096)"
proof -
  have "unat (page_base a) = 4096 * (unat a div 4096) mod 2 ^ 64"
    by (simp add: page_base_def push_bit_eq_mult drop_bit_eq_div unat_word_ariths unat_div
        mod_mult_right_eq mod_mult_left_eq mult.commute)
  moreover have "4096 * (unat a div 4096) < 2 ^ 64"
    using times_div_less_eq_dividend [of 4096 "unat a"] unat_lt64 [of a] by linarith
  ultimately show ?thesis
    by (simp only: mod_less)
qed

lemma anon_page_in:
  assumes s: "stack_ok lo hi s" and va: "lo \<le> va" "va < hi" "anon_at s va"
    and prot: "prot = PROT_READ \<or> prot = PROT_WRITE" and root: "root_page_table s \<noteq> 0"
  shows "\<exists>s'. handle_page_fault H va prot s = Some (0, s') \<and> within lo hi {} s s' \<and> va \<in> reach s'"
proof -
  have inv: "vm_inv no_refs no_refs s" and lock: "\<not> vm_lock s"
    and lim: "unat (mmap_max (current s)) \<le> 2 ^ 31" "hi \<le> mmap_max (current s)"
    and ffp: "DRAM_BASE \<le> first_free_paddr s" "unat (first_free_paddr s) + 2 ^ 31 + 4096 < 2 ^ 64"
    and all: "\<forall>a. lo \<le> a \<and> a < hi \<longrightarrow> a \<in> reach s \<or> anon_at s a"
    using s by (simp_all add: stack_ok_def)
  obtain j where j: "j < MAX_VMR" "pmap s (vp va) = vmr_ptr s j" "v_file (vmr_at s j) = None"
    "v_prot (vmr_at s j) = PROT_RWX"
    using va(3) by (auto simp: anon_at_def)
  have hi: "unat hi \<le> 2 ^ 31" and va31: "unat va < 2 ^ 31"
    using lim va(2) by (simp_all add: word_le_nat_alt word_less_nat_alt)
  have base: "unat (page_base va) \<le> unat va"
    by (simp add: page_base_unat)
  have usr: "valid_user_range s (page_base va) 1"
    using base va(2) lim va31 unfolding valid_user_range_def
    by (auto simp: word_le_nat_alt word_less_nat_alt unat_word_ariths)
  obtain s' where s': "handle_page_fault H va prot s = Some (0, s')"
    and m: "mem s' = fill (mem s) (page_base va + first_free_paddr s) 0 4096"
    and fr: "vm_frame s s'"
    and rec: "vmr_at s' = (vmr_at s)(j := (vmr_at s j)\<lparr>v_refcnt := v_refcnt (vmr_at s j) - 1\<rparr>)"
    using anon_fault [OF inv lock j(1-3) usr lim(1) ffp(2), of H prot]
    by (auto simp: rwx_permits(1) [OF j(4) prot])
  note F = fault_spec [OF inv s']
  have pt: "pt_inv s" "pt_inv s'"
    using vm_inv_pt(1) inv F by blast+
  have lz: "lazy (pmap s (vp va))"
    using vmr_ptr_lazy [OF vm_inv_pt(2) [OF inv] j(1)] by (simp add: j(2))
  have new: "pmap s' (vp va) = paged_pte s (page_base va) (vmr_at s j)"
    using F lz usr j vmr_ptr_inj [OF vm_inv_pt(2) [OF inv] j(1)] by auto
  have old: "pmap s' (vp b) = pmap s (vp b)" if "vp b \<noteq> vp va" for b
    using F that vp_less by blast
  note pte = pmap_vp [OF pt(1)] pmap_vp [OF pt(2)]
  have same: "first_free_paddr s' = first_free_paddr s" "current s' = current s" "vmr_ptr s' = vmr_ptr s"
    "\<not> vm_lock s'"
    using fr lock vmr_ptr_cong [of s' s] by (simp_all add: vm_frame_def)
  have in': "b \<in> reach s'" if "b < DRAM_BASE" "vp b = vp va" for b
  proof -
    have "pte_at s' b = paged_pte s (page_base va) (vmr_at s j)"
      using that(2) by (simp only: pte new)
    then have "pte_at s' b AND 0x43 = 0x43 \<and> pte_at s' b AND 0x85 = 0x85"
      using rwx_bits [OF j(4), of s "page_base va"] by (simp only: simp_thms)
    then show ?thesis
      using that(1) unfolding reach_pte by blast
  qed
  have out: "vp b \<noteq> vp va" if "b < DRAM_BASE" "b \<in> reach s" for b
    using that root lazy_perms [OF lz] by (auto simp: reach_def accessible_def Let_def pte)
  have mono: "reach s \<subseteq> reach s'"
  proof
    fix b
    assume b: "b \<in> reach s"
    show "b \<in> reach s'"
    proof (cases "b < DRAM_BASE")
      case True
      then have "pte_at s' b = pte_at s b"
        using old [OF out [OF True b]] by (simp add: pte)
      then show ?thesis
        using b root True by (auto simp: reach_def accessible_def Let_def same(1))
    qed (use b in \<open>simp add: reach_def same(1)\<close>)
  qed
  have keep: "vmem s' b = vmem s b" if b: "b \<in> reach s" for b
  proof -
    have "\<not> unat (va2pa s b - (page_base va + first_free_paddr s)) < 4096"
    proof
      assume small: "unat (va2pa s b - (page_base va + first_free_paddr s)) < 4096"
      have c: "unat (page_base va + first_free_paddr s) = unat (page_base va) + unat (first_free_paddr s)"
        using base va31 ffp(2) by (simp add: unat_word_ariths)
      have pa: "unat (va2pa s b) = unat (page_base va) + unat (first_free_paddr s) +
          unat (va2pa s b - (page_base va + first_free_paddr s))"
        using unat_add_lem [of "page_base va + first_free_paddr s"
            "va2pa s b - (page_base va + first_free_paddr s)"] c small base va31 ffp(2) by simp
      show False
      proof (cases "b < DRAM_BASE")
        case True
        then have "unat b div 4096 = unat va div 4096"
          using pa user_pa(2) [OF s True] small by (simp add: page_base_unat)
        then show ?thesis
          using out [OF True b] True va31 by (simp add: vp_user word_less_nat_alt)
      next
        case False
        then show ?thesis
          using pa b by (auto simp: reach_def va2pa_def word_less_nat_alt)
      qed
    qed
    then show ?thesis
      by (simp add: vmem_def m fill_def va2pa_same [OF same(1)])
  qed
  have anon: "x \<in> reach s' \<or> anon_at s' x" if lh: "lo \<le> x \<and> x < hi" for x
  proof -
    have x: "x < DRAM_BASE"
      using lh hi by (simp add: word_less_nat_alt)
    consider "vp x = vp va" | "x \<in> reach s" | "anon_at s x" "vp x \<noteq> vp va"
      using mp [OF spec [OF all, of x] lh] by argo
    then show ?thesis
    proof cases
      case 1
      then show ?thesis
        using in' [OF x] by simp
    next
      case 2
      then show ?thesis
        using subsetD [OF mono] by simp
    next
      case 3
      then show ?thesis
        using old [of x] by (auto simp: anon_at_def same(3) rec)
    qed
  qed
  have "stack_ok lo hi s'"
    using F anon lim ffp same(4) by (simp add: stack_ok_def same(1,2))
  then have "within lo hi {} s s'"
    unfolding within_def using same(1,2) mono keep by blast
  moreover have "va \<in> reach s'"
    using in' va31 by (simp add: word_less_nat_alt)
  ultimately show ?thesis
    using s' by blast
qed

lemma touch_stack:
  assumes s: "stack_ok lo hi s" and a: "lo \<le> a" "a < hi" and prot: "prot = PROT_READ \<or> prot = PROT_WRITE"
  shows "\<exists>s'. touch (handle_page_fault H) prot a s = Some s' \<and> within lo hi {} s s' \<and> a \<in> reach s'"
proof (cases "a \<in> reach s")
  case True
  then show ?thesis
    using touch_reach [OF True prot] by auto
next
  case False
  then have anon: "anon_at s a"
    using s a by (auto simp: stack_ok_def)
  have a31: "a < DRAM_BASE"
    using s a(2) by (auto simp: stack_ok_def word_less_nat_alt word_le_nat_alt)
  then have root: "root_page_table s \<noteq> 0"
    using False reach_root by blast
  obtain j where j: "j < MAX_VMR" "pmap s (vp a) = vmr_ptr s j"
    using anon by (auto simp: anon_at_def)
  have inv: "pt_inv s" "recs_ok s"
    using s vm_inv_pt unfolding stack_ok_def by blast+
  have "lazy (pte_at s a)"
    using vmr_ptr_lazy [OF inv(2) j(1)] by (simp only: pmap_vp [OF inv(1)] j(2))
  then have no: "pte_at s a AND pte_create 0 t \<noteq> pte_create 0 t" for t
    by (rule lazy_perms)
  then have "\<not> accessible s a prot"
    using root a31 no by (auto simp: accessible_def Let_def)
  then show ?thesis
    using anon_page_in [OF s a anon prot root, of H] by (auto simp: touch_def)
qed

subsection \<open>Stores\<close>

lemma reach_mem [simp]: "reach (s\<lparr>mem := m\<rparr>) = reach s"
  by (simp add: reach_def accessible_def pte_at_def walk_def)

lemma va2pa_mem [simp]: "va2pa (s\<lparr>mem := m\<rparr>) = va2pa s"
  by (rule va2pa_same) simp

lemma stack_ok_mem [simp]: "stack_ok lo hi (s\<lparr>mem := m\<rparr>) = stack_ok lo hi s"
proof -
  have "anon_at (s\<lparr>mem := m\<rparr>) = anon_at s"
    using pmap_cong [of "s\<lparr>mem := m\<rparr>" s] vmr_ptr_cong [of "s\<lparr>mem := m\<rparr>" s]
    by (simp add: fun_eq_iff anon_at_def)
  then show ?thesis
    by (simp add: stack_ok_def)
qed

lemma mem_within:
  assumes "\<And>a. a \<in> reach s - D \<Longrightarrow> m (va2pa s a) = mem s (va2pa s a)"
  shows "within lo hi D s (s\<lparr>mem := m\<rparr>)"
  using assms by (simp add: within_def vmem_def)

lemma ustore8_stack:
  assumes s: "stack_ok lo hi s" and a: "lo \<le> a" "a < hi"
  shows "\<exists>s'. ustore8 (handle_page_fault H) a b s = Some s' \<and> within lo hi {a} s s' \<and> view s' a = Some b"
proof -
  obtain t where t: "touch (handle_page_fault H) PROT_WRITE a s = Some t" "within lo hi {} s t" "a \<in> reach t"
    using touch_stack [OF s a] by blast
  let ?u = "t\<lparr>mem := (mem t)(va2pa t a := b)\<rparr>"
  have ok: "stack_ok lo hi t"
    using withinD(1) [OF t(2) s] .
  have "within lo hi {a} t ?u"
    using va2pa_inj [OF ok _ t(3)] by (intro mem_within) auto
  moreover have "within lo hi {a} s t"
    using within_mono [OF t(2)] by simp
  moreover have "view ?u a = Some b"
    using t(3) by (simp add: view_def vmem_def)
  ultimately show ?thesis
    using t(1) within_trans by (auto simp: ustore8_def)
qed

lemma holds_word: "holds s a (word_bytes v) \<Longrightarrow> load64 (vmem s) a = v"
  by (rule load64_bytes) (simp add: holdsD)

lemma store_word:
  assumes s: "stack_ok lo hi s" and R: "span a 8 \<subseteq> reach s" "unat a + 8 \<le> 2 ^ 64"
    and lin: "\<And>i. i < 8 \<Longrightarrow> va2pa s (a + of_nat i) = va2pa s a + of_nat i"
  shows "within lo hi (span a 8) s (s\<lparr>mem := store64 (mem s) (va2pa s a) v\<rparr>)"
    "holds (s\<lparr>mem := store64 (mem s) (va2pa s a) v\<rparr>) a (word_bytes v)"
proof -
  have at: "a + of_nat i \<in> span a 8" if "i < 8" for i
    using in_span [OF that R(2)] .
  show "within lo hi (span a 8) s (s\<lparr>mem := store64 (mem s) (va2pa s a) v\<rparr>)"
  proof (rule mem_within)
    fix b
    assume b: "b \<in> reach s - span a 8"
    have "va2pa s b \<noteq> va2pa s a + of_nat i" if i: "i < 8" for i
    proof
      assume "va2pa s b = va2pa s a + of_nat i"
      then have "va2pa s b = va2pa s (a + of_nat i)"
        by (simp only: lin [OF i])
      then have "b = a + of_nat i"
        using va2pa_inj [OF s] b R(1) at [OF i] by blast
      then show False
        using b at [OF i] by blast
    qed
    then show "store64 (mem s) (va2pa s a) v (va2pa s b) = mem s (va2pa s b)"
      by (rule store_le_other)
  qed
  show "holds (s\<lparr>mem := store64 (mem s) (va2pa s a) v\<rparr>) a (word_bytes v)"
    unfolding holds_def
  proof (intro allI impI)
    fix i
    assume "i < length (word_bytes v)"
    then have i: "i < 8"
      by simp
    then have "a + of_nat i \<in> reach s"
      using at R(1) by blast
    moreover have "store64 (mem s) (va2pa s a) v (va2pa s a + of_nat i) = word_bytes v ! i"
      using i by (simp only: store_le_same [OF _ order_refl]) (simp add: word_bytes_def)
    ultimately show "view (s\<lparr>mem := store64 (mem s) (va2pa s a) v\<rparr>) (a + of_nat i) = Some (word_bytes v ! i)"
      by (simp add: view_def vmem_def lin [OF i])
  qed
qed

lemma reach_page:
  assumes "stack_ok lo hi s" and "a \<in> reach s" and "a < DRAM_BASE" "b < DRAM_BASE" "vp a = vp b"
  shows "b \<in> reach s"
proof -
  have "pt_inv s"
    using assms(1) vm_inv_pt unfolding stack_ok_def by blast
  then have "pte_at s b = pte_at s a"
    by (simp only: pmap_vp assms(5))
  then show ?thesis
    using assms(2-4) by (auto simp: reach_def accessible_def Let_def)
qed

lemma page_of_eight:
  fixes x a :: nat
  assumes "a \<le> x" "x < a + 8"
  shows "x div 4096 = a div 4096 \<or> x div 4096 = (a + 7) div 4096"
proof -
  have "a div 4096 \<le> x div 4096" "x div 4096 \<le> (a + 7) div 4096" "(a + 7) div 4096 \<le> (a + 4096) div 4096"
    using assms by (intro div_le_mono; simp)+
  moreover have "(a + 4096) div 4096 = a div 4096 + 1"
    by simp
  ultimately show ?thesis
    by linarith
qed

lemma ustore64_stack:
  assumes s: "stack_ok lo hi s" and a: "lo \<le> a" "unat a + 8 \<le> unat hi"
  shows "\<exists>s'. ustore64 (handle_page_fault H) a v s = Some s' \<and> within lo hi (span a 8) s s' \<and>
    holds s' a (word_bytes v)"
proof -
  have hi: "unat hi \<le> 2 ^ 31"
    using s by (auto simp: stack_ok_def word_le_nat_alt)
  have off: "unat (a + of_nat i) = unat a + i" if "i < 8" for i
    using that a(2) hi by (simp add: unat_word_ariths unat_of_nat64)
  have a7: "unat (a + 7) = unat a + 7"
    using off [of 7] by simp
  have user: "x < DRAM_BASE" if "x \<in> span a 8" for x
    using that a(2) hi by (simp add: span_def word_less_nat_alt)
  have in_a: "a \<in> span a 8" "a + 7 \<in> span a 8"
    by (simp_all add: span_def a7)
  have "a < hi" "lo \<le> a + 7" "a + 7 < hi"
    using a a7 by (simp_all add: word_less_nat_alt word_le_nat_alt)
  then obtain t where t: "touch (handle_page_fault H) PROT_WRITE a s = Some t" "within lo hi {} s t" "a \<in> reach t"
    using touch_stack [OF s a(1)] by blast
  have t_ok: "stack_ok lo hi t"
    using withinD(1) [OF t(2) s] .
  obtain u where u: "touch (handle_page_fault H) PROT_WRITE (a + 7) t = Some u" "within lo hi {} t u"
    "a + 7 \<in> reach u"
    using touch_stack [OF t_ok \<open>lo \<le> a + 7\<close> \<open>a + 7 < hi\<close>] by blast
  have u_ok: "stack_ok lo hi u"
    using withinD(1) [OF u(2) t_ok] .
  have "a \<in> reach u"
    using withinD(4) [OF u(2) t_ok] t(3) by blast
  have R: "span a 8 \<subseteq> reach u"
  proof
    fix x
    assume x: "x \<in> span a 8"
    have "unat x div 4096 = unat a div 4096 \<or> unat x div 4096 = (unat a + 7) div 4096"
      by (rule page_of_eight) (use x in \<open>auto simp: span_def\<close>)
    then have "vp a = vp x \<or> vp (a + 7) = vp x"
      using vp_user [OF user [OF x]] vp_user [OF user [OF in_a(1)]] vp_user [OF user [OF in_a(2)]] a7
      by presburger
    then show "x \<in> reach u"
      using reach_page [OF u_ok \<open>a \<in> reach u\<close>] reach_page [OF u_ok u(3)] user x in_a by blast
  qed
  have lin: "va2pa u (a + of_nat i) = va2pa u a + of_nat i" if "i < 8" for i
  proof -
    have "a + of_nat i \<in> span a 8"
      using that off [OF that] by (simp add: span_def)
    then show ?thesis
      using user_pa(1) [OF u_ok user] in_a(1) by (simp add: algebra_simps)
  qed
  note W = store_word [OF u_ok R _ lin, of v]
  let ?w = "u\<lparr>mem := store64 (mem u) (va2pa u a) v\<rparr>"
  have "within lo hi (span a 8) s ?w"
    using within_trans [OF within_trans [OF within_mono [OF t(2)] within_mono [OF u(2)]] W(1)] a(2) hi by simp
  moreover have "ustore64 (handle_page_fault H) a v s = Some ?w"
    using t(1) u(1) by (simp add: ustore64_def)
  ultimately show ?thesis
    using W(2) a(2) hi by auto
qed

lemma kstore64_stack:
  assumes s: "stack_ok lo hi s" and a: "DRAM_BASE \<le> a" "unat a + 8 \<le> unat (first_free_paddr s)"
  shows "within lo hi (span a 8) s (kstore64 a v s)" "holds (kstore64 a v s) a (word_bytes v)"
proof -
  have ffp: "unat (first_free_paddr s) < 2 ^ 64"
    by (rule unat_lt64)
  have "span a 8 \<subseteq> reach s"
    using a by (auto simp: span_def reach_def word_le_nat_alt word_less_nat_alt)
  moreover have "va2pa s (a + of_nat i) = va2pa s a + of_nat i" if "i < 8" for i
  proof -
    have "unat (a + of_nat i) = unat a + i"
      using that a(2) ffp by (simp add: unat_word_ariths unat_of_nat64)
    then show ?thesis
      using a(1) by (simp add: va2pa_def word_le_nat_alt)
  qed
  ultimately show "within lo hi (span a 8) s (kstore64 a v s)" "holds (kstore64 a v s) a (word_bytes v)"
    using store_word [OF s, of a v] a(2) ffp by (simp_all add: kstore64_def)
qed

end
