(* ===== verification/StackImage.thy ===== *)
theory StackImage
  imports UserMem
begin

text \<open>
  The first stack of a program.  \<^theory_text>\<open>run_loaded_program\<close> copies the program headers and the argument
  strings to the top of the stack and writes \<^verbatim>\<open>argc\<close>, the pointers to the strings, an empty
  environment and the auxiliary vector below them.  On a stack whose pages are mapped or
  anonymous it returns, and the image is what the calling convention of the program expects.
\<close>

subsection \<open>Copying\<close>

lemma unat_plus_1: "unat a < 2 ^ 64 - 1 \<Longrightarrow> unat (a + 1) = unat a + 1" for a :: u64
  by (simp add: unat_word_ariths)

lemma ucopy_stack:
  assumes "stack_ok lo hi s" and "holds s src bs" and "lo \<le> d" and "unat d + length bs \<le> unat hi"
    and "span src (length bs) \<inter> span d (length bs) = {}" and "unat src + length bs < 2 ^ 64"
  shows "\<exists>s'. ucopy (handle_page_fault H) d src (length bs) s = Some s' \<and>
    within lo hi (span d (length bs)) s s' \<and> holds s' d bs"
  using assms
proof (induction bs arbitrary: d src s)
  case Nil
  then show ?case
    by simp
next
  case (Cons b bs)
  have hi: "unat hi < 2 ^ 64"
    by (rule unat_lt64)
  have b: "src \<in> reach s" "vmem s src = b"
    using Cons.prems(2) viewD [of s src b] by simp_all
  have up: "unat (d + 1) = unat d + 1" "unat (src + 1) = unat src + 1"
    using Cons.prems(4,6) hi by (simp_all add: unat_plus_1)
  have sub: "span (src + 1) (length bs) \<subseteq> span src (length (b # bs))"
    "span (d + 1) (length bs) \<subseteq> span d (length (b # bs))" "d \<in> span d (length (b # bs))"
    by (auto simp: span_def up)
  have "d < hi"
    using Cons.prems(4) by (simp add: word_less_nat_alt)
  then obtain t where t: "ustore8 (handle_page_fault H) d b s = Some t" "within lo hi {d} s t" "view t d = Some b"
    using ustore8_stack [OF Cons.prems(1,3)] by blast
  have t_ok: "stack_ok lo hi t"
    using withinD(1) [OF t(2) Cons.prems(1)] .
  have "holds t (src + 1) bs"
    using Cons.prems(2,5,6) sub up by (intro within_holds [OF t(2) Cons.prems(1)]) auto
  moreover have "lo \<le> d + 1"
    using Cons.prems(3) up by (simp add: word_le_nat_alt)
  moreover have "span (src + 1) (length bs) \<inter> span (d + 1) (length bs) = {}"
    using Cons.prems(5) sub by blast
  ultimately obtain u where u: "ucopy (handle_page_fault H) (d + 1) (src + 1) (length bs) t = Some u"
    "within lo hi (span (d + 1) (length bs)) t u" "holds u (d + 1) bs"
    using Cons.IH [OF t_ok, of "src + 1" "d + 1"] Cons.prems(4,6) up by auto
  have "holds u d [b]"
    using up t(3) Cons.prems(4) hi by (intro within_holds [OF u(2) t_ok]) (auto simp: span_def)
  moreover have "ucopy (handle_page_fault H) d src (length (b # bs)) s = Some u"
    using touch_reach [OF b(1), of PROT_READ] t(1) u(1) b(2) by (simp add: vmem_def)
  moreover have "within lo hi (span d (length (b # bs))) s u"
    using within_trans [OF within_mono [OF t(2)] within_mono [OF u(2)]] sub by blast
  ultimately show ?case
    using u(3) by auto
qed

lemma ustrlen_loop_reach:
  assumes "holds s p (bs @ [0])" and "0 \<notin> set bs"
  shows "ustrlen_loop fault p s = Some (p + of_nat (length bs), s)"
  using assms
proof (induction bs arbitrary: p)
  case Nil
  then show ?case
    using viewD [of s p 0] by (simp add: ustrlen_loop.simps [of _ p] touch_reach vmem_def)
next
  case (Cons b bs)
  then have "ustrlen_loop fault (p + 1) s = Some (p + 1 + of_nat (length bs), s)"
    by simp
  then show ?case
    using viewD [of s p b] Cons.prems
    by (simp add: ustrlen_loop.simps [of _ p] touch_reach vmem_def algebra_simps)
qed

lemma ustrlen_reach:
  "holds s p (bs @ [0]) \<Longrightarrow> 0 \<notin> set bs \<Longrightarrow> ustrlen fault p s = Some (of_nat (length bs), s)"
  by (simp add: ustrlen_def ustrlen_loop_reach)

lemma kload64_view:
  assumes "DRAM_BASE \<le> a" and "unat a + 8 \<le> 2 ^ 64"
  shows "kload64 s a = load64 (vmem s) a"
proof -
  have "mem s (va2pa s a + of_nat i) = vmem s (a + of_nat i)" if "i < 8" for i
  proof -
    have "unat (a + of_nat i) = unat a + i"
      using that assms(2) by (simp add: unat_word_ariths unat_of_nat64)
    then show ?thesis
      using assms(1) by (simp add: vmem_def va2pa_def word_le_nat_alt)
  qed
  then have "mem s (va2pa s a + of_nat i) = word_bytes (load64 (vmem s) a) ! i" if "i < 8" for i
    using that by (simp add: bytes_load64)
  then show ?thesis
    unfolding kload64_def by (rule load64_bytes)
qed

subsection \<open>Argument strings\<close>

text \<open>The bytes that the first \<open>k\<close> strings take, and the place of string \<open>k\<close> below \<open>tos\<close>.\<close>

definition used :: "u8 list list \<Rightarrow> nat \<Rightarrow> nat" where
  "used strs k = sum_list (map (\<lambda>bs. length bs + 1) (take k strs))"

definition str_at :: "u64 \<Rightarrow> u8 list list \<Rightarrow> nat \<Rightarrow> u64" where
  "str_at tos strs k = tos - of_nat (used strs (Suc k))"

lemma used_0 [simp]: "used strs 0 = 0"
  by (simp add: used_def)

lemma used_Suc: "k < length strs \<Longrightarrow> used strs (Suc k) = used strs k + (length (strs ! k) + 1)"
  by (simp add: used_def take_Suc_conv_app_nth)

lemma used_mono: "i \<le> k \<Longrightarrow> used strs i \<le> used strs k"
proof (induction k rule: dec_induct)
  case base
  then show ?case by simp
next
  case (step n)
  have "used strs n \<le> used strs (Suc n)"
    by (cases "n < length strs") (simp_all add: used_Suc, simp add: used_def)
  then show ?case
    using step by simp
qed

text \<open>Argument \<open>k\<close> as it comes from the host, in kernel memory, and as the program gets it.\<close>

definition arg_in :: "'h pk \<Rightarrow> u64 \<Rightarrow> u8 list list \<Rightarrow> nat \<Rightarrow> bool" where
  "arg_in s argv strs k \<longleftrightarrow> (\<exists>p. holds s (argv + 8 * of_nat k) (word_bytes p) \<and>
     holds s p (strs ! k @ [0]) \<and> 0 \<notin> set (strs ! k) \<and> DRAM_BASE \<le> p \<and>
     unat p + length (strs ! k) + 1 \<le> unat (first_free_paddr s) \<and>
     span p (length (strs ! k) + 1) \<inter> span argv (8 * length strs) = {})"

definition arg_out :: "'h pk \<Rightarrow> u64 \<Rightarrow> u64 \<Rightarrow> u8 list list \<Rightarrow> nat \<Rightarrow> bool" where
  "arg_out s tos argv strs k \<longleftrightarrow> holds s (argv + 8 * of_nat k) (word_bytes (str_at tos strs k)) \<and>
     holds s (str_at tos strs k) (strs ! k @ [0])"

lemma unat_slot:
  fixes argv :: u64
  assumes "unat argv + 8 * n \<le> unat (lim :: u64)" and "k < n"
  shows "unat (argv + 8 * of_nat k) = unat argv + 8 * k"
proof -
  have "unat lim < 2 ^ 64"
    by (rule unat_lt64)
  then have "unat argv + 8 * k < 2 ^ 64"
    using assms by linarith
  then show ?thesis
    by (simp add: unat_word_ariths unat_of_nat64 mod_add_right_eq)
qed

lemma unat_str_at:
  assumes "used strs (length strs) \<le> unat tos" and "k < length strs"
  shows "unat (str_at tos strs k) = unat tos - used strs (Suc k)" "used strs (Suc k) \<le> used strs (length strs)"
proof -
  show u: "used strs (Suc k) \<le> used strs (length strs)"
    using assms(2) by (intro used_mono) simp
  then have "unat (of_nat (used strs (Suc k)) :: u64) = used strs (Suc k)"
    using assms(1) unat_lt64 [of tos] by (intro unat_of_nat64) linarith
  then show "unat (str_at tos strs k) = unat tos - used strs (Suc k)"
    using u assms(1) by (simp add: str_at_def unat_diff64)
qed

text \<open>Where the arguments lie; \<open>lo\<close> is the bottom of the stack.\<close>

definition room :: "u64 \<Rightarrow> u64 \<Rightarrow> 'h pk \<Rightarrow> u64 \<Rightarrow> u64 \<Rightarrow> u8 list list \<Rightarrow> bool" where
  "room lo hi s tos argv strs \<longleftrightarrow> stack_ok lo hi s \<and> DRAM_BASE \<le> argv \<and>
     unat argv + 8 * length strs \<le> unat (first_free_paddr s) \<and> tos \<le> hi \<and>
     unat lo + used strs (length strs) \<le> unat tos"

definition arg_region :: "u64 \<Rightarrow> u64 \<Rightarrow> u8 list list \<Rightarrow> u64 set" where
  "arg_region tos argv strs =
     {x. unat tos \<le> unat x + used strs (length strs) \<and> x < tos} \<union> span argv (8 * length strs)"

lemma room_within: "within lo hi D s s' \<Longrightarrow> room lo hi s tos argv strs \<Longrightarrow> room lo hi s' tos argv strs"
  by (auto simp: room_def within_def)

lemma room_hi: "room lo hi s tos argv strs \<Longrightarrow> unat hi \<le> 2 ^ 31"
  by (auto simp: room_def stack_ok_def word_le_nat_alt)

text \<open>The spans of one argument.\<close>

lemma arg_spans:
  assumes r: "room lo hi s tos argv strs" and k: "k < length strs"
  shows "span (str_at tos strs k) (length (strs ! k) + 1) =
      {x. unat tos - used strs (Suc k) \<le> unat x \<and> unat x < unat tos - used strs k}"
    "span (argv + 8 * of_nat k) 8 = {x. unat argv + 8 * k \<le> unat x \<and> unat x < unat argv + 8 * k + 8}"
    "used strs (Suc k) = used strs k + (length (strs ! k) + 1)" "used strs (Suc k) \<le> unat tos"
    "used strs (Suc k) \<le> used strs (length strs)" "unat tos \<le> 2 ^ 31" "2 ^ 31 \<le> unat argv"
    "lo \<le> str_at tos strs k" "unat (str_at tos strs k) + (length (strs ! k) + 1) \<le> unat hi"
    "unat argv + 8 * k + 8 \<le> unat (first_free_paddr s)"
proof -
  have u: "used strs (length strs) \<le> unat tos"
    using r by (simp add: room_def)
  note S = unat_str_at [OF u k]
  show n: "used strs (Suc k) = used strs k + (length (strs ! k) + 1)"
    using k by (rule used_Suc)
  show le: "used strs (Suc k) \<le> used strs (length strs)" "used strs (Suc k) \<le> unat tos"
    using S(2) u by linarith+
  show "span (str_at tos strs k) (length (strs ! k) + 1) =
      {x. unat tos - used strs (Suc k) \<le> unat x \<and> unat x < unat tos - used strs k}"
    using S(1) n le by (auto simp: span_def)
  show "span (argv + 8 * of_nat k) 8 = {x. unat argv + 8 * k \<le> unat x \<and> unat x < unat argv + 8 * k + 8}"
    using r k unat_slot [of argv "length strs" "first_free_paddr s" k] by (simp add: span_def room_def)
  show "unat tos \<le> 2 ^ 31" "2 ^ 31 \<le> unat argv"
    using r room_hi [OF r] by (auto simp: room_def word_le_nat_alt)
  show "lo \<le> str_at tos strs k"
    using S r unfolding room_def word_le_nat_alt by linarith
  have "unat tos \<le> unat hi"
    using r by (simp add: room_def word_le_nat_alt)
  then show "unat (str_at tos strs k) + (length (strs ! k) + 1) \<le> unat hi"
    using S n le by simp
  show "unat argv + 8 * k + 8 \<le> unat (first_free_paddr s)"
    using r k unfolding room_def by linarith
qed

definition arg_k :: "u64 \<Rightarrow> u64 \<Rightarrow> u8 list list \<Rightarrow> nat \<Rightarrow> u64 set" where
  "arg_k tos argv strs k = span (str_at tos strs k) (length (strs ! k) + 1) \<union> span (argv + 8 * of_nat k) 8"

lemma arg_k_region:
  "room lo hi s tos argv strs \<Longrightarrow> k < length strs \<Longrightarrow> arg_k tos argv strs k \<subseteq> arg_region tos argv strs"
  using arg_spans(1,2,5) unfolding arg_k_def arg_region_def span_def [of argv]
  by (fastforce simp: word_less_nat_alt)

lemma copy_arg:
  assumes r: "room lo hi s tos argv strs" and k: "k < length strs" and arg: "arg_in s argv strs k"
  shows "\<exists>n t. ustrlen (handle_page_fault H) (kload64 s (argv + 8 * of_nat k)) s = Some (n, s) \<and>
    tos - of_nat (used strs k) - (n + 1) = str_at tos strs k \<and>
    ucopy (handle_page_fault H) (str_at tos strs k) (kload64 s (argv + 8 * of_nat k)) (unat (n + 1)) s = Some t \<and>
    within lo hi (arg_k tos argv strs k) s (kstore64 (argv + 8 * of_nat k) (str_at tos strs k) t) \<and>
    arg_out (kstore64 (argv + 8 * of_nat k) (str_at tos strs k) t) tos argv strs k"
proof -
  let ?a = "argv + 8 * of_nat k" and ?q = "str_at tos strs k" and ?bs = "strs ! k @ [0]"
  note S = arg_spans [OF r k]
  have ok: "stack_ok lo hi s"
    using r by (simp add: room_def)
  have slot: "unat ?a = unat argv + 8 * k"
    using r k by (intro unat_slot) (auto simp: room_def)
  have ffp: "unat (first_free_paddr s) < 2 ^ 64"
    by (rule unat_lt64)
  obtain p where p: "holds s ?a (word_bytes p)" "holds s p ?bs" "0 \<notin> set (strs ! k)" "DRAM_BASE \<le> p"
    "unat p + length (strs ! k) + 1 \<le> unat (first_free_paddr s)"
    using arg by (auto simp: arg_in_def)
  have ptr: "kload64 s ?a = p"
    using S(7,10) slot ffp holds_word [OF p(1)] by (subst kload64_view) (simp_all add: word_le_nat_alt)
  let ?n = "of_nat (length (strs ! k)) :: u64"
  have n1: "unat (?n + 1) = length ?bs"
    using S(3,4,6) unat_of_nat64 [of "length (strs ! k)"] by (simp add: unat_plus_1)
  have dj: "span p (length ?bs) \<inter> span ?q (length ?bs) = {}"
    using p(4) S(1,6) by (auto simp: span_def [of p] word_le_nat_alt)
  have "unat ?q + length ?bs \<le> unat hi" "unat p + length ?bs < 2 ^ 64"
    using S(9) p(5) ffp by simp_all
  then obtain t where t: "ucopy (handle_page_fault H) ?q p (length ?bs) s = Some t"
    "within lo hi (span ?q (length ?bs)) s t" "holds t ?q ?bs"
    using ucopy_stack [OF ok p(2) S(8) _ dj, of H] by blast
  have t_ok: "stack_ok lo hi t" "first_free_paddr t = first_free_paddr s"
    using withinD [OF t(2) ok] by simp_all
  let ?u = "kstore64 ?a ?q t"
  have u: "within lo hi (span ?a 8) t ?u" "holds ?u ?a (word_bytes ?q)"
    using kstore64_stack [OF t_ok(1), of ?a ?q] S(7,10) slot by (simp_all add: t_ok(2) word_le_nat_alt)
  have "holds ?u ?q ?bs"
    using t(3) S(1,2,6,7,9) unat_lt64 [of hi] by (intro within_holds [OF u(1) t_ok(1)]) auto
  then have "arg_out ?u tos argv strs k"
    using u(2) by (simp add: arg_out_def)
  moreover have "within lo hi (arg_k tos argv strs k) s ?u"
    using within_trans [OF within_mono [OF t(2)] within_mono [OF u(1)]] by (auto simp: arg_k_def)
  moreover have "tos - of_nat (used strs k) - (?n + 1) = ?q"
    by (simp add: str_at_def S(3))
  ultimately show ?thesis
    using t(1) ustrlen_reach [OF p(2,3)] ptr n1 by auto
qed

lemma arg_in_kept:
  assumes r: "room lo hi s tos argv strs" and k: "k < length strs" and j: "j < length strs" "j \<noteq> k"
    and w: "within lo hi (arg_k tos argv strs k) s t" and arg: "arg_in s argv strs j"
  shows "arg_in t argv strs j"
proof -
  note S = arg_spans [OF r k] and J = arg_spans [OF r j(1)]
  have ok: "stack_ok lo hi s"
    using r by (simp add: room_def)
  have ffp: "unat (first_free_paddr s) < 2 ^ 64"
    by (rule unat_lt64)
  obtain p where p: "holds s (argv + 8 * of_nat j) (word_bytes p)" "holds s p (strs ! j @ [0])"
    "0 \<notin> set (strs ! j)" "DRAM_BASE \<le> p"
    "unat p + length (strs ! j) + 1 \<le> unat (first_free_paddr s)"
    "span p (length (strs ! j) + 1) \<inter> span argv (8 * length strs) = {}"
    using arg by (auto simp: arg_in_def)
  have slot: "unat (argv + 8 * of_nat j) = unat argv + 8 * j"
    using r j(1) by (intro unat_slot) (auto simp: room_def)
  have sub: "span (argv + 8 * of_nat k) 8 \<subseteq> span argv (8 * length strs)"
    using k by (auto simp: S(2) span_def [of argv])
  have "holds t (argv + 8 * of_nat j) (word_bytes p)"
    using S(1,2,6,7) J(2,10) j(2) slot ffp
    by (intro within_holds [OF w ok p(1)]) (auto simp: arg_k_def)
  moreover have "holds t p (strs ! j @ [0])"
  proof (rule within_holds [OF w ok p(2)])
    show "span p (length (strs ! j @ [0])) \<inter> arg_k tos argv strs k = {}"
      using p(4,6) sub S(1,6) by (auto simp: arg_k_def span_def [of p] word_le_nat_alt)
  qed (use p(5) ffp in simp)
  ultimately show ?thesis
    using p(3-6) withinD(3) [OF w ok] by (auto simp: arg_in_def)
qed

lemma arg_out_kept:
  assumes r: "room lo hi s tos argv strs" and k: "k < length strs" and j: "j < k"
    and w: "within lo hi (arg_k tos argv strs k) s t" and arg: "arg_out s tos argv strs j"
  shows "arg_out t tos argv strs j"
proof -
  have j': "j < length strs"
    using j k by simp
  note S = arg_spans [OF r k] and J = arg_spans [OF r j']
  have ok: "stack_ok lo hi s"
    using r by (simp add: room_def)
  have slot: "unat (argv + 8 * of_nat j) = unat argv + 8 * j"
    using r j' by (intro unat_slot) (auto simp: room_def)
  have "used strs (Suc j) \<le> used strs k"
    using j by (intro used_mono) simp
  then have "span (str_at tos strs j) (length (strs ! j) + 1) \<inter> arg_k tos argv strs k = {}"
    unfolding arg_k_def S(1,2) J(1) using S(4,6,7) by auto
  moreover have "span (argv + 8 * of_nat j) 8 \<inter> arg_k tos argv strs k = {}"
    unfolding arg_k_def S(1,2) J(2) using S(6,7) j by auto
  ultimately show ?thesis
    using arg unat_lt64 [of hi] J(9,10) unat_lt64 [of "first_free_paddr s"] slot
    unfolding arg_out_def by (intro conjI within_holds [OF w ok]) auto
qed

lemma copy_args_stack:
  assumes "room lo hi s tos argv strs" and "i + n = length strs"
    and "\<And>k. i \<le> k \<Longrightarrow> k < length strs \<Longrightarrow> arg_in s argv strs k"
    and "\<And>k. k < i \<Longrightarrow> arg_out s tos argv strs k"
  shows "\<exists>t. copy_args E argv i n (tos - of_nat (used strs i)) s =
      Some (tos - of_nat (used strs (length strs)), t) \<and> within lo hi (arg_region tos argv strs) s t \<and>
    (\<forall>k < length strs. arg_out t tos argv strs k)"
  using assms
proof (induction n arbitrary: i s)
  case 0
  then show ?case
    by simp
next
  case (Suc n)
  then have i: "i < length strs"
    by simp
  obtain m t where t: "ustrlen (pf E) (kload64 s (argv + 8 * of_nat i)) s = Some (m, s)"
    "tos - of_nat (used strs i) - (m + 1) = str_at tos strs i"
    "ucopy (pf E) (str_at tos strs i) (kload64 s (argv + 8 * of_nat i)) (unat (m + 1)) s = Some t"
    and u: "within lo hi (arg_k tos argv strs i) s (kstore64 (argv + 8 * of_nat i) (str_at tos strs i) t)"
    "arg_out (kstore64 (argv + 8 * of_nat i) (str_at tos strs i) t) tos argv strs i"
    using copy_arg [OF Suc.prems(1) i Suc.prems(3) [OF order_refl i], of "e_host E"] by blast
  let ?u = "kstore64 (argv + 8 * of_nat i) (str_at tos strs i) t"
  have 1: "room lo hi ?u tos argv strs"
    by (rule room_within [OF u(1) Suc.prems(1)])
  moreover have 2: "arg_in ?u argv strs k" if "Suc i \<le> k" "k < length strs" for k
    using that by (intro arg_in_kept [OF Suc.prems(1) i _ _ u(1) Suc.prems(3)]) simp_all
  moreover have 3: "arg_out ?u tos argv strs k" if "k < Suc i" for k
    using that u(2) arg_out_kept [OF Suc.prems(1) i _ u(1) Suc.prems(4)] by (auto simp: less_Suc_eq)
  ultimately obtain v where v: "copy_args E argv (Suc i) n (tos - of_nat (used strs (Suc i))) ?u =
      Some (tos - of_nat (used strs (length strs)), v)" "within lo hi (arg_region tos argv strs) ?u v"
    "\<forall>k < length strs. arg_out v tos argv strs k"
    using Suc.IH [of ?u "Suc i"] Suc.prems(2) by auto
  have "copy_args E argv i (Suc n) (tos - of_nat (used strs i)) s =
      Some (tos - of_nat (used strs (length strs)), v)"
    by (simp only: copy_args.simps Let_def t v(1) [folded str_at_def] bind.bind_lunit prod.case)
  moreover have "within lo hi (arg_region tos argv strs) s v"
    using within_trans [OF within_mono [OF u(1) arg_k_region [OF Suc.prems(1) i]] v(2)] .
  ultimately show ?case
    using v(3) by blast
qed

subsection \<open>Words\<close>

lemma push_args_stack:
  assumes "stack_ok lo hi s" and "lo \<le> sp" and "unat sp + 8 * length vs \<le> unat hi"
  shows "\<exists>t. push_args (handle_page_fault H) sp vs s = Some t \<and> within lo hi (span sp (8 * length vs)) s t \<and>
    (\<forall>k < length vs. holds t (sp + 8 * of_nat k) (word_bytes (vs ! k)))"
  using assms
proof (induction vs arbitrary: sp s)
  case Nil
  then show ?case by simp
next
  case (Cons v vs)
  have hi: "unat hi \<le> 2 ^ 31"
    using Cons.prems(1) by (auto simp: stack_ok_def word_le_nat_alt)
  have up: "unat (sp + 8) = unat sp + 8"
    using Cons.prems(3) hi by (simp add: unat_word_ariths)
  obtain t where t: "ustore64 (handle_page_fault H) sp v s = Some t" "within lo hi (span sp 8) s t"
    "holds t sp (word_bytes v)"
    using ustore64_stack [OF Cons.prems(1,2), of H v] Cons.prems(3) by auto
  have t_ok: "stack_ok lo hi t"
    using withinD(1) [OF t(2) Cons.prems(1)] .
  obtain u where u: "push_args (handle_page_fault H) (sp + 8) vs t = Some u"
    "within lo hi (span (sp + 8) (8 * length vs)) t u"
    "\<forall>k < length vs. holds u (sp + 8 + 8 * of_nat k) (word_bytes (vs ! k))"
    using Cons.IH [OF t_ok, of "sp + 8"] Cons.prems(2,3) up by (auto simp: word_le_nat_alt)
  have first: "holds u sp (word_bytes v)"
    using t(3) Cons.prems(3) hi by (intro within_holds [OF u(2) t_ok]) (auto simp: span_def up)
  have "holds u (sp + 8 * of_nat k) (word_bytes ((v # vs) ! k))" if "k < length (v # vs)" for k
    using first u(3) that by (cases k) (auto simp: algebra_simps)
  moreover have "within lo hi (span sp (8 * length (v # vs))) s u"
    by (rule within_trans [OF within_mono [OF t(2)] within_mono [OF u(2)]]) (auto simp: span_def up)
  ultimately show ?case
    using t(1) u(1) by auto
qed

subsection \<open>The whole image\<close>

definition string_in :: "mem \<Rightarrow> u64 \<Rightarrow> u8 list \<Rightarrow> bool" where
  "string_in m p bs \<longleftrightarrow> (\<forall>i < length bs. m (p + of_nat i) = bs ! i) \<and> m (p + of_nat (length bs)) = 0"

lemma holds_string: "holds s p (bs @ [0]) \<Longrightarrow> string_in (vmem s) p bs"
  using holdsD [of s p "bs @ [0]"] by (force simp: string_in_def nth_append)

text \<open>The arguments are in kernel memory; the strings do not overlap the array of pointers.\<close>

definition host_args :: "'h pk \<Rightarrow> u64 \<Rightarrow> u8 list list \<Rightarrow> bool" where
  "host_args s argv strs \<longleftrightarrow> DRAM_BASE \<le> argv \<and>
     unat argv + 8 * length strs \<le> unat (first_free_paddr s) \<and> (\<forall>k < length strs. arg_in s argv strs k)"

lemma arg_in_user:
  assumes w: "within lo hi D s t" and ok: "stack_ok lo hi s" and D: "\<And>x. x \<in> D \<Longrightarrow> x < DRAM_BASE"
    and argv: "DRAM_BASE \<le> argv" "unat argv + 8 * length strs \<le> unat (first_free_paddr s)" "k < length strs"
    and arg: "arg_in s argv strs k"
  shows "arg_in t argv strs k"
proof -
  have ffp: "unat (first_free_paddr s) < 2 ^ 64"
    by (rule unat_lt64)
  have slot: "unat (argv + 8 * of_nat k) = unat argv + 8 * k"
    using argv by (intro unat_slot) auto
  have kernel: "span a n \<inter> D = {}" if "DRAM_BASE \<le> a" for a n
    using that D by (force simp: span_def word_le_nat_alt word_less_nat_alt)
  obtain p where p: "holds s (argv + 8 * of_nat k) (word_bytes p)" "holds s p (strs ! k @ [0])"
    "0 \<notin> set (strs ! k)" "DRAM_BASE \<le> p"
    "unat p + length (strs ! k) + 1 \<le> unat (first_free_paddr s)"
    "span p (length (strs ! k) + 1) \<inter> span argv (8 * length strs) = {}"
    using arg by (auto simp: arg_in_def)
  have "holds t (argv + 8 * of_nat k) (word_bytes p)"
    using argv slot ffp by (intro within_holds [OF w ok p(1)] kernel) (auto simp: word_le_nat_alt)
  moreover have "holds t p (strs ! k @ [0])"
    using p(4,5) ffp by (intro within_holds [OF w ok p(2)] kernel) auto
  ultimately show ?thesis
    using p(3-6) withinD(3) [OF w ok] by (auto simp: arg_in_def)
qed

lemma reach_current [simp]: "reach (s\<lparr>current := c\<rparr>) = reach s"
  by (simp add: reach_def accessible_def pte_at_def walk_def)

lemma vmem_current [simp]: "vmem (s\<lparr>current := c\<rparr>) = vmem s"
  by (simp add: vmem_def va2pa_def fun_eq_iff)

lemma holds_current [simp]: "holds (s\<lparr>current := c\<rparr>) = holds s"
  by (simp add: holds_def view_def fun_eq_iff)

lemma stack_ok_current:
  assumes "mmap_max c = mmap_max (current s)"
  shows "stack_ok lo hi (s\<lparr>current := c\<rparr>) = stack_ok lo hi s"
proof -
  have "anon_at (s\<lparr>current := c\<rparr>) = anon_at s"
    using pmap_cong [of "s\<lparr>current := c\<rparr>" s] vmr_ptr_cong [of "s\<lparr>current := c\<rparr>" s]
    by (simp add: fun_eq_iff anon_at_def)
  then show ?thesis
    using assms by (simp add: stack_ok_def)
qed

lemma align_down:
  fixes w :: u64
  shows "unat (w AND - 8) = unat w - unat w mod 8" "unat (w AND - 16) = unat w - unat w mod 16"
proof -
  have sub: "w AND NOT m = w - (w AND m)" for m
  proof -
    have "w - (w AND m) = w AND NOT (w AND m)"
      by (rule disjunctive_diff_eq_and_not) (auto simp: bit_eq_iff bit_simps)
    also have "\<dots> = w AND NOT m"
      by (auto simp: bit_eq_iff bit_simps)
    finally show ?thesis
      by simp
  qed
  have low: "unat (w AND 7) = unat w mod 8" "unat (w AND 15) = unat w mod 16"
    using unat_and_mask [of w 3] unat_and_mask [of w 4] by (simp_all add: mask_numeral)
  show "unat (w AND - 8) = unat w - unat w mod 8"
    using sub [of 7] by (simp add: low unat_diff64)
  show "unat (w AND - 16) = unat w - unat w mod 16"
    using sub [of 15] by (simp add: low unat_diff64)
qed

text \<open>
  The program headers are in kernel memory too, and the stack has room for the copies and for
  \<^verbatim>\<open>argc + 19\<close> words, with the padding of two alignments.
\<close>

definition image_fits :: "u64 \<Rightarrow> 'h pk \<Rightarrow> u8 list list \<Rightarrow> bool" where
  "image_fits lo s strs \<longleftrightarrow> DRAM_BASE \<le> phdr (current s) \<and>
     unat (phdr (current s)) + unat (phdr_size (current s)) \<le> unat (first_free_paddr s) \<and>
     unat lo + unat (phdr_size (current s)) + used strs (length strs) + 8 * (length strs + 19) + 22
       \<le> unat (stack_top (current s))"

lemma copy_headers:
  assumes ok: "stack_ok lo (stack_top (current s)) s" and fit: "image_fits lo s strs"
  defines "c \<equiv> current s"
  shows "\<exists>t. ucopy (handle_page_fault H) (stack_top c - phdr_size c) (phdr c) (unat (phdr_size c)) s = Some t \<and>
    within lo (stack_top c) {x. stack_top c - phdr_size c \<le> x \<and> x < stack_top c} s t \<and>
    holds t (stack_top c - phdr_size c) (map (\<lambda>i. vmem s (phdr c + of_nat i)) [0..<unat (phdr_size c)])"
proof -
  let ?n = "unat (phdr_size c)" and ?d = "stack_top c - phdr_size c"
  let ?bs = "map (\<lambda>i. vmem s (phdr c + of_nat i)) [0..<?n]"
  have f: "DRAM_BASE \<le> phdr c" "unat (phdr c) + ?n \<le> unat (first_free_paddr s)" "unat lo + ?n \<le> unat (stack_top c)"
    using fit by (simp_all add: image_fits_def c_def)
  have ffp: "unat (first_free_paddr s) < 2 ^ 64"
    by (rule unat_lt64)
  have d: "unat ?d = unat (stack_top c) - ?n"
    using f(3) by (simp add: unat_diff64)
  have hi: "unat (stack_top c) \<le> 2 ^ 31"
    using ok by (auto simp: stack_ok_def c_def word_le_nat_alt)
  have "phdr c + of_nat i \<in> reach s" if "i < ?n" for i
  proof -
    have "unat (phdr c + of_nat i) = unat (phdr c) + i"
      using that f(2) ffp by (simp add: unat_word_ariths unat_of_nat64)
    then show ?thesis
      using that f(1,2) by (simp add: reach_def word_le_nat_alt word_less_nat_alt)
  qed
  then have "holds s (phdr c) ?bs"
    by (simp add: holds_def view_def)
  moreover have "span (phdr c) (length ?bs) \<inter> span ?d (length ?bs) = {}"
    using f(1,3) d hi by (auto simp: span_def word_le_nat_alt)
  moreover have "lo \<le> ?d" "unat ?d + length ?bs \<le> unat (stack_top c)"
    using f(3) d by (simp_all add: word_le_nat_alt)
  ultimately obtain t where t: "ucopy (handle_page_fault H) ?d (phdr c) (length ?bs) s = Some t"
    "within lo (stack_top c) (span ?d (length ?bs)) s t" "holds t ?d ?bs"
    using ucopy_stack [OF ok [folded c_def], of "phdr c" ?bs ?d H] f(2) ffp by auto
  have sub: "span ?d (length ?bs) \<subseteq> {x. ?d \<le> x \<and> x < stack_top c}"
    using d f(3) by (auto simp: span_def word_le_nat_alt word_less_nat_alt)
  have len: "length ?bs = ?n"
    by simp
  show ?thesis
    using t(1) [unfolded len] within_mono [OF t(2) sub] t(3) by (intro exI [of _ t]) simp
qed

lemma arg_words_out:
  assumes r: "room lo hi s tos argv strs" and out: "\<forall>k < length strs. arg_out s tos argv strs k"
  shows "arg_words s argv (length strs) = map (str_at tos strs) [0..<length strs]"
  unfolding arg_words_def
proof (rule map_cong)
  fix k
  assume "k \<in> set [0..<length strs]"
  then have k: "k < length strs"
    by simp
  note S = arg_spans [OF r k]
  have slot: "unat (argv + 8 * of_nat k) = unat argv + 8 * k"
    using r k by (intro unat_slot) (auto simp: room_def)
  have "holds s (argv + 8 * of_nat k) (word_bytes (str_at tos strs k))"
    using out k by (simp add: arg_out_def)
  then show "kload64 s (argv + 8 * of_nat k) = str_at tos strs k"
    using S(7,10) slot unat_lt64 [of "first_free_paddr s"] holds_word
    by (subst kload64_view) (auto simp: word_le_nat_alt)
qed simp

text \<open>The words that the kernel pushes.\<close>

definition image_words :: "elf_info \<Rightarrow> u64 \<Rightarrow> u64 \<Rightarrow> u8 list list \<Rightarrow> u64 list" where
  "image_words c rnd tos strs =
     [of_nat (length strs)] @ map (str_at tos strs) [0..<length strs] @ [0] @ [0] @ auxv c rnd"

lemma length_image_words [simp]: "length (image_words c rnd tos strs) = length strs + 19"
  by (simp add: image_words_def auxv_def)

lemma image_words_nth:
  "image_words c rnd tos strs ! 0 = of_nat (length strs)"
  "k < length strs \<Longrightarrow> image_words c rnd tos strs ! (k + 1) = str_at tos strs k"
  "image_words c rnd tos strs ! (length strs + 1) = 0"
  "image_words c rnd tos strs ! (length strs + 2) = 0"
  "image_words c rnd tos strs ! (length strs + 3 + i) = auxv c rnd ! i"
proof -
  let ?ps = "map (str_at tos strs) [0..<length strs]"
  show "image_words c rnd tos strs ! 0 = of_nat (length strs)"
    by (simp add: image_words_def)
  show "k < length strs \<Longrightarrow> image_words c rnd tos strs ! (k + 1) = str_at tos strs k"
    by (simp add: image_words_def nth_append)
  have "image_words c rnd tos strs ! (length strs + 1 + j) = ([0, 0] @ auxv c rnd) ! j" for j
    using nth_append_length_plus [of "of_nat (length strs) # ?ps" "[0, 0] @ auxv c rnd" j]
    by (simp add: image_words_def)
  from this [of 0] this [of 1] this [of "2 + i"]
  show "image_words c rnd tos strs ! (length strs + 1) = 0"
    "image_words c rnd tos strs ! (length strs + 2) = 0"
    "image_words c rnd tos strs ! (length strs + 3 + i) = auxv c rnd ! i"
    by (simp_all add: numeral_2_eq_2 numeral_3_eq_3)
qed

text \<open>The stack pointer: below the strings, with room for the words, on 16 bytes.\<close>

lemma image_sp:
  fixes lo tp :: u64
  assumes lo: "unat lo + 8 * (argc + 19) + 22 \<le> unat tp" and "unat tp \<le> 2 ^ 31"
  defines "sp \<equiv> ((tp AND - 8) - (1 + of_nat argc + 1 + 0 + 1 + 2 * 8) * 8) AND - 16"
  shows "unat sp mod 16 = 0" "lo \<le> sp" "unat sp + 8 * (argc + 19) \<le> unat tp"
proof -
  let ?r = "(1 + of_nat argc + 1 + 0 + 1 + 2 * 8) * 8 :: u64"
  have r: "?r = of_nat (8 * (argc + 19))"
    by simp
  have ur: "unat ?r = 8 * (argc + 19)"
    unfolding r using assms(1,2) by (intro unat_of_nat64) simp
  have a: "unat (tp AND - 8) = unat tp - unat tp mod 8"
    by (rule align_down(1))
  have "unat tp mod 8 < 8"
    by simp
  then have d: "unat ((tp AND - 8) - ?r) = unat tp - unat tp mod 8 - 8 * (argc + 19)"
    using lo a ur by (subst unat_diff64) linarith+
  let ?d = "unat ((tp AND - 8) - ?r)"
  have sp: "unat sp = ?d - ?d mod 16"
    unfolding sp_def by (rule align_down(2))
  have "?d mod 16 < 16"
    by simp
  then show "lo \<le> sp" "unat sp + 8 * (argc + 19) \<le> unat tp"
    using sp d lo \<open>unat tp mod 8 < 8\<close> unfolding word_le_nat_alt by linarith+
  show "unat sp mod 16 = 0"
    unfolding sp by (simp add: minus_mod_eq_mult_div)
qed

lemma auxv_current:
  "auxv (c\<lparr>time0 := x, cycle0 := y, instret0 := z\<rparr>) rnd = auxv c rnd"
  by (simp add: auxv_def)

lemma build_image:
  fixes s :: "'h pk"
  assumes ok: "stack_ok lo (stack_top (current s)) s" and fit: "image_fits lo s strs" and args: "host_args s argv strs"
  defines "c \<equiv> current s" and "tos \<equiv> stack_top (current s) - phdr_size (current s)"
  shows "\<exists>(t :: 'h pk) u rnd sp. run_loaded_program E sstatus (length strs) argv s = Some (init_tf sstatus (entry c) sp, u) \<and>
    vmem u = vmem t \<and> current t = c\<lparr>phdr := tos\<rparr> \<and> phdr (current u) = tos \<and>
    auxv (current u) = auxv (current t) \<and>
    unat sp mod 16 = 0 \<and> lo \<le> sp \<and>
    (\<forall>k < length strs + 19. holds t (sp + 8 * of_nat k) (word_bytes (image_words (current t) rnd tos strs ! k))) \<and>
    (\<forall>k < length strs. holds t (str_at tos strs k) (strs ! k @ [0])) \<and>
    holds t tos (map (\<lambda>i. vmem s (phdr c + of_nat i)) [0..<unat (phdr_size c)])"
proof -
  define hi where "hi = stack_top c"
  let ?hs = "map (\<lambda>i. vmem s (phdr c + of_nat i)) [0..<unat (phdr_size c)]"
  note ok' = ok [folded c_def, folded hi_def]
  have hi31: "unat hi \<le> 2 ^ 31"
    using ok' by (auto simp: stack_ok_def word_le_nat_alt)
  have f: "unat lo + unat (phdr_size c) + used strs (length strs) + 8 * (length strs + 19) + 22 \<le> unat hi"
    using fit by (simp add: image_fits_def c_def hi_def)
  have tos: "tos = hi - phdr_size c" "unat tos = unat hi - unat (phdr_size c)"
    using f by (simp_all add: tos_def c_def hi_def unat_diff64)
  obtain s1 where s1: "ucopy (pf E) tos (phdr c) (unat (phdr_size c)) s = Some s1"
    "within lo hi {x. tos \<le> x \<and> x < hi} s s1" "holds s1 tos ?hs"
    using copy_headers [OF ok fit, of "e_host E", folded c_def] tos(1) hi_def by auto
  note W1 = withinD [OF s1(2) ok']
  define s2 where "s2 = s1\<lparr>current := (current s1)\<lparr>phdr := tos\<rparr>\<rparr>"
  have ok2: "stack_ok lo hi s2"
    unfolding s2_def by (subst stack_ok_current) (simp_all add: W1(1))
  have cur2: "current s2 = c\<lparr>phdr := tos\<rparr>"
    by (simp add: s2_def W1(2) c_def)
  have a: "DRAM_BASE \<le> argv" "unat argv + 8 * length strs \<le> unat (first_free_paddr s)"
    using args by (simp_all add: host_args_def)
  have r: "room lo hi s2 tos argv strs"
    using ok2 a f tos(2) W1(3) by (simp add: room_def s2_def word_le_nat_alt)
  have in2: "arg_in s2 argv strs k" if "k < length strs" for k
  proof -
    have "arg_in s1 argv strs k"
      using args that hi31 by (intro arg_in_user [OF s1(2) ok' _ a]) (auto simp: host_args_def word_less_nat_alt)
    then show ?thesis
      by (simp add: arg_in_def s2_def)
  qed
  obtain s3 where s3: "copy_args E argv 0 (length strs) tos s2 = Some (tos - of_nat (used strs (length strs)), s3)"
    "within lo hi (arg_region tos argv strs) s2 s3" "\<forall>k < length strs. arg_out s3 tos argv strs k"
    using copy_args_stack [OF r, of 0 "length strs" E] in2 by auto
  note W3 = withinD [OF s3(2) ok2]
  have r3: "room lo hi s3 tos argv strs"
    by (rule room_within [OF s3(2) r])
  define tp where "tp = tos - of_nat (used strs (length strs))"
  have tp: "unat tp = unat tos - used strs (length strs)"
    using unat_of_nat64 [of "used strs (length strs)"] f tos(2) hi31 by (simp add: tp_def unat_diff64)
  define sp where "sp = ((tp AND - 8) - (1 + of_nat (length strs) + 1 + 0 + 1 + 2 * 8) * 8) AND - 16"
  have SP: "unat sp mod 16 = 0" "lo \<le> sp" "unat sp + 8 * (length strs + 19) \<le> unat tp"
    using image_sp [of lo "length strs" tp] f tos(2) tp hi31 unfolding sp_def by simp_all
  define vs where "vs = image_words (current s3) (tp AND - 8) tos strs"
  have len: "length vs = length strs + 19"
    by (simp add: vs_def)
  obtain s4 where s4: "push_args (pf E) sp vs s3 = Some s4" "within lo hi (span sp (8 * length vs)) s3 s4"
    "\<forall>k < length vs. holds s4 (sp + 8 * of_nat k) (word_bytes (vs ! k))"
  proof -
    have "unat sp + 8 * length vs \<le> unat hi"
      using SP(3) tp tos(2) unfolding len by linarith
    from push_args_stack [OF W3(1) SP(2) this, of "e_host E"] show ?thesis
      using that by blast
  qed
  have words: "holds s4 (sp + 8 * of_nat k) (word_bytes (vs ! k))" if "k < length strs + 19" for k
    using s4(3) that by (simp only: len)
  have str: "holds s4 (str_at tos strs k) (strs ! k @ [0])" if k: "k < length strs" for k
  proof -
    note A = arg_spans [OF r3 k]
    have "holds s3 (str_at tos strs k) (strs ! k @ [0])"
      using s3(3) k by (simp add: arg_out_def)
    then show ?thesis
      using A(1,4,5,9) SP(3) tp unat_lt64 [of hi] len
      by (intro within_holds [OF s4(2) W3(1)]) (auto simp: span_def [of sp])
  qed
  have hdr: "holds s4 tos ?hs"
  proof -
    have sp': "span tos (length ?hs) \<subseteq> {x. tos \<le> x \<and> x < hi}"
      using tos f by (auto simp: span_def word_le_nat_alt word_less_nat_alt)
    have lim: "unat tos + length ?hs \<le> 2 ^ 64"
      using tos f hi31 by simp
    have "holds s2 tos ?hs"
      using s1(3) by (simp add: s2_def)
    then have "holds s3 tos ?hs"
    proof (rule within_holds [OF s3(2) ok2 _ _ lim])
      show "span tos (length ?hs) \<inter> arg_region tos argv strs = {}"
        using sp' a(1) hi31 by (auto simp: arg_region_def span_def [of argv] word_le_nat_alt word_less_nat_alt)
    qed
    then show ?thesis
    proof (rule within_holds [OF s4(2) W3(1) _ _ lim])
      show "span tos (length ?hs) \<inter> span sp (8 * length vs) = {}"
        using sp' SP(3) tp len by (auto simp: span_def [of sp] word_le_nat_alt)
    qed
  qed
  have cur3: "current s3 = c\<lparr>phdr := tos\<rparr>"
    using W3(2) cur2 by simp
  have cur4: "current s4 = c\<lparr>phdr := tos\<rparr>"
    using withinD(2) [OF s4(2) W3(1)] cur3 by simp
  have vs: "vs = [of_nat (length strs)] @ arg_words s3 argv (length strs) @ [0] @ [0] @
      auxv (current s3) (tp AND - 8)"
    by (simp only: vs_def image_words_def arg_words_out [OF r3 s3(3)])
  define s5 where "s5 = (if cycle0 (current s4) \<noteq> 0
    then s4\<lparr>current := (current s4)\<lparr>time0 := e_time E, cycle0 := e_cycle E, instret0 := e_instret E\<rparr>\<rparr>
    else s4)"
  have "run_loaded_program E sstatus (length strs) argv s = Some (init_tf sstatus (entry c) sp, s5)"
  proof -
    have "entry (current s5) = entry c"
      by (simp add: s5_def cur4)
    then show ?thesis
      by (simp only: run_loaded_program_def Let_def c_def [symmetric] hi_def [symmetric] tos(1) [symmetric]
          s1(1) s2_def [symmetric] s3(1) tp_def [symmetric] sp_def [symmetric] vs [symmetric] s4(1)
          s5_def [symmetric] bind.bind_lunit prod.case)
  qed
  moreover have "vmem s5 = vmem s4" "phdr (current s5) = tos" "auxv (current s5) = auxv (current s4)"
    by (simp_all add: s5_def cur4 auxv_current fun_eq_iff auxv_def)
  ultimately show ?thesis
    using cur4 cur3 SP(1,2) words [unfolded vs_def] str hdr
    by - (rule exI [of _ s4], rule exI [of _ s5], rule exI [of _ "tp AND - 8"], rule exI [of _ sp], simp)
qed

text \<open>What a program finds at its stack pointer \<open>sp\<close>: the contract of the process entry.\<close>

definition entry_stack :: "mem \<Rightarrow> u64 \<Rightarrow> u8 list list \<Rightarrow> u64 list \<Rightarrow> bool" where
  "entry_stack m sp strs aux \<longleftrightarrow> unat sp mod 16 = 0 \<and> load64 m sp = of_nat (length strs) \<and>
     (\<forall>k < length strs. string_in m (load64 m (sp + 8 * of_nat (k + 1))) (strs ! k)) \<and>
     load64 m (sp + 8 * of_nat (length strs + 1)) = 0 \<and>
     load64 m (sp + 8 * of_nat (length strs + 2)) = 0 \<and>
     (\<forall>i < length aux. load64 m (sp + 8 * of_nat (length strs + 3 + i)) = aux ! i)"

text \<open>
  C27. \<^verbatim>\<open>run_loaded_program\<close> on a stack whose pages are mapped or still anonymous and large enough
  always returns, and enters the program with the stack it expects: at a stack pointer on 16
  bytes stand \<^verbatim>\<open>argc\<close>, a pointer to a copy of each argument string, a null, an empty environment
  and the auxiliary vector, whose \<^verbatim>\<open>AT_PHDR\<close> points to a copy of the program headers.
\<close>

theorem program_stack_layout:
  fixes s :: "'h pk"
  assumes "stack_ok lo (stack_top (current s)) s" and "image_fits lo s strs" and "host_args s argv strs"
  shows "\<exists>tf t rnd. run_loaded_program E sstatus (length strs) argv s = Some (tf, t) \<and>
    tf_epc tf = entry (current s) \<and> lo \<le> gpr tf 2 \<and>
    entry_stack (vmem t) (gpr tf 2) strs (auxv (current t) rnd) \<and>
    (\<forall>i < unat (phdr_size (current s)).
       vmem t (phdr (current t) + of_nat i) = vmem s (phdr (current s) + of_nat i))"
proof -
  let ?tos = "stack_top (current s) - phdr_size (current s)"
  obtain t u rnd sp where ret: "run_loaded_program E sstatus (length strs) argv s =
      Some (init_tf sstatus (entry (current s)) sp, u)"
    and u: "vmem u = vmem (t :: 'h pk)" "phdr (current u) = ?tos" "auxv (current u) = auxv (current t)"
    and sp: "unat sp mod 16 = 0" "lo \<le> sp"
    and words: "\<forall>k < length strs + 19.
      holds t (sp + 8 * of_nat k) (word_bytes (image_words (current t) rnd ?tos strs ! k))"
    and str: "\<forall>k < length strs. holds t (str_at ?tos strs k) (strs ! k @ [0])"
    and hdr: "holds t ?tos (map (\<lambda>i. vmem s (phdr (current s) + of_nat i)) [0..<unat (phdr_size (current s))])"
    using build_image [OF assms, of E sstatus] by (elim exE conjE) (rule that, assumption+)
  let ?ws = "image_words (current t) rnd ?tos strs"
  have w: "load64 (vmem t) (sp + 8 * of_nat k) = ?ws ! k" if "k < length strs + 19" for k
    using holds_word words that by blast
  have "entry_stack (vmem t) sp strs (auxv (current t) rnd)"
    unfolding entry_stack_def
  proof (intro conjI allI impI)
    show "unat sp mod 16 = 0"
      by (rule sp)
    show "load64 (vmem t) sp = of_nat (length strs)"
      using w [of 0] by (simp add: image_words_nth)
    show "load64 (vmem t) (sp + 8 * of_nat (length strs + 1)) = 0"
      "load64 (vmem t) (sp + 8 * of_nat (length strs + 2)) = 0"
      using w [of "length strs + 1"] w [of "length strs + 2"] by (simp_all only: image_words_nth)
    show "string_in (vmem t) (load64 (vmem t) (sp + 8 * of_nat (k + 1))) (strs ! k)" if "k < length strs" for k
      using w [of "k + 1"] that str by (simp only: image_words_nth) (simp add: holds_string)
    show "load64 (vmem t) (sp + 8 * of_nat (length strs + 3 + i)) = auxv (current t) rnd ! i"
      if "i < length (auxv (current t) rnd)" for i
      using w [of "length strs + 3 + i"] that by (simp only: image_words_nth) (simp add: auxv_def)
  qed
  moreover have "vmem t (?tos + of_nat i) = vmem s (phdr (current s) + of_nat i)"
    if "i < unat (phdr_size (current s))" for i
    using holdsD [OF hdr, of i] that by simp
  ultimately show ?thesis
    using ret sp(2) by (intro exI [of _ "init_tf sstatus (entry (current s)) sp"] exI [of _ u] exI [of _ rnd])
      (simp add: u init_tf_def)
qed

subsection \<open>The stack after boot\<close>

lemma initial_stack:
  assumes space: "initial_space kend s j t" and img: "kernel_image kend s" and j: "j < MAX_VMR"
    and inv: "vm_inv no_refs no_refs t" "\<not> vm_lock t"
  shows "stack_ok (user_top kend - STACK_SIZE) (user_top kend) t" "2 ^ 23 \<le> unat (user_top kend)"
    "unat (user_top kend - STACK_SIZE) = unat (user_top kend) - 2 ^ 23"
proof -
  note L = kernel_layout [OF img] and U = unat_user_top(1) [OF img]
  have ffp: "first_free_paddr t = ROUNDUP kend RISCV_PGSIZE + 1024 * RISCV_PGSIZE"
    using space by (simp add: initial_space_def)
  have top: "unat (user_top kend) \<le> 2 ^ 30"
    using U by simp
  show big: "2 ^ 23 \<le> unat (user_top kend)"
    using L(3) by (simp add: U)
  show bot: "unat (user_top kend - STACK_SIZE) = unat (user_top kend) - 2 ^ 23"
    using big by (subst unat_diff64) simp_all
  have anon: "anon_at t a" if a: "user_top kend - STACK_SIZE \<le> a" "a < user_top kend" for a
  proof -
    have a': "unat (user_top kend) - 2 ^ 23 \<le> unat a" "unat a < unat (user_top kend)"
      using a bot by (simp_all add: word_le_nat_alt word_less_nat_alt)
    then have v: "vp a = unat a div 4096"
      using top by (intro vp_small) simp
    have "vp a < 2 ^ 19"
      using v a' top by simp
    moreover have "vp a \<in> range_pages (user_top kend - STACK_SIZE) STACK_SIZE"
    proof -
      define q where "q = 2 ^ 18 - kernel_pages kend"
      have q: "unat (user_top kend) = q * 4096" "unat (user_top kend - STACK_SIZE) = (q - 2048) * 4096"
        using U bot by (simp_all add: q_def diff_mult_distrib)
      have "unat a div 4096 < q"
        using a'(2) q(1) by (intro less_mult_imp_div_less) simp
      moreover have "(q - 2048) * 4096 div 4096 \<le> unat a div 4096"
        using a'(1) q by (intro div_le_mono) (simp add: diff_mult_distrib)
      ultimately show ?thesis
        unfolding range_pages_def mem_Collect_eq v q(2) by simp
    qed
    ultimately have "pmap t (vp a) = vmr_ptr t j"
      using space vp_less [of a] by (simp add: initial_space_def)
    then show ?thesis
      using space j by (auto simp: anon_at_def initial_space_def)
  qed
  show "stack_ok (user_top kend - STACK_SIZE) (user_top kend) t"
    using inv top space L(3,4) anon unfolding stack_ok_def ffp
    by (auto simp: initial_space_def word_le_nat_alt)
qed

lemma sample_space:
  "\<exists>(s :: unit pk) j. vm_inv no_refs no_refs s \<and> \<not> vm_lock s \<and> j < MAX_VMR \<and>
     initial_space 0x80200000 sample_boot j s"
proof -
  have "powered_on sample_boot" "kernel_image 0x80200000 sample_boot"
    by (simp_all add: powered_on_def std_files_def kernel_image_def sample_boot_def sample_pk_def sample_elf_def)
  from boot_init_spec [OF this, of sample_host] show ?thesis
    by (auto simp: sys_inv_def)
qed

text \<open>One argument, \<^verbatim>\<open>hi\<close>, in the kernel's memory.\<close>

definition sample_args :: mem where
  "sample_args = (\<lambda>_. 0)(0x80101001 := 0x20, 0x80101002 := 0x10, 0x80101003 := 0x80,
     0x80102000 := 104, 0x80102001 := 105)"

theorem program_stack_layout_witness:
  "\<exists>(s :: unit pk) tf t. run_loaded_program sample_env 0 1 0x80101000 s = Some (tf, t) \<and>
     load64 (vmem t) (gpr tf 2) = 1 \<and>
     string_in (vmem t) (load64 (vmem t) (gpr tf 2 + 8)) [104, 105] \<and> 0x3F200000 \<le> gpr tf 2"
proof -
  obtain s0 :: "unit pk" and j where s0: "vm_inv no_refs no_refs s0" "\<not> vm_lock s0" "j < MAX_VMR"
    and space: "initial_space 0x80200000 sample_boot j s0"
    using sample_space by blast
  have img: "kernel_image 0x80200000 sample_boot"
    by (simp add: kernel_image_def sample_boot_def sample_pk_def)
  have k: "kernel_pages 0x80200000 = 1536"
    by (simp add: kernel_pages_def)
  have top: "user_top 0x80200000 = 0x3FA00000"
    by (simp add: user_top_def k)
  define c where "c = (current s0)\<lparr>phdr := 0x80100000, phdr_size := 64\<rparr>"
  define s where "s = s0\<lparr>mem := sample_args, current := c\<rparr>"
  have c: "stack_top c = 0x3FA00000" "mmap_max c = mmap_max (current s0)"
    using space by (simp_all add: c_def initial_space_def top)
  have ffp0: "first_free_paddr s0 = 0x80600000"
    using space by (simp add: initial_space_def ROUNDUP_def)
  then have ffp: "first_free_paddr s = 0x80600000"
    by (simp add: s_def)
  have "stack_ok 0x3F200000 (stack_top (current s)) s"
    using initial_stack(1) [OF space img s0(3,1,2)] c by (simp add: s_def stack_ok_current top)
  moreover have "image_fits 0x3F200000 s [[104, 105]]"
    by (simp add: image_fits_def s_def c(1) used_def) (simp add: c_def ffp0)
  moreover have "host_args s 0x80101000 [[104, 105]]"
  proof -
    have view: "view s x = Some (sample_args x)" if "0x80000000 \<le> x" "x < 0x80600000" for x
      using that ffp by (simp add: view_def reach_def vmem_def va2pa_def) (simp add: s_def)
    have "word_bytes 0x80102000 = [0, 0x20, 0x10, 0x80, 0, 0, 0, 0]"
      by (simp add: word_bytes_def upt_rec)
    then have "holds s 0x80101000 (word_bytes 0x80102000)" "holds s 0x80102000 [104, 105, 0]"
      by (simp_all add: view sample_args_def)
    then have "arg_in s 0x80101000 [[104, 105]] 0"
      unfolding arg_in_def by (intro exI [of _ "0x80102000"]) (auto simp: ffp span_def)
    then show ?thesis
      by (simp add: host_args_def ffp)
  qed
  ultimately obtain tf t rnd where "run_loaded_program sample_env 0 (length [[104, 105 :: u8]]) 0x80101000 s = Some (tf, t)"
    "0x3F200000 \<le> gpr tf 2" "entry_stack (vmem t) (gpr tf 2) [[104, 105]] (auxv (current t) rnd)"
    using program_stack_layout [of "0x3F200000" s "[[104, 105]]" "0x80101000" sample_env 0] by blast
  then show ?thesis
    by (intro exI [of _ s] exI [of _ tf] exI [of _ t]) (auto simp: entry_stack_def)
qed

end
