(* ===== verification/BootRun.thy ===== *)
theory BootRun
  imports BootInv StackImage
begin

text \<open>
  From power-on through every trap of the program: what boots keeps the kernel's invariant for
  as long as it runs.  The concrete boot at the end loads a file without segments.
\<close>


subsection \<open>A boot\<close>

definition demo_args :: mem where
  "demo_args = (\<lambda>_. 0)(0x80101000 := 2, 0x80101008 := 0x10, 0x80101009 := 0x20, 0x8010100A := 0x10,
     0x8010100B := 0x80, 0x80101011 := 0x20, 0x80101012 := 0x10, 0x80101013 := 0x80,
     0x80102000 := 104, 0x80102001 := 105, 0x80102010 := 112, 0x80102011 := 107)"

text \<open>The header of a 64-bit file without segments, with entry 0x10000, read to \<open>a\<close>.\<close>

definition demo_header :: "mem \<Rightarrow> u64 \<Rightarrow> mem" where
  "demo_header m a = (\<lambda>x. if x \<in> span a 64 then
     (if x = a then 0x7F else if x = a + 1 then 0x45 else if x = a + 2 then 0x4C else if x = a + 3 then 0x46
      else if x = a + 4 then 2 else if x = a + 26 then 1 else 0) else m x)"

definition demo_host :: "unit host" where
  "demo_host h m ws =
     (if hd ws = SYS_getmainvars then (h, demo_args, 0)
      else if hd ws = SYS_openat then (h, m, 3)
      else if hd ws = SYS_pread \<and> ws ! 3 = 64 then (h, demo_header m (ws ! 2), 64)
      else (h, m, 0))"

definition demo_env :: "unit env" where
  "demo_env = sample_env\<lparr>e_host := demo_host\<rparr>"

lemma demo_put: "put_ok demo_env"
  by (simp add: put_ok_def demo_env_def sample_env_def)

lemma demo_env_sel [simp]: "e_host demo_env = demo_host"
  by (simp add: demo_env_def)

text \<open>Every address of the demonstration is in the kernel's memory.\<close>

definition kernel_mem :: "unit pk \<Rightarrow> bool" where
  "kernel_mem s \<longleftrightarrow> first_free_paddr s = 0x80600000 \<and> kbuf s = 0x80010000"

lemma kernel_pa: "0x80000000 \<le> a \<Longrightarrow> va2pa s a = a"
  by (simp add: va2pa_def)

lemma demo_words:
  "load64 demo_args 0x80101000 = 2" "load64 demo_args 0x80101008 = 0x80102010"
  "load64 demo_args 0x80101010 = 0x80102000"
  by (rule load64_list, simp add: word_bytes_def upt_rec demo_args_def)+

definition demo_mem :: mem where
  "demo_mem = store64 demo_args 0x80101000 0x80102000"

lemma demo_parse_args:
  "parse_args demo_env 0x80101000 s =
     Some (Inr (1, s\<lparr>mem := demo_mem\<rparr>))"
proof -
  have host: "frontend_syscall demo_host SYS_getmainvars ws s = (0, s\<lparr>mem := demo_args\<rparr>)" for ws
    by (simp add: frontend_syscall_def demo_host_def)
  have opt: "parse_options demo_env 0x80101008 2 1 (s\<lparr>mem := demo_args\<rparr>) = Some (Inr (1, s\<lparr>mem := demo_args\<rparr>))"
    by (simp add: parse_options.simps kload64_def kernel_pa demo_words) (simp add: demo_args_def)
  have shift: "shift_args 0x80101000 0x80101008 2 1 0 (s\<lparr>mem := demo_args\<rparr>) =
      s\<lparr>mem := store64 demo_args 0x80101000 0x80102000\<rparr>"
    by (simp add: shift_args.simps kload64_def kstore64_def kernel_pa demo_words)
  show ?thesis
    by (simp add: parse_args_def host kload64_def kernel_pa demo_words opt shift demo_mem_def)
qed

lemma demo_mem_other: "0x80101008 \<le> x \<Longrightarrow> demo_mem x = demo_args x"
  unfolding demo_mem_def
proof (rule store_le_other)
  fix i :: nat
  assume "0x80101008 \<le> x" "i < 8"
  then show "x \<noteq> 0x80101000 + of_nat i"
    by (auto simp: word_le_nat_alt unat_word_ariths unat_of_nat64)
qed

lemma demo_mem_pointer: "i < 8 \<Longrightarrow> demo_mem (0x80101000 + of_nat i) = word_bytes 0x80102000 ! i"
  unfolding demo_mem_def by (simp only: store_le_same [OF _ order_refl]) (simp add: word_bytes_def)

lemma demo_header_other: "a + 64 \<le> x \<Longrightarrow> a < - 64 \<Longrightarrow> demo_header m a x = m x"
  by (auto simp: demo_header_def span_def word_le_nat_alt word_less_nat_alt unat_word_ariths)

lemma ehdr_fields:
  "e_ident (load_ehdr m a) = map (\<lambda>i. m (a + of_nat i)) [0..<16]"
  "e_phnum (load_ehdr m a) = load_le 2 m (a + 56)"
  by (simp_all add: load_ehdr_def)

lemma load_two: "load_le 2 m a = ucast (m a) OR push_bit 8 (ucast (m (a + 1)))"
  by (simp add: numeral_2_eq_2)

lemma ident_bytes: "take 4 (map f [0..<16]) = [f 0, f 1, f 2, f 3]" "map f [0..<16] ! 4 = f 4"
  by (simp_all add: take_map upt_rec numeral_eq_Suc)

lemma demo_ehdr:
  "IS_ELF64 (load_ehdr (demo_header m 0x80010000) 0x80010000)"
  "e_phnum (load_ehdr (demo_header m 0x80010000) 0x80010000) = 0"
  unfolding IS_ELF64_def IS_ELF_def ehdr_fields ident_bytes load_two
  by (simp_all add: demo_header_def span_def)

lemma demo_load_elf:
  assumes k: "kernel_mem s" and m: "mem s = demo_mem" and ph: "phdr (current s) = 0x80100000"
    and f: "f < MAX_FILES" "f_refcnt s f = 0" "\<And>g. g < f \<Longrightarrow> f_refcnt s g \<noteq> 0"
  shows "\<exists>kfd e. load_elf demo_env 0x80102000 name s = Some (Inr (s\<lparr>f_kfd := kfd,
    mem := demo_header demo_mem 0x80010000,
    current := (current s)\<lparr>phnum := 0, phent := 56, entry := e\<rparr>\<rparr>))"
proof -
  have reach: "x \<in> reach t" if "first_free_paddr t = 0x80600000" "0x80000000 \<le> x" "x < 0x80600000"
    for x and t :: "unit pk"
    using that by (simp add: reach_def)
  have "scan_from (\<lambda>f. f_refcnt s f = 0) 0 MAX_FILES = Some f"
    using f by (intro scan_from_first) auto
  then have free: "file_get_free s = (Some f, s\<lparr>f_refcnt := (f_refcnt s)(f := 2)\<rparr>)"
    by (simp add: file_get_free_def)
  have "holds (s\<lparr>f_refcnt := (f_refcnt s)(f := 2)\<rparr>) 0x80102000 ([104, 105] @ [0])"
    using k by (simp add: view_def reach vmem_def kernel_pa kernel_mem_def m demo_mem_other demo_args_def)
  from ustrlen_reach [OF this] have len: "ustrlen fault 0x80102000 (s\<lparr>f_refcnt := (f_refcnt s)(f := 2)\<rparr>) =
      Some (2, s\<lparr>f_refcnt := (f_refcnt s)(f := 2)\<rparr>)" for fault
    by simp
  let ?s1 = "s\<lparr>f_refcnt := (f_refcnt s)(f := 2), f_kfd := (f_kfd s)(f := 3)\<rparr>"
  have opn: "file_open (handle_page_fault demo_host) demo_host 0x80102000 0 0 s = Some (Inr f, ?s1)"
    by (simp add: file_open_def file_openat_def free len frontend_syscall_def demo_host_def)
  let ?m = "demo_header demo_mem 0x80010000"
  let ?s2 = "?s1\<lparr>mem := ?m\<rparr>"
  have head: "file_pread fault demo_host f 0x80010000 64 0 ?s1 = Some (64, ?s2)" for fault
  proof -
    have "touch fault PROT_WRITE 0x80010000 ?s1 = Some ?s1"
      by (rule touch_reach [OF reach]) (use k in \<open>simp_all add: kernel_mem_def\<close>)
    then have "populate_mapping fault 0x80010000 64 PROT_WRITE ?s1 = Some ?s1"
      by (simp add: populate_mapping_def ROUNDDOWN_def page_for.simps)
    then show ?thesis
      by (simp add: file_pread_def frontend_syscall_def demo_host_def kernel_pa m)
  qed
  have none: "file_pread fault demo_host f 0x80100000 0 off ?s2 = Some (0, ?s2)" for fault off
    by (simp add: file_pread_def populate_mapping_def ROUNDDOWN_def page_for.simps frontend_syscall_def
        demo_host_def)
  have kb: "kbuf ?s1 = 0x80010000" "phdr (current ?s2) = 0x80100000" "mem ?s2 = ?m"
    using k ph by (simp_all add: kernel_mem_def)
  let ?e = "load_ehdr ?m 0x80010000"
  have elf: "IS_ELF ?e"
    using demo_ehdr(1) by (simp add: IS_ELF64_def)
  define e where "e = e_entry ?e + (if e_type ?e = ET_DYN then RISCV_PGSIZE else 0)"
  let ?c = "(current s)\<lparr>phnum := 0, phent := 56, entry := e\<rparr>"
  have dec: "file_decref demo_host f (?s2\<lparr>current := ?c\<rparr>) =
      s\<lparr>f_kfd := (f_kfd s)(f := 3), mem := ?m, current := ?c\<rparr>"
    using f(2) by (simp add: file_decref_def frontend_syscall_def demo_host_def fun_upd_idem)
  have "load_elf_file demo_env f ?s1 = Some (True, s\<lparr>f_kfd := (f_kfd s)(f := 3), mem := ?m, current := ?c\<rparr>)"
    unfolding load_elf_file_def Let_def demo_env_sel kb head bind.bind_lunit prod.case
    by (simp add: kernel_pa elf demo_ehdr none kb ph dec flip: e_def)
  then show ?thesis
    by (intro exI [of _ "(f_kfd s)(f := 3)"] exI [of _ e]) (simp add: load_elf_def opn)
qed

lemma stack_ok_kfd [simp]: "stack_ok lo hi (s\<lparr>f_kfd := k\<rparr>) = stack_ok lo hi s"
proof -
  let ?t = "s\<lparr>f_kfd := k\<rparr>"
  have "anon_at ?t = anon_at s"
    using pmap_cong [of ?t s] vmr_ptr_cong [of ?t s] by (simp add: fun_eq_iff anon_at_def)
  moreover have "reach ?t = reach s"
    by (simp add: reach_def accessible_def pte_at_def walk_def)
  moreover have "maps_inv no_refs ?t = maps_inv no_refs s" "files_inv no_refs ?t = files_inv no_refs s"
    by (rule maps_inv_cong files_inv_cong; simp)+
  ultimately show ?thesis
    by (simp add: stack_ok_def vm_inv_def)
qed

lemma demo_host_args:
  fixes s :: "unit pk"
  assumes "first_free_paddr s = 0x80600000" and "mem s = demo_header demo_mem 0x80010000"
  shows "host_args s 0x80101000 [[104, 105]]"
proof -
  have view: "view s x = Some (demo_mem x)" if "0x80010040 \<le> x" "x < 0x80600000" for x
  proof -
    have "0x80000000 \<le> x"
      using that(1) by (simp add: word_le_nat_alt)
    then show ?thesis
      using that assms by (simp add: view_def reach_def vmem_def va2pa_def demo_header_other)
  qed
  have "holds s 0x80101000 (word_bytes 0x80102000)"
    unfolding holds_def
  proof (intro allI impI)
    fix i
    assume "i < length (word_bytes 0x80102000)"
    then have i: "i < 8"
      by simp
    then have "unat (0x80101000 + of_nat i :: u64) = 0x80101000 + i"
      by (simp add: unat_word_ariths unat_of_nat64)
    then show "view s (0x80101000 + of_nat i) = Some (word_bytes 0x80102000 ! i)"
      using i by (subst view) (simp_all add: word_le_nat_alt word_less_nat_alt demo_mem_pointer)
  qed
  moreover have "holds s 0x80102000 [104, 105, 0]"
    by (simp add: view demo_mem_other demo_args_def)
  ultimately have "arg_in s 0x80101000 [[104, 105]] 0"
    unfolding arg_in_def by (intro exI [of _ "0x80102000"]) (auto simp: assms(1) span_def)
  then show ?thesis
    by (simp add: host_args_def assms(1))
qed

lemma demo_str_bytes: "str_bytes (vmem s) 0x80102000 = Some [104, 105]" if "mem s = demo_mem" for s :: "unit pk"
proof -
  have "vmem s 0x80102000 = 104" "vmem s 0x80102001 = 105" "vmem s 0x80102002 = 0"
    by (simp_all add: vmem_def kernel_pa that demo_mem_other demo_args_def)
  then show ?thesis
    by (simp add: str_bytes.simps [of _ "0x80102000"] str_bytes.simps [of _ "0x80102001"]
        str_bytes.simps [of _ "0x80102002"])
qed

lemma demo_boots:
  "\<exists>tf t. boot_loader demo_env 0x80200000 0 0x80101000 0x80100000 sample_boot = Some (Inr (tf, t)) \<and>
     brk_min (current t) \<le> mmap_max (current t)"
proof -
  have on: "powered_on sample_boot" "kernel_image 0x80200000 sample_boot"
    by (simp_all add: powered_on_def std_files_def kernel_image_def sample_boot_def sample_pk_def sample_elf_def)
  obtain s1 where s1: "file_init sample_boot = Some s1" "std_files 3 s1" "same_vm sample_boot s1"
    using file_init_spec [of sample_boot] on(1) by (auto simp: powered_on_def)
  note sm = same_vmD [OF s1(3)]
  have img: "kernel_image 0x80200000 s1"
    using on(2) by (simp add: kernel_image_def sm)
  obtain tos s j where s: "pk_vm_init demo_host 0x80200000 s1 = Some (tos, s)" "vm_inv no_refs no_refs s"
    "\<not> vm_lock s" "counts_le s1 s" "j < MAX_VMR" "initial_space 0x80200000 s1 j s"
    using vm_init_spec [OF img s1(2), of demo_host] on(1) by (auto simp: powered_on_def sm)
  have init: "current s = (current s1)\<lparr>mmap_max := 0x3FA00000, brk_max := 0x3FA00000, stack_top := 0x3FA00000\<rparr>"
    "first_free_paddr s = 0x80600000" "kbuf s = 0x80010000"
    using s(6) by (simp_all add: initial_space_def user_top_def kernel_pages_def ROUNDUP_def sm
        sample_boot_def sample_pk_def)
  define s2 where "s2 = s\<lparr>mem := demo_mem, current := (current s)\<lparr>phdr := 0x80100000, phdr_size := 1024\<rparr>\<rparr>"
  obtain f where f: "f_refcnt s f = 0" "\<And>g. g < f \<Longrightarrow> f_refcnt s g \<noteq> 0" "f < MAX_FILES"
  proof -
    have "unat (f_refcnt s 5) \<le> unat (f_refcnt s1 5)"
      using s(4) by (simp add: counts_le_def)
    then have five: "f_refcnt s 5 = 0"
      using s1(2) by (simp add: std_files_def unat_eq_0)
    have "(LEAST f. f_refcnt s f = 0) \<le> 5"
      using five by (rule Least_le)
    then show ?thesis
      using LeastI [of "\<lambda>f. f_refcnt s f = 0", OF five] not_less_Least
      by (intro that [of "LEAST f. f_refcnt s f = 0"]) auto
  qed
  have "kernel_mem s2" "mem s2 = demo_mem" "phdr (current s2) = 0x80100000" "f_refcnt s2 = f_refcnt s"
    by (simp_all add: s2_def kernel_mem_def init(2,3))
  then obtain kfd e where elf: "load_elf demo_env 0x80102000 [104, 105] s2 = Some (Inr (s2\<lparr>f_kfd := kfd,
      mem := demo_header demo_mem 0x80010000,
      current := (current s2)\<lparr>phnum := 0, phent := 56, entry := e\<rparr>\<rparr>))"
    using demo_load_elf [of s2 f "[104, 105]"] f by auto
  define c where "c = (current s2)\<lparr>phnum := 0, phent := 56, entry := e\<rparr>"
  define t where "t = s2\<lparr>f_kfd := kfd, mem := demo_header demo_mem 0x80010000, current := c\<rparr>"
  have c: "stack_top c = 0x3FA00000" "mmap_max c = mmap_max (current s)" "phdr c = 0x80100000"
    "phdr_size c = 1024" "brk_min c = 0"
    using sm on(1) by (simp_all add: c_def s2_def init(1) powered_on_def)
  have t: "first_free_paddr t = 0x80600000" "mem t = demo_header demo_mem 0x80010000" "current t = c"
    by (simp_all add: t_def s2_def init(2))
  have "stack_ok (user_top 0x80200000 - STACK_SIZE) (user_top 0x80200000) s"
    using initial_stack(1) [OF s(6) img s(5,2,3)] .
  then have ok: "stack_ok 0x3F200000 (stack_top (current t)) t"
    using c(2) by (simp add: t(3) c(1) user_top_def kernel_pages_def) (simp add: t_def s2_def stack_ok_current)
  have fit: "image_fits 0x3F200000 t [[104, 105]]"
    by (simp add: image_fits_def t c used_def)
  obtain tf u where run: "run_loaded_program demo_env 0 1 0x80101000 t = Some (tf, u)"
    using build_image [OF ok fit demo_host_args [OF t(1,2)], of demo_env 0] by auto
  have "loaded t"
    using ok sm on(1) c by (simp add: loaded_def stack_ok_def t(3) base_limits_def)
      (simp add: c_def s2_def init(1) powered_on_def)
  then have "brk_min (current u) \<le> mmap_max (current u)"
    using run_loaded_program_loaded [OF run] c(5) by (simp add: t(3))
  moreover have "boot_loader demo_env 0x80200000 0 0x80101000 0x80100000 sample_boot = Some (Inr (tf, u))"
  proof -
    have "kload64 s2 0x80101000 = 0x80102000"
      by (simp add: kload64_def kernel_pa s2_def demo_mem_def load_store_le)
    moreover have "str_bytes (vmem (s\<lparr>mem := demo_mem\<rparr>)) 0x80102000 = Some [104, 105]"
      by (rule demo_str_bytes) simp
    ultimately have "rest_of_boot_loader demo_env 0 0x80101000 0x80100000 s = Some (Inr (tf, u))"
      using elf run unfolding rest_of_boot_loader_def demo_parse_args
      by (simp add: s2_def [symmetric] c_def [symmetric] t_def [symmetric])
    then show ?thesis
      using s1(1) s(1) by (simp add: boot_loader_def)
  qed
  ultimately show ?thesis
    by blast
qed


end
