(* ===== verification/Machine.thy ===== *)
theory Machine
  imports Bytes "HOL-Library.Signed_Division"
begin

text \<open>
  The state that the machine-mode trap handlers of \<^verbatim>\<open>riscv-pk/machine\<close> work on, and the
  macros of \<^verbatim>\<open>emulation.h\<close>, \<^verbatim>\<open>fp_emulation.h\<close> and \<^verbatim>\<open>unprivileged_memory.h\<close>.

  The registers of the interrupted program are the array \<^verbatim>\<open>regs\<close> that \<^verbatim>\<open>mentry.S\<close> saved
  (\<^theory_text>\<open>xr\<close>; the slot of \<^verbatim>\<open>x0\<close> is zero on entry), followed by the emulated floating-point
  registers (\<^theory_text>\<open>fr\<close>); \<^verbatim>\<open>tp\<close> holds the emulated \<^verbatim>\<open>fcsr\<close>.  Memory is what the program
  addresses (\<^theory_text>\<open>umem\<close>); which of its accesses fault, and with which cause, is a parameter.

  A handler returns the state in which \<^verbatim>\<open>mret\<close> is about to run, in the program or, after
  \<^verbatim>\<open>redirect_trap\<close>, in the supervisor; no value stands for \<^verbatim>\<open>die\<close>.
\<close>

record mach =
  xr :: "nat \<Rightarrow> u64"
  fr :: "nat \<Rightarrow> u64"
  tp :: u32
  umem :: mem
  c_mepc :: u64
  c_mcause :: u64
  c_mbadaddr :: u64
  c_mstatus :: u64
  c_mcycle :: u64
  c_minstret :: u64
  c_mhpmcounter3 :: u64
  c_mhpmcounter4 :: u64
  c_mhpmevent3 :: u64
  c_mhpmevent4 :: u64
  c_mtime :: u64
  c_stvec :: u64
  c_sepc :: u64
  c_scause :: u64
  c_sbadaddr :: u64
  c_scounteren :: u64

text \<open>The cause of the exception that a load or store by the program raises, 0 for none.\<close>

record access_env =
  load_fault :: "u64 \<Rightarrow> u64"
  store_fault :: "u64 \<Rightarrow> u64"

type_synonym emulation_func =
  "access_env \<Rightarrow> u64 \<Rightarrow> u64 \<Rightarrow> u64 \<Rightarrow> u64 \<Rightarrow> mach \<Rightarrow> mach option"

abbreviation MSTATUS_SIE :: u64 where "MSTATUS_SIE \<equiv> 2"
abbreviation MSTATUS_SPIE :: u64 where "MSTATUS_SPIE \<equiv> 0x20"
abbreviation MSTATUS_SPP :: u64 where "MSTATUS_SPP \<equiv> 0x100"
abbreviation MSTATUS_MPP :: u64 where "MSTATUS_MPP \<equiv> 0x1800"
abbreviation MSTATUS_FS :: u64 where "MSTATUS_FS \<equiv> 0x6000"
abbreviation MSTATUS_MPRV :: u64 where "MSTATUS_MPRV \<equiv> 0x20000"
abbreviation MSTATUS_MXR :: u64 where "MSTATUS_MXR \<equiv> 0x80000"
abbreviation CAUSE_FETCH_ACCESS :: u64 where "CAUSE_FETCH_ACCESS \<equiv> 1"
abbreviation CAUSE_LOAD_ACCESS :: u64 where "CAUSE_LOAD_ACCESS \<equiv> 5"
abbreviation CAUSE_STORE_ACCESS :: u64 where "CAUSE_STORE_ACCESS \<equiv> 7"
abbreviation CAUSE_FETCH_PAGE_FAULT :: u64 where "CAUSE_FETCH_PAGE_FAULT \<equiv> 12"
abbreviation CAUSE_LOAD_PAGE_FAULT :: u64 where "CAUSE_LOAD_PAGE_FAULT \<equiv> 13"
abbreviation CAUSE_STORE_PAGE_FAULT :: u64 where "CAUSE_STORE_PAGE_FAULT \<equiv> 15"

subsection \<open>Redirection to the supervisor\<close>

definition redirect_trap :: "u64 \<Rightarrow> u64 \<Rightarrow> u64 \<Rightarrow> mach \<Rightarrow> mach" where
  "redirect_trap epc mstatus badaddr s =
     (let mpp_s = MSTATUS_MPP AND drop_bit 1 MSTATUS_MPP;
          n0 = mstatus AND NOT (MSTATUS_SPP OR MSTATUS_SPIE OR MSTATUS_SIE);
          n1 = n0 OR (mstatus * (MSTATUS_SPIE div MSTATUS_SIE) AND MSTATUS_SPIE);
          n2 = n1 OR (mstatus div (mpp_s div MSTATUS_SPP) AND MSTATUS_SPP);
          n3 = n2 OR mpp_s
      in s\<lparr>c_sbadaddr := badaddr, c_sepc := epc, c_scause := c_mcause s,
           c_mepc := c_stvec s, c_mstatus := n3\<rparr>)"

definition pmp_trap :: "mach \<Rightarrow> u64 \<Rightarrow> mach option" where
  "pmp_trap s mepc = Some (redirect_trap mepc (c_mstatus s) (c_mbadaddr s) s)"

text \<open>\<^verbatim>\<open>die\<close> prints and powers the machine off.\<close>

definition bad_trap :: "mach \<Rightarrow> mach option" where
  "bad_trap s = None"

text \<open>\<open>a1\<close>, \<open>a2\<close> and \<open>a3\<close> are the registers that the access sequences set up.\<close>

definition machine_page_fault :: "u64 \<Rightarrow> u64 \<Rightarrow> u64 \<Rightarrow> u64 \<Rightarrow> mach \<Rightarrow> mach option" where
  "machine_page_fault a1 a2 a3 mcause s =
     (if c_mstatus s AND MSTATUS_MPRV \<noteq> 0 then
        if a1 = MSTATUS_MPRV OR MSTATUS_MXR then
          if mcause = CAUSE_LOAD_PAGE_FAULT then
            Some (redirect_trap a2 a3 (c_mbadaddr s) (s\<lparr>c_mcause := CAUSE_FETCH_PAGE_FAULT\<rparr>))
          else if mcause = CAUSE_LOAD_ACCESS then
            Some (redirect_trap a2 a3 (c_mbadaddr s) (s\<lparr>c_mcause := CAUSE_FETCH_ACCESS\<rparr>))
          else bad_trap s
        else if a1 \<noteq> MSTATUS_MPRV then bad_trap s
        else Some (redirect_trap a2 a3 (c_mbadaddr s) s)
      else bad_trap s)"

definition trap_from_machine_mode :: "u64 \<Rightarrow> u64 \<Rightarrow> u64 \<Rightarrow> mach \<Rightarrow> mach option" where
  "trap_from_machine_mode a1 a2 a3 s =
     (let mcause = c_mcause s in
      if mcause \<in> {CAUSE_LOAD_PAGE_FAULT, CAUSE_STORE_PAGE_FAULT, CAUSE_FETCH_ACCESS,
                   CAUSE_LOAD_ACCESS, CAUSE_STORE_ACCESS}
      then machine_page_fault a1 a2 a3 mcause s
      else bad_trap s)"

subsection \<open>Memory of the program\<close>

text \<open>
  An access with \<^verbatim>\<open>MPRV\<close> set that faults traps within machine mode: the hardware records
  cause and address, and \<^verbatim>\<open>a1\<close> to \<^verbatim>\<open>a3\<close> hold what the access sequence put there.
\<close>

definition access_trap :: "u64 \<Rightarrow> u64 \<Rightarrow> u64 \<Rightarrow> u64 \<Rightarrow> mach \<Rightarrow> mach option" where
  "access_trap a1 cause a mepc s =
     trap_from_machine_mode a1 mepc (c_mstatus s)
       (s\<lparr>c_mcause := cause, c_mbadaddr := a, c_mstatus := c_mstatus s OR a1\<rparr>)"

definition with_load ::
  "access_env \<Rightarrow> nat \<Rightarrow> u64 \<Rightarrow> u64 \<Rightarrow> mach \<Rightarrow> (u64 \<Rightarrow> mach option) \<Rightarrow> mach option" where
  "with_load E n a mepc s k =
     (if load_fault E a = 0 then k (load_le n (umem s) a)
      else access_trap MSTATUS_MPRV (load_fault E a) a mepc s)"

definition with_store ::
  "access_env \<Rightarrow> nat \<Rightarrow> u64 \<Rightarrow> u64 \<Rightarrow> u64 \<Rightarrow> mach \<Rightarrow> (mach \<Rightarrow> mach option) \<Rightarrow> mach option" where
  "with_store E n a v mepc s k =
     (if store_fault E a = 0 then k (s\<lparr>umem := store_le n (umem s) a v\<rparr>)
      else access_trap MSTATUS_MPRV (store_fault E a) a mepc s)"

text \<open>\<^verbatim>\<open>get_insn\<close>, which may be allowed where a load is not (\<^verbatim>\<open>MXR\<close>).\<close>

definition with_fetch ::
  "access_env \<Rightarrow> nat \<Rightarrow> u64 \<Rightarrow> u64 \<Rightarrow> mach \<Rightarrow> (u64 \<Rightarrow> mach option) \<Rightarrow> mach option" where
  "with_fetch E n a mepc s k =
     (if load_fault E a = 0 then k (load_le n (umem s) a)
      else access_trap (MSTATUS_MPRV OR MSTATUS_MXR) (load_fault E a) a mepc s)"

definition with_insn ::
  "access_env \<Rightarrow> u64 \<Rightarrow> mach \<Rightarrow> (u64 \<Rightarrow> u64 \<Rightarrow> mach option) \<Rightarrow> mach option" where
  "with_insn E mepc s k =
     (if mepc AND 2 = 0 then
        with_fetch E 4 mepc mepc s (\<lambda>insn.
          k (if insn AND 3 = 3 then insn else drop_bit 48 (push_bit 48 insn)) (c_mstatus s))
      else
        with_fetch E 2 mepc mepc s (\<lambda>lo.
          if lo AND 3 \<noteq> 3 then k lo (c_mstatus s)
          else with_fetch E 2 (mepc + 2) mepc s (\<lambda>hi. k (lo + push_bit 16 hi) (c_mstatus s))))"

subsection \<open>Fields of an instruction\<close>

definition RV_X :: "u64 \<Rightarrow> nat \<Rightarrow> nat \<Rightarrow> u64" where
  "RV_X x s n = drop_bit s x AND (push_bit n 1 - 1)"

definition RVC_LD_IMM :: "u64 \<Rightarrow> u64" where
  "RVC_LD_IMM x = push_bit 3 (RV_X x 10 3) OR push_bit 6 (RV_X x 5 2)"

definition RVC_LDSP_IMM :: "u64 \<Rightarrow> u64" where
  "RVC_LDSP_IMM x = push_bit 3 (RV_X x 5 2) OR push_bit 5 (RV_X x 12 1) OR push_bit 6 (RV_X x 2 3)"

definition RVC_SDSP_IMM :: "u64 \<Rightarrow> u64" where
  "RVC_SDSP_IMM x = push_bit 3 (RV_X x 10 3) OR push_bit 6 (RV_X x 7 3)"

definition RVC_RS1S :: "u64 \<Rightarrow> u64" where "RVC_RS1S insn = 8 + RV_X insn 7 3"
definition RVC_RS2S :: "u64 \<Rightarrow> u64" where "RVC_RS2S insn = 8 + RV_X insn 2 3"
definition RVC_RS2 :: "u64 \<Rightarrow> u64" where "RVC_RS2 insn = RV_X insn 2 5"

text \<open>\<^verbatim>\<open>GET_REG\<close>: the number of the register whose field is at bit \<open>pos\<close>.\<close>

definition reg_at :: "u64 \<Rightarrow> nat \<Rightarrow> nat" where
  "reg_at insn pos = unat (drop_bit pos insn AND 31)"

definition GET_RS1 :: "u64 \<Rightarrow> mach \<Rightarrow> u64" where "GET_RS1 insn s = xr s (reg_at insn 15)"
definition GET_RS2 :: "u64 \<Rightarrow> mach \<Rightarrow> u64" where "GET_RS2 insn s = xr s (reg_at insn 20)"
definition GET_RS1S :: "u64 \<Rightarrow> mach \<Rightarrow> u64" where "GET_RS1S insn s = xr s (reg_at (RVC_RS1S insn) 0)"
definition GET_RS2S :: "u64 \<Rightarrow> mach \<Rightarrow> u64" where "GET_RS2S insn s = xr s (reg_at (RVC_RS2S insn) 0)"
definition GET_RS2C :: "u64 \<Rightarrow> mach \<Rightarrow> u64" where "GET_RS2C insn s = xr s (reg_at insn 2)"
definition GET_SP :: "mach \<Rightarrow> u64" where "GET_SP s = xr s (reg_at 2 0)"

definition SET_RD :: "u64 \<Rightarrow> u64 \<Rightarrow> mach \<Rightarrow> mach" where
  "SET_RD insn v s = s\<lparr>xr := (xr s)(reg_at insn 7 := v)\<rparr>"

definition IMM_I :: "u64 \<Rightarrow> u64" where
  "IMM_I insn = scast (signed_drop_bit 20 (ucast insn :: u32))"

definition IMM_S :: "u64 \<Rightarrow> u64" where
  "IMM_S insn = scast (push_bit 5 (signed_drop_bit 25 (ucast insn :: u32)) OR
     (ucast (drop_bit 7 insn AND 0x1f) :: u32))"

subsection \<open>Floating-point registers and control\<close>

definition SET_FS_DIRTY :: "mach \<Rightarrow> mach" where
  "SET_FS_DIRTY s = s\<lparr>c_mstatus := c_mstatus s OR MSTATUS_FS\<rparr>"

definition GET_F64 :: "u64 \<Rightarrow> nat \<Rightarrow> mach \<Rightarrow> u64" where
  "GET_F64 insn pos s = fr s (reg_at insn pos)"

definition GET_F32 :: "u64 \<Rightarrow> nat \<Rightarrow> mach \<Rightarrow> u32" where
  "GET_F32 insn pos s = ucast (fr s (reg_at insn pos))"

definition SET_F64_RD :: "u64 \<Rightarrow> u64 \<Rightarrow> mach \<Rightarrow> mach" where
  "SET_F64_RD insn v s = SET_FS_DIRTY (s\<lparr>fr := (fr s)(reg_at insn 7 := v)\<rparr>)"

text \<open>A single-precision store keeps the upper half of the register.\<close>

definition SET_F32_RD :: "u64 \<Rightarrow> u32 \<Rightarrow> mach \<Rightarrow> mach" where
  "SET_F32_RD insn v s =
     (let i = reg_at insn 7
      in SET_FS_DIRTY (s\<lparr>fr := (fr s)(i := (fr s i AND NOT 0xFFFFFFFF) OR ucast v)\<rparr>))"

definition GET_FCSR :: "mach \<Rightarrow> u64" where "GET_FCSR s = scast (tp s AND 0xFF)"
definition GET_FRM :: "mach \<Rightarrow> u64" where "GET_FRM s = drop_bit 5 (GET_FCSR s)"
definition GET_FFLAGS :: "mach \<Rightarrow> u64" where "GET_FFLAGS s = GET_FCSR s AND 0x1F"

definition SET_FCSR :: "u64 \<Rightarrow> mach \<Rightarrow> mach" where
  "SET_FCSR v s = SET_FS_DIRTY (s\<lparr>tp := ucast (v AND 0xFF)\<rparr>)"

definition SET_FRM :: "u64 \<Rightarrow> mach \<Rightarrow> mach" where
  "SET_FRM v s = SET_FCSR (GET_FFLAGS s OR push_bit 5 v) s"

definition SET_FFLAGS :: "u64 \<Rightarrow> mach \<Rightarrow> mach" where
  "SET_FFLAGS v s = SET_FCSR (push_bit 5 (GET_FRM s) OR (v AND 0x1F)) s"

definition GET_PRECISION :: "u64 \<Rightarrow> u64" where "GET_PRECISION insn = drop_bit 25 insn AND 3"
definition GET_RM :: "u64 \<Rightarrow> u64" where "GET_RM insn = drop_bit 12 insn AND 7"

abbreviation MASK_FUNCT3 :: u64 where "MASK_FUNCT3 \<equiv> 0x7000"

definition softfloat_roundingMode :: "mach \<Rightarrow> u32" where
  "softfloat_roundingMode s = signed_drop_bit 13 (tp s)"

definition softfloat_raiseFlags :: "u32 \<Rightarrow> mach \<Rightarrow> mach" where
  "softfloat_raiseFlags which s = s\<lparr>tp := tp s OR which\<rparr>"

text \<open>\<^verbatim>\<open>truly_illegal_insn\<close> lets the supervisor have it.\<close>

definition truly_illegal_insn :: emulation_func where
  "truly_illegal_insn E mcause mepc mstatus insn s = Some (redirect_trap mepc mstatus insn s)"

text \<open>\<^verbatim>\<open>SETUP_STATIC_ROUNDING\<close>, no value for an illegal mode.\<close>

definition SETUP_STATIC_ROUNDING :: "u64 \<Rightarrow> mach \<Rightarrow> mach option" where
  "SETUP_STATIC_ROUNDING insn s =
     (let t = tp s AND 0xFF in
      if insn AND MASK_FUNCT3 = MASK_FUNCT3 then Some (s\<lparr>tp := t OR push_bit 8 t\<rparr>)
      else if GET_RM insn > 4 then None
      else Some (s\<lparr>tp := t OR ucast (push_bit 13 (GET_RM insn))\<rparr>))"

definition insn_length :: "u64 \<Rightarrow> u64" where
  "insn_length insn = (if insn AND 3 < 3 then 2 else 4)"

end
