(* ===== verification/Emulation.thy ===== *)
theory Emulation
  imports Machine
begin

text \<open>
  Instructions that machine mode completes for the program: misaligned loads and stores
  (\<^verbatim>\<open>misaligned_ldst.c\<close>), floating-point loads and stores (\<^verbatim>\<open>fp_ldst.c\<close>), their
  compressed forms and the control registers (\<^verbatim>\<open>emulation.c\<close>), and multiplication and
  division (\<^verbatim>\<open>muldiv_emulation.c\<close>).  The configuration is a 64-bit one with compressed
  instructions, without the M, F and D extensions and with \<^verbatim>\<open>PK_ENABLE_FP_EMULATION\<close>, so
  that every emulation is compiled in.
\<close>

subsection \<open>Misaligned accesses\<close>

text \<open>\<^verbatim>\<open>union byte_array\<close>, as the 64-bit value of its bytes.\<close>

definition set_byte :: "nat \<Rightarrow> u64 \<Rightarrow> u64 \<Rightarrow> u64" where
  "set_byte i b v = (v AND NOT (push_bit (8 * i) 0xFF)) OR push_bit (8 * i) (b AND 0xFF)"

definition get_byte :: "nat \<Rightarrow> u64 \<Rightarrow> u64" where
  "get_byte i v = drop_bit (8 * i) v AND 0xFF"

text \<open>\<open>n\<close> bytes from number \<open>i\<close> on.\<close>

primrec load_bytes ::
  "access_env \<Rightarrow> u64 \<Rightarrow> u64 \<Rightarrow> nat \<Rightarrow> nat \<Rightarrow> u64 \<Rightarrow> mach \<Rightarrow> (u64 \<Rightarrow> mach option) \<Rightarrow> mach option" where
  "load_bytes E addr mepc i 0 val s k = k val"
| "load_bytes E addr mepc i (Suc n) val s k =
     with_load E 1 (addr + of_nat i) mepc s
       (\<lambda>b. load_bytes E addr mepc (Suc i) n (set_byte i b val) s k)"

primrec store_bytes ::
  "access_env \<Rightarrow> u64 \<Rightarrow> u64 \<Rightarrow> nat \<Rightarrow> nat \<Rightarrow> u64 \<Rightarrow> mach \<Rightarrow> (mach \<Rightarrow> mach option) \<Rightarrow> mach option" where
  "store_bytes E addr mepc i 0 val s k = k s"
| "store_bytes E addr mepc i (Suc n) val s k =
     with_store E 1 (addr + of_nat i) (get_byte i val) mepc s
       (\<lambda>s1. store_bytes E addr mepc (Suc i) n val s1 k)"

text \<open>
  What the instruction loads: into a floating-point register or not, how many bytes, how far
  the value is shifted up and down again, and the word that holds the number of the
  destination where \<^verbatim>\<open>SET_RD\<close> looks for it.
\<close>

definition load_kind :: "u64 \<Rightarrow> (bool \<times> nat \<times> nat \<times> u64) option" where
  "load_kind insn =
     (if insn AND 0x707F = 0x2003 then Some (False, 4, 32, insn)
      else if insn AND 0x707F = 0x3003 then Some (False, 8, 0, insn)
      else if insn AND 0x707F = 0x6003 then Some (False, 4, 0, insn)
      else if insn AND 0x707F = 0x3007 then Some (True, 8, 0, insn)
      else if insn AND 0x707F = 0x2007 then Some (True, 4, 0, insn)
      else if insn AND 0x707F = 0x1003 then Some (False, 2, 48, insn)
      else if insn AND 0x707F = 0x5003 then Some (False, 2, 0, insn)
      else if insn AND 0xE003 = 0x6000 then Some (False, 8, 0, push_bit 7 (RVC_RS2S insn))
      else if insn AND 0xE003 = 0x6002 \<and> drop_bit 7 insn AND 0x1F \<noteq> 0 then Some (False, 8, 0, insn)
      else if insn AND 0xE003 = 0x4000 then Some (False, 4, 32, push_bit 7 (RVC_RS2S insn))
      else if insn AND 0xE003 = 0x4002 \<and> drop_bit 7 insn AND 0x1F \<noteq> 0 then Some (False, 4, 32, insn)
      else if insn AND 0xE003 = 0x2000 then Some (True, 8, 0, push_bit 7 (RVC_RS2S insn))
      else if insn AND 0xE003 = 0x2002 then Some (True, 8, 0, insn)
      else None)"

definition misaligned_load_trap :: "access_env \<Rightarrow> u64 \<Rightarrow> u64 \<Rightarrow> mach \<Rightarrow> mach option" where
  "misaligned_load_trap E mcause mepc s =
     with_insn E mepc s (\<lambda>insn mstatus.
       let npc = mepc + insn_length insn;
           addr = c_mbadaddr s
       in case load_kind insn of
            None \<Rightarrow>
              truly_illegal_insn E CAUSE_LOAD_ACCESS mepc mstatus insn (s\<lparr>c_mcause := CAUSE_LOAD_ACCESS\<rparr>)
          | Some (fp, len, shift, insn2) \<Rightarrow>
              load_bytes E addr mepc 0 len 0 s (\<lambda>val.
                let s1 = (if \<not> fp then SET_RD insn2 (signed_drop_bit shift (push_bit shift val)) s
                          else if len = 8 then SET_F64_RD insn2 val s
                          else SET_F32_RD insn2 (ucast val) s)
                in Some (s1\<lparr>c_mepc := npc\<rparr>)))"

text \<open>What it stores: how many bytes, and the value.\<close>

definition store_kind :: "u64 \<Rightarrow> mach \<Rightarrow> (nat \<times> u64) option" where
  "store_kind insn s =
     (if insn AND 0x707F = 0x2023 then Some (4, GET_RS2 insn s)
      else if insn AND 0x707F = 0x3023 then Some (8, GET_RS2 insn s)
      else if insn AND 0x707F = 0x3027 then Some (8, GET_F64 insn 20 s)
      else if insn AND 0x707F = 0x2027 then Some (4, scast (GET_F32 insn 20 s))
      else if insn AND 0x707F = 0x1023 then Some (2, GET_RS2 insn s)
      else if insn AND 0xE003 = 0xE000 then Some (8, GET_RS2S insn s)
      else if insn AND 0xE003 = 0xE002 \<and> drop_bit 7 insn AND 0x1F \<noteq> 0 then Some (8, GET_RS2C insn s)
      else if insn AND 0xE003 = 0xC000 then Some (4, GET_RS2S insn s)
      else if insn AND 0xE003 = 0xC002 \<and> drop_bit 7 insn AND 0x1F \<noteq> 0 then Some (4, GET_RS2C insn s)
      else if insn AND 0xE003 = 0xA000 then Some (8, GET_F64 (RVC_RS2S insn) 0 s)
      else if insn AND 0xE003 = 0xA002 then Some (8, GET_F64 insn 2 s)
      else None)"

definition misaligned_store_trap :: "access_env \<Rightarrow> u64 \<Rightarrow> u64 \<Rightarrow> mach \<Rightarrow> mach option" where
  "misaligned_store_trap E mcause mepc s =
     with_insn E mepc s (\<lambda>insn mstatus.
       let npc = mepc + insn_length insn
       in case store_kind insn s of
            None \<Rightarrow>
              truly_illegal_insn E CAUSE_STORE_ACCESS mepc mstatus insn (s\<lparr>c_mcause := CAUSE_STORE_ACCESS\<rparr>)
          | Some (len, val) \<Rightarrow>
              store_bytes E (c_mbadaddr s) mepc 0 len val s
                (\<lambda>s1. Some (s1\<lparr>c_mepc := npc\<rparr>)))"

subsection \<open>Floating-point loads and stores\<close>

definition emulate_float_load :: emulation_func where
  "emulate_float_load E mcause mepc mstatus insn s =
     (let addr = GET_RS1 insn s + IMM_I insn;
          f3 = insn AND MASK_FUNCT3
      in if mstatus AND MSTATUS_FS = 0 then truly_illegal_insn E mcause mepc mstatus insn s
         else if f3 = 0x2000 then
           if addr mod 4 \<noteq> 0 then misaligned_load_trap E mcause mepc (s\<lparr>c_mbadaddr := addr\<rparr>)
           else with_load E 4 addr mepc s (\<lambda>v. Some (SET_F32_RD insn (ucast v) s))
         else if f3 = 0x3000 then
           if addr mod 8 \<noteq> 0 then misaligned_load_trap E mcause mepc (s\<lparr>c_mbadaddr := addr\<rparr>)
           else with_load E 8 addr mepc s (\<lambda>v. Some (SET_F64_RD insn v s))
         else truly_illegal_insn E mcause mepc mstatus insn s)"

definition emulate_float_store :: emulation_func where
  "emulate_float_store E mcause mepc mstatus insn s =
     (let addr = GET_RS1 insn s + IMM_S insn;
          f3 = insn AND MASK_FUNCT3
      in if mstatus AND MSTATUS_FS = 0 then truly_illegal_insn E mcause mepc mstatus insn s
         else if f3 = 0x2000 then
           if addr mod 4 \<noteq> 0 then misaligned_store_trap E mcause mepc (s\<lparr>c_mbadaddr := addr\<rparr>)
           else with_store E 4 addr (ucast (GET_F32 insn 20 s)) mepc s Some
         else if f3 = 0x3000 then
           if addr mod 8 \<noteq> 0 then misaligned_store_trap E mcause mepc (s\<lparr>c_mbadaddr := addr\<rparr>)
           else with_store E 8 addr (GET_F64 insn 20 s) mepc s Some
         else truly_illegal_insn E mcause mepc mstatus insn s)"

text \<open>The compressed ones.\<close>

definition emulate_rvc :: emulation_func where
  "emulate_rvc E mcause mepc mstatus insn s0 =
     (let s = s0\<lparr>c_mepc := mepc + 2\<rparr> in
      if mstatus AND MSTATUS_FS = 0 then truly_illegal_insn E mcause mepc mstatus insn s
      else if insn AND 0xE003 = 0x2000 then
        let addr = GET_RS1S insn s + RVC_LD_IMM insn in
        if addr mod 8 \<noteq> 0 then misaligned_load_trap E mcause mepc s
        else with_load E 8 addr mepc s (\<lambda>v. Some (SET_F64_RD (push_bit 7 (RVC_RS2S insn)) v s))
      else if insn AND 0xE003 = 0x2002 then
        let addr = GET_SP s + RVC_LDSP_IMM insn in
        if addr mod 8 \<noteq> 0 then misaligned_load_trap E mcause mepc s
        else with_load E 8 addr mepc s (\<lambda>v. Some (SET_F64_RD insn v s))
      else if insn AND 0xE003 = 0xA000 then
        let addr = GET_RS1S insn s + RVC_LD_IMM insn in
        if addr mod 8 \<noteq> 0 then misaligned_store_trap E mcause mepc s
        else with_store E 8 addr (GET_F64 (push_bit 20 (RVC_RS2S insn)) 20 s) mepc s Some
      else if insn AND 0xE003 = 0xA002 then
        let addr = GET_SP s + RVC_SDSP_IMM insn in
        if addr mod 8 \<noteq> 0 then misaligned_store_trap E mcause mepc s
        else with_store E 8 addr (GET_F64 (push_bit 20 (RVC_RS2 insn)) 20 s) mepc s Some
      else truly_illegal_insn E mcause mepc mstatus insn s)"

subsection \<open>Control registers\<close>

abbreviation CSR_FFLAGS :: u64 where "CSR_FFLAGS \<equiv> 1"
abbreviation CSR_FRM :: u64 where "CSR_FRM \<equiv> 2"
abbreviation CSR_FCSR :: u64 where "CSR_FCSR \<equiv> 3"
abbreviation CSR_CYCLE :: u64 where "CSR_CYCLE \<equiv> 0xC00"
abbreviation CSR_TIME :: u64 where "CSR_TIME \<equiv> 0xC01"
abbreviation CSR_INSTRET :: u64 where "CSR_INSTRET \<equiv> 0xC02"
abbreviation CSR_MHPMCOUNTER3 :: u64 where "CSR_MHPMCOUNTER3 \<equiv> 0xB03"
abbreviation CSR_MHPMCOUNTER4 :: u64 where "CSR_MHPMCOUNTER4 \<equiv> 0xB04"
abbreviation CSR_MHPMEVENT3 :: u64 where "CSR_MHPMEVENT3 \<equiv> 0x323"
abbreviation CSR_MHPMEVENT4 :: u64 where "CSR_MHPMEVENT4 \<equiv> 0x324"

text \<open>Registers that no counter enable guards.\<close>

definition read_event_csr :: "u64 \<Rightarrow> u64 \<Rightarrow> mach \<Rightarrow> u64 option" where
  "read_event_csr num mstatus s =
     (let fs_off = (mstatus AND MSTATUS_FS = 0)
      in if num = CSR_MHPMEVENT3 then Some (c_mhpmevent3 s)
         else if num = CSR_MHPMEVENT4 then Some (c_mhpmevent4 s)
         else if num = CSR_FRM then (if fs_off then None else Some (GET_FRM s))
         else if num = CSR_FFLAGS then (if fs_off then None else Some (GET_FFLAGS s))
         else if num = CSR_FCSR then (if fs_off then None else Some (GET_FCSR s))
         else None)"

definition emulate_read_csr :: "u64 \<Rightarrow> u64 \<Rightarrow> mach \<Rightarrow> u64 option" where
  "emulate_read_csr num mstatus s =
     (let counteren = (if EXTRACT_FIELD mstatus MSTATUS_MPP = 0 then c_scounteren s else - 1)
      in if num = CSR_CYCLE then (if bit counteren 0 then Some (c_mcycle s) else None)
         else if num = CSR_TIME then (if bit counteren 1 then Some (c_mtime s) else None)
         else if num = CSR_INSTRET then (if bit counteren 2 then Some (c_minstret s) else None)
         else if num = CSR_MHPMCOUNTER3 then (if bit counteren 3 then Some (c_mhpmcounter3 s) else None)
         else if num = CSR_MHPMCOUNTER4 then (if bit counteren 4 then Some (c_mhpmcounter4 s) else None)
         else read_event_csr num mstatus s)"

text \<open>The registers of the emulated floating-point unit and the event selectors.\<close>

definition write_event_csr :: "u64 \<Rightarrow> u64 \<Rightarrow> mach \<Rightarrow> mach option" where
  "write_event_csr num v s =
     (if num = CSR_MHPMEVENT3 then Some (s\<lparr>c_mhpmevent3 := v\<rparr>)
      else if num = CSR_MHPMEVENT4 then Some (s\<lparr>c_mhpmevent4 := v\<rparr>)
      else if num = CSR_FRM then Some (SET_FRM v s)
      else if num = CSR_FFLAGS then Some (SET_FFLAGS v s)
      else if num = CSR_FCSR then Some (SET_FCSR v s)
      else None)"

definition emulate_write_csr :: "u64 \<Rightarrow> u64 \<Rightarrow> u64 \<Rightarrow> mach \<Rightarrow> mach option" where
  "emulate_write_csr num v mstatus s =
     (if num = CSR_CYCLE then Some (s\<lparr>c_mcycle := v\<rparr>)
      else if num = CSR_INSTRET then Some (s\<lparr>c_minstret := v\<rparr>)
      else if num = CSR_MHPMCOUNTER3 then Some (s\<lparr>c_mhpmcounter3 := v\<rparr>)
      else if num = CSR_MHPMCOUNTER4 then Some (s\<lparr>c_mhpmcounter4 := v\<rparr>)
      else write_event_csr num v s)"

text \<open>The new value of the register and whether it is written; no value for the other modes.\<close>

definition new_csr :: "u64 \<Rightarrow> u64 \<Rightarrow> u64 \<Rightarrow> u64 \<Rightarrow> (u64 \<times> bool) option" where
  "new_csr rm rs1_num rs1_val csr_val =
     (if rm = 1 then Some (rs1_val, True)
      else if rm = 2 then Some (csr_val OR rs1_val, rs1_num \<noteq> 0)
      else if rm = 3 then Some (csr_val AND NOT rs1_val, rs1_num \<noteq> 0)
      else if rm = 5 then Some (rs1_num, True)
      else if rm = 6 then Some (csr_val OR rs1_num, rs1_num \<noteq> 0)
      else if rm = 7 then Some (csr_val AND NOT rs1_num, rs1_num \<noteq> 0)
      else None)"

definition emulate_system_opcode :: emulation_func where
  "emulate_system_opcode E mcause mepc mstatus insn s =
     (let rs1_num = drop_bit 15 insn AND 0x1F;
          rs1_val = GET_RS1 insn s;
          csr_num = drop_bit 20 insn AND 0xFFF
      in case emulate_read_csr csr_num mstatus s of
           None \<Rightarrow> truly_illegal_insn E mcause mepc mstatus insn s
         | Some csr_val \<Rightarrow>
             (case new_csr (GET_RM insn) rs1_num rs1_val csr_val of
                None \<Rightarrow> truly_illegal_insn E mcause mepc mstatus insn s
              | Some (new_csr_val, do_write) \<Rightarrow>
                  if do_write then
                    (case emulate_write_csr csr_num new_csr_val mstatus s of
                       None \<Rightarrow> truly_illegal_insn E mcause mepc mstatus insn s
                     | Some s1 \<Rightarrow> Some (SET_RD insn csr_val s1))
                  else Some (SET_RD insn csr_val s)))"

subsection \<open>Multiplication and division\<close>

text \<open>
  C leaves a division by zero and the quotient of the least number by -1 undefined: no value.
  The signed 128-bit product of \<^verbatim>\<open>MULHU\<close> wraps around, as the compiler has it.
\<close>

definition c_sdiv :: "'a::len word \<Rightarrow> 'a word \<Rightarrow> 'a word option" where
  "c_sdiv a b = (if b = 0 \<or> sint a = - (2 ^ (LENGTH('a) - 1)) \<and> b = - 1 then None
     else Some (word_of_int (sint a sdiv sint b)))"

definition c_smod :: "'a::len word \<Rightarrow> 'a word \<Rightarrow> 'a word option" where
  "c_smod a b = (if b = 0 \<or> sint a = - (2 ^ (LENGTH('a) - 1)) \<and> b = - 1 then None
     else Some (word_of_int (sint a smod sint b)))"

definition c_udiv :: "'a::len word \<Rightarrow> 'a word \<Rightarrow> 'a word option" where
  "c_udiv a b = (if b = 0 then None else Some (a div b))"

definition c_umod :: "'a::len word \<Rightarrow> 'a word \<Rightarrow> 'a word option" where
  "c_umod a b = (if b = 0 then None else Some (a mod b))"

definition emulate_mul_div :: emulation_func where
  "emulate_mul_div E mcause mepc mstatus insn s =
     (let rs1 = GET_RS1 insn s; rs2 = GET_RS2 insn s;
          f = insn AND 0xFE00707F;
          done = map_option (\<lambda>val. SET_RD insn val s)
      in if f = 0x2000033 then done (Some (rs1 * rs2))
         else if f = 0x2004033 then done (c_sdiv rs1 rs2)
         else if f = 0x2005033 then done (c_udiv rs1 rs2)
         else if f = 0x2006033 then done (c_smod rs1 rs2)
         else if f = 0x2007033 then done (c_umod rs1 rs2)
         else if f = 0x2001033 then
           done (Some (ucast (signed_drop_bit 64 ((scast rs1 :: 128 word) * scast rs2))))
         else if f = 0x2003033 then
           done (Some (ucast (signed_drop_bit 64 ((ucast rs1 :: 128 word) * ucast rs2))))
         else if f = 0x2002033 then
           done (Some (ucast (signed_drop_bit 64 ((scast rs1 :: 128 word) * ucast rs2))))
         else truly_illegal_insn E mcause mepc mstatus insn s)"

definition emulate_mul_div32 :: emulation_func where
  "emulate_mul_div32 E mcause mepc mstatus insn s =
     (let rs1 = (ucast (GET_RS1 insn s) :: u32); rs2 = (ucast (GET_RS2 insn s) :: u32);
          f = insn AND 0xFE00707F;
          done = map_option (\<lambda>val. SET_RD insn (scast val) s)
      in if f = 0x200003B then done (Some (rs1 * rs2))
         else if f = 0x200403B then done (c_sdiv rs1 rs2)
         else if f = 0x200503B then done (c_udiv rs1 rs2)
         else if f = 0x200603B then done (c_smod rs1 rs2)
         else if f = 0x200703B then done (c_umod rs1 rs2)
         else truly_illegal_insn E mcause mepc mstatus insn s)"

end
