(* ===== verification/EmulationProps.thy ===== *)
theory EmulationProps
  imports Emulation
begin

text \<open>
  What the emulated instructions do, against what the instruction set says: the instruction
  fetch does not depend on alignment, misaligned loads and stores are the aligned ones,
  multiplication and division are those of the integers, \<^verbatim>\<open>fcsr\<close> is its two parts; how a trap
  is handed to the supervisor; and which control registers a program can write.
\<close>

unbundle bit_operations_syntax

subsection \<open>Fetching the instruction\<close>

text \<open>The instruction at \<open>pc\<close>: four bytes, or two when the low bits say so.\<close>

definition insn_at :: "mem \<Rightarrow> u64 \<Rightarrow> u64" where
  "insn_at m pc = (let w = load_le 4 m pc in if w AND 3 = 3 then w else take_bit 16 w)"

lemma load_le_take:
  "k \<le> n \<Longrightarrow> take_bit (8 * k) (load_le n m a) = load_le k m a"
  by (rule bit_word_eqI) (auto simp: bit_take_bit_iff bit_load_le)

lemma and_3: "x AND 3 = (take_bit 2 x :: u64)"
  by (simp add: take_bit_eq_mask mask_eq_exp_minus_1)

lemma low_bits_load_le:
  "take_bit 2 (load_le (Suc n) m a) = (take_bit 2 (load_le 1 m a) :: u64)"
  by (rule bit_word_eqI) (auto simp: bit_take_bit_iff bit_load_le simp del: load_le.simps)

lemma insn_at_two:
  "take_bit 2 (load_le 2 m pc) \<noteq> 3 \<Longrightarrow> insn_at m pc = load_le 2 m pc"
  using low_bits_load_le [of 1 m pc] low_bits_load_le [of 3 m pc] load_le_take [of 2 4 m pc]
  by (simp add: insn_at_def and_3 Let_def numeral_eq_Suc)

lemma insn_at_four:
  "take_bit 2 (load_le 2 m pc) = 3 \<Longrightarrow> insn_at m pc = load_le 4 m pc"
  using low_bits_load_le [of 1 m pc] low_bits_load_le [of 3 m pc]
  by (simp add: insn_at_def and_3 Let_def numeral_eq_Suc)

lemma load_le_halves:
  "load_le 2 m a + push_bit 16 (load_le 2 m (a + 2)) = load_le 4 m a"
proof -
  have "load_le 2 m a + push_bit 16 (load_le 2 m (a + 2)) = load_le 2 m a OR push_bit 16 (load_le 2 m (a + 2))"
    by (rule disjunctive_add) (simp add: bit_load_le bit_push_bit_iff)
  also have "\<dots> = load_le 4 m a"
  proof (rule bit_word_eqI)
    fix k assume "k < LENGTH(64)"
    have "of_nat (k div 8) = (2 + of_nat ((k - 16) div 8) :: u64)" if "16 \<le> k"
    proof -
      have "k div 8 = 2 + (k - 16) div 8" using that by simp
      then show ?thesis by simp
    qed
    moreover have "(k - 16) mod 8 = k mod 8" if "16 \<le> k"
    proof -
      have "k = (k - 16) + 2 * 8" using that by simp
      then show ?thesis by (metis mod_mult_self1)
    qed
    ultimately show "bit (load_le 2 m a OR push_bit 16 (load_le 2 m (a + 2))) k \<longleftrightarrow> bit (load_le 4 m a) k"
      by (cases "k < 16") (auto simp: bit_or_iff bit_push_bit_iff bit_load_le add.assoc)
  qed
  finally show ?thesis .
qed

text \<open>Whatever the alignment, \<^verbatim>\<open>get_insn\<close> finds the instruction, where no access faults.\<close>

lemma with_insn_at:
  assumes "load_fault E pc = 0" and "load_fault E (pc + 2) = 0"
  shows "with_insn E pc s k = k (insn_at (umem s) pc) (c_mstatus s)"
proof -
  have "drop_bit 48 (push_bit 48 w) = take_bit 16 w" for w :: u64
    by (rule bit_word_eqI) (auto simp: bit_simps)
  then show ?thesis
    using insn_at_two [of "umem s" pc] insn_at_four [of "umem s" pc]
    by (auto simp: with_insn_def with_fetch_def assms and_3 load_le_halves insn_at_def Let_def)
qed

subsection \<open>Misaligned loads\<close>

lemma bit_255: "bit (0xFF :: u64) n \<longleftrightarrow> n < 8"
proof -
  have "(0xFF :: u64) = mask 8" by (simp add: mask_eq_exp_minus_1)
  then have "bit (0xFF :: u64) n \<longleftrightarrow> n < LENGTH(64) \<and> n < 8" by (simp only: bit_mask_iff possible_bit_word)
  then show ?thesis by auto
qed

lemma set_byte_load:
  assumes "i < 8"
  shows "set_byte i (load_le 1 m (a + of_nat i)) (load_le i m a) = load_le (Suc i) m a"
proof (rule bit_word_eqI)
  fix k assume k: "k < LENGTH(64)"
  consider "k < 8 * i" | "8 * i \<le> k" "k < 8 * Suc i" | "8 * Suc i \<le> k" by linarith
  then show "bit (set_byte i (load_le 1 m (a + of_nat i)) (load_le i m a)) k \<longleftrightarrow> bit (load_le (Suc i) m a) k"
  proof cases
    case 2
    then have "k div 8 = i" and "(k - 8 * i) div 8 = 0" and "(k - 8 * i) mod 8 = k mod 8"
      by (simp_all add: div_nat_eqI mod_eq_self_iff_div_eq_0 modulo_nat_def)
    moreover have "bit (0xFF :: u64) (k mod 8)" unfolding bit_255 by simp
    ultimately show ?thesis using 2 k
      by (auto simp: set_byte_def bit_or_iff bit_and_iff bit_not_iff bit_push_bit_iff bit_255 bit_load_le
          simp del: load_le.simps)
  qed (use assms k in \<open>auto simp: set_byte_def bit_or_iff bit_and_iff bit_not_iff bit_push_bit_iff
      bit_255 bit_load_le simp del: load_le.simps\<close>)
qed

lemma load_bytes_ok:
  assumes "\<And>j. i \<le> j \<Longrightarrow> j < i + n \<Longrightarrow> load_fault E (a + of_nat j) = 0" and "i + n \<le> 8"
  shows "load_bytes E a mepc i n (load_le i (umem s) a) s k = k (load_le (i + n) (umem s) a)"
  using assms
proof (induction n arbitrary: i)
  case 0
  then show ?case by simp
next
  case (Suc n)
  then have "load_bytes E a mepc i (Suc n) (load_le i (umem s) a) s k
      = load_bytes E a mepc (Suc i) n (load_le (Suc i) (umem s) a) s k"
    by (simp add: with_load_def set_byte_load [unfolded One_nat_def] del: load_le.simps)
  also have "\<dots> = k (load_le (Suc i + n) (umem s) a)"
    using Suc.prems by (intro Suc.IH) auto
  finally show ?case by simp
qed

text \<open>What the instruction set says of a load: its width and how the value is extended.\<close>

definition isa_load_len :: "u64 \<Rightarrow> nat" where
  "isa_load_len f3 = (if f3 = 3 then 8 else if f3 \<in> {2, 6} then 4 else 2)"

definition isa_load :: "u64 \<Rightarrow> u64 \<Rightarrow> u64" where
  "isa_load f3 v =
     (if f3 = 1 then scast (ucast v :: u16)
      else if f3 = 2 then scast (ucast v :: u32)
      else v)"

lemma shift_extends16: "signed_drop_bit 48 (push_bit 48 v) = (scast (ucast v :: u16) :: u64)"
proof (rule bit_word_eqI)
  fix n assume "n < LENGTH(64)"
  then show "bit (signed_drop_bit 48 (push_bit 48 v)) n \<longleftrightarrow> bit (scast (ucast v :: u16) :: u64) n"
    by (cases "n < 15"; cases "n = 15")
       (auto simp: bit_signed_drop_bit_iff bit_push_bit_iff bit_signed_iff bit_unsigned_iff min_def)
qed

lemma shift_extends32: "signed_drop_bit 32 (push_bit 32 v) = (scast (ucast v :: u32) :: u64)"
proof (rule bit_word_eqI)
  fix n assume "n < LENGTH(64)"
  then show "bit (signed_drop_bit 32 (push_bit 32 v)) n \<longleftrightarrow> bit (scast (ucast v :: u32) :: u64) n"
    by (cases "n < 31"; cases "n = 31")
       (auto simp: bit_signed_drop_bit_iff bit_push_bit_iff bit_signed_iff bit_unsigned_iff min_def)
qed

definition set_rd :: "u64 \<Rightarrow> u64 \<Rightarrow> u64 \<Rightarrow> mach \<Rightarrow> mach" where
  "set_rd insn v pc s = s\<lparr>xr := (xr s)(unat (RV_X insn 7 5) := v), c_mepc := pc\<rparr>"

lemma reg_at_field: "reg_at insn pos = unat (RV_X insn pos 5)"
  by (simp add: reg_at_def RV_X_def)

lemma and_push_bit: "x AND push_bit n c = push_bit n (drop_bit n x AND c)" for x c :: u64
  by (rule bit_word_eqI) (auto simp: bit_and_iff bit_push_bit_iff bit_drop_bit_eq)

text \<open>The funct3 field and the opcode make up the bits that the masks select.\<close>

lemma opcode_funct3:
  "insn AND 0x707F = (insn AND 0x7F) OR push_bit 12 (RV_X insn 12 3)"
proof -
  have "(0x707F :: u64) = 0x7F OR push_bit 12 7" by simp
  then have "insn AND 0x707F = (insn AND 0x7F) OR (insn AND push_bit 12 7)"
    by (simp only: bit.conj_disj_distrib)
  also have "insn AND push_bit 12 7 = push_bit 12 (RV_X insn 12 3)"
    by (simp only: and_push_bit) (simp add: RV_X_def)
  finally show ?thesis .
qed

lemma isa_load_kind:
  assumes "insn AND 0x7F = 3" and "RV_X insn 12 3 \<in> {1, 2, 3, 5, 6}"
  shows "load_kind insn = Some (False, isa_load_len (RV_X insn 12 3),
           if RV_X insn 12 3 = 1 then 48 else if RV_X insn 12 3 = 2 then 32 else 0, insn)"
  using assms by (auto simp: load_kind_def opcode_funct3 isa_load_len_def)


text \<open>A word load from address 6 at pc 0: \<^verbatim>\<open>lw a0, 6(zero)\<close>.\<close>

definition sample_mach :: mach where
  "sample_mach =
     \<lparr>xr = (\<lambda>_. 0), fr = (\<lambda>_. 0), tp = 0,
      umem = (\<lambda>_. 0)(0 := 0x03, 1 := 0x25, 2 := 0x60, 3 := 0, 6 := 0x78, 7 := 0x56, 8 := 0x34, 9 := 0xF2),
      c_mepc = 0, c_mcause = 4, c_mbadaddr = 6, c_mstatus = 0,
      c_mcycle = 0, c_minstret = 0, c_mhpmcounter3 = 0, c_mhpmcounter4 = 0, c_mhpmevent3 = 0,
      c_mhpmevent4 = 0, c_mtime = 0, c_stvec = 0x100, c_sepc = 0, c_scause = 0, c_sbadaddr = 0,
      c_scounteren = 0\<rparr>"

definition no_faults :: access_env where
  "no_faults = \<lparr>load_fault = (\<lambda>_. 0), store_fault = (\<lambda>_. 0)\<rparr>"

lemma sample_mach_simps [simp]:
  "c_mbadaddr sample_mach = 6" "xr sample_mach i = 0"
  by (simp_all add: sample_mach_def)


subsection \<open>Misaligned stores\<close>

definition isa_store_len :: "u64 \<Rightarrow> nat" where
  "isa_store_len funct = (if funct = 3 then 8 else if funct = 2 then 4 else 2)"

lemma isa_store_kind:
  assumes "insn AND 0x7F = 0x23" and "RV_X insn 12 3 \<in> {1, 2, 3}"
  shows "store_kind insn s = Some (isa_store_len (RV_X insn 12 3), xr s (unat (RV_X insn 20 5)))"
  using assms by (auto simp: store_kind_def opcode_funct3 isa_store_len_def GET_RS2_def reg_at_field)

lemma store_byte: "store_le 1 m a (get_byte i v) = m(a := ucast (drop_bit (8 * i) v))"
proof -
  have "ucast (get_byte i v) = (ucast (drop_bit (8 * i) v) :: u8)"
    unfolding get_byte_def
    by (rule bit_word_eqI) (simp only: bit_unsigned_iff bit_and_iff bit_255 simp_thms, auto)
  then show ?thesis by simp
qed

text \<open>The bytes up to number \<open>j\<close>, which may not be stored.\<close>

lemma store_bytes_prefix:
  assumes "\<And>l. i \<le> l \<Longrightarrow> l < i + j \<Longrightarrow> store_fault E (a + of_nat l) = 0" and "j \<le> n"
  shows "store_bytes E a mepc i n v s k
    = store_bytes E a mepc (i + j) (n - j) v
        (s\<lparr>umem := store_le j (umem s) (a + of_nat i) (drop_bit (8 * i) v)\<rparr>) k"
  using assms
proof (induction j arbitrary: i n s)
  case 0
  then show ?case by simp
next
  case (Suc j)
  then obtain m where n: "n = Suc m" by (cases n) auto
  let ?s = "s\<lparr>umem := (umem s)(a + of_nat i := ucast (drop_bit (8 * i) v))\<rparr>"
  have "store_bytes E a mepc i n v s k = store_bytes E a mepc (Suc i) m v ?s k"
    using Suc.prems by (simp add: n with_store_def store_byte [unfolded One_nat_def] del: store_le.simps)
  also have "\<dots> = store_bytes E a mepc (Suc i + j) (m - j) v
        (?s\<lparr>umem := store_le j (umem ?s) (a + of_nat (Suc i)) (drop_bit (8 * Suc i) v)\<rparr>) k"
    using Suc.prems n by (intro Suc.IH) auto
  finally show ?case
    by (simp add: n ac_simps drop_bit_drop_bit)
qed


text \<open>\<^verbatim>\<open>sw a0, 6(zero)\<close>\<close>

definition sample_sw :: mem where
  "sample_sw = (\<lambda>_. 0)(0 := 0x23, 1 := 0x23, 2 := 0xA0)"

lemma sample_sw_insn: "insn_at sample_sw 0 = 0xA02323"
  by code_simp


text \<open>
  C30. A misaligned store that faults at its byte number \<open>j\<close> reports the address of that byte
  to the supervisor, at the instruction, with the state the program had; but the bytes before
  it are already written.
\<close>

theorem misaligned_store_faults_late:
  assumes insn: "insn = insn_at (umem s) mepc" and funct: "funct = RV_X insn 12 3"
    and fetch: "load_fault E mepc = 0" "load_fault E (mepc + 2) = 0"
    and op: "insn AND 0x7F = 0x23" "funct \<in> {1, 2, 3}"
    and j: "j < isa_store_len funct" "\<And>i. i < j \<Longrightarrow> store_fault E (c_mbadaddr s + of_nat i) = 0"
    and c: "c = store_fault E (c_mbadaddr s + of_nat j)" "c \<in> {CAUSE_STORE_ACCESS, CAUSE_STORE_PAGE_FAULT}"
  shows "\<exists>s'. misaligned_store_trap E mcause mepc s = Some s' \<and> c_sepc s' = mepc \<and> c_scause s' = c \<and>
      c_sbadaddr s' = c_mbadaddr s + of_nat j \<and> c_mepc s' = c_stvec s \<and> xr s' = xr s \<and>
      umem s' = store_le j (umem s) (c_mbadaddr s) (xr s (unat (RV_X insn 20 5)))"
proof -
  have k: "store_kind insn s = Some (isa_store_len funct, xr s (unat (RV_X insn 20 5)))"
    using op unfolding funct by (rule isa_store_kind)
  obtain m where m: "isa_store_len funct - j = Suc m" using j(1) by (cases "isa_store_len funct - j") auto
  have "(w OR MSTATUS_MPRV) AND MSTATUS_MPRV = MSTATUS_MPRV" for w :: u64
    by (rule bit_word_eqI) (auto simp: bit_and_iff bit_or_iff)
  moreover have "c \<noteq> 0" using c(2) by auto
  ultimately show ?thesis
    unfolding misaligned_store_trap_def with_insn_at [OF fetch] insn [symmetric]
    using j c
    by (auto simp: Let_def k store_bytes_prefix [where j = j] m with_store_def access_trap_def
        trap_from_machine_mode_def machine_page_fault_def redirect_trap_def)
qed

lemma misaligned_store_faults_late_witness:
  "\<exists>s'. misaligned_store_trap \<lparr>load_fault = (\<lambda>_. 0), store_fault = (\<lambda>_. 0)(8 := 15)\<rparr> 6 0
        (sample_mach\<lparr>umem := sample_sw\<rparr>) = Some s' \<and> c_sbadaddr s' = 8 \<and>
      umem s' = store_le 2 sample_sw 6 0"
  using misaligned_store_faults_late
    [where insn = "0xA02323" and s = "sample_mach\<lparr>umem := sample_sw\<rparr>" and mepc = 0 and funct = 2
      and E = "\<lparr>load_fault = (\<lambda>_. 0), store_fault = (\<lambda>_. 0)(8 := 15)\<rparr>" and mcause = 6 and j = 2 and c = 15]
  by (simp add: sample_sw_insn RV_X_def isa_store_len_def) (use less_2_cases in fastforce)

subsection \<open>Multiplication and division\<close>

text \<open>The M extension on integers: the low or high half of a product, quotients and remainders.\<close>

definition isa_muldiv :: "u64 \<Rightarrow> u64 \<Rightarrow> u64 \<Rightarrow> u64" where
  "isa_muldiv f a b =
     (if f = 0 then word_of_int (sint a * sint b)
      else if f = 1 then word_of_int (sint a * sint b div 2 ^ 64)
      else if f = 2 then word_of_int (sint a * uint b div 2 ^ 64)
      else if f = 3 then word_of_int (uint a * uint b div 2 ^ 64)
      else if f = 4 then word_of_int (sint a sdiv sint b)
      else if f = 5 then word_of_int (uint a div uint b)
      else if f = 6 then word_of_int (sint a smod sint b)
      else word_of_int (uint a mod uint b))"

text \<open>Where the instruction set has a result that C does not give.\<close>

definition muldiv_defined :: "u64 \<Rightarrow> u64 \<Rightarrow> u64 \<Rightarrow> bool" where
  "muldiv_defined f a b \<longleftrightarrow>
     f < 4 \<or> b \<noteq> 0 \<and> (f \<in> {4, 6} \<longrightarrow> \<not> (sint a = - (2 ^ 63) \<and> b = - 1))"

lemma bit_div_64: "bit (k div 18446744073709551616 :: int) n \<longleftrightarrow> bit k (n + 64)"
proof -
  have "k div 18446744073709551616 = drop_bit 64 k" by (simp add: drop_bit_eq_div)
  then show ?thesis by (simp only: bit_drop_bit_eq o_apply add.commute)
qed

lemma bit_high_half: "n < 64 \<Longrightarrow> bit (ucast (signed_drop_bit 64 (w :: 128 word)) :: u64) n \<longleftrightarrow> bit w (64 + n)"
  by (simp add: bit_unsigned_iff bit_signed_drop_bit_iff)

lemma bit_word_high: "n < 64 \<Longrightarrow> bit (word_of_int k :: 128 word) (64 + n) \<longleftrightarrow> bit k (n + 64)"
  by (simp add: bit_word_of_int_iff add.commute)

lemma bit_word_div:
  "n < 64 \<Longrightarrow> bit (word_of_int (k div 2 ^ 64) :: u64) n \<longleftrightarrow> bit (k div 18446744073709551616) n"
  by (simp add: bit_word_of_int_iff)

lemma high_half: "(ucast (signed_drop_bit 64 (word_of_int k :: 128 word)) :: u64) = word_of_int (k div 2 ^ 64)"
proof (rule bit_word_eqI)
  fix n assume "n < LENGTH(64)"
  then have n: "n < 64" by simp
  show "bit (ucast (signed_drop_bit 64 (word_of_int k :: 128 word)) :: u64) n
      \<longleftrightarrow> bit (word_of_int (k div 2 ^ 64) :: u64) n"
    by (simp only: bit_high_half [OF n] bit_word_high [OF n] bit_word_div [OF n] bit_div_64)
qed

lemma mulh_sides:
  fixes a b :: u64
  shows "(scast a :: 128 word) * scast b = word_of_int (sint a * sint b)"
    and "(ucast a :: 128 word) * ucast b = word_of_int (uint a * uint b)"
    and "(scast a :: 128 word) * ucast b = word_of_int (sint a * uint b)"
  by (simp_all only: scast_eq ucast_eq wi_hom_mult)

lemma opcode_funct10:
  "insn AND 0xFE00707F = (insn AND 0x7F) OR push_bit 12 (RV_X insn 12 3) OR push_bit 25 (RV_X insn 25 7)"
proof -
  have "(0xFE00707F :: u64) = 0x7F OR push_bit 12 7 OR push_bit 25 0x7F" by simp
  then have "insn AND 0xFE00707F = (insn AND 0x7F) OR (insn AND push_bit 12 7) OR (insn AND push_bit 25 0x7F)"
    by (simp only: bit.conj_disj_distrib)
  also have "\<dots> = (insn AND 0x7F) OR push_bit 12 (drop_bit 12 insn AND 7) OR push_bit 25 (drop_bit 25 insn AND 0x7F)"
    by (simp only: and_push_bit)
  finally show ?thesis by (simp add: RV_X_def)
qed

lemma isa_muldiv_words:
  "isa_muldiv 0 a b = a * b"
  "isa_muldiv 1 a b = ucast (signed_drop_bit 64 ((scast a :: 128 word) * scast b))"
  "isa_muldiv 2 a b = ucast (signed_drop_bit 64 ((scast a :: 128 word) * ucast b))"
  "isa_muldiv 3 a b = ucast (signed_drop_bit 64 ((ucast a :: 128 word) * ucast b))"
  "isa_muldiv 4 a b = word_of_int (sint a sdiv sint b)"
  "isa_muldiv 5 a b = a div b"
  "isa_muldiv 6 a b = word_of_int (sint a smod sint b)"
  "isa_muldiv 7 a b = a mod b"
  by (simp only: isa_muldiv_def mulh_sides high_half word_div_def word_mod_def, simp)+

text \<open>
  C31. Emulated multiplications and divisions put the result that the instruction set defines
  over the integers into the destination and change nothing else, for all eight instructions,
  wherever C defines the quotient.
\<close>

theorem mul_div_is_isa:
  assumes "insn AND 0x7F = 0x33" and "RV_X insn 25 7 = 1" and funct: "funct = RV_X insn 12 3"
    and "a = xr s (unat (RV_X insn 15 5))" and "b = xr s (unat (RV_X insn 20 5))"
    and "muldiv_defined funct a b"
  shows "emulate_mul_div E mcause mepc mstatus insn s
    = Some (s\<lparr>xr := (xr s)(unat (RV_X insn 7 5) := isa_muldiv funct a b)\<rparr>)"
proof -
  have "insn AND 0xFE00707F = (0x33 OR push_bit 25 1) OR push_bit 12 funct"
    by (simp only: opcode_funct10 assms(1-3) ac_simps)
  then have f: "insn AND 0xFE00707F = 0x2000033 OR push_bit 12 funct" by simp
  have "funct \<le> 7" unfolding funct RV_X_def using word_and_le1 [of "drop_bit 12 insn" 7] by simp
  then have "funct \<in> {0, 1, 2, 3, 4, 5, 6, 7}" unfolding insert_iff empty_iff by unat_arith
  moreover have "GET_RS1 insn s = a" "GET_RS2 insn s = b"
    using assms by (simp_all add: GET_RS1_def GET_RS2_def reg_at_field)
  ultimately show ?thesis
    using assms(6) unfolding emulate_mul_div_def f insert_iff empty_iff simp_thms
    by (elim disjE; simp add: Let_def SET_RD_def reg_at_field muldiv_defined_def c_sdiv_def
        c_smod_def c_udiv_def c_umod_def isa_muldiv_words)
qed

text \<open>\<^verbatim>\<open>div a0, a1, a2\<close>: -7 by 2 is -3.\<close>

lemma mul_div_is_isa_witness:
  "emulate_mul_div no_faults 2 0 0 0x2C5C533 (sample_mach\<lparr>xr := (\<lambda>_. 0)(11 := - 7, 12 := 2)\<rparr>)
    = Some (sample_mach\<lparr>xr := (\<lambda>_. 0)(11 := - 7, 12 := 2, 10 := - 3)\<rparr>)"
proof -
  have "isa_muldiv 4 (- 7) 2 = - 3"
    unfolding isa_muldiv_words by (simp add: signed_divide_int_def)
  then show ?thesis
    using mul_div_is_isa [where insn = "0x2C5C533" and s = "sample_mach\<lparr>xr := (\<lambda>_. 0)(11 := - 7, 12 := 2)\<rparr>"
        and funct = 4 and a = "- 7" and b = 2 and E = no_faults and mcause = 2 and mepc = 0 and mstatus = 0]
    by (simp add: RV_X_def muldiv_defined_def)
qed

subsection \<open>Handing a trap to the supervisor\<close>

lemma bit_mpp: "bit (0x800 :: u64) n \<longleftrightarrow> n = 11"
proof -
  have "(0x800 :: u64) = push_bit 11 1" by simp
  then show ?thesis by (simp only: bit_push_bit_iff bit_1_iff possible_bit_word) auto
qed

lemma status_bits:
  "bit (0x20 :: u64) n \<longleftrightarrow> n = 5" "bit (0x100 :: u64) n \<longleftrightarrow> n = 8"
  "bit (0x122 :: u64) n \<longleftrightarrow> n \<in> {1, 5, 8}"
proof -
  have "(0x20 :: u64) = push_bit 5 1" "(0x100 :: u64) = push_bit 8 1"
    "(0x122 :: u64) = push_bit 1 1 OR push_bit 5 1 OR push_bit 8 1" by simp_all
  then show "bit (0x20 :: u64) n \<longleftrightarrow> n = 5" "bit (0x100 :: u64) n \<longleftrightarrow> n = 8"
    "bit (0x122 :: u64) n \<longleftrightarrow> n \<in> {1, 5, 8}"
    by (simp_all only: bit_or_iff bit_push_bit_iff bit_1_iff possible_bit_word) auto
qed

text \<open>
  A trap that machine mode hands on looks to the supervisor like one it took itself: its
  \<^verbatim>\<open>sepc\<close>, \<^verbatim>\<open>scause\<close> and \<^verbatim>\<open>sbadaddr\<close> are set, execution goes on at \<^verbatim>\<open>stvec\<close> in supervisor
  mode, interrupts are off with the old enable bit and mode in \<^verbatim>\<open>SPIE\<close> and \<^verbatim>\<open>SPP\<close>, and every
  other bit of the status, the registers and the memory stay.
\<close>

lemma redirect_trap_enters_supervisor:
  "c_sepc (redirect_trap epc m a s) = epc \<and> c_scause (redirect_trap epc m a s) = c_mcause s \<and>
   c_sbadaddr (redirect_trap epc m a s) = a \<and> c_mepc (redirect_trap epc m a s) = c_stvec s \<and>
   xr (redirect_trap epc m a s) = xr s \<and> umem (redirect_trap epc m a s) = umem s \<and>
   (\<forall>n. bit (c_mstatus (redirect_trap epc m a s)) n \<longleftrightarrow>
      (if n = 1 then False else if n = 5 then bit m 1 else if n = 8 then bit m 11
       else if n = 11 then True else bit m n))"
proof -
  have mul: "m * 16 = push_bit 4 m" by (simp add: push_bit_eq_mult)
  have dv: "m div 8 = drop_bit 3 m" by (simp add: drop_bit_eq_div)
  have "c_mstatus (redirect_trap epc m a s)
      = (m AND NOT 0x122) OR (push_bit 4 m AND 0x20) OR (drop_bit 3 m AND 0x100) OR 0x800"
    by (simp add: redirect_trap_def Let_def mul dv or.assoc)
  then have "bit (c_mstatus (redirect_trap epc m a s)) n \<longleftrightarrow>
      (if n = 1 then False else if n = 5 then bit m 1 else if n = 8 then bit m 11
       else if n = 11 then True else bit m n)" for n
    using not_bit_beyond [where w = m and k = n]
    by (cases "n < 64") (simp_all only: bit_or_iff bit_and_iff bit_not_iff bit_push_bit_iff bit_drop_bit_eq
        bit_mpp status_bits possible_bit_word o_apply, auto)
  then show ?thesis by (simp add: redirect_trap_def Let_def)
qed

subsection \<open>Control registers\<close>

lemma and_take:
  "x AND 0xFF = take_bit 8 x" "x AND 0x1F = take_bit 5 x" "x AND 7 = take_bit 3 x"
  for x :: "'a::len word"
  by (simp_all add: take_bit_eq_mask mask_eq_exp_minus_1)

lemma GET_SET_FCSR [simp]: "GET_FCSR (SET_FCSR v s) = take_bit 8 v"
  unfolding GET_FCSR_def SET_FCSR_def SET_FS_DIRTY_def and_take
  by (rule bit_word_eqI) (auto simp: bit_signed_iff bit_take_bit_iff bit_unsigned_iff min_def)

lemma take_FCSR [simp]: "take_bit 8 (GET_FCSR s) = GET_FCSR s"
  unfolding GET_FCSR_def and_take
  by (rule bit_word_eqI) (auto simp: bit_signed_iff bit_take_bit_iff bit_unsigned_iff min_def)

lemma fcsr_parts:
  "drop_bit 5 (take_bit 8 v) = (take_bit 3 (drop_bit 5 v) :: u64)"
  "take_bit 5 (take_bit 8 v) = (take_bit 5 v :: u64)"
  "drop_bit 5 (take_bit 5 v) = (0 :: u64)"
  "take_bit 3 (drop_bit 5 (push_bit 5 v)) = (take_bit 3 v :: u64)"
  "take_bit 5 (push_bit 5 v) = (0 :: u64)"
  by (rule bit_word_eqI; auto simp: bit_take_bit_iff bit_drop_bit_eq bit_or_iff bit_push_bit_iff)+

lemma take_FRM: "take_bit 3 (drop_bit 5 (GET_FCSR s)) = drop_bit 5 (GET_FCSR s)"
  by (metis take_FCSR fcsr_parts(1))

text \<open>
  The emulated \<^verbatim>\<open>fcsr\<close> is the rounding mode above the five flags: what is written to it is
  read back from it and from its two parts, and writing one part leaves the other.
\<close>

lemma fcsr_round_trip:
  assumes "mstatus AND MSTATUS_FS \<noteq> 0"
  shows "emulate_write_csr CSR_FCSR v mstatus s \<bind> emulate_read_csr CSR_FCSR mstatus = Some (v AND 0xFF) \<and>
    emulate_write_csr CSR_FCSR v mstatus s \<bind> emulate_read_csr CSR_FRM mstatus = Some (drop_bit 5 v AND 7) \<and>
    emulate_write_csr CSR_FCSR v mstatus s \<bind> emulate_read_csr CSR_FFLAGS mstatus = Some (v AND 0x1F) \<and>
    emulate_write_csr CSR_FRM v mstatus s \<bind> emulate_read_csr CSR_FRM mstatus = Some (v AND 7) \<and>
    emulate_write_csr CSR_FRM v mstatus s \<bind> emulate_read_csr CSR_FFLAGS mstatus
      = emulate_read_csr CSR_FFLAGS mstatus s \<and>
    emulate_write_csr CSR_FFLAGS v mstatus s \<bind> emulate_read_csr CSR_FFLAGS mstatus = Some (v AND 0x1F) \<and>
    emulate_write_csr CSR_FFLAGS v mstatus s \<bind> emulate_read_csr CSR_FRM mstatus
      = emulate_read_csr CSR_FRM mstatus s"
  using assms
  by (simp add: emulate_read_csr_def read_event_csr_def emulate_write_csr_def write_event_csr_def SET_FRM_def SET_FFLAGS_def GET_FRM_def
      GET_FFLAGS_def and_take fcsr_parts take_FRM)

text \<open>
  C32. No privilege guards the writes: from any mode and whatever \<^verbatim>\<open>scounteren\<close> says, a program
  that writes \<^verbatim>\<open>mhpmevent3\<close>, a machine-mode register, has its value put there; and where it
  may read \<^verbatim>\<open>cycle\<close>, which is read-only, writing it sets the machine's cycle counter.
\<close>

theorem programs_write_machine_counters:
  assumes "GET_RM insn = 1" and "n = RV_X insn 20 12"
  shows "(n = CSR_MHPMEVENT3 \<longrightarrow> emulate_system_opcode E mcause mepc mstatus insn s
        = Some (SET_RD insn (c_mhpmevent3 s) (s\<lparr>c_mhpmevent3 := GET_RS1 insn s\<rparr>))) \<and>
    (n = CSR_CYCLE \<and> bit (c_scounteren s) 0 \<longrightarrow> emulate_system_opcode E mcause mepc mstatus insn s
        = Some (SET_RD insn (c_mcycle s) (s\<lparr>c_mcycle := GET_RS1 insn s\<rparr>)))"
  using assms
  by (auto simp: emulate_system_opcode_def emulate_read_csr_def read_event_csr_def emulate_write_csr_def write_event_csr_def new_csr_def RV_X_def Let_def)

text \<open>\<^verbatim>\<open>csrw mhpmevent3, a0\<close> from user mode\<close>

lemma programs_write_machine_counters_witness:
  "emulate_system_opcode no_faults 2 0 0 0x32351073 (sample_mach\<lparr>xr := (\<lambda>_. 0)(10 := 42)\<rparr>)
    = Some (SET_RD 0x32351073 0 (sample_mach\<lparr>xr := (\<lambda>_. 0)(10 := 42), c_mhpmevent3 := 42\<rparr>))"
  using programs_write_machine_counters [where insn = "0x32351073" and n = "0x323" and E = no_faults and mcause = 2
      and mepc = 0 and mstatus = 0 and s = "sample_mach\<lparr>xr := (\<lambda>_. 0)(10 := 42)\<rparr>"]
  by (simp add: GET_RM_def RV_X_def GET_RS1_def reg_at_def sample_mach_def)

end
