(* ===== verification/Platform.thy ===== *)
theory Platform
  imports Machine Snprintf
begin

text \<open>
  The machine-mode globals of a hart, the devices it drives and the calls it answers:
  \<^verbatim>\<open>uart.c\<close>, \<^verbatim>\<open>uart16550.c\<close>, \<^verbatim>\<open>htif.c\<close>, \<^verbatim>\<open>finisher.c\<close> and \<^verbatim>\<open>mtrap.c\<close> of
  \<^verbatim>\<open>riscv-pk/machine\<close>.  What a device answers to an access is a parameter, the bus, which
  steps the state \<open>'d\<close> of everything outside the hart, the other harts included.  Waiting loops
  have no value when they wait forever, nor has a failed assertion; powering off ends in the
  state in which the hart waits (\<^theory_text>\<open>Inl\<close>).  The lock of \<^verbatim>\<open>htif.c\<close> is always given back, and is
  left out.
\<close>

record 'd bus =
  rd :: "nat \<Rightarrow> u64 \<Rightarrow> 'd \<Rightarrow> u64 \<times> 'd"
  wr :: "nat \<Rightarrow> u64 \<Rightarrow> u64 \<Rightarrow> 'd \<Rightarrow> 'd"
  amoor_w :: "u64 \<Rightarrow> u32 \<Rightarrow> 'd \<Rightarrow> u32 \<times> 'd"
  amoswap_w :: "u64 \<Rightarrow> u32 \<Rightarrow> 'd \<Rightarrow> u32 \<times> 'd"
  tohost :: u64
  fromhost :: u64

text \<open>\<^verbatim>\<open>hls_t\<close>, the storage of a hart; the pointers are addresses on the bus.\<close>

record hls_t =
  ipi :: u64
  mipi_pending :: u32
  timecmp :: u64
  plic_m_thresh :: u64
  plic_m_ie :: u64
  plic_s_thresh :: u64
  plic_s_ie :: u64

abbreviation MAX_HARTS :: nat where "MAX_HARTS \<equiv> 8"

record 'd plat =
  cpu :: mach
  dev :: 'd
  pmem :: mem
  printm_buf :: u64
  uart :: u64
  uart16550 :: u64
  uart16550_reg_shift :: u32
  uart16550_clock :: u32
  htif :: u64
  htif_console_buf :: u32
  finisher :: u64
  machine_mem_size :: u64
  mtime_at :: u64
  plic_priorities :: u64
  plic_ndevs :: u64
  kernel_start :: u64
  kernel_end :: u64
  hart_phandles :: "nat \<Rightarrow> u32"
  hart_mask :: u64
  disabled_hart_mask :: u64
  hlss :: "nat \<Rightarrow> hls_t"
  mhartid :: nat
  c_mip :: u64
  c_mie :: u64

definition bus_read :: "'d bus \<Rightarrow> nat \<Rightarrow> u64 \<Rightarrow> 'd plat \<Rightarrow> u64 \<times> 'd plat" where
  "bus_read B n a s = (let (v, d) = rd B n a (dev s) in (v, s\<lparr>dev := d\<rparr>))"

definition bus_write :: "'d bus \<Rightarrow> nat \<Rightarrow> u64 \<Rightarrow> u64 \<Rightarrow> 'd plat \<Rightarrow> 'd plat" where
  "bus_write B n a v s = s\<lparr>dev := wr B n a v (dev s)\<rparr>"

definition HLS :: "'d plat \<Rightarrow> hls_t" where "HLS s = hlss s (mhartid s)"

subsection \<open>Serial ports\<close>

partial_function (option) uart_putchar :: "'d bus \<Rightarrow> u8 \<Rightarrow> 'd plat \<Rightarrow> 'd plat option" where
  "uart_putchar B ch s =
     (let (r, d) = amoor_w B (uart s) (ucast ch) (dev s);
          s1 = s\<lparr>dev := d\<rparr>
      in if sint r < 0 then uart_putchar B ch s1 else Some s1)"

definition uart_getchar :: "'d bus \<Rightarrow> 'd plat \<Rightarrow> u32 \<times> 'd plat" where
  "uart_getchar B s =
     (let (v, s1) = bus_read B 4 (uart s + 4) s; ch = (ucast v :: u32)
      in if sint ch < 0 then (- 1, s1) else (ch, s1))"

definition reg16550 :: "u64 \<Rightarrow> 'd plat \<Rightarrow> u64" where
  "reg16550 r s = uart16550 s + push_bit (unat (uart16550_reg_shift s)) r"

partial_function (option) uart16550_putchar :: "'d bus \<Rightarrow> u8 \<Rightarrow> 'd plat \<Rightarrow> 'd plat option" where
  "uart16550_putchar B ch s =
     (let (v, s1) = bus_read B 1 (reg16550 5 s) s
      in if v AND 0x20 = 0 then uart16550_putchar B ch s1
         else Some (bus_write B 1 (reg16550 0 s1) (ucast ch) s1))"

definition uart16550_getchar :: "'d bus \<Rightarrow> 'd plat \<Rightarrow> u32 \<times> 'd plat" where
  "uart16550_getchar B s =
     (let (v, s1) = bus_read B 1 (reg16550 5 s) s
      in if v AND 1 \<noteq> 0 then (let (c, s2) = bus_read B 1 (reg16550 0 s1) s1 in (ucast (ucast c :: u8), s2))
         else (- 1, s1))"

subsection \<open>The host interface\<close>

definition TOHOST_CMD :: "u64 \<Rightarrow> u64 \<Rightarrow> u64 \<Rightarrow> u64" where
  "TOHOST_CMD dv cmd payload = push_bit 56 dv OR push_bit 48 cmd OR payload"

definition FROMHOST_DEV :: "u64 \<Rightarrow> u64" where "FROMHOST_DEV v = drop_bit 56 v"
definition FROMHOST_CMD :: "u64 \<Rightarrow> u64" where "FROMHOST_CMD v = drop_bit 56 (push_bit 8 v)"
definition FROMHOST_DATA :: "u64 \<Rightarrow> u64" where "FROMHOST_DATA v = drop_bit 16 (push_bit 16 v)"

definition check_fromhost :: "'d bus \<Rightarrow> 'd plat \<Rightarrow> 'd plat option" where
  "check_fromhost B s =
     (let (fh, s1) = bus_read B 8 (fromhost B) s in
      if fh = 0 then Some s1
      else
        let s2 = bus_write B 8 (fromhost B) 0 s1 in
        if FROMHOST_DEV fh \<noteq> 1 then None
        else if FROMHOST_CMD fh = 0 then
          Some (s2\<lparr>htif_console_buf := 1 + ucast (ucast (FROMHOST_DATA fh) :: u8)\<rparr>)
        else if FROMHOST_CMD fh = 1 then Some s2
        else None)"

partial_function (option) set_tohost :: "'d bus \<Rightarrow> u64 \<Rightarrow> u64 \<Rightarrow> u64 \<Rightarrow> 'd plat \<Rightarrow> 'd plat option" where
  "set_tohost B dv cmd payload s =
     (let (th, s1) = bus_read B 8 (tohost B) s
      in if th \<noteq> 0 then check_fromhost B s1 \<bind> set_tohost B dv cmd payload
         else Some (bus_write B 8 (tohost B) (TOHOST_CMD dv cmd payload) s1))"

definition htif_console_getchar :: "'d bus \<Rightarrow> 'd plat \<Rightarrow> (u32 \<times> 'd plat) option" where
  "htif_console_getchar B s =
     do {
       s1 \<leftarrow> check_fromhost B s;
       let ch = htif_console_buf s1;
       s2 \<leftarrow> (if sint ch \<ge> 0 then set_tohost B 1 0 0 (s1\<lparr>htif_console_buf := - 1\<rparr>) else Some s1);
       Some (ch - 1, s2)
     }"

text \<open>Waiting for the answer to the request that was sent.\<close>

partial_function (option) await_fromhost :: "'d bus \<Rightarrow> u64 \<Rightarrow> u64 \<Rightarrow> 'd plat \<Rightarrow> 'd plat option" where
  "await_fromhost B dv cmd s =
     (let (fh, s1) = bus_read B 8 (fromhost B) s
      in if fh = 0 then await_fromhost B dv cmd s1
         else if FROMHOST_DEV fh = dv \<and> FROMHOST_CMD fh = cmd
           then Some (bus_write B 8 (fromhost B) 0 s1)
         else check_fromhost B s1 \<bind> await_fromhost B dv cmd)"

definition do_tohost_fromhost :: "'d bus \<Rightarrow> u64 \<Rightarrow> u64 \<Rightarrow> u64 \<Rightarrow> 'd plat \<Rightarrow> 'd plat option" where
  "do_tohost_fromhost B dv cmd payload s =
     set_tohost B dv cmd payload s \<bind> await_fromhost B dv cmd"

definition htif_syscall :: "'d bus \<Rightarrow> u64 \<Rightarrow> 'd plat \<Rightarrow> 'd plat option" where
  "htif_syscall B arg = do_tohost_fromhost B 0 0 arg"

definition htif_console_putchar :: "'d bus \<Rightarrow> u8 \<Rightarrow> 'd plat \<Rightarrow> 'd plat option" where
  "htif_console_putchar B ch = set_tohost B 1 1 (ucast ch)"

text \<open>One round of the endless loop of \<^verbatim>\<open>htif_poweroff\<close>.\<close>

definition htif_poweroff :: "'d bus \<Rightarrow> 'd plat \<Rightarrow> 'd plat" where
  "htif_poweroff B s = bus_write B 8 (tohost B) 1 (bus_write B 8 (fromhost B) 0 s)"

subsection \<open>The console\<close>

definition mcall_console_putchar :: "'d bus \<Rightarrow> u8 \<Rightarrow> 'd plat \<Rightarrow> 'd plat option" where
  "mcall_console_putchar B ch s =
     (if uart s \<noteq> 0 then uart_putchar B ch s
      else if uart16550 s \<noteq> 0 then uart16550_putchar B ch s
      else if htif s \<noteq> 0 then htif_console_putchar B ch s
      else Some s)"

definition mcall_console_getchar :: "'d bus \<Rightarrow> 'd plat \<Rightarrow> (u32 \<times> 'd plat) option" where
  "mcall_console_getchar B s =
     (if uart s \<noteq> 0 then Some (uart_getchar B s)
      else if uart16550 s \<noteq> 0 then Some (uart16550_getchar B s)
      else if htif s \<noteq> 0 then htif_console_getchar B s
      else Some (0, s))"

partial_function (option) putstring :: "'d bus \<Rightarrow> u64 \<Rightarrow> 'd plat \<Rightarrow> 'd plat option" where
  "putstring B p s =
     (if pmem s p \<noteq> 0 then mcall_console_putchar B (pmem s p) s \<bind> putstring B (p + 1) else Some s)"

definition vprintm :: "'d bus \<Rightarrow> u8 list \<Rightarrow> va list \<Rightarrow> 'd plat \<Rightarrow> 'd plat option" where
  "vprintm B fmt vl s =
     do {
       (r, m) \<leftarrow> vsnprintf (printm_buf s) 256 fmt vl (pmem s);
       putstring B (printm_buf s) (s\<lparr>pmem := m\<rparr>)
     }"

abbreviation printm :: "'d bus \<Rightarrow> u8 list \<Rightarrow> va list \<Rightarrow> 'd plat \<Rightarrow> 'd plat option" where
  "printm \<equiv> vprintm"

subsection \<open>Interrupts between harts\<close>

abbreviation IPI_SOFT :: u32 where "IPI_SOFT \<equiv> 1"
abbreviation IPI_FENCE_I :: u32 where "IPI_FENCE_I \<equiv> 2"
abbreviation IPI_SFENCE_VMA :: u32 where "IPI_SFENCE_VMA \<equiv> 4"
abbreviation IPI_HALT :: u32 where "IPI_HALT \<equiv> 8"

definition send_ipi :: "'d bus \<Rightarrow> u32 \<Rightarrow> nat \<Rightarrow> 'd plat \<Rightarrow> 'd plat" where
  "send_ipi B event recipient s =
     (if bit (disabled_hart_mask s) recipient then s
      else
        let h = hlss s recipient;
            s1 = s\<lparr>hlss := (hlss s)(recipient := h\<lparr>mipi_pending := mipi_pending h OR event\<rparr>)\<rparr>
        in bus_write B 4 (ipi h) 1 s1)"

text \<open>\<^verbatim>\<open>for (i = 0, m = mask; m; i++, m >>= 1) if (m & 1) ...\<close>\<close>

function for_mask :: "(nat \<Rightarrow> 's \<Rightarrow> 's option) \<Rightarrow> nat \<Rightarrow> u64 \<Rightarrow> 's \<Rightarrow> 's option" where
  "for_mask f i m s =
     (if m = 0 then Some s
      else do {
        s1 \<leftarrow> (if bit m 0 then f i s else Some s);
        for_mask f (i + 1) (drop_bit 1 m) s1
      })"
  by pat_completeness auto
termination
proof (relation "measure (\<lambda>(f, i, m, s). unat m)", goal_cases)
  case 2
  have "unat (drop_bit 1 w) < unat w" if "w \<noteq> 0" for w :: u64
  proof -
    have "0 < unat w" using that by (simp add: unat_gt_0)
    then show ?thesis by (subst unat_drop_bit_eq) (simp add: drop_bit_eq_div)
  qed
  from this [OF 2(1)] show ?case by simp
qed simp

declare for_mask.simps [simp del]

text \<open>Waiting for hart \<open>i\<close>, taking the interrupts that come in meanwhile.\<close>

partial_function (option) await_ipi ::
  "'d bus \<Rightarrow> nat \<Rightarrow> u32 \<times> 'd plat \<Rightarrow> (u32 \<times> 'd plat) option" where
  "await_ipi B i st =
     (let (v, s1) = bus_read B 4 (ipi (hlss (snd st) i)) (snd st)
      in if v \<noteq> 0 then
           (let (w, d) = amoswap_w B (ipi (HLS s1)) 0 (dev s1)
            in await_ipi B i (fst st OR w, s1\<lparr>dev := d\<rparr>))
         else Some (fst st, s1))"

definition send_ipi_mask :: "'d bus \<Rightarrow> u64 \<Rightarrow> u32 \<Rightarrow> 'd plat \<Rightarrow> 'd plat option" where
  "send_ipi_mask B harts event s =
     do {
       s1 \<leftarrow> for_mask (\<lambda>i s. Some (send_ipi B event i s)) 0 harts s;
       (if event = IPI_SOFT then Some s1
        else do {
          (incoming_ipi, s2) \<leftarrow> for_mask (await_ipi B) 0 harts (0, s1);
          Some (if incoming_ipi \<noteq> 0 then bus_write B 4 (ipi (HLS s2)) (ucast incoming_ipi) s2 else s2)
        })
     }"

text \<open>
  The mask is read from the caller's memory; a fault there ends the handler with the trap
  redirected (\<^theory_text>\<open>Inl\<close>).
\<close>

definition send_ipi_many :: "access_env \<Rightarrow> 'd bus \<Rightarrow> u64 \<Rightarrow> u32 \<Rightarrow> 'd plat \<Rightarrow> ('d plat + 'd plat) option" where
  "send_ipi_many E B pmask event s =
     (if pmask = 0 then map_option Inr (send_ipi_mask B (hart_mask s) event s)
      else if load_fault E pmask = 0 then
        map_option Inr (send_ipi_mask B (hart_mask s AND load_le 8 (umem (cpu s)) pmask) event s)
      else
        map_option (\<lambda>c. Inl (s\<lparr>cpu := c\<rparr>))
          (access_trap MSTATUS_MPRV (load_fault E pmask) pmask (c_mepc (cpu s)) (cpu s)))"

subsection \<open>Power\<close>

definition finisher_exit :: "'d bus \<Rightarrow> u16 \<Rightarrow> 'd plat \<Rightarrow> 'd plat" where
  "finisher_exit B code s =
     (if finisher s = 0 then s
      else if code = 0 then bus_write B 4 (finisher s) 0x5555 s
      else bus_write B 4 (finisher s) (ucast (push_bit 16 (ucast code :: u32) OR 0x3333)) s)"

definition poweroff :: "access_env \<Rightarrow> 'd bus \<Rightarrow> u16 \<Rightarrow> 'd plat \<Rightarrow> 'd plat option" where
  "poweroff E B code s =
     (let s1 = finisher_exit B code s in
      if htif s1 \<noteq> 0 then Some (htif_poweroff B s1)
      else map_option (case_sum id id) (send_ipi_many E B 0 IPI_HALT s1))"

subsection \<open>Calls from the supervisor\<close>

abbreviation MIP_SSIP :: u64 where "MIP_SSIP \<equiv> 2"
abbreviation MIP_STIP :: u64 where "MIP_STIP \<equiv> 0x20"
abbreviation MIP_MTIP :: u64 where "MIP_MTIP \<equiv> 0x80"
abbreviation MIP_MSIP :: u64 where "MIP_MSIP \<equiv> 8"
abbreviation MIP_SEIP :: u64 where "MIP_SEIP \<equiv> 0x200"
abbreviation SBI_ENOSYS :: u64 where "SBI_ENOSYS \<equiv> 38"

definition mcall_clear_ipi :: "'d plat \<Rightarrow> u64 \<times> 'd plat" where
  "mcall_clear_ipi s = (c_mip s AND MIP_SSIP, s\<lparr>c_mip := c_mip s AND NOT MIP_SSIP\<rparr>)"

definition mcall_set_timer :: "'d bus \<Rightarrow> u64 \<Rightarrow> 'd plat \<Rightarrow> u64 \<times> 'd plat" where
  "mcall_set_timer B when s =
     (let s1 = bus_write B 8 (timecmp (HLS s)) when s
      in (0, s1\<lparr>c_mip := c_mip s1 AND NOT MIP_STIP, c_mie := c_mie s1 OR MIP_MTIP\<rparr>))"

definition mcall_shutdown :: "access_env \<Rightarrow> 'd bus \<Rightarrow> 'd plat \<Rightarrow> 'd plat option" where
  "mcall_shutdown E B s = poweroff E B 0 s"

text \<open>\<^verbatim>\<open>regs[10] = retval\<close>\<close>

definition set_retval :: "u64 \<times> 'd plat \<Rightarrow> 'd plat" where
  "set_retval = (\<lambda>(r, s). s\<lparr>cpu := (cpu s)\<lparr>xr := (xr (cpu s))(10 := r)\<rparr>\<rparr>)"

definition sbi_ipi :: "access_env \<Rightarrow> 'd bus \<Rightarrow> u64 \<Rightarrow> u32 \<Rightarrow> 'd plat \<Rightarrow> ('d plat + 'd plat) option" where
  "sbi_ipi E B pmask event s =
     map_option (case_sum Inr (\<lambda>s1. Inr (set_retval (0, s1)))) (send_ipi_many E B pmask event s)"

definition mcall_trap :: "access_env \<Rightarrow> 'd bus \<Rightarrow> u64 \<Rightarrow> u64 \<Rightarrow> 'd plat \<Rightarrow> ('d plat + 'd plat) option" where
  "mcall_trap E B mcause mepc s0 =
     (let s = s0\<lparr>cpu := (cpu s0)\<lparr>c_mepc := mepc + 4\<rparr>\<rparr>;
          n = xr (cpu s) 17;
          arg0 = xr (cpu s) 10
      in if n = 1 then
           map_option (\<lambda>s1. Inr (set_retval (0, s1))) (mcall_console_putchar B (ucast arg0) s)
         else if n = 2 then
           map_option (\<lambda>(c, s1). Inr (set_retval (scast c, s1))) (mcall_console_getchar B s)
         else if n = 4 then sbi_ipi E B arg0 IPI_SOFT s
         else if n = 6 \<or> n = 7 then sbi_ipi E B arg0 IPI_SFENCE_VMA s
         else if n = 5 then sbi_ipi E B arg0 IPI_FENCE_I s
         else if n = 3 then Some (Inr (set_retval (mcall_clear_ipi s)))
         else if n = 8 then map_option Inl (mcall_shutdown E B s)
         else if n = 0 then Some (Inr (set_retval (mcall_set_timer B arg0 s)))
         else Some (Inr (set_retval (- SBI_ENOSYS, s))))"

end
