(* ===== verification/Fdt.thy ===== *)
theory Fdt
  imports Platform
begin

text \<open>
  The flattened device tree, \<^verbatim>\<open>riscv-pk/machine/fdt.c\<close>: the scanner and the scans that find
  memory, harts, timer and interrupt controllers, and filter the tree for the supervisor.

  A node on the C stack of the scanner is the list of the frames from it to the root, so that
  \<^verbatim>\<open>node->parent\<close> is its tail and \<^verbatim>\<open>NULL\<close> the empty list; a pointer to a node that is kept in
  the state of a scan is its depth, the frames of a depth being one and the same variable.
  The words of the tree are read from the memory of the machine (\<^theory_text>\<open>pmem\<close>).  There is no
  value where an assertion fails, the scan never ends or a null pointer is dereferenced.
\<close>

definition bswap :: "u32 \<Rightarrow> u32" where
  "bswap x =
     (let y = push_bit 8 (x AND 0x00FF00FF) OR drop_bit 8 (x AND 0xFF00FF00)
      in push_bit 16 (y AND 0x0000FFFF) OR drop_bit 16 (y AND 0xFFFF0000))"

text \<open>\<^verbatim>\<open>bswap(lex[i])\<close>\<close>

definition fdt_word :: "mem \<Rightarrow> u64 \<Rightarrow> nat \<Rightarrow> u32" where
  "fdt_word m lx i = bswap (ucast (load_le 4 m (lx + 4 * of_nat i)))"

record fdt_frame =
  name :: u64
  address_cells :: u32
  size_cells :: u32

type_synonym fdt_node = "fdt_frame list"

record fdt_scan_prop =
  prop_node :: fdt_node
  prop_name :: u64
  prop_value :: u64
  prop_len :: u32

type_synonym ('d, 'e) scan_state = "'d plat \<times> 'e"

record ('d, 'e) fdt_cb =
  cb_open :: "(fdt_node \<Rightarrow> ('d, 'e) scan_state \<Rightarrow> ('d, 'e) scan_state option) option"
  cb_prop :: "fdt_scan_prop \<Rightarrow> ('d, 'e) scan_state \<Rightarrow> ('d, 'e) scan_state option"
  cb_done :: "(fdt_node \<Rightarrow> ('d, 'e) scan_state \<Rightarrow> ('d, 'e) scan_state option) option"
  cb_close :: "(fdt_node \<Rightarrow> ('d, 'e) scan_state \<Rightarrow> (bool \<times> ('d, 'e) scan_state) option) option"

abbreviation FDT_BEGIN_NODE :: u32 where "FDT_BEGIN_NODE \<equiv> 1"
abbreviation FDT_END_NODE :: u32 where "FDT_END_NODE \<equiv> 2"
abbreviation FDT_PROP :: u32 where "FDT_PROP \<equiv> 3"
abbreviation FDT_NOP :: u32 where "FDT_NOP \<equiv> 4"

subsection \<open>The scanner\<close>

text \<open>\<^verbatim>\<open>while (lex != lex_next) *lex++ = bswap(FDT_NOP)\<close>\<close>

partial_function (option) nop_fill :: "u64 \<Rightarrow> u64 \<Rightarrow> mem \<Rightarrow> mem option" where
  "nop_fill lx lx_next m =
     (if lx \<noteq> lx_next
      then nop_fill (lx + 4) lx_next (store_le 4 m lx (ucast (bswap FDT_NOP)))
      else Some m)"

text \<open>\<^verbatim>\<open>if (!last && node && cb->done) cb->done(node, cb->extra)\<close>\<close>

definition call_done ::
  "('d, 'e) fdt_cb \<Rightarrow> bool \<Rightarrow> fdt_node \<Rightarrow> ('d, 'e) scan_state \<Rightarrow> ('d, 'e) scan_state option" where
  "call_done cb seen node st =
     (if \<not> seen \<and> node \<noteq> [] then (case cb_done cb of None \<Rightarrow> Some st | Some f \<Rightarrow> f node st)
      else Some st)"

text \<open>The two properties that the scanner itself notes in the node.\<close>

definition note_cells :: "mem \<Rightarrow> u64 \<Rightarrow> u64 \<Rightarrow> fdt_node \<Rightarrow> fdt_node" where
  "note_cells m lx pname node =
     (case node of [] \<Rightarrow> []
      | f # up \<Rightarrow>
          let f1 = (if cstring m pname (lit ''#address-cells'')
                    then f\<lparr>address_cells := fdt_word m lx 3\<rparr> else f);
              f2 = (if cstring m pname (lit ''#size-cells'')
                    then f1\<lparr>size_cells := fdt_word m lx 3\<rparr> else f1)
          in f2 # up)"

definition new_child :: fdt_frame where
  "new_child = \<lparr>name = 0, address_cells = 2, size_cells = 1\<rparr>"

definition after_prop :: "u64 \<Rightarrow> u32 \<Rightarrow> u64" where
  "after_prop lx len = lx + 4 * word_of_int (3 + cdiv (sint (len + 3)) 4)"

partial_function (option) fdt_scan_helper ::
  "('d, 'e) fdt_cb \<Rightarrow> u64 \<Rightarrow> u64 \<Rightarrow> fdt_node \<Rightarrow> fdt_frame \<Rightarrow> bool \<Rightarrow> ('d, 'e) scan_state
    \<Rightarrow> (u64 \<times> fdt_node \<times> ('d, 'e) scan_state) option" where
  "fdt_scan_helper cb strings lx node child seen st =
     (let m = pmem (fst st); tok = fdt_word m lx 0 in
      if tok = FDT_NOP then fdt_scan_helper cb strings (lx + 4) node child seen st
      else if tok = FDT_PROP then
        if seen then None
        else
          let pname = strings + ucast (fdt_word m lx 2);
              len = fdt_word m lx 1;
              node2 = note_cells m lx pname node
          in do {
            st1 \<leftarrow> cb_prop cb \<lparr>prop_node = node2, prop_name = pname, prop_value = lx + 12, prop_len = len\<rparr> st;
            fdt_scan_helper cb strings (after_prop lx len) node2 child seen st1
          }
      else if tok = FDT_BEGIN_NODE then
        do {
          st1 \<leftarrow> call_done cb seen node st;
          let child1 = child\<lparr>name := lx + 4\<rparr>;
          st2 \<leftarrow> (case cb_open cb of None \<Rightarrow> Some st1 | Some f \<Rightarrow> f (child1 # node) st1);
          k \<leftarrow> strlen (pmem (fst st2)) (lx + 4);
          (lx_next, child_node, st3) \<leftarrow>
            fdt_scan_helper cb strings (lx + 4 * (2 + k div 4)) (child1 # node) new_child False st2;
          (kill, st4) \<leftarrow>
            (case cb_close cb of None \<Rightarrow> Some (False, st3) | Some f \<Rightarrow> f child_node st3);
          st5 \<leftarrow>
            (if kill then do {
               m5 \<leftarrow> nop_fill lx lx_next (pmem (fst st4));
               Some ((fst st4)\<lparr>pmem := m5\<rparr>, snd st4)
             } else Some st4);
          fdt_scan_helper cb strings lx_next node (hd child_node) True st5
        }
      else
        do {
          st1 \<leftarrow> call_done cb seen node st;
          Some (if tok = FDT_END_NODE then lx + 4 else lx, node, st1)
        })"

definition fdt_known :: "mem \<Rightarrow> u64 \<Rightarrow> bool" where
  "fdt_known m fdt \<longleftrightarrow> fdt_word m fdt 0 = 0xD00DFEED \<and> fdt_word m fdt 6 \<le> 17"

definition fdt_scan :: "u64 \<Rightarrow> ('d, 'e) fdt_cb \<Rightarrow> ('d, 'e) scan_state \<Rightarrow> ('d, 'e) scan_state option" where
  "fdt_scan fdt cb st =
     (let m = pmem (fst st) in
      if \<not> fdt_known m fdt then Some st
      else do {
        let strings = fdt + ucast (fdt_word m fdt 3);
        let lx = fdt + ucast (fdt_word m fdt 2);
        (lex2, node, st1) \<leftarrow> fdt_scan_helper cb strings lx [] new_child False st;
        Some st1
      })"

definition fdt_size :: "mem \<Rightarrow> u64 \<Rightarrow> u32" where
  "fdt_size m fdt = (if \<not> fdt_known m fdt then 0 else fdt_word m fdt 1)"

subsection \<open>Fields\<close>

primrec read_cells :: "mem \<Rightarrow> nat \<Rightarrow> u64 \<Rightarrow> u64 \<Rightarrow> u64 \<times> u64" where
  "read_cells m 0 value result = (value, result)"
| "read_cells m (Suc n) value result =
     read_cells m n (value + 4) (push_bit 32 result + ucast (fdt_word m value 0))"

text \<open>The place after the field, and the number; no value for the parent of a root.\<close>

definition fdt_get_address :: "fdt_node \<Rightarrow> mem \<Rightarrow> u64 \<Rightarrow> (u64 \<times> u64) option" where
  "fdt_get_address node m value =
     (case node of [] \<Rightarrow> None | f # _ \<Rightarrow> Some (read_cells m (nat (sint (address_cells f))) value 0))"

definition fdt_get_size :: "fdt_node \<Rightarrow> mem \<Rightarrow> u64 \<Rightarrow> (u64 \<times> u64) option" where
  "fdt_get_size node m value =
     (case node of [] \<Rightarrow> None | f # _ \<Rightarrow> Some (read_cells m (nat (sint (size_cells f))) value 0))"

definition fdt_get_value :: "fdt_scan_prop \<Rightarrow> mem \<Rightarrow> nat \<Rightarrow> u32" where
  "fdt_get_value p m index = fdt_word m (prop_value p) index"

partial_function (option) string_list_loop :: "mem \<Rightarrow> u64 \<Rightarrow> u8 list \<Rightarrow> u64 \<Rightarrow> int \<Rightarrow> int option" where
  "string_list_loop m end_at str list index =
     (if sint (end_at - list) > 0 then
        if cstring m list str then Some index
        else do {
          k \<leftarrow> strlen m list;
          string_list_loop m end_at str (list + k + 1) (index + 1)
        }
      else Some (- 1))"

definition fdt_string_list_index :: "mem \<Rightarrow> fdt_scan_prop \<Rightarrow> u8 list \<Rightarrow> int option" where
  "fdt_string_list_index m p str =
     string_list_loop m (prop_value p + scast (prop_len p)) str (prop_value p) 0"

text \<open>Whether the property has the given name, and whether its value is the given string.\<close>

definition prop_is :: "fdt_scan_prop \<Rightarrow> string \<Rightarrow> ('d, 'e) scan_state \<Rightarrow> bool" where
  "prop_is p s st = cstring (pmem (fst st)) (prop_name p) (lit s)"

definition value_is :: "fdt_scan_prop \<Rightarrow> string \<Rightarrow> ('d, 'e) scan_state \<Rightarrow> bool" where
  "value_is p s st = cstring (pmem (fst st)) (prop_value p) (lit s)"

text \<open>\<^verbatim>\<open>fdt_get_address(prop->node->parent, prop->value, &reg)\<close>\<close>

definition prop_address :: "fdt_scan_prop \<Rightarrow> ('d, 'e) scan_state \<Rightarrow> u64 option" where
  "prop_address p st =
     (if prop_node p = [] then None
      else map_option snd (fdt_get_address (tl (prop_node p)) (pmem (fst st)) (prop_value p)))"

subsection \<open>Memory\<close>

record mem_scan =
  mem_memory :: bool
  mem_reg_value :: u64
  mem_reg_len :: u32

definition mem_open :: "fdt_node \<Rightarrow> ('d, mem_scan) scan_state \<Rightarrow> ('d, mem_scan) scan_state option" where
  "mem_open node st = Some (fst st, \<lparr>mem_memory = False, mem_reg_value = 0, mem_reg_len = 0\<rparr>)"

definition mem_prop :: "fdt_scan_prop \<Rightarrow> ('d, mem_scan) scan_state \<Rightarrow> ('d, mem_scan) scan_state option" where
  "mem_prop p st =
     (if prop_is p ''device_type'' st \<and> value_is p ''memory'' st
      then Some (fst st, (snd st)\<lparr>mem_memory := True\<rparr>)
      else if prop_is p ''reg'' st
      then Some (fst st, (snd st)\<lparr>mem_reg_value := prop_value p, mem_reg_len := prop_len p\<rparr>)
      else Some st)"

text \<open>\<open>self\<close> is the address of \<^verbatim>\<open>mem_done\<close> itself.\<close>

partial_function (option) mem_regions ::
  "u64 \<Rightarrow> fdt_node \<Rightarrow> u64 \<Rightarrow> u64 \<Rightarrow> 'd plat \<Rightarrow> (u64 \<times> 'd plat) option" where
  "mem_regions self parent end_at value s =
     (if sint (end_at - value) > 0 then
        do {
          (v1, base) \<leftarrow> fdt_get_address parent (pmem s) value;
          (v2, size) \<leftarrow> fdt_get_size parent (pmem s) v1;
          mem_regions self parent end_at v2
            (if base \<le> self \<and> self \<le> base + size then s\<lparr>machine_mem_size := size\<rparr> else s)
        }
      else Some (value, s))"

definition mem_done :: "u64 \<Rightarrow> fdt_node \<Rightarrow> ('d, mem_scan) scan_state \<Rightarrow> ('d, mem_scan) scan_state option" where
  "mem_done self node st =
     (let value = mem_reg_value (snd st);
          end_at = value + 4 * word_of_int (cdiv (sint (mem_reg_len (snd st))) 4)
      in if \<not> mem_memory (snd st) then Some st
         else if \<not> (value \<noteq> 0 \<and> crem (sint (mem_reg_len (snd st))) 4 = 0) then None
         else do {
           (v, s) \<leftarrow> mem_regions self (tl node) end_at value (fst st);
           (if v \<noteq> end_at then None else Some (s, snd st))
         })"

definition query_mem :: "u64 \<Rightarrow> u64 \<Rightarrow> 'd plat \<Rightarrow> 'd plat option" where
  "query_mem self fdt s =
     do {
       (s1, scan) \<leftarrow> fdt_scan fdt
         \<lparr>cb_open = Some mem_open, cb_prop = mem_prop, cb_done = Some (mem_done self), cb_close = None\<rparr>
         (s\<lparr>machine_mem_size := 0\<rparr>, \<lparr>mem_memory = False, mem_reg_value = 0, mem_reg_len = 0\<rparr>);
       (if machine_mem_size s1 > 0 then Some s1 else None)
     }"

end
