(* ===== verification/FdtQueries.thy ===== *)
theory FdtQueries
  imports Fdt
begin

text \<open>
  The scans of the device tree: harts, timer and interrupt controllers, the preloaded kernel,
  and the filters, all of \<^verbatim>\<open>fdt.c\<close>; the consoles, the host interface and the power button
  (\<^verbatim>\<open>uart.c\<close>, \<^verbatim>\<open>uart16550.c\<close>, \<^verbatim>\<open>htif.c\<close>, \<^verbatim>\<open>finisher.c\<close>).  A scan keeps its C struct as a
  record.
\<close>

type_synonym ('d, 'e) node_cb = "fdt_node \<Rightarrow> ('d, 'e) scan_state \<Rightarrow> ('d, 'e) scan_state option"
type_synonym ('d, 'e) prop_cb = "fdt_scan_prop \<Rightarrow> ('d, 'e) scan_state \<Rightarrow> ('d, 'e) scan_state option"
type_synonym ('d, 'e) close_cb = "fdt_node \<Rightarrow> ('d, 'e) scan_state \<Rightarrow> (bool \<times> ('d, 'e) scan_state) option"

subsection \<open>Harts\<close>

text \<open>\<open>cpu_at\<close> and \<open>controller_at\<close> are the depths of the nodes, 0 for \<^verbatim>\<open>NULL\<close>.\<close>

record hart_scan =
  cpu_at :: nat
  scan_hart :: u32
  controller_at :: nat
  scan_cells :: u32
  scan_phandle :: u32

definition hart_open :: "('d, hart_scan) node_cb" where
  "hart_open node st =
     (let sc = snd st;
          sc1 = (if cpu_at sc = 0 then sc\<lparr>scan_hart := - 1\<rparr> else sc);
          sc2 = (if controller_at sc = 0 then sc1\<lparr>scan_cells := 0, scan_phandle := 0\<rparr> else sc1)
      in Some (fst st, sc2))"

definition hart_prop :: "('d, hart_scan) prop_cb" where
  "hart_prop p st =
     (let s = fst st; sc = snd st; v = fdt_word (pmem s) (prop_value p) 0 in
      if prop_is p ''device_type'' st \<and> value_is p ''cpu'' st then
        if cpu_at sc \<noteq> 0 then None else Some (s, sc\<lparr>cpu_at := length (prop_node p)\<rparr>)
      else if prop_is p ''interrupt-controller'' st then
        if controller_at sc \<noteq> 0 then None else Some (s, sc\<lparr>controller_at := length (prop_node p)\<rparr>)
      else if prop_is p ''#interrupt-cells'' st then Some (s, sc\<lparr>scan_cells := v\<rparr>)
      else if prop_is p ''phandle'' st then Some (s, sc\<lparr>scan_phandle := v\<rparr>)
      else if prop_is p ''reg'' st then
        do { reg \<leftarrow> prop_address p st; Some (s, sc\<lparr>scan_hart := ucast reg\<rparr>) }
      else Some st)"

definition hls_zero :: hls_t where
  "hls_zero = \<lparr>ipi = 0, mipi_pending = 0, timecmp = 0, plic_m_thresh = 0, plic_m_ie = 0,
     plic_s_thresh = 0, plic_s_ie = 0\<rparr>"

definition hls_init :: "nat \<Rightarrow> 'd plat \<Rightarrow> 'd plat" where
  "hls_init i s = s\<lparr>hlss := (hlss s)(i := hls_zero)\<rparr>"

definition hart_done :: "('d, hart_scan) node_cb" where
  "hart_done node st =
     (let s = fst st; sc = snd st; here = length node in
      if cpu_at sc = here \<and> sint (scan_hart sc) < 0 then None
      else if controller_at sc = here \<and> cpu_at sc \<noteq> 0 then
        if scan_phandle sc = 0 \<or> scan_cells sc \<noteq> 1 then None
        else if sint (scan_hart sc) < int MAX_HARTS then
          let h = unat (scan_hart sc)
          in Some (hls_init h (s\<lparr>hart_phandles := (hart_phandles s)(h := scan_phandle sc),
                                hart_mask := hart_mask s OR push_bit h 1\<rparr>), sc)
        else Some st
      else Some st)"

definition hart_close :: "('d, hart_scan) close_cb" where
  "hart_close node st =
     (let sc = snd st; here = length node;
          sc1 = (if cpu_at sc = here then sc\<lparr>cpu_at := 0\<rparr> else sc);
          sc2 = (if controller_at sc1 = here then sc1\<lparr>controller_at := 0\<rparr> else sc1)
      in Some (False, (fst st, sc2)))"

definition query_harts :: "u64 \<Rightarrow> 'd plat \<Rightarrow> 'd plat option" where
  "query_harts fdt s =
     do {
       (s1, sc) \<leftarrow> fdt_scan fdt
         \<lparr>cb_open = Some hart_open, cb_prop = hart_prop, cb_done = Some hart_done, cb_close = Some hart_close\<rparr>
         (s, \<lparr>cpu_at = 0, scan_hart = 0, controller_at = 0, scan_cells = 0, scan_phandle = 0\<rparr>);
       (if drop_bit (mhartid s1) (hart_mask s1) \<noteq> 0 then Some s1 else None)
     }"

text \<open>The first hart with the given phandle.\<close>

definition find_hart :: "u32 \<Rightarrow> 'd plat \<Rightarrow> nat option" where
  "find_hart phandle s = List.find (\<lambda>h. hart_phandles s h = phandle) [0..<MAX_HARTS]"

subsection \<open>The timer\<close>

record clint_scan =
  clint_compat :: bool
  clint_reg :: u64
  clint_int_value :: u64
  clint_int_len :: u32
  clint_seen :: bool

definition clint_open :: "('d, clint_scan) node_cb" where
  "clint_open node st =
     Some (fst st, (snd st)\<lparr>clint_compat := False, clint_reg := 0, clint_int_value := 0\<rparr>)"

definition clint_prop :: "('d, clint_scan) prop_cb" where
  "clint_prop p st =
     (let s = fst st; sc = snd st in
      do {
        listed \<leftarrow> (if prop_is p ''compatible'' st
          then map_option (\<lambda>i. i \<ge> 0) (fdt_string_list_index (pmem s) p (lit ''riscv,clint0''))
          else Some False);
        (if listed then Some (s, sc\<lparr>clint_compat := True\<rparr>)
         else if prop_is p ''reg'' st then
           do { reg \<leftarrow> prop_address p st; Some (s, sc\<lparr>clint_reg := reg\<rparr>) }
         else if prop_is p ''interrupts-extended'' st then
           Some (s, sc\<lparr>clint_int_value := prop_value p, clint_int_len := prop_len p\<rparr>)
         else Some st)
      })"

partial_function (option) clint_wire :: "u64 \<Rightarrow> u64 \<Rightarrow> u64 \<Rightarrow> u64 \<Rightarrow> 'd plat \<Rightarrow> 'd plat option" where
  "clint_wire reg end_at value index s =
     (if sint (end_at - value) > 0 then
        clint_wire reg end_at (value + 16) (index + 1)
          (case find_hart (fdt_word (pmem s) value 0) s of
             None \<Rightarrow> s
           | Some h \<Rightarrow>
               s\<lparr>hlss := (hlss s)(h := (hlss s h)
                   \<lparr>ipi := reg + index * 4, timecmp := reg + 0x4000 + index * 8\<rparr>)\<rparr>)
      else Some s)"

definition words_end :: "u64 \<Rightarrow> u32 \<Rightarrow> u64" where
  "words_end value len = value + 4 * word_of_int (cdiv (sint len) 4)"

definition clint_done :: "('d, clint_scan) node_cb" where
  "clint_done node st =
     (let s = fst st; sc = snd st; value = clint_int_value sc in
      if \<not> clint_compat sc then Some st
      else if clint_reg sc = 0 \<or> value = 0 \<or> crem (sint (clint_int_len sc)) 16 \<noteq> 0 \<or> clint_seen sc then None
      else do {
        s1 \<leftarrow> clint_wire (clint_reg sc) (words_end value (clint_int_len sc)) value 0
          (s\<lparr>mtime_at := clint_reg sc + 0xBFF8\<rparr>);
        Some (s1, sc\<lparr>clint_seen := True\<rparr>)
      })"

definition query_clint :: "u64 \<Rightarrow> 'd plat \<Rightarrow> 'd plat option" where
  "query_clint fdt s =
     do {
       (s1, sc) \<leftarrow> fdt_scan fdt
         \<lparr>cb_open = Some clint_open, cb_prop = clint_prop, cb_done = Some clint_done, cb_close = None\<rparr>
         (s, \<lparr>clint_compat = False, clint_reg = 0, clint_int_value = 0, clint_int_len = 0, clint_seen = False\<rparr>);
       (if clint_seen sc then Some s1 else None)
     }"

subsection \<open>The interrupt controller\<close>

abbreviation IRQ_S_EXT :: u32 where "IRQ_S_EXT \<equiv> 9"
abbreviation IRQ_M_EXT :: u32 where "IRQ_M_EXT \<equiv> 11"

record plic_scan =
  plic_compat :: bool
  plic_reg :: u64
  plic_int_value :: u64
  plic_int_len :: u32
  plic_seen :: bool
  plic_ndev :: u32

definition plic_open :: "('d, plic_scan) node_cb" where
  "plic_open node st =
     Some (fst st, (snd st)\<lparr>plic_compat := False, plic_reg := 0, plic_int_value := 0\<rparr>)"

definition plic_prop :: "('d, plic_scan) prop_cb" where
  "plic_prop p st =
     (let s = fst st; sc = snd st in
      do {
        listed \<leftarrow> (if prop_is p ''compatible'' st
          then map_option (\<lambda>i. i \<ge> 0) (fdt_string_list_index (pmem s) p (lit ''riscv,plic0''))
          else Some False);
        (if listed then Some (s, sc\<lparr>plic_compat := True\<rparr>)
         else if prop_is p ''reg'' st then
           do { reg \<leftarrow> prop_address p st; Some (s, sc\<lparr>plic_reg := reg\<rparr>) }
         else if prop_is p ''interrupts-extended'' st then
           Some (s, sc\<lparr>plic_int_value := prop_value p, plic_int_len := prop_len p\<rparr>)
         else if prop_is p ''riscv,ndev'' st then
           Some (s, sc\<lparr>plic_ndev := fdt_word (pmem s) (prop_value p) 0\<rparr>)
         else Some st)
      })"

partial_function (option) plic_wire ::
  "'d bus \<Rightarrow> u64 \<Rightarrow> u64 \<Rightarrow> u64 \<Rightarrow> u64 \<Rightarrow> 'd plat \<Rightarrow> 'd plat option" where
  "plic_wire B reg end_at value index s =
     (if sint (end_at - value) > 0 then
        do {
          let cpu_int = fdt_word (pmem s) value 1;
          let ie = reg + 0x2000 + 0x80 * index;
          let thresh = reg + 0x200000 + 0x1000 * index;
          s1 \<leftarrow> (case find_hart (fdt_word (pmem s) value 0) s of
              None \<Rightarrow> Some s
            | Some h \<Rightarrow>
                if cpu_int = IRQ_M_EXT then
                  Some (s\<lparr>hlss := (hlss s)(h := (hlss s h)\<lparr>plic_m_ie := ie, plic_m_thresh := thresh\<rparr>)\<rparr>)
                else if cpu_int = IRQ_S_EXT then
                  Some (s\<lparr>hlss := (hlss s)(h := (hlss s h)\<lparr>plic_s_ie := ie, plic_s_thresh := thresh\<rparr>)\<rparr>)
                else printm B (lit ''PLIC wired hart %d to wrong interrupt %d'')
                  [VInt (of_nat h), VInt cpu_int] s);
          plic_wire B reg end_at (value + 8) (index + 1) s1
        }
      else Some s)"

definition plic_done :: "'d bus \<Rightarrow> ('d, plic_scan) node_cb" where
  "plic_done B node st =
     (let s = fst st; sc = snd st; value = plic_int_value sc in
      if \<not> plic_compat sc then Some st
      else if plic_reg sc = 0 \<or> value = 0 \<or> crem (sint (plic_int_len sc)) 8 \<noteq> 0 \<or>
        \<not> (0 \<le> sint (plic_ndev sc) \<and> sint (plic_ndev sc) < 1024) \<or> plic_seen sc then None
      else do {
        s1 \<leftarrow> plic_wire B (plic_reg sc) (words_end value (plic_int_len sc)) value 0
          (s\<lparr>plic_priorities := plic_reg sc, plic_ndevs := ucast (plic_ndev sc)\<rparr>);
        Some (s1, sc\<lparr>plic_seen := True\<rparr>)
      })"

text \<open>The initial value of the fields that C leaves uninitialised does not matter.\<close>

definition plic_scan0 :: plic_scan where
  "plic_scan0 = \<lparr>plic_compat = False, plic_reg = 0, plic_int_value = 0, plic_int_len = 0,
     plic_seen = False, plic_ndev = 0\<rparr>"

definition query_plic :: "'d bus \<Rightarrow> u64 \<Rightarrow> 'd plat \<Rightarrow> 'd plat option" where
  "query_plic B fdt s =
     map_option fst (fdt_scan fdt
       \<lparr>cb_open = Some plic_open, cb_prop = plic_prop, cb_done = Some (plic_done B), cb_close = None\<rparr>
       (s, plic_scan0))"

text \<open>\<^verbatim>\<open>if (bswap(value[1]) == IRQ_M_EXT) value[1] = bswap(-1)\<close>\<close>

partial_function (option) redact_words :: "u64 \<Rightarrow> u64 \<Rightarrow> mem \<Rightarrow> mem option" where
  "redact_words end_at value m =
     (if sint (end_at - value) > 0 then
        redact_words end_at (value + 8)
          (if fdt_word m value 1 = IRQ_M_EXT then store_le 4 m (value + 4) (ucast (bswap (- 1))) else m)
      else Some m)"

definition plic_redact :: "('d, plic_scan) node_cb" where
  "plic_redact node st =
     (let s = fst st; sc = snd st; value = plic_int_value sc in
      if \<not> plic_compat sc then Some st
      else do {
        m \<leftarrow> redact_words (words_end value (plic_int_len sc)) value (pmem s);
        Some (s\<lparr>pmem := m\<rparr>, sc\<lparr>plic_seen := True\<rparr>)
      })"

definition filter_plic :: "u64 \<Rightarrow> 'd plat \<Rightarrow> 'd plat option" where
  "filter_plic fdt s =
     map_option fst (fdt_scan fdt
       \<lparr>cb_open = Some plic_open, cb_prop = plic_prop, cb_done = Some plic_redact, cb_close = None\<rparr>
       (s, plic_scan0))"

subsection \<open>Deleting nodes\<close>

record compat_scan =
  scan_compat :: "u8 list"
  scan_depth :: int
  scan_kill :: int

definition compat_open :: "('d, compat_scan) node_cb" where
  "compat_open node st = Some (fst st, (snd st)\<lparr>scan_depth := scan_depth (snd st) + 1\<rparr>)"

definition compat_prop :: "('d, compat_scan) prop_cb" where
  "compat_prop p st =
     (let s = fst st; sc = snd st in
      do {
        listed \<leftarrow> (if prop_is p ''compatible'' st
          then map_option (\<lambda>i. i \<ge> 0) (fdt_string_list_index (pmem s) p (scan_compat sc))
          else Some False);
        Some (if listed \<and> scan_depth sc < scan_kill sc then (s, sc\<lparr>scan_kill := scan_depth sc\<rparr>) else st)
      })"

definition compat_close :: "('d, compat_scan) close_cb" where
  "compat_close node st =
     (let s = fst st; sc = snd st; sc1 = sc\<lparr>scan_depth := scan_depth sc - 1\<rparr> in
      if scan_kill sc = scan_depth sc then Some (True, (s, sc1\<lparr>scan_kill := 999\<rparr>))
      else Some (False, (s, sc1)))"

definition filter_compat :: "u64 \<Rightarrow> u8 list \<Rightarrow> 'd plat \<Rightarrow> 'd plat option" where
  "filter_compat fdt str s =
     map_option fst (fdt_scan fdt
       \<lparr>cb_open = Some compat_open, cb_prop = compat_prop, cb_done = None, cb_close = Some compat_close\<rparr>
       (s, \<lparr>scan_compat = str, scan_depth = 0, scan_kill = 999\<rparr>))"

subsection \<open>The preloaded kernel\<close>

record chosen_scan =
  chosen_at :: nat
  chosen_start :: u64
  chosen_end :: u64

definition chosen_open :: "('d, chosen_scan) node_cb" where
  "chosen_open node st =
     Some (if cstring (pmem (fst st)) (name (hd node)) (lit ''chosen'')
           then (fst st, (snd st)\<lparr>chosen_at := length node\<rparr>) else st)"

definition chosen_close :: "('d, chosen_scan) close_cb" where
  "chosen_close node st =
     Some (False, if chosen_at (snd st) \<noteq> 0 \<and> chosen_at (snd st) = length node
       then (fst st, (snd st)\<lparr>chosen_at := 0\<rparr>) else st)"

definition chosen_prop :: "('d, chosen_scan) prop_cb" where
  "chosen_prop p st =
     (if chosen_at (snd st) = 0 then Some st
      else if prop_is p ''riscv,kernel-start'' st then
        do { v \<leftarrow> prop_address p st; Some (fst st, (snd st)\<lparr>chosen_start := v\<rparr>) }
      else if prop_is p ''riscv,kernel-end'' st then
        do { v \<leftarrow> prop_address p st; Some (fst st, (snd st)\<lparr>chosen_end := v\<rparr>) }
      else Some st)"

definition query_chosen :: "u64 \<Rightarrow> 'd plat \<Rightarrow> 'd plat option" where
  "query_chosen fdt s =
     do {
       (s1, sc) \<leftarrow> fdt_scan fdt
         \<lparr>cb_open = Some chosen_open, cb_prop = chosen_prop, cb_done = None, cb_close = Some chosen_close\<rparr>
         (s, \<lparr>chosen_at = 0, chosen_start = 0, chosen_end = 0\<rparr>);
       Some (s1\<lparr>kernel_start := chosen_start sc, kernel_end := chosen_end sc\<rparr>)
     }"

subsection \<open>Hiding harts from the supervisor\<close>

record hart_filter =
  filter_compatible :: bool
  filter_hart :: u32
  filter_status :: u64
  filter_mmu_type :: u64

definition hart_filter_open :: "('d, hart_filter) node_cb" where
  "hart_filter_open node st =
     Some (fst st, \<lparr>filter_compatible = False, filter_hart = - 1, filter_status = 0, filter_mmu_type = 0\<rparr>)"

definition hart_filter_prop :: "('d, hart_filter) prop_cb" where
  "hart_filter_prop p st =
     (let s = fst st; f = snd st in
      if prop_is p ''device_type'' st \<and> value_is p ''cpu'' st then Some (s, f\<lparr>filter_compatible := True\<rparr>)
      else if prop_is p ''reg'' st then
        do { reg \<leftarrow> prop_address p st; Some (s, f\<lparr>filter_hart := ucast reg\<rparr>) }
      else if prop_is p ''status'' st then Some (s, f\<lparr>filter_status := prop_value p\<rparr>)
      else if prop_is p ''mmu-type'' st then Some (s, f\<lparr>filter_mmu_type := prop_value p\<rparr>)
      else Some st)"

text \<open>The arguments of the message are the strings themselves.\<close>

partial_function (option) string_at :: "mem \<Rightarrow> u64 \<Rightarrow> u8 list option" where
  "string_at m a =
     (if m a = 0 then Some [] else do { cs \<leftarrow> string_at m (a + 1); Some (m a # cs) })"

definition hart_filter_mask :: "'d bus \<Rightarrow> hart_filter \<Rightarrow> 'd plat \<Rightarrow> (bool \<times> 'd plat) option" where
  "hart_filter_mask B f s =
     (if filter_mmu_type f = 0 then Some (True, s)
      else if \<not> cstring (pmem s) (filter_status f) (lit ''okay'') then Some (True, s)
      else if cstring (pmem s) (filter_mmu_type f) (lit ''riscv,sv39'') then Some (False, s)
      else if cstring (pmem s) (filter_mmu_type f) (lit ''riscv,sv48'') then Some (False, s)
      else do {
        status \<leftarrow> string_at (pmem s) (filter_status f);
        mmu \<leftarrow> string_at (pmem s) (filter_mmu_type f);
        s1 \<leftarrow> printm B (lit ''hart_filter_mask saw unknown hart type: status='' @ [34] @ lit ''%s'' @ [34] @
          lit '', mmu_type='' @ [34] @ lit ''%s'' @ [34, 10]) [VStr status, VStr mmu] s;
        Some (True, s1)
      })"

text \<open>\<^verbatim>\<open>strcpy(p, literal)\<close>\<close>

primrec put_string :: "mem \<Rightarrow> u64 \<Rightarrow> u8 list \<Rightarrow> mem" where
  "put_string m a [] = m(a := 0)"
| "put_string m a (c # cs) = put_string (m(a := c)) (a + 1) cs"

definition hart_filter_done :: "'d bus \<Rightarrow> ('d, hart_filter) node_cb" where
  "hart_filter_done B node st =
     (let s = fst st; f = snd st in
      if \<not> filter_compatible f then Some st
      else if filter_status f = 0 \<or> sint (filter_hart f) < 0 then None
      else do {
        (hide, s1) \<leftarrow> hart_filter_mask B f s;
        (if \<not> hide then Some (s1, f)
         else if sint (filter_hart f) \<ge> 32 then None
         else
           let m1 = put_string (pmem s1) (filter_status f) (lit ''masked'');
               m2 = store_le 4 m1 (filter_status f - 8) (ucast (bswap 7));
               bits = (scast (push_bit (unat (filter_hart f)) 1 :: u32) :: u64)
           in Some (s1\<lparr>pmem := m2, disabled_hart_mask := disabled_hart_mask s1 OR bits\<rparr>, f))
      })"

definition filter_harts :: "'d bus \<Rightarrow> u64 \<Rightarrow> 'd plat \<Rightarrow> 'd plat option" where
  "filter_harts B fdt s =
     map_option fst (fdt_scan fdt
       \<lparr>cb_open = Some hart_filter_open, cb_prop = hart_filter_prop, cb_done = Some (hart_filter_done B),
        cb_close = None\<rparr>
       (s\<lparr>disabled_hart_mask := 0\<rparr>,
        \<lparr>filter_compatible = False, filter_hart = 0, filter_status = 0, filter_mmu_type = 0\<rparr>))"

subsection \<open>Consoles\<close>

record uart_scan =
  uart_compat :: bool
  uart_reg :: u64

definition uart_open :: "('d, uart_scan) node_cb" where
  "uart_open node st = Some (fst st, \<lparr>uart_compat = False, uart_reg = 0\<rparr>)"

definition uart_prop :: "('d, uart_scan) prop_cb" where
  "uart_prop p st =
     (if prop_is p ''compatible'' st \<and> value_is p ''sifive,uart0'' st
      then Some (fst st, (snd st)\<lparr>uart_compat := True\<rparr>)
      else if prop_is p ''reg'' st then
        do { reg \<leftarrow> prop_address p st; Some (fst st, (snd st)\<lparr>uart_reg := reg\<rparr>) }
      else Some st)"

definition uart_done :: "'d bus \<Rightarrow> ('d, uart_scan) node_cb" where
  "uart_done B node st =
     (let s = fst st; sc = snd st in
      if \<not> uart_compat sc \<or> uart_reg sc = 0 \<or> uart s \<noteq> 0 then Some st
      else
        let s1 = s\<lparr>uart := uart_reg sc\<rparr>
        in Some (bus_write B 4 (uart s1 + 12) 1 (bus_write B 4 (uart s1 + 8) 1 s1), sc))"

definition query_uart :: "'d bus \<Rightarrow> u64 \<Rightarrow> 'd plat \<Rightarrow> 'd plat option" where
  "query_uart B fdt s =
     map_option fst (fdt_scan fdt
       \<lparr>cb_open = Some uart_open, cb_prop = uart_prop, cb_done = Some (uart_done B), cb_close = None\<rparr>
       (s, \<lparr>uart_compat = False, uart_reg = 0\<rparr>))"

record uart16550_scan =
  ns_compat :: bool
  ns_reg :: u64
  ns_reg_offset :: u32
  ns_reg_shift :: u32
  ns_clock_freq :: u32

definition ns_scan0 :: uart16550_scan where
  "ns_scan0 = \<lparr>ns_compat = False, ns_reg = 0, ns_reg_offset = 0, ns_reg_shift = 0, ns_clock_freq = 0\<rparr>"

definition uart16550_open :: "('d, uart16550_scan) node_cb" where
  "uart16550_open node st = Some (fst st, ns_scan0)"

definition uart16550_prop :: "('d, uart16550_scan) prop_cb" where
  "uart16550_prop p st =
     (let s = fst st; sc = snd st in
      do {
        listed \<leftarrow> (if prop_is p ''compatible'' st
          then map_option (\<lambda>i. i \<noteq> - 1) (fdt_string_list_index (pmem s) p (lit ''ns16550a''))
          else Some False);
        (if listed then Some (s, sc\<lparr>ns_compat := True\<rparr>)
         else if prop_is p ''reg'' st then
           do { reg \<leftarrow> prop_address p st; Some (s, sc\<lparr>ns_reg := reg\<rparr>) }
         else if prop_is p ''reg-shift'' st then Some (s, sc\<lparr>ns_reg_shift := fdt_get_value p (pmem s) 0\<rparr>)
         else if prop_is p ''reg-offset'' st then Some (s, sc\<lparr>ns_reg_offset := fdt_get_value p (pmem s) 0\<rparr>)
         else if prop_is p ''clock-frequency'' st then Some (s, sc\<lparr>ns_clock_freq := fdt_get_value p (pmem s) 0\<rparr>)
         else Some st)
      })"

definition uart16550_done :: "'d bus \<Rightarrow> ('d, uart16550_scan) node_cb" where
  "uart16550_done B node st =
     (let s = fst st; sc = snd st in
      if \<not> ns_compat sc \<or> ns_reg sc = 0 \<or> uart16550 s \<noteq> 0 then Some st
      else
        let clock = (if ns_clock_freq sc \<noteq> 0 then ns_clock_freq sc else uart16550_clock s);
            divisor = clock div (16 * 38400);
            s1 = s\<lparr>uart16550_clock := clock, uart16550 := ns_reg sc + ucast (ns_reg_offset sc),
                   uart16550_reg_shift := ns_reg_shift sc\<rparr>;
            put = (\<lambda>r v. bus_write B 1 (reg16550 r s1) v)
        in if \<not> divisor < 0x10000 then None
           else Some (put 2 0xC7 (put 3 3 (put 1 (ucast (drop_bit 8 divisor) AND 0xFF)
                  (put 0 (ucast divisor AND 0xFF) (put 3 0x80 (put 1 0 s1))))), sc))"

definition query_uart16550 :: "'d bus \<Rightarrow> u64 \<Rightarrow> 'd plat \<Rightarrow> 'd plat option" where
  "query_uart16550 B fdt s =
     map_option fst (fdt_scan fdt
       \<lparr>cb_open = Some uart16550_open, cb_prop = uart16550_prop, cb_done = Some (uart16550_done B),
        cb_close = None\<rparr>
       (s, ns_scan0))"

definition htif_open :: "('d, bool) node_cb" where
  "htif_open node st = Some (fst st, False)"

definition htif_prop :: "('d, bool) prop_cb" where
  "htif_prop p st =
     Some (if prop_is p ''compatible'' st \<and> value_is p ''ucb,htif0'' st then (fst st, True) else st)"

definition htif_done :: "('d, bool) node_cb" where
  "htif_done node st = Some (if snd st then ((fst st)\<lparr>htif := 1\<rparr>, snd st) else st)"

definition query_htif :: "u64 \<Rightarrow> 'd plat \<Rightarrow> 'd plat option" where
  "query_htif fdt s =
     map_option fst (fdt_scan fdt
       \<lparr>cb_open = Some htif_open, cb_prop = htif_prop, cb_done = Some htif_done, cb_close = None\<rparr>
       (s, False))"

record finisher_scan =
  fin_compat :: bool
  fin_reg :: u64

definition finisher_open :: "('d, finisher_scan) node_cb" where
  "finisher_open node st = Some (fst st, \<lparr>fin_compat = False, fin_reg = 0\<rparr>)"

definition finisher_prop :: "('d, finisher_scan) prop_cb" where
  "finisher_prop p st =
     (if prop_is p ''compatible'' st \<and> value_is p ''sifive,test0'' st
      then Some (fst st, (snd st)\<lparr>fin_compat := True\<rparr>)
      else if prop_is p ''reg'' st then
        do { reg \<leftarrow> prop_address p st; Some (fst st, (snd st)\<lparr>fin_reg := reg\<rparr>) }
      else Some st)"

definition finisher_done :: "('d, finisher_scan) node_cb" where
  "finisher_done node st =
     (let s = fst st; sc = snd st in
      Some (if \<not> fin_compat sc \<or> fin_reg sc = 0 \<or> finisher s \<noteq> 0 then st
            else (s\<lparr>finisher := fin_reg sc\<rparr>, sc)))"

definition query_finisher :: "u64 \<Rightarrow> 'd plat \<Rightarrow> 'd plat option" where
  "query_finisher fdt s =
     map_option fst (fdt_scan fdt
       \<lparr>cb_open = Some finisher_open, cb_prop = finisher_prop, cb_done = Some finisher_done, cb_close = None\<rparr>
       (s, \<lparr>fin_compat = False, fin_reg = 0\<rparr>))"

end
