(* ===== verification/Minit.thy ===== *)
theory Minit
  imports FdtQueries
begin

text \<open>
  Starting a hart: \<^verbatim>\<open>riscv-pk/machine/minit.c\<close>, and the filtering of the device tree for the
  payload of \<^verbatim>\<open>riscv-pk/bbl/bbl.c\<close>.  The control registers that only this code touches are a
  record of their own; what the hardware keeps of a value written to \<^verbatim>\<open>misa\<close>, \<^verbatim>\<open>mideleg\<close> and
  \<^verbatim>\<open>medeleg\<close> is a parameter.  \<^verbatim>\<open>setup_pmp\<close> is in \<^verbatim>\<open>Pmp\<close>.
\<close>

record csrs =
  c_misa :: u64
  c_mcounteren :: u64
  c_mideleg :: u64
  c_medeleg :: u64
  c_sptbr :: u64
  c_mscratch :: u64

record csr_hw =
  hw_misa :: "u64 \<Rightarrow> u64"
  hw_mideleg :: "u64 \<Rightarrow> u64"
  hw_medeleg :: "u64 \<Rightarrow> u64"

type_synonym 'd hart = "csrs \<times> 'd plat"

subsection \<open>Control registers\<close>

definition supports_extension :: "csrs \<Rightarrow> char \<Rightarrow> bool" where
  "supports_extension c ext = (c_misa c AND push_bit (of_char ext - of_char CHR ''A'') 1 \<noteq> 0)"

definition mstatus_init :: "'d hart \<Rightarrow> 'd hart" where
  "mstatus_init h =
     (let c = fst h; s = snd h;
          m0 = cpu s;
          m1 = (if supports_extension c CHR ''D'' \<or> supports_extension c CHR ''F''
                then m0\<lparr>c_mstatus := MSTATUS_FS\<rparr> else m0);
          m2 = (if supports_extension c CHR ''S'' then m1\<lparr>c_scounteren := - 1\<rparr> else m1);
          c1 = (if supports_extension c CHR ''U'' then c\<lparr>c_mcounteren := - 1\<rparr> else c);
          c2 = (if supports_extension c CHR ''S'' then c1\<lparr>c_sptbr := 0\<rparr> else c1)
      in (c2, s\<lparr>cpu := m2, c_mie := MIP_MSIP\<rparr>))"

definition delegate_traps :: "csr_hw \<Rightarrow> 'd hart \<Rightarrow> 'd hart option" where
  "delegate_traps W h =
     (let c = fst h;
          interrupts = MIP_SSIP OR MIP_STIP OR MIP_SEIP;
          exceptions = push_bit 0 1 OR push_bit 12 1 OR push_bit 3 1 OR push_bit 13 1 OR
            push_bit 15 1 OR push_bit 8 1;
          c1 = c\<lparr>c_mideleg := hw_mideleg W interrupts, c_medeleg := hw_medeleg W exceptions\<rparr>
      in if \<not> supports_extension c CHR ''S'' then Some h
         else if c_mideleg c1 = interrupts \<and> c_medeleg c1 = exceptions then Some (c1, snd h)
         else None)"

definition fp_init :: "csr_hw \<Rightarrow> 'd hart \<Rightarrow> 'd hart option" where
  "fp_init W h =
     (let c = fst h; fd_mask = push_bit 5 1 OR push_bit 3 1;
          c1 = c\<lparr>c_misa := hw_misa W (c_misa c AND NOT fd_mask)\<rparr>
      in if \<not> supports_extension c CHR ''D'' \<and> \<not> supports_extension c CHR ''F'' then Some h
         else if c_mstatus (cpu (snd h)) AND MSTATUS_FS = 0 then None
         else if c_misa c1 AND fd_mask \<noteq> 0 then None
         else Some (c1, snd h))"

definition hart_init :: "csr_hw \<Rightarrow> 'd hart \<Rightarrow> 'd hart option" where
  "hart_init W h = fp_init W (mstatus_init h) \<bind> delegate_traps W"

subsection \<open>Memory and interrupts\<close>

abbreviation MEGAPAGE_SIZE :: u64 where "MEGAPAGE_SIZE \<equiv> 0x200000"

definition memory_init :: "'d plat \<Rightarrow> 'd plat" where
  "memory_init s = s\<lparr>machine_mem_size := machine_mem_size s div MEGAPAGE_SIZE * MEGAPAGE_SIZE\<rparr>"

definition plic_init :: "'d bus \<Rightarrow> 'd plat \<Rightarrow> 'd plat" where
  "plic_init B s =
     fold (\<lambda>i. bus_write B 4 (plic_priorities s + 4 * of_nat i) 1) [1..<unat (plic_ndevs s) + 1] s"

text \<open>The number of words of enable bits that the code writes.\<close>

definition ie_words :: "'d plat \<Rightarrow> nat" where
  "ie_words s = unat ((plic_ndevs s + 64 - 1) div 64)"

definition enable_sources :: "'d bus \<Rightarrow> 'd plat \<Rightarrow> 'd plat" where
  "enable_sources B s =
     fold (\<lambda>i t. if plic_s_ie (HLS t) \<noteq> 0 then bus_write B 8 (plic_s_ie (HLS t) + 8 * of_nat i) (- 1) t else t)
       [0..<ie_words s] s"

definition hart_plic_init :: "'d bus \<Rightarrow> 'd plat \<Rightarrow> 'd plat" where
  "hart_plic_init B s =
     (let s1 = bus_write B 4 (ipi (HLS s)) 0 s;
          s2 = bus_write B 8 (timecmp (HLS s1)) (- 1) s1;
          s3 = s2\<lparr>c_mip := 0\<rparr>
      in if plic_ndevs s3 = 0 then s3
         else
           let s4 = enable_sources B s3;
               s5 = bus_write B 4 (plic_m_thresh (HLS s4)) 1 s4
           in if plic_s_thresh (HLS s5) \<noteq> 0 then bus_write B 4 (plic_s_thresh (HLS s5)) 0 s5 else s5)"

definition wake_harts :: "'d bus \<Rightarrow> 'd plat \<Rightarrow> 'd plat" where
  "wake_harts B s =
     fold (\<lambda>h t. if bit (NOT (disabled_hart_mask t) AND hart_mask t) h
                 then bus_write B 4 (ipi (hlss t h)) 1 t else t) [0..<MAX_HARTS] s"

subsection \<open>The order of things\<close>

text \<open>Up to the call of \<^verbatim>\<open>boot_loader\<close>; \<open>self\<close> is the address of \<^verbatim>\<open>mem_done\<close>.\<close>

definition init_first_hart :: "'d bus \<Rightarrow> csr_hw \<Rightarrow> u64 \<Rightarrow> u64 \<Rightarrow> 'd hart \<Rightarrow> 'd hart option" where
  "init_first_hart B W self dtb h =
     do {
       s1 \<leftarrow> query_uart B dtb (snd h);
       s2 \<leftarrow> query_uart16550 B dtb s1;
       s3 \<leftarrow> query_htif dtb s2;
       s4 \<leftarrow> printm B (lit ''bbl loader'' @ [13, 10]) [] s3;
       (c, s5) \<leftarrow> hart_init W (fst h, s4);
       s6 \<leftarrow> query_finisher dtb (hls_init 0 s5);
       s7 \<leftarrow> query_mem self dtb s6;
       s8 \<leftarrow> query_harts dtb s7;
       s9 \<leftarrow> query_clint dtb s8;
       s10 \<leftarrow> query_plic B dtb s9;
       s11 \<leftarrow> query_chosen dtb s10;
       Some (c, memory_init (hart_plic_init B (plic_init B (wake_harts B s11))))
     }"

definition init_other_hart :: "'d bus \<Rightarrow> csr_hw \<Rightarrow> 'd hart \<Rightarrow> 'd hart option" where
  "init_other_hart B W h = map_option (\<lambda>(c, s). (c, hart_plic_init B s)) (hart_init W h)"

text \<open>\<open>stack_top\<close> is \<^verbatim>\<open>MACHINE_STACK_TOP()\<close>; the frame is 32 registers, 32 floating-point
  registers and the hart-local storage.  The state is the one in which \<^verbatim>\<open>mret\<close> runs.\<close>

definition enter_supervisor_mode :: "u64 \<Rightarrow> u64 \<Rightarrow> u64 \<Rightarrow> u64 \<Rightarrow> 'd hart \<Rightarrow> 'd hart" where
  "enter_supervisor_mode machine_stack fn arg0 arg1 h =
     (let c = fst h; s = snd h; m = cpu s;
          ms1 = INSERT_FIELD (c_mstatus m) MSTATUS_MPP 1;
          ms2 = INSERT_FIELD ms1 0x80 0;
          frame = machine_stack - (32 * 8 + 8 * 32 + 64)
      in (c\<lparr>c_mscratch := frame\<rparr>,
          s\<lparr>pmem := store64 (pmem s) frame 0,
            cpu := m\<lparr>c_mstatus := ms2, c_mepc := fn, xr := (xr m)(10 := arg0, 11 := arg1)\<rparr>\<rparr>))"

subsection \<open>The device tree of the payload\<close>

definition dtb_output :: "u64 \<Rightarrow> 'd plat \<Rightarrow> u64" where
  "dtb_output payload_end s =
     (let end_at = (if kernel_end s \<noteq> 0 then kernel_end s else payload_end)
      in (end_at + MEGAPAGE_SIZE - 1) div MEGAPAGE_SIZE * MEGAPAGE_SIZE)"

definition filter_dtb :: "'d bus \<Rightarrow> u64 \<Rightarrow> u64 \<Rightarrow> 'd plat \<Rightarrow> 'd plat option" where
  "filter_dtb B payload_end source s =
     do {
       let dest = dtb_output payload_end s;
       m \<leftarrow> memcpy (pmem s) dest source (ucast (fdt_size (pmem s) source));
       s1 \<leftarrow> filter_harts B dest (s\<lparr>pmem := m\<rparr>);
       s2 \<leftarrow> filter_plic dest s1;
       s3 \<leftarrow> filter_compat dest (lit ''riscv,clint0'') s2;
       filter_compat dest (lit ''riscv,debug-013'') s3
     }"

end
