(* ===== verification/PlatformProps.thy ===== *)
theory PlatformProps
  imports Platform
begin

text \<open>Who gets an interrupt from another hart, and what becomes of a call that faults.\<close>

unbundle bit_operations_syntax

subsection \<open>Interrupts between harts\<close>

lemma send_ipi_pending:
  "mipi_pending (hlss (send_ipi B event i s) k) =
     (if k = i \<and> \<not> bit (disabled_hart_mask s) i
      then mipi_pending (hlss s k) OR event else mipi_pending (hlss s k))"
  "disabled_hart_mask (send_ipi B event i s) = disabled_hart_mask s"
  by (simp_all add: send_ipi_def bus_write_def Let_def)

lemma send_loop:
  assumes "\<And>i s. f i s = Some (send_ipi B event i s)"
  shows "\<exists>s'. for_mask f i m s = Some s' \<and> disabled_hart_mask s' = disabled_hart_mask s \<and>
    (\<forall>k. mipi_pending (hlss s' k) =
      (if i \<le> k \<and> bit m (k - i) \<and> \<not> bit (disabled_hart_mask s) k
       then mipi_pending (hlss s k) OR event else mipi_pending (hlss s k)))"
  using assms
proof (induction f i m s rule: for_mask.induct)
  case (1 f i m s)
  show ?case
  proof (cases "m = 0")
    case True
    then show ?thesis by (simp add: for_mask.simps)
  next
    case False
    let ?t = "if bit m 0 then send_ipi B event i s else s"
    have t: "(if bit m 0 then f i s else Some s) = Some ?t" using "1.prems" by simp
    from "1.IH" [OF False t "1.prems"] obtain s' where
      s': "for_mask f (i + 1) (drop_bit 1 m) ?t = Some s'"
        "disabled_hart_mask s' = disabled_hart_mask ?t"
        "\<And>k. mipi_pending (hlss s' k) =
          (if (i + 1 \<le> k \<and> bit (drop_bit 1 m) (k - (i + 1))) \<and> \<not> bit (disabled_hart_mask ?t) k
           then mipi_pending (hlss ?t k) OR event else mipi_pending (hlss ?t k))"
      unfolding conj_assoc by blast
    have run: "for_mask f i m s = Some s'"
      using False t s'(1) by (subst for_mask.simps) simp
    have "bit (drop_bit 1 m) (k - (i + 1)) \<longleftrightarrow> bit m (k - i)" if "i + 1 \<le> k" for k
    proof -
      have "k - i = Suc (k - (i + 1))" using that by simp
      then show ?thesis by (simp add: bit_drop_bit_eq)
    qed
    then have "(i + 1 \<le> k \<and> bit (drop_bit 1 m) (k - (i + 1))) \<longleftrightarrow> (i < k \<and> bit m (k - i))" for k
      by (cases "i < k") auto
    note shift = this
    have "disabled_hart_mask ?t = disabled_hart_mask s" by (simp add: send_ipi_pending)
    moreover have "mipi_pending (hlss s' k) =
      (if i \<le> k \<and> bit m (k - i) \<and> \<not> bit (disabled_hart_mask s) k
       then mipi_pending (hlss s k) OR event else mipi_pending (hlss s k))" for k
      unfolding s'(3) shift calculation by (cases "i < k"; cases "k = i") (auto simp: send_ipi_pending)
    ultimately show ?thesis using s'(2) run by auto
  qed
qed

text \<open>
  C33. A supervisor's request for a software interrupt marks it pending for exactly the harts
  that its mask names, that exist and that are not disabled, and returns.
\<close>

theorem ipi_reaches_selected_harts:
  assumes "p = 0 \<or> load_fault E p = 0"
    and "harts = (if p = 0 then hart_mask s else hart_mask s AND load_le 8 (umem (cpu s)) p)"
  shows "\<exists>s'. send_ipi_many E B p IPI_SOFT s = Some (Inr s') \<and>
    (\<forall>k. mipi_pending (hlss s' k) =
      (if bit harts k \<and> \<not> bit (disabled_hart_mask s) k
       then mipi_pending (hlss s k) OR IPI_SOFT else mipi_pending (hlss s k)))"
proof -
  obtain s' where "for_mask (\<lambda>i s. Some (send_ipi B IPI_SOFT i s)) 0 harts s = Some s'"
    and k: "\<forall>k. mipi_pending (hlss s' k) =
      (if 0 \<le> k \<and> bit harts (k - 0) \<and> \<not> bit (disabled_hart_mask s) k
       then mipi_pending (hlss s k) OR IPI_SOFT else mipi_pending (hlss s k))"
    using send_loop [of "\<lambda>i s. Some (send_ipi B IPI_SOFT i s)" B IPI_SOFT 0 harts s] by blast
  then have "send_ipi_mask B harts IPI_SOFT s = Some s'"
    by (simp add: send_ipi_mask_def)
  then show ?thesis
    using assms k by (auto simp: send_ipi_many_def)
qed

subsection \<open>A machine for examples\<close>

definition quiet_bus :: "unit bus" where
  "quiet_bus = \<lparr>rd = (\<lambda>_ _ d. (0, d)), wr = (\<lambda>_ _ _ d. d), amoor_w = (\<lambda>_ _ d. (0, d)),
     amoswap_w = (\<lambda>_ _ d. (0, d)), tohost = 0x1000, fromhost = 0x1008\<rparr>"

definition sample_cpu :: mach where
  "sample_cpu =
     \<lparr>xr = (\<lambda>_. 0)(10 := 0x100, 17 := 4), fr = (\<lambda>_. 0), tp = 0, umem = (\<lambda>_. 0)(0x100 := 6),
      c_mepc = 0, c_mcause = 9, c_mbadaddr = 0, c_mstatus = 0,
      c_mcycle = 0, c_minstret = 0, c_mhpmcounter3 = 0, c_mhpmcounter4 = 0, c_mhpmevent3 = 0,
      c_mhpmevent4 = 0, c_mtime = 0, c_stvec = 0x100, c_sepc = 0, c_scause = 0, c_sbadaddr = 0,
      c_scounteren = 0\<rparr>"

definition sample_of :: "'d \<Rightarrow> 'd plat" where
  "sample_of d =
     \<lparr>cpu = sample_cpu, dev = d, pmem = (\<lambda>_. 0), printm_buf = 0x2000, uart = 0, uart16550 = 0,
      uart16550_reg_shift = 0, uart16550_clock = 1843200, htif = 0, htif_console_buf = 0,
      finisher = 0, machine_mem_size = 0, mtime_at = 0, plic_priorities = 0, plic_ndevs = 0,
      kernel_start = 0, kernel_end = 0, hart_phandles = (\<lambda>_. 0), hart_mask = 3,
      disabled_hart_mask = 0, hlss = (\<lambda>_. \<lparr>ipi = 0, mipi_pending = 0, timecmp = 0, plic_m_thresh = 0,
        plic_m_ie = 0, plic_s_thresh = 0, plic_s_ie = 0\<rparr>), mhartid = 0, c_mip = 0, c_mie = 0\<rparr>"

abbreviation sample_plat :: "unit plat" where "sample_plat \<equiv> sample_of ()"

text \<open>Harts 0 and 1 exist, the mask names 1 and 2: hart 1 gets the interrupt.\<close>

lemma ipi_reaches_selected_harts_witness:
  "\<exists>s'. send_ipi_many \<lparr>load_fault = (\<lambda>_. 0), store_fault = (\<lambda>_. 0)\<rparr> quiet_bus 0x100 IPI_SOFT sample_plat
      = Some (Inr s') \<and> mipi_pending (hlss s' 1) = IPI_SOFT \<and> mipi_pending (hlss s' 0) = 0 \<and>
    mipi_pending (hlss s' 2) = 0"
proof -
  have mask: "2 = hart_mask sample_plat AND load_le 8 (umem (cpu sample_plat)) 0x100"
    by code_simp
  have "bit (2 :: u64) 1" "\<not> bit (2 :: u64) 0" "\<not> bit (2 :: u64) 2"
    by code_simp+
  then show ?thesis
    using ipi_reaches_selected_harts [of "0x100" "\<lparr>load_fault = (\<lambda>_. 0), store_fault = (\<lambda>_. 0)\<rparr>" 2
        sample_plat quiet_bus] mask
    by (auto simp: sample_of_def)
qed

subsection \<open>Faults of a call\<close>

text \<open>
  When the mask of a call to other harts is not readable, the page fault is reported at
  the instruction after the \<^verbatim>\<open>ecall\<close>: \<^verbatim>\<open>mepc\<close> has been advanced before, so the supervisor that
  resolves the fault and returns never repeats the call.
\<close>

lemma faulting_call_is_skipped:
  assumes "xr (cpu s) 17 \<in> {4, 5, 6, 7}" and "xr (cpu s) 10 = p" and "p \<noteq> 0"
    and "load_fault E p = CAUSE_LOAD_PAGE_FAULT"
  shows "\<exists>s'. mcall_trap E B mcause mepc s = Some (Inr s') \<and> c_sepc (cpu s') = mepc + 4 \<and>
    c_scause (cpu s') = CAUSE_LOAD_PAGE_FAULT \<and> c_sbadaddr (cpu s') = p \<and>
    hlss s' = hlss s \<and> dev s' = dev s"
proof -
  have "(w OR MSTATUS_MPRV) AND MSTATUS_MPRV = MSTATUS_MPRV" for w :: u64
    by (rule bit_word_eqI) (auto simp: bit_and_iff bit_or_iff)
  then show ?thesis
    using assms
    by (auto simp: mcall_trap_def Let_def sbi_ipi_def send_ipi_many_def access_trap_def
        trap_from_machine_mode_def machine_page_fault_def redirect_trap_def)
qed

end
