(* ===== verification/FdtProps.thy ===== *)
theory FdtProps
  imports Minit PlatformProps
begin

text \<open>
  The scanner against the tree: \<^theory_text>\<open>tree_at\<close> says that memory holds a tree, \<^theory_text>\<open>visit_tree\<close> is the
  traversal that the callbacks are promised, and the scanner refines it for callbacks that
  do not write the tree.  Then what the interrupt controller's set-up leaves out.
\<close>

unbundle bit_operations_syntax

subsection \<open>Trees in memory\<close>

text \<open>A node: its name, the lengths of the values of its properties, its children.\<close>

datatype dtree = Dt "u8 list" "nat list" "dtree list"

definition prop_words :: "nat \<Rightarrow> nat" where
  "prop_words len = 3 + (len + 3) div 4"

definition props_len :: "nat list \<Rightarrow> nat" where
  "props_len ps = sum_list (map prop_words ps)"

text \<open>Sizes in words.\<close>

fun tree_len :: "dtree \<Rightarrow> nat" and trees_len :: "dtree list \<Rightarrow> nat" where
  "tree_len (Dt nm ps cs) = 2 + length nm div 4 + props_len ps + trees_len cs + 1"
| "trees_len [] = 0"
| "trees_len (t # ts) = tree_len t + trees_len ts"

definition words_at :: "u64 \<Rightarrow> nat \<Rightarrow> u64" where
  "words_at lx n = lx + 4 * of_nat n"

lemma words_at_add [simp]: "words_at (words_at lx a) b = words_at lx (a + b)"
  by (simp add: words_at_def algebra_simps)

lemma words_at_0 [simp]: "words_at lx 0 = lx"
  by (simp add: words_at_def)

fun props_at :: "mem \<Rightarrow> u64 \<Rightarrow> nat list \<Rightarrow> bool" where
  "props_at m lx [] \<longleftrightarrow> True"
| "props_at m lx (len # ps) \<longleftrightarrow>
     fdt_word m lx 0 = FDT_PROP \<and> fdt_word m lx 1 = of_nat len \<and> len < 2 ^ 31 - 3 \<and>
     props_at m (words_at lx (prop_words len)) ps"

fun tree_at :: "mem \<Rightarrow> u64 \<Rightarrow> dtree \<Rightarrow> bool" and trees_at :: "mem \<Rightarrow> u64 \<Rightarrow> dtree list \<Rightarrow> bool" where
  "tree_at m lx (Dt nm ps cs) \<longleftrightarrow>
     fdt_word m lx 0 = FDT_BEGIN_NODE \<and> cstring m (lx + 4) nm \<and> length nm < 2 ^ 32 \<and>
     props_at m (words_at lx (2 + length nm div 4)) ps \<and>
     trees_at m (words_at lx (2 + length nm div 4 + props_len ps)) cs \<and>
     fdt_word m (words_at lx (2 + length nm div 4 + props_len ps + trees_len cs)) 0 = FDT_END_NODE"
| "trees_at m lx [] \<longleftrightarrow> True"
| "trees_at m lx (t # ts) \<longleftrightarrow> tree_at m lx t \<and> trees_at m (words_at lx (tree_len t)) ts"

subsection \<open>The traversal\<close>

definition prop_event :: "mem \<Rightarrow> u64 \<Rightarrow> u64 \<Rightarrow> fdt_node \<Rightarrow> fdt_scan_prop" where
  "prop_event m strings lx node =
     (let pname = strings + ucast (fdt_word m lx 2)
      in \<lparr>prop_node = note_cells m lx pname node, prop_name = pname, prop_value = lx + 12,
          prop_len = fdt_word m lx 1\<rparr>)"

primrec visit_props ::
  "('d, 'e) fdt_cb \<Rightarrow> mem \<Rightarrow> u64 \<Rightarrow> u64 \<Rightarrow> fdt_node \<Rightarrow> nat list \<Rightarrow> ('d, 'e) scan_state
    \<Rightarrow> (fdt_node \<times> ('d, 'e) scan_state) option" where
  "visit_props cb m strings lx node [] st = Some (node, st)"
| "visit_props cb m strings lx node (len # ps) st =
     do {
       st1 \<leftarrow> cb_prop cb (prop_event m strings lx node) st;
       visit_props cb m strings (words_at lx (prop_words len)) (prop_node (prop_event m strings lx node)) ps st1
     }"

definition call_open :: "('d, 'e) fdt_cb \<Rightarrow> ('d, 'e) node_cb" where
  "call_open cb node st = (case cb_open cb of None \<Rightarrow> Some st | Some f \<Rightarrow> f node st)"

definition call_close :: "('d, 'e) fdt_cb \<Rightarrow> ('d, 'e) close_cb" where
  "call_close cb node st = (case cb_close cb of None \<Rightarrow> Some (False, st) | Some f \<Rightarrow> f node st)"

text \<open>
  A node is opened, its properties are seen, it is done, its children are visited, it is
  closed.  The frame of the children starts with the default cell counts and passes from
  each child to the next.
\<close>

fun visit_tree ::
    "('d, 'e) fdt_cb \<Rightarrow> mem \<Rightarrow> u64 \<Rightarrow> u64 \<Rightarrow> fdt_node \<Rightarrow> fdt_frame \<Rightarrow> dtree \<Rightarrow> ('d, 'e) scan_state
      \<Rightarrow> (fdt_frame \<times> ('d, 'e) scan_state) option"
  and visit_trees ::
    "('d, 'e) fdt_cb \<Rightarrow> mem \<Rightarrow> u64 \<Rightarrow> u64 \<Rightarrow> fdt_node \<Rightarrow> fdt_frame \<Rightarrow> dtree list \<Rightarrow> ('d, 'e) scan_state
      \<Rightarrow> (fdt_frame \<times> ('d, 'e) scan_state) option" where
  "visit_tree cb m strings lx up child (Dt nm ps cs) st =
     do {
       st1 \<leftarrow> call_open cb (child\<lparr>name := lx + 4\<rparr> # up) st;
       (node, st2) \<leftarrow> visit_props cb m strings (words_at lx (2 + length nm div 4)) (child\<lparr>name := lx + 4\<rparr> # up) ps st1;
       st3 \<leftarrow> call_done cb False node st2;
       (ch, st4) \<leftarrow> visit_trees cb m strings (words_at lx (2 + length nm div 4 + props_len ps)) node new_child cs st3;
       (kill, st5) \<leftarrow> call_close cb node st4;
       Some (hd node, st5)
     }"
| "visit_trees cb m strings lx up child [] st = Some (child, st)"
| "visit_trees cb m strings lx up child (t # ts) st =
     do {
       (child1, st1) \<leftarrow> visit_tree cb m strings lx up child t st;
       visit_trees cb m strings (words_at lx (tree_len t)) up child1 ts st1
     }"

text \<open>Callbacks that leave the tree alone.\<close>

definition reads_only :: "('d, 'e) fdt_cb \<Rightarrow> mem \<Rightarrow> bool" where
  "reads_only cb m \<longleftrightarrow>
     (\<forall>n st st'. pmem (fst st) = m \<longrightarrow> call_open cb n st = Some st' \<longrightarrow> pmem (fst st') = m) \<and>
     (\<forall>p st st'. pmem (fst st) = m \<longrightarrow> cb_prop cb p st = Some st' \<longrightarrow> pmem (fst st') = m) \<and>
     (\<forall>n st st'. pmem (fst st) = m \<longrightarrow> call_done cb False n st = Some st' \<longrightarrow> pmem (fst st') = m) \<and>
     (\<forall>n st k st'. pmem (fst st) = m \<longrightarrow> call_close cb n st = Some (k, st') \<longrightarrow> \<not> k \<and> pmem (fst st') = m)"

lemma reads_onlyD:
  assumes "reads_only cb m" and "pmem (fst st) = m"
  shows "call_open cb n st = Some st' \<Longrightarrow> pmem (fst st') = m"
    and "cb_prop cb p st = Some st' \<Longrightarrow> pmem (fst st') = m"
    and "call_done cb False n st = Some st' \<Longrightarrow> pmem (fst st') = m"
    and "call_close cb n st = Some (k, st') \<Longrightarrow> \<not> k \<and> pmem (fst st') = m"
  using assms unfolding reads_only_def by blast+

lemma after_prop_words:
  assumes "len < 2 ^ 31 - 3"
  shows "after_prop lx (of_nat len) = words_at lx (prop_words len)"
proof -
  have "sint (word_of_int (int (len + 3)) :: u32) = int (len + 3)"
    using assms by (simp only: sint_sbintrunc') (intro signed_take_bit_int_eq_self, simp_all)
  then have "sint (of_nat len + 3 :: u32) = int (len + 3)" by simp
  moreover have "cdiv (int (len + 3)) 4 = int ((len + 3) div 4)"
    by (simp add: cdiv_def zdiv_int)
  ultimately show ?thesis
    by (simp add: after_prop_def words_at_def prop_words_def)
qed

lemma div4_words:
  assumes "n < 2 ^ 32"
  shows "(of_nat n :: u64) div 4 = of_nat (n div 4)"
proof -
  have "unat (of_nat n :: u64) = n" using assms by (intro unat_of_nat64) simp
  then have "unat ((of_nat n :: u64) div 4) = n div 4"
    by (simp add: unat_div_distrib)
  then show ?thesis by (metis of_nat_unat ucast_id)
qed

lemma reads_only_props:
  "visit_props cb m strings lx node ps st = Some (node', st') \<Longrightarrow> reads_only cb m \<Longrightarrow> pmem (fst st) = m
    \<Longrightarrow> pmem (fst st') = m"
proof (induction ps arbitrary: lx node st)
  case (Cons len ps)
  then obtain st1 where "cb_prop cb (prop_event m strings lx node) st = Some st1"
    "visit_props cb m strings (words_at lx (prop_words len)) (prop_node (prop_event m strings lx node)) ps st1
      = Some (node', st')"
    by (auto simp: bind_Some_iff)
  moreover from this Cons.prems have "pmem (fst st1) = m" by (blast intro: reads_onlyD(2))
  ultimately show ?case using Cons.IH Cons.prems by blast
qed simp

lemma reads_only_call_done:
  assumes "call_done cb seen node st = Some st'" and "reads_only cb m" and "pmem (fst st) = m"
  shows "pmem (fst st') = m"
proof (cases seen)
  case True
  then have "st' = st" using assms(1) by (simp add: call_done_def)
  then show ?thesis using assms(3) by simp
next
  case False
  then have "call_done cb False node st = Some st'" using assms(1) by simp
  then show ?thesis by (rule reads_onlyD(3) [OF assms(2,3)])
qed

lemma reads_only_visit:
  "visit_tree cb m strings lx up child t st = Some (ch, st') \<Longrightarrow> reads_only cb m \<Longrightarrow> pmem (fst st) = m
    \<Longrightarrow> pmem (fst st') = m"
  "visit_trees cb m strings lx up child ts st = Some (ch, st') \<Longrightarrow> reads_only cb m \<Longrightarrow> pmem (fst st) = m
    \<Longrightarrow> pmem (fst st') = m"
proof (induction cb m strings lx up child t st and cb m strings lx up child ts st
    arbitrary: ch st' and ch st' rule: visit_tree_visit_trees.induct)
  case (1 cb m strings lx up child nm ps cs st)
  then obtain st1 node st2 st3 ch4 st4 k where
    1: "call_open cb (child\<lparr>name := lx + 4\<rparr> # up) st = Some st1"
    and 2: "visit_props cb m strings (words_at lx (2 + length nm div 4)) (child\<lparr>name := lx + 4\<rparr> # up) ps st1
      = Some (node, st2)"
    and 3: "call_done cb False node st2 = Some st3"
    and 4: "visit_trees cb m strings (words_at lx (2 + length nm div 4 + props_len ps)) node new_child cs st3
      = Some (ch4, st4)"
    and 5: "call_close cb node st4 = Some (k, st')"
    by (simp only: visit_tree.simps bind_Some_iff case_prod_Some_iff option.inject prod.inject) blast
  note ro = "1.prems"(2)
  have m1: "pmem (fst st1) = m" by (rule reads_onlyD(1) [OF ro "1.prems"(3) 1])
  have m2: "pmem (fst st2) = m" using reads_only_props [OF 2 ro m1] .
  have m3: "pmem (fst st3) = m" using reads_only_call_done [OF 3 ro m2] .
  have m4: "pmem (fst st4) = m" by (rule "1.IH" [OF 1 2 refl 3 4 ro m3])
  show ?case using reads_onlyD(4) [OF ro m4 5] by simp
next
  case (3 cb m strings lx up child t ts st)
  then obtain ch1 st1 where 1: "visit_tree cb m strings lx up child t st = Some (ch1, st1)"
    and 2: "visit_trees cb m strings (words_at lx (tree_len t)) up ch1 ts st1 = Some (ch, st')"
    by (simp only: visit_trees.simps bind_Some_iff case_prod_Some_iff option.inject prod.inject) blast
  have "pmem (fst st1) = m" by (rule "3.IH"(1) [OF 1 "3.prems"(2,3)])
  then show ?case by (rule "3.IH"(2) [OF 1 refl 2 "3.prems"(2)])
qed simp

subsection \<open>The scanner visits the tree\<close>

lemma bind_cong_some:
  "(\<And>a. x = Some a \<Longrightarrow> f a = g a) \<Longrightarrow> Option.bind x f = Option.bind x g"
  by (cases x) auto

lemma scan_props:
  assumes "props_at m lx ps" and "reads_only cb m" and "pmem (fst st) = m"
  shows "fdt_scan_helper cb strings lx node child False st =
    do {
      (node', st') \<leftarrow> visit_props cb m strings lx node ps st;
      fdt_scan_helper cb strings (words_at lx (props_len ps)) node' child False st'
    }"
  using assms
proof (induction ps arbitrary: lx node st)
  case Nil
  then show ?case by (simp add: props_len_def)
next
  case (Cons len ps)
  have tok: "fdt_word m lx 0 = 3" "fdt_word m lx 1 = of_nat len" "len < 2 ^ 31 - 3"
    and rest: "props_at m (words_at lx (prop_words len)) ps" using Cons.prems(1) by auto
  have "fdt_scan_helper cb strings lx node child False st =
    do {
      st1 \<leftarrow> cb_prop cb (prop_event m strings lx node) st;
      fdt_scan_helper cb strings (words_at lx (prop_words len)) (prop_node (prop_event m strings lx node)) child False st1
    }"
    using tok Cons.prems(3)
    by (subst fdt_scan_helper.simps) (simp add: Let_def prop_event_def after_prop_words)
  also have "\<dots> = do {
      st1 \<leftarrow> cb_prop cb (prop_event m strings lx node) st;
      (node', st') \<leftarrow> visit_props cb m strings (words_at lx (prop_words len)) (prop_node (prop_event m strings lx node)) ps st1;
      fdt_scan_helper cb strings (words_at (words_at lx (prop_words len)) (props_len ps)) node' child False st'
    }"
  proof (rule bind_cong_some)
    fix st1 assume "cb_prop cb (prop_event m strings lx node) st = Some st1"
    then have "pmem (fst st1) = m" by (rule reads_onlyD(2) [OF Cons.prems(2,3)])
    then show "fdt_scan_helper cb strings (words_at lx (prop_words len)) (prop_node (prop_event m strings lx node)) child False st1 =
      do {
        (node', st') \<leftarrow> visit_props cb m strings (words_at lx (prop_words len)) (prop_node (prop_event m strings lx node)) ps st1;
        fdt_scan_helper cb strings (words_at (words_at lx (prop_words len)) (props_len ps)) node' child False st'
      }"
      by (rule Cons.IH [OF rest Cons.prems(2)])
  qed
  finally show ?case by (simp add: props_len_def)
qed

lemma scan_begin:
  assumes "fdt_word (pmem (fst st)) lx 0 = FDT_BEGIN_NODE"
  shows "fdt_scan_helper cb strings lx node child seen st =
    do {
      st1 \<leftarrow> call_done cb seen node st;
      st2 \<leftarrow> call_open cb (child\<lparr>name := lx + 4\<rparr> # node) st1;
      k \<leftarrow> strlen (pmem (fst st2)) (lx + 4);
      (lx_next, child_node, st3) \<leftarrow>
        fdt_scan_helper cb strings (lx + 4 * (2 + k div 4)) (child\<lparr>name := lx + 4\<rparr> # node) new_child False st2;
      (kill, st4) \<leftarrow> call_close cb child_node st3;
      st5 \<leftarrow>
        (if kill then do {
           m5 \<leftarrow> nop_fill lx lx_next (pmem (fst st4));
           Some ((fst st4)\<lparr>pmem := m5\<rparr>, snd st4)
         } else Some st4);
      fdt_scan_helper cb strings lx_next node (hd child_node) True st5
    }"
  unfolding call_open_def call_close_def
  by (subst fdt_scan_helper.simps) (simp add: assms Let_def)

lemma scan_end:
  assumes "fdt_word (pmem (fst st)) lx 0 = FDT_END_NODE"
  shows "fdt_scan_helper cb strings lx node child seen st =
    do { st1 \<leftarrow> call_done cb seen node st; Some (lx + 4, node, st1) }"
  by (subst fdt_scan_helper.simps) (simp add: assms Let_def)

text \<open>What is inside a node, after its name, when its children are scanned as they should be.\<close>

lemma scan_body:
  assumes "props_at m lx ps" and "reads_only cb m" and "pmem (fst st) = m"
    and children: "\<And>nd sp. pmem (fst sp) = m \<Longrightarrow>
      fdt_scan_helper cb strings (words_at lx (props_len ps)) nd new_child False sp
      = do {
          s1 \<leftarrow> call_done cb False nd sp;
          (ch, s2) \<leftarrow> visit_trees cb m strings (words_at lx (props_len ps)) nd new_child cs s1;
          Some (fin, nd, s2)
        }"
  shows "fdt_scan_helper cb strings lx node new_child False st =
    do {
      (nd, sp) \<leftarrow> visit_props cb m strings lx node ps st;
      s1 \<leftarrow> call_done cb False nd sp;
      (ch, s2) \<leftarrow> visit_trees cb m strings (words_at lx (props_len ps)) nd new_child cs s1;
      Some (fin, nd, s2)
    }"
  unfolding scan_props [OF assms(1-3)]
proof (rule bind_cong_some, clarify)
  fix nd a b assume "visit_props cb m strings lx node ps st = Some (nd, a, b)"
  then have "pmem (fst (a, b)) = m" by (rule reads_only_props [OF _ assms(2,3)])
  then show "fdt_scan_helper cb strings (words_at lx (props_len ps)) nd new_child False (a, b) =
      do {
        s1 \<leftarrow> call_done cb False nd (a, b);
        (ch, s2) \<leftarrow> visit_trees cb m strings (words_at lx (props_len ps)) nd new_child cs s1;
        Some (fin, nd, s2)
      }"
    by (rule children)
qed

text \<open>Leaving a node that is not deleted.\<close>

lemma close_kept:
  assumes ro: "reads_only cb m" and m2: "pmem (fst st2) = m"
  shows "do {
      (lx_next, child_node, st3) \<leftarrow> do {
        (nd, sp) \<leftarrow> visit_props cb m strings b up ps st2;
        s1 \<leftarrow> call_done cb False nd sp;
        (ch, s2) \<leftarrow> visit_trees cb m strings c nd new_child cs s1;
        Some (fin, nd, s2)
      };
      (kill, st4) \<leftarrow> call_close cb child_node st3;
      st5 \<leftarrow>
        (if kill then do {
           m5 \<leftarrow> nop_fill lx lx_next (pmem (fst st4));
           Some ((fst st4)\<lparr>pmem := m5\<rparr>, snd st4)
         } else Some st4);
      fdt_scan_helper cb strings lx_next node (hd child_node) True st5
    } = do {
      (ch, st') \<leftarrow> do {
        (nd, sp) \<leftarrow> visit_props cb m strings b up ps st2;
        s1 \<leftarrow> call_done cb False nd sp;
        (ch, s2) \<leftarrow> visit_trees cb m strings c nd new_child cs s1;
        (kill, s3) \<leftarrow> call_close cb nd s2;
        Some (hd nd, s3)
      };
      fdt_scan_helper cb strings fin node ch True st'
    }"
proof (cases "visit_props cb m strings b up ps st2")
  case None
  then show ?thesis by simp
next
  case a: (Some r)
  obtain nd sp where r: "r = (nd, sp)" by (cases r)
  have mp: "pmem (fst sp) = m" using reads_only_props [OF _ ro m2] a r by blast
  show ?thesis
  proof (cases "call_done cb False nd sp \<bind> visit_trees cb m strings c nd new_child cs")
    case None
    then show ?thesis by (cases "call_done cb False nd sp") (auto simp: a r)
  next
    case (Some v)
    then obtain s1 ch s2 where d: "call_done cb False nd sp = Some s1"
      and v: "visit_trees cb m strings c nd new_child cs s1 = Some (ch, s2)"
      by (cases v) (auto simp: bind_Some_iff)
    have "pmem (fst s2) = m" by (rule reads_only_visit(2) [OF v ro reads_only_call_done [OF d ro mp]])
    then have "\<not> k" if "call_close cb nd s2 = Some (k, s3)" for k s3
      using reads_onlyD(4) [OF ro _ that] by simp
    then show ?thesis by (auto simp: a r d v intro!: bind_cong_some)
  qed
qed

text \<open>From a node to the place behind it.\<close>

lemma scan_node:
  assumes t: "tree_at m lx (Dt nm ps cs)" and ro: "reads_only cb m" and m: "pmem (fst st) = m"
    and children: "\<And>nd sp. pmem (fst sp) = m \<Longrightarrow>
      fdt_scan_helper cb strings (words_at lx (2 + length nm div 4 + props_len ps)) nd new_child False sp
      = do {
          s1 \<leftarrow> call_done cb False nd sp;
          (ch, s2) \<leftarrow> visit_trees cb m strings (words_at lx (2 + length nm div 4 + props_len ps)) nd new_child cs s1;
          Some (words_at lx (tree_len (Dt nm ps cs)), nd, s2)
        }"
  shows "fdt_scan_helper cb strings lx node child seen st =
    do {
      st0 \<leftarrow> call_done cb seen node st;
      (ch, st') \<leftarrow> visit_tree cb m strings lx node child (Dt nm ps cs) st0;
      fdt_scan_helper cb strings (words_at lx (tree_len (Dt nm ps cs))) node ch True st'
    }"
proof -
  let ?body = "words_at lx (2 + length nm div 4)"
  have nm: "cstring m (lx + 4) nm" "length nm < 2 ^ 32" and ps: "props_at m ?body ps"
    and tok: "fdt_word (pmem (fst st)) lx 0 = FDT_BEGIN_NODE"
    using t m by auto
  have at: "lx + 4 * (2 + of_nat (length nm) div 4) = ?body"
    using div4_words [OF nm(2)] by (simp add: words_at_def)
  show ?thesis
    unfolding scan_begin [OF tok]
  proof (rule bind_cong_some)
    fix st0 assume "call_done cb seen node st = Some st0"
    then have m0: "pmem (fst st0) = m" using reads_only_call_done ro m by blast
    show "do {
        st2 \<leftarrow> call_open cb (child\<lparr>name := lx + 4\<rparr> # node) st0;
        k \<leftarrow> strlen (pmem (fst st2)) (lx + 4);
        (lx_next, child_node, st3) \<leftarrow>
          fdt_scan_helper cb strings (lx + 4 * (2 + k div 4)) (child\<lparr>name := lx + 4\<rparr> # node) new_child False st2;
        (kill, st4) \<leftarrow> call_close cb child_node st3;
        st5 \<leftarrow>
          (if kill then do {
             m5 \<leftarrow> nop_fill lx lx_next (pmem (fst st4));
             Some ((fst st4)\<lparr>pmem := m5\<rparr>, snd st4)
           } else Some st4);
        fdt_scan_helper cb strings lx_next node (hd child_node) True st5
      } = do {
        (ch, st') \<leftarrow> visit_tree cb m strings lx node child (Dt nm ps cs) st0;
        fdt_scan_helper cb strings (words_at lx (tree_len (Dt nm ps cs))) node ch True st'
      }"
      (is "?l = ?r")
    proof (cases "call_open cb (child\<lparr>name := lx + 4\<rparr> # node) st0")
      case None
      then show ?thesis by simp
    next
      case (Some st2)
      then have m2: "pmem (fst st2) = m" by (rule reads_onlyD(1) [OF ro m0])
      have body: "fdt_scan_helper cb strings ?body (child\<lparr>name := lx + 4\<rparr> # node) new_child False st2 =
        do {
          (nd, sp) \<leftarrow> visit_props cb m strings ?body (child\<lparr>name := lx + 4\<rparr> # node) ps st2;
          s1 \<leftarrow> call_done cb False nd sp;
          (ch, s2) \<leftarrow> visit_trees cb m strings (words_at lx (2 + length nm div 4 + props_len ps)) nd new_child cs s1;
          Some (words_at lx (tree_len (Dt nm ps cs)), nd, s2)
        }"
        using scan_body [OF ps ro m2, where fin = "words_at lx (tree_len (Dt nm ps cs))" and cs = cs]
          children by (simp del: tree_len.simps)
      have "?l = Option.bind (fdt_scan_helper cb strings ?body (child\<lparr>name := lx + 4\<rparr> # node) new_child False st2)
          (\<lambda>(lx_next, child_node, st3). do {
          (kill, st4) \<leftarrow> call_close cb child_node st3;
          st5 \<leftarrow>
            (if kill then do {
               m5 \<leftarrow> nop_fill lx lx_next (pmem (fst st4));
               Some ((fst st4)\<lparr>pmem := m5\<rparr>, snd st4)
             } else Some st4);
          fdt_scan_helper cb strings lx_next node (hd child_node) True st5
        })"
        by (simp only: Some Option.bind.bind_lunit m2 strlen_cstring [OF nm(1)] at)
      also have "\<dots> = ?r"
        unfolding body close_kept [OF ro m2] visit_tree.simps Some Option.bind.bind_lunit ..
      finally show ?thesis .
    qed
  qed
qed

lemma scan_tree:
  assumes "reads_only cb m"
  shows "tree_at m lx t \<Longrightarrow> pmem (fst st) = m \<Longrightarrow>
    fdt_scan_helper cb strings lx node child seen st =
    do {
      st0 \<leftarrow> call_done cb seen node st;
      (ch, st') \<leftarrow> visit_tree cb m strings lx node child t st0;
      fdt_scan_helper cb strings (words_at lx (tree_len t)) node ch True st'
    }"
    and "trees_at m lx ts \<Longrightarrow> fdt_word m (words_at lx (trees_len ts)) 0 = FDT_END_NODE \<Longrightarrow> pmem (fst st) = m \<Longrightarrow>
    fdt_scan_helper cb strings lx node child seen st =
    do {
      st0 \<leftarrow> call_done cb seen node st;
      (ch, st') \<leftarrow> visit_trees cb m strings lx node child ts st0;
      Some (words_at lx (trees_len ts + 1), node, st')
    }"
proof (induction t and ts arbitrary: lx node child seen st and lx node child seen st
    rule: tree_len_trees_len.induct)
  case (1 nm ps cs)
  let ?body = "words_at lx (2 + length nm div 4 + props_len ps)"
  have "trees_at m ?body cs" and "fdt_word m (words_at ?body (trees_len cs)) 0 = FDT_END_NODE"
    using "1.prems" by auto
  from "1.IH" [OF this] have "fdt_scan_helper cb strings ?body nd new_child False sp
      = do {
          s1 \<leftarrow> call_done cb False nd sp;
          (ch, s2) \<leftarrow> visit_trees cb m strings ?body nd new_child cs s1;
          Some (words_at lx (tree_len (Dt nm ps cs)), nd, s2)
        }" if "pmem (fst sp) = m" for nd sp
    using that by (simp add: add.assoc)
  then show ?case by (rule scan_node [OF "1.prems"(1) assms "1.prems"(2)])
next
  case 2
  then show ?case using scan_end [of st lx] by (simp add: words_at_def)
next
  case (3 t ts)
  have tl: "tree_at m lx t" "trees_at m (words_at lx (tree_len t)) ts"
    "fdt_word m (words_at (words_at lx (tree_len t)) (trees_len ts)) 0 = FDT_END_NODE"
    using "3.prems" by auto
  show ?case
    unfolding "3.IH"(1) [OF tl(1) "3.prems"(3)]
  proof (rule bind_cong_some)
    fix st0 assume "call_done cb seen node st = Some st0"
    then have m0: "pmem (fst st0) = m" using reads_only_call_done assms "3.prems"(3) by blast
    show "do {
        (ch, st') \<leftarrow> visit_tree cb m strings lx node child t st0;
        fdt_scan_helper cb strings (words_at lx (tree_len t)) node ch True st'
      } = do {
        (ch, st') \<leftarrow> visit_trees cb m strings lx node child (t # ts) st0;
        Some (words_at lx (trees_len (t # ts) + 1), node, st')
      }"
    proof (cases "visit_tree cb m strings lx node child t st0")
      case None
      then show ?thesis by simp
    next
      case (Some v)
      obtain ch st1 where v: "v = (ch, st1)" by (cases v)
      have m1: "pmem (fst st1) = m" using reads_only_visit(1) [OF _ assms m0] Some v by blast
      show ?thesis
        using "3.IH"(2) [OF tl(2,3) m1] by (simp add: Some v call_done_def add.assoc)
    qed
  qed
qed

text \<open>A blob: a header that the code understands, one tree, and the end marker.\<close>

definition blob_at :: "mem \<Rightarrow> u64 \<Rightarrow> dtree \<Rightarrow> bool" where
  "blob_at m fdt t \<longleftrightarrow>
     fdt_known m fdt \<and> tree_at m (fdt + ucast (fdt_word m fdt 2)) t \<and>
     fdt_word m (words_at (fdt + ucast (fdt_word m fdt 2)) (tree_len t)) 0 = 9"

text \<open>
  C34. On a blob that holds a tree, and for callbacks that do not write it, the scanner is the
  traversal of the tree: every node is opened, its properties are seen in order, it is done
  before its children, and closed after them, and the scan returns whenever the callbacks
  do.  The cell counts of a node pass on to its next sibling as its defaults.
\<close>

theorem fdt_scan_is_traversal:
  assumes "blob_at m fdt t" and "reads_only cb m" and "pmem s = m"
  shows "fdt_scan fdt cb (s, e)
    = map_option snd (visit_tree cb m (fdt + ucast (fdt_word m fdt 3)) (fdt + ucast (fdt_word m fdt 2))
        [] new_child t (s, e))"
proof -
  let ?lx = "fdt + ucast (fdt_word m fdt 2)" and ?strings = "fdt + ucast (fdt_word m fdt 3)"
  have t: "tree_at m ?lx t" and e: "fdt_word m (words_at ?lx (tree_len t)) 0 = 9"
    and k: "fdt_known m fdt"
    using assms(1) by (auto simp: blob_at_def)
  have st: "pmem (fst (s, e)) = m" using assms(3) by simp
  have last: "fdt_scan_helper cb ?strings (words_at ?lx (tree_len t)) [] ch True st' = Some (words_at ?lx (tree_len t), [], st')"
    if "pmem (fst st') = m" for ch st'
    by (subst fdt_scan_helper.simps) (simp add: that e Let_def call_done_def)
  show ?thesis
    using scan_tree(1) [OF assms(2) t st, of ?strings "[]" new_child False]
      reads_only_visit(1) [OF _ assms(2) st]
    by (cases "visit_tree cb m ?strings ?lx [] new_child t (s, e)")
      (auto simp: fdt_scan_def k assms(3) call_done_def last)
qed

text \<open>A root without a name and with one property, of four bytes; the scan counts properties.\<close>

definition sample_blob :: mem where
  "sample_blob = (\<lambda>_. 0)(0 := 0xD0, 1 := 0x0D, 2 := 0xFE, 3 := 0xED, 11 := 40, 15 := 128, 27 := 16,
     43 := 1, 51 := 3, 55 := 4, 67 := 2, 71 := 9, 128 := 114, 129 := 101, 130 := 103)"

definition count_cb :: "('d, nat) fdt_cb" where
  "count_cb = \<lparr>cb_open = None, cb_prop = (\<lambda>p st. Some (fst st, snd st + 1)), cb_done = None, cb_close = None\<rparr>"

lemma sample_blob_words:
  "fdt_word sample_blob 0 0 = 0xD00DFEED" "fdt_word sample_blob 0 6 = 16" "fdt_word sample_blob 0 2 = 40"
  "fdt_word sample_blob 0 3 = 128"
  "fdt_word sample_blob 40 0 = 1" "fdt_word sample_blob 48 0 = 3" "fdt_word sample_blob 48 (Suc 0) = 4"
  "fdt_word sample_blob 64 0 = 2" "fdt_word sample_blob 68 0 = 9" "sample_blob 44 = 0"
  by code_simp+

lemma sample_blob_at: "blob_at sample_blob 0 (Dt [] [4] [])"
  by (simp add: blob_at_def fdt_known_def sample_blob_words words_at_def props_len_def prop_words_def)

lemma count_cb_reads_only: "reads_only count_cb m"
  by (auto simp: reads_only_def count_cb_def call_open_def call_done_def call_close_def)

lemma fdt_scan_is_traversal_witness:
  "fdt_scan 0 count_cb (sample_plat\<lparr>pmem := sample_blob\<rparr>, 0) = Some (sample_plat\<lparr>pmem := sample_blob\<rparr>, 1)"
  using fdt_scan_is_traversal [OF sample_blob_at count_cb_reads_only, of "sample_plat\<lparr>pmem := sample_blob\<rparr>" 0]
  by (simp add: count_cb_def call_open_def call_done_def call_close_def)

subsection \<open>Enabling interrupt sources\<close>

text \<open>A bus that records the writes to it.\<close>

definition recording :: "(nat \<times> u64 \<times> u64) list bus" where
  "recording = \<lparr>rd = (\<lambda>_ _ d. (0, d)), wr = (\<lambda>n a v d. d @ [(n, a, v)]), amoor_w = (\<lambda>_ _ d. (0, d)),
     amoswap_w = (\<lambda>_ _ d. (0, d)), tohost = 0, fromhost = 0\<rparr>"

lemma enable_fold:
  fixes s :: "(nat \<times> u64 \<times> u64) list plat"
  assumes "plic_s_ie (HLS s) = b" and "b \<noteq> 0"
  shows "fold (\<lambda>i t. if plic_s_ie (HLS t) \<noteq> 0 then bus_write recording 8 (plic_s_ie (HLS t) + 8 * of_nat i) (- 1) t else t) xs s
    = s\<lparr>dev := dev s @ map (\<lambda>i. (8, b + 8 * of_nat i, - 1)) xs\<rparr>"
  using assms
  by (induction xs arbitrary: s) (simp_all add: bus_write_def recording_def HLS_def)

lemma words_of_bits: "n div 64 < (n + 63) div 64 \<longleftrightarrow> n mod 64 \<noteq> (0 :: nat)"
proof -
  have "n + 63 = n mod 64 + 63 + (n div 64) * 64" by simp
  then have "(n + 63) div 64 = n div 64 + (n mod 64 + 63) div 64"
    by (simp only: div_mult_self1)
  moreover have "n mod 64 < 64" by simp
  ultimately show ?thesis
    by (cases "n mod 64 = 0") (simp_all add: div_nat_eqI)
qed

text \<open>
  C35. The interrupt controller numbers its sources from 1 to \<open>n\<close>, and the enable bit of
  source \<open>n\<close> is in word \<open>n div 64\<close>.  The code writes the words below \<open>(n + 63) div 64\<close>: for \<open>n\<close> a
  multiple of 64 the last source stays off, and for no other \<open>n\<close>.
\<close>

theorem plic_enables_all_but_last_of_64:
  fixes s :: "(nat \<times> u64 \<times> u64) list plat"
  assumes "plic_s_ie (HLS s) \<noteq> 0" and n: "plic_ndevs s = of_nat n" "0 < n" "n < 1024"
  shows "(8, plic_s_ie (HLS s) + 8 * of_nat (n div 64), - 1) \<in> set (drop (length (dev s)) (dev (enable_sources recording s)))
    \<longleftrightarrow> n mod 64 \<noteq> 0"
proof -
  have "plic_ndevs s + 64 - 1 = of_nat (n + 63)" using n(1) by simp
  moreover have "unat (of_nat (n + 63) :: u64) = n + 63" using n(3) by (intro unat_of_nat64) simp
  ultimately have "ie_words s = (n + 63) div 64"
    unfolding ie_words_def by (simp only: unat_div_distrib) simp
  then have "set (drop (length (dev s)) (dev (enable_sources recording s)))
      = (\<lambda>i. (8, plic_s_ie (HLS s) + 8 * of_nat i, - 1)) ` {..<(n + 63) div 64}"
    using enable_fold [OF refl assms(1)] by (simp add: enable_sources_def atLeast_upt lessThan_atLeast0)
  then have "(8, plic_s_ie (HLS s) + 8 * of_nat (n div 64), - 1) \<in> set (drop (length (dev s)) (dev (enable_sources recording s)))
      \<longleftrightarrow> (\<exists>i < (n + 63) div 64. 8 * of_nat (n div 64) = (8 * of_nat i :: u64))"
    by (auto simp: image_iff)
  also have "\<dots> \<longleftrightarrow> (\<exists>i < (n + 63) div 64. i = n div 64)"
  proof (intro ex_cong1 conj_cong refl)
    fix i assume i: "i < (n + 63) div 64"
    have "(n + 63) div 64 \<le> 17" using n(3) by simp
    then have "i < 17" using i by simp
    then have "unat (of_nat (8 * i) :: u64) = 8 * i" by (intro unat_of_nat64) simp
    moreover have "unat (of_nat (8 * (n div 64)) :: u64) = 8 * (n div 64)"
      using n(3) by (intro unat_of_nat64) simp
    ultimately have "(of_nat (8 * i) :: u64) = of_nat (8 * (n div 64)) \<longleftrightarrow> i = n div 64"
      by (metis mult_left_cancel zero_neq_numeral)
    then show "8 * of_nat (n div 64) = (8 * of_nat i :: u64) \<longleftrightarrow> i = n div 64" by auto
  qed
  also have "\<dots> \<longleftrightarrow> n div 64 < (n + 63) div 64" by simp
  also have "\<dots> \<longleftrightarrow> n mod 64 \<noteq> 0" by (rule words_of_bits)
  finally show ?thesis .
qed

lemma plic_enables_all_but_last_of_64_witness:
  "(8, 0x2088, - 1) \<notin> set (dev (enable_sources recording
     ((sample_of [])\<lparr>plic_ndevs := 64, hlss := (\<lambda>_. hls_zero\<lparr>plic_s_ie := 0x2080\<rparr>)\<rparr>)))"
  using plic_enables_all_but_last_of_64
    [of "(sample_of [])\<lparr>plic_ndevs := 64, hlss := (\<lambda>_. hls_zero\<lparr>plic_s_ie := 0x2080\<rparr>)\<rparr>" 64]
  by (simp add: HLS_def sample_of_def)

end
