(* ===== verification/SoftFloatPrim.thy ===== *)
theory SoftFloatPrim
  imports Prelude
begin

text \<open>
  The primitives of \<^verbatim>\<open>riscv-pk/softfloat\<close> in the configuration the kernel builds: no
  \<^verbatim>\<open>SOFTFLOAT_FAST_INT64\<close> and no \<^verbatim>\<open>SOFTFLOAT_ROUND_ODD\<close>, little endian, tininess
  detected after rounding.  On a 64-bit target \<^verbatim>\<open>uint_fast16_t\<close> and \<^verbatim>\<open>uint_fast32_t\<close> are 64
  bits wide; the exponents, which stay far inside \<^verbatim>\<open>int_fast16_t\<close>, are integers.

  An operation returns its value with the exception flags it raises: raising only ever sets
  bits of the accrued flags, so the order in which a function raises them is immaterial.

  A number that takes several 32-bit words (\<^verbatim>\<open>uint32_t *\<close>) is the list of its words, the
  least significant one first, as \<^verbatim>\<open>LITTLEENDIAN\<close> has them.  The shifts by whole words of
  \<^verbatim>\<open>s_shiftLeftM.c\<close> and \<^verbatim>\<open>s_shiftRightJamM.c\<close> require a distance other than zero, as
  their comments in \<^verbatim>\<open>primitives.h\<close> say, and every caller respects that.
\<close>

type_synonym 'a raised = "'a \<times> u32"

abbreviation flag_inexact :: u32 where "flag_inexact \<equiv> 1"
abbreviation flag_underflow :: u32 where "flag_underflow \<equiv> 2"
abbreviation flag_overflow :: u32 where "flag_overflow \<equiv> 4"
abbreviation flag_infinite :: u32 where "flag_infinite \<equiv> 8"
abbreviation flag_invalid :: u32 where "flag_invalid \<equiv> 16"

abbreviation round_near_even :: u32 where "round_near_even \<equiv> 0"
abbreviation round_minMag :: u32 where "round_minMag \<equiv> 1"
abbreviation round_min :: u32 where "round_min \<equiv> 2"
abbreviation round_max :: u32 where "round_max \<equiv> 3"
abbreviation round_near_maxMag :: u32 where "round_near_maxMag \<equiv> 4"

definition raising :: "u32 \<Rightarrow> 'a raised \<Rightarrow> 'a raised" where
  "raising fl r = (fst r, snd r OR fl)"

subsection \<open>Fields of a number (internals.h)\<close>

definition signF32UI :: "u64 \<Rightarrow> bool" where "signF32UI a = (drop_bit 31 (ucast a :: u32) \<noteq> 0)"
definition expF32UI :: "u64 \<Rightarrow> int" where "expF32UI a = uint (drop_bit 23 a AND 0xFF)"
definition fracF32UI :: "u64 \<Rightarrow> u64" where "fracF32UI a = a AND 0x7FFFFF"

definition packToF32UI :: "bool \<Rightarrow> int \<Rightarrow> u64 \<Rightarrow> u64" where
  "packToF32UI sign e sig =
     ucast (push_bit 31 (of_bool sign) + push_bit 23 (word_of_int e) :: u32) + sig"

definition isNaNF32UI :: "u64 \<Rightarrow> bool" where
  "isNaNF32UI a = (NOT a AND 0x7F800000 = 0 \<and> a AND 0x7FFFFF \<noteq> 0)"

definition signF64UI :: "u64 \<Rightarrow> bool" where "signF64UI a = (drop_bit 63 a \<noteq> 0)"
definition expF64UI :: "u64 \<Rightarrow> int" where "expF64UI a = uint (drop_bit 52 a AND 0x7FF)"
definition fracF64UI :: "u64 \<Rightarrow> u64" where "fracF64UI a = a AND 0xFFFFFFFFFFFFF"

definition packToF64UI :: "bool \<Rightarrow> int \<Rightarrow> u64 \<Rightarrow> u64" where
  "packToF64UI sign e sig = push_bit 63 (of_bool sign) + push_bit 52 (word_of_int e) + sig"

definition isNaNF64UI :: "u64 \<Rightarrow> bool" where
  "isNaNF64UI a = (NOT a AND 0x7FF0000000000000 = 0 \<and> a AND 0xFFFFFFFFFFFFF \<noteq> 0)"

subsection \<open>Not-a-number values (specialize.h)\<close>

definition defaultNaNF32UI :: u64 where "defaultNaNF32UI = 0x7FC00000"
definition defaultNaNF64UI :: u64 where "defaultNaNF64UI = 0x7FF8000000000000"

definition isSigNaNF32UI :: "u64 \<Rightarrow> bool" where
  "isSigNaNF32UI a = (a AND 0x7FC00000 = 0x7F800000 \<and> a AND 0x3FFFFF \<noteq> 0)"

definition isSigNaNF64UI :: "u64 \<Rightarrow> bool" where
  "isSigNaNF64UI a = (a AND 0x7FF8000000000000 = 0x7FF0000000000000 \<and> a AND 0x7FFFFFFFFFFFF \<noteq> 0)"

definition propagateNaNF32UI :: "u64 \<Rightarrow> u64 \<Rightarrow> u64 raised" where
  "propagateNaNF32UI a b =
     (defaultNaNF32UI, if isSigNaNF32UI a \<or> isSigNaNF32UI b then flag_invalid else 0)"

definition propagateNaNF64UI :: "u64 \<Rightarrow> u64 \<Rightarrow> u64 raised" where
  "propagateNaNF64UI a b =
     (defaultNaNF64UI, if isSigNaNF64UI a \<or> isSigNaNF64UI b then flag_invalid else 0)"

subsection \<open>Shifts that keep a sticky bit\<close>

definition shiftRightJam32 :: "u32 \<Rightarrow> u64 \<Rightarrow> u32" where
  "shiftRightJam32 a dist =
     (if dist < 31 then drop_bit (unat dist) a OR of_bool (push_bit (unat (- dist AND 31)) a \<noteq> 0)
      else of_bool (a \<noteq> 0))"

definition shiftRightJam64 :: "u64 \<Rightarrow> u64 \<Rightarrow> u64" where
  "shiftRightJam64 a dist =
     (if dist < 63 then drop_bit (unat dist) a OR of_bool (push_bit (unat (- dist AND 63)) a \<noteq> 0)
      else of_bool (a \<noteq> 0))"

definition shortShiftRightJam64 :: "u64 \<Rightarrow> nat \<Rightarrow> u64" where
  "shortShiftRightJam64 a dist = drop_bit dist a OR of_bool (a AND (push_bit dist 1 - 1) \<noteq> 0)"

subsection \<open>Leading zeros\<close>

definition countLeadingZeros8_table :: "nat list" where
  "countLeadingZeros8_table =
     [8, 7, 6, 6, 5, 5, 5, 5, 4, 4, 4, 4, 4, 4, 4, 4,
      3, 3, 3, 3, 3, 3, 3, 3, 3, 3, 3, 3, 3, 3, 3, 3,
      2, 2, 2, 2, 2, 2, 2, 2, 2, 2, 2, 2, 2, 2, 2, 2,
      2, 2, 2, 2, 2, 2, 2, 2, 2, 2, 2, 2, 2, 2, 2, 2,
      1, 1, 1, 1, 1, 1, 1, 1, 1, 1, 1, 1, 1, 1, 1, 1,
      1, 1, 1, 1, 1, 1, 1, 1, 1, 1, 1, 1, 1, 1, 1, 1,
      1, 1, 1, 1, 1, 1, 1, 1, 1, 1, 1, 1, 1, 1, 1, 1,
      1, 1, 1, 1, 1, 1, 1, 1, 1, 1, 1, 1, 1, 1, 1, 1,
      0, 0, 0, 0, 0, 0, 0, 0, 0, 0, 0, 0, 0, 0, 0, 0,
      0, 0, 0, 0, 0, 0, 0, 0, 0, 0, 0, 0, 0, 0, 0, 0,
      0, 0, 0, 0, 0, 0, 0, 0, 0, 0, 0, 0, 0, 0, 0, 0,
      0, 0, 0, 0, 0, 0, 0, 0, 0, 0, 0, 0, 0, 0, 0, 0,
      0, 0, 0, 0, 0, 0, 0, 0, 0, 0, 0, 0, 0, 0, 0, 0,
      0, 0, 0, 0, 0, 0, 0, 0, 0, 0, 0, 0, 0, 0, 0, 0,
      0, 0, 0, 0, 0, 0, 0, 0, 0, 0, 0, 0, 0, 0, 0, 0,
      0, 0, 0, 0, 0, 0, 0, 0, 0, 0, 0, 0, 0, 0, 0, 0]"

definition countLeadingZeros8 :: "u32 \<Rightarrow> nat" where
  "countLeadingZeros8 a = countLeadingZeros8_table ! unat a"

definition countLeadingZeros32 :: "u32 \<Rightarrow> nat" where
  "countLeadingZeros32 a =
     (let (c1, a1) = (if a < 0x10000 then (16, push_bit 16 a) else (0, a));
          (c2, a2) = (if a1 < 0x1000000 then (c1 + 8, push_bit 8 a1) else (c1, a1))
      in c2 + countLeadingZeros8 (drop_bit 24 a2))"

definition countLeadingZeros64 :: "u64 \<Rightarrow> nat" where
  "countLeadingZeros64 a =
     (let (c1, a1) = (let h = (ucast (drop_bit 32 a) :: u32)
                      in if h = 0 then (32, ucast a) else (0, h));
          (c2, a2) = (if a1 < 0x10000 then (c1 + 16, push_bit 16 a1) else (c1, a1));
          (c3, a3) = (if a2 < 0x1000000 then (c2 + 8, push_bit 8 a2) else (c2, a2))
      in c3 + countLeadingZeros8 (drop_bit 24 a3))"

subsection \<open>Numbers of several words\<close>

definition mul64To128M :: "u64 \<Rightarrow> u64 \<Rightarrow> u32 list" where
  "mul64To128M a b =
     (let a32 = (ucast (drop_bit 32 a) :: u32); a0 = (ucast a :: u32);
          b32 = (ucast (drop_bit 32 b) :: u32); b0 = (ucast b :: u32);
          z0 = (ucast a0 :: u64) * ucast b0;
          mid1 = (ucast a32 :: u64) * ucast b0;
          mid = mid1 + (ucast a0 :: u64) * ucast b32;
          z64 = (ucast a32 :: u64) * ucast b32;
          z64 = z64 + (push_bit 32 (of_bool (mid < mid1)) OR drop_bit 32 mid);
          mid = push_bit 32 mid;
          z0 = z0 + mid;
          z64' = z64 + of_bool (z0 < mid)
      in [ucast z0, ucast (drop_bit 32 z0), ucast z64', ucast (drop_bit 32 z64')])"

fun addM :: "u32 \<Rightarrow> u32 list \<Rightarrow> u32 list \<Rightarrow> u32 list" where
  "addM carry (wordA # as) (wordB # bs) =
     (let wordZ = wordA + wordB + carry
      in wordZ # addM (if wordZ \<noteq> wordA then of_bool (wordZ < wordA) else carry) as bs)"
| "addM carry _ _ = []"

fun subM :: "u32 \<Rightarrow> u32 list \<Rightarrow> u32 list \<Rightarrow> u32 list" where
  "subM borrow (wordA # as) (wordB # bs) =
     (wordA - wordB - borrow) #
       subM (of_bool (if borrow \<noteq> 0 then wordA \<le> wordB else wordA < wordB)) as bs"
| "subM borrow _ _ = []"

fun negXM :: "u32 \<Rightarrow> u32 list \<Rightarrow> u32 list" where
  "negXM carry (z # zs) =
     (let word = NOT z + carry in word # negXM (if word \<noteq> 0 then 0 else carry) zs)"
| "negXM carry [] = []"

text \<open>
  The words below the one at hand enter from its low end: \<open>low\<close> is the part that the next
  lower word contributes.
\<close>

fun shortShiftLeftM :: "nat \<Rightarrow> u32 \<Rightarrow> u32 list \<Rightarrow> u32 list" where
  "shortShiftLeftM dist low (wordA # as) =
     (push_bit dist wordA OR low) #
       shortShiftLeftM dist (drop_bit (unat (- (of_nat dist :: u8) AND 31)) wordA) as"
| "shortShiftLeftM dist low [] = []"

fun shortShiftRightM :: "nat \<Rightarrow> u32 \<Rightarrow> u32 list \<Rightarrow> u32 list" where
  "shortShiftRightM dist partWordZ (wordA # as) =
     (push_bit (unat (- (of_nat dist :: u8) AND 31)) wordA OR partWordZ) #
       shortShiftRightM dist (drop_bit dist wordA) as"
| "shortShiftRightM dist partWordZ [] = [partWordZ]"

definition shortShiftRight128M :: "u32 list \<Rightarrow> nat \<Rightarrow> u32 list" where
  "shortShiftRight128M a dist = shortShiftRightM dist (drop_bit dist (hd a)) (tl a)"

definition shortShiftRightJamM :: "u32 list \<Rightarrow> nat \<Rightarrow> u32 list" where
  "shortShiftRightJamM a dist =
     (let wordA = hd a; partWordZ = drop_bit dist wordA
      in shortShiftRightM dist
           (if push_bit dist partWordZ \<noteq> wordA then partWordZ OR 1 else partWordZ) (tl a))"

definition shiftLeftM :: "u32 list \<Rightarrow> nat \<Rightarrow> u32 list" where
  "shiftLeftM a dist =
     (let n = length a; wordDist = dist div 32; innerDist = dist mod 32
      in if wordDist < n then
           replicate wordDist 0 @
             (if innerDist \<noteq> 0 then shortShiftLeftM innerDist 0 (take (n - wordDist) a)
              else take (n - wordDist) a)
         else replicate n 0)"

definition shiftRightJamM :: "u32 list \<Rightarrow> nat \<Rightarrow> u32 list" where
  "shiftRightJamM a dist =
     (let n = length a; wordDist = min n (dist div 32); innerDist = dist mod 32;
          wordJam = list_ex (\<lambda>w. w \<noteq> 0) (take wordDist a);
          z = (if wordDist < n then
                 (if innerDist \<noteq> 0 then shortShiftRightJamM (drop wordDist a) innerDist
                  else drop wordDist a) @ replicate wordDist 0
               else replicate n 0)
      in if wordJam then z[0 := z ! 0 OR 1] else z)"

text \<open>The 64-bit number in two of the words.\<close>

definition words64 :: "u32 \<Rightarrow> u32 \<Rightarrow> u64" where
  "words64 hi lo = push_bit 32 (ucast hi) OR ucast lo"

subsection \<open>Subnormal numbers\<close>

definition normSubnormalF32Sig :: "u64 \<Rightarrow> int \<times> u64" where
  "normSubnormalF32Sig sig =
     (let shiftDist = int (countLeadingZeros32 (ucast sig)) - 8
      in (1 - shiftDist, push_bit (nat shiftDist) sig))"

definition normSubnormalF64Sig :: "u64 \<Rightarrow> int \<times> u64" where
  "normSubnormalF64Sig sig =
     (let shiftDist = int (countLeadingZeros64 sig) - 11
      in (1 - shiftDist, push_bit (nat shiftDist) sig))"

subsection \<open>Rounding and packing\<close>

text \<open>What is added to the significand before its low bits are cut off.\<close>

definition roundIncrement :: "u32 \<Rightarrow> bool \<Rightarrow> u64 \<Rightarrow> u64 \<Rightarrow> u64" where
  "roundIncrement rm sign half full =
     (if rm \<noteq> round_near_even \<and> rm \<noteq> round_near_maxMag then
        (if rm = (if sign then round_min else round_max) then full else 0)
      else half)"

definition packRoundedF32 :: "u32 \<Rightarrow> bool \<Rightarrow> int \<Rightarrow> u64 \<Rightarrow> u64 \<Rightarrow> u64 \<Rightarrow> u32 raised" where
  "packRoundedF32 rm sign e sig inc roundBits =
     (let sig = drop_bit 7 (sig + inc);
          sig = sig AND NOT (of_bool (roundBits = 0x40 \<and> rm = round_near_even));
          e = (if sig = 0 then 0 else e)
      in (ucast (packToF32UI sign e sig), if roundBits \<noteq> 0 then flag_inexact else 0))"

definition roundPackToF32 :: "u32 \<Rightarrow> bool \<Rightarrow> int \<Rightarrow> u64 \<Rightarrow> u32 raised" where
  "roundPackToF32 rm sign e sig =
     (let inc = roundIncrement rm sign 0x40 0x7F
      in if 0xFD \<le> e mod 2 ^ 32 then
           if e < 0 then
             let isTiny = (e < - 1 \<or> sig + inc < 0x80000000);
                 sig = ucast (shiftRightJam32 (ucast sig) (word_of_int (- e)));
                 roundBits = sig AND 0x7F
             in raising (if isTiny \<and> roundBits \<noteq> 0 then flag_underflow else 0)
                  (packRoundedF32 rm sign 0 sig inc roundBits)
           else if 0xFD < e \<or> 0x80000000 \<le> sig + inc then
             (ucast (packToF32UI sign 0xFF 0 - of_bool (inc = 0)), flag_overflow OR flag_inexact)
           else packRoundedF32 rm sign e sig inc (sig AND 0x7F)
         else packRoundedF32 rm sign e sig inc (sig AND 0x7F))"

definition packRoundedF64 :: "u32 \<Rightarrow> bool \<Rightarrow> int \<Rightarrow> u64 \<Rightarrow> u64 \<Rightarrow> u64 \<Rightarrow> u64 raised" where
  "packRoundedF64 rm sign e sig inc roundBits =
     (let sig = drop_bit 10 (sig + inc);
          sig = sig AND NOT (of_bool (roundBits = 0x200 \<and> rm = round_near_even));
          e = (if sig = 0 then 0 else e)
      in (packToF64UI sign e sig, if roundBits \<noteq> 0 then flag_inexact else 0))"

definition roundPackToF64 :: "u32 \<Rightarrow> bool \<Rightarrow> int \<Rightarrow> u64 \<Rightarrow> u64 raised" where
  "roundPackToF64 rm sign e sig =
     (let inc = roundIncrement rm sign 0x200 0x3FF
      in if 0x7FD \<le> e mod 2 ^ 16 then
           if e < 0 then
             let isTiny = (e < - 1 \<or> sig + inc < 0x8000000000000000);
                 sig = shiftRightJam64 sig (word_of_int (- e));
                 roundBits = sig AND 0x3FF
             in raising (if isTiny \<and> roundBits \<noteq> 0 then flag_underflow else 0)
                  (packRoundedF64 rm sign 0 sig inc roundBits)
           else if 0x7FD < e \<or> 0x8000000000000000 \<le> sig + inc then
             (packToF64UI sign 0x7FF 0 - of_bool (inc = 0), flag_overflow OR flag_inexact)
           else packRoundedF64 rm sign e sig inc (sig AND 0x3FF)
         else packRoundedF64 rm sign e sig inc (sig AND 0x3FF))"

definition normRoundPackToF32 :: "u32 \<Rightarrow> bool \<Rightarrow> int \<Rightarrow> u64 \<Rightarrow> u32 raised" where
  "normRoundPackToF32 rm sign e sig =
     (let shiftDist = int (countLeadingZeros32 (ucast sig)) - 1;
          e = e - shiftDist
      in if 7 \<le> shiftDist \<and> e mod 2 ^ 32 < 0xFD then
           (ucast (packToF32UI sign (if sig \<noteq> 0 then e else 0) (push_bit (nat (shiftDist - 7)) sig)), 0)
         else roundPackToF32 rm sign e (push_bit (nat shiftDist) sig))"

definition normRoundPackToF64 :: "u32 \<Rightarrow> bool \<Rightarrow> int \<Rightarrow> u64 \<Rightarrow> u64 raised" where
  "normRoundPackToF64 rm sign e sig =
     (let shiftDist = int (countLeadingZeros64 sig) - 1;
          e = e - shiftDist
      in if 10 \<le> shiftDist \<and> e mod 2 ^ 32 < 0x7FD then
           (packToF64UI sign (if sig \<noteq> 0 then e else 0) (push_bit (nat (shiftDist - 10)) sig), 0)
         else roundPackToF64 rm sign e (push_bit (nat shiftDist) sig))"

end
