(* ===== verification/SoftFloat.thy ===== *)
theory SoftFloat
  imports SoftFloatPrim
begin

text \<open>
  The operations of \<^verbatim>\<open>riscv-pk/softfloat\<close> that the floating-point emulation calls, on the
  bit patterns of single (\<^theory_text>\<open>u32\<close>) and double (\<^theory_text>\<open>u64\<close>) precision.  The rounding mode, which
  the code reads from \<^verbatim>\<open>tp\<close>, is the argument \<open>rm\<close>.  A \<^verbatim>\<open>goto\<close> to one of the common
  ends of a function is a call of a definition for that end.
\<close>

subsection \<open>Comparison and classification\<close>

text \<open>What a quiet comparison raises for a NaN, and the order of two numbers.\<close>

definition f32_eq :: "u32 \<Rightarrow> u32 \<Rightarrow> bool raised" where
  "f32_eq a b =
     (let uiA = ucast a; uiB = ucast b
      in if isNaNF32UI uiA \<or> isNaNF32UI uiB then
           (False, if isSigNaNF32UI uiA \<or> isSigNaNF32UI uiB then flag_invalid else 0)
         else (uiA = uiB \<or> (ucast (push_bit 1 (uiA OR uiB)) :: u32) = 0, 0))"

definition f64_eq :: "u64 \<Rightarrow> u64 \<Rightarrow> bool raised" where
  "f64_eq uiA uiB =
     (if isNaNF64UI uiA \<or> isNaNF64UI uiB then
        (False, if isSigNaNF64UI uiA \<or> isSigNaNF64UI uiB then flag_invalid else 0)
      else (uiA = uiB \<or> (uiA OR uiB) AND 0x7FFFFFFFFFFFFFFF = 0, 0))"

definition f32_less :: "u64 \<Rightarrow> u64 \<Rightarrow> bool" where
  "f32_less uiA uiB =
     (let signA = signF32UI uiA; signB = signF32UI uiB
      in if signA \<noteq> signB then signA \<and> (ucast (push_bit 1 (uiA OR uiB)) :: u32) \<noteq> 0
         else uiA \<noteq> uiB \<and> (signA \<noteq> (uiA < uiB)))"

definition f64_less :: "u64 \<Rightarrow> u64 \<Rightarrow> bool" where
  "f64_less uiA uiB =
     (let signA = signF64UI uiA; signB = signF64UI uiB
      in if signA \<noteq> signB then signA \<and> (uiA OR uiB) AND 0x7FFFFFFFFFFFFFFF \<noteq> 0
         else uiA \<noteq> uiB \<and> (signA \<noteq> (uiA < uiB)))"

definition f32_lt :: "u32 \<Rightarrow> u32 \<Rightarrow> bool raised" where
  "f32_lt a b =
     (let uiA = ucast a; uiB = ucast b
      in if isNaNF32UI uiA \<or> isNaNF32UI uiB then (False, flag_invalid)
         else (f32_less uiA uiB, 0))"

definition f64_lt :: "u64 \<Rightarrow> u64 \<Rightarrow> bool raised" where
  "f64_lt uiA uiB =
     (if isNaNF64UI uiA \<or> isNaNF64UI uiB then (False, flag_invalid)
      else (f64_less uiA uiB, 0))"

definition f32_lt_quiet :: "u32 \<Rightarrow> u32 \<Rightarrow> bool raised" where
  "f32_lt_quiet a b =
     (let uiA = ucast a; uiB = ucast b
      in if isNaNF32UI uiA \<or> isNaNF32UI uiB then
           (False, if isSigNaNF32UI uiA \<or> isSigNaNF32UI uiB then flag_invalid else 0)
         else (f32_less uiA uiB, 0))"

definition f64_lt_quiet :: "u64 \<Rightarrow> u64 \<Rightarrow> bool raised" where
  "f64_lt_quiet uiA uiB =
     (if isNaNF64UI uiA \<or> isNaNF64UI uiB then
        (False, if isSigNaNF64UI uiA \<or> isSigNaNF64UI uiB then flag_invalid else 0)
      else (f64_less uiA uiB, 0))"

definition f32_classify :: "u32 \<Rightarrow> u64" where
  "f32_classify a =
     (let uiA = ucast a;
          infOrNaN = (expF32UI uiA = 0xFF);
          subnormalOrZero = (expF32UI uiA = 0);
          sign = signF32UI uiA
      in push_bit 0 (of_bool (sign \<and> infOrNaN \<and> fracF32UI uiA = 0)) OR
         push_bit 1 (of_bool (sign \<and> \<not> infOrNaN \<and> \<not> subnormalOrZero)) OR
         push_bit 2 (of_bool (sign \<and> subnormalOrZero \<and> fracF32UI uiA \<noteq> 0)) OR
         push_bit 3 (of_bool (sign \<and> subnormalOrZero \<and> fracF32UI uiA = 0)) OR
         push_bit 7 (of_bool (\<not> sign \<and> infOrNaN \<and> fracF32UI uiA = 0)) OR
         push_bit 6 (of_bool (\<not> sign \<and> \<not> infOrNaN \<and> \<not> subnormalOrZero)) OR
         push_bit 5 (of_bool (\<not> sign \<and> subnormalOrZero \<and> fracF32UI uiA \<noteq> 0)) OR
         push_bit 4 (of_bool (\<not> sign \<and> subnormalOrZero \<and> fracF32UI uiA = 0)) OR
         push_bit 8 (of_bool (isNaNF32UI uiA \<and> isSigNaNF32UI uiA)) OR
         push_bit 9 (of_bool (isNaNF32UI uiA \<and> \<not> isSigNaNF32UI uiA)))"

definition f64_classify :: "u64 \<Rightarrow> u64" where
  "f64_classify uiA =
     (let infOrNaN = (expF64UI uiA = 0x7FF);
          subnormalOrZero = (expF64UI uiA = 0);
          sign = signF64UI uiA
      in push_bit 0 (of_bool (sign \<and> infOrNaN \<and> fracF64UI uiA = 0)) OR
         push_bit 1 (of_bool (sign \<and> \<not> infOrNaN \<and> \<not> subnormalOrZero)) OR
         push_bit 2 (of_bool (sign \<and> subnormalOrZero \<and> fracF64UI uiA \<noteq> 0)) OR
         push_bit 3 (of_bool (sign \<and> subnormalOrZero \<and> fracF64UI uiA = 0)) OR
         push_bit 7 (of_bool (\<not> sign \<and> infOrNaN \<and> fracF64UI uiA = 0)) OR
         push_bit 6 (of_bool (\<not> sign \<and> \<not> infOrNaN \<and> \<not> subnormalOrZero)) OR
         push_bit 5 (of_bool (\<not> sign \<and> subnormalOrZero \<and> fracF64UI uiA \<noteq> 0)) OR
         push_bit 4 (of_bool (\<not> sign \<and> subnormalOrZero \<and> fracF64UI uiA = 0)) OR
         push_bit 8 (of_bool (isNaNF64UI uiA \<and> isSigNaNF64UI uiA)) OR
         push_bit 9 (of_bool (isNaNF64UI uiA \<and> \<not> isSigNaNF64UI uiA)))"

subsection \<open>Addition and subtraction\<close>

definition nan32 :: "u64 \<Rightarrow> u64 \<Rightarrow> u32 raised" where
  "nan32 uiA uiB = (let r = propagateNaNF32UI uiA uiB in (ucast (fst r), snd r))"

definition addMagsF32 :: "u32 \<Rightarrow> u64 \<Rightarrow> u64 \<Rightarrow> u32 raised" where
  "addMagsF32 rm uiA uiB =
     (let expA = expF32UI uiA; sigA = fracF32UI uiA;
          expB = expF32UI uiB; sigB = fracF32UI uiB;
          expDiff = expA - expB;
          signZ = signF32UI uiA
      in if expDiff = 0 then
           if expA = 0 then (ucast (uiA + sigB), 0)
           else if expA = 0xFF then
             (if sigA OR sigB \<noteq> 0 then nan32 uiA uiB else (ucast uiA, 0))
           else
             let sigZ = 0x1000000 + sigA + sigB
             in if sigZ AND 1 = 0 \<and> expA < 0xFE then
                  (ucast (packToF32UI signZ expA (drop_bit 1 sigZ)), 0)
                else roundPackToF32 rm signZ expA (push_bit 6 sigZ)
         else
           let sigA = push_bit 6 sigA; sigB = push_bit 6 sigB;
               finish = (\<lambda>expZ sigA sigB.
                 let sigZ = 0x20000000 + sigA + sigB
                 in if sigZ < 0x40000000 then roundPackToF32 rm signZ (expZ - 1) (push_bit 1 sigZ)
                    else roundPackToF32 rm signZ expZ sigZ)
           in if expDiff < 0 then
                if expB = 0xFF then
                  (if sigB \<noteq> 0 then nan32 uiA uiB else (ucast (packToF32UI signZ 0xFF 0), 0))
                else
                  let sigA = sigA + (if expA \<noteq> 0 then 0x20000000 else sigA)
                  in finish expB (ucast (shiftRightJam32 (ucast sigA) (word_of_int (- expDiff)))) sigB
              else
                if expA = 0xFF then
                  (if sigA \<noteq> 0 then nan32 uiA uiB else (ucast uiA, 0))
                else
                  let sigB = sigB + (if expB \<noteq> 0 then 0x20000000 else sigB)
                  in finish expA sigA (ucast (shiftRightJam32 (ucast sigB) (word_of_int expDiff))))"

definition subMagsF32 :: "u32 \<Rightarrow> u64 \<Rightarrow> u64 \<Rightarrow> u32 raised" where
  "subMagsF32 rm uiA uiB =
     (let expA = expF32UI uiA; sigA = fracF32UI uiA;
          expB = expF32UI uiB; sigB = fracF32UI uiB;
          expDiff = expA - expB;
          signZ = signF32UI uiA
      in if expDiff = 0 then
           if expA = 0xFF then
             (if sigA OR sigB \<noteq> 0 then nan32 uiA uiB else (ucast defaultNaNF32UI, flag_invalid))
           else
             let sigDiff = sigA - sigB
             in if sigDiff = 0 then (ucast (packToF32UI (rm = round_min) 0 0), 0)
                else
                  let expA = (if expA \<noteq> 0 then expA - 1 else expA);
                      (signZ, sigDiff) = (if sigDiff <s 0 then (\<not> signZ, - sigDiff) else (signZ, sigDiff));
                      shiftDist = int (countLeadingZeros32 (ucast sigDiff)) - 8;
                      expZ = expA - shiftDist;
                      (shiftDist, expZ) = (if expZ < 0 then (expA, 0) else (shiftDist, expZ))
                  in (ucast (packToF32UI signZ expZ (push_bit (nat shiftDist) sigDiff)), 0)
         else
           let sigA = push_bit 7 sigA; sigB = push_bit 7 sigB;
               finish = (\<lambda>signZ expZ sigX sigY expDiff.
                 normRoundPackToF32 rm signZ expZ
                   (sigX - ucast (shiftRightJam32 (ucast sigY) (word_of_int expDiff))))
           in if expDiff < 0 then
                if expB = 0xFF then
                  (if sigB \<noteq> 0 then nan32 uiA uiB else (ucast (packToF32UI (\<not> signZ) 0xFF 0), 0))
                else finish (\<not> signZ) (expB - 1) (sigB OR 0x40000000)
                       (sigA + (if expA \<noteq> 0 then 0x40000000 else sigA)) (- expDiff)
              else
                if expA = 0xFF then
                  (if sigA \<noteq> 0 then nan32 uiA uiB else (ucast uiA, 0))
                else finish signZ (expA - 1) (sigA OR 0x40000000)
                       (sigB + (if expB \<noteq> 0 then 0x40000000 else sigB)) expDiff)"

definition f32_add :: "u32 \<Rightarrow> u32 \<Rightarrow> u32 \<Rightarrow> u32 raised" where
  "f32_add rm a b =
     (let uiA = ucast a; uiB = ucast b
      in if signF32UI (uiA XOR uiB) then subMagsF32 rm uiA uiB else addMagsF32 rm uiA uiB)"

definition addMagsF64 :: "u32 \<Rightarrow> u64 \<Rightarrow> u64 \<Rightarrow> bool \<Rightarrow> u64 raised" where
  "addMagsF64 rm uiA uiB signZ =
     (let expA = expF64UI uiA; sigA = fracF64UI uiA;
          expB = expF64UI uiB; sigB = fracF64UI uiB;
          expDiff = expA - expB
      in if expDiff = 0 then
           if expA = 0 then (uiA + sigB, 0)
           else if expA = 0x7FF then
             (if sigA OR sigB \<noteq> 0 then propagateNaNF64UI uiA uiB else (uiA, 0))
           else roundPackToF64 rm signZ expA (push_bit 9 (0x20000000000000 + sigA + sigB))
         else
           let sigA = push_bit 9 sigA; sigB = push_bit 9 sigB;
               finish = (\<lambda>expZ sigA sigB.
                 let sigZ = 0x2000000000000000 + sigA + sigB
                 in if sigZ < 0x4000000000000000
                    then roundPackToF64 rm signZ (expZ - 1) (push_bit 1 sigZ)
                    else roundPackToF64 rm signZ expZ sigZ)
           in if expDiff < 0 then
                if expB = 0x7FF then
                  (if sigB \<noteq> 0 then propagateNaNF64UI uiA uiB else (packToF64UI signZ 0x7FF 0, 0))
                else
                  let sigA = (if expA \<noteq> 0 then sigA + 0x2000000000000000 else push_bit 1 sigA)
                  in finish expB (shiftRightJam64 sigA (word_of_int (- expDiff))) sigB
              else
                if expA = 0x7FF then
                  (if sigA \<noteq> 0 then propagateNaNF64UI uiA uiB else (uiA, 0))
                else
                  let sigB = (if expB \<noteq> 0 then sigB + 0x2000000000000000 else push_bit 1 sigB)
                  in finish expA sigA (shiftRightJam64 sigB (word_of_int expDiff)))"

definition subMagsF64 :: "u32 \<Rightarrow> u64 \<Rightarrow> u64 \<Rightarrow> bool \<Rightarrow> u64 raised" where
  "subMagsF64 rm uiA uiB signZ =
     (let expA = expF64UI uiA; sigA = fracF64UI uiA;
          expB = expF64UI uiB; sigB = fracF64UI uiB;
          expDiff = expA - expB
      in if expDiff = 0 then
           if expA = 0x7FF then
             (if sigA OR sigB \<noteq> 0 then propagateNaNF64UI uiA uiB else (defaultNaNF64UI, flag_invalid))
           else
             let sigDiff = sigA - sigB
             in if sigDiff = 0 then (packToF64UI (rm = round_min) 0 0, 0)
                else
                  let expA = (if expA \<noteq> 0 then expA - 1 else expA);
                      (signZ, sigDiff) = (if sigDiff <s 0 then (\<not> signZ, - sigDiff) else (signZ, sigDiff));
                      shiftDist = int (countLeadingZeros64 sigDiff) - 11;
                      expZ = expA - shiftDist;
                      (shiftDist, expZ) = (if expZ < 0 then (expA, 0) else (shiftDist, expZ))
                  in (packToF64UI signZ expZ (push_bit (nat shiftDist) sigDiff), 0)
         else
           let sigA = push_bit 10 sigA; sigB = push_bit 10 sigB
           in if expDiff < 0 then
                if expB = 0x7FF then
                  (if sigB \<noteq> 0 then propagateNaNF64UI uiA uiB else (packToF64UI (\<not> signZ) 0x7FF 0, 0))
                else
                  let sigA = sigA + (if expA \<noteq> 0 then 0x4000000000000000 else sigA);
                      sigA = shiftRightJam64 sigA (word_of_int (- expDiff));
                      sigB = sigB OR 0x4000000000000000
                  in normRoundPackToF64 rm (\<not> signZ) (expB - 1) (sigB - sigA)
              else
                if expA = 0x7FF then
                  (if sigA \<noteq> 0 then propagateNaNF64UI uiA uiB else (uiA, 0))
                else
                  let sigB = sigB + (if expB \<noteq> 0 then 0x4000000000000000 else sigB);
                      sigB = shiftRightJam64 sigB (word_of_int expDiff);
                      sigA = sigA OR 0x4000000000000000
                  in normRoundPackToF64 rm signZ (expA - 1) (sigA - sigB))"

definition f64_add :: "u32 \<Rightarrow> u64 \<Rightarrow> u64 \<Rightarrow> u64 raised" where
  "f64_add rm uiA uiB =
     (let signA = signF64UI uiA; signB = signF64UI uiB
      in if signA = signB then addMagsF64 rm uiA uiB signA else subMagsF64 rm uiA uiB signA)"

subsection \<open>Multiplication\<close>

text \<open>A nonzero finite number with its leading bit made explicit by \<^verbatim>\<open>normSubnormal\<close>.\<close>

definition normF32 :: "int \<Rightarrow> u64 \<Rightarrow> int \<times> u64" where
  "normF32 e sig = (if e = 0 then normSubnormalF32Sig sig else (e, sig))"

definition normF64 :: "int \<Rightarrow> u64 \<Rightarrow> int \<times> u64" where
  "normF64 e sig = (if e = 0 then normSubnormalF64Sig sig else (e, sig))"

definition f32_mul :: "u32 \<Rightarrow> u32 \<Rightarrow> u32 \<Rightarrow> u32 raised" where
  "f32_mul rm a b =
     (let uiA = ucast a; uiB = ucast b;
          expA = expF32UI uiA; sigA = fracF32UI uiA;
          expB = expF32UI uiB; sigB = fracF32UI uiB;
          signZ = (signF32UI uiA \<noteq> signF32UI uiB);
          infArg = (\<lambda>magBits. if magBits = 0 then (ucast defaultNaNF32UI, flag_invalid)
                      else (ucast (packToF32UI signZ 0xFF 0), 0));
          zero = (ucast (packToF32UI signZ 0 0), 0)
      in if expA = 0xFF then
           if sigA \<noteq> 0 \<or> expB = 0xFF \<and> sigB \<noteq> 0 then nan32 uiA uiB
           else infArg (word_of_int expB OR sigB)
         else if expB = 0xFF then
           if sigB \<noteq> 0 then nan32 uiA uiB else infArg (word_of_int expA OR sigA)
         else if expA = 0 \<and> sigA = 0 then zero
         else if expB = 0 \<and> sigB = 0 then zero
         else
           let (expA, sigA) = normF32 expA sigA;
               (expB, sigB) = normF32 expB sigB;
               expZ = expA + expB - 0x7F;
               sigA = push_bit 7 (sigA OR 0x800000);
               sigB = push_bit 8 (sigB OR 0x800000);
               sigZ = shortShiftRightJam64 (sigA * sigB) 32
           in if sigZ < 0x40000000 then roundPackToF32 rm signZ (expZ - 1) (push_bit 1 sigZ)
              else roundPackToF32 rm signZ expZ sigZ)"

definition f64_mul :: "u32 \<Rightarrow> u64 \<Rightarrow> u64 \<Rightarrow> u64 raised" where
  "f64_mul rm uiA uiB =
     (let expA = expF64UI uiA; sigA = fracF64UI uiA;
          expB = expF64UI uiB; sigB = fracF64UI uiB;
          signZ = (signF64UI uiA \<noteq> signF64UI uiB);
          infArg = (\<lambda>magBits. if magBits = 0 then (defaultNaNF64UI, flag_invalid)
                      else (packToF64UI signZ 0x7FF 0, 0));
          zero = (packToF64UI signZ 0 0, 0)
      in if expA = 0x7FF then
           if sigA \<noteq> 0 \<or> expB = 0x7FF \<and> sigB \<noteq> 0 then propagateNaNF64UI uiA uiB
           else infArg (word_of_int expB OR sigB)
         else if expB = 0x7FF then
           if sigB \<noteq> 0 then propagateNaNF64UI uiA uiB else infArg (word_of_int expA OR sigA)
         else if expA = 0 \<and> sigA = 0 then zero
         else if expB = 0 \<and> sigB = 0 then zero
         else
           let (expA, sigA) = normF64 expA sigA;
               (expB, sigB) = normF64 expB sigB;
               expZ = expA + expB - 0x3FF;
               sigA = push_bit 10 (sigA OR 0x10000000000000);
               sigB = push_bit 11 (sigB OR 0x10000000000000);
               sig128Z = mul64To128M sigA sigB;
               sigZ = words64 (sig128Z ! 3) (sig128Z ! 2);
               sigZ = (if sig128Z ! 1 \<noteq> 0 \<or> sig128Z ! 0 \<noteq> 0 then sigZ OR 1 else sigZ)
           in if sigZ < 0x4000000000000000 then roundPackToF64 rm signZ (expZ - 1) (push_bit 1 sigZ)
              else roundPackToF64 rm signZ expZ sigZ)"

end
