(* ===== verification/SoftFloatOps.thy ===== *)
theory SoftFloatOps
  imports SoftFloat
begin

text \<open>
  Division, square root, fused multiply-add and the conversions of
  \<^verbatim>\<open>riscv-pk/softfloat\<close>.  Division and square root start from a reciprocal looked up in a
  table (\<^verbatim>\<open>s_approxRecip32_1.c\<close>, \<^verbatim>\<open>s_approxRecipSqrt32_1.c\<close>) and correct the last
  bits by the remainder.
\<close>

subsection \<open>Approximate reciprocals\<close>

definition approxRecip_1k0s :: "u16 list" where
  "approxRecip_1k0s =
     [0xFFC4, 0xF0BE, 0xE363, 0xD76F, 0xCCAD, 0xC2F0, 0xBA16, 0xB201,
      0xAA97, 0xA3C6, 0x9D7A, 0x97A6, 0x923C, 0x8D32, 0x887E, 0x8417]"

definition approxRecip_1k1s :: "u16 list" where
  "approxRecip_1k1s =
     [0xF0F1, 0xD62C, 0xBFA1, 0xAC77, 0x9C0A, 0x8DDB, 0x8185, 0x76BA,
      0x6D3B, 0x64D4, 0x5D5C, 0x56B1, 0x50B6, 0x4B55, 0x4679, 0x4211]"

definition approxRecip32_1 :: "u32 \<Rightarrow> u32" where
  "approxRecip32_1 a =
     (let i = unat (drop_bit 27 a AND 0xF);
          eps = (ucast (drop_bit 11 a) :: u16);
          r0 = (approxRecip_1k0s ! i -
                 ucast (drop_bit 20 ((ucast (approxRecip_1k1s ! i) :: u64) * ucast eps)) :: u16);
          sigma0 = (ucast (NOT (drop_bit 7 ((ucast r0 :: u64) * ucast a))) :: u32);
          r = push_bit 16 (ucast r0 :: u64) + drop_bit 24 ((ucast r0 :: u64) * ucast sigma0);
          sqrSigma0 = (ucast (drop_bit 32 ((ucast sigma0 :: u64) * ucast sigma0)) :: u32);
          r = r + drop_bit 48 (ucast (ucast r :: u32) * ucast sqrSigma0)
      in ucast r)"

definition approxRecipSqrt_1k0s :: "u16 list" where
  "approxRecipSqrt_1k0s =
     [0xB4C9, 0xFFAB, 0xAA7D, 0xF11C, 0xA1C5, 0xE4C7, 0x9A43, 0xDA29,
      0x93B5, 0xD0E5, 0x8DED, 0xC8B7, 0x88C6, 0xC16D, 0x8424, 0xBAE1]"

definition approxRecipSqrt_1k1s :: "u16 list" where
  "approxRecipSqrt_1k1s =
     [0xA5A5, 0xEA42, 0x8C21, 0xC62D, 0x788F, 0xAA7F, 0x6928, 0x94B6,
      0x5CC7, 0x8335, 0x52A6, 0x74E2, 0x4A3E, 0x68FE, 0x432B, 0x5EFD]"

definition approxRecipSqrt32_1 :: "nat \<Rightarrow> u32 \<Rightarrow> u32" where
  "approxRecipSqrt32_1 oddExpA a =
     (let i = unat (drop_bit 27 a AND 0xE) + oddExpA;
          eps = (ucast (drop_bit 12 a) :: u16);
          r0 = (approxRecipSqrt_1k0s ! i -
                 ucast (drop_bit 20 ((ucast (approxRecipSqrt_1k1s ! i) :: u64) * ucast eps)) :: u16);
          ESqrR0 = (ucast r0 :: u64) * ucast r0;
          ESqrR0 = (if oddExpA = 0 then push_bit 1 ESqrR0 else ESqrR0);
          sigma0 = (ucast (NOT (drop_bit 23 ((ucast (ucast ESqrR0 :: u32) :: u64) * ucast a))) :: u32);
          r = push_bit 16 (ucast r0 :: u64) + drop_bit 25 ((ucast r0 :: u64) * ucast sigma0);
          sqrSigma0 = (ucast (drop_bit 32 ((ucast sigma0 :: u64) * ucast sigma0)) :: u32);
          t = (ucast (drop_bit 1 r + drop_bit 3 r - push_bit 14 (ucast r0 :: u64)) :: u32);
          r = r + drop_bit 48 ((ucast t :: u64) * ucast sqrSigma0)
      in if r AND 0x80000000 = 0 then 0x80000000 else ucast r)"

subsection \<open>Division\<close>

text \<open>The quotient of two significands, each with its leading bit, and the exponent's decrement.\<close>

definition div_sigF32 :: "u64 \<Rightarrow> u64 \<Rightarrow> u64" where
  "div_sigF32 sigA sigB =
     (let sigA = (if sigA < sigB then push_bit 8 sigA else push_bit 7 sigA);
          sigB = push_bit 8 sigB;
          sigZ = drop_bit 32 (sigA * ucast (approxRecip32_1 (ucast sigB))) + 2
      in if sigZ AND 0x3F < 2 then
           let sigZ = sigZ AND NOT 3;
               rem = push_bit 32 sigA - push_bit 1 sigZ * sigB
           in if rem AND 0x8000000000000000 \<noteq> 0 then sigZ - 4
              else if rem \<noteq> 0 then sigZ OR 1 else sigZ
         else sigZ)"

definition f32_div :: "u32 \<Rightarrow> u32 \<Rightarrow> u32 \<Rightarrow> u32 raised" where
  "f32_div rm a b =
     (let uiA = ucast a; uiB = ucast b;
          expA = expF32UI uiA; sigA = fracF32UI uiA;
          expB = expF32UI uiB; sigB = fracF32UI uiB;
          signZ = (signF32UI uiA \<noteq> signF32UI uiB);
          invalid = (ucast defaultNaNF32UI, flag_invalid);
          infinity = ucast (packToF32UI signZ 0xFF 0);
          zero = (ucast (packToF32UI signZ 0 0), 0)
      in if expA = 0xFF then
           if sigA \<noteq> 0 then nan32 uiA uiB
           else if expB = 0xFF then (if sigB \<noteq> 0 then nan32 uiA uiB else invalid)
           else (infinity, 0)
         else if expB = 0xFF then (if sigB \<noteq> 0 then nan32 uiA uiB else zero)
         else if expB = 0 \<and> sigB = 0 then
           (if expA = 0 \<and> sigA = 0 then invalid else (infinity, flag_infinite))
         else if expA = 0 \<and> sigA = 0 then zero
         else
           let (expB, sigB) = normF32 expB sigB;
               (expA, sigA) = normF32 expA sigA;
               expZ = expA - expB + 0x7E;
               sigA = sigA OR 0x800000; sigB = sigB OR 0x800000
           in roundPackToF32 rm signZ (if sigA < sigB then expZ - 1 else expZ) (div_sigF32 sigA sigB))"

definition div_sigF64 :: "u64 \<Rightarrow> u64 \<Rightarrow> u64" where
  "div_sigF64 sigA sigB =
     (let sigA = (if sigA < sigB then push_bit 11 sigA else push_bit 10 sigA);
          sigB = push_bit 11 sigB;
          sigB32 = (ucast (ucast (drop_bit 32 sigB) :: u32) :: u64);
          sigB0 = (ucast (drop_bit 4 (ucast sigB :: u32)) :: u64);
          recip32 = approxRecip32_1 (ucast (drop_bit 32 sigB)) - 2;
          sig32Z = (ucast (drop_bit 32 ((ucast (ucast (drop_bit 32 sigA) :: u32) :: u64) * ucast recip32)) :: u32);
          doubleTerm = push_bit 1 sig32Z;
          rem = push_bit 28 (sigA - ucast doubleTerm * sigB32) - ucast doubleTerm * sigB0;
          q = (ucast (drop_bit 32 ((ucast (ucast (drop_bit 32 rem) :: u32) :: u64) * ucast recip32) + 4) :: u32);
          sigZ = push_bit 32 (ucast sig32Z) + push_bit 4 (ucast q)
      in if sigZ AND 0x1FF < 64 then
           let q = q AND NOT 7;
               sigZ = sigZ AND NOT 0x7F;
               doubleTerm = push_bit 1 q;
               rem = push_bit 28 (rem - ucast doubleTerm * sigB32) - ucast doubleTerm * sigB0
           in if rem AND 0x8000000000000000 \<noteq> 0 then sigZ - 128
              else if rem \<noteq> 0 then sigZ OR 1 else sigZ
         else sigZ)"

definition f64_div :: "u32 \<Rightarrow> u64 \<Rightarrow> u64 \<Rightarrow> u64 raised" where
  "f64_div rm uiA uiB =
     (let expA = expF64UI uiA; sigA = fracF64UI uiA;
          expB = expF64UI uiB; sigB = fracF64UI uiB;
          signZ = (signF64UI uiA \<noteq> signF64UI uiB);
          invalid = (defaultNaNF64UI, flag_invalid);
          infinity = packToF64UI signZ 0x7FF 0;
          zero = (packToF64UI signZ 0 0, 0)
      in if expA = 0x7FF then
           if sigA \<noteq> 0 then propagateNaNF64UI uiA uiB
           else if expB = 0x7FF then (if sigB \<noteq> 0 then propagateNaNF64UI uiA uiB else invalid)
           else (infinity, 0)
         else if expB = 0x7FF then (if sigB \<noteq> 0 then propagateNaNF64UI uiA uiB else zero)
         else if expB = 0 \<and> sigB = 0 then
           (if expA = 0 \<and> sigA = 0 then invalid else (infinity, flag_infinite))
         else if expA = 0 \<and> sigA = 0 then zero
         else
           let (expB, sigB) = normF64 expB sigB;
               (expA, sigA) = normF64 expA sigA;
               expZ = expA - expB + 0x3FE;
               sigA = sigA OR 0x10000000000000; sigB = sigB OR 0x10000000000000
           in roundPackToF64 rm signZ (if sigA < sigB then expZ - 1 else expZ) (div_sigF64 sigA sigB))"

subsection \<open>Square root\<close>

definition f32_sqrt :: "u32 \<Rightarrow> u32 \<Rightarrow> u32 raised" where
  "f32_sqrt rm a =
     (let uiA = ucast a;
          signA = signF32UI uiA; expA = expF32UI uiA; sigA = fracF32UI uiA;
          invalid = (ucast defaultNaNF32UI, flag_invalid)
      in if expA = 0xFF then
           if sigA \<noteq> 0 then nan32 uiA 0
           else if \<not> signA then (a, 0) else invalid
         else if signA then (if expA = 0 \<and> sigA = 0 then (a, 0) else invalid)
         else if expA = 0 \<and> sigA = 0 then (a, 0)
         else
           let (expA, sigA) = normF32 expA sigA;
               expZ = (expA - 0x7F) div 2 + 0x7E;
               odd_exp = nat (expA mod 2);
               sigA = push_bit 8 (sigA OR 0x800000);
               sigZ = drop_bit 32 (sigA * ucast (approxRecipSqrt32_1 odd_exp (ucast sigA)));
               sigZ = (if odd_exp \<noteq> 0 then drop_bit 1 sigZ else sigZ) + 2;
               sigZ = (if sigZ AND 0x3F < 2 then
                         let shiftedSigZ = drop_bit 2 sigZ;
                             negRem = (ucast (shiftedSigZ * shiftedSigZ) :: u32);
                             sigZ = sigZ AND NOT 3
                         in if negRem AND 0x80000000 \<noteq> 0 then sigZ OR 1
                            else if negRem \<noteq> 0 then sigZ - 1 else sigZ
                       else sigZ)
           in roundPackToF32 rm False expZ sigZ)"

definition f64_sqrt :: "u32 \<Rightarrow> u64 \<Rightarrow> u64 raised" where
  "f64_sqrt rm uiA =
     (let signA = signF64UI uiA; expA = expF64UI uiA; sigA = fracF64UI uiA;
          invalid = (defaultNaNF64UI, flag_invalid)
      in if expA = 0x7FF then
           if sigA \<noteq> 0 then propagateNaNF64UI uiA 0
           else if \<not> signA then (uiA, 0) else invalid
         else if signA then (if expA = 0 \<and> sigA = 0 then (uiA, 0) else invalid)
         else if expA = 0 \<and> sigA = 0 then (uiA, 0)
         else
           let (expA, sigA) = normF64 expA sigA;
               expZ = (expA - 0x3FF) div 2 + 0x3FE;
               odd_exp = nat (expA mod 2);
               sigA = sigA OR 0x10000000000000;
               sig32A = (ucast (drop_bit 21 sigA) :: u32);
               recipSqrt32 = approxRecipSqrt32_1 odd_exp sig32A;
               sig32Z = (ucast (drop_bit 32 ((ucast sig32A :: u64) * ucast recipSqrt32)) :: u32);
               sigA = (if odd_exp \<noteq> 0 then push_bit 8 sigA else push_bit 9 sigA);
               sig32Z = (if odd_exp \<noteq> 0 then drop_bit 1 sig32Z else sig32Z);
               rem = sigA - ucast sig32Z * ucast sig32Z;
               q = (ucast (drop_bit 32 ((ucast (ucast (drop_bit 2 rem) :: u32) :: u64) * ucast recipSqrt32)) :: u32);
               sigZ = (push_bit 32 (ucast sig32Z) OR 0x20) + push_bit 3 (ucast q);
               sigZ = (if sigZ AND 0x1FF < 0x22 then
                         let sigZ = sigZ AND NOT 0x3F;
                             shiftedSigZ = drop_bit 6 sigZ;
                             rem = push_bit 52 sigA - shiftedSigZ * shiftedSigZ
                         in if rem AND 0x8000000000000000 \<noteq> 0 then sigZ - 1
                            else if rem \<noteq> 0 then sigZ OR 1 else sigZ
                       else sigZ)
           in roundPackToF64 rm False expZ sigZ)"

subsection \<open>Fused multiply-add\<close>

abbreviation mulAdd_subC :: u8 where "mulAdd_subC \<equiv> 1"
abbreviation mulAdd_subProd :: u8 where "mulAdd_subProd \<equiv> 2"

definition infProdF32 :: "bool \<Rightarrow> bool \<Rightarrow> u64 \<Rightarrow> u64 \<Rightarrow> u32 raised" where
  "infProdF32 signProd signC magBits uiC =
     (let uiZ = packToF32UI signProd 0xFF 0
      in if magBits \<noteq> 0 \<and> expF32UI uiC \<noteq> 0xFF then (ucast uiZ, 0)
         else if magBits \<noteq> 0 \<and> fracF32UI uiC \<noteq> 0 then nan32 uiZ uiC
         else if magBits \<noteq> 0 \<and> signProd = signC then (ucast uiZ, 0)
         else raising flag_invalid (nan32 defaultNaNF32UI uiC))"

text \<open>The sum of a finite nonzero product and a finite nonzero addend of opposite sign.\<close>

definition mulAddF32_opposite ::
  "u32 \<Rightarrow> bool \<Rightarrow> int \<Rightarrow> u64 \<Rightarrow> bool \<Rightarrow> int \<Rightarrow> u64 \<Rightarrow> u32 raised" where
  "mulAddF32_opposite rm signProd expProd sigProd signC expC sigC =
     (let expDiff = expProd - expC;
          sig64C = push_bit 32 sigC;
          finish = (\<lambda>signZ expZ sig64Z.
            let shiftDist = int (countLeadingZeros64 sig64Z) - 1;
                expZ = expZ - shiftDist;
                shiftDist = shiftDist - 32
            in roundPackToF32 rm signZ expZ
                 (if shiftDist < 0 then shortShiftRightJam64 sig64Z (nat (- shiftDist))
                  else push_bit (nat shiftDist) sig64Z))
      in if expDiff < 0 then
           finish signC expC (sig64C - shiftRightJam64 sigProd (word_of_int (- expDiff)))
         else if expDiff = 0 then
           let sig64Z = sigProd - sig64C
           in if sig64Z = 0 then (ucast (packToF32UI (rm = round_min) 0 0), 0)
              else if sig64Z AND 0x8000000000000000 \<noteq> 0 then finish (\<not> signProd) expProd (- sig64Z)
              else finish signProd expProd sig64Z
         else finish signProd expProd (sigProd - shiftRightJam64 sig64C (word_of_int expDiff)))"

definition mulAddF32_same ::
  "u32 \<Rightarrow> bool \<Rightarrow> int \<Rightarrow> u64 \<Rightarrow> int \<Rightarrow> u64 \<Rightarrow> u32 raised" where
  "mulAddF32_same rm signProd expProd sigProd expC sigC =
     (let expDiff = expProd - expC;
          (expZ, sigZ) =
            (if expDiff \<le> 0 then
               (expC, sigC + shiftRightJam64 sigProd (word_of_int (32 - expDiff)))
             else
               (expProd, shortShiftRightJam64
                  (sigProd + shiftRightJam64 (push_bit 32 sigC) (word_of_int expDiff)) 32))
      in if sigZ < 0x40000000 then roundPackToF32 rm signProd (expZ - 1) (push_bit 1 sigZ)
         else roundPackToF32 rm signProd expZ sigZ)"

definition mulAddF32 :: "u32 \<Rightarrow> u64 \<Rightarrow> u64 \<Rightarrow> u64 \<Rightarrow> u8 \<Rightarrow> u32 raised" where
  "mulAddF32 rm uiA uiB uiC op =
     (let expA = expF32UI uiA; sigA = fracF32UI uiA;
          expB = expF32UI uiB; sigB = fracF32UI uiB;
          signC = (signF32UI uiC \<noteq> (op = mulAdd_subC));
          expC = expF32UI uiC; sigC = fracF32UI uiC;
          signProd = ((signF32UI uiA \<noteq> signF32UI uiB) \<noteq> (op = mulAdd_subProd));
          nanABC = (let r = propagateNaNF32UI uiA uiB in raising (snd r) (nan32 (fst r) uiC))
      in if expA = 0xFF then
           if sigA \<noteq> 0 \<or> expB = 0xFF \<and> sigB \<noteq> 0 then nanABC
           else infProdF32 signProd signC (word_of_int expB OR sigB) uiC
         else if expB = 0xFF then
           if sigB \<noteq> 0 then nanABC
           else infProdF32 signProd signC (word_of_int expA OR sigA) uiC
         else if expC = 0xFF then (if sigC \<noteq> 0 then nan32 0 uiC else (ucast uiC, 0))
         else if expA = 0 \<and> sigA = 0 \<or> expB = 0 \<and> sigB = 0 then
           (if expC = 0 \<and> sigC = 0 \<and> signProd \<noteq> signC
            then (ucast (packToF32UI (rm = round_min) 0 0), 0) else (ucast uiC, 0))
         else
           let (expA, sigA) = normF32 expA sigA;
               (expB, sigB) = normF32 expB sigB;
               expProd = expA + expB - 0x7E;
               sigA = push_bit 7 (sigA OR 0x800000);
               sigB = push_bit 7 (sigB OR 0x800000);
               sigProd = sigA * sigB;
               (expProd, sigProd) = (if sigProd < 0x2000000000000000
                  then (expProd - 1, push_bit 1 sigProd) else (expProd, sigProd))
           in if expC = 0 \<and> sigC = 0 then
                roundPackToF32 rm signProd (expProd - 1) (shortShiftRightJam64 sigProd 31)
              else
                let (expC, sigC) = normF32 expC sigC;
                    sigC = push_bit 6 (sigC OR 0x800000)
                in if signProd = signC then mulAddF32_same rm signProd expProd sigProd expC sigC
                   else mulAddF32_opposite rm signProd expProd sigProd signC expC sigC)"

definition infProdF64 :: "bool \<Rightarrow> bool \<Rightarrow> u64 \<Rightarrow> u64 \<Rightarrow> u64 raised" where
  "infProdF64 signZ signC magBits uiC =
     (let uiZ = packToF64UI signZ 0x7FF 0
      in if magBits \<noteq> 0 \<and> expF64UI uiC \<noteq> 0x7FF then (uiZ, 0)
         else if magBits \<noteq> 0 \<and> fracF64UI uiC \<noteq> 0 then propagateNaNF64UI uiZ uiC
         else if magBits \<noteq> 0 \<and> signZ = signC then (uiZ, 0)
         else raising flag_invalid (propagateNaNF64UI defaultNaNF64UI uiC))"

definition high64 :: "u32 list \<Rightarrow> u64" where "high64 z = words64 (z ! 3) (z ! 2)"
definition low64 :: "u32 list \<Rightarrow> u64" where "low64 z = words64 (z ! 1) (z ! 0)"

definition sig128 :: "u64 \<Rightarrow> u32 list" where
  "sig128 sigC = [0, 0, ucast sigC, ucast (drop_bit 32 sigC)]"

text \<open>The labels \<^verbatim>\<open>sigZ\<close> and \<^verbatim>\<open>roundPack\<close>.\<close>

definition mulAddF64_sigZ :: "u32 \<Rightarrow> bool \<Rightarrow> int \<Rightarrow> u64 \<Rightarrow> u32 list \<Rightarrow> u64 raised" where
  "mulAddF64_sigZ rm signZ expZ sigZ sig128Z =
     roundPackToF64 rm signZ (expZ - 1)
       (if sig128Z ! 1 \<noteq> 0 \<or> sig128Z ! 0 \<noteq> 0 then sigZ OR 1 else sigZ)"

text \<open>Lines 437 to 454: the normalisation after a subtraction that may cancel.\<close>

definition mulAddF64_norm :: "u32 \<Rightarrow> bool \<Rightarrow> int \<Rightarrow> u32 list \<Rightarrow> u64 raised" where
  "mulAddF64_norm rm signZ expZ sig128Z =
     (let (shiftDist, sigZ) = (if high64 sig128Z = 0 then (64, low64 sig128Z) else (0, high64 sig128Z));
          shiftDist = shiftDist + (int (countLeadingZeros64 sigZ) - 1)
      in if shiftDist \<noteq> 0 then
           let sig128Z = shiftLeftM sig128Z (nat shiftDist)
           in mulAddF64_sigZ rm signZ (expZ - shiftDist) (high64 sig128Z) sig128Z
         else mulAddF64_sigZ rm signZ expZ sigZ sig128Z)"

definition mulAddF64_same ::
  "u32 \<Rightarrow> bool \<Rightarrow> int \<Rightarrow> int \<Rightarrow> u64 \<Rightarrow> u32 list \<Rightarrow> int \<Rightarrow> u64 \<Rightarrow> u64 raised" where
  "mulAddF64_same rm signZ expZ shiftDist sigZ sig128Z expC sigC =
     (let expDiff = expZ - expC;
          (expZ, sigZ, sig128Z) =
            (if expDiff < 0 then
               let d = shiftDist - expDiff
               in (expC, (if d \<noteq> 0 then shiftRightJam64 sigZ (word_of_int d) else sigZ) + sigC, sig128Z)
             else
               let sig128Z = (if shiftDist \<noteq> 0 then addM 0 sig128Z sig128Z else sig128Z)
               in if expDiff = 0 then (expZ, high64 sig128Z + sigC, sig128Z)
                  else
                    let sig128Z = addM 0 sig128Z (shiftRightJamM (sig128 sigC) (nat expDiff))
                    in (expZ, high64 sig128Z, sig128Z))
      in if sigZ AND 0x8000000000000000 \<noteq> 0
         then mulAddF64_sigZ rm signZ (expZ + 1) (shortShiftRightJam64 sigZ 1) sig128Z
         else mulAddF64_sigZ rm signZ expZ sigZ sig128Z)"

definition mulAddF64_opposite ::
  "u32 \<Rightarrow> bool \<Rightarrow> int \<Rightarrow> int \<Rightarrow> u64 \<Rightarrow> u32 list \<Rightarrow> bool \<Rightarrow> int \<Rightarrow> u64 \<Rightarrow> u64 raised" where
  "mulAddF64_opposite rm signZ expZ shiftDist sigZ sig128Z signC expC sigC =
     (let expDiff = expZ - expC
      in if expDiff < - 1 then
           let d = shiftDist - expDiff;
               sigZ = sigC - (if d \<noteq> 0 then shiftRightJam64 sigZ (word_of_int d) else sigZ);
               sigZ = (if sig128Z ! 1 \<noteq> 0 \<or> sig128Z ! 0 \<noteq> 0 then (sigZ - 1) OR 1 else sigZ)
           in if sigZ AND 0x4000000000000000 = 0
              then roundPackToF64 rm signC (expC - 1 - 1) (push_bit 1 sigZ)
              else roundPackToF64 rm signC (expC - 1) sigZ
         else if expDiff < 0 then
           let sig128Z = (if shiftDist = 0 then shortShiftRight128M sig128Z 1 else sig128Z)
           in mulAddF64_norm rm signC expC (subM 0 (sig128 sigC) sig128Z)
         else
           let sig128Z = (if shiftDist \<noteq> 0 then addM 0 sig128Z sig128Z else sig128Z)
           in if expDiff = 0 then
                let sigZ = high64 sig128Z - sigC
                in if sigZ = 0 \<and> sig128Z ! 1 = 0 \<and> sig128Z ! 0 = 0
                   then (packToF64UI (rm = round_min) 0 0, 0)
                   else
                     let sig128Z = sig128Z[3 := ucast (drop_bit 32 sigZ), 2 := ucast sigZ]
                     in if sigZ AND 0x8000000000000000 \<noteq> 0
                        then mulAddF64_norm rm (\<not> signZ) expZ (negXM 1 sig128Z)
                        else mulAddF64_norm rm signZ expZ sig128Z
              else
                let sig128Z = subM 0 sig128Z (shiftRightJamM (sig128 sigC) (nat expDiff))
                in if 1 < expDiff then
                     let sigZ = high64 sig128Z
                     in if sigZ AND 0x4000000000000000 = 0
                        then mulAddF64_sigZ rm signZ (expZ - 1) (push_bit 1 sigZ) sig128Z
                        else mulAddF64_sigZ rm signZ expZ sigZ sig128Z
                   else mulAddF64_norm rm signZ expZ sig128Z)"

definition mulAddF64 :: "u32 \<Rightarrow> u64 \<Rightarrow> u64 \<Rightarrow> u64 \<Rightarrow> u8 \<Rightarrow> u64 raised" where
  "mulAddF64 rm uiA uiB uiC op =
     (let expA = expF64UI uiA; sigA = fracF64UI uiA;
          expB = expF64UI uiB; sigB = fracF64UI uiB;
          signC = (signF64UI uiC \<noteq> (op = mulAdd_subC));
          expC = expF64UI uiC; sigC = fracF64UI uiC;
          signZ = ((signF64UI uiA \<noteq> signF64UI uiB) \<noteq> (op = mulAdd_subProd));
          nanABC = (let r = propagateNaNF64UI uiA uiB in raising (snd r) (propagateNaNF64UI (fst r) uiC))
      in if expA = 0x7FF then
           if sigA \<noteq> 0 \<or> expB = 0x7FF \<and> sigB \<noteq> 0 then nanABC
           else infProdF64 signZ signC (word_of_int expB OR sigB) uiC
         else if expB = 0x7FF then
           if sigB \<noteq> 0 then nanABC
           else infProdF64 signZ signC (word_of_int expA OR sigA) uiC
         else if expC = 0x7FF then (if sigC \<noteq> 0 then propagateNaNF64UI 0 uiC else (uiC, 0))
         else if expA = 0 \<and> sigA = 0 \<or> expB = 0 \<and> sigB = 0 then
           (if expC = 0 \<and> sigC = 0 \<and> signZ \<noteq> signC then (packToF64UI (rm = round_min) 0 0, 0) else (uiC, 0))
         else
           let (expA, sigA) = normF64 expA sigA;
               (expB, sigB) = normF64 expB sigB;
               expZ = expA + expB - 0x3FE;
               sigA = push_bit 10 (sigA OR 0x10000000000000);
               sigB = push_bit 11 (sigB OR 0x10000000000000);
               sig128Z = mul64To128M sigA sigB;
               sigZ = high64 sig128Z;
               (expZ, shiftDist) = (if sigZ AND 0x4000000000000000 = 0 then (expZ - 1, - 1) else (expZ, 0))
           in if expC = 0 \<and> sigC = 0 then
                mulAddF64_sigZ rm signZ expZ (if shiftDist \<noteq> 0 then push_bit 1 sigZ else sigZ) sig128Z
              else
                let (expC, sigC) = normF64 expC sigC;
                    sigC = push_bit 10 (sigC OR 0x10000000000000)
                in if signZ = signC then mulAddF64_same rm signZ expZ shiftDist sigZ sig128Z expC sigC
                   else mulAddF64_opposite rm signZ expZ shiftDist sigZ sig128Z signC expC sigC)"

subsection \<open>Conversions\<close>

definition f32_to_f64 :: "u32 \<Rightarrow> u64 raised" where
  "f32_to_f64 a =
     (let uiA = ucast a; sign = signF32UI uiA; e = expF32UI uiA; frac = fracF32UI uiA
      in if e = 0xFF then
           if frac \<noteq> 0 then (defaultNaNF64UI, if uiA AND 0x400000 = 0 then flag_invalid else 0)
           else (packToF64UI sign 0x7FF 0, 0)
         else if e = 0 \<and> frac = 0 then (packToF64UI sign 0 0, 0)
         else
           let (e, frac) = (if e = 0 then let (e', sig) = normSubnormalF32Sig frac in (e' - 1, sig)
                            else (e, frac))
           in (packToF64UI sign (e + 0x380) (push_bit 29 frac), 0))"

definition f64_to_f32 :: "u32 \<Rightarrow> u64 \<Rightarrow> u32 raised" where
  "f64_to_f32 rm uiA =
     (let sign = signF64UI uiA; e = expF64UI uiA; frac = fracF64UI uiA
      in if e = 0x7FF then
           if frac \<noteq> 0 then
             (ucast defaultNaNF32UI, if uiA AND 0x8000000000000 = 0 then flag_invalid else 0)
           else (ucast (packToF32UI sign 0xFF 0), 0)
         else
           let frac32 = shortShiftRightJam64 frac 22
           in if e = 0 \<and> frac32 = 0 then (ucast (packToF32UI sign 0 0), 0)
              else roundPackToF32 rm sign (e - 0x381) (frac32 OR 0x40000000))"

definition ui64_to_f64 :: "u32 \<Rightarrow> u64 \<Rightarrow> u64 raised" where
  "ui64_to_f64 rm a =
     (if a = 0 then (0, 0)
      else if a AND 0x8000000000000000 \<noteq> 0
      then roundPackToF64 rm False 0x43D (shortShiftRightJam64 a 1)
      else normRoundPackToF64 rm False 0x43C a)"

definition roundMToUI64 :: "bool \<Rightarrow> u32 list \<Rightarrow> u32 \<Rightarrow> bool \<Rightarrow> u64 raised" where
  "roundMToUI64 sign extSig rm exact =
     (let sig = words64 (extSig ! 2) (extSig ! 1);
          sigExtra = extSig ! 0;
          invalid = (if sign then 0 else - 1, flag_invalid);
          finish = (\<lambda>sig. if sign \<and> sig \<noteq> 0 then invalid
                      else (sig, if sigExtra \<noteq> 0 \<and> exact then flag_inexact else 0));
          increment =
            (let sig = sig + 1
             in if sig = 0 then invalid
                else finish (if sigExtra = 0x80000000 \<and> rm = round_near_even then sig AND NOT 1 else sig))
      in if rm = round_near_maxMag \<or> rm = round_near_even then
           if 0x80000000 \<le> sigExtra then increment else finish sig
         else if sign then
           if sig = 0 \<and> sigExtra = 0 then (0, 0)
           else if rm = round_min then invalid
           else finish sig
         else if rm = round_max \<and> sigExtra \<noteq> 0 then increment
         else finish sig)"

definition f64_to_ui64 :: "u64 \<Rightarrow> u32 \<Rightarrow> bool \<Rightarrow> u64 raised" where
  "f64_to_ui64 uiA rm exact =
     (let sign = signF64UI uiA; e = expF64UI uiA; sig = fracF64UI uiA;
          sig = (if e \<noteq> 0 then sig OR 0x10000000000000 else sig);
          shiftDist = 0x433 - e
      in if shiftDist \<le> 0 then
           if shiftDist < - 11 then
             (if e = 0x7FF \<and> fracF64UI uiA \<noteq> 0 then - 1 else if sign then 0 else - 1, flag_invalid)
           else
             let sig = push_bit (nat (- shiftDist)) sig
             in roundMToUI64 sign [0, ucast sig, ucast (drop_bit 32 sig)] rm exact
         else
           roundMToUI64 sign
             (shiftRightJamM [0, ucast sig, ucast (drop_bit 32 sig)] (nat shiftDist)) rm exact)"

end
