(* ===== verification/FpEmulation.thy ===== *)
theory FpEmulation
  imports Emulation SoftFloatOps
begin

text \<open>
  Floating-point instructions that machine mode completes for the program
  (\<^verbatim>\<open>riscv-pk/machine/fp_emulation.c\<close>), and the dispatch of \<^verbatim>\<open>illegal_insn_trap\<close>
  (\<^verbatim>\<open>emulation.c\<close>) that reaches them.  The operand registers are the array of 64-bit
  floating-point registers of the state; the arithmetic is that of \<^verbatim>\<open>SoftFloat\<close>, with the
  rounding mode in the upper bits of \<^verbatim>\<open>tp\<close> and the raised flags or-ed into its lower ones.
\<close>

abbreviation PRECISION_S :: u64 where "PRECISION_S \<equiv> 0"
abbreviation PRECISION_D :: u64 where "PRECISION_D \<equiv> 1"
abbreviation INT32_MIN :: u32 where "INT32_MIN \<equiv> 0x80000000"
abbreviation INT64_MIN :: u64 where "INT64_MIN \<equiv> 0x8000000000000000"

text \<open>Accruing the flags of a result and storing it.\<close>

definition put_f32 :: "u64 \<Rightarrow> u32 raised \<Rightarrow> mach \<Rightarrow> mach" where
  "put_f32 insn r s = SET_F32_RD insn (fst r) (softfloat_raiseFlags (snd r) s)"

definition put_f64 :: "u64 \<Rightarrow> u64 raised \<Rightarrow> mach \<Rightarrow> mach" where
  "put_f64 insn r s = SET_F64_RD insn (fst r) (softfloat_raiseFlags (snd r) s)"

subsection \<open>Arithmetic\<close>

definition emulate_any_fadd :: "u32 \<Rightarrow> emulation_func" where
  "emulate_any_fadd neg_b E mcause mepc mstatus insn s =
     (let rm = softfloat_roundingMode s
      in if GET_PRECISION insn = PRECISION_S then
           Some (put_f32 insn (f32_add rm (GET_F32 insn 15 s) (GET_F32 insn 20 s XOR neg_b)) s)
         else if GET_PRECISION insn = PRECISION_D then
           Some (put_f64 insn
             (f64_add rm (GET_F64 insn 15 s) (GET_F64 insn 20 s XOR push_bit 32 (scast neg_b))) s)
         else truly_illegal_insn E mcause mepc mstatus insn s)"

definition emulate_fadd :: emulation_func where
  "emulate_fadd = emulate_any_fadd 0"

definition emulate_fsub :: emulation_func where
  "emulate_fsub = emulate_any_fadd INT32_MIN"

definition emulate_fmul :: emulation_func where
  "emulate_fmul E mcause mepc mstatus insn s =
     (let rm = softfloat_roundingMode s
      in if GET_PRECISION insn = PRECISION_S then
           Some (put_f32 insn (f32_mul rm (GET_F32 insn 15 s) (GET_F32 insn 20 s)) s)
         else if GET_PRECISION insn = PRECISION_D then
           Some (put_f64 insn (f64_mul rm (GET_F64 insn 15 s) (GET_F64 insn 20 s)) s)
         else truly_illegal_insn E mcause mepc mstatus insn s)"

definition emulate_fdiv :: emulation_func where
  "emulate_fdiv E mcause mepc mstatus insn s =
     (let rm = softfloat_roundingMode s
      in if GET_PRECISION insn = PRECISION_S then
           Some (put_f32 insn (f32_div rm (GET_F32 insn 15 s) (GET_F32 insn 20 s)) s)
         else if GET_PRECISION insn = PRECISION_D then
           Some (put_f64 insn (f64_div rm (GET_F64 insn 15 s) (GET_F64 insn 20 s)) s)
         else truly_illegal_insn E mcause mepc mstatus insn s)"

definition emulate_fsqrt :: emulation_func where
  "emulate_fsqrt E mcause mepc mstatus insn s =
     (let rm = softfloat_roundingMode s
      in if drop_bit 20 insn AND 0x1F \<noteq> 0 then truly_illegal_insn E mcause mepc mstatus insn s
         else if GET_PRECISION insn = PRECISION_S then
           Some (put_f32 insn (f32_sqrt rm (GET_F32 insn 15 s)) s)
         else if GET_PRECISION insn = PRECISION_D then
           Some (put_f64 insn (f64_sqrt rm (GET_F64 insn 15 s)) s)
         else truly_illegal_insn E mcause mepc mstatus insn s)"

subsection \<open>Signs, minimum and maximum\<close>

definition do_fsgnj :: "'a::len word \<Rightarrow> 'a word \<Rightarrow> 'a word \<Rightarrow> 'a word" where
  "do_fsgnj a b rm =
     (let n = LENGTH('a) - 1;
          rs1_sign = drop_bit n a AND drop_bit 1 rm;
          rs1_sign = rs1_sign XOR (rm XOR drop_bit n b)
      in drop_bit 1 (push_bit 1 a) OR push_bit n rs1_sign)"

definition emulate_fsgnj :: emulation_func where
  "emulate_fsgnj E mcause mepc mstatus insn s =
     (let rm = GET_RM insn
      in if rm \<ge> 3 then truly_illegal_insn E mcause mepc mstatus insn s
         else if GET_PRECISION insn = PRECISION_S then
           Some (SET_F32_RD insn (do_fsgnj (GET_F32 insn 15 s) (GET_F32 insn 20 s) (ucast rm)) s)
         else if GET_PRECISION insn = PRECISION_D then
           Some (SET_F64_RD insn (do_fsgnj (GET_F64 insn 15 s) (GET_F64 insn 20 s) rm) s)
         else truly_illegal_insn E mcause mepc mstatus insn s)"

definition emulate_fmin :: emulation_func where
  "emulate_fmin E mcause mepc mstatus insn s =
     (let rm = GET_RM insn
      in if rm \<ge> 2 then truly_illegal_insn E mcause mepc mstatus insn s
         else if GET_PRECISION insn = PRECISION_S then
           let rs1 = GET_F32 insn 15 s; rs2 = GET_F32 insn 20 s;
               arg1 = (if rm \<noteq> 0 then rs2 else rs1);
               arg2 = (if rm \<noteq> 0 then rs1 else rs2);
               lt = f32_lt_quiet arg1 arg2;
               use_rs1 = (fst lt \<or> isNaNF32UI (ucast rs2))
           in Some (put_f32 insn (if use_rs1 then rs1 else rs2, snd lt) s)
         else if GET_PRECISION insn = PRECISION_D then
           let rs1 = GET_F64 insn 15 s; rs2 = GET_F64 insn 20 s;
               arg1 = (if rm \<noteq> 0 then rs2 else rs1);
               arg2 = (if rm \<noteq> 0 then rs1 else rs2);
               lt = f64_lt_quiet arg1 arg2;
               use_rs1 = (fst lt \<or> isNaNF64UI rs2)
           in Some (put_f64 insn (if use_rs1 then rs1 else rs2, snd lt) s)
         else truly_illegal_insn E mcause mepc mstatus insn s)"

subsection \<open>Conversions\<close>

definition emulate_fcvt_ff :: emulation_func where
  "emulate_fcvt_ff E mcause mepc mstatus insn s =
     (let rs2_num = drop_bit 20 insn AND 0x1F; rm = softfloat_roundingMode s
      in if GET_PRECISION insn = PRECISION_S \<and> rs2_num = 1 then
           Some (put_f32 insn (f64_to_f32 rm (GET_F64 insn 15 s)) s)
         else if GET_PRECISION insn = PRECISION_D \<and> rs2_num = 0 then
           Some (put_f64 insn (f32_to_f64 (GET_F32 insn 15 s)) s)
         else truly_illegal_insn E mcause mepc mstatus insn s)"

text \<open>The sign and the magnitude of the integer operand; no value for the other widths.\<close>

definition fcvt_operand :: "u64 \<Rightarrow> u64 \<Rightarrow> (bool \<times> u64) option" where
  "fcvt_operand rs2_num v =
     (if rs2_num = 0 then
        let negative = (ucast v :: u32) <s 0
        in Some (negative, ucast (ucast (if negative then - v else v) :: u32))
      else if rs2_num = 1 then Some (False, ucast (ucast v :: u32))
      else if rs2_num = 2 then Some (v <s 0, if v <s 0 then - v else v)
      else if rs2_num = 3 then Some (False, v)
      else None)"

definition emulate_fcvt_fi :: emulation_func where
  "emulate_fcvt_fi E mcause mepc mstatus insn s =
     (let rm = softfloat_roundingMode s
      in if GET_PRECISION insn \<noteq> PRECISION_S \<and> GET_PRECISION insn \<noteq> PRECISION_D then
           truly_illegal_insn E mcause mepc mstatus insn s
         else case fcvt_operand (drop_bit 20 insn AND 0x1F) (GET_RS1 insn s) of
           None \<Rightarrow> truly_illegal_insn E mcause mepc mstatus insn s
         | Some (negative, uint_val) \<Rightarrow>
             let (float64, fl) = ui64_to_f64 rm uint_val;
                 float64 = (if negative then float64 XOR INT64_MIN else float64)
             in if GET_PRECISION insn = PRECISION_S then
                  Some (put_f32 insn (raising fl (f64_to_f32 rm float64)) s)
                else Some (put_f64 insn (float64, fl) s))"

text \<open>
  What \<^verbatim>\<open>fcvt.w\<close> (\<open>rs2_num\<close> 0), \<^verbatim>\<open>fcvt.wu\<close> (1), \<^verbatim>\<open>fcvt.l\<close> (2) and
  \<^verbatim>\<open>fcvt.lu\<close> (3) make of the rounded magnitude: the result, the greatest magnitude, and
  the result beyond it.
\<close>

definition fcvt_limits :: "u64 \<Rightarrow> bool \<Rightarrow> u64 \<Rightarrow> u64 \<times> u64 \<times> u64" where
  "fcvt_limits rs2_num negative uint_val =
     (if rs2_num = 0 then
        if negative then (scast (ucast (- uint_val) :: u32), ucast INT32_MIN, ucast INT32_MIN)
        else (scast (ucast uint_val :: u32), 0x7FFFFFFF, 0x7FFFFFFF)
      else if rs2_num = 1 then
        if negative then (0, 0, 0xFFFFFFFF)
        else (ucast (ucast uint_val :: u32), 0xFFFFFFFF, 0xFFFFFFFF)
      else if rs2_num = 2 then
        if negative then (- uint_val, INT64_MIN, INT64_MIN)
        else (uint_val, 0x7FFFFFFFFFFFFFFF, 0x7FFFFFFFFFFFFFFF)
      else
        if negative then (0, 0, - 1) else (uint_val, - 1, - 1))"

definition fcvt_result :: "u64 \<Rightarrow> u32 \<Rightarrow> u64 \<Rightarrow> u64 raised" where
  "fcvt_result rs2_num rm float64 =
     (let negative = float64 <s 0;
          float64 = (if negative then float64 XOR INT64_MIN else float64);
          (uint_val, fl) = f64_to_ui64 float64 rm True;
          (result, limit, limit_result) = fcvt_limits rs2_num negative uint_val
      in if uint_val > limit then (limit_result, fl OR flag_invalid) else (result, fl))"

definition emulate_fcvt_if :: emulation_func where
  "emulate_fcvt_if E mcause mepc mstatus insn s =
     (let rs2_num = drop_bit 20 insn AND 0x1F; rm = softfloat_roundingMode s;
          finish = (\<lambda>r. Some (SET_RD insn (fst r) (SET_FS_DIRTY (softfloat_raiseFlags (snd r) s))))
      in if rs2_num \<ge> 4 then truly_illegal_insn E mcause mepc mstatus insn s
         else if GET_PRECISION insn = PRECISION_S then
           let (float64, fl) = f32_to_f64 (GET_F32 insn 15 s)
           in finish (raising fl (fcvt_result rs2_num rm float64))
         else if GET_PRECISION insn = PRECISION_D then
           finish (fcvt_result rs2_num rm (GET_F64 insn 15 s))
         else truly_illegal_insn E mcause mepc mstatus insn s)"

subsection \<open>Comparison, moves and classes\<close>

text \<open>\<^verbatim>\<open>fle\<close> (0), \<^verbatim>\<open>flt\<close> (1) and \<^verbatim>\<open>feq\<close> (2), from the two comparisons.\<close>

definition fcmp_result :: "u64 \<Rightarrow> bool raised \<Rightarrow> bool raised \<Rightarrow> bool raised" where
  "fcmp_result rm eq lt =
     (if rm = 1 then lt
      else if rm = 0 \<and> \<not> fst eq then raising (snd eq) lt
      else eq)"

definition emulate_fcmp :: emulation_func where
  "emulate_fcmp E mcause mepc mstatus insn s =
     (let rm = GET_RM insn;
          success = (\<lambda>r. Some (SET_RD insn (of_bool (fst r)) (SET_FS_DIRTY (softfloat_raiseFlags (snd r) s))))
      in if rm \<ge> 3 then truly_illegal_insn E mcause mepc mstatus insn s
         else if GET_PRECISION insn = PRECISION_S then
           let a = GET_F32 insn 15 s; b = GET_F32 insn 20 s
           in success (fcmp_result rm (f32_eq a b) (f32_lt a b))
         else if GET_PRECISION insn = PRECISION_D then
           let a = GET_F64 insn 15 s; b = GET_F64 insn 20 s
           in success (fcmp_result rm (f64_eq a b) (f64_lt a b))
         else truly_illegal_insn E mcause mepc mstatus insn s)"

definition emulate_fmv_if :: emulation_func where
  "emulate_fmv_if E mcause mepc mstatus insn s =
     (let rm = GET_RM insn;
          finish = (\<lambda>result. Some (SET_RD insn result (SET_FS_DIRTY s)))
      in if drop_bit 20 insn AND 0x1F \<noteq> 0 then truly_illegal_insn E mcause mepc mstatus insn s
         else if GET_PRECISION insn = PRECISION_S then
           let result = scast (GET_F32 insn 15 s)
           in if rm = 0 then finish result
              else if rm = 1 then finish (f32_classify (ucast result))
              else truly_illegal_insn E mcause mepc mstatus insn s
         else if GET_PRECISION insn = PRECISION_D then
           let result = GET_F64 insn 15 s
           in if rm = 0 then finish result
              else if rm = 1 then finish (f64_classify result)
              else truly_illegal_insn E mcause mepc mstatus insn s
         else truly_illegal_insn E mcause mepc mstatus insn s)"

definition emulate_fmv_fi :: emulation_func where
  "emulate_fmv_fi E mcause mepc mstatus insn s =
     (let rs1 = GET_RS1 insn s
      in if insn AND 0xFFF0707F = 0xF0000053 then Some (SET_F32_RD insn (ucast rs1) s)
         else if insn AND 0xFFF0707F = 0xF2000053 then Some (SET_F64_RD insn rs1 s)
         else truly_illegal_insn E mcause mepc mstatus insn s)"

subsection \<open>Dispatch\<close>

definition emulate_fmadd :: emulation_func where
  "emulate_fmadd E mcause mepc mstatus insn s =
     (if mstatus AND MSTATUS_FS = 0 then truly_illegal_insn E mcause mepc mstatus insn s
      else
        let negA = bit insn 3; negC = bit insn 2
        in case SETUP_STATIC_ROUNDING insn s of
             None \<Rightarrow> truly_illegal_insn E mcause mepc mstatus insn s
           | Some s \<Rightarrow>
               let rm = softfloat_roundingMode s
               in if GET_PRECISION insn = PRECISION_S then
                    let rs1 = GET_F32 insn 15 s XOR (if negA then INT32_MIN else 0);
                        rs2 = GET_F32 insn 20 s;
                        rs3 = GET_F32 insn 27 s XOR (if negC then INT32_MIN else 0)
                    in Some (put_f32 insn (mulAddF32 rm (ucast rs1) (ucast rs2) (ucast rs3) 0) s)
                  else if GET_PRECISION insn = PRECISION_D then
                    let rs1 = GET_F64 insn 15 s XOR (if negA then INT64_MIN else 0);
                        rs2 = GET_F64 insn 20 s;
                        rs3 = GET_F64 insn 27 s XOR (if negC then INT64_MIN else 0)
                    in Some (put_f64 insn (mulAddF64 rm rs1 rs2 rs3 0) s)
                  else truly_illegal_insn E mcause mepc mstatus insn s)"

definition fp_emulation_table :: "emulation_func list" where
  "fp_emulation_table =
     [emulate_fadd, emulate_fsub, emulate_fmul, emulate_fdiv,
      emulate_fsgnj, emulate_fmin, truly_illegal_insn, truly_illegal_insn,
      emulate_fcvt_ff, truly_illegal_insn, truly_illegal_insn, emulate_fsqrt,
      truly_illegal_insn, truly_illegal_insn, truly_illegal_insn, truly_illegal_insn,
      truly_illegal_insn, truly_illegal_insn, truly_illegal_insn, truly_illegal_insn,
      emulate_fcmp, truly_illegal_insn, truly_illegal_insn, truly_illegal_insn,
      emulate_fcvt_if, truly_illegal_insn, emulate_fcvt_fi, truly_illegal_insn,
      emulate_fmv_if, truly_illegal_insn, emulate_fmv_fi, truly_illegal_insn]"

definition emulate_fp :: emulation_func where
  "emulate_fp E mcause mepc mstatus insn s =
     (if mstatus AND MSTATUS_FS = 0 then truly_illegal_insn E mcause mepc mstatus insn s
      else
        let f = fp_emulation_table ! unat (drop_bit 2 (drop_bit 25 insn AND 0x7C))
        in case SETUP_STATIC_ROUNDING insn s of
             None \<Rightarrow> truly_illegal_insn E mcause mepc mstatus insn s
           | Some s \<Rightarrow> f E mcause mepc mstatus insn s)"

definition illegal_insn_trap_table :: "emulation_func list" where
  "illegal_insn_trap_table =
     [truly_illegal_insn, emulate_float_load, truly_illegal_insn, truly_illegal_insn,
      truly_illegal_insn, truly_illegal_insn, truly_illegal_insn, truly_illegal_insn,
      truly_illegal_insn, emulate_float_store, truly_illegal_insn, truly_illegal_insn,
      emulate_mul_div, truly_illegal_insn, emulate_mul_div32, truly_illegal_insn,
      emulate_fmadd, emulate_fmadd, emulate_fmadd, emulate_fmadd,
      emulate_fp, truly_illegal_insn, truly_illegal_insn, truly_illegal_insn,
      truly_illegal_insn, truly_illegal_insn, truly_illegal_insn, truly_illegal_insn,
      emulate_system_opcode, truly_illegal_insn, truly_illegal_insn, truly_illegal_insn]"

definition emulate_insn :: emulation_func where
  "emulate_insn E mcause mepc mstatus insn s =
     (illegal_insn_trap_table ! unat (drop_bit 2 (insn AND 0x7C)))
       E mcause mepc mstatus insn (s\<lparr>c_mepc := mepc + 4\<rparr>)"

definition illegal_insn_trap :: "access_env \<Rightarrow> u64 \<Rightarrow> u64 \<Rightarrow> mach \<Rightarrow> mach option" where
  "illegal_insn_trap E mcause mepc s =
     (let mstatus = c_mstatus s; insn = c_mbadaddr s;
          decode = (\<lambda>insn mstatus.
            if insn AND 3 \<noteq> 3 then emulate_rvc E mcause mepc mstatus insn s
            else emulate_insn E mcause mepc mstatus insn s)
      in if insn = 0 then with_insn E mepc s decode else decode insn mstatus)"

end
