(* ===== verification/SoftFloatProps.thy ===== *)
theory SoftFloatProps
  imports SoftFloatOps
begin

text \<open>
  What the double-precision operations compute.  Every finite double is an integer multiple
  of \<open>2 ^ -1074\<close>, and \<open>f64_mag\<close> is that multiple for its magnitude, so the
  specification of IEEE arithmetic can be written with natural numbers.  \<open>round_nat\<close> is the
  rounding of \<open>x / 2 ^ k\<close> to an integer in each of the modes; a sticky bit stands for
  everything below it (\<open>round_nat_jam\<close>), which is what the shifts of the code rely on.
\<close>

subsection \<open>Rounding of natural numbers\<close>

definition rounds_up :: "u32 \<Rightarrow> bool \<Rightarrow> nat \<Rightarrow> nat \<Rightarrow> nat \<Rightarrow> bool" where
  "rounds_up rm sign k q r =
     (if rm = round_near_even then 2 ^ k < 2 * r \<or> 2 * r = 2 ^ k \<and> odd q
      else if rm = round_near_maxMag then 2 ^ k \<le> 2 * r
      else r \<noteq> 0 \<and> rm = (if sign then round_min else round_max))"

definition round_nat :: "u32 \<Rightarrow> bool \<Rightarrow> nat \<Rightarrow> nat \<Rightarrow> nat" where
  "round_nat rm sign k x =
     x div 2 ^ k + of_bool (rounds_up rm sign k (x div 2 ^ k) (x mod 2 ^ k))"

text \<open>The bits below position \<open>d\<close> are cut off and or-ed into the lowest bit that stays.\<close>

definition jam :: "nat \<Rightarrow> nat \<Rightarrow> nat" where
  "jam x d = x div 2 ^ d + of_bool (x mod 2 ^ d \<noteq> 0 \<and> even (x div 2 ^ d))"

lemma round_nat_scale: "round_nat rm sign (k + i) (x * 2 ^ i) = round_nat rm sign k x"
proof -
  have p: "(2::nat) ^ (k + i) = 2 ^ k * 2 ^ i"
    by (simp add: power_add)
  have d: "x * 2 ^ i div 2 ^ (k + i) = x div 2 ^ k"
    unfolding p by simp
  have m: "x * 2 ^ i mod 2 ^ (k + i) = x mod 2 ^ k * 2 ^ i"
    unfolding p by (simp add: mult_mod_left)
  have "rounds_up rm sign (k + i) q (r * 2 ^ i) = rounds_up rm sign k q r" for q r
  proof -
    have "(2::nat) ^ (k + i) < 2 * (r * 2 ^ i) \<longleftrightarrow> 2 ^ k < 2 * r"
      "2 * (r * 2 ^ i) = (2::nat) ^ (k + i) \<longleftrightarrow> 2 * r = 2 ^ k"
      "(2::nat) ^ (k + i) \<le> 2 * (r * 2 ^ i) \<longleftrightarrow> 2 ^ k \<le> 2 * r"
      unfolding p by (simp_all add: mult.assoc [symmetric])
    then show ?thesis
      by (simp add: rounds_up_def)
  qed
  then show ?thesis
    by (simp add: round_nat_def d m)
qed

lemma round_nat_0 [simp]: "round_nat rm sign k 0 = 0"
  by (simp add: round_nat_def rounds_up_def)

lemma jam_div: "0 < k \<Longrightarrow> jam x d div 2 ^ k = x div 2 ^ (d + k)"
proof -
  assume k: "0 < k"
  have "(y + of_bool (P \<and> even y)) div 2 ^ k = y div 2 ^ k" for y :: nat and P
  proof (cases "P \<and> even y")
    case True
    then obtain z where z: "y = 2 * z"
      by (auto elim: evenE)
    obtain j where "k = Suc j"
      using k by (cases k) auto
    then show ?thesis
      using True z by (simp add: div_mult2_eq)
  qed auto
  then show ?thesis
    by (simp add: jam_def power_add div_mult2_eq)
qed

lemma jam_mod:
  assumes "0 < k"
  shows "jam x d mod 2 ^ k =
    x div 2 ^ d mod 2 ^ k + of_bool (x mod 2 ^ d \<noteq> 0 \<and> even (x div 2 ^ d mod 2 ^ k))"
proof -
  obtain j where j: "k = Suc j"
    using assms by (cases k) auto
  have par: "even (y mod 2 ^ k) = even y" for y :: nat
    using j by (simp add: dvd_mod_iff)
  have "Suc y mod 2 ^ k = Suc (y mod 2 ^ k)" if "even y" for y :: nat
  proof -
    have "even (y mod 2 ^ k)" "even ((2::nat) ^ k)"
      using that par j by auto
    then have "Suc (y mod 2 ^ k) \<noteq> 2 ^ k"
      by (metis even_Suc)
    then show ?thesis
      by (simp add: mod_Suc)
  qed
  then show ?thesis
    by (auto simp: jam_def par)
qed

lemma round_nat_jam:
  assumes "2 \<le> k"
  shows "round_nat rm sign k (jam x d) = round_nat rm sign (d + k) x"
proof -
  obtain h where h: "k = Suc (Suc h)"
    using assms by (metis add_2_eq_Suc le_Suc_ex)
  define y t where "y = x div 2 ^ d mod 2 ^ k" and "t = x mod 2 ^ d"
  have t: "t < 2 ^ d"
    by (simp add: t_def)
  have m: "x mod 2 ^ (d + k) = y * 2 ^ d + t"
    unfolding y_def t_def power_add by (metis mod_mult2_eq mult.commute)
  have p: "(2::nat) ^ k = 2 * (2 * 2 ^ h)" "(2::nat) ^ (d + k) = 2 * (2 * 2 ^ h) * 2 ^ d"
    by (simp_all add: h power_add)
  define y' where "y' = y + of_bool (t \<noteq> 0 \<and> even y)"
  have lt: "2 * 2 ^ h < y' \<longleftrightarrow> 2 * 2 ^ h * 2 ^ d < y * 2 ^ d + t" (is "?L \<longleftrightarrow> ?R")
  proof
    assume ?L
    then consider "2 * 2 ^ h < y" | "y = 2 * 2 ^ h" "0 < t"
      by (cases "t \<noteq> 0 \<and> even y") (auto simp: y'_def less_Suc_eq)
    then show ?R
    proof cases
      case 1
      then have "(2 * 2 ^ h) * 2 ^ d < y * (2::nat) ^ d"
        by simp
      then show ?thesis
        by linarith
    qed simp
  next
    assume R: ?R
    show ?L
    proof (rule ccontr)
      assume "\<not> ?L"
      then have "y < 2 * 2 ^ h \<or> y = 2 * 2 ^ h \<and> t = 0"
        by (cases "t \<noteq> 0 \<and> even y") (auto simp: y'_def)
      then show False
      proof
        assume "y < 2 * 2 ^ h"
        then have "Suc y * 2 ^ d \<le> 2 * 2 ^ h * 2 ^ d"
          by (intro mult_right_mono) auto
        then show False
          using R t by simp
      next
        assume "y = 2 * 2 ^ h \<and> t = 0"
        then show False
          using R by simp
      qed
    qed
  qed
  have eq: "y' = 2 * 2 ^ h \<longleftrightarrow> y * 2 ^ d + t = 2 * 2 ^ h * 2 ^ d" (is "?L \<longleftrightarrow> ?R")
  proof
    assume ?L
    then have "y = 2 * 2 ^ h \<and> t = 0"
      by (cases "t \<noteq> 0 \<and> even y") (auto simp: y'_def dest: arg_cong [of _ _ even])
    then show ?R
      by simp
  next
    assume R: ?R
    then have "t mod 2 ^ d = 0"
      by (metis mod_mult_self3 mod_mult_self2_is_0)
    then have "t = 0"
      using t by simp
    then show ?L
      using R by (simp add: y'_def)
  qed
  have nz: "y' \<noteq> 0 \<longleftrightarrow> y * 2 ^ d + t \<noteq> 0"
    by (auto simp: y'_def)
  have "rounds_up rm sign k q y' = rounds_up rm sign (d + k) q (y * 2 ^ d + t)" for q
    using lt eq nz unfolding rounds_up_def p by auto
  moreover have "jam x d mod 2 ^ k = y'"
    using jam_mod [of k x d] h by (simp add: y'_def y_def t_def)
  ultimately show ?thesis
    using jam_div [of k x d] h m by (simp add: round_nat_def add.commute)
qed

subsection \<open>The value of a double\<close>

definition f64_mag :: "u64 \<Rightarrow> nat" where
  "f64_mag a =
     (let e = nat (expF64UI a); f = unat (fracF64UI a)
      in if e = 0 then f else (2 ^ 52 + f) * 2 ^ (e - 1))"

definition f64_int :: "u64 \<Rightarrow> int" where
  "f64_int a = (if signF64UI a then - int (f64_mag a) else int (f64_mag a))"

definition f64_finite :: "u64 \<Rightarrow> bool" where
  "f64_finite a \<longleftrightarrow> expF64UI a \<noteq> 0x7FF"

text \<open>The magnitude as a function of the lower 63 bits: it is strictly increasing.\<close>

definition mag_of :: "nat \<Rightarrow> nat" where
  "mag_of m = (if m < 2 ^ 52 then m else (2 ^ 52 + m mod 2 ^ 52) * 2 ^ (m div 2 ^ 52 - 1))"

lemma numeral_masks:
  "(0x7FF :: u64) = mask 11" "(0xFFFFFFFFFFFFF :: u64) = mask 52" "(0x3FF :: u64) = mask 10"
  "(0x7FFFFFFFFFFFFFFF :: u64) = mask 63"
  by (simp_all add: mask_eq_exp_minus_1)

lemma unat_drop: "unat (drop_bit n w) = unat w div 2 ^ n"
  by (subst unat_drop_bit_eq) (rule drop_bit_eq_div)

lemma expF64UI_unat: "expF64UI a = int (unat a div 2 ^ 52 mod 2 ^ 11)"
  unfolding expF64UI_def numeral_masks(1) uint_nat unat_and_mask unat_drop ..

lemma fracF64UI_unat: "unat (fracF64UI a) = unat a mod 2 ^ 52"
  unfolding fracF64UI_def numeral_masks(2) unat_and_mask ..

lemma signF64UI_unat: "signF64UI a \<longleftrightarrow> 2 ^ 63 \<le> unat a"
proof -
  have "drop_bit 63 a = 0 \<longleftrightarrow> unat (drop_bit 63 a) = 0"
    by (simp only: unat_eq_0)
  also have "\<dots> \<longleftrightarrow> unat a < 2 ^ 63"
    unfolding unat_drop by (simp add: div_eq_0_iff)
  finally show ?thesis
    by (auto simp: signF64UI_def)
qed

lemma unat_sign_split: "unat a = of_bool (signF64UI a) * 2 ^ 63 + unat a mod 2 ^ 63" for a :: u64
proof -
  have "unat a div 2 ^ 63 = of_bool (signF64UI a)"
    using unat_lt64 [of a] by (auto simp: signF64UI_unat div_nat_eqI)
  then show ?thesis
    using div_mult_mod_eq [of "unat a" "2 ^ 63"] by simp
qed

lemma f64_mag_of: "f64_mag a = mag_of (unat a mod 2 ^ 63)"
proof -
  define m where "m = unat a mod 2 ^ 63"
  have m: "m < 2 ^ 63" "unat a = of_bool (signF64UI a) * 2 ^ 63 + m"
    unfolding m_def using unat_sign_split by (simp, simp)
  have "m div 2 ^ 52 < 2 ^ 11"
    using m(1) by (simp add: div_less_iff_less_mult)
  then have "(2 ^ 11 * 2 ^ 52 + m) div 2 ^ 52 mod 2 ^ 11 = m div 2 ^ 52"
    by (subst div_mult_self3) simp_all
  then have "unat a div 2 ^ 52 mod 2 ^ 11 = m div 2 ^ 52"
    using m \<open>m div 2 ^ 52 < 2 ^ 11\<close> by (cases "signF64UI a") auto
  moreover have "unat a mod 2 ^ 52 = m mod 2 ^ 52"
    using m mod_mult_self3 [of "2 ^ 11" "2 ^ 52" m] by (cases "signF64UI a") auto
  ultimately show ?thesis
    unfolding m_def [symmetric]
    by (auto simp: f64_mag_def mag_of_def expF64UI_unat fracF64UI_unat div_eq_0_iff Let_def)
qed

lemma mag_of_pack:
  assumes "n \<le> 2 ^ 53" "2 ^ 52 \<le> n \<or> e = 0"
  shows "mag_of (e * 2 ^ 52 + n) = n * 2 ^ e"
proof -
  consider "n < 2 ^ 52" "e = 0" | f where "n = 2 ^ 52 + f" "f < 2 ^ 52" | "n = 2 ^ 53"
  proof (cases "n < 2 ^ 52")
    case True
    then show ?thesis
      using assms that(1) by auto
  next
    case False
    then show ?thesis
      using assms(1) that(2) [of "n - 2 ^ 52"] that(3) by (cases "n = 2 ^ 53") auto
  qed
  then show ?thesis
  proof cases
    case (2 f)
    then have "e * 2 ^ 52 + n = Suc e * 2 ^ 52 + f"
      by simp
    then have "(e * 2 ^ 52 + n) div 2 ^ 52 = Suc e" "(e * 2 ^ 52 + n) mod 2 ^ 52 = f"
      using 2 by (simp_all only: div_mult_self3 mod_mult_self3) auto
    then show ?thesis
      using 2 by (simp add: mag_of_def)
  next
    case 3
    then have "e * 2 ^ 52 + n = (e + 2) * 2 ^ 52"
      by simp
    then have "(e * 2 ^ 52 + n) div 2 ^ 52 = e + 2" "(e * 2 ^ 52 + n) mod 2 ^ 52 = 0"
      by (simp_all only: nonzero_mult_div_cancel_right mod_mult_self2_is_0) auto
    then show ?thesis
      using 3 by (simp add: mag_of_def)
  qed (simp add: mag_of_def)
qed

lemma pack_of_nat:
  "packToF64UI sign (int e) (of_nat n) = of_nat (of_bool sign * 2 ^ 63 + (e * 2 ^ 52 + n))"
  by (cases sign) (simp_all add: packToF64UI_def push_bit_eq_mult)

text \<open>A packed number: its significand may carry into the exponent.\<close>

lemma packed_value:
  assumes "e * 2 ^ 52 + n < 2 ^ 63"
  shows "signF64UI (packToF64UI sign (int e) (of_nat n)) = sign"
    and "unat (packToF64UI sign (int e) (of_nat n)) mod 2 ^ 63 = e * 2 ^ 52 + n"
proof -
  define m where "m = e * 2 ^ 52 + n"
  have "unat (packToF64UI sign (int e) (of_nat n)) = of_bool sign * 2 ^ 63 + m"
    unfolding pack_of_nat m_def [symmetric] using assms m_def by (intro unat_of_nat64) simp
  moreover have "m < 2 ^ 63"
    using assms by (simp add: m_def)
  ultimately show "signF64UI (packToF64UI sign (int e) (of_nat n)) = sign"
    "unat (packToF64UI sign (int e) (of_nat n)) mod 2 ^ 63 = e * 2 ^ 52 + n"
    unfolding m_def [symmetric] by (simp_all add: signF64UI_unat)
qed

subsection \<open>Rounding and packing\<close>

lemma and_not_1: "w AND NOT 1 = w - of_bool (odd (unat w))" for w :: u64
proof -
  have "unat (w AND 1) = unat w mod 2"
    using unat_and_mask [of w 1] by (simp add: mask_eq_exp_minus_1)
  then have "w AND 1 = of_bool (odd (unat w))"
    by (simp add: word_unat_eq_iff odd_iff_mod_2_eq_one)
  moreover have "w - (w AND 1) = w AND NOT (w AND 1)"
    by (rule disjunctive_diff_eq_and_not) (auto intro!: bit_eqI simp: bit_simps)
  moreover have "w AND NOT (w AND 1) = w AND NOT 1"
    by (auto intro!: bit_eqI simp only: bit_and_iff bit_not_iff)
  ultimately show ?thesis
    by simp
qed

lemma add_div_1024:
  fixes x :: nat
  shows "(x + 512) div 1024 = x div 1024 + of_bool (512 \<le> x mod 1024)"
    and "(x + 1023) div 1024 = x div 1024 + of_bool (x mod 1024 \<noteq> 0)"
proof -
  define q r where "q = x div 1024" and "r = x mod 1024"
  have x: "x = 1024 * q + r" "r < 1024"
    by (simp_all add: q_def r_def)
  show "(x + 512) div 1024 = x div 1024 + of_bool (512 \<le> x mod 1024)"
    unfolding q_def [symmetric] r_def [symmetric] using x by (intro div_nat_eqI) auto
  show "(x + 1023) div 1024 = x div 1024 + of_bool (x mod 1024 \<noteq> 0)"
    unfolding q_def [symmetric] r_def [symmetric] using x by (intro div_nat_eqI) auto
qed

lemma roundIncrement_cases:
  "roundIncrement rm sign half full =
     (if rm = round_near_even \<or> rm = round_near_maxMag then half
      else if rm = (if sign then round_min else round_max) then full else 0)"
  by (auto simp: roundIncrement_def)

lemma cut_rounded:
  fixes sig :: u64
  assumes "unat sig < 2 ^ 63"
  shows "drop_bit 10 (sig + roundIncrement rm sign 0x200 0x3FF) AND
      NOT (of_bool (sig AND 0x3FF = 0x200 \<and> rm = round_near_even)) =
    of_nat (round_nat rm sign 10 (unat sig))"
proof -
  define x where "x = unat sig"
  have add: "unat (sig + c) = x + unat c" if "unat c \<le> 1023" for c
    using assms that unfolding x_def unat_word_ariths by simp
  have r: "sig AND 0x3FF = 0x200 \<longleftrightarrow> x mod 1024 = 512"
    unfolding numeral_masks(3) word_unat_eq_iff unat_and_mask by (simp add: x_def)
  have cut: "drop_bit 10 (sig + c) = of_nat ((x + unat c) div 1024)" if "unat c \<le> 1023" for c
    unfolding word_unat_eq_iff unat_drop add [OF that]
    using assms that by (simp add: unat_of_nat64 x_def)
  consider "rm = round_near_even" | "rm \<noteq> round_near_even"
    by blast
  then show ?thesis
  proof cases
    case 1
    define y where "y = (x + 512) div 1024"
    have y: "y = x div 1024 + of_bool (512 \<le> x mod 1024)" "y < 2 ^ 64"
      using assms add_div_1024 by (auto simp: y_def x_def)
    have "roundIncrement rm sign 0x200 0x3FF = 512"
      using 1 by (simp add: roundIncrement_def)
    moreover have "round_nat rm sign 10 x = y - of_bool (x mod 1024 = 512 \<and> odd y)"
      using 1 y by (auto simp: round_nat_def rounds_up_def)
    moreover have "of_nat y AND NOT (of_bool (x mod 1024 = 512)) =
        (of_nat (y - of_bool (x mod 1024 = 512 \<and> odd y)) :: u64)"
      using y(2) and_not_1 [of "of_nat y"]
      by (cases "x mod 1024 = 512") (auto simp: unat_of_nat64 of_nat_diff Suc_le_eq odd_pos)
    ultimately show ?thesis
      using 1 cut [of 512] by (simp add: r x_def [symmetric] y_def)
  next
    case 2
    then show ?thesis
      by (auto simp: roundIncrement_cases cut r round_nat_def rounds_up_def add_div_1024 x_def [symmetric])
  qed
qed

lemma unat_or_of_bool: "unat (w OR of_bool b) = unat w + of_bool (b \<and> even (unat w))" for w :: u64
proof (cases b)
  case True
  have "w OR 1 = (w AND NOT 1) OR 1"
    by (auto intro!: bit_eqI simp only: bit_and_iff bit_or_iff bit_not_iff)
  also have "\<dots> = (w AND NOT 1) + 1"
    by (rule disjunctive_add [symmetric]) (auto simp only: bit_and_iff bit_not_iff)
  finally have w: "w OR 1 = w - of_bool (odd (unat w)) + 1"
    by (simp only: and_not_1)
  show ?thesis
  proof (cases "odd (unat w)")
    case False
    then have "unat w + 1 < 2 ^ 64"
      using unat_lt64 [of w] by (cases "unat w = 2 ^ 64 - 1") auto
    then show ?thesis
      using True False w by (simp add: unat_word_ariths)
  qed (use True w in simp)
qed simp

lemma shiftRightJam64_jam:
  assumes a: "unat a < 2 ^ 63" and d: "0 < d" "d < 2 ^ 64"
  shows "unat (shiftRightJam64 a (of_nat d)) = jam (unat a) d"
proof (cases "d < 63")
  case True
  have d64: "unat (of_nat d :: u64) = d"
    using d by (simp add: unat_of_nat64)
  have "(63 :: u64) = mask 6"
    by (simp add: mask_eq_exp_minus_1)
  then have "unat (- (of_nat d :: u64) AND 63) = unat (- (of_nat d :: u64)) mod 64"
    by (simp only: unat_and_mask) simp
  also have "unat (- (of_nat d :: u64)) = 2 ^ 64 - d"
  proof -
    have "(of_nat (2 ^ 64 - d) :: u64) = - of_nat d"
      using d by (simp add: of_nat_diff)
    then show ?thesis
      using d unat_of_nat64 [of "2 ^ 64 - d"] by simp
  qed
  also have "(2 ^ 64 - d) mod 64 = 64 - d"
  proof -
    have "2 ^ 64 - d = 64 * (2 ^ 58 - 1) + (64 - d)"
      using True by simp
    then show ?thesis
      using d by (simp only: mod_mult_self4) simp
  qed
  finally have n: "unat (- (of_nat d :: u64) AND 63) = 64 - d" .
  have "push_bit (64 - d) a = 0 \<longleftrightarrow> unat a mod 2 ^ d = 0"
  proof -
    have p: "(2::nat) ^ 64 = 2 ^ d * 2 ^ (64 - d)"
      using True by (simp flip: power_add)
    have "unat (push_bit (64 - d) a) = unat a * 2 ^ (64 - d) mod 2 ^ 64"
      by (subst unsigned_push_bit_eq) (simp add: take_bit_eq_mod push_bit_eq_mult)
    also have "\<dots> = unat a mod 2 ^ d * 2 ^ (64 - d)"
      unfolding p by (simp only: mult_mod_left)
    finally show ?thesis
      by (simp add: word_unat_eq_iff)
  qed
  then show ?thesis
    using True by (simp add: shiftRightJam64_def word_less_nat_alt d64 n unat_or_of_bool unat_drop jam_def)
next
  case False
  then have "unat a < 2 ^ d"
    using a power_increasing [of 63 d "2::nat"] by simp
  moreover have "\<not> (of_nat d :: u64) < 63"
    using False d by (simp add: word_less_nat_alt unat_of_nat64)
  ultimately show ?thesis
    by (simp add: shiftRightJam64_def jam_def word_unat_eq_iff)
qed

lemma packRoundedF64_value:
  fixes sig :: u64 and e :: nat and rm :: u32 and sign :: bool
  defines "N \<equiv> round_nat rm sign 10 (unat sig)"
  defines "r \<equiv> packRoundedF64 rm sign (int e) sig (roundIncrement rm sign 0x200 0x3FF) (sig AND 0x3FF)"
  assumes "unat sig < 2 ^ 63" "2 ^ 52 \<le> N \<or> e = 0" "e \<le> 2045"
  shows "signF64UI (fst r) = sign" and "f64_mag (fst r) = N * 2 ^ e"
proof -
  have "unat sig div 2 ^ 10 < 2 ^ 53"
    using assms(3) by (simp add: div_less_iff_less_mult)
  then have N: "N \<le> 2 ^ 53"
    by (simp add: N_def round_nat_def)
  then have bound: "e * 2 ^ 52 + N < 2 ^ 63"
    using assms(5) by simp
  have "(of_nat N :: u64) = 0 \<longleftrightarrow> N = 0"
    using N by (simp add: word_unat_eq_iff unat_of_nat64)
  then have "fst r = packToF64UI sign (int e) (of_nat N)"
    using cut_rounded [OF assms(3), of rm sign] assms(4)
    by (auto simp: r_def N_def packRoundedF64_def Let_def)
  then show "signF64UI (fst r) = sign" "f64_mag (fst r) = N * 2 ^ e"
    using packed_value [OF bound] mag_of_pack [OF N assms(4)] by (simp_all add: f64_mag_of)
qed

text \<open>Beyond the largest finite double: infinity, or that double, as the mode has it.\<close>

definition f64_inf_mag :: nat where
  "f64_inf_mag = 2 ^ 2098"

definition f64_overflow :: "u32 \<Rightarrow> bool \<Rightarrow> nat \<Rightarrow> nat" where
  "f64_overflow rm sign M =
     (if M < f64_inf_mag then M
      else if rm = round_near_even \<or> rm = round_near_maxMag \<or> rm = (if sign then round_min else round_max)
      then f64_inf_mag
      else f64_inf_mag - 2 ^ 2045)"

lemma inf_mag_split: "i + j = 2098 \<Longrightarrow> f64_inf_mag = 2 ^ i * 2 ^ j"
  by (simp only: f64_inf_mag_def flip: power_add)

lemma overflow_pack:
  "signF64UI (packToF64UI sign 0x7FF 0 - of_bool b) = sign"
  "f64_mag (packToF64UI sign 0x7FF 0 - of_bool b) = f64_inf_mag - of_bool b * 2 ^ 2045"
proof -
  define m :: nat where "m = 0x7FF * 2 ^ 52"
  have u: "unat (packToF64UI sign 0x7FF 0 - of_bool b) = of_bool sign * 2 ^ 63 + (m - of_bool b)"
    using pack_of_nat [of sign "0x7FF" 0] unat_of_nat64 [of "of_bool sign * 2 ^ 63 + (m - of_bool b)"]
    by (cases sign; cases b) (simp_all add: m_def)
  have m: "m - of_bool b < 2 ^ 63"
    by (simp add: m_def)
  show "signF64UI (packToF64UI sign 0x7FF 0 - of_bool b) = sign"
    using u m by (auto simp: signF64UI_unat)
  have "f64_mag (packToF64UI sign 0x7FF 0 - of_bool b) = mag_of (m - of_bool b)"
    using u m by (auto simp: f64_mag_of)
  also have "\<dots> = f64_inf_mag - of_bool b * 2 ^ 2045"
  proof (cases b)
    case True
    have "m - 1 = 0x7FD * 2 ^ 52 + (2 ^ 53 - 1)"
      by (simp add: m_def)
    then have "mag_of (m - 1) = (2 ^ 53 - 1) * 2 ^ 2045"
      using mag_of_pack [of "2 ^ 53 - 1" "0x7FD"] by simp
    also have "\<dots> = f64_inf_mag - 2 ^ 2045"
      using inf_mag_split [of 53 2045] by (simp add: diff_mult_distrib)
    finally show ?thesis
      using True by simp
  next
    case False
    have "m = 0x7FE * 2 ^ 52 + 2 ^ 52"
      by (simp add: m_def)
    then have "mag_of m = 2 ^ 52 * 2 ^ 0x7FE"
      using mag_of_pack [of "2 ^ 52" "0x7FE"] by simp
    then show ?thesis
      using False inf_mag_split [of 52 "0x7FE"] by (simp only: of_bool_eq) simp
  qed
  finally show "f64_mag (packToF64UI sign 0x7FF 0 - of_bool b) = f64_inf_mag - of_bool b * 2 ^ 2045" .
qed

lemma round_nat_increment:
  fixes rm :: u32 and sign :: bool and x :: nat
  defines "y \<equiv> (x + unat (roundIncrement rm sign 0x200 0x3FF)) div 1024"
  shows "round_nat rm sign 10 x \<le> y" and "even y \<Longrightarrow> round_nat rm sign 10 x = y"
  by (auto simp: y_def roundIncrement_cases round_nat_def rounds_up_def add_div_1024)

lemma roundPackToF64_value:
  fixes sig :: u64 and e :: int and rm :: u32 and sign :: bool
  defines "N \<equiv> round_nat rm sign (10 + nat (- e)) (unat sig)"
  assumes sig: "unat sig < 2 ^ 63" "2 ^ 62 \<le> unat sig \<or> e < 0"
    and e: "- 32768 \<le> e" "e < 32768"
  shows "signF64UI (fst (roundPackToF64 rm sign e sig)) = sign"
    and "f64_mag (fst (roundPackToF64 rm sign e sig)) = f64_overflow rm sign (N * 2 ^ nat e)"
proof -
  define inc where "inc = roundIncrement rm sign 0x200 0x3FF"
  define r where "r = roundPackToF64 rm sign e sig"
  have inc: "unat inc \<le> 1023"
    by (auto simp: inc_def roundIncrement_def)
  have mod: "0x7FD \<le> e mod 2 ^ 16 \<longleftrightarrow> e < 0 \<or> 0x7FD \<le> e"
  proof (cases "e < 0")
    case True
    then have "e mod 2 ^ 16 = e + 65536"
      using e mod_pos_pos_trivial [of "e + 65536" 65536] by simp
    then show ?thesis
      using True e by simp
  qed (use e in simp)
  have inf: "P * 2 ^ k < f64_inf_mag" if "P \<le> 2 ^ 53" "k \<le> 2044" for P k :: nat
  proof -
    have "P * 2 ^ k \<le> 2 ^ 53 * 2 ^ 2044"
      using that by (intro mult_mono power_increasing) auto
    also have "\<dots> < 2 ^ 54 * 2 ^ 2044"
      by (intro mult_strict_right_mono) auto
    finally show ?thesis
      by (simp only: inf_mag_split [of 54 2044])
  qed
  have N53: "N \<le> 2 ^ 53"
  proof -
    have "unat sig div 2 ^ (10 + nat (- e)) \<le> unat sig div 2 ^ 10"
      by (intro div_le_mono2 power_increasing) auto
    moreover have "unat sig div 2 ^ 10 < 2 ^ 53"
      using sig by (simp add: div_less_iff_less_mult)
    ultimately show ?thesis
      by (simp add: N_def round_nat_def)
  qed
  have "signF64UI (fst r) = sign \<and> f64_mag (fst r) = f64_overflow rm sign (N * 2 ^ nat e)"
  proof (cases "e < 0")
    case True
    define sig' where "sig' = shiftRightJam64 sig (word_of_int (- e))"
    have "(word_of_int (- e) :: u64) = of_nat (nat (- e))"
      using True by (simp add: of_nat_nat)
    then have u: "unat sig' = jam (unat sig) (nat (- e))"
      using shiftRightJam64_jam [OF sig(1), of "nat (- e)"] True e by (simp add: sig'_def)
    have "unat sig div 2 ^ nat (- e) \<le> unat sig div 2 ^ 1"
      using True by (intro div_le_mono2 power_increasing) auto
    then have "jam (unat sig) (nat (- e)) \<le> unat sig div 2 ^ 1 + 1"
      by (simp add: jam_def)
    then have lt: "unat sig' < 2 ^ 63"
      using sig u by simp
    have "round_nat rm sign 10 (unat sig') = N"
      by (simp add: u round_nat_jam N_def add.commute)
    moreover have "fst r = fst (packRoundedF64 rm sign (int 0) sig' inc (sig' AND 0x3FF))"
      using True mod by (simp add: r_def roundPackToF64_def raising_def Let_def inc_def sig'_def)
    ultimately show ?thesis
      using packRoundedF64_value [OF lt, where rm = rm and sign = sign and e = 0] inf [OF N53, of 0] True
      by (simp add: inc_def f64_overflow_def)
  next
    case False
    have N: "N = round_nat rm sign 10 (unat sig)"
      using False by (simp add: N_def)
    have "2 ^ 52 \<le> unat sig div 2 ^ 10"
      using sig False by (simp add: less_eq_div_iff_mult_less_eq)
    then have N52: "2 ^ 52 \<le> N"
      by (simp add: N round_nat_def)
    define y where "y = (unat sig + unat inc) div 1024"
    have y: "N \<le> y" "even y \<Longrightarrow> N = y"
      using round_nat_increment [where rm = rm and sign = sign and x = "unat sig"] by (simp_all add: N y_def inc_def)
    have sum: "0x8000000000000000 \<le> sig + inc \<longleftrightarrow> 2 ^ 53 \<le> y"
      using sig inc by (simp add: word_le_nat_alt unat_word_ariths y_def less_eq_div_iff_mult_less_eq)
    show ?thesis
    proof (cases "0x7FD < e \<or> e = 0x7FD \<and> 2 ^ 53 \<le> y")
      case over: True
      then have "fst r = packToF64UI sign 0x7FF 0 - of_bool (inc = 0)"
        using False mod sum by (auto simp: r_def roundPackToF64_def Let_def inc_def)
      moreover have "f64_inf_mag \<le> N * 2 ^ nat e"
      proof (cases "0x7FD < e")
        case True
        then have "(2::nat) ^ 52 * 2 ^ 2046 \<le> N * 2 ^ nat e"
          using N52 by (intro mult_mono power_increasing) auto
        then show ?thesis
          by (simp only: inf_mag_split [of 52 2046])
      next
        case ne: False
        have "y < 2 ^ 53 + 1"
          using sig inc by (simp add: y_def div_less_iff_less_mult)
        then have "y = 2 ^ 53" "nat e = 2045"
          using over ne by auto
        then have "N = 2 ^ 53" "nat e = 2045"
          using y(2) by simp_all
        then show ?thesis
          using inf_mag_split [of 53 2045] by simp
      qed
      ultimately show ?thesis
        using overflow_pack [of sign "inc = 0"]
        by (auto simp: f64_overflow_def inc_def roundIncrement_cases)
    next
      case fits: False
      then have "r = packRoundedF64 rm sign (int (nat e)) sig inc (sig AND 0x3FF)"
        using False mod sum by (auto simp: r_def roundPackToF64_def Let_def inc_def)
      moreover have "N * 2 ^ nat e < f64_inf_mag"
      proof (cases "e = 0x7FD")
        case True
        then have "N < 2 ^ 53" "nat e = 2045"
          using y(1) fits by auto
        then show ?thesis
          using inf_mag_split [of 53 2045] by simp
      qed (use inf N53 fits in auto)
      ultimately show ?thesis
        using packRoundedF64_value [OF sig(1), where rm = rm and sign = sign and e = "nat e"] N52 fits False
        by (auto simp: N inc_def f64_overflow_def)
    qed
  qed
  then show "signF64UI (fst (roundPackToF64 rm sign e sig)) = sign"
    "f64_mag (fst (roundPackToF64 rm sign e sig)) = f64_overflow rm sign (N * 2 ^ nat e)"
    by (simp_all add: r_def)
qed

subsection \<open>Leading zeros and subnormal numbers\<close>

text \<open>\<open>c\<close> is the number of leading zeros of the \<open>n\<close>-bit number \<open>x\<close>.\<close>

definition leading_zeros :: "nat \<Rightarrow> nat \<Rightarrow> nat \<Rightarrow> bool" where
  "leading_zeros n x c \<longleftrightarrow> 2 ^ (n - 1) \<le> x * 2 ^ c \<and> x * 2 ^ c < 2 ^ n"

lemma leading_zeros_shift: "leading_zeros n (x * 2 ^ k) c \<Longrightarrow> leading_zeros n x (k + c)"
  by (simp add: leading_zeros_def power_add mult.assoc)

lemma leading_zeros_Suc:
  assumes "leading_zeros n x c"
  shows "Suc x * 2 ^ c \<le> 2 ^ n"
proof -
  have x: "x * 2 ^ c < 2 ^ n" "0 < x"
    using assms by (auto simp: leading_zeros_def intro: Nat.gr0I)
  then have "1 * 2 ^ c \<le> x * (2::nat) ^ c"
    by (intro mult_right_mono) auto
  then have "(2::nat) ^ c < 2 ^ n"
    using x(1) by linarith
  then have p: "(2::nat) ^ n = 2 ^ (n - c) * 2 ^ c"
    by (simp flip: power_add)
  then have "Suc x \<le> 2 ^ (n - c)"
    using x(1) by simp
  then show ?thesis
    unfolding p by (rule mult_right_mono) simp
qed

lemma clz8_table:
  "list_all (\<lambda>h. 128 \<le> h * 2 ^ (countLeadingZeros8_table ! h) \<and>
     Suc h * 2 ^ (countLeadingZeros8_table ! h) \<le> 256) [1..<256]"
  by code_simp

lemma clz8_high:
  assumes "2 ^ 24 \<le> unat a"
  shows "leading_zeros 32 (unat a) (countLeadingZeros8 (drop_bit 24 a))"
proof -
  define h t where "h = unat a div 2 ^ 24" and "t = countLeadingZeros8_table ! h"
  have "unat a < 2 ^ LENGTH(32)"
    by (rule unsigned_less)
  then have h: "h \<in> set [1..<256]"
    using assms by (simp add: h_def div_less_iff_less_mult less_eq_div_iff_mult_less_eq Suc_le_eq flip: One_nat_def)
  then have t: "128 \<le> h * 2 ^ t" "Suc h * 2 ^ t \<le> 256"
    using clz8_table unfolding list_all_iff t_def by blast+
  have "h * 2 ^ 24 \<le> unat a" "unat a < Suc h * 2 ^ 24"
    unfolding h_def by (simp, metis dividend_less_div_times zero_less_numeral zero_less_power mult_Suc add.commute)
  then have "h * 2 ^ 24 * 2 ^ t \<le> unat a * 2 ^ t" "unat a * 2 ^ t < Suc h * 2 ^ 24 * 2 ^ t"
    by (intro mult_right_mono, simp_all)
  moreover have "2 ^ 31 \<le> h * 2 ^ 24 * 2 ^ t" "Suc h * 2 ^ 24 * 2 ^ t \<le> 2 ^ 32"
  proof -
    have e: "x * 2 ^ 24 * 2 ^ t = (x * 2 ^ t) * 2 ^ 24" for x :: nat
      by (simp only: ac_simps)
    show "2 ^ 31 \<le> h * 2 ^ 24 * 2 ^ t" "Suc h * 2 ^ 24 * 2 ^ t \<le> 2 ^ 32"
      unfolding e using t(1) mult_right_mono [OF t(2), of "2 ^ 24"] by simp_all
  qed
  ultimately have "2 ^ 31 \<le> unat a * 2 ^ t" "unat a * 2 ^ t < 2 ^ 32"
    by linarith+
  then show ?thesis
    by (simp add: leading_zeros_def countLeadingZeros8_def unat_drop h_def t_def)
qed

lemma unat_push: "unat (w :: 'a :: len word) * 2 ^ n < 2 ^ LENGTH('a) \<Longrightarrow> unat (push_bit n w) = unat w * 2 ^ n"
  by (subst unsigned_push_bit_eq) (simp add: take_bit_nat_eq_self push_bit_eq_mult)

lemma clz_tail:
  fixes a :: u32 and c :: nat
  assumes "a \<noteq> 0"
  defines "p \<equiv> (if a < 0x10000 then (c + 16, push_bit 16 a) else (c, a))"
  defines "q \<equiv> (if snd p < 0x1000000 then (fst p + 8, push_bit 8 (snd p)) else p)"
  shows "\<exists>k. fst q + countLeadingZeros8 (drop_bit 24 (snd q)) = c + k \<and> leading_zeros 32 (unat a) k"
proof -
  have p: "\<exists>k. fst p = c + k \<and> unat (snd p) = unat a * 2 ^ k \<and> 2 ^ 16 \<le> unat (snd p)"
  proof (cases "a < 0x10000")
    case True
    then have "unat (push_bit 16 a) = unat a * 2 ^ 16"
      by (intro unat_push) (simp add: word_less_nat_alt)
    moreover have "0 < unat a"
      using assms by (simp add: unat_gt_0)
    ultimately show ?thesis
      using True by (intro exI [of _ 16]) (simp add: p_def)
  qed (auto simp: p_def word_less_nat_alt intro: exI [of _ 0])
  then obtain k where k: "fst p = c + k" "unat (snd p) = unat a * 2 ^ k" "2 ^ 16 \<le> unat (snd p)"
    by blast
  have "\<exists>j. fst q = c + k + j \<and> unat (snd q) = unat (snd p) * 2 ^ j \<and> 2 ^ 24 \<le> unat (snd q)"
  proof (cases "snd p < 0x1000000")
    case True
    then have "unat (push_bit 8 (snd p)) = unat (snd p) * 2 ^ 8"
      by (intro unat_push) (simp add: word_less_nat_alt)
    then show ?thesis
      using True k by (intro exI [of _ 8]) (simp add: q_def)
  qed (use k in \<open>auto simp: q_def word_less_nat_alt intro: exI [of _ 0]\<close>)
  then obtain j where j: "fst q = c + k + j" "unat (snd q) = unat a * 2 ^ (k + j)" "2 ^ 24 \<le> unat (snd q)"
    using k by (auto simp: power_add)
  then have "leading_zeros 32 (unat a) (k + j + countLeadingZeros8 (drop_bit 24 (snd q)))"
    using clz8_high [of "snd q"] by (simp add: leading_zeros_shift)
  then show ?thesis
    using j(1) by (intro exI [of _ "k + j + countLeadingZeros8 (drop_bit 24 (snd q))"]) simp
qed

lemma clz64_ok:
  assumes "a \<noteq> 0"
  shows "leading_zeros 64 (unat a) (countLeadingZeros64 a)"
proof -
  define h where "h = (ucast (drop_bit 32 a) :: u32)"
  have uh: "unat h = unat a div 2 ^ 32"
    using unat_lt64 [of a] by (simp add: h_def unsigned_ucast_eq unat_drop take_bit_nat_eq_self div_less_iff_less_mult)
  define r where "r = (if h = 0 then (32 :: nat, ucast a :: u32) else (0, h))"
  define p where "p = (if snd r < 0x10000 then (fst r + 16, push_bit 16 (snd r)) else (fst r, snd r))"
  define q where "q = (if snd p < 0x1000000 then (fst p + 8, push_bit 8 (snd p)) else p)"
  have clz: "countLeadingZeros64 a = fst q + countLeadingZeros8 (drop_bit 24 (snd q))"
    by (simp add: countLeadingZeros64_def h_def [symmetric] r_def [symmetric] p_def q_def Let_def split_beta)
  show ?thesis
  proof (cases "h = 0")
    case True
    then have a: "unat a < 2 ^ 32"
      using uh by (simp add: div_eq_0_iff)
    then have ua: "unat (snd r) = unat a"
      using True by (simp add: r_def unsigned_ucast_eq take_bit_nat_eq_self)
    then have "snd r \<noteq> 0"
      using assms by (metis unat_0 word_unat_eq_iff)
    then obtain k where k: "countLeadingZeros64 a = fst r + k" "leading_zeros 32 (unat (snd r)) k"
      using clz_tail [of "snd r" "fst r"] unfolding clz p_def q_def by blast
    then show ?thesis
      using True ua by (simp add: leading_zeros_def r_def power_add)
  next
    case False
    then obtain k where k: "countLeadingZeros64 a = k" "leading_zeros 32 (unat h) k"
      using clz_tail [of "snd r" "fst r"] unfolding clz p_def q_def by (auto simp: r_def)
    have lo: "unat a = unat h * 2 ^ 32 + unat a mod 2 ^ 32" "unat a mod 2 ^ 32 < 2 ^ 32"
      by (simp_all add: uh)
    have "Suc (unat h) * 2 ^ k \<le> 2 ^ 32"
      using k(2) by (rule leading_zeros_Suc)
    then have "Suc (unat h) * 2 ^ 32 * 2 ^ k \<le> 2 ^ 64"
    proof -
      have "Suc (unat h) * 2 ^ 32 * 2 ^ k = (Suc (unat h) * 2 ^ k) * 2 ^ 32"
        by (simp only: ac_simps)
      then show ?thesis
        using mult_right_mono [OF \<open>Suc (unat h) * 2 ^ k \<le> 2 ^ 32\<close>, of "2 ^ 32"] by simp
    qed
    moreover have "unat a * 2 ^ k < Suc (unat h) * 2 ^ 32 * 2 ^ k"
      by (rule mult_strict_right_mono) (use lo in simp_all)
    moreover have "2 ^ 63 \<le> unat h * 2 ^ 32 * 2 ^ k"
      using k(2) mult_right_mono [of "2 ^ 31" "unat h * 2 ^ k" "2 ^ 32"]
      by (simp add: leading_zeros_def mult.commute mult.left_commute)
    moreover have "unat h * 2 ^ 32 * 2 ^ k \<le> unat a * 2 ^ k"
      by (rule mult_right_mono) (use lo in simp_all)
    ultimately have "2 ^ 63 \<le> unat a * 2 ^ k" "unat a * 2 ^ k < 2 ^ 64"
      by linarith+
    then show ?thesis
      by (simp add: leading_zeros_def k(1))
  qed
qed

subsection \<open>The 128-bit product\<close>

lemma unat_carry: "unat (x + y) + 2 ^ 64 * of_bool (x + y < x) = unat x + unat y" for x y :: u64
proof (cases "x + y < x")
  case True
  then have "unat (x + y) \<noteq> unat x + unat y"
    by (simp add: word_less_nat_alt)
  then have "2 ^ 64 \<le> unat x + unat y"
    by (simp add: unat_word_ariths) (metis mod_less not_less)
  moreover have "unat x + unat y < 2 ^ 64 + 2 ^ 64"
    using unat_lt64 [of x] unat_lt64 [of y] by linarith
  ultimately show ?thesis
    using True by (simp add: unat_word_ariths le_mod_geq)
qed (simp add: no_wrap)

lemma unat_plus64: "unat x + unat y < 2 ^ 64 \<Longrightarrow> unat (x + y) = unat x + unat y" for x y :: u64
  by (simp add: unat_word_ariths)

lemma unat_lt32: "unat (w :: u32) < 2 ^ 32"
  using unsigned_less [of w] by simp

lemma unat_ucast32: "unat (ucast (w :: u32) :: u64) = unat w"
  using unat_lt32 [of w] by (simp add: unsigned_ucast_eq take_bit_nat_eq_self)

lemma unat_mul32: "unat ((ucast x :: u64) * ucast y) = unat x * unat y" for x y :: u32
proof -
  have "unat x * unat y < 2 ^ 32 * 2 ^ 32"
    using unat_lt32 [of x] unat_lt32 [of y] by (intro mult_strict_mono) auto
  then show ?thesis
    unfolding unat_word_ariths unat_ucast32 by simp
qed

lemma words64_parts: "words64 (ucast (drop_bit 32 x)) (ucast x) = x"
  unfolding words64_def by (rule bit_word_eqI) (auto simp: bit_simps)

lemma unat_words64: "unat (words64 h l) = unat h * 2 ^ 32 + unat l"
proof -
  have "words64 h l = push_bit 32 (ucast h) + ucast l"
    unfolding words64_def
    by (rule disjunctive_add [symmetric]) (auto simp: bit_simps dest: bit_imp_le_length)
  moreover have "unat (push_bit 32 (ucast h :: u64)) = unat h * 2 ^ 32"
    using unat_lt32 [of h] by (subst unat_push) (simp_all add: unat_ucast32)
  ultimately show ?thesis
    using unat_lt32 [of h] unat_lt32 [of l] by (simp add: unat_word_ariths unat_ucast32)
qed

lemma mul64To128M_words:
  fixes a b :: u64
  defines "z \<equiv> mul64To128M a b"
  shows "unat (words64 (z ! 3) (z ! 2)) = unat a * unat b div 2 ^ 64"
    and "unat (words64 (z ! 1) (z ! 0)) = unat a * unat b mod 2 ^ 64"
proof -
  define A1 A0 B1 B0 where "A1 = (ucast (drop_bit 32 a) :: u32)" and "A0 = (ucast a :: u32)"
    and "B1 = (ucast (drop_bit 32 b) :: u32)" and "B0 = (ucast b :: u32)"
  define mid1 mid where "mid1 = (ucast A1 :: u64) * ucast B0" and "mid = mid1 + ucast A0 * ucast B1"
  define z0 where "z0 = (ucast A0 :: u64) * ucast B0"
  define c where "c = (of_bool (mid < mid1) :: nat)"
  define hi where "hi = (ucast A1 :: u64) * ucast B1 + (push_bit 32 (of_bool (mid < mid1)) OR drop_bit 32 mid)"
  define z0' where "z0' = z0 + push_bit 32 mid"
  define hi' where "hi' = hi + of_bool (z0' < push_bit 32 mid)"
  have ab: "unat a = unat A1 * 2 ^ 32 + unat A0" "unat b = unat B1 * 2 ^ 32 + unat B0"
    using unat_words64 [of A1 A0] unat_words64 [of B1 B0]
    by (simp_all add: A1_def A0_def B1_def B0_def words64_parts)
  define M where "M = unat A1 * unat B0 + unat A0 * unat B1"
  have M: "M = c * 2 ^ 64 + unat mid"
    using unat_carry [of mid1 "ucast A0 * ucast B1"] by (simp add: M_def c_def mid_def mid1_def unat_mul32)
  have P: "unat a * unat b = unat A1 * unat B1 * 2 ^ 64 + M * 2 ^ 32 + unat z0"
    by (simp add: ab M_def z0_def unat_mul32 algebra_simps)
  define d where "d = (of_bool (z0' < push_bit 32 mid) :: nat)"
  have m32: "unat mid div 2 ^ 32 + c * 2 ^ 32 = M div 2 ^ 32" "unat mid mod 2 ^ 32 = M mod 2 ^ 32"
  proof -
    have M': "M = unat mid + (c * 2 ^ 32) * 2 ^ 32"
      using M by simp
    show "unat mid div 2 ^ 32 + c * 2 ^ 32 = M div 2 ^ 32"
      unfolding M' by (subst div_mult_self1) simp_all
    show "unat mid mod 2 ^ 32 = M mod 2 ^ 32"
      unfolding M' by (rule mod_mult_self1 [symmetric])
  qed
  have shift: "unat (push_bit 32 mid) = M mod 2 ^ 32 * 2 ^ 32"
    using mult_mod_left [of "unat mid" "2 ^ 32" "2 ^ 32"]
      m32(2)
    by (subst unsigned_push_bit_eq) (simp add: take_bit_eq_mod push_bit_eq_mult mult.commute)
  have low: "unat z0' + 2 ^ 64 * d = unat z0 + M mod 2 ^ 32 * 2 ^ 32"
    using unat_carry [of "push_bit 32 mid" z0] by (simp add: z0'_def d_def shift add.commute)
  have "M * 2 ^ 32 = M div 2 ^ 32 * 2 ^ 64 + M mod 2 ^ 32 * 2 ^ 32"
  proof -
    have "M * 2 ^ 32 = (M div 2 ^ 32 * 2 ^ 32 + M mod 2 ^ 32) * 2 ^ 32"
      by (simp only: div_mult_mod_eq)
    then show ?thesis
      by (simp only: distrib_right) simp
  qed
  then have P': "unat a * unat b = (unat A1 * unat B1 + M div 2 ^ 32 + d) * 2 ^ 64 + unat z0'"
    using P low by (simp add: algebra_simps)
  have "unat a * unat b < 2 ^ 64 * 2 ^ 64"
    using unat_lt64 [of a] unat_lt64 [of b] by (intro mult_strict_mono) auto
  then have lt: "unat A1 * unat B1 + M div 2 ^ 32 + d < 2 ^ 64"
    unfolding P' by (simp add: mult_less_cancel2)
  have "push_bit 32 (of_bool (mid < mid1)) OR drop_bit 32 mid = push_bit 32 (of_bool (mid < mid1)) + drop_bit 32 mid"
    by (rule disjunctive_add [symmetric]) (auto simp: bit_simps dest: bit_imp_le_length)
  moreover have "unat (push_bit 32 (of_bool (mid < mid1)) :: u64) = c * 2 ^ 32"
    by (simp add: c_def)
  ultimately have "unat (push_bit 32 (of_bool (mid < mid1)) OR drop_bit 32 mid) = M div 2 ^ 32"
    using m32(1) lt by (simp add: unat_word_ariths unat_drop)
  then have "unat hi = unat A1 * unat B1 + M div 2 ^ 32"
    using lt unfolding hi_def by (subst unat_plus64) (simp_all add: unat_mul32)
  then have "unat hi' = unat A1 * unat B1 + M div 2 ^ 32 + d"
    using lt unfolding hi'_def d_def
    by (cases "z0' < push_bit 32 mid") (simp_all add: unat_plus64)
  moreover have "words64 (z ! 3) (z ! 2) = hi'" "words64 (z ! 1) (z ! 0) = z0'"
    by (simp_all add: z_def mul64To128M_def Let_def words64_parts A1_def A0_def B1_def B0_def
        mid1_def mid_def z0_def hi_def z0'_def hi'_def)
  ultimately show "unat (words64 (z ! 3) (z ! 2)) = unat a * unat b div 2 ^ 64"
    "unat (words64 (z ! 1) (z ! 0)) = unat a * unat b mod 2 ^ 64"
  proof -
    have split: "(h * 2 ^ 64 + l) div 2 ^ 64 = h" "(h * 2 ^ 64 + l) mod 2 ^ 64 = l" if "l < 2 ^ 64" for h l :: nat
      using that by simp_all
    assume "unat hi' = unat A1 * unat B1 + M div 2 ^ 32 + d"
      "words64 (z ! 3) (z ! 2) = hi'" "words64 (z ! 1) (z ! 0) = z0'"
    then show "unat (words64 (z ! 3) (z ! 2)) = unat a * unat b div 2 ^ 64"
      "unat (words64 (z ! 1) (z ! 0)) = unat a * unat b mod 2 ^ 64"
      unfolding P' split [OF unat_lt64] by simp_all
  qed
qed

end
