(* ===== verification/SoftFloatArith.thy ===== *)
theory SoftFloatArith
  imports SoftFloatProps
begin

text \<open>
  The double-precision product is the exact product, correctly rounded in each of the five
  modes, for all finite operands, subnormal ones, zeros and overflow included.
\<close>

subsection \<open>The specification\<close>

fun bit_length :: "nat \<Rightarrow> nat" where
  "bit_length n = (if n = 0 then 0 else Suc (bit_length (n div 2)))"

declare bit_length.simps [simp del]

text \<open>
  The magnitude of the double that \<open>X\<close> units of \<open>2 ^ - (1074 + u)\<close> round to, in units of
  \<open>2 ^ -1074\<close>: all but 53 significant bits are rounded off, and at least the last \<open>u\<close>.
\<close>

definition f64_rounded :: "u32 \<Rightarrow> bool \<Rightarrow> nat \<Rightarrow> nat \<Rightarrow> nat" where
  "f64_rounded rm sign u X =
     (let K = max u (bit_length X - 53)
      in f64_overflow rm sign (round_nat rm sign K X * 2 ^ (K - u)))"

lemma bit_length_0 [simp]: "bit_length 0 = 0"
  by (simp add: bit_length.simps)

lemma bit_length_bounds: "n \<noteq> 0 \<Longrightarrow> 2 ^ (bit_length n - 1) \<le> n \<and> n < 2 ^ bit_length n \<and> 0 < bit_length n"
proof (induction n rule: bit_length.induct)
  case (1 n)
  show ?case
  proof (cases "n div 2 = 0")
    case True
    then have "n = 1"
      using 1(2) by simp
    then show ?thesis
      by (simp add: bit_length.simps)
  next
    case False
    then have IH: "2 ^ (bit_length (n div 2) - 1) \<le> n div 2" "n div 2 < 2 ^ bit_length (n div 2)"
      "0 < bit_length (n div 2)"
      using 1 by auto
    then obtain k where k: "bit_length (n div 2) = Suc k"
      using gr0_implies_Suc by blast
    have "bit_length n = Suc (Suc k)"
      using 1(2) k by (subst bit_length.simps) simp
    then show ?thesis
      using IH k by auto
  qed
qed

lemma bit_length_SucE:
  assumes "n \<noteq> 0"
  obtains j where "bit_length n = Suc j" "2 ^ j \<le> n" "n < 2 ^ Suc j"
proof -
  obtain j where "bit_length n = Suc j"
    using bit_length_bounds [OF assms] gr0_implies_Suc by blast
  then show thesis
    using bit_length_bounds [OF assms] by (intro that [of j]) auto
qed

lemma bit_length_eqI:
  assumes "2 ^ k \<le> n" "n < 2 ^ Suc k"
  shows "bit_length n = Suc k"
proof -
  have n: "n \<noteq> 0"
    using assms(1) by (metis not_less zero_less_power zero_less_numeral)
  obtain j where j: "bit_length n = Suc j" "2 ^ j \<le> n" "n < 2 ^ Suc j"
    using bit_length_SucE [OF n] by blast
  have "2 ^ j < (2::nat) ^ Suc k" "2 ^ k < (2::nat) ^ Suc j"
    using j assms by linarith+
  then have "j < Suc k" "k < Suc j"
    by (simp_all only: power_strict_increasing_iff one_less_numeral_iff semiring_norm)
  then show ?thesis
    using j by simp
qed

lemma bit_length_shift: "n \<noteq> 0 \<Longrightarrow> bit_length (n * 2 ^ k) = bit_length n + k"
proof -
  assume n: "n \<noteq> 0"
  obtain j where j: "bit_length n = Suc j" "2 ^ j \<le> n" "n < 2 ^ Suc j"
    using bit_length_SucE [OF n] by blast
  then have "2 ^ (j + k) \<le> n * 2 ^ k" "n * 2 ^ k < 2 ^ Suc (j + k)"
    by (simp_all add: power_add mult.assoc [symmetric])
  then show ?thesis
    using j bit_length_eqI by simp
qed

text \<open>
  The rounding does not depend on the unit in which the exact result is given: \<open>N\<close> has
  \<open>L\<close> bits, and \<open>e\<close> is the exponent that the code packs.
\<close>

lemma f64_rounded_core:
  assumes X: "X * 2 ^ p = N * 2 ^ q" and N: "N \<noteq> 0" "bit_length N = L" "53 \<le> L"
    and e: "int q - int p = e + int u + 53 - int L"
  shows "f64_rounded rm sign u X =
    f64_overflow rm sign (round_nat rm sign (L - 53 + nat (- e)) N * 2 ^ nat e)"
proof -
  have "X \<noteq> 0"
    using X N by (metis mult_is_0 power_not_zero zero_neq_numeral)
  then have len: "bit_length X + p = L + q"
    using bit_length_shift [of X p] bit_length_shift [of N q] X N by simp
  define K where "K = max u (bit_length X - 53)"
  have K: "K + p = L - 53 + nat (- e) + q" "K - u = nat e"
    using len e N(3) by (auto simp: K_def max_def)
  have "round_nat rm sign K X = round_nat rm sign (K + p) (N * 2 ^ q)"
    unfolding X [symmetric] by (rule round_nat_scale [symmetric])
  also have "\<dots> = round_nat rm sign (L - 53 + nat (- e)) N"
    unfolding K(1) by (rule round_nat_scale)
  finally show ?thesis
    by (simp add: f64_rounded_def K_def [symmetric] K(2) Let_def)
qed

subsection \<open>Significands\<close>

lemma or_hidden:
  fixes w :: u64
  assumes "unat w < 2 ^ 53"
  shows "unat (w OR 0x10000000000000) = 2 ^ 52 + unat w mod 2 ^ 52"
proof -
  have h: "(0x10000000000000 :: u64) = push_bit 52 1"
    by simp
  have "take_bit 53 w = w"
    using assms by (simp add: word_unat_eq_iff unsigned_take_bit_eq take_bit_nat_eq_self)
  then have b: "n < 53" if "bit w n" for n
    using that by (metis bit_take_bit_iff)
  have "w OR push_bit 52 1 = (w AND mask 52) OR push_bit 52 1"
  proof (rule bit_word_eqI)
    fix n
    show "bit (w OR push_bit 52 1) n = bit ((w AND mask 52) OR push_bit 52 1) n"
      using b [of n] by (cases n "52 :: nat" rule: linorder_cases) (auto simp: bit_simps)
  qed
  also have "\<dots> = (w AND mask 52) + push_bit 52 1"
    by (rule disjunctive_add [symmetric]) (auto simp only: bit_and_iff bit_mask_iff bit_push_bit_iff)
  finally have "w OR 0x10000000000000 = (w AND mask 52) + push_bit 52 1"
    unfolding h .
  moreover have "unat (w AND mask 52) = unat w mod 2 ^ 52"
    by (rule unat_and_mask)
  ultimately show ?thesis
    by (simp add: unat_plus64)
qed

text \<open>The shift that brings the leading bit of a small significand to position 52.\<close>

lemma subnormal_shift:
  fixes w :: u64
  assumes "unat w < 2 ^ 52" "unat w \<noteq> 0"
  obtains k where "countLeadingZeros64 w = Suc k + 11" "2 ^ 52 \<le> unat w * 2 ^ Suc k"
    "unat w * 2 ^ Suc k < 2 ^ 53" "Suc k < 53"
proof -
  define x c where "x = unat w" and "c = countLeadingZeros64 w"
  have x: "x < 2 ^ 52" "x \<noteq> 0"
    using assms by (simp_all add: x_def)
  have "leading_zeros 64 x c"
    unfolding x_def c_def using assms(2) by (intro clz64_ok) auto
  then have c: "2 ^ 63 \<le> x * 2 ^ c" "x * 2 ^ c < 2 ^ 64"
    by (simp_all add: leading_zeros_def)
  have "12 \<le> c"
  proof (rule ccontr)
    assume "\<not> 12 \<le> c"
    then have "x * 2 ^ c \<le> x * 2 ^ 11"
      by (intro mult_left_mono power_increasing) auto
    also have "x * 2 ^ 11 < 2 ^ 52 * 2 ^ 11"
      using x by (intro mult_strict_right_mono) auto
    finally show False
      using c(1) by simp
  qed
  then obtain k where "c = 12 + k"
    using le_Suc_ex by blast
  then have k: "c = Suc k + 11"
    by simp
  have n: "2 ^ 52 \<le> x * 2 ^ Suc k" "x * 2 ^ Suc k < 2 ^ 53"
    using c unfolding k power_add by (simp_all only: mult.assoc [symmetric]) simp_all
  have "Suc k < 53"
  proof (rule ccontr)
    assume "\<not> Suc k < 53"
    then have "1 * (2::nat) ^ 53 \<le> x * 2 ^ Suc k"
      using x(2) by (intro mult_mono power_increasing) auto
    then show False
      using n(2) by simp
  qed
  then show thesis
    using k n by (intro that) (simp_all add: x_def c_def)
qed

text \<open>
  A finite nonzero number, its leading bit made explicit: \<open>n\<close> is the 53-bit significand and
  \<open>e\<close> the exponent, which is not positive for a subnormal number.
\<close>

lemma normF64_value:
  assumes "f64_finite a" "\<not> (expF64UI a = 0 \<and> fracF64UI a = 0)"
  obtains e s n where "normF64 (expF64UI a) (fracF64UI a) = (e, s)"
    "unat (s OR 0x10000000000000) = n" "2 ^ 52 \<le> n" "n < 2 ^ 53"
    "- 51 \<le> e" "e \<le> 2046" "f64_mag a * 2 ^ nat (1 - e) = n * 2 ^ nat (e - 1)"
proof -
  define x where "x = unat (fracF64UI a)"
  have x: "x < 2 ^ 52"
    by (simp add: x_def fracF64UI_unat)
  have E: "0 \<le> expF64UI a" "expF64UI a \<le> 2046"
  proof -
    have "unat a div 2 ^ 52 mod 2 ^ 11 < 2 ^ 11"
      by simp
    then show "0 \<le> expF64UI a" "expF64UI a \<le> 2046"
      using assms(1) by (simp_all add: f64_finite_def expF64UI_unat)
  qed
  show thesis
  proof (cases "expF64UI a = 0")
    case False
    show thesis
    proof (rule that)
      show "normF64 (expF64UI a) (fracF64UI a) = (expF64UI a, fracF64UI a)"
        using False by (simp add: normF64_def)
      show "unat (fracF64UI a OR 0x10000000000000) = 2 ^ 52 + x"
        using x or_hidden [of "fracF64UI a"] by (simp add: x_def)
      show "f64_mag a * 2 ^ nat (1 - expF64UI a) = (2 ^ 52 + x) * 2 ^ nat (expF64UI a - 1)"
        using False E by (simp add: f64_mag_def x_def nat_diff_distrib)
    qed (use x E False in auto)
  next
    case True
    then have x0: "x \<noteq> 0"
      using assms(2) by (simp add: x_def unat_eq_0)
    obtain k where k: "countLeadingZeros64 (fracF64UI a) = Suc k + 11" "2 ^ 52 \<le> x * 2 ^ Suc k"
      "x * 2 ^ Suc k < 2 ^ 53" "Suc k < 53"
      using subnormal_shift [of "fracF64UI a"] x x0 unfolding x_def by blast
    note n = k(2,3)
    have u: "unat (push_bit (Suc k) (fracF64UI a)) = x * 2 ^ Suc k"
      using n(2) unfolding x_def by (intro unat_push) simp
    show thesis
    proof (rule that)
      show "normF64 (expF64UI a) (fracF64UI a) = (- int k, push_bit (Suc k) (fracF64UI a))"
        using True k(1) by (simp add: normF64_def normSubnormalF64Sig_def nat_add_distrib)
      show "unat (push_bit (Suc k) (fracF64UI a) OR 0x10000000000000) = x * 2 ^ Suc k"
      proof -
        have "2 ^ 52 + y mod 2 ^ 52 = y" if "2 ^ 52 \<le> y" "y < 2 ^ 53" for y :: nat
          using that by (simp add: le_mod_geq)
        then show ?thesis
          using or_hidden [of "push_bit (Suc k) (fracF64UI a)"] n unfolding u by metis
      qed
      show "f64_mag a * 2 ^ nat (1 - - int k) = (x * 2 ^ Suc k) * 2 ^ nat (- int k - 1)"
        using True by (simp add: f64_mag_def x_def nat_add_distrib)
    qed (use n k(4) in auto)
  qed
qed

subsection \<open>Multiplication\<close>

lemma jam_less_iff: "0 < m \<Longrightarrow> jam x d < 2 ^ m \<longleftrightarrow> x div 2 ^ d < 2 ^ m"
proof -
  assume "0 < m"
  then have "even ((2::nat) ^ m)"
    by simp
  then have "Suc y < 2 ^ m \<longleftrightarrow> y < 2 ^ m" if "even y" for y :: nat
    using that by (metis Suc_lessI Suc_lessD even_Suc)
  then show ?thesis
    by (auto simp: jam_def)
qed

lemma jam_words:
  fixes z :: "u32 list"
  defines "hi \<equiv> words64 (z ! 3) (z ! 2)" and "lo \<equiv> words64 (z ! 1) (z ! 0)"
  assumes "unat hi = P div 2 ^ 64" "unat lo = P mod 2 ^ 64"
  shows "unat (if z ! 1 \<noteq> 0 \<or> z ! 0 \<noteq> 0 then hi OR 1 else hi) = jam P 64"
proof -
  have "unat lo = 0 \<longleftrightarrow> z ! 1 = 0 \<and> z ! 0 = 0"
    unfolding lo_def unat_words64 by (auto simp: unat_eq_0)
  then show ?thesis
    using assms(3,4) unat_or_of_bool [of hi True] by (auto simp: jam_def)
qed

text \<open>
  The common end of the product and the sum: the significand has its leading bit at position
  62 or 61, and stands for the exact \<open>P\<close> by its sticky bit.
\<close>

lemma bit_length_jam:
  assumes "2 ^ Suc k \<le> jam P d" "jam P d < 2 ^ Suc (Suc k)"
  shows "bit_length P = Suc (Suc k) + d"
proof -
  have "2 ^ Suc k \<le> P div 2 ^ d" "P div 2 ^ d < 2 ^ Suc (Suc k)"
    using assms jam_less_iff [of "Suc k" P d] jam_less_iff [of "Suc (Suc k)" P d] by auto
  then have "2 ^ (Suc k + d) \<le> P" "P < 2 ^ Suc (Suc k + d)"
    by (simp_all add: less_eq_div_iff_mult_less_eq div_less_iff_less_mult power_add)
  then show ?thesis
    using bit_length_eqI [of "Suc k + d" P] by simp
qed

lemma sticky_rounded:
  fixes sigZ :: u64 and expZ :: int and rm :: u32 and sign :: bool
  assumes sig: "unat sigZ = jam P d" "2 ^ 61 \<le> unat sigZ" "unat sigZ < 2 ^ 63"
    and expZ: "- 32000 \<le> expZ" "expZ \<le> 32000"
    and X: "X * 2 ^ p = P * 2 ^ q" "int q - int p + int d = expZ + int u - 10"
  defines "r \<equiv> (if sigZ < 0x4000000000000000 then roundPackToF64 rm sign (expZ - 1) (push_bit 1 sigZ)
    else roundPackToF64 rm sign expZ sigZ)"
  shows "f64_mag (fst r) = f64_rounded rm sign u X \<and> signF64UI (fst r) = sign"
proof -
  have P0: "P \<noteq> 0"
    using sig by (cases "P = 0") (simp_all add: jam_def)
  have lt: "sigZ < 0x4000000000000000 \<longleftrightarrow> unat sigZ < 2 ^ 62"
    by (simp add: word_less_nat_alt)
  show ?thesis
  proof (cases "unat sigZ < 2 ^ 62")
    case True
    define sig2 where "sig2 = push_bit 1 sigZ"
    have u: "unat sig2 = unat sigZ * 2 ^ 1"
      unfolding sig2_def using True by (intro unat_push) simp
    have r: "r = roundPackToF64 rm sign (expZ - 1) sig2"
      using True lt by (simp add: r_def sig2_def)
    have pack: "signF64UI (fst r) = sign" "f64_mag (fst r) =
        f64_overflow rm sign (round_nat rm sign (10 + nat (1 - expZ)) (unat sigZ * 2 ^ 1) * 2 ^ nat (expZ - 1))"
      using roundPackToF64_value [of sig2 "expZ - 1" rm sign] expZ sig True by (simp_all add: r u)
    have "round_nat rm sign (10 + nat (1 - expZ)) (unat sigZ * 2 ^ 1) =
        round_nat rm sign (9 + nat (1 - expZ)) (jam P d)"
      using round_nat_scale [of rm sign "9 + nat (1 - expZ)" 1 "unat sigZ"] by (simp add: sig)
    also have "\<dots> = round_nat rm sign (62 + d - 53 + nat (1 - expZ)) P"
      using round_nat_jam [of "9 + nat (1 - expZ)" rm sign P d] by (simp add: ac_simps)
    finally show ?thesis
      using pack f64_rounded_core [OF X(1) P0, of "62 + d" "expZ - 1" u rm sign] X(2)
        bit_length_jam [of 60 P d] sig True by simp
  next
    case False
    then have pack: "signF64UI (fst r) = sign" "f64_mag (fst r) =
        f64_overflow rm sign (round_nat rm sign (10 + nat (- expZ)) (unat sigZ) * 2 ^ nat expZ)"
      using roundPackToF64_value [of sigZ expZ rm sign] lt sig expZ by (simp_all add: r_def)
    have "round_nat rm sign (10 + nat (- expZ)) (unat sigZ) = round_nat rm sign (63 + d - 53 + nat (- expZ)) P"
      using round_nat_jam [of "10 + nat (- expZ)" rm sign P d] by (simp add: sig ac_simps)
    then show ?thesis
      using pack f64_rounded_core [OF X(1) P0, of "63 + d" expZ u rm sign] X(2)
        bit_length_jam [of 61 P d] sig False by simp
  qed
qed

lemma f64_rounded_0 [simp]: "f64_rounded rm sign u 0 = 0"
  by (simp add: f64_rounded_def f64_overflow_def f64_inf_mag_def Let_def)

lemma pack_zero [simp]:
  "f64_mag (packToF64UI sign 0 0) = 0" "signF64UI (packToF64UI sign 0 0) = sign"
  using packed_value [of 0 0 sign] by (simp_all add: f64_mag_of mag_of_def)

lemma f64_mag_0: "expF64UI a = 0 \<Longrightarrow> fracF64UI a = 0 \<Longrightarrow> f64_mag a = 0"
  by (simp add: f64_mag_def)

lemma f64_mul_nonzero:
  assumes "f64_finite a" "\<not> (expF64UI a = 0 \<and> fracF64UI a = 0)"
    and "f64_finite b" "\<not> (expF64UI b = 0 \<and> fracF64UI b = 0)"
  defines "sign \<equiv> (signF64UI a \<noteq> signF64UI b)"
  shows "f64_mag (fst (f64_mul rm a b)) = f64_rounded rm sign 1074 (f64_mag a * f64_mag b) \<and>
    signF64UI (fst (f64_mul rm a b)) = sign"
proof -
  obtain eA sA nA where A: "normF64 (expF64UI a) (fracF64UI a) = (eA, sA)"
    "unat (sA OR 0x10000000000000) = nA" "2 ^ 52 \<le> nA" "nA < 2 ^ 53" "- 51 \<le> eA" "eA \<le> 2046"
    "f64_mag a * 2 ^ nat (1 - eA) = nA * 2 ^ nat (eA - 1)"
    by (rule normF64_value [OF assms(1,2)])
  obtain eB sB nB where B: "normF64 (expF64UI b) (fracF64UI b) = (eB, sB)"
    "unat (sB OR 0x10000000000000) = nB" "2 ^ 52 \<le> nB" "nB < 2 ^ 53" "- 51 \<le> eB" "eB \<le> 2046"
    "f64_mag b * 2 ^ nat (1 - eB) = nB * 2 ^ nat (eB - 1)"
    by (rule normF64_value [OF assms(3,4)])
  define sigA sigB where "sigA = push_bit 10 (sA OR 0x10000000000000)"
    and "sigB = push_bit 11 (sB OR 0x10000000000000)"
  have u: "unat sigA = nA * 2 ^ 10" "unat sigB = nB * 2 ^ 11"
    unfolding sigA_def sigB_def A(2) [symmetric] B(2) [symmetric]
    using A(2,4) B(2,4) by (intro unat_push; simp)+
  define z where "z = mul64To128M sigA sigB"
  define sigZ where "sigZ = (if z ! 1 \<noteq> 0 \<or> z ! 0 \<noteq> 0 then words64 (z ! 3) (z ! 2) OR 1
    else words64 (z ! 3) (z ! 2))"
  define expZ where "expZ = eA + eB - 0x3FF"
  have "unat sigA * unat sigB = nA * nB * 2 ^ 21"
    by (simp add: u)
  then have sig: "unat sigZ = jam (nA * nB * 2 ^ 21) 64"
    using jam_words [of z "nA * nB * 2 ^ 21"] mul64To128M_words [of sigA sigB]
    by (simp only: sigZ_def z_def)
  have r: "f64_mul rm a b = (if sigZ < 0x4000000000000000
      then roundPackToF64 rm sign (expZ - 1) (push_bit 1 sigZ) else roundPackToF64 rm sign expZ sigZ)"
    using assms A(1) B(1)
    by (auto simp: f64_mul_def Let_def f64_finite_def sign_def sigZ_def z_def sigA_def sigB_def expZ_def)
  have "2 ^ 52 * 2 ^ 52 \<le> nA * nB" "nA * nB < 2 ^ 53 * 2 ^ 53"
    using A(3,4) B(3,4) by (intro mult_mono mult_strict_mono; simp)+
  then have "2 ^ 61 \<le> nA * nB * 2 ^ 21 div 2 ^ 64" "nA * nB * 2 ^ 21 div 2 ^ 64 < 2 ^ 63"
    by (simp_all add: less_eq_div_iff_mult_less_eq div_less_iff_less_mult)
  then have bounds: "2 ^ 61 \<le> unat sigZ" "unat sigZ < 2 ^ 63"
    unfolding sig using jam_less_iff [of 63 "nA * nB * 2 ^ 21" 64] by (simp add: jam_def, simp)
  have X: "f64_mag a * f64_mag b * 2 ^ (nat (1 - eA) + nat (1 - eB) + 21) =
      nA * nB * 2 ^ 21 * 2 ^ (nat (eA - 1) + nat (eB - 1))"
    using arg_cong2 [OF A(7) B(7), of "(*)"] by (simp add: power_add ac_simps)
  show ?thesis
    unfolding r by (rule sticky_rounded [OF sig bounds _ _ X])
      (use A(5,6) B(5,6) in \<open>simp_all add: expZ_def\<close>)
qed

definition f64_times :: "u32 \<Rightarrow> u64 \<Rightarrow> u64 \<Rightarrow> bool \<times> nat" where
  "f64_times rm a b =
     (let sign = (signF64UI a \<noteq> signF64UI b)
      in (sign, f64_rounded rm sign 1074 (f64_mag a * f64_mag b)))"

text \<open>
  C6. The product that \<^verbatim>\<open>f64_mul\<close> returns for finite operands is the exact product rounded
  once, in each rounding mode: its sign is the product of the signs and its magnitude
  is \<open>f64_rounded\<close> of the product of the magnitudes (which counts in units of \<open>2 ^ -2148\<close>),
  so at most 53 significant bits, gradual underflow, and on overflow infinity or the largest
  finite double as the mode prescribes.
\<close>

theorem f64_mul_correctly_rounded:
  assumes "f64_finite a" "f64_finite b"
  shows "(signF64UI (fst (f64_mul rm a b)), f64_mag (fst (f64_mul rm a b))) = f64_times rm a b"
proof -
  consider "expF64UI a = 0 \<and> fracF64UI a = 0" | "expF64UI b = 0 \<and> fracF64UI b = 0"
    | "\<not> (expF64UI a = 0 \<and> fracF64UI a = 0)" "\<not> (expF64UI b = 0 \<and> fracF64UI b = 0)"
    by blast
  then show ?thesis
  proof cases
    case 3
    then show ?thesis
      using f64_mul_nonzero [OF assms(1) 3(1) assms(2) 3(2)] by (simp add: f64_times_def Let_def)
  qed (use assms in \<open>auto simp: f64_mul_def f64_finite_def f64_times_def Let_def f64_mag_0\<close>)
qed

text \<open>The least subnormal number times 1.5, to even: twice the least subnormal number.\<close>

lemma f64_mul_correctly_rounded_witness:
  "f64_times round_near_even 1 0x3FF8000000000000 = (False, 2)"
proof -
  have "f64_finite 1" "f64_finite 0x3FF8000000000000"
    by (simp_all add: f64_finite_def expF64UI_unat)
  moreover have "fst (f64_mul round_near_even 1 0x3FF8000000000000) = 2"
    by code_simp
  moreover have "\<not> signF64UI 2" "f64_mag 2 = 2"
    by (simp_all add: f64_mag_of mag_of_def signF64UI_unat)
  ultimately show ?thesis
    using f64_mul_correctly_rounded [of 1 "0x3FF8000000000000" round_near_even] by simp
qed

end
