(* ===== verification/SoftFloatAdd.thy ===== *)
theory SoftFloatAdd
  imports SoftFloatArith
begin

text \<open>
  The double-precision sum is the exact sum, correctly rounded in each of the five modes, for
  all finite operands.  An operand is aligned with a sticky bit, and a difference that
  cancels is exact.
\<close>

subsection \<open>Aligned operands\<close>

text \<open>A significand without and an exponent with the convention of subnormal numbers.\<close>

definition sig_of :: "u64 \<Rightarrow> nat" where
  "sig_of a = (if expF64UI a = 0 then 0 else 2 ^ 52) + unat (fracF64UI a)"

lemma fracF64UI_lt: "unat (fracF64UI a) < 2 ^ 52"
  by (simp add: fracF64UI_unat)

lemma expF64UI_bounds: "0 \<le> expF64UI a" "f64_finite a \<Longrightarrow> expF64UI a \<le> 2046"
proof -
  have "unat a div 2 ^ 52 mod 2 ^ 11 < 2 ^ 11"
    by simp
  then show "0 \<le> expF64UI a" "f64_finite a \<Longrightarrow> expF64UI a \<le> 2046"
    by (simp_all add: f64_finite_def expF64UI_unat)
qed

lemma sig_of_lt: "sig_of a < 2 ^ 53"
  using fracF64UI_lt [of a] by (simp add: sig_of_def)

lemma f64_mag_sig: "f64_mag a = sig_of a * 2 ^ nat (expF64UI a - 1)"
  using expF64UI_bounds(1) [of a] by (simp add: f64_mag_def sig_of_def nat_diff_distrib Let_def)

text \<open>
  The aligned significand of \<open>a\<close> in a sum whose greater exponent is \<open>e\<close>: for a subnormal
  \<open>a\<close> it is doubled, because the exponent field 0 means the exponent 1.
\<close>

definition aligned :: "nat \<Rightarrow> u64 \<Rightarrow> nat" where
  "aligned k a = sig_of a * 2 ^ k * (if expF64UI a = 0 then 2 else 1)"

lemma aligned_mag:
  assumes "expF64UI a < e"
  shows "f64_mag a * 2 ^ (k + nat (e - expF64UI a)) = aligned k a * 2 ^ nat (e - 1)"
proof (cases "expF64UI a = 0")
  case True
  have "k + nat e = Suc (k + nat (e - 1))"
    using assms True by simp
  then show ?thesis
    by (simp add: True f64_mag_sig aligned_def power_add)
next
  case False
  then have "nat (expF64UI a - 1) + nat (e - expF64UI a) = nat (e - 1)"
    using assms expF64UI_bounds(1) [of a] by simp
  then have "(2::nat) ^ nat (expF64UI a - 1) * 2 ^ nat (e - expF64UI a) = 2 ^ nat (e - 1)"
    by (simp flip: power_add)
  then show ?thesis
    using False by (simp add: f64_mag_sig aligned_def power_add ac_simps)
qed

lemma aligned_lt: "aligned k a < 2 ^ (53 + k)"
proof -
  have "sig_of a * (if expF64UI a = 0 then 2 else 1) < 2 ^ 53"
    using sig_of_lt [of a] fracF64UI_lt [of a] by (simp add: sig_of_def)
  then have "sig_of a * (if expF64UI a = 0 then 2 else 1) * 2 ^ k < 2 ^ 53 * 2 ^ k"
    by simp
  then show ?thesis
    by (simp add: aligned_def power_add ac_simps)
qed

lemma jam_add:
  assumes "even y"
  shows "y + jam s d = jam (y * 2 ^ d + s) d"
  using assms by (simp add: jam_def add.commute [of _ s])

lemma div_mod_parts: "l < m \<Longrightarrow> (a * m + l) div m = a \<and> (a * m + l) mod m = l" for a l m :: nat
  by simp

lemma jam_diff:
  assumes "even y" "s \<le> y * 2 ^ d"
  shows "y - jam s d = jam (y * 2 ^ d - s) d"
proof -
  define h t where "h = s div 2 ^ d" and "t = s mod 2 ^ d"
  have s: "s = h * 2 ^ d + t" "t < 2 ^ d"
    unfolding h_def t_def by (rule div_mult_mod_eq [symmetric]) simp
  show ?thesis
  proof (cases "t = 0")
    case True
    then have "y * 2 ^ d - s = (y - h) * 2 ^ d"
      by (simp add: s diff_mult_distrib)
    then show ?thesis
      using True by (simp add: jam_def s)
  next
    case False
    have "h * 2 ^ d < y * 2 ^ d"
      using assms(2) s False by linarith
    then have h: "h < y"
      by simp
    have P: "y * 2 ^ d - s = (y - h - 1) * 2 ^ d + (2 ^ d - t)"
    proof -
      obtain k where "y = Suc (h + k)"
        using h less_imp_Suc_add by blast
      then show ?thesis
        using s by (simp add: algebra_simps)
    qed
    have lt: "2 ^ d - t < 2 ^ d" "2 ^ d - t \<noteq> 0"
      using s False by auto
    have "(y * 2 ^ d - s) div 2 ^ d = y - h - 1" "(y * 2 ^ d - s) mod 2 ^ d = 2 ^ d - t"
      unfolding P using div_mod_parts [OF lt(1), of "y - h - 1"] by simp_all
    then have "jam (y * 2 ^ d - s) d = y - h - 1 + of_bool (even (y - h - 1))"
      using lt by (simp add: jam_def)
    moreover have "jam s d = h + of_bool (even h)"
      using False by (simp add: jam_def h_def t_def)
    ultimately show ?thesis
      using h assms(1) by (cases "even h") auto
  qed
qed

subsection \<open>Exact results\<close>

lemma f64_rounded_exact:
  assumes "n < 2 ^ 53" "e \<le> 2045"
  shows "f64_rounded rm sign 0 (n * 2 ^ e) = n * 2 ^ e"
proof (cases "n = 0")
  case False
  define K where "K = bit_length (n * 2 ^ e) - 53"
  obtain j where j: "bit_length n = Suc j" "2 ^ j \<le> n"
    using bit_length_SucE [OF False] by blast
  have "(2::nat) ^ j < 2 ^ 53"
    using j(2) assms(1) by linarith
  then have "j < 53"
    by (simp only: power_strict_increasing_iff one_less_numeral_iff semiring_norm)
  then have "K \<le> e"
    using bit_length_shift [OF False, of e] j(1) by (simp add: K_def)
  then have p: "(2::nat) ^ e = 2 ^ (e - K) * 2 ^ K"
    by (simp flip: power_add)
  have "round_nat rm sign (0 + K) (n * 2 ^ (e - K) * 2 ^ K) = round_nat rm sign 0 (n * 2 ^ (e - K))"
    by (rule round_nat_scale)
  also have "\<dots> = n * 2 ^ (e - K)"
    by (simp add: round_nat_def rounds_up_def)
  finally have r: "round_nat rm sign K (n * 2 ^ e) * 2 ^ K = n * 2 ^ e"
    unfolding p by (simp add: mult.assoc)
  have "n * 2 ^ e < 2 ^ 53 * 2 ^ e"
    using assms(1) by simp
  also have "\<dots> \<le> 2 ^ 53 * 2 ^ 2045"
    using assms(2) by (intro mult_left_mono power_increasing) auto
  finally have "n * 2 ^ e < f64_inf_mag"
    by (simp only: inf_mag_split [of 53 2045])
  then show ?thesis
    using r by (simp add: f64_rounded_def K_def [symmetric] f64_overflow_def)
qed simp

lemma push_bit_of_nat:
  fixes w :: u64
  assumes "unat w * 2 ^ j < 2 ^ 64"
  shows "push_bit j w = of_nat (unat w * 2 ^ j)"
proof -
  have "unat (push_bit j w) = unat w * 2 ^ j"
    using assms by (intro unat_push) simp
  then show ?thesis
    by (metis of_nat_unat ucast_id)
qed

lemma pack_value:
  assumes "n < 2 ^ 53" "2 ^ 52 \<le> n \<or> e = 0" "e \<le> 2045"
  shows "signF64UI (packToF64UI sign (int e) (of_nat n)) = sign \<and>
    f64_mag (packToF64UI sign (int e) (of_nat n)) = f64_rounded rm sign 0 (n * 2 ^ e)"
proof -
  have "e * 2 ^ 52 + n < 2 ^ 63"
    using assms by simp
  then show ?thesis
    using packed_value [of e n sign] mag_of_pack [of n e] f64_rounded_exact [OF assms(1,3)] assms
    by (simp add: f64_mag_of)
qed

subsection \<open>Normalisation\<close>

text \<open>
  \<^verbatim>\<open>softfloat_normRoundPackToF64\<close>: either the shift is by at most one place or nothing was
  lost before it.
\<close>

lemma normRoundPackToF64_value:
  fixes sigZ :: u64 and e :: int and rm :: u32 and sign :: bool
  assumes sig: "unat sigZ = jam P d" "unat sigZ < 2 ^ 63" "0 < unat sigZ"
    and lost: "2 ^ 61 \<le> unat sigZ \<or> P = unat sigZ * 2 ^ d"
    and e: "0 \<le> e" "e \<le> 2045"
    and X: "X * 2 ^ (10 + d) = P * 2 ^ nat e"
  shows "f64_mag (fst (normRoundPackToF64 rm sign e sigZ)) = f64_rounded rm sign 0 X \<and>
    signF64UI (fst (normRoundPackToF64 rm sign e sigZ)) = sign"
proof -
  define c where "c = countLeadingZeros64 sigZ"
  have "leading_zeros 64 (unat sigZ) c"
    unfolding c_def using sig(3) by (intro clz64_ok) (auto simp: word_unat_eq_iff)
  then have c: "2 ^ 63 \<le> unat sigZ * 2 ^ c" "unat sigZ * 2 ^ c < 2 ^ 64"
    by (simp_all add: leading_zeros_def)
  have "c \<noteq> 0"
  proof
    assume "c = 0"
    then show False
      using c(1) sig(2) by simp
  qed
  then obtain s where s: "c = Suc s"
    using not0_implies_Suc by blast
  have n: "2 ^ 62 \<le> unat sigZ * 2 ^ s" "unat sigZ * 2 ^ s < 2 ^ 63"
    using c by (simp_all add: s)
  have "1 * 2 ^ s \<le> unat sigZ * 2 ^ s"
    using sig(3) by (intro mult_right_mono) auto
  then have "2 ^ s < (2::nat) ^ 63"
    using n(2) by linarith
  then have s63: "s < 63"
    by (simp only: power_strict_increasing_iff one_less_numeral_iff semiring_norm)
  have lost': "s \<le> 1 \<or> P = unat sigZ * 2 ^ d"
  proof (cases "2 ^ 61 \<le> unat sigZ")
    case True
    have "s \<le> 1"
    proof (rule ccontr)
      assume "\<not> s \<le> 1"
      then have "2 ^ 61 * 2 ^ 2 \<le> unat sigZ * 2 ^ s"
        using True by (intro mult_mono power_increasing) auto
      then show False
        using n(2) by simp
    qed
    then show ?thesis ..
  qed (use lost in simp)
  have r: "normRoundPackToF64 rm sign e sigZ =
      (if 10 \<le> s \<and> (e - int s) mod 2 ^ 32 < 0x7FD
       then (packToF64UI sign (e - int s) (push_bit (s - 10) sigZ), 0)
       else roundPackToF64 rm sign (e - int s) (push_bit s sigZ))"
  proof -
    have "nat (int s - 10) = s - 10" "sigZ \<noteq> 0"
      using sig(3) by auto
    then show ?thesis
      by (auto simp: normRoundPackToF64_def c_def [symmetric] s Let_def)
  qed
  show ?thesis
  proof (cases "10 \<le> s \<and> (e - int s) mod 2 ^ 32 < 0x7FD")
    case True
    have "0 \<le> e - int s"
    proof (rule ccontr)
      assume "\<not> 0 \<le> e - int s"
      then have "(e - int s) mod 2 ^ 32 = e - int s + 2 ^ 32"
        using e s63 mod_pos_pos_trivial [of "e - int s + 2 ^ 32" "2 ^ 32"] by simp
      then show False
        using True e s63 by simp
    qed
    then obtain k where k: "e - int s = int k"
      using nonneg_int_cases by blast
    obtain j where j: "s = 10 + j"
      using True le_Suc_ex by blast
    have n': "2 ^ 52 \<le> unat sigZ * 2 ^ j" "unat sigZ * 2 ^ j < 2 ^ 53"
      using n by (simp_all add: j power_add)
    have u: "push_bit j sigZ = of_nat (unat sigZ * 2 ^ j)"
      using n' by (intro push_bit_of_nat) simp
    have "P = unat sigZ * 2 ^ d" "nat e = k + 10 + j"
      using lost' j k e by auto
    then have "X * 2 ^ (10 + d) = unat sigZ * 2 ^ j * 2 ^ k * 2 ^ (10 + d)"
      using X by (simp add: power_add ac_simps)
    then have "X = unat sigZ * 2 ^ j * 2 ^ k"
      by simp
    then show ?thesis
      using pack_value [of "unat sigZ * 2 ^ j" k sign rm] n' True r k u e j by simp
  next
    case False
    define m where "m = nat (int s - e)"
    have u: "unat (push_bit s sigZ) = unat sigZ * 2 ^ s"
      using n by (intro unat_push) simp
    have P0: "P \<noteq> 0"
      using sig by (cases "P = 0") (simp_all add: jam_def)
    have len: "bit_length (P * 2 ^ s) = 63 + d"
    proof (cases "P = unat sigZ * 2 ^ d")
      case True
      then have P2: "P * 2 ^ s = unat sigZ * 2 ^ s * 2 ^ d"
        by (simp add: ac_simps)
      show ?thesis
        unfolding P2
        using bit_length_shift [of "unat sigZ * 2 ^ s" d] bit_length_eqI [of 62 "unat sigZ * 2 ^ s"] n sig(3)
        by simp
    next
      case False
      then consider "s = 0" | "s = 1"
        using lost' by linarith
      then show ?thesis
      proof cases
        case 1
        then show ?thesis
          using bit_length_jam [of 61 P d] n sig by simp
      next
        case 2
        then show ?thesis
          using bit_length_jam [of 60 P d] bit_length_shift [OF P0, of 1] n sig by simp
      qed
    qed
    have "round_nat rm sign (10 + m) (unat sigZ * 2 ^ s) = round_nat rm sign (10 + d + m) (P * 2 ^ s)"
    proof (cases "P = unat sigZ * 2 ^ d")
      case True
      then have P2: "P * 2 ^ s = unat sigZ * 2 ^ s * 2 ^ d"
        by (simp add: ac_simps)
      show ?thesis
        unfolding P2 using round_nat_scale [of rm sign "10 + m" d "unat sigZ * 2 ^ s"] by (simp add: ac_simps)
    next
      case False
      then have "s \<le> 1"
        using lost' by simp
      then obtain i where i: "10 + m = i + s" "2 \<le> i"
        using that [of "10 + m - s"] by simp
      show ?thesis
        using round_nat_scale [of rm sign i s "unat sigZ"] round_nat_jam [OF i(2), of rm sign P d]
          round_nat_scale [of rm sign "d + i" s P] i(1) by (simp add: sig(1) ac_simps)
    qed
    moreover have "X * 2 ^ (10 + d + s) = P * 2 ^ s * 2 ^ nat e"
      using X by (simp add: power_add ac_simps)
    ultimately show ?thesis
      using roundPackToF64_value [of "push_bit s sigZ" "e - int s" rm sign] r [unfolded if_not_P [OF False]] e s63 n P0
        f64_rounded_core [of X "10 + d + s" "P * 2 ^ s" "nat e" "63 + d" "e - int s" 0 rm sign] len
      by (simp add: u m_def)
  qed
qed

subsection \<open>Operands of different exponents\<close>

lemma jam_le: "0 < d \<Longrightarrow> jam s d \<le> s div 2 + 1"
proof -
  assume "0 < d"
  then have "s div 2 ^ d \<le> s div 2 ^ 1"
    by (intro div_le_mono2 power_increasing) auto
  then show ?thesis
    by (simp add: jam_def)
qed

lemma unat_shifted:
  "unat (push_bit 9 (fracF64UI a)) = unat (fracF64UI a) * 2 ^ 9"
  "unat (push_bit 10 (fracF64UI a)) = unat (fracF64UI a) * 2 ^ 10"
  using fracF64UI_lt [of a] by (intro unat_push; simp)+

lemma jam_shifted:
  assumes "unat s < 2 ^ 63" "expF64UI a < expF64UI b"
  shows "unat (shiftRightJam64 s (word_of_int (expF64UI b - expF64UI a))) =
    jam (unat s) (nat (expF64UI b - expF64UI a))"
proof -
  have "expF64UI b < 2048"
    by (simp add: expF64UI_unat)
  then have d: "nat (expF64UI b - expF64UI a) < 2 ^ 64"
    using expF64UI_bounds(1) [of a] by simp
  have "(word_of_int (expF64UI b - expF64UI a) :: u64) = of_nat (nat (expF64UI b - expF64UI a))"
    using assms(2) by (simp add: of_nat_nat)
  then show ?thesis
    using shiftRightJam64_jam [OF assms(1) _ d] assms(2) by simp
qed

lemma add_ordered:
  fixes rm :: u32 and sign :: bool
  assumes fin: "f64_finite b" and less: "expF64UI a < expF64UI b"
  defines "s \<equiv> (if expF64UI a \<noteq> 0 then push_bit 9 (fracF64UI a) + 0x2000000000000000
    else push_bit 1 (push_bit 9 (fracF64UI a)))"
  defines "sigZ \<equiv> 0x2000000000000000 + push_bit 9 (fracF64UI b) +
    shiftRightJam64 s (word_of_int (expF64UI b - expF64UI a))"
  defines "r \<equiv> (if sigZ < 0x4000000000000000
    then roundPackToF64 rm sign (expF64UI b - 1) (push_bit 1 sigZ)
    else roundPackToF64 rm sign (expF64UI b) sigZ)"
  shows "f64_mag (fst r) = f64_rounded rm sign 0 (f64_mag a + f64_mag b) \<and> signF64UI (fst r) = sign"
proof -
  define d where "d = nat (expF64UI b - expF64UI a)"
  define y where "y = sig_of b * 2 ^ 9"
  have eb: "1 \<le> expF64UI b" "expF64UI b \<le> 2046"
    using less expF64UI_bounds [of a] expF64UI_bounds [of b] fin by auto
  have d: "0 < d"
    using less by (simp add: d_def)
  have s: "unat s = aligned 9 a"
  proof (cases "expF64UI a = 0")
    case True
    have "unat (push_bit 1 (push_bit 9 (fracF64UI a))) = unat (push_bit 9 (fracF64UI a)) * 2 ^ 1"
      using fracF64UI_lt [of a] unat_shifted [of a] by (intro unat_push) simp
    then show ?thesis
      using True by (simp add: s_def unat_shifted aligned_def sig_of_def)
  next
    case False
    have "unat (push_bit 9 (fracF64UI a) + 0x2000000000000000) = unat (fracF64UI a) * 2 ^ 9 + 2 ^ 61"
      using fracF64UI_lt [of a] by (subst unat_plus64) (simp_all add: unat_shifted)
    then show ?thesis
      using False by (simp add: s_def aligned_def sig_of_def algebra_simps)
  qed
  have s63: "unat s < 2 ^ 62"
    using aligned_lt [of 9 a] by (simp add: s)
  have j: "unat (shiftRightJam64 s (word_of_int (expF64UI b - expF64UI a))) = jam (unat s) d"
    using jam_shifted [of s a b] s63 less by (simp add: d_def)
  have jle: "jam (unat s) d \<le> 2 ^ 61"
    using jam_le [OF d, of "unat s"] s63 by simp
  have y: "unat (0x2000000000000000 + push_bit 9 (fracF64UI b)) = y" "2 ^ 61 \<le> y" "y < 2 ^ 62"
  proof -
    have "unat (0x2000000000000000 + push_bit 9 (fracF64UI b)) = 2 ^ 61 + unat (fracF64UI b) * 2 ^ 9"
      using fracF64UI_lt [of b] by (subst unat_plus64) (simp_all add: unat_shifted)
    then show "unat (0x2000000000000000 + push_bit 9 (fracF64UI b)) = y" "2 ^ 61 \<le> y" "y < 2 ^ 62"
      using fracF64UI_lt [of b] eb by (simp_all add: y_def sig_of_def)
  qed
  have sig: "unat sigZ = y + jam (unat s) d"
    using unat_plus64 [of "0x2000000000000000 + push_bit 9 (fracF64UI b)"
        "shiftRightJam64 s (word_of_int (expF64UI b - expF64UI a))"] y jle
    unfolding sigZ_def y(1) j by simp
  then have P: "unat sigZ = jam (y * 2 ^ d + aligned 9 a) d"
    using jam_add [of y "unat s" d] by (simp add: s y_def)
  have "f64_mag b * 2 ^ (9 + d) = y * 2 ^ d * 2 ^ nat (expF64UI b - 1)"
    by (simp add: f64_mag_sig y_def power_add ac_simps)
  then have X: "(f64_mag a + f64_mag b) * 2 ^ (9 + d) = (y * 2 ^ d + aligned 9 a) * 2 ^ nat (expF64UI b - 1)"
    using aligned_mag [OF less, of 9] by (simp add: d_def add_mult_distrib)
  show ?thesis
    unfolding r_def using sig jle y(2,3) eb
    by (intro sticky_rounded [OF P _ _ _ _ X]) simp_all
qed

text \<open>What a difference loses: nothing, unless the operands are so far apart that no bit cancels.\<close>

lemma diff_lost:
  assumes y: "2 ^ 62 \<le> y" and t: "t < 2 ^ 53" and d: "0 < d"
  shows "0 < y - jam (t * 2 ^ 10) d"
    and "2 ^ 61 \<le> y - jam (t * 2 ^ 10) d \<or> y * 2 ^ d - t * 2 ^ 10 = (y - jam (t * 2 ^ 10) d) * 2 ^ d"
proof -
  have "t * 2 ^ 10 div 2 = t * 2 ^ 9"
    by simp
  then have "jam (t * 2 ^ 10) d \<le> t * 2 ^ 9 + 1"
    using jam_le [OF d, of "t * 2 ^ 10"] by simp
  then show "0 < y - jam (t * 2 ^ 10) d"
    using y t by simp
  show "2 ^ 61 \<le> y - jam (t * 2 ^ 10) d \<or> y * 2 ^ d - t * 2 ^ 10 = (y - jam (t * 2 ^ 10) d) * 2 ^ d"
  proof (cases "d \<le> 10")
    case True
    then have p: "t * 2 ^ 10 = t * 2 ^ (10 - d) * 2 ^ d"
      by (simp add: mult.assoc flip: power_add)
    then have "jam (t * 2 ^ 10) d = t * 2 ^ (10 - d)"
      unfolding p by (simp add: jam_def)
    then show ?thesis
      unfolding p by (simp add: diff_mult_distrib)
  next
    case False
    then have "t * 2 ^ 10 div 2 ^ d \<le> t * 2 ^ 10 div 2 ^ 10"
      by (intro div_le_mono2 power_increasing) auto
    then have "jam (t * 2 ^ 10) d \<le> t + 1"
      by (simp add: jam_def)
    then have "2 ^ 61 + jam (t * 2 ^ 10) d \<le> y"
      using y t by simp
    then show ?thesis
      by linarith
  qed
qed

lemma sub_ordered:
  fixes rm :: u32 and sign :: bool
  assumes fin: "f64_finite b" and less: "expF64UI a < expF64UI b"
  defines "s \<equiv> push_bit 10 (fracF64UI a) +
    (if expF64UI a \<noteq> 0 then 0x4000000000000000 else push_bit 10 (fracF64UI a))"
  defines "r \<equiv> normRoundPackToF64 rm sign (expF64UI b - 1)
    ((push_bit 10 (fracF64UI b) OR 0x4000000000000000) -
       shiftRightJam64 s (word_of_int (expF64UI b - expF64UI a)))"
  shows "f64_mag (fst r) = f64_rounded rm sign 0 (f64_mag b - f64_mag a) \<and> signF64UI (fst r) = sign"
proof -
  define d where "d = nat (expF64UI b - expF64UI a)"
  define y where "y = sig_of b * 2 ^ 10"
  define t where "t = sig_of a * (if expF64UI a = 0 then 2 else 1)"
  have t: "t < 2 ^ 53" "aligned 10 a = t * 2 ^ 10"
    using sig_of_lt [of a] fracF64UI_lt [of a] by (simp_all add: t_def aligned_def sig_of_def)
  have eb: "1 \<le> expF64UI b" "expF64UI b \<le> 2046"
    using less expF64UI_bounds [of a] expF64UI_bounds [of b] fin by auto
  have d: "0 < d"
    using less by (simp add: d_def)
  have s: "unat s = t * 2 ^ 10"
  proof (cases "expF64UI a = 0")
    case True
    have "unat (push_bit 10 (fracF64UI a) + push_bit 10 (fracF64UI a)) = unat (fracF64UI a) * 2 ^ 10 * 2"
      using fracF64UI_lt [of a] by (subst unat_plus64) (simp_all add: unat_shifted)
    then show ?thesis
      using True by (simp add: s_def t_def sig_of_def)
  next
    case False
    have "unat (push_bit 10 (fracF64UI a) + 0x4000000000000000) = unat (fracF64UI a) * 2 ^ 10 + 2 ^ 62"
      using fracF64UI_lt [of a] by (subst unat_plus64) (simp_all add: unat_shifted)
    then show ?thesis
      using False by (simp add: s_def t_def sig_of_def algebra_simps)
  qed
  then have s63: "unat s < 2 ^ 63"
    using t by simp
  have hidden: "unat (push_bit 10 (fracF64UI b) OR 0x4000000000000000) = y"
  proof -
    have "push_bit 10 (fracF64UI b OR 0x10000000000000) = push_bit 10 (fracF64UI b) OR 0x4000000000000000"
      by (simp add: push_bit_or)
    moreover have "unat (push_bit 10 (fracF64UI b OR 0x10000000000000)) = unat (fracF64UI b OR 0x10000000000000) * 2 ^ 10"
      using or_hidden [of "fracF64UI b"] fracF64UI_lt [of b] by (intro unat_push) simp
    ultimately show ?thesis
      using or_hidden [of "fracF64UI b"] fracF64UI_lt [of b] eb by (simp add: y_def sig_of_def)
  qed
  have y: "2 ^ 62 \<le> y" "y < 2 ^ 63" "even y"
    using eb sig_of_lt [of b] by (simp_all add: y_def sig_of_def)
  define sigZ where "sigZ = (push_bit 10 (fracF64UI b) OR 0x4000000000000000) -
    shiftRightJam64 s (word_of_int (expF64UI b - expF64UI a))"
  have pos: "0 < y - jam (t * 2 ^ 10) d"
    by (rule diff_lost(1) [OF y(1) t(1) d])
  have j: "unat (shiftRightJam64 s (word_of_int (expF64UI b - expF64UI a))) = jam (t * 2 ^ 10) d"
    using jam_shifted [OF s63 less] by (simp only: s d_def)
  have sig: "unat sigZ = y - jam (t * 2 ^ 10) d"
    using unat_diff64 [of "shiftRightJam64 s (word_of_int (expF64UI b - expF64UI a))"
        "push_bit 10 (fracF64UI b) OR 0x4000000000000000"] pos
    unfolding sigZ_def hidden j by linarith
  have le: "t * 2 ^ 10 \<le> y * 2 ^ d"
  proof -
    have "2 ^ 62 * 2 ^ 1 \<le> y * 2 ^ d"
      using y d by (intro mult_mono power_increasing) auto
    then show ?thesis
      using t(1) by simp
  qed
  have P: "unat sigZ = jam (y * 2 ^ d - t * 2 ^ 10) d"
    unfolding sig by (rule jam_diff [OF y(3) le])
  have "f64_mag b * 2 ^ (10 + d) = y * 2 ^ d * 2 ^ nat (expF64UI b - 1)"
    by (simp add: f64_mag_sig y_def power_add ac_simps)
  then have X: "(f64_mag b - f64_mag a) * 2 ^ (10 + d) = (y * 2 ^ d - t * 2 ^ 10) * 2 ^ nat (expF64UI b - 1)"
    using aligned_mag [OF less, of 10] by (simp add: d_def t(2) diff_mult_distrib)
  have lost: "2 ^ 61 \<le> unat sigZ \<or> y * 2 ^ d - t * 2 ^ 10 = unat sigZ * 2 ^ d"
    unfolding sig by (rule diff_lost(2) [OF y(1) t(1) d])
  have "unat sigZ < 2 ^ 63" "0 < unat sigZ"
    using sig pos y by simp_all
  then show ?thesis
    unfolding r_def sigZ_def [symmetric] using eb
    by (intro normRoundPackToF64_value [OF P _ _ lost _ _ X]) simp_all
qed

subsection \<open>Operands of equal exponents\<close>

lemma sless_0: "w <s 0 \<longleftrightarrow> 2 ^ 63 \<le> unat w" for w :: u64
proof
  assume "2 ^ 63 \<le> unat w"
  show "w <s 0"
  proof (rule ccontr)
    assume "\<not> w <s 0"
    then have "0 \<le> sint w"
      by (simp add: word_sless_alt)
    then have "unat w = nat (sint w)"
      by (rule sint_nonneg_unat)
    moreover have "sint w < 2 ^ 63"
      using sint_lt [of w] by simp
    ultimately show False
      using \<open>2 ^ 63 \<le> unat w\<close> by simp
  qed
next
  assume neg: "w <s 0"
  show "2 ^ 63 \<le> unat w"
  proof (rule ccontr)
    assume "\<not> 2 ^ 63 \<le> unat w"
    then have "uint w < 2 ^ 63"
      by (simp add: nat_less_iff flip: nat_uint_eq)
    moreover have "- (2 ^ 63) \<le> uint w"
      by (rule order_trans [OF _ unsigned_greater_eq]) simp
    ultimately have "sint w = uint w"
      by (simp add: sint_uint signed_take_bit_int_eq_self)
    then show False
      using neg by (simp add: word_sless_alt)
  qed
qed

lemma cancel_value:
  fixes D :: u64 and e :: int and rm :: u32 and sign :: bool
  assumes D: "unat D < 2 ^ 52" "unat D \<noteq> 0" and e: "0 \<le> e" "e \<le> 2045"
  defines "shiftDist \<equiv> int (countLeadingZeros64 D) - 11"
  defines "z \<equiv> (if e - shiftDist < 0 then (e, 0) else (shiftDist, e - shiftDist))"
  shows "f64_mag (packToF64UI sign (snd z) (push_bit (nat (fst z)) D)) = f64_rounded rm sign 0 (unat D * 2 ^ nat e) \<and>
    signF64UI (packToF64UI sign (snd z) (push_bit (nat (fst z)) D)) = sign"
proof -
  obtain k where k: "countLeadingZeros64 D = Suc k + 11" "2 ^ 52 \<le> unat D * 2 ^ Suc k"
    "unat D * 2 ^ Suc k < 2 ^ 53" "Suc k < 53"
    by (rule subnormal_shift [OF D])
  have sd: "shiftDist = int (Suc k)"
    using k(1) by (simp add: shiftDist_def)
  define j where "j = min (Suc k) (nat e)"
  have z: "z = (int j, int (nat e - j))"
    using e by (auto simp: z_def sd j_def)
  have le: "unat D * 2 ^ j \<le> unat D * 2 ^ Suc k"
    by (intro mult_left_mono power_increasing) (auto simp: j_def)
  have lt: "unat D * 2 ^ j < 2 ^ 53"
    using le k(3) by linarith
  have push: "push_bit j D = of_nat (unat D * 2 ^ j)"
    by (intro push_bit_of_nat less_trans [OF lt]) simp
  have "unat D * 2 ^ j < 2 ^ 53" "2 ^ 52 \<le> unat D * 2 ^ j \<or> nat e - j = 0"
    using lt k(2) by (simp, auto simp: j_def min_def)
  then have "signF64UI (packToF64UI sign (int (nat e - j)) (of_nat (unat D * 2 ^ j))) = sign \<and>
    f64_mag (packToF64UI sign (int (nat e - j)) (of_nat (unat D * 2 ^ j))) =
      f64_rounded rm sign 0 (unat D * 2 ^ j * 2 ^ (nat e - j))"
    using e by (intro pack_value) simp_all
  moreover have "unat D * 2 ^ j * 2 ^ (nat e - j) = unat D * 2 ^ nat e"
    by (simp add: j_def mult.assoc flip: power_add)
  ultimately show ?thesis
    unfolding z fst_conv snd_conv nat_int push by simp
qed

lemma unat_exp_frac: "unat a mod 2 ^ 63 = nat (expF64UI a) * 2 ^ 52 + unat (fracF64UI a)"
  using mod_mult2_eq [of "unat a" "2 ^ 52" "2 ^ 11"] by (simp add: expF64UI_unat fracF64UI_unat mult.commute)

lemma add_equal:
  fixes rm :: u32
  assumes fin: "f64_finite a" and eq: "expF64UI b = expF64UI a"
  defines "sign \<equiv> signF64UI a"
  defines "r \<equiv> (if expF64UI a = 0 then (a + fracF64UI b, 0)
    else roundPackToF64 rm sign (expF64UI a) (push_bit 9 (0x20000000000000 + fracF64UI a + fracF64UI b)))"
  shows "f64_mag (fst r) = f64_rounded rm sign 0 (f64_mag a + f64_mag b) \<and> signF64UI (fst r) = sign"
proof (cases "expF64UI a = 0")
  case True
  define n where "n = unat (fracF64UI a) + unat (fracF64UI b)"
  have n: "n < 2 ^ 53"
    using fracF64UI_lt [of a] fracF64UI_lt [of b] by (simp add: n_def)
  have ua: "unat a = of_bool sign * 2 ^ 63 + unat (fracF64UI a)"
    using unat_sign_split [of a] unat_exp_frac [of a] True by (simp add: sign_def)
  have "(of_bool sign :: nat) * 2 ^ 63 \<le> 2 ^ 63"
    by (cases sign) simp_all
  then have "unat a + unat (fracF64UI b) < 2 ^ 64"
    using ua n power_increasing [of 53 62 "2 :: nat"] by (simp add: n_def)
  then have u: "unat (a + fracF64UI b) = of_bool sign * 2 ^ 63 + n"
    using ua by (subst unat_plus64) (simp_all add: n_def)
  then have "unat (a + fracF64UI b) mod 2 ^ 63 = n" "signF64UI (a + fracF64UI b) = sign"
    using n by (simp_all add: signF64UI_unat)
  moreover have "mag_of n = n"
    using mag_of_pack [of n 0] n by simp
  moreover have "f64_mag a + f64_mag b = n"
    using True eq by (simp add: f64_mag_def n_def)
  ultimately show ?thesis
    using True f64_rounded_exact [of n 0 rm sign] n by (simp add: r_def f64_mag_of)
next
  case False
  define n where "n = 2 ^ 53 + unat (fracF64UI a) + unat (fracF64UI b)"
  define sig where "sig = push_bit 9 (0x20000000000000 + fracF64UI a + fracF64UI b)"
  have e: "1 \<le> expF64UI a" "expF64UI a \<le> 2046"
    using False expF64UI_bounds [of a] fin by auto
  have n: "2 ^ 53 \<le> n" "n < 2 ^ 54"
    using fracF64UI_lt [of a] fracF64UI_lt [of b] by (simp_all add: n_def)
  have "unat (0x20000000000000 + fracF64UI a) = 2 ^ 53 + unat (fracF64UI a)"
    using fracF64UI_lt [of a] by (subst unat_plus64) simp_all
  then have "unat (0x20000000000000 + fracF64UI a + fracF64UI b) = n"
    using fracF64UI_lt [of a] fracF64UI_lt [of b] by (subst unat_plus64) (simp_all add: n_def)
  then have u: "unat sig = n * 2 ^ 9"
    unfolding sig_def using n by (subst unat_push) simp_all
  have len: "bit_length (n * 2 ^ 9) = 63"
    using bit_length_shift [of n 9] bit_length_eqI [of 53 n] n by simp
  have "f64_mag a + f64_mag b = n * 2 ^ nat (expF64UI a - 1)"
    using False eq by (simp add: f64_mag_sig sig_of_def n_def add_mult_distrib)
  then have X: "(f64_mag a + f64_mag b) * 2 ^ 9 = n * 2 ^ 9 * 2 ^ nat (expF64UI a - 1)"
    by simp
  have r: "r = roundPackToF64 rm sign (expF64UI a) sig"
    using False by (simp add: r_def sig_def)
  show ?thesis
    using roundPackToF64_value [of sig "expF64UI a" rm sign] e n
      f64_rounded_core [OF X _ len, of "expF64UI a" 0 rm sign]
    by (simp add: r u)
qed

lemma sub_equal:
  assumes fin: "f64_finite a" and eq: "expF64UI b = expF64UI a" and ne: "fracF64UI a \<noteq> fracF64UI b"
  defines "sign0 \<equiv> signF64UI a" and "D0 \<equiv> fracF64UI a - fracF64UI b"
  defines "e \<equiv> (if expF64UI a \<noteq> 0 then expF64UI a - 1 else expF64UI a)"
  defines "sign \<equiv> (if D0 <s 0 then \<not> sign0 else sign0)" and "D \<equiv> (if D0 <s 0 then - D0 else D0)"
  shows "D0 <s 0 \<longleftrightarrow> f64_mag a < f64_mag b"
    and "0 \<le> e" "e \<le> 2045" "unat D < 2 ^ 52" "unat D \<noteq> 0"
    and "unat D * 2 ^ nat e = (if f64_mag a < f64_mag b then f64_mag b - f64_mag a else f64_mag a - f64_mag b)"
proof -
  define fa fb where "fa = unat (fracF64UI a)" and "fb = unat (fracF64UI b)"
  have f: "fa < 2 ^ 52" "fb < 2 ^ 52" "fa \<noteq> fb"
    using fracF64UI_lt [of a] fracF64UI_lt [of b] ne by (simp_all add: fa_def fb_def word_unat_eq_iff)
  show e: "0 \<le> e" "e \<le> 2045"
    using expF64UI_bounds [of a] fin by (auto simp: e_def)
  have neg: "- D0 = fracF64UI b - fracF64UI a"
    by (simp add: D0_def)
  have big: "unat D0 = 2 ^ 64 - (fb - fa)" if "fa < fb"
    using that unfolding D0_def by (simp add: unat_sub_if' fa_def fb_def)
  have small: "unat D0 = fa - fb" if "fb < fa"
    unfolding D0_def using that by (subst unat_diff64) (simp_all add: fa_def fb_def)
  have s: "D0 <s 0 \<longleftrightarrow> fa < fb"
    unfolding sless_0 using big small f by (cases "fa < fb") auto
  have D: "unat D = (if fa < fb then fb - fa else fa - fb)"
  proof (cases "fa < fb")
    case True
    then have "unat D = unat (fracF64UI b - fracF64UI a)"
      using s neg by (simp add: D_def)
    then show ?thesis
      using True unat_diff64 [of "fracF64UI a" "fracF64UI b"] by (simp add: fa_def fb_def)
  qed (use s small f in \<open>simp add: D_def\<close>)
  show "unat D < 2 ^ 52" "unat D \<noteq> 0"
    using D f by auto
  have m: "f64_mag a = (h + fa) * 2 ^ nat e \<and> f64_mag b = (h + fb) * 2 ^ nat e"
    if "h = (if expF64UI a = 0 then 0 else 2 ^ 52)" for h
    using that eq by (auto simp: f64_mag_sig sig_of_def e_def fa_def fb_def)
  then obtain h where h: "f64_mag a = (h + fa) * 2 ^ nat e" "f64_mag b = (h + fb) * 2 ^ nat e"
    by blast
  have lt: "f64_mag a < f64_mag b \<longleftrightarrow> fa < fb"
    by (simp add: h)
  then show "D0 <s 0 \<longleftrightarrow> f64_mag a < f64_mag b"
    using s by simp
  show "unat D * 2 ^ nat e = (if f64_mag a < f64_mag b then f64_mag b - f64_mag a else f64_mag a - f64_mag b)"
    unfolding lt D by (simp add: h diff_mult_distrib add_mult_distrib)
qed

lemma f64_mag_less:
  assumes "expF64UI a < expF64UI b"
  shows "f64_mag a < f64_mag b"
proof -
  have "sig_of a * 2 ^ nat (expF64UI a - 1) < 2 ^ 52 * 2 ^ nat (expF64UI b - 1)"
  proof (cases "expF64UI a = 0")
    case True
    have "sig_of a * 2 ^ 0 < 2 ^ 52 * 2 ^ nat (expF64UI b - 1)"
      using fracF64UI_lt [of a] True by (intro mult_less_le_imp_less) (simp_all add: sig_of_def)
    then show ?thesis
      using True by simp
  next
    case False
    then have e: "1 \<le> expF64UI a"
      using expF64UI_bounds(1) [of a] by simp
    have "sig_of a * 2 ^ nat (expF64UI a - 1) < 2 ^ 53 * 2 ^ nat (expF64UI a - 1)"
      using sig_of_lt [of a] by simp
    also have "\<dots> = 2 ^ 52 * 2 ^ Suc (nat (expF64UI a - 1))"
      by simp
    also have "\<dots> \<le> 2 ^ 52 * 2 ^ nat (expF64UI b - 1)"
      using assms e by (intro mult_left_mono power_increasing) auto
    finally show ?thesis .
  qed
  also have "\<dots> \<le> sig_of b * 2 ^ nat (expF64UI b - 1)"
    using assms expF64UI_bounds(1) [of a] by (intro mult_right_mono) (simp_all add: sig_of_def)
  finally show ?thesis
    by (simp add: f64_mag_sig)
qed

subsection \<open>The sum\<close>

lemma addMagsF64_value:
  fixes rm :: u32
  assumes fin: "f64_finite a" "f64_finite b"
  defines "r \<equiv> addMagsF64 rm a b (signF64UI a)"
  shows "f64_mag (fst r) = f64_rounded rm (signF64UI a) 0 (f64_mag a + f64_mag b) \<and> signF64UI (fst r) = signF64UI a"
proof -
  have fin': "expF64UI a \<noteq> 0x7FF" "expF64UI b \<noteq> 0x7FF"
    using fin by (simp_all add: f64_finite_def)
  consider "expF64UI b = expF64UI a" | "expF64UI a < expF64UI b" | "expF64UI b < expF64UI a"
    by linarith
  then show ?thesis
  proof cases
    case 1
    show ?thesis
      using add_equal [OF fin(1) 1, of rm] 1 fin'
      by (cases "expF64UI a = 0") (simp_all add: r_def addMagsF64_def Let_def)
  next
    case 2
    then have c: "(expF64UI a - expF64UI b = 0) = False" "(expF64UI a - expF64UI b < 0) = True"
      "(expF64UI b = 0x7FF) = False"
      using fin' by auto
    show ?thesis
      using add_ordered [OF fin(2) 2, of rm "signF64UI a"]
      unfolding r_def addMagsF64_def Let_def c by (simp only: if_True if_False minus_diff_eq ac_simps)
  next
    case 3
    then have c: "(expF64UI a - expF64UI b = 0) = False" "(expF64UI a - expF64UI b < 0) = False"
      "(expF64UI a = 0x7FF) = False"
      using fin' by auto
    show ?thesis
      using add_ordered [OF fin(1) 3, of rm "signF64UI a"]
      unfolding r_def addMagsF64_def Let_def c by (simp only: if_False ac_simps)
  qed
qed

lemma subMagsF64_value:
  fixes rm :: u32
  assumes fin: "f64_finite a" "f64_finite b"
  defines "r \<equiv> subMagsF64 rm a b (signF64UI a)"
  shows "f64_mag a = f64_mag b \<Longrightarrow> f64_mag (fst r) = 0 \<and> signF64UI (fst r) = (rm = round_min)"
    and "f64_mag b < f64_mag a \<Longrightarrow>
      f64_mag (fst r) = f64_rounded rm (signF64UI a) 0 (f64_mag a - f64_mag b) \<and> signF64UI (fst r) = signF64UI a"
    and "f64_mag a < f64_mag b \<Longrightarrow>
      f64_mag (fst r) = f64_rounded rm (\<not> signF64UI a) 0 (f64_mag b - f64_mag a) \<and> signF64UI (fst r) = (\<not> signF64UI a)"
proof -
  have fin': "expF64UI a \<noteq> 0x7FF" "expF64UI b \<noteq> 0x7FF"
    using fin by (simp_all add: f64_finite_def)
  consider "expF64UI b = expF64UI a" "fracF64UI a = fracF64UI b"
    | "expF64UI b = expF64UI a" "fracF64UI a \<noteq> fracF64UI b"
    | "expF64UI a < expF64UI b" | "expF64UI b < expF64UI a"
    by linarith
  then have "(f64_mag a = f64_mag b \<longrightarrow> f64_mag (fst r) = 0 \<and> signF64UI (fst r) = (rm = round_min)) \<and>
    (f64_mag b < f64_mag a \<longrightarrow>
      f64_mag (fst r) = f64_rounded rm (signF64UI a) 0 (f64_mag a - f64_mag b) \<and> signF64UI (fst r) = signF64UI a) \<and>
    (f64_mag a < f64_mag b \<longrightarrow>
      f64_mag (fst r) = f64_rounded rm (\<not> signF64UI a) 0 (f64_mag b - f64_mag a) \<and> signF64UI (fst r) = (\<not> signF64UI a))"
  proof cases
    case 1
    then have "f64_mag a = f64_mag b" "fst r = packToF64UI (rm = round_min) 0 0"
      using fin' by (simp_all add: f64_mag_sig sig_of_def r_def subMagsF64_def Let_def)
    then show ?thesis
      by simp
  next
    case 2
    define e where "e = (if expF64UI a \<noteq> 0 then expF64UI a - 1 else expF64UI a)"
    define D0 where "D0 = fracF64UI a - fracF64UI b"
    define D where "D = (if D0 <s 0 then - D0 else D0)"
    define sign where "sign = (if D0 <s 0 then \<not> signF64UI a else signF64UI a)"
    note E = sub_equal [OF fin(1) 2, folded e_def D0_def, folded D_def]
    define z where "z = (let shiftDist = int (countLeadingZeros64 D) - 11
      in if e - shiftDist < 0 then (e, 0) else (shiftDist, e - shiftDist))"
    have "D0 \<noteq> 0"
      using 2(2) by (simp add: D0_def)
    then have r: "fst r = packToF64UI sign (snd z) (push_bit (nat (fst z)) D)"
      using 2(1) fin'
      by (simp add: r_def subMagsF64_def Let_def D0_def [symmetric] e_def [symmetric] sign_def D_def z_def
          split: if_splits)
    have "unat D * 2 ^ nat e \<noteq> 0"
      using E(5) by simp
    then have "f64_mag a \<noteq> f64_mag b"
      using E(6) by auto
    then show ?thesis
      using cancel_value [OF E(4,5,2,3), of sign rm] E(1,6) unfolding r z_def Let_def
      by (cases "D0 <s 0") (auto simp: sign_def)
  next
    case 3
    then show ?thesis
      using sub_ordered [OF fin(2) 3, of rm "\<not> signF64UI a"] f64_mag_less [OF 3] fin'
      by (simp add: r_def subMagsF64_def Let_def)
  next
    case 4
    then show ?thesis
      using sub_ordered [OF fin(1) 4, of rm "signF64UI a"] f64_mag_less [OF 4] fin'
      by (simp add: r_def subMagsF64_def Let_def)
  qed
  then show "f64_mag a = f64_mag b \<Longrightarrow> f64_mag (fst r) = 0 \<and> signF64UI (fst r) = (rm = round_min)"
    "f64_mag b < f64_mag a \<Longrightarrow>
      f64_mag (fst r) = f64_rounded rm (signF64UI a) 0 (f64_mag a - f64_mag b) \<and> signF64UI (fst r) = signF64UI a"
    "f64_mag a < f64_mag b \<Longrightarrow>
      f64_mag (fst r) = f64_rounded rm (\<not> signF64UI a) 0 (f64_mag b - f64_mag a) \<and> signF64UI (fst r) = (\<not> signF64UI a)"
    by blast+
qed

text \<open>
  The sum as a signed number, rounded: an exact zero is positive, unless both operands are
  negative zeros or the mode rounds down.
\<close>

definition f64_plus :: "u32 \<Rightarrow> u64 \<Rightarrow> u64 \<Rightarrow> bool \<times> nat" where
  "f64_plus rm a b =
     (let x = f64_int a + f64_int b;
          sign = (if x \<noteq> 0 then x < 0
                  else if signF64UI a = signF64UI b then signF64UI a else rm = round_min)
      in (sign, f64_rounded rm sign 0 (nat \<bar>x\<bar>)))"

text \<open>
  C5. The sum that \<^verbatim>\<open>f64_add\<close> returns for finite operands is the exact sum rounded once, in
  each rounding mode: alignment with a sticky bit, cancellation, subnormal
  results and overflow included, with the sign of the exact sum, and for a sum that is
  exactly zero the sign that IEEE 754 prescribes.
\<close>

theorem f64_add_correctly_rounded:
  assumes "f64_finite a" "f64_finite b"
  shows "(signF64UI (fst (f64_add rm a b)), f64_mag (fst (f64_add rm a b))) = f64_plus rm a b"
proof (cases "signF64UI a = signF64UI b")
  case True
  have "nat \<bar>f64_int a + f64_int b\<bar> = f64_mag a + f64_mag b"
    "f64_int a + f64_int b = 0 \<longleftrightarrow> f64_mag a + f64_mag b = 0"
    "f64_int a + f64_int b \<noteq> 0 \<Longrightarrow> f64_int a + f64_int b < 0 \<longleftrightarrow> signF64UI a"
    using True by (auto simp: f64_int_def)
  then show ?thesis
    using addMagsF64_value [OF assms, of rm] True by (simp add: f64_add_def f64_plus_def Let_def)
next
  case False
  note S = subMagsF64_value [OF assms, of rm]
  have r: "f64_add rm a b = subMagsF64 rm a b (signF64UI a)"
    using False by (simp add: f64_add_def)
  have x: "f64_int a + f64_int b =
      (if signF64UI a then int (f64_mag b) - int (f64_mag a) else int (f64_mag a) - int (f64_mag b))"
    using False by (simp add: f64_int_def)
  consider "f64_mag a = f64_mag b" | "f64_mag b < f64_mag a" | "f64_mag a < f64_mag b"
    by linarith
  then show ?thesis
  proof cases
    case 1
    then show ?thesis
      using S(1) False by (simp add: r x f64_plus_def Let_def)
  next
    case 2
    then have "nat \<bar>f64_int a + f64_int b\<bar> = f64_mag a - f64_mag b"
      "f64_int a + f64_int b \<noteq> 0" "f64_int a + f64_int b < 0 \<longleftrightarrow> signF64UI a"
      by (auto simp: x)
    then show ?thesis
      using S(2) [OF 2] by (simp add: r f64_plus_def Let_def)
  next
    case 3
    then have "nat \<bar>f64_int a + f64_int b\<bar> = f64_mag b - f64_mag a"
      "f64_int a + f64_int b \<noteq> 0" "f64_int a + f64_int b < 0 \<longleftrightarrow> \<not> signF64UI a"
      by (auto simp: x)
    then show ?thesis
      using S(3) [OF 3] by (simp add: r f64_plus_def Let_def)
  qed
qed

text \<open>1 minus the least double above 1, rounded down: the exact \<open>- 2 ^ -52\<close>.\<close>

lemma f64_add_correctly_rounded_witness:
  "f64_plus round_min 0x3FF0000000000000 0xBFF0000000000001 = (True, 2 ^ 1022)"
proof -
  have "f64_finite 0x3FF0000000000000" "f64_finite 0xBFF0000000000001"
    by (simp_all add: f64_finite_def expF64UI_unat)
  moreover have "fst (f64_add round_min 0x3FF0000000000000 0xBFF0000000000001) = 0xBCB0000000000000"
    by code_simp
  moreover have "signF64UI 0xBCB0000000000000" "f64_mag 0xBCB0000000000000 = 2 ^ 1022"
    by (simp_all add: f64_mag_of mag_of_def signF64UI_unat)
  ultimately show ?thesis
    using f64_add_correctly_rounded [of "0x3FF0000000000000" "0xBFF0000000000001" round_min] by simp
qed

end
