(* ===== verification/Ckpt.thy ===== *)
theory Ckpt
  imports Bytes
begin

text \<open>
  The checkpoint loader, \<^verbatim>\<open>ckpt_support/restoreCkpt/readckpt\<close>: it restores a
  checkpoint into its own address space, replaces every \<^verbatim>\<open>ecall\<close> of the restored
  program by a jump through a register of the processor, and from then on answers each call
  of the program with what was recorded.  The definitions follow the files: the page
  \<^verbatim>\<open>RunningInfo\<close> and the macros of \<^verbatim>\<open>ckptinfo.h\<close> and \<^verbatim>\<open>define.h\<close>,
  \<^verbatim>\<open>ctrl.h\<close>, \<^verbatim>\<open>takeover_syscall.cpp\<close>, \<^verbatim>\<open>ckpt_load.cpp\<close>,
  \<^verbatim>\<open>elf_load.cpp\<close> and \<^verbatim>\<open>readckpt.cpp\<close>.

  The state is the memory that loader and program share, the registers, and the registers that
  the added instruction \<^verbatim>\<open>addi x0, rs, n\<close> writes, indexed by \<open>n\<close>.  The locals of
  the loader and its stack are values of the model.  The C library and the kernel under it are
  parameters: files, \<^verbatim>\<open>mmap\<close>, and the two counters.  What the code prints is left out,
  except what it prints before it exits.
\<close>

subsection \<open>State\<close>

record MemRangeInfo =
  mr_addr :: u64
  mr_size :: u64

record loader =
  l_mem :: mem
  l_x :: "nat \<Rightarrow> u64"
  l_f :: "nat \<Rightarrow> u64"
  l_ucsr :: "nat \<Rightarrow> u64"
  l_pc :: u64
  l_exit_npc :: u64
  l_pfc :: "nat \<Rightarrow> u64"
  l_reads :: nat
  text_seg :: MemRangeInfo
  maxevent :: u64
  warmupinst :: u64
  eventsel :: u64
  maxperiod :: u64
  sampleHapTimes :: u64
  startcycle :: u64
  endcycle :: u64
  startinst :: u64
  endinst :: u64
  hpcounters :: "nat \<Rightarrow> u64"

text \<open>
  \<open>own_x\<close> gives the registers of the compiled loader where it saves them, \<open>os_mmap\<close> takes
  whether the address is fixed, the address and the length and returns the address and the
  memory, and \<open>os_file\<close> is the contents of a file that can be opened.
\<close>

record ckpt_env =
  os_mmap :: "bool \<Rightarrow> u64 \<Rightarrow> u64 \<Rightarrow> mem \<Rightarrow> u64 \<times> mem"
  os_file :: "string \<Rightarrow> u8 list option"
  csr_cycle :: "nat \<Rightarrow> u64"
  csr_instret :: "nat \<Rightarrow> u64"
  own_x :: "nat \<Rightarrow> u64"
  takeOverAddr :: u64
  sampleFucAddr :: u64
  procTag :: u64
  tempStackMem :: u64

text \<open>
  How a run of the loader can stop.  \<open>Undefined\<close> is a short \<^verbatim>\<open>fread\<close> into an
  uninitialised variable, which the code does not notice, or a missing argument that is used;
  \<open>Int_overflow\<close> is a loop that counts past the range of \<^verbatim>\<open>int\<close>.
\<close>

datatype stop =
    Cannot_open
  | Bad_map u64 u64
  | Undefined
  | Int_overflow
  | Few_arguments
  | Calls_exhausted u64 u64 u64 u64
  | Wrong_number u64 u64 u64

definition and_then :: "stop + 'a \<Rightarrow> ('a \<Rightarrow> stop + 'b) \<Rightarrow> stop + 'b" where
  "and_then r f = (case r of Inl e \<Rightarrow> Inl e | Inr x \<Rightarrow> f x)"

lemma and_then_simps [simp]: "and_then (Inl e) f = Inl e" "and_then (Inr x) f = f x"
  by (simp_all add: and_then_def)

lemma and_then_Inr: "and_then r f = Inr y \<longleftrightarrow> (\<exists>x. r = Inr x \<and> f x = Inr y)"
  by (cases r) simp_all

text \<open>The loop \<^verbatim>\<open>for (int i = 0; i < bound; i++)\<close> with an unsigned 64-bit bound.\<close>

function for_int :: "('a \<Rightarrow> u64) \<Rightarrow> (nat \<Rightarrow> 'a \<Rightarrow> stop + 'a) \<Rightarrow> nat \<Rightarrow> 'a \<Rightarrow> stop + 'a" where
  "for_int bound body i s =
     (if 2 ^ 31 \<le> i then Inl Int_overflow
      else if of_nat i < bound s then and_then (body i s) (for_int bound body (Suc i))
      else Inr s)"
  by pat_completeness auto
termination
  by (relation "measure (\<lambda>(bound, body, i, s). 2 ^ 31 - i)") auto

declare for_int.simps [simp del]

lemma for_int_rule:
  assumes "P i s" and "\<And>j t. i \<le> j \<Longrightarrow> j < n \<Longrightarrow> P j t \<Longrightarrow> \<exists>u. body j t = Inr u \<and> P (Suc j) u"
    and "\<And>j t. P j t \<Longrightarrow> bound t = of_nat n" and "i \<le> n" and "n < 2 ^ 31"
  shows "\<exists>t. for_int bound body i s = Inr t \<and> P n t"
  using assms(1,2,4)
proof (induction "n - i" arbitrary: i s)
  case 0
  then have "i = n"
    by simp
  then show ?case
    using 0 assms(3) [of n s] assms(5) by (simp add: for_int.simps [of bound body n s])
next
  case (Suc k)
  then have i: "i < n"
    by simp
  obtain u where u: "body i s = Inr u" "P (Suc i) u"
    using Suc.prems i by blast
  have "(of_nat i :: u64) < of_nat n"
    using i assms(5) by (simp add: word_less_nat_alt unat_of_nat64)
  then have "for_int bound body i s = for_int bound body (Suc i) u"
    using u i assms(3) [OF Suc.prems(1)] assms(5) by (simp add: for_int.simps [of bound body i s])
  moreover have "k = n - Suc i" "Suc i \<le> n"
    using Suc.hyps(2) i by simp_all
  ultimately show ?case
    using Suc.hyps(1) [OF _ u(2)] Suc.prems(2) by simp
qed

lemma for_int_Inr:
  assumes "for_int bound body i s = Inr t" and "P s" and "\<And>j u v. P u \<Longrightarrow> body j u = Inr v \<Longrightarrow> P v"
  shows "P t"
  using assms
proof (induction bound body i s rule: for_int.induct)
  case (1 bound body i s)
  show ?case
  proof (cases "of_nat i < bound s")
    case True
    then obtain u where "body i s = Inr u" "for_int bound body (Suc i) u = Inr t" "\<not> 2 ^ 31 \<le> i"
      using 1(2) by (auto simp: for_int.simps [of bound body i s] and_then_Inr split: if_splits)
    then show ?thesis
      using 1(1) [of u] 1(3,4) True by blast
  next
    case False
    then show ?thesis
      using 1(2,3) by (simp add: for_int.simps [of bound body i s] split: if_splits)
  qed
qed

subsection \<open>The page RunningInfo (ckptinfo.h)\<close>

abbreviation RunningInfoAddr :: u64 where "RunningInfoAddr \<equiv> 0x150000"
abbreviation StoreIntRegAddr :: u64 where "StoreIntRegAddr \<equiv> 0x150028"
abbreviation StoreFpRegAddr :: u64 where "StoreFpRegAddr \<equiv> 0x150128"
abbreviation OldIntRegAddr :: u64 where "OldIntRegAddr \<equiv> 0x150228"

definition ECall_Replace :: u64 where "ECall_Replace = 0x04018013"
definition Cause_ExitInst :: u64 where "Cause_ExitInst = 2"

definition RI_exitpc :: u64 where "RI_exitpc = 0x150000"
definition RI_exit_cause :: u64 where "RI_exit_cause = 0x150008"
definition RI_syscall_info_addr :: u64 where "RI_syscall_info_addr = 0x150010"
definition RI_nowcallnum :: u64 where "RI_nowcallnum = 0x150018"
definition RI_totalcallnum :: u64 where "RI_totalcallnum = 0x150020"
definition RI_intregs :: "nat \<Rightarrow> u64" where "RI_intregs i = 0x150028 + 8 * of_nat i"
definition RI_fpregs :: "nat \<Rightarrow> u64" where "RI_fpregs i = 0x150128 + 8 * of_nat i"
definition RI_oldregs :: "nat \<Rightarrow> u64" where "RI_oldregs i = 0x150228 + 8 * of_nat i"
definition RI_cycles :: u64 where "RI_cycles = 0x150328"
definition RI_insts :: u64 where "RI_insts = 0x150330"
definition RI_lastcycles :: u64 where "RI_lastcycles = 0x150338"
definition RI_lastinsts :: u64 where "RI_lastinsts = 0x150340"
definition RI_startcycles :: u64 where "RI_startcycles = 0x150348"
definition RI_startinsts :: u64 where "RI_startinsts = 0x150350"

lemmas ri_defs = RI_exitpc_def RI_exit_cause_def RI_syscall_info_addr_def RI_nowcallnum_def
  RI_totalcallnum_def RI_intregs_def RI_fpregs_def RI_oldregs_def RI_cycles_def RI_insts_def
  RI_lastcycles_def RI_lastinsts_def RI_startcycles_def RI_startinsts_def

definition peek :: "u64 \<Rightarrow> loader \<Rightarrow> u64" where
  "peek a s = load64 (l_mem s) a"

definition poke :: "u64 \<Rightarrow> u64 \<Rightarrow> loader \<Rightarrow> loader" where
  "poke a v s = s\<lparr>l_mem := store64 (l_mem s) a v\<rparr>"

text \<open>
  The macros that save and load a set of registers.  Each begins with \<^verbatim>\<open>li a0, BaseAddr\<close>,
  so that register 10 holds the base, and takes register 10 last.
\<close>

definition ctx_order :: "nat list" where
  "ctx_order = [0..<10] @ [11..<32] @ [10]"

definition xreg :: "loader \<Rightarrow> nat \<Rightarrow> u64" where
  "xreg s i = (if i = 0 then 0 else l_x s i)"

definition li_a0 :: "u64 \<Rightarrow> loader \<Rightarrow> loader" where
  "li_a0 base s = s\<lparr>l_x := (l_x s)(10 := base)\<rparr>"

definition sd :: "nat \<Rightarrow> loader \<Rightarrow> loader" where
  "sd i s = poke (xreg s 10 + 8 * of_nat i) (xreg s i) s"

definition ld :: "nat \<Rightarrow> loader \<Rightarrow> loader" where
  "ld i s = s\<lparr>l_x := (l_x s)(i := peek (xreg s 10 + 8 * of_nat i) s)\<rparr>"

definition fld :: "nat \<Rightarrow> loader \<Rightarrow> loader" where
  "fld i s = s\<lparr>l_f := (l_f s)(i := peek (xreg s 10 + 8 * of_nat i) s)\<rparr>"

definition Context_Operation :: "(nat \<Rightarrow> loader \<Rightarrow> loader) \<Rightarrow> u64 \<Rightarrow> loader \<Rightarrow> loader" where
  "Context_Operation Op base s = fold Op ctx_order (li_a0 base s)"

definition Load_necessary :: "u64 \<Rightarrow> loader \<Rightarrow> loader" where
  "Load_necessary base s = fold ld [2, 3, 4, 8] (li_a0 base s)"

subsection \<open>The added registers (define.h)\<close>

definition set_ucsr :: "nat \<Rightarrow> u64 \<Rightarrow> loader \<Rightarrow> loader" where
  "set_ucsr n v s = s\<lparr>l_ucsr := (l_ucsr s)(n := v)\<rparr>"

definition SetTempReg :: "u64 \<Rightarrow> nat \<Rightarrow> loader \<Rightarrow> loader" where
  "SetTempReg v n = set_ucsr (9 + n) v"

definition SetPfcEnable :: "u64 \<Rightarrow> loader \<Rightarrow> loader" where
  "SetPfcEnable n = set_ucsr 7 n"

definition SetCounterLevel :: "u64 \<Rightarrow> loader \<Rightarrow> loader" where
  "SetCounterLevel priv = set_ucsr 6 priv"

definition SetSampleBaseInfo :: "u64 \<Rightarrow> u64 \<Rightarrow> loader \<Rightarrow> loader" where
  "SetSampleBaseInfo ptag sampleFuncAddr s = set_ucsr 2 sampleFuncAddr (set_ucsr 1 ptag s)"

definition SetSampleCtrlReg :: "u64 \<Rightarrow> u64 \<Rightarrow> u64 \<Rightarrow> loader \<Rightarrow> loader" where
  "SetSampleCtrlReg maxevt warmup evsel s =
     set_ucsr 12 1 (set_ucsr 3 evsel (set_ucsr 5 warmup (set_ucsr 4 maxevt s)))"

definition JmpTempReg :: "nat \<Rightarrow> loader \<Rightarrow> loader" where
  "JmpTempReg n s = s\<lparr>l_pc := l_ucsr s (9 + n)\<rparr>"

definition GetExitPC :: "loader \<Rightarrow> u64" where
  "GetExitPC s = l_exit_npc s"

definition RESET_COUNTER :: "loader \<Rightarrow> loader" where
  "RESET_COUNTER s = s\<lparr>l_pfc := (\<lambda>_. 0)\<rparr>"

text \<open>Reading \<^verbatim>\<open>cycle\<close> and then \<^verbatim>\<open>instret\<close>.\<close>

definition read_csrs :: "ckpt_env \<Rightarrow> loader \<Rightarrow> u64 \<times> u64 \<times> loader" where
  "read_csrs E s = (csr_cycle E (l_reads s), csr_instret E (l_reads s), s\<lparr>l_reads := Suc (l_reads s)\<rparr>)"

subsection \<open>Taking over a call (takeover\_syscall.cpp)\<close>

abbreviation (input) S_pc :: u64 where "S_pc \<equiv> 0"
abbreviation (input) S_num :: u64 where "S_num \<equiv> 8"
abbreviation (input) S_p0 :: u64 where "S_p0 \<equiv> 16"
abbreviation (input) S_ret :: u64 where "S_ret \<equiv> 24"
abbreviation (input) S_data_offset :: u64 where "S_data_offset \<equiv> 32"
abbreviation (input) sizeof_SyscallInfo :: u64 where "sizeof_SyscallInfo \<equiv> 40"

definition syscall_info :: "u64 \<Rightarrow> u64 \<Rightarrow> mem \<Rightarrow> u64 \<Rightarrow> u64" where
  "syscall_info A ncalls m k =
     A + 8 + ncalls * 4 + load_le 4 m (A + 8 + 4 * k) * sizeof_SyscallInfo"

definition copy_call_data :: "u64 \<Rightarrow> loader \<Rightarrow> stop + loader" where
  "copy_call_data info s =
     (let data_offset = drop_bit 8 (peek (info + S_data_offset) s)
      in if data_offset \<noteq> 0xFFFFFFFF
         then let data_size = drop_bit 32 (push_bit 32 (peek (info + S_num) s));
                  bufaddr = peek (peek RI_syscall_info_addr s + data_offset) s
              in if bufaddr \<noteq> 0
                 then let data = peek RI_syscall_info_addr s + data_offset + 8
                      in for_int (\<lambda>_. data_size)
                           (\<lambda>c s. Inr (s\<lparr>l_mem := (l_mem s)(bufaddr + of_nat c := l_mem s (data + of_nat c))\<rparr>))
                           0 s
                 else Inr s
         else Inr s)"

definition finish_call :: "ckpt_env \<Rightarrow> u64 \<Rightarrow> loader \<Rightarrow> loader" where
  "finish_call E info s =
     (let hasret = peek (info + S_data_offset) s mod 256;
          s = (if hasret \<noteq> 0 then poke (RI_intregs 10) (peek (info + S_ret) s) s else s);
          s = poke RI_nowcallnum (peek RI_nowcallnum s + 1) s;
          s = (if peek RI_nowcallnum s = peek RI_totalcallnum s \<and> peek RI_exit_cause s = Cause_ExitInst
               then s\<lparr>l_mem := store_le 4 (l_mem s) (peek RI_exitpc s) ECall_Replace\<rparr> else s);
          npc = peek (info + S_pc) s + 4;
          s = SetTempReg npc 2 s;
          (cyc, ins, s) = read_csrs E s;
          s = poke RI_lastinsts ins (poke RI_lastcycles cyc s)
      in JmpTempReg 2 (Context_Operation ld StoreIntRegAddr s))"

definition enter_takeover :: "ckpt_env \<Rightarrow> loader \<Rightarrow> u64 \<times> u64 \<times> loader" where
  "enter_takeover E s =
     (let s = Load_necessary OldIntRegAddr (Context_Operation sd StoreIntRegAddr s);
          (cyc, ins, s) = read_csrs E s;
          s = poke RI_cycles (peek RI_cycles s + (cyc - peek RI_lastcycles s)) s;
          s = poke RI_insts (peek RI_insts s + (ins - peek RI_lastinsts s)) s
      in (cyc, ins, s))"

definition takeoverSyscall :: "ckpt_env \<Rightarrow> loader \<Rightarrow> stop + loader" where
  "takeoverSyscall E s =
     (let (cyc, ins, s) = enter_takeover E s
      in if peek RI_nowcallnum s \<ge> peek RI_totalcallnum s
         then Inl (Calls_exhausted (peek RI_cycles s) (peek RI_insts s)
                     (cyc - peek RI_startcycles s) (ins - peek RI_startinsts s))
         else let info = syscall_info (peek RI_syscall_info_addr s) (peek RI_totalcallnum s) (l_mem s)
                           (peek RI_nowcallnum s);
                  s = poke (RI_intregs 10) (peek (info + S_p0) s) s;
                  sysnum = drop_bit 32 (peek (info + S_num) s)
              in if peek (RI_intregs 17) s \<noteq> sysnum
                 then Inl (Wrong_number (peek (RI_intregs 17) s) (peek (info + S_pc) s) sysnum)
                 else and_then (copy_call_data info s) (\<lambda>s. Inr (finish_call E info s)))"

subsection \<open>Sampling (ctrl.h)\<close>

text \<open>
  \<open>init_start\<close> prints its arguments; the limits it programs are constants.
\<close>

definition Save_Basic_Regs :: "ckpt_env \<Rightarrow> loader \<Rightarrow> loader" where
  "Save_Basic_Regs E s =
     (let t0 = tempStackMem E + 256
      in poke (t0 + 32) (own_x E 4) (poke (t0 + 24) (own_x E 3) (poke (t0 + 16) (own_x E 1)
           (poke (t0 + 8) (own_x E 8) s))))"

definition init_start :: "ckpt_env \<Rightarrow> u64 \<Rightarrow> u64 \<Rightarrow> u64 \<Rightarrow> loader \<Rightarrow> loader" where
  "init_start E max_inst warmup_inst max_period s =
     (let (cyc, ins, s) = read_csrs E s;
          s = s\<lparr>startcycle := cyc, startinst := ins\<rparr>;
          s = Save_Basic_Regs E s;
          s = poke (tempStackMem E + 8 * 32) (tempStackMem E + 8 * 2048) s;
          s = poke (tempStackMem E + 8 * 33) (tempStackMem E + 8 * 2560) s;
          s = s\<lparr>maxevent := 10000000, warmupinst := 10000000, eventsel := 0, maxperiod := max_period\<rparr>;
          s = SetCounterLevel 0 s;
          s = RESET_COUNTER s;
          s = SetSampleBaseInfo (procTag E) (sampleFucAddr E) s;
          s = SetSampleCtrlReg (maxevent s) (warmupinst s) (eventsel s) s
      in SetPfcEnable 1 s)"

text \<open>
  The handler that the processor enters after a sample.  \<open>Regs_Operations\<close> is the list of
  registers both macros go through, without register 10.
\<close>

definition Regs_Operations :: "(nat \<Rightarrow> loader \<Rightarrow> loader) \<Rightarrow> loader \<Rightarrow> loader" where
  "Regs_Operations Op s = fold Op ([1..<10] @ [11..<32]) s"

definition Save_ALLIntRegs :: "ckpt_env \<Rightarrow> loader \<Rightarrow> loader" where
  "Save_ALLIntRegs E s =
     (let s = SetTempReg (xreg s 10) 0 s;
          s = Regs_Operations sd (li_a0 (tempStackMem E) s);
          s = s\<lparr>l_x := (l_x s)(11 := l_ucsr s 9)\<rparr>
      in poke (xreg s 10 + 8 * 10) (xreg s 11) s)"

definition Load_Basic_Regs :: "ckpt_env \<Rightarrow> loader \<Rightarrow> loader" where
  "Load_Basic_Regs E s =
     (let t0 = tempStackMem E + 256
      in s\<lparr>l_x := (l_x s)(5 := t0, 2 := peek t0 s, 8 := peek (t0 + 8) s, 1 := peek (t0 + 16) s,
             3 := peek (t0 + 24) s, 4 := peek (t0 + 32) s)\<rparr>)"

definition Load_ALLIntRegs :: "ckpt_env \<Rightarrow> loader \<Rightarrow> loader" where
  "Load_ALLIntRegs E s = ld 10 (Regs_Operations ld (li_a0 (tempStackMem E) s))"

definition read_counters :: "loader \<Rightarrow> loader" where
  "read_counters s = s\<lparr>hpcounters := (\<lambda>n. if n < 64 then l_pfc s n else hpcounters s n)\<rparr>"

definition sample_func :: "ckpt_env \<Rightarrow> loader \<Rightarrow> loader" where
  "sample_func E s =
     (let s = Load_Basic_Regs E (Save_ALLIntRegs E s);
          s = SetTempReg (GetExitPC s) 0 s;
          s = s\<lparr>sampleHapTimes := sampleHapTimes s + 1\<rparr>;
          (cyc, ins, s) = read_csrs E s;
          s = s\<lparr>endcycle := cyc, endinst := ins\<rparr>;
          s = read_counters s;
          s = s\<lparr>startcycle := endcycle s, startinst := endinst s\<rparr>;
          s = s\<lparr>warmupinst := 0\<rparr>;
          s = SetPfcEnable 1 (RESET_COUNTER s);
          s = SetSampleBaseInfo (procTag E) (sampleFucAddr E) s;
          s = SetSampleCtrlReg (maxevent s) (warmupinst s) (eventsel s) s
      in JmpTempReg 0 (Load_ALLIntRegs E s))"

subsection \<open>Files\<close>

text \<open>
  An open file is its contents and a position.  \<open>fread_mem\<close> reads into memory and may read
  less than asked, as \<^verbatim>\<open>fread\<close> does; \<open>fread_var\<close> reads into an uninitialised variable,
  \<open>fread_zeroed\<close> into a \<^verbatim>\<open>uint64_t\<close> that was set to 0.
\<close>

type_synonym stream = "u8 list \<times> nat"

definition fopen :: "ckpt_env \<Rightarrow> string \<Rightarrow> stop + stream" where
  "fopen E path = (case os_file E path of None \<Rightarrow> Inl Cannot_open | Some bs \<Rightarrow> Inr (bs, 0))"

definition ahead :: "nat \<Rightarrow> stream \<Rightarrow> u8 list" where
  "ahead n f = take n (drop (snd f) (fst f))"

definition advance :: "nat \<Rightarrow> stream \<Rightarrow> stream" where
  "advance n f = (fst f, snd f + length (ahead n f))"

definition fseek_set :: "u64 \<Rightarrow> stream \<Rightarrow> stream" where
  "fseek_set off f = (if bit off 63 then f else (fst f, unat off))"

definition fread_mem :: "u64 \<Rightarrow> nat \<Rightarrow> stream \<Rightarrow> loader \<Rightarrow> stream \<times> loader" where
  "fread_mem a n f s = (advance n f, s\<lparr>l_mem := put_bytes a (ahead n f) (l_mem s)\<rparr>)"

definition le_word :: "u8 list \<Rightarrow> u64" where
  "le_word bs = foldr (\<lambda>b w. ucast b OR push_bit 8 w) bs 0"

definition le_at :: "nat \<Rightarrow> nat \<Rightarrow> u8 list \<Rightarrow> u64" where
  "le_at n off bs = le_word (take n (drop off bs))"

definition fread_zeroed :: "stream \<Rightarrow> u64 \<times> stream" where
  "fread_zeroed f = (le_word (ahead 8 f), advance 8 f)"

definition fread_var :: "nat \<Rightarrow> stream \<Rightarrow> stop + (u8 list \<times> stream)" where
  "fread_var n f = (if length (ahead n f) = n then Inr (ahead n f, advance n f) else Inl Undefined)"

subsection \<open>Reading a checkpoint (ckpt\_load.cpp)\<close>

definition replace_calls :: "u64 \<Rightarrow> u64 \<Rightarrow> loader \<Rightarrow> stop + loader" where
  "replace_calls infoaddr sysidxs s =
     and_then (for_int (\<lambda>(s, _). peek RI_totalcallnum s)
         (\<lambda>i (s, rep_idxs).
            let idx = load_le 4 (l_mem s) (sysidxs + 4 * of_nat i)
            in if idx \<notin> rep_idxs
               then let sinfos = infoaddr + idx * sizeof_SyscallInfo
                    in Inr (s\<lparr>l_mem := store_le 4 (l_mem s) (peek (sinfos + S_pc) s) ECall_Replace\<rparr>,
                            insert idx rep_idxs)
               else Inr (s, rep_idxs))
         0 (s, {} :: u64 set))
       (\<lambda>(s, _). Inr s)"

definition read_ckptsyscall :: "ckpt_env \<Rightarrow> stream \<Rightarrow> loader \<Rightarrow> stop + loader" where
  "read_ckptsyscall E f s =
     (let nowplace = of_nat (snd f);
          filesize = of_nat (length (fst f)) - nowplace;
          allocsize = filesize + (4096 - filesize mod 4096);
          (alloc_vaddr, m) = os_mmap E False 0x2000000 allocsize (l_mem s);
          (f, s) = fread_mem alloc_vaddr (unat filesize) f (s\<lparr>l_mem := m\<rparr>);
          s = poke RI_syscall_info_addr alloc_vaddr s;
          s = poke RI_nowcallnum 0 s;
          s = poke RI_totalcallnum (peek alloc_vaddr s) s
      in replace_calls (peek RI_syscall_info_addr s + 8 + peek RI_totalcallnum s * 4)
           (peek RI_syscall_info_addr s + 8) s)"

definition alloc_memrange :: "ckpt_env \<Rightarrow> stream \<Rightarrow> loader \<Rightarrow> stop + (stream \<times> loader)" where
  "alloc_memrange E f s =
     (let (mrange_num, f) = fread_zeroed f
      in for_int (\<lambda>_. mrange_num)
           (\<lambda>i (f, s). and_then (fread_var 16 f) (\<lambda>(memrange, f).
              let addr = le_at 8 0 memrange; size = le_at 8 8 memrange
              in if size \<noteq> 0
                 then let (arr, m) = os_mmap E True addr size (l_mem s)
                      in if addr = arr then Inr (f, s\<lparr>l_mem := m\<rparr>) else Inl (Bad_map addr arr)
                 else Inr (f, s)))
           0 (f, s))"

definition setFistLoad :: "stream \<Rightarrow> loader \<Rightarrow> stop + (stream \<times> loader)" where
  "setFistLoad f s =
     (let (loadnum, f) = fread_zeroed f
      in and_then (fread_var (16 * unat loadnum) f) (\<lambda>(linfos, f).
           and_then (for_int (\<lambda>_. loadnum)
              (\<lambda>j s. Inr (poke (le_at 8 (16 * j) linfos) (le_at 8 (16 * j + 8) linfos) s)) 0 s)
            (\<lambda>s. Inr (f, s))))"

text \<open>The last part of \<open>read_ckptinfo\<close>, after the file has been read.\<close>

definition save_loader :: "ckpt_env \<Rightarrow> u64 \<Rightarrow> loader \<Rightarrow> loader" where
  "save_loader E npc s =
     (let s = SetTempReg npc 2 s;
          s = SetTempReg (takeOverAddr E) 3 s;
          s = Context_Operation sd OldIntRegAddr (s\<lparr>l_x := own_x E\<rparr>);
          s = poke RI_insts 0 (poke RI_cycles 0 s);
          (cyc, ins, s) = read_csrs E s;
          s = poke RI_lastinsts ins (poke RI_lastcycles cyc s);
          (cyc, ins, s) = read_csrs E s
      in poke RI_startinsts ins (poke RI_startcycles cyc s))"

definition start_program :: "ckpt_env \<Rightarrow> u64 \<Rightarrow> u64 \<Rightarrow> u64 \<Rightarrow> u64 \<Rightarrow> loader \<Rightarrow> loader" where
  "start_program E npc simNum warmup runLength s =
     (let s = save_loader E npc s;
          s = (if runLength \<noteq> 0 then init_start E runLength warmup 1 s
               else let warmup = simNum div 20; runLength = simNum - warmup
                    in init_start E runLength warmup 1 s);
          s = Context_Operation fld StoreFpRegAddr s;
          s = Context_Operation ld StoreIntRegAddr s
      in JmpTempReg 2 s)"

definition read_ckptinfo :: "ckpt_env \<Rightarrow> string \<Rightarrow> loader \<Rightarrow> stop + loader" where
  "read_ckptinfo E ckptinfo s =
     and_then (fopen E ckptinfo) (\<lambda>p.
       let (temp, p) = fread_zeroed p; p = fseek_set (16 * temp + 8) p
       in and_then (fread_var 32 p) (\<lambda>(siminfo, p).
          let warmup = drop_bit 32 (le_at 8 8 siminfo);
              runLength = drop_bit 2 (le_at 8 24 siminfo);
              simNum = drop_bit 32 (push_bit 32 (le_at 8 8 siminfo));
              s = poke RI_exit_cause (le_at 8 24 siminfo mod 4) s;
              s = poke RI_exitpc (le_at 8 16 siminfo) s
          in and_then (fread_var 8 p) (\<lambda>(npc, p).
             let (p, s) = fread_mem (RI_intregs 0) 256 p s;
                 (p, s) = fread_mem (RI_fpregs 0) 256 p s
             in and_then (alloc_memrange E p s) (\<lambda>(p, s).
                and_then (setFistLoad p s) (\<lambda>(p, s).
                and_then (read_ckptsyscall E p s) (\<lambda>s.
                  let s = (if peek RI_totalcallnum s = 0 \<and> peek RI_exit_cause s = Cause_ExitInst
                           then s\<lparr>l_mem := store_le 4 (l_mem s) (peek RI_exitpc s) ECall_Replace\<rparr> else s)
                  in Inr (start_program E (le_word npc) simNum warmup runLength s)))))))"

subsection \<open>The code of the program (elf\_load.cpp, readckpt.cpp)\<close>

abbreviation (input) PROT_READ4 :: u64 where "PROT_READ4 \<equiv> 1"
abbreviation (input) PROT_WRITE4 :: u64 where "PROT_WRITE4 \<equiv> 2"
abbreviation (input) PROT_EXEC4 :: u64 where "PROT_EXEC4 \<equiv> 4"

definition loader_get_prot :: "u64 \<Rightarrow> u64" where
  "loader_get_prot p_flags =
     (if bit p_flags 0 then PROT_EXEC4 else 0) OR (if bit p_flags 1 then PROT_WRITE4 else 0) OR
     (if bit p_flags 2 then PROT_READ4 else 0)"

definition textinfo_at :: "u64 \<Rightarrow> u64" where
  "textinfo_at i = RunningInfoAddr + 16 * i"

text \<open>A product of two \<^verbatim>\<open>uint16_t\<close> values, or of one and an index, is an \<^verbatim>\<open>int\<close>.\<close>

definition int_product :: "u64 \<Rightarrow> u64 \<Rightarrow> u64" where
  "int_product x y = scast (ucast x * ucast y :: u32)"

definition load_ranges :: "u64 \<Rightarrow> u8 list \<Rightarrow> stream \<Rightarrow> loader \<Rightarrow> stop + (stream \<times> loader)" where
  "load_ranges numinfos phdr f s =
     for_int (\<lambda>_. numinfos)
       (\<lambda>i (f, s). let addr = peek (textinfo_at (of_nat i)) s; size = peek (textinfo_at (of_nat i) + 8) s;
                      f = fseek_set (addr - le_at 8 16 phdr + le_at 8 8 phdr) f
                  in Inr (fread_mem addr (unat size) f s))
       0 (f, s)"

definition load_sections :: "u8 list \<Rightarrow> stream \<Rightarrow> loader \<Rightarrow> stop + (stream \<times> loader)" where
  "load_sections ehdr f s =
     (let e_shoff = le_at 8 40 ehdr; e_shentsize = le_at 2 58 ehdr
      in and_then (fread_var 64 (fseek_set (e_shoff + int_product (le_at 2 62 ehdr) e_shentsize) f))
        (\<lambda>(string_shdr, f).
           for_int (\<lambda>_. le_at 2 60 ehdr)
             (\<lambda>c (f, s).
                and_then (fread_var 64 (fseek_set (e_shoff + int_product (of_nat c) e_shentsize) f))
                  (\<lambda>(shdr, f).
                     if le_at 8 32 shdr \<noteq> 0 \<and> bit (le_at 8 8 shdr) 2
                     then Inr (fread_mem (le_at 8 16 shdr) (unat (le_at 8 32 shdr))
                                 (fseek_set (le_at 8 24 shdr) f) s)
                     else Inr (f, s)))
             0 (fseek_set (le_at 8 24 string_shdr + le_at 8 32 string_shdr) f, s)))"

primrec scan_phdrs ::
  "u64 \<Rightarrow> u8 list \<Rightarrow> nat list \<Rightarrow> stream \<Rightarrow> loader \<Rightarrow> stop + (stream \<times> loader)" where
  "scan_phdrs numinfos ehdr [] f s = Inr (f, s)"
| "scan_phdrs numinfos ehdr (i # is) f s =
     and_then (fread_var 56 (fseek_set (le_at 8 32 ehdr + int_product (of_nat i) (le_at 2 54 ehdr)) f))
       (\<lambda>(phdr, f).
          if le_at 4 0 phdr = 1 \<and> le_at 8 40 phdr \<noteq> 0 \<and> le_at 8 32 phdr > 0
          then if loader_get_prot (le_at 4 4 phdr) AND PROT_EXEC4 = 0
               then scan_phdrs numinfos ehdr is f s
               else and_then (load_ranges numinfos phdr f s) (\<lambda>(f, s).
                      if numinfos = 0 then load_sections ehdr f s else Inr (f, s))
          else scan_phdrs numinfos ehdr is f s)"

definition loadelf :: "ckpt_env \<Rightarrow> string option \<Rightarrow> string \<Rightarrow> loader \<Rightarrow> stop + loader" where
  "loadelf E progname ckptinfo s =
     and_then (fopen E ckptinfo) (\<lambda>fp1.
       let (numinfos, fp1) = fread_zeroed fp1;
           (fp1, s) = fread_mem RunningInfoAddr (16 * unat numinfos) fp1 s;
           addr = peek (textinfo_at 0) s;
           size = peek (textinfo_at (numinfos - 1)) s + peek (textinfo_at (numinfos - 1) + 8) s + 4096 - addr;
           s = s\<lparr>text_seg := \<lparr>mr_addr = addr, mr_size = size\<rparr>\<rparr>;
           (alloc_vaddr, m) = os_mmap E True addr size (l_mem s)
       in if alloc_vaddr \<noteq> addr then Inl (Bad_map addr alloc_vaddr)
          else and_then (case progname of None \<Rightarrow> Inl Undefined | Some path \<Rightarrow> fopen E path) (\<lambda>fp.
            and_then (fread_var 64 fp) (\<lambda>(ehdr, fp).
              and_then (scan_phdrs numinfos ehdr [0..<unat (le_at 2 56 ehdr)] fp (s\<lparr>l_mem := m\<rparr>))
                (\<lambda>(fp, s). Inr s))))"

definition readckpt_main :: "ckpt_env \<Rightarrow> string list \<Rightarrow> loader \<Rightarrow> stop + loader" where
  "readckpt_main E argv s =
     (if length argv < 2 then Inl Few_arguments
      else let (alloc_vaddr, m) = os_mmap E True RunningInfoAddr 8192 (l_mem s)
           in if alloc_vaddr \<noteq> RunningInfoAddr then Inl (Bad_map RunningInfoAddr alloc_vaddr)
              else and_then (loadelf E (if length argv = 2 then None else Some (argv ! 2)) (argv ! 1)
                               (s\<lparr>l_mem := m\<rparr>))
                     (read_ckptinfo E (argv ! 1)))"

end
