(* ===== verification/CkptReplay.thy ===== *)
theory CkptReplay
  imports Ckpt
begin

text \<open>
  What a takeover does.  \<open>recorded\<close> decodes one call of the table that the checkpoint carries,
  \<open>answer\<close> applies it to the program, and the lemmas show that \<open>takeoverSyscall\<close> applies the next
  recorded call to the program and keeps the area of the loader: the page \<^verbatim>\<open>RunningInfo\<close>
  and the table.
\<close>

subsection \<open>Saving and loading the registers\<close>

lemma peek_mem_upd [simp]:
  "peek a (s\<lparr>l_x := x\<rparr>) = peek a s" "peek a (s\<lparr>l_ucsr := u\<rparr>) = peek a s"
  "peek a (s\<lparr>l_reads := n\<rparr>) = peek a s" "peek a (s\<lparr>l_f := f\<rparr>) = peek a s"
  by (simp_all add: peek_def)

lemma l_mem_poke [simp]: "l_mem (poke a v s) = store64 (l_mem s) a v"
  by (simp add: poke_def)

lemma poke_fields [simp]:
  "l_x (poke a v s) = l_x s" "l_f (poke a v s) = l_f s" "l_ucsr (poke a v s) = l_ucsr s"
  "l_pc (poke a v s) = l_pc s" "l_reads (poke a v s) = l_reads s"
  by (simp_all add: poke_def)

lemma peek_poke_same [simp]: "peek a (poke a v s) = v"
  by (simp add: peek_def)

lemma peek_poke_apart:
  "unat a + 8 \<le> unat b \<or> unat b + 8 \<le> unat a \<Longrightarrow> unat a + 8 \<le> 2 ^ 64 \<Longrightarrow> unat b + 8 \<le> 2 ^ 64 \<Longrightarrow>
   peek a (poke b v s) = peek a s"
  by (simp add: peek_def load_store_apart)

lemma unat_reg_slot: "i < 32 \<Longrightarrow> unat b + 256 \<le> 2 ^ 64 \<Longrightarrow> unat (b + 8 * of_nat i) = unat b + 8 * i" for b :: u64
  by (simp add: unat_word_ariths unat_of_nat64)

lemma fold_sd:
  assumes "distinct is" "\<forall>i \<in> set is. i < 32" "unat (l_x s 10) + 256 \<le> 2 ^ 64"
  shows "\<exists>m. fold sd is s = s\<lparr>l_mem := m\<rparr> \<and>
     (\<forall>i \<in> set is. load64 m (l_x s 10 + 8 * of_nat i) = xreg s i) \<and>
     (\<forall>x. x \<notin> span (l_x s 10) 256 \<longrightarrow> m x = l_mem s x)"
  using assms(1,2)
proof (induction "is" rule: rev_induct)
  case Nil
  then show ?case
    by (intro exI [of _ "l_mem s"]) simp
next
  case (snoc i "is")
  let ?b = "l_x s 10"
  obtain m where m: "fold sd is s = s\<lparr>l_mem := m\<rparr>" "\<forall>i \<in> set is. load64 m (?b + 8 * of_nat i) = xreg s i"
    "\<forall>x. x \<notin> span ?b 256 \<longrightarrow> m x = l_mem s x"
    using snoc by auto
  let ?m = "store64 m (?b + 8 * of_nat i) (xreg s i)"
  have i: "i < 32" "i \<notin> set is"
    using snoc.prems by auto
  have "fold sd (is @ [i]) s = s\<lparr>l_mem := ?m\<rparr>"
    by (simp add: m(1) sd_def poke_def xreg_def)
  moreover have "load64 ?m (?b + 8 * of_nat j) = xreg s j" if j: "j \<in> set (is @ [i])" for j
  proof (cases "j = i")
    case False
    then have "load64 ?m (?b + 8 * of_nat j) = load64 m (?b + 8 * of_nat j)"
      using j snoc.prems i(1) assms(3) by (intro load_store_apart) (auto simp: unat_reg_slot)
    then show ?thesis
      using m(2) j False by simp
  qed simp
  moreover have "?m x = l_mem s x" if x: "x \<notin> span ?b 256" for x
  proof -
    have "x \<notin> span (?b + 8 * of_nat i) 8"
      using x i(1) assms(3) by (auto simp: span_def unat_reg_slot)
    then have "?m x = m x"
      using i(1) assms(3) by (intro store_le_outside) (auto simp: unat_reg_slot)
    then show ?thesis
      using m(3) x by simp
  qed
  ultimately show ?case
    by blast
qed

lemma fold_ld:
  "10 \<notin> set is \<Longrightarrow> fold ld is s =
     s\<lparr>l_x := \<lambda>i. if i \<in> set is then peek (l_x s 10 + 8 * of_nat i) s else l_x s i\<rparr>"
proof (induction "is" rule: rev_induct)
  case (snoc i "is")
  then show ?case
    by (auto simp: ld_def xreg_def peek_def fun_eq_iff)
qed simp

lemma set_ctx_order: "set ctx_order = {..<32}" "distinct ctx_order"
  unfolding ctx_order_def by (simp only: set_append set_upt, force) (simp add: distinct_append)

lemma ctx_order_but_10: "set ([0..<10] @ [11..<32]) = {..<32} - {10}"
  by (simp only: set_append set_upt) force

lemma store_context:
  assumes "unat base + 256 \<le> 2 ^ 64"
  shows "\<exists>m. Context_Operation sd base s = s\<lparr>l_x := (l_x s)(10 := base), l_mem := m\<rparr> \<and>
     (\<forall>i < 32. load64 m (base + 8 * of_nat i) = (if i = 10 then base else xreg s i)) \<and>
     (\<forall>x. x \<notin> span base 256 \<longrightarrow> m x = l_mem s x)"
proof -
  have "\<forall>i \<in> set ctx_order. i < 32" "unat (l_x (li_a0 base s) 10) + 256 \<le> 2 ^ 64"
    using assms by (simp_all add: set_ctx_order li_a0_def)
  from fold_sd [OF set_ctx_order(2) this] obtain m
    where m: "fold sd ctx_order (li_a0 base s) = (li_a0 base s)\<lparr>l_mem := m\<rparr>"
      "\<forall>i < 32. load64 m (base + 8 * of_nat i) = xreg (li_a0 base s) i"
      "\<forall>x. x \<notin> span base 256 \<longrightarrow> m x = l_mem s x"
    by (auto simp: li_a0_def set_ctx_order)
  show ?thesis
    using m by (intro exI [of _ m]) (simp add: Context_Operation_def li_a0_def xreg_def)
qed

lemma fold_ld_10:
  assumes "10 \<notin> set js"
  shows "ld 10 (fold ld js (li_a0 base s)) =
    s\<lparr>l_x := \<lambda>i. if i \<in> insert 10 (set js) then peek (base + 8 * of_nat i) s else l_x s i\<rparr>"
  unfolding fold_ld [OF assms]
  by (rule loader.equality) (insert assms, auto simp: ld_def li_a0_def xreg_def peek_def fun_eq_iff)

lemma load_context:
  "Context_Operation ld base s =
     s\<lparr>l_x := \<lambda>i. if i < 32 then peek (base + 8 * of_nat i) s else l_x s i\<rparr>"
proof -
  have "Context_Operation ld base s = ld 10 (fold ld ([0..<10] @ [11..<32]) (li_a0 base s))"
    by (simp add: Context_Operation_def ctx_order_def)
  moreover have js: "insert 10 (set ([0..<10] @ [11..<32])) = {..<32}" "10 \<notin> set ([0..<10] @ [11..<32])"
    unfolding ctx_order_but_10 by auto
  ultimately show ?thesis
    using fold_ld_10 [OF js(2)] unfolding js(1) by simp
qed

lemma load_fp_context:
  "Context_Operation fld base s =
     s\<lparr>l_x := (l_x s)(10 := base), l_f := \<lambda>i. if i < 32 then peek (base + 8 * of_nat i) s else l_f s i\<rparr>"
proof -
  have "fold fld js (li_a0 base s) = s\<lparr>l_x := (l_x s)(10 := base),
      l_f := \<lambda>i. if i \<in> set js then peek (base + 8 * of_nat i) s else l_f s i\<rparr>" for js
    by (induction js rule: rev_induct) (auto simp: fld_def li_a0_def xreg_def peek_def fun_eq_iff)
  then show ?thesis
    by (simp add: Context_Operation_def set_ctx_order)
qed

subsection \<open>The recorded calls\<close>

record recorded_call =
  c_pc :: u64
  c_num :: u64
  c_p0 :: u64
  c_ret :: u64
  c_hasret :: bool
  c_buf :: u64
  c_data :: "u8 list"

definition call_offset :: "mem \<Rightarrow> u64 \<Rightarrow> u64" where
  "call_offset m info = drop_bit 8 (load64 m (info + 32))"

definition call_size :: "mem \<Rightarrow> u64 \<Rightarrow> nat" where
  "call_size m info = unat (drop_bit 32 (push_bit 32 (load64 m (info + 8))))"

definition call_buf :: "u64 \<Rightarrow> mem \<Rightarrow> u64 \<Rightarrow> u64" where
  "call_buf A m info =
     (if call_offset m info = 0xFFFFFFFF then 0 else load64 m (A + call_offset m info))"

definition decode_call :: "u64 \<Rightarrow> mem \<Rightarrow> u64 \<Rightarrow> recorded_call" where
  "decode_call A m info =
     \<lparr>c_pc = load64 m info, c_num = drop_bit 32 (load64 m (info + 8)), c_p0 = load64 m (info + 16),
      c_ret = load64 m (info + 24), c_hasret = (load64 m (info + 32) mod 256 \<noteq> 0),
      c_buf = call_buf A m info,
      c_data = (if call_buf A m info = 0 then []
                else map (\<lambda>i. m (A + call_offset m info + 8 + of_nat i)) [0..<call_size m info])\<rparr>"

definition recorded :: "u64 \<Rightarrow> nat \<Rightarrow> mem \<Rightarrow> nat \<Rightarrow> recorded_call" where
  "recorded A n m k = decode_call A m (syscall_info A (of_nat n) m (of_nat k))"

text \<open>
  Call \<open>k\<close> of a table of \<open>n\<close> calls lies within the \<open>N\<close> bytes at \<open>A\<close>, with its data.
\<close>

definition info_fits :: "nat \<Rightarrow> nat \<Rightarrow> u64 \<Rightarrow> mem \<Rightarrow> u64 \<Rightarrow> bool" where
  "info_fits N n A m info \<longleftrightarrow> unat A + 8 + 4 * n \<le> unat info \<and> unat info + 40 \<le> unat A + N \<and>
     (call_offset m info \<noteq> 0xFFFFFFFF \<longrightarrow> unat (call_offset m info) + 8 + call_size m info \<le> N \<and>
        call_size m info < 2 ^ 31)"

definition table_ok :: "u64 \<Rightarrow> nat \<Rightarrow> nat \<Rightarrow> mem \<Rightarrow> bool" where
  "table_ok A N n m \<longleftrightarrow> unat A + N \<le> 2 ^ 64 \<and> 8 + 4 * n \<le> N \<and>
     (unat A + N \<le> 0x150000 \<or> 0x150358 \<le> unat A) \<and>
     (\<forall>k < n. info_fits N n A m (syscall_info A (of_nat n) m (of_nat k)))"

definition area :: "u64 \<Rightarrow> nat \<Rightarrow> u64 set" where
  "area A N = span RunningInfoAddr 0x358 \<union> span A N"

definition agree :: "u64 set \<Rightarrow> mem \<Rightarrow> mem \<Rightarrow> bool" where
  "agree R m m' \<longleftrightarrow> (\<forall>x \<in> R. m x = m' x)"

lemma agree_load:
  assumes "agree (span A N) m m'" and "unat A \<le> unat a" "unat a + n \<le> unat A + N" "unat a + n \<le> 2 ^ 64"
  shows "load_le n m a = load_le n m' a"
proof (rule load_le_span [OF assms(4)])
  fix x
  assume "x \<in> span a n"
  then have "x \<in> span A N"
    using assms(2,3) by (auto simp: span_def)
  then show "m x = m' x"
    using assms(1) by (simp add: agree_def)
qed

lemma agree_info:
  assumes a: "agree (span A N) m m'" and f: "info_fits N n A m info" and N: "unat A + N \<le> 2 ^ 64"
    and j: "j \<le> 32"
  shows "load64 m (info + of_nat j) = load64 m' (info + of_nat j)"
proof (rule agree_load [OF a])
  have I: "unat A \<le> unat info" "unat info + 40 \<le> unat A + N"
    using f by (auto simp: info_fits_def)
  have "unat (info + of_nat j) = unat info + j"
    using j I N by (simp add: unat_word_ariths unat_of_nat64)
  then show "unat A \<le> unat (info + of_nat j)" "unat (info + of_nat j) + 8 \<le> unat A + N"
    "unat (info + of_nat j) + 8 \<le> 2 ^ 64"
    using j I N by simp_all
qed

lemma decode_agree:
  assumes a: "agree (span A N) m m'" and f: "info_fits N n A m info" and N: "unat A + N \<le> 2 ^ 64"
  shows "decode_call A m' info = decode_call A m info" "info_fits N n A m' info"
proof -
  have L: "load64 m (info + of_nat j) = load64 m' (info + of_nat j)" if "j \<le> 32" for j
    using agree_info [OF a f N that] .
  have o: "call_offset m' info = call_offset m info" "call_size m' info = call_size m info"
    using L [of 32] L [of 8] by (simp_all add: call_offset_def call_size_def)
  show "info_fits N n A m' info"
    using f by (simp add: info_fits_def o)
  have D: "load64 m (A + call_offset m info) = load64 m' (A + call_offset m info)"
    "\<And>i. i < call_size m info \<Longrightarrow>
       m (A + call_offset m info + 8 + of_nat i) = m' (A + call_offset m info + 8 + of_nat i)"
    if "call_offset m info \<noteq> 0xFFFFFFFF"
  proof -
    let ?o = "call_offset m info"
    have b: "unat ?o + 8 + call_size m info \<le> N"
      using f that by (simp add: info_fits_def)
    then have "unat (A + ?o) = unat A + unat ?o"
      using N by (simp add: unat_word_ariths)
    then show "load64 m (A + ?o) = load64 m' (A + ?o)"
      using b N by (intro agree_load [OF a]) simp_all
    fix i
    assume i: "i < call_size m info"
    have "unat (A + ?o + 8 + of_nat i) = unat A + unat ?o + 8 + i"
      using i b N by (simp add: unat_word_ariths unat_of_nat64)
    then have "A + ?o + 8 + of_nat i \<in> span A N"
      using i b by (simp add: span_def)
    then show "m (A + ?o + 8 + of_nat i) = m' (A + ?o + 8 + of_nat i)"
      using a by (simp add: agree_def)
  qed
  have B: "call_buf A m' info = call_buf A m info"
    using D by (simp add: call_buf_def o)
  then have "(if call_buf A m' info = 0 then []
       else map (\<lambda>i. m' (A + call_offset m' info + 8 + of_nat i)) [0..<call_size m' info]) =
     (if call_buf A m info = 0 then []
       else map (\<lambda>i. m (A + call_offset m info + 8 + of_nat i)) [0..<call_size m info])"
    using D(2) by (auto simp: o call_buf_def split: if_splits)
  then show "decode_call A m' info = decode_call A m info"
    using L [of 0] L [of 8] L [of 16] L [of 24] L [of 32] B by (simp add: decode_call_def)
qed

lemma agree_index:
  assumes a: "agree (span A N) m m'" and t: "table_ok A N n m" and k: "k < n"
  shows "load_le 4 m' (A + 8 + 4 * of_nat k) = load_le 4 m (A + 8 + 4 * of_nat k)"
proof (rule agree_load [OF a, symmetric])
  have N: "unat A + N \<le> 2 ^ 64" "8 + 4 * n \<le> N"
    using t by (simp_all add: table_ok_def)
  have "unat (A + 8 + 4 * of_nat k) = unat A + 8 + 4 * k"
    using k N by (simp add: unat_word_ariths unat_of_nat64)
  then show "unat A \<le> unat (A + 8 + 4 * of_nat k)" "unat (A + 8 + 4 * of_nat k) + 4 \<le> unat A + N"
    "unat (A + 8 + 4 * of_nat k) + 4 \<le> 2 ^ 64"
    using k N by simp_all
qed

lemma recorded_agree:
  assumes a: "agree (span A N) m m'" and t: "table_ok A N n m"
  shows "table_ok A N n m'" "k < n \<Longrightarrow> recorded A n m' k = recorded A n m k"
    "k < n \<Longrightarrow> syscall_info A (of_nat n) m' (of_nat k) = syscall_info A (of_nat n) m (of_nat k)"
proof -
  have N: "unat A + N \<le> 2 ^ 64" "8 + 4 * n \<le> N"
    using t by (simp_all add: table_ok_def)
  have I: "syscall_info A (of_nat n) m' (of_nat k) = syscall_info A (of_nat n) m (of_nat k)" if "k < n" for k
    using agree_index [OF a t that] by (simp add: syscall_info_def)
  then show "k < n \<Longrightarrow> syscall_info A (of_nat n) m' (of_nat k) = syscall_info A (of_nat n) m (of_nat k)" .
  show "table_ok A N n m'"
    using t I decode_agree(2) [OF a _ N(1)] by (simp add: table_ok_def)
  show "recorded A n m' k = recorded A n m k" if k: "k < n"
  proof -
    have "info_fits N n A m (syscall_info A (of_nat n) m (of_nat k))"
      using t k by (simp add: table_ok_def)
    then show ?thesis
      using I [OF k] decode_agree(1) [OF a _ N(1)] by (simp add: recorded_def)
  qed
qed

subsection \<open>The fields of the page\<close>

lemma unat_RI_intregs: "i < 32 \<Longrightarrow> unat (RI_intregs i) = 0x150028 + 8 * i"
  using unat_reg_slot [of i "0x150028"] by (simp add: RI_intregs_def)

lemma peek_slot_poke:
  assumes "i < 32" "unat b + 8 \<le> 0x150028 \<or> 0x150128 \<le> unat b" "unat b + 8 \<le> 2 ^ 64"
  shows "peek (RI_intregs i) (poke b v s) = peek (RI_intregs i) s"
    "peek b (poke (RI_intregs i) v s) = peek b s"
  using assms by (auto intro!: peek_poke_apart simp: unat_RI_intregs)

lemma slot_eq: "i < 32 \<Longrightarrow> j < 32 \<Longrightarrow>
    peek (RI_intregs i) (poke (RI_intregs j) v s) = (if i = j then v else peek (RI_intregs i) s)"
  by (auto intro!: peek_poke_apart simp: unat_RI_intregs)

abbreviation page :: "u64 set" where "page \<equiv> span RunningInfoAddr 0x358"

text \<open>Two states with the same fields, the saved registers and the counters aside.\<close>

definition same_calls :: "loader \<Rightarrow> loader \<Rightarrow> bool" where
  "same_calls s t \<longleftrightarrow> (\<forall>f \<in> {RI_exitpc, RI_exit_cause, RI_syscall_info_addr, RI_nowcallnum,
     RI_totalcallnum}. peek f t = peek f s)"

lemma enter_takeover_spec:
  obtains t where "enter_takeover E s = (csr_cycle E (l_reads s), csr_instret E (l_reads s), t)"
    "agree (- page) (l_mem s) (l_mem t)" "same_calls s t" "l_f t = l_f s" "l_ucsr t = l_ucsr s"
    "\<And>i. 32 \<le> i \<Longrightarrow> l_x t i = l_x s i"
    "\<And>i. i < 32 \<Longrightarrow> peek (RI_intregs i) t = (if i = 10 then StoreIntRegAddr else xreg s i)"
    "peek RI_cycles t = peek RI_cycles s + (csr_cycle E (l_reads s) - peek RI_lastcycles s)"
    "peek RI_insts t = peek RI_insts s + (csr_instret E (l_reads s) - peek RI_lastinsts s)"
    "peek RI_startcycles t = peek RI_startcycles s" "peek RI_startinsts t = peek RI_startinsts s"
proof -
  obtain m where m: "Context_Operation sd StoreIntRegAddr s = s\<lparr>l_x := (l_x s)(10 := StoreIntRegAddr), l_mem := m\<rparr>"
    "\<And>i. i < 32 \<Longrightarrow> load64 m (StoreIntRegAddr + 8 * of_nat i) = (if i = 10 then StoreIntRegAddr else xreg s i)"
    "\<And>x. x \<notin> span StoreIntRegAddr 256 \<Longrightarrow> m x = l_mem s x"
    using store_context [of StoreIntRegAddr s] by auto
  have far: "load64 m a = load64 (l_mem s) a"
    if "unat a + 8 \<le> 0x150028 \<or> 0x150128 \<le> unat a" "unat a + 8 \<le> 2 ^ 64" for a
    using that by (intro load_le_span m(3)) (auto simp: span_def)
  let ?s = "Load_necessary OldIntRegAddr (Context_Operation sd StoreIntRegAddr s)"
  have s: "?s = s\<lparr>l_mem := m, l_x := l_x ?s\<rparr>" "\<And>i. 32 \<le> i \<Longrightarrow> l_x ?s i = l_x s i"
    unfolding m(1) by (simp_all add: Load_necessary_def li_a0_def ld_def)
  have p: "peek a ?s = load64 m a" "l_mem ?s = m" "l_reads ?s = l_reads s" "l_f ?s = l_f s"
    "l_ucsr ?s = l_ucsr s" for a
    by (subst s(1), simp add: peek_def)+
  let ?c = "csr_cycle E (l_reads s)" and ?i = "csr_instret E (l_reads s)"
  let ?t = "poke RI_insts (peek RI_insts s + (?i - peek RI_lastinsts s))
              (poke RI_cycles (peek RI_cycles s + (?c - peek RI_lastcycles s))
                (?s\<lparr>l_reads := Suc (l_reads s)\<rparr>))"
  have "enter_takeover E s = (?c, ?i, ?t)"
    by (simp add: enter_takeover_def read_csrs_def p peek_poke_apart ri_defs Let_def)
       (simp add: peek_def far)
  moreover have "agree (- page) (l_mem s) (l_mem ?t)"
    unfolding agree_def
  proof
    fix x
    assume x: "x \<in> - page"
    then have "x \<notin> span RI_insts 8" "x \<notin> span RI_cycles 8" "x \<notin> span StoreIntRegAddr 256"
      by (auto simp: span_def ri_defs)
    then show "l_mem s x = l_mem ?t x"
      using m(3) by (simp add: p store_le_outside ri_defs)
  qed
  moreover have "same_calls s ?t"
    by (simp add: same_calls_def p peek_poke_apart ri_defs) (simp add: peek_def far)
  moreover have "peek (RI_intregs i) ?t = (if i = 10 then StoreIntRegAddr else xreg s i)" if "i < 32" for i
  proof -
    have "peek (RI_intregs i) ?t = peek (RI_intregs i) ?s"
      using that by (simp add: peek_slot_poke RI_insts_def RI_cycles_def)
    then show ?thesis
      using m(2) [OF that] by (simp add: p RI_intregs_def)
  qed
  ultimately show ?thesis
    using s(2) far by (intro that [of ?t]) (simp_all add: p peek_poke_apart ri_defs, simp_all add: peek_def)
qed

subsection \<open>The data of a call\<close>

lemma copy_call_data_spec:
  assumes A: "peek RI_syscall_info_addr s = A" and N: "unat A + N \<le> 2 ^ 64"
    and f: "info_fits N n A (l_mem s) info" and c: "c = decode_call A (l_mem s) info"
    and apart: "span (c_buf c) (length (c_data c)) \<inter> span A N = {}"
    and wrap: "unat (c_buf c) + length (c_data c) \<le> 2 ^ 64"
  shows "copy_call_data info s = Inr (s\<lparr>l_mem := put_bytes (c_buf c) (c_data c) (l_mem s)\<rparr>)"
proof -
  let ?m = "l_mem s" let ?o = "call_offset ?m info" and ?n = "call_size ?m info" and ?b = "call_buf A ?m info"
  have none: ?thesis if "?o = 0xFFFFFFFF \<or> ?b = 0"
  proof -
    have "?b = 0"
      using that by (auto simp: call_buf_def)
    then have "put_bytes (c_buf c) (c_data c) ?m = ?m"
      by (simp add: c decode_call_def)
    then show ?thesis
      using that A by (auto simp: copy_call_data_def call_offset_def call_buf_def peek_def Let_def split: if_splits)
  qed
  have copy: ?thesis if o: "?o \<noteq> 0xFFFFFFFF" and b: "?b \<noteq> 0"
  proof -
    have fit: "unat ?o + 8 + ?n \<le> N" "?n < 2 ^ 31"
      using f o by (simp_all add: info_fits_def)
    have c': "c_buf c = ?b" "length (c_data c) = ?n" "\<And>i. i < ?n \<Longrightarrow> c_data c ! i = ?m (A + ?o + 8 + of_nat i)"
      using b by (simp_all add: c decode_call_def)
    let ?P = "\<lambda>j t. t = s\<lparr>l_mem := put_bytes ?b (take j (c_data c)) ?m\<rparr>"
    let ?body = "\<lambda>j t. Inr (t\<lparr>l_mem := (l_mem t)(?b + of_nat j := l_mem t (A + ?o + 8 + of_nat j))\<rparr>) :: stop + loader"
    have step: "\<exists>u. ?body j t = Inr u \<and> ?P (Suc j) u" if j: "j < ?n" and t: "?P j t" for j t
    proof -
      have "unat (A + ?o + 8 + of_nat j) = unat A + unat ?o + 8 + j"
        using j fit(1) N by (simp add: unat_word_ariths unat_of_nat64)
      then have "A + ?o + 8 + of_nat j \<in> span A N"
        using j fit(1) by (simp add: span_def)
      then have "A + ?o + 8 + of_nat j \<notin> span ?b (length (take j (c_data c)))"
        using apart c'(1,2) j in_spanI [of _ ?b j ?n] by auto
      then have "l_mem t (A + ?o + 8 + of_nat j) = c_data c ! j"
        using t c' wrap j by (simp add: put_bytes_outside)
      then show ?thesis
        using t j c'(2) by (simp add: take_Suc_conv_app_nth put_bytes_snoc)
    qed
    have "\<exists>t. for_int (\<lambda>_. of_nat ?n) ?body 0 s = Inr t \<and> ?P ?n t"
    proof (rule for_int_rule [where P = ?P])
      show "\<exists>u. ?body j t = Inr u \<and> ?P (Suc j) u" if "0 \<le> j" "j < ?n" "?P j t" for j t
        using that(2,3) by (rule step)
    qed (use fit(2) in simp_all)
    then have "for_int (\<lambda>_. of_nat ?n) ?body 0 s = Inr (s\<lparr>l_mem := put_bytes ?b (c_data c) ?m\<rparr>)"
      using c'(2) by simp
    then show ?thesis
      using o b A c'(1)
      by (simp add: copy_call_data_def call_offset_def call_buf_def call_size_def peek_def Let_def)
  qed
  show ?thesis
    using none copy by blast
qed

subsection \<open>The program, and what a recorded call does to it\<close>

record program =
  p_x :: "nat \<Rightarrow> u64"
  p_f :: "nat \<Rightarrow> u64"
  p_pc :: u64
  p_mem :: mem

definition hide :: "u64 set \<Rightarrow> mem \<Rightarrow> mem" where
  "hide R m = (\<lambda>x. if x \<in> R then 0 else m x)"

definition program_of :: "u64 \<Rightarrow> nat \<Rightarrow> loader \<Rightarrow> program" where
  "program_of A N s = \<lparr>p_x = xreg s, p_f = l_f s, p_pc = l_pc s, p_mem = hide (area A N) (l_mem s)\<rparr>"

definition answer :: "recorded_call \<Rightarrow> program \<Rightarrow> program" where
  "answer c p = p\<lparr>p_x := (p_x p)(10 := if c_hasret c then c_ret c else c_p0 c), p_pc := c_pc c + 4,
     p_mem := put_bytes (c_buf c) (c_data c) (p_mem p)\<rparr>"

definition plant_exit :: "u64 \<Rightarrow> program \<Rightarrow> program" where
  "plant_exit a p = p\<lparr>p_mem := store_le 4 (p_mem p) a ECall_Replace\<rparr>"

lemma hide_put_bytes:
  assumes "span b (length bs) \<inter> R = {}" "unat b + length bs \<le> 2 ^ 64"
  shows "hide R (put_bytes b bs m) = put_bytes b bs (hide R m)"
proof
  fix x
  show "hide R (put_bytes b bs m) x = put_bytes b bs (hide R m) x"
  proof (cases "x \<in> span b (length bs)")
    case True
    then obtain i where "i < length bs" "x = b + of_nat i"
      by (rule spanE)
    moreover have "x \<notin> R"
      using True assms(1) by blast
    ultimately show ?thesis
      using assms(2) by (simp add: hide_def put_bytes_inside)
  next
    case False
    then show ?thesis
      using assms(2) by (simp add: hide_def put_bytes_outside)
  qed
qed

lemma hide_store:
  assumes "span b k \<inter> R = {}" "unat b + k \<le> 2 ^ 64" "k \<le> 8"
  shows "hide R (store_le k m b v) = store_le k (hide R m) b v"
proof
  fix x
  show "hide R (store_le k m b v) x = store_le k (hide R m) b v x"
  proof (cases "x \<in> span b k")
    case True
    then obtain i where "i < k" "x = b + of_nat i"
      by (rule spanE)
    moreover have "x \<notin> R"
      using True assms(1) by blast
    ultimately show ?thesis
      using assms(3) by (simp add: hide_def store_le_same)
  next
    case False
    then show ?thesis
      using assms(2) by (simp add: hide_def store_le_outside)
  qed
qed

lemma hide_agree: "agree (- R) m m' \<Longrightarrow> hide R m = hide R m'"
  by (auto simp: hide_def agree_def)

text \<open>
  The table has been taken up to call \<open>k\<close>, and what its calls write, and the word at the exit,
  stays out of the area of the loader.
\<close>

definition clear_of :: "u64 \<Rightarrow> nat \<Rightarrow> u64 \<Rightarrow> nat \<Rightarrow> bool" where
  "clear_of A N a k \<longleftrightarrow> unat a + k \<le> 2 ^ 64 \<and> span a k \<inter> area A N = {}"

definition ready :: "u64 \<Rightarrow> nat \<Rightarrow> nat \<Rightarrow> nat \<Rightarrow> loader \<Rightarrow> bool" where
  "ready A N n k s \<longleftrightarrow> peek RI_syscall_info_addr s = A \<and> peek RI_totalcallnum s = of_nat n \<and>
     peek RI_nowcallnum s = of_nat k \<and> k \<le> n \<and> table_ok A N n (l_mem s) \<and>
     (peek RI_exit_cause s = Cause_ExitInst \<longrightarrow> clear_of A N (peek RI_exitpc s) 4) \<and>
     (\<forall>j < n. clear_of A N (c_buf (recorded A n (l_mem s) j)) (length (c_data (recorded A n (l_mem s) j))))"

text \<open>Memory in which only the page differs, and the fields of the calls do not.\<close>

lemma agree_table: "agree (- page) m m' \<Longrightarrow> table_ok A N n m \<Longrightarrow> agree (span A N) m m'"
  by (fastforce simp: agree_def table_ok_def span_def)

lemma ready_cong:
  assumes r: "ready A N n k s" and a: "agree (span A N) (l_mem s) (l_mem t)" and c: "same_calls s t"
  shows "ready A N n k t" "j < n \<Longrightarrow> recorded A n (l_mem t) j = recorded A n (l_mem s) j"
    "k < n \<Longrightarrow> syscall_info A (of_nat n) (l_mem t) (of_nat k) = syscall_info A (of_nat n) (l_mem s) (of_nat k)"
proof -
  have t: "table_ok A N n (l_mem s)"
    using r by (simp add: ready_def)
  show R: "recorded A n (l_mem t) j = recorded A n (l_mem s) j" if "j < n" for j
    using recorded_agree(2) [OF a t that] .
  show "ready A N n k t"
    using r c recorded_agree(1) [OF a t] R by (simp add: ready_def same_calls_def)
  show "k < n \<Longrightarrow> syscall_info A (of_nat n) (l_mem t) (of_nat k) = syscall_info A (of_nat n) (l_mem s) (of_nat k)"
    by (rule recorded_agree(3) [OF a t])
qed

subsection \<open>The end of a takeover\<close>

lemma agree_refl [simp]: "agree R m m"
  by (simp add: agree_def)

lemma agree_trans: "agree R m m' \<Longrightarrow> agree R m' m'' \<Longrightarrow> agree R m m''"
  by (simp add: agree_def)

lemma agree_poke:
  "0x150000 \<le> unat a \<Longrightarrow> unat a \<le> 0x150350 \<Longrightarrow> agree (- page) (l_mem s) (l_mem (poke a v s))"
  unfolding agree_def l_mem_poke by (intro ballI, rule sym, rule store_le_outside) (auto simp: span_def)

lemma agree_store: "agree R m m' \<Longrightarrow> agree R (store_le k m a v) (store_le k m' a v)"
  by (induction k arbitrary: m m' a v) (simp_all add: agree_def)

lemma agree_put: "agree R m m' \<Longrightarrow> agree R (put_bytes a bs m) (put_bytes a bs m')"
  by (induction bs arbitrary: m m' a) (simp_all add: agree_def)

lemma clear_outside: "clear_of A N a k \<Longrightarrow> x \<in> area A N \<Longrightarrow> x \<notin> span a k"
  by (auto simp: clear_of_def)

lemma clear_store: "clear_of A N a k \<Longrightarrow> agree (area A N) m (store_le k m a v)"
  unfolding agree_def
  by (intro ballI, rule sym, intro store_le_outside clear_outside) (simp_all add: clear_of_def)

lemma clear_put: "clear_of A N a (length bs) \<Longrightarrow> agree (area A N) m (put_bytes a bs m)"
  unfolding agree_def
  by (intro ballI, rule sym, intro put_bytes_outside clear_outside) (simp_all add: clear_of_def)

lemma agree_peek:
  assumes "agree (area A N) (l_mem s) (l_mem t)" and "0x150000 \<le> unat a" "unat a \<le> 0x150350"
  shows "peek a t = peek a s"
proof -
  have "agree page (l_mem s) (l_mem t)"
    using assms(1) by (simp add: agree_def area_def)
  from agree_load [OF this, of a 8] show ?thesis
    using assms(2,3) by (simp add: peek_def)
qed

lemma agree_area: "agree (area A N) m m' \<Longrightarrow> agree (span A N) m m'"
  by (simp add: agree_def area_def)

lemma ready_info: "ready A N n k s \<Longrightarrow> k < n \<Longrightarrow>
    info_fits N n A (l_mem s) (syscall_info A (of_nat n) (l_mem s) (of_nat k)) \<and> unat A + N \<le> 2 ^ 64"
  by (simp add: ready_def table_ok_def)

lemma ready_count: "ready A N n k s \<Longrightarrow> unat (of_nat k :: u64) = k \<and> unat (of_nat n :: u64) = n \<and> n < 2 ^ 62"
  by (auto simp: ready_def table_ok_def intro!: unat_of_nat64)

lemma finish_call_spec:
  assumes r: "ready A N n k s" and k: "k < n" and info: "info = syscall_info A (of_nat n) (l_mem s) (of_nat k)"
    and c: "c = recorded A n (l_mem s) k"
    and last: "exits \<longleftrightarrow> Suc k = n \<and> peek RI_exit_cause s = Cause_ExitInst"
    and t: "t = finish_call E info s"
  shows "l_ucsr t = (l_ucsr s)(11 := c_pc c + 4)" "l_pc t = c_pc c + 4" "l_f t = l_f s"
    "xreg t i = (if i = 10 \<and> c_hasret c then c_ret c else if i = 0 then 0
       else if i < 32 then peek (RI_intregs i) s else l_x s i)"
    "agree (- page) (if exits then store_le 4 (l_mem s) (peek RI_exitpc s) ECall_Replace else l_mem s) (l_mem t)"
    "ready A N n (Suc k) t" "j < n \<Longrightarrow> recorded A n (l_mem t) j = recorded A n (l_mem s) j"
    "peek RI_exitpc t = peek RI_exitpc s" "peek RI_exit_cause t = peek RI_exit_cause s"
proof -
  have f: "info_fits N n A (l_mem s) info" and N: "unat A + N \<le> 2 ^ 64"
    using ready_info [OF r k] by (simp_all add: info)
  have T: "table_ok A N n (l_mem s)"
    using r by (simp add: ready_def)
  let ?s1 = "if c_hasret c then poke (RI_intregs 10) (c_ret c) s else s"
  let ?s2 = "poke RI_nowcallnum (of_nat (Suc k)) ?s1"
  let ?s3 = "if exits then ?s2\<lparr>l_mem := store_le 4 (l_mem ?s2) (peek RI_exitpc s) ECall_Replace\<rparr> else ?s2"
  let ?s4 = "poke RI_lastinsts (csr_instret E (l_reads s)) (poke RI_lastcycles (csr_cycle E (l_reads s))
      ((SetTempReg (c_pc c + 4) 2 ?s3)\<lparr>l_reads := Suc (l_reads s)\<rparr>))"
  have a1: "agree (- page) (l_mem s) (l_mem ?s1)"
    using agree_poke [of "RI_intregs 10"] by (simp add: unat_RI_intregs del: l_mem_poke)
  moreover have "agree (- page) (l_mem ?s1) (l_mem ?s2)"
    by (rule agree_poke) (simp_all add: RI_nowcallnum_def)
  ultimately have a2: "agree (- page) (l_mem s) (l_mem ?s2)"
    by (rule agree_trans)
  have A: "agree (span A N) (l_mem s) (l_mem u)" if "agree (- page) (l_mem s) (l_mem u)" for u
    using that T by (rule agree_table)
  have I: "peek (info + of_nat j) u = peek (info + of_nat j) s"
    if "agree (span A N) (l_mem s) (l_mem u)" "j \<le> 32" for u j
    using agree_info [OF that(1) f N that(2)] by (simp add: peek_def)
  have P: "peek g ?s1 = peek g s" if "g \<in> {RI_exitpc, RI_exit_cause, RI_syscall_info_addr, RI_nowcallnum, RI_totalcallnum}" for g
    using that by (auto simp: ri_defs peek_poke_apart)
  have C: "c_hasret c \<longleftrightarrow> peek (info + 32) s mod 256 \<noteq> 0" "c_ret c = peek (info + 24) s" "c_pc c = peek info s"
    by (simp_all add: c recorded_def decode_call_def info peek_def)
  have s2: "peek RI_nowcallnum ?s2 = of_nat (Suc k)" "peek RI_totalcallnum ?s2 = of_nat n"
    "peek RI_exit_cause ?s2 = peek RI_exit_cause s" "peek RI_exitpc ?s2 = peek RI_exitpc s"
    "peek RI_syscall_info_addr ?s2 = A"
    using r P [of RI_totalcallnum] P [of RI_exit_cause] P [of RI_exitpc] P [of RI_syscall_info_addr]
    by (simp_all add: ready_def peek_poke_apart RI_nowcallnum_def RI_totalcallnum_def RI_exit_cause_def
        RI_exitpc_def RI_syscall_info_addr_def)
  have "Suc k < 2 ^ 64"
    using ready_count [OF r] k by simp
  from unat_of_nat64 [OF this] have n: "unat (of_nat (Suc k) :: u64) = Suc k" "unat (of_nat n :: u64) = n"
    using ready_count [OF r] by blast+
  have ex: "exits \<longleftrightarrow> peek RI_nowcallnum ?s2 = peek RI_totalcallnum ?s2 \<and> peek RI_exit_cause ?s2 = Cause_ExitInst"
    unfolding s2 last by (metis n)
  have a3: "agree (span A N) (l_mem s) (l_mem ?s3)"
  proof (cases exits)
    case True
    then have "clear_of A N (peek RI_exitpc s) 4"
      using r last by (simp add: ready_def)
    from agree_area [OF clear_store [OF this]] show ?thesis
      using A [OF a2] True by (auto intro: agree_trans)
  next
    case False
    then show ?thesis
      using A [OF a2] by (simp only: if_False)
  qed
  have t4: "t = JmpTempReg 2 (Context_Operation ld StoreIntRegAddr ?s4)"
  proof -
    have now: "peek RI_nowcallnum ?s1 + 1 = of_nat (Suc k)"
      using r P [of RI_nowcallnum] by (simp add: ready_def)
    have pc: "peek (info + 0) ?s3 = c_pc c"
      using I [OF a3, of 0] C(3) by simp
    have rd: "l_reads ?s3 = l_reads s"
      by simp
    show ?thesis
      unfolding t finish_call_def Let_def C(1,2) [symmetric] now ex [symmetric] s2(4) pc read_csrs_def prod.case
      by (simp add: SetTempReg_def set_ucsr_def)
  qed
  show "l_pc t = c_pc c + 4" "l_ucsr t = (l_ucsr s)(11 := c_pc c + 4)" "l_f t = l_f s"
    unfolding t4 load_context by (simp_all add: JmpTempReg_def SetTempReg_def set_ucsr_def)
  have m4: "l_mem t = l_mem ?s4"
    unfolding t4 load_context by (simp add: JmpTempReg_def)
  have p4: "peek g ?s4 = peek g ?s3" if "unat g + 8 \<le> 0x150338" for g
    using that by (simp add: peek_poke_apart RI_lastinsts_def RI_lastcycles_def SetTempReg_def set_ucsr_def)
  have p3: "peek g ?s3 = peek g ?s2" if "0x150000 \<le> unat g" "unat g \<le> 0x150350" for g
  proof (cases exits)
    case True
    then have "clear_of A N (peek RI_exitpc s) 4"
      using r last by (simp add: ready_def)
    from agree_peek [OF _ that, of A N ?s2 ?s3] clear_store [OF this] True show ?thesis
      by simp
  qed simp
  have slots: "peek (RI_intregs j) ?s4 = (if j = 10 \<and> c_hasret c then c_ret c else peek (RI_intregs j) s)" if "j < 32" for j
    using that by (simp add: p4 p3 unat_RI_intregs) (simp add: peek_slot_poke slot_eq RI_nowcallnum_def)
  have L: "l_x t j = (if j < 32 then peek (RI_intregs j) ?s4 else l_x s j)" for j
    unfolding t4 load_context by (simp add: JmpTempReg_def SetTempReg_def set_ucsr_def RI_intregs_def)
  show "xreg t i = (if i = 10 \<and> c_hasret c then c_ret c else if i = 0 then 0
       else if i < 32 then peek (RI_intregs i) s else l_x s i)"
  proof (cases "i < 32")
    case True
    then show ?thesis
      unfolding xreg_def L if_P [OF True] slots [OF True] by auto
  next
    case False
    then show ?thesis
      unfolding xreg_def L if_not_P [OF False] by auto
  qed
  have a34: "agree (- page) (l_mem ?s3) (l_mem ?s4)"
  proof -
    let ?u = "(SetTempReg (c_pc c + 4) 2 ?s3)\<lparr>l_reads := Suc (l_reads s)\<rparr>"
    have u: "l_mem ?u = l_mem ?s3"
      by (simp add: SetTempReg_def set_ucsr_def)
    have "agree (- page) (l_mem ?u) (l_mem (poke RI_lastcycles (csr_cycle E (l_reads s)) ?u))"
      by (rule agree_poke) (simp_all add: RI_lastcycles_def)
    moreover have "agree (- page) (l_mem (poke RI_lastcycles (csr_cycle E (l_reads s)) ?u)) (l_mem ?s4)"
      by (rule agree_poke) (simp_all add: RI_lastinsts_def)
    ultimately have "agree (- page) (l_mem ?u) (l_mem ?s4)"
      by (rule agree_trans)
    then show ?thesis
      by (simp only: u)
  qed
  have a24: "agree (- page) (if exits then store_le 4 (l_mem s) (peek RI_exitpc s) ECall_Replace else l_mem s) (l_mem ?s3)"
    using a2 by (simp add: agree_store)
  from agree_trans [OF a24 a34] show "agree (- page) (if exits then store_le 4 (l_mem s) (peek RI_exitpc s) ECall_Replace else l_mem s) (l_mem t)"
    by (simp only: m4)
  have a: "agree (span A N) (l_mem s) (l_mem t)"
    using agree_trans [OF a3 agree_table [OF a34 recorded_agree(1) [OF a3 T]]] by (simp only: m4)
  show R: "recorded A n (l_mem t) j = recorded A n (l_mem s) j" if "j < n" for j
    using recorded_agree(2) [OF a T that] .
  have pt: "peek g t = peek g ?s2" if "0x150000 \<le> unat g" "unat g + 8 \<le> 0x150338" for g
  proof -
    have "peek g t = peek g ?s4"
      by (simp only: peek_def m4)
    then show ?thesis
      using p4 p3 that by simp
  qed
  show "peek RI_exitpc t = peek RI_exitpc s" "peek RI_exit_cause t = peek RI_exit_cause s"
    using pt s2(3,4) by (simp_all only: RI_exitpc_def RI_exit_cause_def) simp_all
  moreover have "peek RI_nowcallnum t = of_nat (Suc k)" "peek RI_totalcallnum t = of_nat n"
    "peek RI_syscall_info_addr t = A"
    using pt s2(1,2,5) by (simp_all only: RI_nowcallnum_def RI_totalcallnum_def RI_syscall_info_addr_def) simp_all
  ultimately show "ready A N n (Suc k) t"
    using r k recorded_agree(1) [OF a T] R by (simp add: ready_def)
qed

subsection \<open>A whole takeover\<close>

definition after_call :: "u64 \<Rightarrow> nat \<Rightarrow> nat \<Rightarrow> nat \<Rightarrow> loader \<Rightarrow> program" where
  "after_call A N n k s =
     (let p = answer (recorded A n (l_mem s) k) (program_of A N s)
      in if Suc k = n \<and> peek RI_exit_cause s = Cause_ExitInst then plant_exit (peek RI_exitpc s) p else p)"

lemma same_calls_area: "agree (area A N) (l_mem s) (l_mem t) \<Longrightarrow> same_calls s t"
  by (simp add: same_calls_def agree_peek ri_defs)

lemma hide_page: "agree (- page) m m' \<Longrightarrow> hide (area A N) m = hide (area A N) m'"
  by (rule hide_agree) (simp add: agree_def area_def)

lemma takeover_ends:
  assumes r: "ready A N n n s"
  shows "takeoverSyscall E s = Inl (Calls_exhausted
     (peek RI_cycles s + (csr_cycle E (l_reads s) - peek RI_lastcycles s))
     (peek RI_insts s + (csr_instret E (l_reads s) - peek RI_lastinsts s))
     (csr_cycle E (l_reads s) - peek RI_startcycles s) (csr_instret E (l_reads s) - peek RI_startinsts s))"
proof -
  obtain t where t: "enter_takeover E s = (csr_cycle E (l_reads s), csr_instret E (l_reads s), t)"
    "same_calls s t" "peek RI_cycles t = peek RI_cycles s + (csr_cycle E (l_reads s) - peek RI_lastcycles s)"
    "peek RI_insts t = peek RI_insts s + (csr_instret E (l_reads s) - peek RI_lastinsts s)"
    "peek RI_startcycles t = peek RI_startcycles s" "peek RI_startinsts t = peek RI_startinsts s"
    by (rule enter_takeover_spec)
  moreover have "peek RI_nowcallnum t = peek RI_totalcallnum t"
    using r t(2) by (simp add: ready_def same_calls_def)
  ultimately show ?thesis
    by (simp add: takeoverSyscall_def)
qed

lemma takeover_call:
  assumes r: "ready A N n k s" and k: "k < n" and c: "c = recorded A n (l_mem s) k"
  shows "xreg s 17 \<noteq> c_num c \<Longrightarrow> takeoverSyscall E s = Inl (Wrong_number (xreg s 17) (c_pc c) (c_num c))"
    "xreg s 17 = c_num c \<Longrightarrow> \<exists>t. takeoverSyscall E s = Inr t \<and> program_of A N t = after_call A N n k s \<and>
       ready A N n (Suc k) t \<and> l_ucsr t = (l_ucsr s)(11 := c_pc c + 4) \<and>
       (\<forall>j < n. recorded A n (l_mem t) j = recorded A n (l_mem s) j) \<and>
       peek RI_exitpc t = peek RI_exitpc s \<and> peek RI_exit_cause t = peek RI_exit_cause s"
proof -
  obtain u where u: "enter_takeover E s = (csr_cycle E (l_reads s), csr_instret E (l_reads s), u)"
    "agree (- page) (l_mem s) (l_mem u)" "same_calls s u" "l_f u = l_f s" "l_ucsr u = l_ucsr s"
    "\<And>i. 32 \<le> i \<Longrightarrow> l_x u i = l_x s i"
    "\<And>i. i < 32 \<Longrightarrow> peek (RI_intregs i) u = (if i = 10 then StoreIntRegAddr else xreg s i)"
    by (rule enter_takeover_spec [of E s], rule that)
  have T: "table_ok A N n (l_mem s)"
    using r by (simp add: ready_def)
  have su: "agree (span A N) (l_mem s) (l_mem u)"
    using u(2) T by (rule agree_table)
  note ru = ready_cong [OF r su u(3)]
  let ?info = "syscall_info A (of_nat n) (l_mem s) (of_nat k)"
  let ?v = "poke (RI_intregs 10) (c_p0 c) u"
  have uv: "agree (- page) (l_mem u) (l_mem ?v)"
    by (rule agree_poke) (simp_all add: unat_RI_intregs)
  have uv': "same_calls u ?v"
    by (simp add: same_calls_def ri_defs peek_poke_apart)
  have "table_ok A N n (l_mem u)"
    using ru(1) by (simp add: ready_def)
  from agree_table [OF uv this] have sv: "agree (span A N) (l_mem u) (l_mem ?v)" .
  note rv = ready_cong [OF ru(1) sv uv']
  have f: "info_fits N n A (l_mem s) ?info" and N: "unat A + N \<le> 2 ^ 64"
    using ready_info [OF r k] by simp_all
  have pu: "peek (?info + of_nat j) u = peek (?info + of_nat j) s" if "j \<le> 32" for j
    using agree_info [OF su f N that] by (simp add: peek_def)
  have pv: "peek (?info + of_nat j) ?v = peek (?info + of_nat j) s" if "j \<le> 32" for j
    using agree_info [OF agree_trans [OF su sv] f N that] by (simp add: peek_def)
  have C: "c_p0 c = peek (?info + 16) s" "c_num c = drop_bit 32 (peek (?info + 8) s)" "c_pc c = peek (?info + 0) s"
    by (simp_all add: c recorded_def decode_call_def peek_def)
  have less: "\<not> peek RI_totalcallnum u \<le> peek RI_nowcallnum u"
    using ru(1) ready_count [OF r] k by (simp add: ready_def word_le_nat_alt)
  have x17: "peek (RI_intregs 17) ?v = xreg s 17"
    using u(7) [of 17] by (simp add: slot_eq)
  have run: "takeoverSyscall E s =
     (if xreg s 17 \<noteq> c_num c then Inl (Wrong_number (xreg s 17) (c_pc c) (c_num c))
      else and_then (copy_call_data ?info ?v) (\<lambda>s. Inr (finish_call E ?info s)))"
  proof -
    have i: "syscall_info (peek RI_syscall_info_addr u) (peek RI_totalcallnum u) (l_mem u) (peek RI_nowcallnum u) = ?info"
      using ru(1) ru(3) k by (simp add: ready_def)
    have "peek (?info + 16) u = c_p0 c" "peek (?info + 8) ?v = peek (?info + 8) s" "peek (?info + 0) ?v = peek (?info + 0) s"
      using pu [of 16] pv [of 8] pv [of 0] C(1) by simp_all
    then show ?thesis
      using less by (simp only: takeoverSyscall_def u(1) prod.case Let_def if_False i x17 C(2,3))
  qed
  show "takeoverSyscall E s = Inl (Wrong_number (xreg s 17) (c_pc c) (c_num c))" if "xreg s 17 \<noteq> c_num c"
    using that by (simp add: run)
  assume ok: "xreg s 17 = c_num c"
  let ?w = "?v\<lparr>l_mem := put_bytes (c_buf c) (c_data c) (l_mem ?v)\<rparr>"
  have cv: "c = recorded A n (l_mem ?v) k" "?info = syscall_info A (of_nat n) (l_mem ?v) (of_nat k)"
    using rv(2,3) ru(2,3) k by (simp_all add: c)
  have cl: "clear_of A N (c_buf c) (length (c_data c))"
    using rv(1) k unfolding ready_def by (metis cv(1))
  have copy: "copy_call_data ?info ?v = Inr ?w"
  proof (rule copy_call_data_spec [OF _ N])
    show "peek RI_syscall_info_addr ?v = A"
      using rv(1) by (simp add: ready_def)
    show "info_fits N n A (l_mem ?v) ?info"
      using ready_info [OF rv(1) k] cv(2) by simp
    show "c = decode_call A (l_mem ?v) ?info"
      using cv by (simp add: recorded_def)
    show "span (c_buf c) (length (c_data c)) \<inter> span A N = {}" "unat (c_buf c) + length (c_data c) \<le> 2 ^ 64"
      using cl by (auto simp: clear_of_def area_def)
  qed
  have vw: "agree (area A N) (l_mem ?v) (l_mem ?w)"
    using clear_put [OF cl] by simp
  note rw = ready_cong [OF rv(1) agree_area [OF vw] same_calls_area [OF vw]]
  let ?t = "finish_call E ?info ?w"
  let ?e = "Suc k = n \<and> peek RI_exit_cause ?w = Cause_ExitInst"
  have iw: "?info = syscall_info A (of_nat n) (l_mem ?w) (of_nat k)" and cw: "c = recorded A n (l_mem ?w) k"
    using rw(2,3) k cv by simp_all
  note F = finish_call_spec [OF rw(1) k iw cw refl refl]
  have same: "peek RI_exitpc ?w = peek RI_exitpc s" "peek RI_exit_cause ?w = peek RI_exit_cause s"
    using u(3) uv' same_calls_area [OF vw] by (simp_all add: same_calls_def)
  have M1: "hide (area A N) (l_mem ?w) = put_bytes (c_buf c) (c_data c) (hide (area A N) (l_mem s))"
    using cl hide_put_bytes [of "c_buf c" "c_data c" "area A N"] hide_page [OF u(2)] hide_page [OF uv]
    by (simp add: clear_of_def)
  have M2: "hide (area A N) (l_mem ?t) = hide (area A N)
      (if ?e then store_le 4 (l_mem ?w) (peek RI_exitpc ?w) ECall_Replace else l_mem ?w)"
    using hide_page [OF F(5)] by simp
  have M3: "hide (area A N) (store_le 4 (l_mem ?w) (peek RI_exitpc ?w) ECall_Replace) =
      store_le 4 (hide (area A N) (l_mem ?w)) (peek RI_exitpc ?w) ECall_Replace" if ?e
    using rw(1) that by (intro hide_store) (simp_all add: ready_def clear_of_def)
  have X: "xreg ?t i = ((xreg s)(10 := if c_hasret c then c_ret c else c_p0 c)) i" for i
  proof -
    have "peek (RI_intregs i) ?w = (if i = 10 then c_p0 c else xreg s i)" if i: "i < 32"
    proof -
      have "peek (RI_intregs i) ?w = peek (RI_intregs i) ?v"
        using i by (intro agree_peek [OF vw]) (simp_all add: unat_RI_intregs)
      then show ?thesis
        using i u(7) [OF i] by (simp add: slot_eq)
    qed
    then show ?thesis
      unfolding F(4) using u(6) [of i] by (auto simp: xreg_def)
  qed
  let ?p = "answer c (program_of A N s)"
  have "l_f ?t = l_f s"
    using F(3) u(4) by simp
  then have "program_of A N ?t = ?p\<lparr>p_mem := hide (area A N) (l_mem ?t)\<rparr>"
    unfolding program_of_def answer_def F(2) ext [of "xreg ?t", OF X] by simp
  also have "\<dots> = (if ?e then plant_exit (peek RI_exitpc s) ?p else ?p)"
    using M1 M3 unfolding M2 same by (simp add: program_of_def answer_def plant_exit_def)
  finally have "program_of A N ?t = after_call A N n k s"
    by (simp only: after_call_def c [symmetric] same(2) Let_def)
  then show "\<exists>t. takeoverSyscall E s = Inr t \<and> program_of A N t = after_call A N n k s \<and>
       ready A N n (Suc k) t \<and> l_ucsr t = (l_ucsr s)(11 := c_pc c + 4) \<and>
       (\<forall>j < n. recorded A n (l_mem t) j = recorded A n (l_mem s) j) \<and>
       peek RI_exitpc t = peek RI_exitpc s \<and> peek RI_exit_cause t = peek RI_exit_cause s"
    using F(1,6-9) same ok u(5) rw(2) rv(2) ru(2) by (intro exI [of _ ?t]) (simp add: run copy)
qed

end
