(* ===== verification/CkptRun.thy ===== *)
theory CkptRun
  imports CkptReplay
begin

text \<open>
  Runs of a restored program.  \<open>replay_run\<close> lets the processor execute the program, and at a
  replaced instruction jump through the fourth added register; the trace of a run is what the
  program asked for and what it got back.  The properties say that the trace is the record.
\<close>

subsection \<open>Runs\<close>

text \<open>
  \<open>user\<close> is the processor on an instruction of the program; it leaves the added registers and the
  area of the loader alone.
\<close>

definition user_keeps :: "u64 \<Rightarrow> nat \<Rightarrow> (loader \<Rightarrow> loader \<Rightarrow> bool) \<Rightarrow> bool" where
  "user_keeps A N user \<longleftrightarrow>
     (\<forall>s t. user s t \<longrightarrow> agree (area A N) (l_mem s) (l_mem t) \<and> l_ucsr t = l_ucsr s)"

text \<open>A step onto a replaced instruction: the jump to the address in the fourth register.\<close>

definition taken_over :: "ckpt_env \<Rightarrow> loader \<Rightarrow> bool" where
  "taken_over E s \<longleftrightarrow> load_le 4 (l_mem s) (l_pc s) = ECall_Replace \<and> l_pc (JmpTempReg 3 s) = takeOverAddr E"

type_synonym event = "u64 \<times> u64 \<times> u64"

inductive replay_run :: "ckpt_env \<Rightarrow> (loader \<Rightarrow> loader \<Rightarrow> bool) \<Rightarrow> loader \<Rightarrow> event list \<Rightarrow> loader \<Rightarrow> bool"
  for E user s where
  run_start: "replay_run E user s [] s"
| run_user: "replay_run E user s tr t \<Longrightarrow> user t u \<Longrightarrow> replay_run E user s tr u"
| run_call: "replay_run E user s tr t \<Longrightarrow> taken_over E t \<Longrightarrow> takeoverSyscall E (JmpTempReg 3 t) = Inr u \<Longrightarrow>
     replay_run E user s (tr @ [(xreg t 17, xreg u 10, l_pc u)]) u"

definition event_of :: "recorded_call \<Rightarrow> event" where
  "event_of c = (c_num c, if c_hasret c then c_ret c else c_p0 c, c_pc c + 4)"

lemma JmpTempReg_simps [simp]:
  "l_mem (JmpTempReg j s) = l_mem s" "l_ucsr (JmpTempReg j s) = l_ucsr s" "xreg (JmpTempReg j s) i = xreg s i"
  "peek a (JmpTempReg j s) = peek a s" "l_reads (JmpTempReg j s) = l_reads s"
  "ready A N n k (JmpTempReg j s) = ready A N n k s"
  by (simp_all add: JmpTempReg_def xreg_def peek_def ready_def)

lemma user_ready:
  assumes "user_keeps A N user" "user s t" "ready A N n k s"
  shows "ready A N n k t" "j < n \<Longrightarrow> recorded A n (l_mem t) j = recorded A n (l_mem s) j"
proof -
  have "agree (area A N) (l_mem s) (l_mem t)"
    using assms(1,2) by (simp add: user_keeps_def)
  from ready_cong [OF assms(3) agree_area [OF this] same_calls_area [OF this]]
  show "ready A N n k t" "j < n \<Longrightarrow> recorded A n (l_mem t) j = recorded A n (l_mem s) j"
    by blast+
qed

lemma takeover_event:
  assumes r: "ready A N n k s" and t: "takeoverSyscall E s = Inr t"
  shows "k < n" "(xreg s 17, xreg t 10, l_pc t) = event_of (recorded A n (l_mem s) k)" "ready A N n (Suc k) t"
    "j < n \<Longrightarrow> recorded A n (l_mem t) j = recorded A n (l_mem s) j"
proof -
  have "k \<le> n"
    using r by (simp add: ready_def)
  moreover have "k \<noteq> n"
    using takeover_ends [of A N n s E] r t by auto
  ultimately show k: "k < n"
    by simp
  let ?c = "recorded A n (l_mem s) k"
  have x: "xreg s 17 = c_num ?c"
    using takeover_call(1) [OF r k refl] t by fastforce
  from takeover_call(2) [OF r k refl x, of E] t
  have t': "program_of A N t = after_call A N n k s" "ready A N n (Suc k) t"
    "\<forall>j < n. recorded A n (l_mem t) j = recorded A n (l_mem s) j"
    by auto
  show "ready A N n (Suc k) t" "j < n \<Longrightarrow> recorded A n (l_mem t) j = recorded A n (l_mem s) j"
    using t'(2,3) by simp_all
  have "xreg t 10 = p_x (program_of A N t) 10" "l_pc t = p_pc (program_of A N t)"
    by (simp_all add: program_of_def)
  then show "(xreg s 17, xreg t 10, l_pc t) = event_of ?c"
    by (simp add: t'(1) after_call_def answer_def plant_exit_def event_of_def x Let_def)
qed

lemma replay_run_record:
  assumes "replay_run E user s tr t" and "user_keeps A N user" and "ready A N n 0 s"
  shows "ready A N n (length tr) t \<and> tr = map (\<lambda>k. event_of (recorded A n (l_mem s) k)) [0..<length tr] \<and>
    (\<forall>j < n. recorded A n (l_mem t) j = recorded A n (l_mem s) j)"
  using assms
proof (induction rule: replay_run.induct)
  case (run_user tr t u)
  then show ?case
    using user_ready [of A N user t u n "length tr"] by auto
next
  case (run_call tr t u)
  then have r: "ready A N n (length tr) (JmpTempReg 3 t)"
    by simp
  from takeover_event [OF r run_call(3)] run_call show ?case
    by (auto simp: ready_def)
qed simp

subsection \<open>A checkpoint with one call\<close>

text \<open>
  A \<^verbatim>\<open>write\<close> at \<open>0x200000\<close> that returns 2 and fills two bytes at \<open>0x300000\<close>; the
  program ends at \<open>0x200010\<close>.
\<close>

definition demo_table :: mem where
  "demo_table = (store64 (store64 (store64 (store64 (store64 (store64 (store_le 4 (store64 (\<lambda>_. 0)
     0x2000000 1) 0x2000008 0) 0x200000C 0x200000) 0x2000014 0x4000000002) 0x200001C 5) 0x2000024 2)
     0x200002C 0x3401) 0x2000034 0x300000)(0x200003C := 7, 0x200003D := 9)"

definition demo_ckpt_mem :: mem where
  "demo_ckpt_mem = store_le 4 (store64 (store64 (store64 (store64 (store64 demo_table
     RI_exitpc 0x200010) RI_exit_cause 2) RI_syscall_info_addr 0x2000000) RI_nowcallnum 0)
     RI_totalcallnum 1) 0x200000 ECall_Replace"

definition demo_loader :: loader where
  "demo_loader = \<lparr>l_mem = demo_ckpt_mem, l_x = (\<lambda>i. if i = 17 then 64 else 0), l_f = (\<lambda>_. 0),
     l_ucsr = (\<lambda>_. 0)(12 := 0x10000), l_pc = 0x200000, l_exit_npc = 0, l_pfc = (\<lambda>_. 0), l_reads = 0,
     text_seg = \<lparr>mr_addr = 0, mr_size = 0\<rparr>, maxevent = 0, warmupinst = 0, eventsel = 0, maxperiod = 0,
     sampleHapTimes = 0, startcycle = 0, endcycle = 0, startinst = 0, endinst = 0, hpcounters = (\<lambda>_. 0)\<rparr>"

definition ckpt_demo_env :: ckpt_env where
  "ckpt_demo_env = \<lparr>os_mmap = (\<lambda>fixed a n m. (a, m)), os_file = (\<lambda>_. None), csr_cycle = of_nat, csr_instret = of_nat,
     own_x = (\<lambda>_. 0), takeOverAddr = 0x10000, sampleFucAddr = 0x11000, procTag = 0x1234567, tempStackMem = 0x12000\<rparr>"

lemma load_le_upd:
  "unat x < unat a \<or> unat a + n \<le> unat x \<Longrightarrow> unat a + n \<le> 2 ^ 64 \<Longrightarrow> load_le n (m(x := b)) a = load_le n m a"
  by (rule load_le_span) (auto simp: span_def)

lemma store_le_at: "unat x < unat a \<or> unat a + n \<le> unat x \<Longrightarrow> unat a + n \<le> 2 ^ 64 \<Longrightarrow> store_le n m a v x = m x"
  by (rule store_le_outside) (auto simp: span_def)

lemma demo_table_loads:
  "load64 demo_table 0x2000000 = 1" "load_le 4 demo_table 0x2000008 = 0"
  "load64 demo_table 0x200000C = 0x200000" "load64 demo_table 0x2000014 = 0x4000000002"
  "load64 demo_table 0x200001C = 5" "load64 demo_table 0x2000024 = 2" "load64 demo_table 0x200002C = 0x3401"
  "load64 demo_table 0x2000034 = 0x300000" "demo_table 0x200003C = 7" "demo_table 0x200003D = 9"
  by (simp_all add: demo_table_def load_store_apart load_le_upd store_le_at load_store_le)

lemma demo_loads:
  "load64 demo_ckpt_mem 0x150000 = 0x200010" "load64 demo_ckpt_mem 0x150008 = 2" "load64 demo_ckpt_mem 0x150010 = 0x2000000"
  "load64 demo_ckpt_mem 0x150018 = 0" "load64 demo_ckpt_mem 0x150020 = 1" "load_le 4 demo_ckpt_mem 0x200000 = ECall_Replace"
  by (simp_all add: demo_ckpt_mem_def load_store_apart load_store_le ri_defs ECall_Replace_def take_bit_eq_mod)

definition demo_call :: recorded_call where
  "demo_call = \<lparr>c_pc = 0x200000, c_num = 64, c_p0 = 5, c_ret = 2, c_hasret = True, c_buf = 0x300000, c_data = [7, 9]\<rparr>"

lemma demo_table_ok: "table_ok 0x2000000 62 (Suc 0) demo_table" "recorded 0x2000000 (Suc 0) demo_table 0 = demo_call"
  by (simp_all add: table_ok_def info_fits_def recorded_def syscall_info_def decode_call_def call_buf_def
      call_offset_def call_size_def demo_table_loads demo_call_def upt_rec)

lemma demo_agree: "agree (span 0x2000000 62) demo_table demo_ckpt_mem"
  unfolding agree_def demo_ckpt_mem_def by (auto simp: span_def ri_defs intro!: store_le_outside [symmetric] trans [OF _ store_le_outside [symmetric]])

lemma demo_recorded: "recorded 0x2000000 (Suc 0) demo_ckpt_mem 0 = demo_call" "table_ok 0x2000000 62 (Suc 0) demo_ckpt_mem"
  using recorded_agree(1) [OF demo_agree demo_table_ok(1)] recorded_agree(2) [OF demo_agree demo_table_ok(1), of 0]
    demo_table_ok(2) by simp_all

lemma demo_clear: "clear_of 0x2000000 62 0x200010 4" "clear_of 0x2000000 62 0x200000 4"
  "clear_of 0x2000000 62 0x300000 (Suc (Suc 0))"
  by (auto simp: clear_of_def area_def span_def)

lemma demo_ready: "ready 0x2000000 62 (Suc 0) 0 demo_loader"
proof -
  have m: "l_mem demo_loader = demo_ckpt_mem"
    by (simp add: demo_loader_def)
  have "peek a demo_loader = load64 demo_ckpt_mem a" for a
    by (simp add: peek_def m)
  then show ?thesis
    using demo_recorded(2) demo_clear
    by (simp add: ready_def m demo_recorded(1) demo_call_def) (simp add: ri_defs demo_loads)
qed

lemma demo_regs: "xreg demo_loader 17 = 64" "recorded 0x2000000 (Suc 0) (l_mem demo_loader) 0 = demo_call"
  "taken_over ckpt_demo_env demo_loader"
  by (simp_all add: demo_loader_def xreg_def demo_recorded taken_over_def JmpTempReg_def demo_loads ckpt_demo_env_def)

subsection \<open>Properties\<close>

text \<open>
  C7.  What \<open>takeoverSyscall\<close> does on a table of \<open>n\<close> recorded calls of which \<open>k\<close> have been taken.
  After the last it exits and reports the time and the instructions of the program, and on a call
  of another number than the recorded one it exits.  Otherwise it returns; for the program it has
  done exactly what was recorded: register 10 holds the recorded result, or the recorded first
  argument when the call has none, the recorded data is in the buffer, every other register and
  byte is as before, and the program goes on after the call.  After the last call it has also
  planted the jump at the exit of a checkpoint that ends at an instruction.  The record itself
  is as before, one call further.
\<close>

theorem takeover_replays_call:
  assumes "ready A N n k s" and "c = recorded A n (l_mem s) k"
  shows "if k = n then takeoverSyscall E s = Inl (Calls_exhausted
            (peek RI_cycles s + (csr_cycle E (l_reads s) - peek RI_lastcycles s))
            (peek RI_insts s + (csr_instret E (l_reads s) - peek RI_lastinsts s))
            (csr_cycle E (l_reads s) - peek RI_startcycles s)
            (csr_instret E (l_reads s) - peek RI_startinsts s))
         else if xreg s 17 \<noteq> c_num c then takeoverSyscall E s = Inl (Wrong_number (xreg s 17) (c_pc c) (c_num c))
         else \<exists>t. takeoverSyscall E s = Inr t \<and> ready A N n (Suc k) t \<and>
           program_of A N t =
             (if Suc k = n \<and> peek RI_exit_cause s = Cause_ExitInst
              then plant_exit (peek RI_exitpc s) (answer c (program_of A N s)) else answer c (program_of A N s)) \<and>
           l_ucsr t = (l_ucsr s)(11 := c_pc c + 4) \<and>
           (\<forall>j < n. recorded A n (l_mem t) j = recorded A n (l_mem s) j)"
proof (cases "k = n")
  case True
  then show ?thesis
    using takeover_ends assms(1) by simp
next
  case False
  then have k: "k < n"
    using assms(1) by (simp add: ready_def)
  show ?thesis
  proof (cases "xreg s 17 = c_num c")
    case True
    with takeover_call(2) [OF assms(1) k assms(2) True, of E] False show ?thesis
      by (auto simp: after_call_def assms(2) Let_def)
  qed (use takeover_call(1) [OF assms(1) k assms(2)] False in simp)
qed

lemma takeover_replays_call_witness:
  "\<exists>t. takeoverSyscall ckpt_demo_env demo_loader = Inr t \<and>
     program_of 0x2000000 62 t = plant_exit 0x200010 (answer demo_call (program_of 0x2000000 62 demo_loader))"
proof -
  have e: "peek RI_exit_cause demo_loader = Cause_ExitInst" "peek RI_exitpc demo_loader = 0x200010"
    by (simp_all add: peek_def demo_loader_def ri_defs demo_loads Cause_ExitInst_def)
  have n: "xreg demo_loader 17 = c_num demo_call"
    by (simp add: demo_regs demo_call_def)
  show ?thesis
    using takeover_replays_call [OF demo_ready demo_regs(2) [symmetric], of ckpt_demo_env] by (auto simp: e n)
qed



end
