(* ===== verification/CkptLoad.thy ===== *)
theory CkptLoad
  imports CkptRun
begin

text \<open>
  Restoring a checkpoint.  \<open>ckpt_file\<close> is the file that the checkpoint generator writes for a
  given content; the lemmas follow the reader through it, section by section, and say what it
  leaves in memory and in the registers.
\<close>

subsection \<open>Words in a file\<close>

definition words_bytes :: "u64 list \<Rightarrow> u8 list" where
  "words_bytes ws = concat (map word_bytes ws)"

lemma words_bytes_simps [simp]:
  "words_bytes [] = []" "words_bytes (w # ws) = word_bytes w @ words_bytes ws"
  "words_bytes (ws @ vs) = words_bytes ws @ words_bytes vs"
  by (simp_all add: words_bytes_def)

lemma length_words_bytes [simp]: "length (words_bytes ws) = 8 * length ws"
  by (induction ws) simp_all

lemma nth_words_bytes: "i < length ws \<Longrightarrow> j < 8 \<Longrightarrow> words_bytes ws ! (8 * i + j) = word_bytes (ws ! i) ! j"
proof (induction ws arbitrary: i)
  case (Cons w ws)
  then show ?case
    by (cases i) (simp_all add: nth_append)
qed simp

lemma le_word_load: "le_word (map (\<lambda>i. m (a + of_nat i)) [0..<n]) = load_le n m a"
proof (induction n arbitrary: a)
  case (Suc n)
  have "map (\<lambda>i. m (a + of_nat i)) [0..<Suc n] = m a # map (\<lambda>i. m (a + 1 + of_nat i)) [0..<n]"
    by (simp add: upt_conv_Cons map_Suc_upt [symmetric] algebra_simps del: upt_Suc map_Suc_upt)
  then show ?case
    using Suc [of "a + 1"] by (simp add: le_word_def)
qed (simp add: le_word_def)

lemma le_word_bytes [simp]: "le_word (word_bytes v) = v"
proof -
  have "word_bytes v = map (\<lambda>i. store64 (\<lambda>_. 0) 0 v (0 + of_nat i)) [0..<8]"
    unfolding word_bytes_def by (intro map_cong refl, subst store_le_same) simp_all
  then show ?thesis
    by (simp only: le_word_load load_store64)
qed

lemma take_words: "i < length ws \<Longrightarrow> take 8 (drop (8 * i) (words_bytes ws)) = word_bytes (ws ! i)"
  by (intro nth_equalityI) (simp_all add: nth_words_bytes)

lemma le_at_words: "i < length ws \<Longrightarrow> le_at 8 (8 * i) (words_bytes ws) = ws ! i"
  by (simp add: le_at_def take_words)

lemma put_words:
  assumes "i < length ws" "unat a + 8 * length ws \<le> 2 ^ 64"
  shows "load64 (put_bytes a (words_bytes ws) m) (a + 8 * of_nat i) = ws ! i"
proof (rule load64_bytes)
  fix j :: nat
  assume j: "j < 8"
  have "put_bytes a (words_bytes ws) m (a + of_nat (8 * i + j)) = words_bytes ws ! (8 * i + j)"
    using assms j by (intro put_bytes_inside) simp_all
  then show "put_bytes a (words_bytes ws) m (a + 8 * of_nat i + of_nat j) = word_bytes (ws ! i) ! j"
    using nth_words_bytes [OF assms(1) j] by (simp add: add.assoc)
qed

subsection \<open>Reading\<close>

definition remains :: "stream \<Rightarrow> u8 list" where
  "remains f = drop (snd f) (fst f)"

lemma ahead_remains: "remains f = bs @ r \<Longrightarrow> length bs = n \<Longrightarrow> ahead n f = bs"
  by (simp add: ahead_def remains_def)

lemma advance_remains: "remains f = bs @ r \<Longrightarrow> length bs = n \<Longrightarrow> remains (advance n f) = r"
  by (simp add: advance_def ahead_remains) (simp add: remains_def add.commute flip: drop_drop)

lemma fst_advance [simp]: "fst (advance n f) = fst f"
  by (simp add: advance_def)

lemma remains_length: "remains f = r \<Longrightarrow> r \<noteq> [] \<Longrightarrow> length (fst f) = snd f + length r"
  by (auto simp: remains_def)

lemma fread_var_remains: "remains f = bs @ r \<Longrightarrow> length bs = n \<Longrightarrow> fread_var n f = Inr (bs, advance n f)"
  by (simp add: fread_var_def ahead_remains)

lemma fread_zeroed_remains: "remains f = word_bytes v @ r \<Longrightarrow> fread_zeroed f = (v, advance 8 f)"
  by (simp add: fread_zeroed_def ahead_remains)

lemma fread_mem_remains:
  "remains f = bs @ r \<Longrightarrow> length bs = n \<Longrightarrow>
   fread_mem a n f s = (advance n f, s\<lparr>l_mem := put_bytes a bs (l_mem s)\<rparr>)"
  by (simp add: fread_mem_def ahead_remains)

definition pair_words :: "(u64 \<times> u64) list \<Rightarrow> u64 list" where
  "pair_words ps = concat (map (\<lambda>(a, b). [a, b]) ps)"

lemma pair_words_simps [simp]: "pair_words [] = []" "pair_words (p # ps) = fst p # snd p # pair_words ps"
  by (simp_all add: pair_words_def split: prod.split)

lemma length_pair_words [simp]: "length (pair_words ps) = 2 * length ps"
  by (induction ps) simp_all

lemma nth_pair_words: "i < length ps \<Longrightarrow> pair_words ps ! (2 * i) = fst (ps ! i) \<and> pair_words ps ! (2 * i + 1) = snd (ps ! i)"
proof (induction ps arbitrary: i)
  case (Cons p ps)
  then show ?case
    by (cases i) simp_all
qed simp

lemma pair_words_Cons_drop:
  "i < length ps \<Longrightarrow> pair_words (drop i ps) = fst (ps ! i) # snd (ps ! i) # pair_words (drop (Suc i) ps)"
  by (simp add: Cons_nth_drop_Suc [symmetric])

subsection \<open>The sections of the file\<close>

definition map_range :: "ckpt_env \<Rightarrow> u64 \<times> u64 \<Rightarrow> mem \<Rightarrow> mem" where
  "map_range E r m = (if snd r = 0 then m else snd (os_mmap E True (fst r) (snd r) m))"

definition set_load :: "u64 \<times> u64 \<Rightarrow> mem \<Rightarrow> mem" where
  "set_load l m = store64 m (fst l) (snd l)"

lemma alloc_memrange_spec:
  assumes f: "remains f = word_bytes (of_nat (length rs)) @ words_bytes (pair_words rs) @ r"
    and n: "length rs < 2 ^ 31"
    and fixed: "\<And>a b m. (a, b) \<in> set rs \<Longrightarrow> b \<noteq> 0 \<Longrightarrow> fst (os_mmap E True a b m) = a"
  shows "\<exists>g. alloc_memrange E f s = Inr (g, s\<lparr>l_mem := fold (map_range E) rs (l_mem s)\<rparr>) \<and>
     remains g = r \<and> fst g = fst f"
proof -
  let ?P = "\<lambda>i (g, t). t = s\<lparr>l_mem := fold (map_range E) (take i rs) (l_mem s)\<rparr> \<and>
     remains g = words_bytes (pair_words (drop i rs)) @ r \<and> fst g = fst f"
  let ?body = "\<lambda>i (f, s). and_then (fread_var 16 f) (\<lambda>(memrange, f).
      let addr = le_at 8 0 memrange; size = le_at 8 8 memrange
      in if size \<noteq> 0
         then let (arr, m) = os_mmap E True addr size (l_mem s)
              in if addr = arr then Inr (f, s\<lparr>l_mem := m\<rparr>) else Inl (Bad_map addr arr)
         else Inr (f, s))"
  have f8: "remains (advance 8 f) = words_bytes (pair_words rs) @ r"
    by (rule advance_remains [OF f]) simp
  have "\<exists>t. for_int (\<lambda>_. of_nat (length rs)) ?body 0 (advance 8 f, s) = Inr t \<and> ?P (length rs) t"
  proof (rule for_int_rule [where P = ?P])
    show "?P 0 (advance 8 f, s)"
      using f8 by simp
    fix i t
    assume i: "i < length rs" and P: "?P i t"
    obtain g u where t: "t = (g, u)"
      by (cases t)
    obtain a b where ab: "rs ! i = (a, b)"
      by (cases "rs ! i")
    have g: "remains g = words_bytes [a, b] @ words_bytes (pair_words (drop (Suc i) rs)) @ r"
      using P i by (simp add: t ab pair_words_Cons_drop)
    have w: "le_at 8 0 (words_bytes [a, b]) = a" "le_at 8 8 (words_bytes [a, b]) = b"
      using le_at_words [of 0 "[a, b]"] le_at_words [of 1 "[a, b]"] by simp_all
    have "fst (os_mmap E True a b m) = a" if "b \<noteq> 0" for m
      using fixed that i nth_mem [OF i] by (simp add: ab)
    then have "?body i t = Inr (advance 16 g, u\<lparr>l_mem := map_range E (a, b) (l_mem u)\<rparr>)"
      using fread_var_remains [OF g] w
      by (auto simp: t map_range_def Let_def split: prod.split) (metis fst_conv)
    moreover have "remains (advance 16 g) = words_bytes (pair_words (drop (Suc i) rs)) @ r"
      by (rule advance_remains [OF g]) simp
    then have "?P (Suc i) (advance 16 g, u\<lparr>l_mem := map_range E (a, b) (l_mem u)\<rparr>)"
      using P i by (simp add: t take_Suc_conv_app_nth ab)
    ultimately show "\<exists>v. ?body i t = Inr v \<and> ?P (Suc i) v"
      by blast
  qed (use n in simp_all)
  then show ?thesis
    using fread_zeroed_remains [OF f] by (auto simp: alloc_memrange_def)
qed

lemma setFistLoad_spec:
  assumes f: "remains f = word_bytes (of_nat (length ls)) @ words_bytes (pair_words ls) @ r"
    and n: "length ls < 2 ^ 31"
  shows "\<exists>g. setFistLoad f s = Inr (g, s\<lparr>l_mem := fold set_load ls (l_mem s)\<rparr>) \<and>
     remains g = r \<and> fst g = fst f"
proof -
  let ?w = "words_bytes (pair_words ls)"
  let ?P = "\<lambda>i t. t = s\<lparr>l_mem := fold set_load (take i ls) (l_mem s)\<rparr>"
  let ?body = "\<lambda>j s. Inr (poke (le_at 8 (16 * j) ?w) (le_at 8 (16 * j + 8) ?w) s) :: stop + loader"
  have u: "unat (of_nat (length ls) :: u64) = length ls"
    using n by (simp add: unat_of_nat64)
  have "\<exists>t. for_int (\<lambda>_. of_nat (length ls)) ?body 0 s = Inr t \<and> ?P (length ls) t"
  proof (rule for_int_rule [where P = ?P])
    fix i t
    assume i: "i < length ls" and P: "?P i t"
    have "le_at 8 (16 * i) ?w = fst (ls ! i)" "le_at 8 (16 * i + 8) ?w = snd (ls ! i)"
      using le_at_words [of "2 * i" "pair_words ls"] le_at_words [of "2 * i + 1" "pair_words ls"]
        nth_pair_words [OF i] i by (simp_all add: add.commute [of 8])
    then show "\<exists>v. ?body i t = Inr v \<and> ?P (Suc i) v"
      using P i by (simp add: take_Suc_conv_app_nth poke_def set_load_def)
  qed (use n in simp_all)
  moreover have r: "remains (advance 8 f) = ?w @ r"
    by (rule advance_remains [OF f]) simp
  then have "fread_var (16 * length ls) (advance 8 f) = Inr (?w, advance (16 * length ls) (advance 8 f))"
    by (rule fread_var_remains) simp
  moreover have "remains (advance (16 * length ls) (advance 8 f)) = r"
    by (rule advance_remains [OF r]) simp
  ultimately show ?thesis
    using fread_zeroed_remains [OF f] by (auto simp: setFistLoad_def u)
qed

subsection \<open>Replacing the calls\<close>

definition call_pc :: "u64 \<Rightarrow> nat \<Rightarrow> mem \<Rightarrow> nat \<Rightarrow> u64" where
  "call_pc A n m k = c_pc (recorded A n m k)"

text \<open>The calls stay out of the area of the loader and do not overlap one another.\<close>

definition calls_apart :: "u64 \<Rightarrow> nat \<Rightarrow> nat \<Rightarrow> mem \<Rightarrow> bool" where
  "calls_apart A N n m \<longleftrightarrow> (\<forall>k < n. clear_of A N (call_pc A n m k) 4) \<and>
     (\<forall>j < n. \<forall>k < n. call_pc A n m j = call_pc A n m k \<or>
        span (call_pc A n m j) 4 \<inter> span (call_pc A n m k) 4 = {})"

lemma ECall_load: "load_le 4 (store_le 4 m a ECall_Replace) a = ECall_Replace"
  by (simp add: load_store_le ECall_Replace_def take_bit_eq_mod)

lemma replace_calls_spec:
  assumes T: "table_ok A N n (l_mem s)" and tot: "peek RI_totalcallnum s = of_nat n" and n: "n < 2 ^ 31"
    and ap: "calls_apart A N n (l_mem s)"
  shows "\<exists>m. replace_calls (A + 8 + of_nat n * 4) (A + 8) s = Inr (s\<lparr>l_mem := m\<rparr>) \<and>
     agree (area A N) (l_mem s) m \<and> (\<forall>k < n. load_le 4 m (call_pc A n (l_mem s) k) = ECall_Replace) \<and>
     (\<forall>x. (\<forall>k < n. x \<notin> span (call_pc A n (l_mem s) k) 4) \<longrightarrow> m x = l_mem s x)"
proof -
  let ?pc = "call_pc A n (l_mem s)" and ?idx = "\<lambda>k. load_le 4 (l_mem s) (A + 8 + 4 * of_nat k)"
  let ?P = "\<lambda>i (t, rep). \<exists>m. t = s\<lparr>l_mem := m\<rparr> \<and> agree (area A N) (l_mem s) m \<and>
     (\<forall>k < i. load_le 4 m (?pc k) = ECall_Replace) \<and>
     (\<forall>x. (\<forall>k < n. x \<notin> span (?pc k) 4) \<longrightarrow> m x = l_mem s x) \<and> rep = ?idx ` {..<i}"
  let ?body = "\<lambda>i (s, rep_idxs). let idx = load_le 4 (l_mem s) (A + 8 + 4 * of_nat i)
      in if idx \<notin> rep_idxs
         then let sinfos = A + 8 + of_nat n * 4 + idx * sizeof_SyscallInfo
              in Inr (s\<lparr>l_mem := store_le 4 (l_mem s) (peek (sinfos + 0) s) ECall_Replace\<rparr>, insert idx rep_idxs)
         else Inr (s, rep_idxs) :: stop + (loader \<times> u64 set)"
  have "\<exists>t. for_int (\<lambda>(s, _). peek RI_totalcallnum s) ?body 0 (s, {}) = Inr t \<and> ?P n t"
  proof (rule for_int_rule [where P = ?P])
    show "?P 0 (s, {})"
      by (intro case_prodI exI [of _ "l_mem s"]) simp
    fix i t
    assume i: "i < n" and "?P i t"
    then obtain m where t: "t = (s\<lparr>l_mem := m\<rparr>, ?idx ` {..<i})" and a: "agree (area A N) (l_mem s) m"
      and p: "\<forall>k < i. load_le 4 m (?pc k) = ECall_Replace"
      and o: "\<forall>x. (\<forall>k < n. x \<notin> span (?pc k) 4) \<longrightarrow> m x = l_mem s x"
      by (cases t) auto
    note aa = agree_area [OF a]
    have idx: "load_le 4 m (A + 8 + 4 * of_nat i) = ?idx i"
      using agree_index [OF aa T i] .
    have I: "A + 8 + of_nat n * 4 + ?idx k * 40 = syscall_info A (of_nat n) (l_mem s) (of_nat k)" for k
      by (simp add: syscall_info_def)
    have pc: "?pc k = load64 (l_mem s) (A + 8 + of_nat n * 4 + ?idx k * 40)" for k
      by (simp add: call_pc_def recorded_def decode_call_def I)
    show "\<exists>v. ?body i t = Inr v \<and> ?P (Suc i) v"
    proof (cases "?idx i \<in> ?idx ` {..<i}")
      case True
      then obtain k where k: "k < i" "?idx i = ?idx k"
        by auto
      then have "?pc i = ?pc k"
        by (simp only: pc)
      then have "\<forall>k < Suc i. load_le 4 m (?pc k) = ECall_Replace"
        using p k(1) by (metis less_Suc_eq)
      moreover have "?body i t = Inr t"
        using True by (simp add: t idx)
      moreover have "?idx ` {..<Suc i} = ?idx ` {..<i}"
        using True by (simp add: lessThan_Suc insert_absorb)
      ultimately show ?thesis
        using a o by (intro exI [of _ t]) (auto simp: t)
    next
      case False
      let ?m = "store_le 4 m (?pc i) ECall_Replace"
      have cl: "clear_of A N (?pc i) 4"
        using ap i by (simp add: calls_apart_def)
      then have w: "unat (?pc i) + 4 \<le> 2 ^ 64"
        by (simp add: clear_of_def)
      have "load64 m (A + 8 + of_nat n * 4 + ?idx i * 40) = ?pc i"
        using agree_info [OF aa _ _ le0, of n "A + 8 + of_nat n * 4 + ?idx i * 40"] T i
        by (simp add: pc table_ok_def I)
      then have "?body i t = Inr (s\<lparr>l_mem := ?m\<rparr>, insert (?idx i) (?idx ` {..<i}))"
        using False by (simp add: t idx peek_def)
      moreover have "agree (area A N) (l_mem s) ?m"
        using agree_trans [OF a clear_store [OF cl]] .
      moreover have "load_le 4 ?m (?pc k) = ECall_Replace" if k: "k < Suc i" for k
      proof (cases "?pc k = ?pc i")
        case False
        then have "k < i" "k < n"
          using k i by (auto simp: less_Suc_eq)
        then have "span (?pc k) 4 \<inter> span (?pc i) 4 = {}" "unat (?pc k) + 4 \<le> 2 ^ 64"
          using ap i False unfolding calls_apart_def clear_of_def by blast+
        then have "load_le 4 ?m (?pc k) = load_le 4 m (?pc k)"
          using w by (intro load_store_disjoint)
        then show ?thesis
          using p \<open>k < i\<close> by simp
      qed (simp add: ECall_load)
      moreover have "?m x = l_mem s x" if "\<forall>k < n. x \<notin> span (?pc k) 4" for x
        using that i o w by (simp add: store_le_outside)
      moreover have "insert (?idx i) (?idx ` {..<i}) = ?idx ` {..<Suc i}"
        by (simp add: lessThan_Suc)
      ultimately show ?thesis
        by (intro exI [of _ "(s\<lparr>l_mem := ?m\<rparr>, insert (?idx i) (?idx ` {..<i}))"]) auto
    qed
  next
    fix j t
    assume "?P j t"
    then obtain m rep where t: "t = (s\<lparr>l_mem := m\<rparr>, rep)" "agree (area A N) (l_mem s) m"
      by (cases t) auto
    have "peek RI_totalcallnum (s\<lparr>l_mem := m\<rparr>) = peek RI_totalcallnum s"
      using t(2) by (intro agree_peek) (simp_all add: RI_totalcallnum_def)
    then show "(case t of (s, _) \<Rightarrow> peek RI_totalcallnum s) = of_nat n"
      using tot by (simp add: t)
  qed (use n in simp_all)
  then obtain t m where "for_int (\<lambda>(s, _). peek RI_totalcallnum s) ?body 0 (s, {}) = Inr t"
    "fst t = s\<lparr>l_mem := m\<rparr>" "agree (area A N) (l_mem s) m" "\<forall>k < n. load_le 4 m (?pc k) = ECall_Replace"
    "\<forall>x. (\<forall>k < n. x \<notin> span (?pc k) 4) \<longrightarrow> m x = l_mem s x"
    by (auto split: prod.splits)
  then show ?thesis
    by (intro exI [of _ m]) (simp add: replace_calls_def split_beta)
qed

subsection \<open>The table of calls in memory\<close>

definition table_image :: "u64 \<Rightarrow> u8 list \<Rightarrow> mem" where
  "table_image A tb = put_bytes A tb (\<lambda>_. 0)"

definition call_sites :: "u64 \<Rightarrow> nat \<Rightarrow> mem \<Rightarrow> u64 set" where
  "call_sites A n m = (\<Union>k \<in> {..<n}. span (call_pc A n m k) 4)"

lemma in_call_sites: "k < n \<Longrightarrow> x \<in> span (call_pc A n m k) 4 \<Longrightarrow> x \<in> call_sites A n m"
  by (auto simp: call_sites_def)

text \<open>
  A table of \<open>n\<close> calls that the loader accepts at \<open>A\<close>, and the length of the mapping made for it.
\<close>

definition good_table :: "u64 \<Rightarrow> nat \<Rightarrow> u8 list \<Rightarrow> bool" where
  "good_table A n tb \<longleftrightarrow> table_ok A (length tb) n (table_image A tb) \<and>
     load64 (table_image A tb) A = of_nat n \<and> n < 2 ^ 31 \<and> calls_apart A (length tb) n (table_image A tb)"

definition table_map_size :: "nat \<Rightarrow> u64" where
  "table_map_size N = of_nat N + (4096 - of_nat N mod 4096)"

lemma put_agree:
  assumes "unat a + length bs \<le> 2 ^ 64"
  shows "agree (span a (length bs)) (put_bytes a bs m) (put_bytes a bs m')"
    "agree (- span a (length bs)) m (put_bytes a bs m)"
  unfolding agree_def using assms by (auto elim!: spanE simp: put_bytes_inside put_bytes_outside)

lemma call_pc_agree:
  assumes "agree (span A N) m m'" and "table_ok A N n m"
  shows "calls_apart A N n m' = calls_apart A N n m" "call_sites A n m' = call_sites A n m"
    "k < n \<Longrightarrow> call_pc A n m' k = call_pc A n m k"
proof -
  have pc: "call_pc A n m' k = call_pc A n m k" if "k < n" for k
    using recorded_agree(2) [OF assms that] by (simp add: call_pc_def)
  then show "k < n \<Longrightarrow> call_pc A n m' k = call_pc A n m k" .
  show "calls_apart A N n m' = calls_apart A N n m" "call_sites A n m' = call_sites A n m"
    using pc by (auto simp: calls_apart_def call_sites_def)
qed

lemma read_ckptsyscall_spec:
  assumes f: "remains f = tb" "length (fst f) < 2 ^ 63" and good: "good_table A n tb"
    and map: "os_mmap E False 0x2000000 (table_map_size (length tb)) (l_mem s) = (A, m1)"
  shows "\<exists>m. read_ckptsyscall E f s = Inr (s\<lparr>l_mem := m\<rparr>) \<and>
     agree (span A (length tb)) (table_image A tb) m \<and> load64 m RI_syscall_info_addr = A \<and>
     load64 m RI_nowcallnum = 0 \<and> load64 m RI_totalcallnum = of_nat n \<and>
     (\<forall>k < n. load_le 4 m (call_pc A n (table_image A tb) k) = ECall_Replace) \<and>
     agree (- (span 0x150010 24 \<union> span A (length tb) \<union> call_sites A n (table_image A tb))) m1 m"
proof -
  let ?N = "length tb" and ?im = "table_image A tb"
  have T: "table_ok A ?N n ?im" and tot: "load64 ?im A = of_nat n" and n: "n < 2 ^ 31"
    and ap: "calls_apart A ?N n ?im"
    using good by (simp_all add: good_table_def)
  have N: "unat A + ?N \<le> 2 ^ 64" "8 \<le> ?N" and far: "unat A + ?N \<le> 0x150000 \<or> 0x150358 \<le> unat A"
    using T by (auto simp: table_ok_def)
  have "tb \<noteq> []"
    using N(2) by auto
  note len = remains_length [OF f(1) this]
  then have size: "of_nat (length (fst f)) - of_nat (snd f) = (of_nat ?N :: u64)" "unat (of_nat ?N :: u64) = ?N"
    using f(2) by (simp_all add: unat_of_nat64)
  let ?m2 = "put_bytes A tb m1"
  let ?s = "poke RI_totalcallnum (of_nat n) (poke RI_nowcallnum 0 (poke RI_syscall_info_addr A (s\<lparr>l_mem := ?m2\<rparr>)))"
  have im2: "agree (span A ?N) ?im ?m2"
    unfolding table_image_def by (rule put_agree(1) [OF N(1)])
  have "agree (- span 0x150010 24) ?m2 (l_mem ?s)"
    unfolding agree_def
  proof
    fix x
    assume "x \<in> - span 0x150010 24"
    then have "x \<notin> span RI_totalcallnum 8" "x \<notin> span RI_nowcallnum 8" "x \<notin> span RI_syscall_info_addr 8"
      by (auto simp: span_def ri_defs)
    then show "?m2 x = l_mem ?s x"
      by (simp add: store_le_outside ri_defs)
  qed
  note m2s = this
  have "span A ?N \<subseteq> - span 0x150010 24"
    using far by (auto simp: span_def)
  then have ims: "agree (span A ?N) ?im (l_mem ?s)"
    using im2 m2s by (auto simp: agree_def)
  have "peek A (poke RI_nowcallnum 0 (poke RI_syscall_info_addr A (s\<lparr>l_mem := ?m2\<rparr>))) = of_nat n"
  proof -
    have "unat A + 8 \<le> 2 ^ 64" "unat A + 8 \<le> 0x150010 \<or> 0x150020 \<le> unat A"
      using N far by auto
    then have "peek A (poke RI_nowcallnum 0 (poke RI_syscall_info_addr A (s\<lparr>l_mem := ?m2\<rparr>))) = load64 ?m2 A"
      by (auto simp: peek_poke_apart ri_defs) (simp_all add: peek_def)
    also have "\<dots> = load64 ?im A"
      using agree_load [OF im2, of A 8] N by simp
    finally show ?thesis
      using tot by simp
  qed
  moreover have "peek RI_syscall_info_addr ?s = A" "peek RI_totalcallnum ?s = of_nat n" "peek RI_nowcallnum ?s = 0"
    by (simp_all add: peek_poke_apart ri_defs)
  moreover have "fread_mem A ?N f (s\<lparr>l_mem := m1\<rparr>) = (advance ?N f, s\<lparr>l_mem := ?m2\<rparr>)"
    using fread_mem_remains [of f tb "[]"] f(1) by simp
  ultimately have run: "read_ckptsyscall E f s = replace_calls (A + 8 + of_nat n * 4) (A + 8) ?s"
    using map by (simp add: read_ckptsyscall_def size table_map_size_def Let_def)
  have T': "table_ok A ?N n (l_mem ?s)" and ap': "calls_apart A ?N n (l_mem ?s)"
    using recorded_agree(1) [OF ims T] call_pc_agree(1) [OF ims T] ap by simp_all
  obtain m where m: "replace_calls (A + 8 + of_nat n * 4) (A + 8) ?s = Inr (?s\<lparr>l_mem := m\<rparr>)"
    "agree (area A ?N) (l_mem ?s) m" "\<forall>k < n. load_le 4 m (call_pc A n (l_mem ?s) k) = ECall_Replace"
    "\<forall>x. (\<forall>k < n. x \<notin> span (call_pc A n (l_mem ?s) k) 4) \<longrightarrow> m x = l_mem ?s x"
    using replace_calls_spec [OF T' _ n ap'] by (auto simp: peek_poke_apart ri_defs)
  have pc: "call_pc A n (l_mem ?s) k = call_pc A n ?im k" if "k < n" for k
    using call_pc_agree(3) [OF ims T that] .
  have page_load: "load64 m g = peek g ?s" if "0x150000 \<le> unat g" "unat g \<le> 0x150350" for g
    using agree_peek [of A ?N ?s "?s\<lparr>l_mem := m\<rparr>"] m(2) that by (simp add: peek_def)
  have "m x = m1 x" if x: "x \<notin> span 0x150010 24" "x \<notin> span A ?N" "x \<notin> call_sites A n ?im" for x
  proof -
    have "\<forall>k < n. x \<notin> span (call_pc A n (l_mem ?s) k) 4"
      using x(3) pc by (auto simp: call_sites_def)
    then have "m x = l_mem ?s x"
      using m(4) by blast
    also have "\<dots> = ?m2 x"
      using m2s x(1) by (simp add: agree_def)
    also have "\<dots> = m1 x"
      using x(2) N(1) by (rule put_bytes_outside)
    finally show ?thesis .
  qed
  then have "agree (- (span 0x150010 24 \<union> span A ?N \<union> call_sites A n ?im)) m1 m"
    by (simp add: agree_def)
  moreover have "?s\<lparr>l_mem := m\<rparr> = s\<lparr>l_mem := m\<rparr>"
    by (simp add: poke_def)
  ultimately show ?thesis
    using run m(1,3) pc agree_trans [OF ims agree_area [OF m(2)]] page_load
      \<open>peek RI_syscall_info_addr ?s = A\<close> \<open>peek RI_totalcallnum ?s = of_nat n\<close> \<open>peek RI_nowcallnum ?s = 0\<close>
    by (intro exI [of _ m]) (simp add: ri_defs)
qed

subsection \<open>Starting the program\<close>

definition own_area :: "ckpt_env \<Rightarrow> u64 set" where
  "own_area E = span (tempStackMem E) 0x8000"

lemma agree_union: "agree (- R) m m' \<Longrightarrow> R \<subseteq> S \<Longrightarrow> agree (- S) m m'"
  by (auto simp: agree_def)

lemma agree_poke_span:
  assumes "span a 8 \<subseteq> R" "unat a + 8 \<le> 2 ^ 64"
  shows "agree (- R) (l_mem s) (l_mem (poke a v s))"
  unfolding agree_def
proof
  fix x
  assume "x \<in> - R"
  then have "x \<notin> span a 8"
    using assms(1) by blast
  then show "l_mem s x = l_mem (poke a v s) x"
    using assms(2) by (simp add: store_le_outside)
qed

lemma init_start_ucsr:
  "l_ucsr (init_start E a b c s) = (l_ucsr s)(6 := 0, 1 := procTag E, 2 := sampleFucAddr E, 4 := 10000000,
     5 := 10000000, 3 := 0, 12 := 1, 7 := 1)"
  by (simp add: init_start_def read_csrs_def Save_Basic_Regs_def SetCounterLevel_def RESET_COUNTER_def
      SetSampleBaseInfo_def SetSampleCtrlReg_def SetPfcEnable_def set_ucsr_def Let_def)

lemma init_start_mem:
  assumes "unat (tempStackMem E) + 0x8000 \<le> 2 ^ 64"
  shows "agree (- own_area E) (l_mem s) (l_mem (init_start E a b c s))"
proof -
  let ?b = "tempStackMem E"
  have own: "agree (- own_area E) m (store64 m (?b + of_nat k) v)" if "k \<le> 0x7ff8" for k v m
  proof -
    have "unat (?b + of_nat k) = unat ?b + k"
      using that assms by (simp add: unat_word_ariths unat_of_nat64)
    then have "span (?b + of_nat k) 8 \<subseteq> own_area E" "unat (?b + of_nat k) + 8 \<le> 2 ^ 64"
      using that assms by (auto simp: own_area_def span_def)
    then show ?thesis
      unfolding agree_def by (metis ComplD store_le_outside subsetD)
  qed
  let ?m = "l_mem s"
  let ?m1 = "store64 ?m (?b + of_nat 264) (own_x E 8)"
  let ?m2 = "store64 ?m1 (?b + of_nat 272) (own_x E 1)"
  let ?m3 = "store64 ?m2 (?b + of_nat 280) (own_x E 3)"
  let ?m4 = "store64 ?m3 (?b + of_nat 288) (own_x E 4)"
  let ?m5 = "store64 ?m4 (?b + of_nat 256) (?b + 0x4000)"
  let ?m6 = "store64 ?m5 (?b + of_nat 264) (?b + 0x5000)"
  have "l_mem (init_start E a b c s) = ?m6"
    by (simp add: init_start_def read_csrs_def Save_Basic_Regs_def SetCounterLevel_def RESET_COUNTER_def
        SetSampleBaseInfo_def SetSampleCtrlReg_def SetPfcEnable_def set_ucsr_def Let_def add.assoc)
  moreover have "agree (- own_area E) ?m ?m6"
    by (rule agree_trans [OF agree_trans [OF agree_trans [OF agree_trans [OF agree_trans]]]]; rule own; simp)
  ultimately show ?thesis
    by (simp only:)
qed

lemma start_program_ucsr: "l_ucsr (start_program E npc sim w rl s) 12 = 1"
  by (simp add: start_program_def read_csrs_def load_context load_fp_context init_start_ucsr JmpTempReg_def Let_def)

lemma save_loader_spec:
  "agree (- span OldIntRegAddr 0x130) (l_mem s) (l_mem (save_loader E npc s))"
  "l_ucsr (save_loader E npc s) = (l_ucsr s)(11 := npc, 12 := takeOverAddr E)"
proof -
  let ?s = "SetTempReg (takeOverAddr E) 3 (SetTempReg npc 2 s)\<lparr>l_x := own_x E\<rparr>"
  obtain m where m: "Context_Operation sd OldIntRegAddr ?s = ?s\<lparr>l_x := (l_x ?s)(10 := OldIntRegAddr), l_mem := m\<rparr>"
    "\<forall>x. x \<notin> span OldIntRegAddr 256 \<longrightarrow> m x = l_mem ?s x"
    using store_context [of OldIntRegAddr ?s] by auto
  have s: "l_mem ?s = l_mem s" "l_ucsr ?s = (l_ucsr s)(11 := npc, 12 := takeOverAddr E)"
    by (simp_all add: SetTempReg_def set_ucsr_def)
  have "l_mem s x = l_mem (save_loader E npc s) x" if "x \<notin> span OldIntRegAddr 0x130" for x
  proof -
    have "x \<notin> span RI_startinsts 8" "x \<notin> span RI_startcycles 8" "x \<notin> span RI_lastinsts 8"
      "x \<notin> span RI_lastcycles 8" "x \<notin> span RI_insts 8" "x \<notin> span RI_cycles 8" "x \<notin> span OldIntRegAddr 256"
      using that by (auto simp: span_def ri_defs)
    then show ?thesis
      using m(2) by (simp add: save_loader_def m(1) s(1) read_csrs_def Let_def store_le_outside ri_defs)
  qed
  then show "agree (- span OldIntRegAddr 0x130) (l_mem s) (l_mem (save_loader E npc s))"
    by (simp add: agree_def)
  show "l_ucsr (save_loader E npc s) = (l_ucsr s)(11 := npc, 12 := takeOverAddr E)"
    using s(2) by (simp add: save_loader_def m(1) read_csrs_def Let_def)
qed

lemma start_program_spec:
  assumes "unat (tempStackMem E) + 0x8000 \<le> 2 ^ 64" and apart: "own_area E \<inter> page = {}"
    and t: "t = start_program E npc sim w rl s"
  shows "l_pc t = npc" "agree (- (span OldIntRegAddr 0x130 \<union> own_area E)) (l_mem s) (l_mem t)"
    "i < 32 \<Longrightarrow> xreg t i = (if i = 0 then 0 else peek (RI_intregs i) s)"
    "i < 32 \<Longrightarrow> l_f t i = peek (RI_fpregs i) s"
proof -
  let ?R = "span OldIntRegAddr 0x130 \<union> own_area E"
  obtain a b where t': "t = JmpTempReg 2 (Context_Operation ld StoreIntRegAddr
      (Context_Operation fld StoreFpRegAddr (init_start E a b 1 (save_loader E npc s))))"
  proof (cases "rl = 0")
    case True
    then show ?thesis
      by (intro that [of "sim - sim div 20" "sim div 20"]) (simp add: t start_program_def Let_def)
  next
    case False
    then show ?thesis
      by (intro that [of rl w]) (simp add: t start_program_def Let_def)
  qed
  let ?u = "init_start E a b 1 (save_loader E npc s)"
  have a: "agree (- ?R) (l_mem s) (l_mem ?u)"
    using save_loader_spec(1) [of s E npc] init_start_mem [OF assms(1), of "save_loader E npc s" a b 1]
    by (auto simp: agree_def)
  have tm: "l_mem t = l_mem ?u"
    unfolding t' load_context load_fp_context by (simp add: JmpTempReg_def)
  show "agree (- ?R) (l_mem s) (l_mem t)"
    using a by (simp only: tm)
  show "l_pc t = npc"
    unfolding t' load_context load_fp_context by (simp add: JmpTempReg_def init_start_ucsr save_loader_spec(2))
  have pk: "peek g ?u = peek g s" if g: "0x150000 \<le> unat g" "unat g + 8 \<le> 0x150228" for g
    unfolding peek_def
  proof (rule load_le_span)
    fix x
    assume "x \<in> span g 8"
    then have "x \<notin> span OldIntRegAddr 0x130" "x \<in> page"
      using g by (auto simp: span_def)
    then have "x \<in> - ?R"
      using apart by blast
    then show "l_mem ?u x = l_mem s x"
      using a by (simp add: agree_def)
  qed (use g in simp)
  show "xreg t i = (if i = 0 then 0 else peek (RI_intregs i) s)" if "i < 32"
    using that pk [of "RI_intregs i"] unat_reg_slot [OF that, of StoreIntRegAddr]
    unfolding t' load_context load_fp_context by (simp add: JmpTempReg_def xreg_def RI_intregs_def)
  show "l_f t i = peek (RI_fpregs i) s" if "i < 32"
    using that pk [of "RI_fpregs i"] unat_reg_slot [OF that, of StoreFpRegAddr]
    unfolding t' load_context load_fp_context by (simp add: JmpTempReg_def RI_fpregs_def)
qed

end
