(* ===== verification/CkptRestore.thy ===== *)
theory CkptRestore
  imports CkptLoad
begin

text \<open>
  The whole of \<open>read_ckptinfo\<close> on a checkpoint file.  \<open>ckpt\<close> is the content of a checkpoint,
  \<open>ckpt_file\<close> its bytes in the order in which the loader reads them, and \<open>layout\<close> says that its
  parts stay apart in memory and that \<^verbatim>\<open>mmap\<close> keeps its promise for them.
\<close>

record ckpt =
  k_text :: "(u64 \<times> u64) list"
  k_start :: u64
  k_sim :: u64
  k_exitpc :: u64
  k_cause :: u64
  k_npc :: u64
  k_ints :: "u64 list"
  k_fps :: "u64 list"
  k_ranges :: "(u64 \<times> u64) list"
  k_loads :: "(u64 \<times> u64) list"
  k_table :: "u8 list"

definition pairs_bytes :: "(u64 \<times> u64) list \<Rightarrow> u8 list" where
  "pairs_bytes ps = word_bytes (of_nat (length ps)) @ words_bytes (pair_words ps)"

definition ckpt_file :: "ckpt \<Rightarrow> u8 list" where
  "ckpt_file c = pairs_bytes (k_text c) @ words_bytes [k_start c, k_sim c, k_exitpc c, k_cause c] @
     word_bytes (k_npc c) @ words_bytes (k_ints c) @ words_bytes (k_fps c) @
     pairs_bytes (k_ranges c) @ pairs_bytes (k_loads c) @ k_table c"

definition ckpt_sizes :: "ckpt \<Rightarrow> bool" where
  "ckpt_sizes c \<longleftrightarrow> length (k_ints c) = 32 \<and> length (k_fps c) = 32 \<and> length (k_text c) < 2 ^ 31 \<and>
     length (k_ranges c) < 2 ^ 31 \<and> length (k_loads c) < 2 ^ 31 \<and> length (ckpt_file c) < 2 ^ 63"

subsection \<open>Where the parts lie\<close>

definition pages :: "u64 \<Rightarrow> u64 \<Rightarrow> u64 set" where
  "pages a b = span a (4096 * ((unat b + 4095) div 4096))"

definition table_pages :: "u64 \<Rightarrow> u8 list \<Rightarrow> u64 set" where
  "table_pages A tb = span A (length tb) \<union> pages A (table_map_size (length tb))"

definition ranges_area :: "(u64 \<times> u64) list \<Rightarrow> u64 set" where
  "ranges_area rs = (\<Union>(a, b) \<in> set rs. pages a b)"

definition loads_area :: "(u64 \<times> u64) list \<Rightarrow> u64 set" where
  "loads_area ls = (\<Union>(a, d) \<in> set ls. span a 8)"

text \<open>The instructions that the loader replaces.\<close>

definition patched :: "u64 \<Rightarrow> nat \<Rightarrow> ckpt \<Rightarrow> u64 set" where
  "patched A n c = call_sites A n (table_image A (k_table c)) \<union>
     (if n = 0 \<and> k_cause c mod 4 = Cause_ExitInst then span (k_exitpc c) 4 else {})"

definition mmap_keeps :: "ckpt_env \<Rightarrow> bool \<Rightarrow> u64 \<Rightarrow> u64 \<Rightarrow> u64 \<Rightarrow> bool" where
  "mmap_keeps E fixed a n r \<longleftrightarrow>
     (\<forall>m. fst (os_mmap E fixed a n m) = r \<and> agree (- pages r n) m (snd (os_mmap E fixed a n m)))"

definition loads_apart :: "(u64 \<times> u64) list \<Rightarrow> bool" where
  "loads_apart ls \<longleftrightarrow> (\<forall>(a, d) \<in> set ls. unat a + 8 \<le> 2 ^ 64) \<and>
     (\<forall>i < length ls. \<forall>j < i. span (fst (ls ! i)) 8 \<inter> span (fst (ls ! j)) 8 = {})"

definition layout :: "ckpt_env \<Rightarrow> u64 \<Rightarrow> nat \<Rightarrow> ckpt \<Rightarrow> bool" where
  "layout E A n c \<longleftrightarrow> ckpt_sizes c \<and> good_table A n (k_table c) \<and>
     mmap_keeps E False 0x2000000 (table_map_size (length (k_table c))) A \<and>
     (\<forall>(a, b) \<in> set (k_ranges c). b \<noteq> 0 \<longrightarrow> mmap_keeps E True a b a) \<and>
     loads_apart (k_loads c) \<and> unat (tempStackMem E) + 0x8000 \<le> 2 ^ 64 \<and>
     own_area E \<inter> (page \<union> table_pages A (k_table c) \<union> patched A n c \<union> loads_area (k_loads c)) = {} \<and>
     page \<inter> (table_pages A (k_table c) \<union> patched A n c \<union> ranges_area (k_ranges c) \<union> loads_area (k_loads c)) = {} \<and>
     table_pages A (k_table c) \<inter> (patched A n c \<union> loads_area (k_loads c)) = {} \<and>
     (k_cause c mod 4 = Cause_ExitInst \<longrightarrow> clear_of A (length (k_table c)) (k_exitpc c) 4) \<and>
     (\<forall>j < n. clear_of A (length (k_table c)) (c_buf (recorded A n (table_image A (k_table c)) j))
        (length (c_data (recorded A n (table_image A (k_table c)) j))))"

text \<open>Everything that restoring may change.\<close>

definition restored_area :: "ckpt_env \<Rightarrow> u64 \<Rightarrow> nat \<Rightarrow> ckpt \<Rightarrow> u64 set" where
  "restored_area E A n c = page \<union> table_pages A (k_table c) \<union> own_area E \<union> patched A n c \<union>
     ranges_area (k_ranges c) \<union> loads_area (k_loads c)"

subsection \<open>Ranges and loads\<close>

lemma fold_map_range:
  assumes "\<And>a b. (a, b) \<in> set rs \<Longrightarrow> b \<noteq> 0 \<Longrightarrow> mmap_keeps E True a b a"
  shows "agree (- ranges_area rs) m (fold (map_range E) rs m)"
  using assms
proof (induction rs arbitrary: m)
  case (Cons r rs)
  obtain a b where r: "r = (a, b)"
    by (cases r)
  have "agree (- pages a b) m (map_range E r m)"
    using Cons.prems [of a b] by (simp add: r map_range_def mmap_keeps_def)
  moreover have "agree (- ranges_area rs) (map_range E r m) (fold (map_range E) rs (map_range E r m))"
    using Cons.prems by (intro Cons.IH) auto
  ultimately show ?case
    by (auto simp: agree_def ranges_area_def r)
qed simp

lemma set_load_pair: "set_load (a, d) m = store64 m a d"
  by (simp add: set_load_def)

lemma fold_set_load:
  assumes "loads_apart ls"
  shows "agree (- loads_area ls) m (fold set_load ls m) \<and>
    (\<forall>i < length ls. load64 (fold set_load ls m) (fst (ls ! i)) = snd (ls ! i))"
  using assms
proof (induction ls rule: rev_induct)
  case (snoc l ls)
  let ?m = "fold set_load ls m"
  obtain a d where l: "l = (a, d)"
    by (cases l)
  have w: "unat a + 8 \<le> 2 ^ 64"
    using snoc.prems by (auto simp: loads_apart_def l)
  have P: "span (fst ((ls @ [l]) ! i)) 8 \<inter> span (fst ((ls @ [l]) ! j)) 8 = {}"
    if "i < length (ls @ [l])" "j < i" for i j
    using snoc.prems that unfolding loads_apart_def by blast
  have "loads_apart ls"
    unfolding loads_apart_def
  proof (intro conjI allI impI)
    show "\<forall>(a, d) \<in> set ls. unat a + 8 \<le> 2 ^ 64"
      using snoc.prems by (auto simp: loads_apart_def)
    fix i j
    assume "i < length ls" "j < i"
    then show "span (fst (ls ! i)) 8 \<inter> span (fst (ls ! j)) 8 = {}"
      using P [of i j] by (simp add: nth_append)
  qed
  note IH = snoc.IH [OF this]
  have "agree (- loads_area (ls @ [l])) m (store64 ?m a d)"
    using IH w by (auto simp: agree_def loads_area_def l store_le_outside)
  moreover have "load64 (store64 ?m a d) (fst ((ls @ [l]) ! i)) = snd ((ls @ [l]) ! i)" if i: "i < Suc (length ls)" for i
  proof (cases "i = length ls")
    case False
    then have il: "i < length ls"
      using i by simp
    then have "span a 8 \<inter> span (fst (ls ! i)) 8 = {}"
      using P [of "length ls" i] il by (simp add: nth_append l)
    moreover have "unat (fst (ls ! i)) + 8 \<le> 2 ^ 64"
      using snoc.prems nth_mem [OF il] by (fastforce simp: loads_apart_def)
    ultimately have "load64 (store64 ?m a d) (fst (ls ! i)) = load64 ?m (fst (ls ! i))"
      using w by (intro load_store_disjoint) auto
    then show ?thesis
      using IH il by (simp add: nth_append)
  qed (simp add: l)
  ultimately show ?case
    by (simp add: l set_load_pair)
qed simp

subsection \<open>Registers and header\<close>

definition head_mem :: "ckpt \<Rightarrow> mem \<Rightarrow> mem" where
  "head_mem c m = put_bytes (RI_fpregs 0) (words_bytes (k_fps c)) (put_bytes (RI_intregs 0)
     (words_bytes (k_ints c)) (store64 (store64 m RI_exit_cause (k_cause c mod 4)) RI_exitpc (k_exitpc c)))"

lemma load_put_apart:
  assumes "unat a + n \<le> unat b \<or> unat b + length bs \<le> unat a" "unat a + n \<le> 2 ^ 64" "unat b + length bs \<le> 2 ^ 64"
  shows "load_le n (put_bytes b bs m) a = load_le n m a"
proof (rule load_le_span [OF assms(2)])
  fix x
  assume "x \<in> span a n"
  then have "x \<notin> span b (length bs)"
    using span_disjoint [OF assms(1)] by blast
  then show "put_bytes b bs m x = m x"
    using assms(3) by (rule put_bytes_outside)
qed

lemma head_mem_spec:
  assumes "ckpt_sizes c"
  shows "load64 (head_mem c m) RI_exitpc = k_exitpc c" "load64 (head_mem c m) RI_exit_cause = k_cause c mod 4"
    "i < 32 \<Longrightarrow> load64 (head_mem c m) (RI_intregs i) = k_ints c ! i"
    "i < 32 \<Longrightarrow> load64 (head_mem c m) (RI_fpregs i) = k_fps c ! i"
    "agree (- page) m (head_mem c m)"
proof -
  have n: "length (k_ints c) = 32" "length (k_fps c) = 32"
    using assms by (simp_all add: ckpt_sizes_def)
  show "load64 (head_mem c m) RI_exitpc = k_exitpc c" "load64 (head_mem c m) RI_exit_cause = k_cause c mod 4"
    by (simp_all add: head_mem_def load_put_apart load_store_apart n ri_defs)
  show "load64 (head_mem c m) (RI_fpregs i) = k_fps c ! i" if "i < 32"
    using put_words [of i "k_fps c" "RI_fpregs 0"] that n by (simp add: head_mem_def RI_fpregs_def)
  show "load64 (head_mem c m) (RI_intregs i) = k_ints c ! i" if i: "i < 32"
  proof -
    have "load64 (head_mem c m) (RI_intregs i) = load64 (put_bytes (RI_intregs 0) (words_bytes (k_ints c))
        (store64 (store64 m RI_exit_cause (k_cause c mod 4)) RI_exitpc (k_exitpc c))) (RI_intregs i)"
      unfolding head_mem_def using i by (intro load_put_apart) (simp_all add: unat_RI_intregs RI_fpregs_def n)
    then show ?thesis
      using put_words [of i "k_ints c" "RI_intregs 0"] i n by (simp add: RI_intregs_def)
  qed
  show "agree (- page) m (head_mem c m)"
    unfolding agree_def
  proof
    fix x
    assume "x \<in> - page"
    then have "x \<notin> span (RI_fpregs 0) 256" "x \<notin> span (RI_intregs 0) 256" "x \<notin> span RI_exit_cause 8"
      "x \<notin> span RI_exitpc 8"
      by (auto simp: span_def ri_defs)
    then show "m x = head_mem c m x"
      by (simp add: head_mem_def put_bytes_outside store_le_outside n ri_defs)
  qed
qed

text \<open>What follows the registers in \<open>read_ckptinfo\<close>.\<close>

definition read_rest :: "ckpt_env \<Rightarrow> ckpt \<Rightarrow> stream \<Rightarrow> loader \<Rightarrow> stop + loader" where
  "read_rest E c p s =
     and_then (alloc_memrange E p s) (\<lambda>(p, s).
     and_then (setFistLoad p s) (\<lambda>(p, s).
     and_then (read_ckptsyscall E p s) (\<lambda>s.
       let s = (if peek RI_totalcallnum s = 0 \<and> peek RI_exit_cause s = Cause_ExitInst
                then s\<lparr>l_mem := store_le 4 (l_mem s) (peek RI_exitpc s) ECall_Replace\<rparr> else s)
       in Inr (start_program E (k_npc c) (drop_bit 32 (push_bit 32 (k_sim c))) (drop_bit 32 (k_sim c))
                 (drop_bit 2 (k_cause c)) s))))"

lemma read_header:
  assumes z: "ckpt_sizes c" and content: "os_file E path = Some (ckpt_file c)"
  shows "\<exists>p. read_ckptinfo E path s = read_rest E c p (s\<lparr>l_mem := head_mem c (l_mem s)\<rparr>) \<and>
    remains p = pairs_bytes (k_ranges c) @ pairs_bytes (k_loads c) @ k_table c \<and> fst p = ckpt_file c"
proof -
  let ?w = "words_bytes [k_start c, k_sim c, k_exitpc c, k_cause c]"
  let ?r = "pairs_bytes (k_ranges c) @ pairs_bytes (k_loads c) @ k_table c"
  have n: "length (k_ints c) = 32" "length (k_fps c) = 32" "length (k_text c) < 2 ^ 31"
    using z by (simp_all add: ckpt_sizes_def)
  let ?f = "(ckpt_file c, 0)"
  have temp: "fread_zeroed ?f = (of_nat (length (k_text c)), advance 8 ?f)"
    by (rule fread_zeroed_remains) (simp add: remains_def ckpt_file_def pairs_bytes_def)
  let ?off = "16 * of_nat (length (k_text c)) + 8 :: u64"
  have off: "unat ?off = 16 * length (k_text c) + 8"
    using n(3) by (simp add: unat_word_ariths unat_of_nat64)
  then have "\<not> bit (unat ?off) 63"
    using n(3) by (simp add: bit_iff_odd)
  then have "\<not> bit ?off 63"
    by (simp add: bit_unsigned_iff)
  then have p: "fseek_set ?off (advance 8 ?f) = (ckpt_file c, 16 * length (k_text c) + 8)"
    by (simp only: fseek_set_def off if_False fst_advance fst_conv)
  let ?p = "(ckpt_file c, 16 * length (k_text c) + 8)"
  have r1: "remains ?p = ?w @ word_bytes (k_npc c) @ words_bytes (k_ints c) @ words_bytes (k_fps c) @ ?r"
    by (simp add: remains_def ckpt_file_def pairs_bytes_def)
  have r2: "remains (advance 32 ?p) = word_bytes (k_npc c) @ words_bytes (k_ints c) @ words_bytes (k_fps c) @ ?r"
    by (rule advance_remains [OF r1]) simp
  have r3: "remains (advance 8 (advance 32 ?p)) = words_bytes (k_ints c) @ words_bytes (k_fps c) @ ?r"
    by (rule advance_remains [OF r2]) simp
  let ?p3 = "advance 8 (advance 32 ?p)"
  have r4: "remains (advance 256 ?p3) = words_bytes (k_fps c) @ ?r"
    by (rule advance_remains [OF r3]) (simp add: n)
  have r5: "remains (advance 256 (advance 256 ?p3)) = ?r"
    by (rule advance_remains [OF r4]) (simp add: n)
  have v1: "fread_var 32 ?p = Inr (?w, advance 32 ?p)"
    by (rule fread_var_remains [OF r1]) simp
  have v2: "fread_var 8 (advance 32 ?p) = Inr (word_bytes (k_npc c), ?p3)"
    by (rule fread_var_remains [OF r2]) simp
  have v3: "fread_mem a 256 ?p3 u = (advance 256 ?p3, u\<lparr>l_mem := put_bytes a (words_bytes (k_ints c)) (l_mem u)\<rparr>)" for a u
    by (rule fread_mem_remains [OF r3]) (simp add: n)
  have v4: "fread_mem a 256 (advance 256 ?p3) u =
      (advance 256 (advance 256 ?p3), u\<lparr>l_mem := put_bytes a (words_bytes (k_fps c)) (l_mem u)\<rparr>)" for a u
    by (rule fread_mem_remains [OF r4]) (simp add: n)
  have w: "le_at 8 8 ?w = k_sim c" "le_at 8 16 ?w = k_exitpc c" "le_at 8 24 ?w = k_cause c"
    using le_at_words [of 1 "[k_start c, k_sim c, k_exitpc c, k_cause c]"]
      le_at_words [of 2 "[k_start c, k_sim c, k_exitpc c, k_cause c]"]
      le_at_words [of 3 "[k_start c, k_sim c, k_exitpc c, k_cause c]"] by simp_all
  have "read_ckptinfo E path s =
      read_rest E c (advance 256 (advance 256 ?p3)) (s\<lparr>l_mem := head_mem c (l_mem s)\<rparr>)"
    by (simp only: read_ckptinfo_def fopen_def content option.case and_then_simps temp p prod.case Let_def v1 v2 v3 v4 w
        le_word_bytes read_rest_def)
       (simp add: head_mem_def poke_def)
  then show ?thesis
    using r5 by (intro exI [of _ "advance 256 (advance 256 ?p3)"]) simp
qed

subsection \<open>The restored state\<close>

lemma layoutD:
  assumes "layout E A n c"
  shows "ckpt_sizes c" "good_table A n (k_table c)" "unat A + length (k_table c) \<le> 2 ^ 64" "n < 2 ^ 31"
    "table_ok A (length (k_table c)) n (table_image A (k_table c))"
    "loads_apart (k_loads c)" "unat (tempStackMem E) + 0x8000 \<le> 2 ^ 64"
    "mmap_keeps E False 0x2000000 (table_map_size (length (k_table c))) A"
    "(a, b) \<in> set (k_ranges c) \<Longrightarrow> b \<noteq> 0 \<Longrightarrow> mmap_keeps E True a b a"
    "own_area E \<inter> (page \<union> table_pages A (k_table c) \<union> patched A n c \<union> loads_area (k_loads c)) = {}"
    "page \<inter> (table_pages A (k_table c) \<union> patched A n c \<union> ranges_area (k_ranges c) \<union> loads_area (k_loads c)) = {}"
    "table_pages A (k_table c) \<inter> (patched A n c \<union> loads_area (k_loads c)) = {}"
  using assms by (auto simp: layout_def good_table_def table_ok_def)

lemma agree_chain:
  "agree (- R) m m' \<Longrightarrow> agree (- S) m' m'' \<Longrightarrow> R \<subseteq> U \<Longrightarrow> S \<subseteq> U \<Longrightarrow> agree (- U) m m''"
  unfolding agree_def by (metis ComplD ComplI subsetD)

lemma agree_on: "agree (- R) m m' \<Longrightarrow> S \<inter> R = {} \<Longrightarrow> agree S m m'"
  by (auto simp: agree_def)

lemma load_agree:
  "agree R m m' \<Longrightarrow> span a n \<subseteq> R \<Longrightarrow> unat a + n \<le> 2 ^ 64 \<Longrightarrow> load_le n m' a = load_le n m a"
  by (rule load_le_span) (auto simp: agree_def)

lemma off_calls:
  "0x150000 \<le> unat g \<and> unat g + 8 \<le> 0x150010 \<or> 0x150028 \<le> unat g \<and> unat g \<le> 0x150350 \<Longrightarrow>
   span g 8 \<subseteq> page - span 0x150010 24"
  by (auto simp: span_def)

lemma read_rest_spec:
  assumes L: "layout E A n c"
    and p: "remains p = pairs_bytes (k_ranges c) @ pairs_bytes (k_loads c) @ k_table c" "fst p = ckpt_file c"
    and s: "l_mem s = head_mem c m"
  obtains u sim w rl where "read_rest E c p s = Inr (start_program E (k_npc c) sim w rl u)"
    "agree (span A (length (k_table c))) (table_image A (k_table c)) (l_mem u)"
    "peek RI_syscall_info_addr u = A" "peek RI_nowcallnum u = 0" "peek RI_totalcallnum u = of_nat n"
    "agree (page - span 0x150010 24) (head_mem c m) (l_mem u)"
    "\<forall>k < n. load_le 4 (l_mem u) (call_pc A n (table_image A (k_table c)) k) = ECall_Replace"
    "n = 0 \<Longrightarrow> k_cause c mod 4 = Cause_ExitInst \<Longrightarrow> load_le 4 (l_mem u) (k_exitpc c) = ECall_Replace"
    "\<forall>(a, d) \<in> set (k_loads c). span a 8 \<inter> patched A n c = {} \<longrightarrow> load64 (l_mem u) a = d"
    "agree (- restored_area E A n c) m (l_mem u)"
proof -
  let ?N = "length (k_table c)" and ?im = "table_image A (k_table c)"
  note D = layoutD [OF L]
  have z: "length (k_ranges c) < 2 ^ 31" "length (k_loads c) < 2 ^ 31" "length (fst p) < 2 ^ 63"
    using D(1) p(2) by (simp_all add: ckpt_sizes_def)
  let ?m1 = "fold (map_range E) (k_ranges c) (l_mem s)"
  obtain p1 where p1: "alloc_memrange E p s = Inr (p1, s\<lparr>l_mem := ?m1\<rparr>)"
    "remains p1 = pairs_bytes (k_loads c) @ k_table c" "fst p1 = ckpt_file c"
    using alloc_memrange_spec [OF p(1) [unfolded pairs_bytes_def append_assoc] z(1), of E s] D(9) p(2)
    by (auto simp: mmap_keeps_def pairs_bytes_def)
  let ?m2 = "fold set_load (k_loads c) ?m1"
  obtain p2 where p2: "setFistLoad p1 (s\<lparr>l_mem := ?m1\<rparr>) = Inr (p2, s\<lparr>l_mem := ?m2\<rparr>)"
    "remains p2 = k_table c" "fst p2 = ckpt_file c"
    using setFistLoad_spec [OF p1(2) [unfolded pairs_bytes_def append_assoc] z(2), of "s\<lparr>l_mem := ?m1\<rparr>"] p1(3) by auto
  obtain m3 where m3: "os_mmap E False 0x2000000 (table_map_size ?N) ?m2 = (A, m3)"
    "agree (- pages A (table_map_size ?N)) ?m2 m3"
    using D(8) unfolding mmap_keeps_def by (metis prod.collapse)
  obtain m4 where m4: "read_ckptsyscall E p2 (s\<lparr>l_mem := ?m2\<rparr>) = Inr (s\<lparr>l_mem := m4\<rparr>)"
    "agree (span A ?N) ?im m4" "load64 m4 RI_syscall_info_addr = A" "load64 m4 RI_nowcallnum = 0"
    "load64 m4 RI_totalcallnum = of_nat n"
    "\<forall>k < n. load_le 4 m4 (call_pc A n ?im k) = ECall_Replace"
    "agree (- (span 0x150010 24 \<union> span A ?N \<union> call_sites A n ?im)) m3 m4"
    using read_ckptsyscall_spec [OF p2(2) _ D(2), of E "s\<lparr>l_mem := ?m2\<rparr>" m3] m3(1) p2(3) z(3) p(2) by auto
  have m1: "agree (- ranges_area (k_ranges c)) (l_mem s) ?m1"
    using D(9) by (rule fold_map_range)
  have m2: "agree (- loads_area (k_loads c)) ?m1 ?m2"
    "\<forall>i < length (k_loads c). load64 ?m2 (fst (k_loads c ! i)) = snd (k_loads c ! i)"
    using fold_set_load [OF D(6)] by blast+
  let ?e = "n = 0 \<and> k_cause c mod 4 = Cause_ExitInst"
  let ?m5 = "if ?e then store_le 4 m4 (k_exitpc c) ECall_Replace else m4"
  have sites: "call_sites A n ?im \<subseteq> patched A n c" "?e \<Longrightarrow> span (k_exitpc c) 4 \<subseteq> patched A n c"
    by (auto simp: patched_def)
  have exit_ok: "unat (k_exitpc c) + 4 \<le> 2 ^ 64" if ?e
    using L that by (simp add: layout_def clear_of_def)
  have m5: "agree (- patched A n c) m4 ?m5"
  proof (cases ?e)
    case True
    have "m4 x = store_le 4 m4 (k_exitpc c) ECall_Replace x" if "x \<notin> patched A n c" for x
      using sites(2) [OF True] exit_ok [OF True] that by (intro store_le_outside [symmetric]) auto
    then show ?thesis
      using True by (simp add: agree_def)
  next
    case False
    then show ?thesis
      by (simp only: if_False agree_refl)
  qed
  let ?P = "patched A n c" and ?T = "table_pages A (k_table c)"
  have tp: "span A ?N \<subseteq> ?T" "pages A (table_map_size ?N) \<subseteq> ?T"
    by (auto simp: table_pages_def)
  have m24: "agree (- (span 0x150010 24 \<union> ?T \<union> ?P)) ?m2 m4"
    by (rule agree_chain [OF m3(2) m4(7)]) (use tp sites(1) in blast)+
  have m25: "agree (- (span 0x150010 24 \<union> ?T \<union> ?P)) ?m2 ?m5"
    by (rule agree_chain [OF m24 m5]) blast+
  have m02: "agree (- (ranges_area (k_ranges c) \<union> loads_area (k_loads c))) (l_mem s) ?m2"
    by (rule agree_chain [OF m1 m2(1)]) blast+
  let ?U = "span 0x150010 24 \<union> ?T \<union> ?P \<union> ranges_area (k_ranges c) \<union> loads_area (k_loads c)"
  have m05: "agree (- ?U) (l_mem s) ?m5"
    by (rule agree_chain [OF m02 m25]) blast+
  have m04: "agree (- ?U) (l_mem s) m4"
    by (rule agree_chain [OF m02 m24]) blast+
  let ?G = "page - span 0x150010 24"
  have G: "agree ?G (l_mem s) ?m5" "agree ?G (l_mem s) m4"
    by (rule agree_on [OF m05], use D(11) in blast, rule agree_on [OF m04], use D(11) in blast)
  have page5: "agree page m4 ?m5"
    by (rule agree_on [OF m5]) (use D(11) in blast)
  have c4: "load64 m4 RI_exitpc = k_exitpc c" "load64 m4 RI_exit_cause = k_cause c mod 4"
    using load_agree [OF G(2) off_calls, of RI_exitpc] load_agree [OF G(2) off_calls, of RI_exit_cause]
      head_mem_spec(1,2) [OF D(1)] by (simp_all add: s RI_exitpc_def RI_exit_cause_def)
  have n0: "(of_nat n :: u64) = 0 \<longleftrightarrow> n = 0"
    using D(4) unat_eq_0 [of "of_nat n :: u64"] by (simp add: unat_of_nat64)
  let ?u = "s\<lparr>l_mem := ?m5\<rparr>"
  have run: "read_rest E c p s = Inr (start_program E (k_npc c) (drop_bit 32 (push_bit 32 (k_sim c)))
      (drop_bit 32 (k_sim c)) (drop_bit 2 (k_cause c)) ?u)"
    by (simp add: read_rest_def p1(1) p2(1) m4(1,5) c4 n0 peek_def)
  have im5: "agree (span A ?N) ?im ?m5"
    by (rule agree_trans [OF m4(2) agree_on [OF m5]]) (use D(12) tp(1) in blast)
  have fields: "load64 ?m5 g = load64 m4 g" if "0x150000 \<le> unat g" "unat g \<le> 0x150350" for g
  proof (rule load_agree [OF page5])
    show "span g 8 \<subseteq> page"
      using that by (auto simp: span_def)
  qed (use that in simp)
  have calls: "\<forall>k < n. load_le 4 ?m5 (call_pc A n ?im k) = ECall_Replace"
    using m4(6) by simp
  have loads: "\<forall>(a, d) \<in> set (k_loads c). span a 8 \<inter> ?P = {} \<longrightarrow> load64 ?m5 a = d"
  proof (clarify)
    fix a d
    assume ad: "(a, d) \<in> set (k_loads c)" "span a 8 \<inter> ?P = {}"
    then obtain i where i: "i < length (k_loads c)" "k_loads c ! i = (a, d)"
      by (auto simp: in_set_conv_nth)
    have "span a 8 \<subseteq> loads_area (k_loads c)"
      using ad(1) by (auto simp: loads_area_def)
    moreover have "span 0x150010 24 \<subseteq> page"
      by (auto simp: span_def)
    ultimately have "span a 8 \<subseteq> - (span 0x150010 24 \<union> ?T \<union> ?P)"
      using ad(2) D(11,12) by blast
    moreover have "unat a + 8 \<le> 2 ^ 64"
      using D(6) ad(1) by (auto simp: loads_apart_def)
    ultimately have "load64 ?m5 a = load64 ?m2 a"
      by (rule load_agree [OF m25])
    also have "\<dots> = d"
      using m2(2) [rule_format, OF i(1)] by (simp only: i(2) fst_conv snd_conv)
    finally show "load64 ?m5 a = d" .
  qed
  have "agree (- page) m (l_mem s)"
    using head_mem_spec(5) [OF D(1)] by (simp add: s)
  then have frame: "agree (- restored_area E A n c) m ?m5"
  proof (rule agree_chain [OF _ m05])
    have "span 0x150010 24 \<subseteq> page"
      by (auto simp: span_def)
    then show "?U \<subseteq> restored_area E A n c"
      by (auto simp: restored_area_def)
  qed (auto simp: restored_area_def)
  have "peek RI_syscall_info_addr ?u = A" "peek RI_nowcallnum ?u = 0" "peek RI_totalcallnum ?u = of_nat n"
    using fields [of RI_syscall_info_addr] fields [of RI_nowcallnum] fields [of RI_totalcallnum] m4(3-5)
    by (simp_all add: peek_def ri_defs)
  then show thesis
    using that [OF run] im5 G(1) calls loads frame ECall_load by (simp add: s)
qed

lemma restore_spec:
  assumes L: "layout E A n c" and content: "os_file E path = Some (ckpt_file c)"
    and im: "im = table_image A (k_table c)"
  shows "\<exists>t. read_ckptinfo E path s = Inr t \<and> l_pc t = k_npc c \<and>
     (\<forall>i < 32. xreg t i = (if i = 0 then 0 else k_ints c ! i) \<and> l_f t i = k_fps c ! i) \<and>
     ready A (length (k_table c)) n 0 t \<and> peek RI_exitpc t = k_exitpc c \<and> peek RI_exit_cause t = k_cause c mod 4 \<and>
     (\<forall>k < n. recorded A n (l_mem t) k = recorded A n im k \<and>
        load_le 4 (l_mem t) (c_pc (recorded A n im k)) = ECall_Replace) \<and>
     (n = 0 \<and> k_cause c mod 4 = Cause_ExitInst \<longrightarrow> load_le 4 (l_mem t) (k_exitpc c) = ECall_Replace) \<and>
     (\<forall>(a, d) \<in> set (k_loads c). span a 8 \<inter> patched A n c = {} \<longrightarrow> load64 (l_mem t) a = d) \<and>
     agree (- restored_area E A n c) (l_mem s) (l_mem t)"
proof -
  let ?N = "length (k_table c)"
  note D = layoutD [OF L]
  obtain p where p: "read_ckptinfo E path s = read_rest E c p (s\<lparr>l_mem := head_mem c (l_mem s)\<rparr>)"
    "remains p = pairs_bytes (k_ranges c) @ pairs_bytes (k_loads c) @ k_table c" "fst p = ckpt_file c"
    using read_header [OF D(1) content, of s] by blast
  have l: "l_mem (s\<lparr>l_mem := head_mem c (l_mem s)\<rparr>) = head_mem c (l_mem s)"
    by simp
  obtain u sim w rl where u: "read_rest E c p (s\<lparr>l_mem := head_mem c (l_mem s)\<rparr>) = Inr (start_program E (k_npc c) sim w rl u)"
    "agree (span A ?N) im (l_mem u)"
    "peek RI_syscall_info_addr u = A" "peek RI_nowcallnum u = 0" "peek RI_totalcallnum u = of_nat n"
    "agree (page - span 0x150010 24) (head_mem c (l_mem s)) (l_mem u)"
    "\<forall>k < n. load_le 4 (l_mem u) (call_pc A n im k) = ECall_Replace"
    "n = 0 \<Longrightarrow> k_cause c mod 4 = Cause_ExitInst \<Longrightarrow> load_le 4 (l_mem u) (k_exitpc c) = ECall_Replace"
    "\<forall>(a, d) \<in> set (k_loads c). span a 8 \<inter> patched A n c = {} \<longrightarrow> load64 (l_mem u) a = d"
    "agree (- restored_area E A n c) (l_mem s) (l_mem u)"
    by (rule read_rest_spec [OF L p(2,3) l, folded im], rule that)
  define t where "t = start_program E (k_npc c) sim w rl u"
  have apart: "own_area E \<inter> page = {}"
    using D(10) by blast
  note S = start_program_spec [OF D(7) apart t_def]
  let ?R = "span OldIntRegAddr 0x130 \<union> own_area E"
  have Rp: "span OldIntRegAddr 0x130 \<subseteq> page"
    by (auto simp: span_def)
  have on: "agree X (l_mem u) (l_mem t)" if "X \<inter> page = {}" "X \<inter> own_area E = {}" for X
    by (rule agree_on [OF S(2)]) (use that Rp in blast)
  have tu: "peek g t = peek g u" if g: "0x150000 \<le> unat g" "unat g + 8 \<le> 0x150228" for g
    unfolding peek_def
  proof (rule load_agree [OF S(2)])
    have "span g 8 \<subseteq> page" "span g 8 \<inter> span OldIntRegAddr 0x130 = {}"
      using g by (auto simp: span_def)
    then show "span g 8 \<subseteq> - ?R"
      using apart by blast
  qed (use g in simp)
  have head: "peek g u = load64 (head_mem c (l_mem s)) g"
    if "0x150000 \<le> unat g \<and> unat g + 8 \<le> 0x150010 \<or> 0x150028 \<le> unat g \<and> unat g \<le> 0x150350" for g
    unfolding peek_def by (rule load_agree [OF u(6) off_calls [OF that]]) (use that in auto)
  have ints: "peek (RI_intregs i) u = k_ints c ! i" "peek (RI_fpregs i) u = k_fps c ! i" if "i < 32" for i
    using that head [of "RI_intregs i"] head [of "RI_fpregs i"] head_mem_spec(3,4) [OF D(1) that]
      unat_reg_slot [OF that, of StoreFpRegAddr] by (simp_all add: unat_RI_intregs RI_fpregs_def)
  have exitw: "peek RI_exitpc t = k_exitpc c" "peek RI_exit_cause t = k_cause c mod 4"
    using tu [of RI_exitpc] tu [of RI_exit_cause] head [of RI_exitpc] head [of RI_exit_cause] head_mem_spec(1,2) [OF D(1)]
    by (simp_all add: RI_exitpc_def RI_exit_cause_def)
  have tab: "agree (span A ?N) im (l_mem t)"
    by (rule agree_trans [OF u(2) on]) (use D(10,11) in \<open>auto simp: table_pages_def\<close>)
  have T: "table_ok A ?N n im"
    using D(5) by (simp only: im)
  note R = recorded_agree(1,2) [OF tab T]
  have "ready A ?N n 0 t"
    using L R u(3-5) tu exitw
    by (simp add: ready_def layout_def im RI_syscall_info_addr_def RI_nowcallnum_def RI_totalcallnum_def)
  moreover have at: "load_le 4 (l_mem t) a = ECall_Replace"
    if "span a 4 \<subseteq> patched A n c" "unat a + 4 \<le> 2 ^ 64" "load_le 4 (l_mem u) a = ECall_Replace" for a
  proof -
    have "span a 4 \<inter> page = {}" "span a 4 \<inter> own_area E = {}"
      using that(1) D(10,11) by blast+
    from load_agree [OF on [OF this] subset_refl that(2)] that(3) show ?thesis
      by simp
  qed
  have "load_le 4 (l_mem t) (c_pc (recorded A n im k)) = ECall_Replace" if k: "k < n" for k
  proof (rule at)
    show "span (c_pc (recorded A n im k)) 4 \<subseteq> patched A n c"
      using k by (auto simp: patched_def im in_call_sites call_pc_def)
    show "unat (c_pc (recorded A n im k)) + 4 \<le> 2 ^ 64"
      using D(2) k by (simp add: good_table_def calls_apart_def clear_of_def call_pc_def im)
    show "load_le 4 (l_mem u) (c_pc (recorded A n im k)) = ECall_Replace"
      using u(7) k by (simp add: call_pc_def)
  qed
  moreover have "load_le 4 (l_mem t) (k_exitpc c) = ECall_Replace" if "n = 0" "k_cause c mod 4 = Cause_ExitInst"
    using L u(8) that by (intro at) (auto simp: patched_def layout_def clear_of_def)
  moreover have "\<forall>(a, d) \<in> set (k_loads c). span a 8 \<inter> patched A n c = {} \<longrightarrow> load64 (l_mem t) a = d"
  proof clarify
    fix a d
    assume ad: "(a, d) \<in> set (k_loads c)" "span a 8 \<inter> patched A n c = {}"
    then have "span a 8 \<subseteq> loads_area (k_loads c)" "unat a + 8 \<le> 2 ^ 64"
      using D(6) by (auto simp: loads_area_def loads_apart_def)
    moreover have "span a 8 \<inter> page = {}" "span a 8 \<inter> own_area E = {}"
      using calculation(1) D(10,11) by blast+
    ultimately have "load64 (l_mem t) a = load64 (l_mem u) a"
      using load_agree [OF on subset_refl] by blast
    then show "load64 (l_mem t) a = d"
      using u(9) ad by auto
  qed
  moreover have "agree (- restored_area E A n c) (l_mem s) (l_mem t)"
    by (rule agree_trans [OF u(10) on]) (auto simp: restored_area_def)
  moreover have "read_ckptinfo E path s = Inr t"
    using p(1) u(1) by (simp add: t_def)
  ultimately show ?thesis
    using S(1,3,4) ints exitw R(2) by (intro exI [of _ t]) simp
qed

end
