(* ===== verification/CkptProps.thy ===== *)
theory CkptProps
  imports CkptRestore
begin

text \<open>
  Properties of restoring a checkpoint: what \<open>read_ckptinfo\<close> leaves behind, and that the call to
  \<open>init_start\<close> in it takes the register away through which the replaced calls jump.
\<close>

subsection \<open>A checkpoint file\<close>

definition demo_ckpt :: ckpt where
  "demo_ckpt = \<lparr>k_text = [(0x200000, 0x100)], k_start = 0, k_sim = 1000, k_exitpc = 0x200010, k_cause = 2,
     k_npc = 0x200000, k_ints = (replicate 32 0)[17 := 64], k_fps = replicate 32 0,
     k_ranges = [(0x300000, 4096)], k_loads = [(0x300100, 42)],
     k_table = word_bytes 1 @ [0, 0, 0, 0] @ words_bytes [0x200000, 0x4000000002, 5, 2, 0x3401, 0x300000] @ [7, 9]\<rparr>"

text \<open>An executable with one program header and 256 bytes of code for \<open>0x200000\<close>.\<close>

definition demo_exe_hdr :: "u8 list" where
  "demo_exe_hdr = replicate 32 0 @ [64, 0, 0, 0, 0, 0, 0, 0] @ replicate 14 0 @ [56, 0, 1, 0] @ replicate 6 0"

definition demo_phdr :: "u8 list" where
  "demo_phdr = [1, 0, 0, 0, 5, 0, 0, 0] @ words_bytes [120, 0x200000, 0x200000, 256, 256, 4096]"

definition demo_exe :: "u8 list" where
  "demo_exe = demo_exe_hdr @ demo_phdr @ replicate 256 0x13"

definition demo_restore :: ckpt_env where
  "demo_restore = ckpt_demo_env\<lparr>
     os_mmap := (\<lambda>fixed a n m. (a, \<lambda>x. if unat a \<le> unat x \<and> unat x < unat a + 4096 * ((unat n + 4095) div 4096)
                                    then 0 else m x)),
     os_file := [''ckptinfo.log'' \<mapsto> ckpt_file demo_ckpt, ''a.out'' \<mapsto> demo_exe]\<rparr>"

lemma demo_keeps: "mmap_keeps demo_restore fixed a n a"
  by (auto simp: mmap_keeps_def demo_restore_def agree_def pages_def span_def)

lemma put_append: "put_bytes a (bs @ cs) m = put_bytes (a + of_nat (length bs)) cs (put_bytes a bs m)"
  by (induction bs arbitrary: a m) (simp_all add: add.assoc)

lemma put_word: "unat a + 8 \<le> 2 ^ 64 \<Longrightarrow> put_bytes a (word_bytes v) m = store64 m a v"
proof
  fix x
  assume w: "unat a + 8 \<le> 2 ^ 64"
  show "put_bytes a (word_bytes v) m x = store64 m a v x"
  proof (cases "x \<in> span a 8")
    case True
    then obtain i where "i < 8" "x = a + of_nat i"
      by (rule spanE)
    then show ?thesis
      using w put_bytes_inside [of i "word_bytes v" a m] by (simp only: store_le_same) (simp add: word_bytes_def)
  next
    case False
    then show ?thesis
      using w by (simp add: put_bytes_outside store_le_outside)
  qed
qed

lemma demo_image: "table_image 0x2000000 (k_table demo_ckpt) = demo_table"
proof -
  have "put_bytes 0x2000008 [0, 0, 0, 0] m = store_le 4 m 0x2000008 0" for m
    by (simp add: eval_nat_numeral)
  then show ?thesis
    by (simp add: table_image_def demo_ckpt_def demo_table_def put_append put_word)
qed

lemma demo_sizes: "length (k_table demo_ckpt) = 62" "ckpt_sizes demo_ckpt"
  by (simp_all add: demo_ckpt_def ckpt_sizes_def ckpt_file_def pairs_bytes_def)

lemma demo_sites: "call_sites 0x2000000 (Suc 0) demo_table = span 0x200000 4"
  "patched 0x2000000 (Suc 0) demo_ckpt = span 0x200000 4"
  by (simp_all add: call_sites_def patched_def demo_image call_pc_def demo_table_ok(2) demo_call_def lessThan_Suc)

lemma demo_layout: "layout demo_restore 0x2000000 (Suc 0) demo_ckpt"
proof -
  have "good_table 0x2000000 (Suc 0) (k_table demo_ckpt)"
    using demo_table_ok demo_clear(2)
    by (simp add: good_table_def demo_sizes(1) demo_image demo_table_loads calls_apart_def call_pc_def demo_call_def)
  moreover have "own_area demo_restore = span 0x12000 0x8000"
    by (simp add: own_area_def demo_restore_def ckpt_demo_env_def)
  moreover have "table_pages 0x2000000 (k_table demo_ckpt) = span 0x2000000 4096"
    by (auto simp: table_pages_def demo_sizes(1) pages_def table_map_size_def span_def)
  moreover have "ranges_area (k_ranges demo_ckpt) = span 0x300000 4096" "loads_area (k_loads demo_ckpt) = span 0x300100 8"
    by (simp_all add: ranges_area_def loads_area_def demo_ckpt_def pages_def)
  moreover have "loads_apart (k_loads demo_ckpt)"
    by (simp add: loads_apart_def demo_ckpt_def)
  moreover have "unat (tempStackMem demo_restore) = 0x12000" "k_exitpc demo_ckpt = 0x200010"
    by (simp_all add: demo_restore_def ckpt_demo_env_def demo_ckpt_def)
  ultimately show ?thesis
    using demo_keeps demo_sizes demo_clear
    by (simp add: layout_def demo_sites demo_image demo_table_ok(2) demo_call_def)
       (auto simp: span_def)
qed

lemma demo_fields: "k_npc demo_ckpt = 0x200000" "k_ints demo_ckpt ! 17 = 64" "k_loads demo_ckpt = [(0x300100, 42)]"
  "k_ranges demo_ckpt = [(0x300000, 4096)]"
  by (simp_all add: demo_ckpt_def)

lemma demo_file: "os_file demo_restore ''ckptinfo.log'' = Some (ckpt_file demo_ckpt)"
  "os_file demo_restore ''a.out'' = Some demo_exe"
  by (simp_all add: demo_restore_def)

subsection \<open>Properties\<close>

lemma restored_ucsr: "read_ckptinfo E path s = Inr t \<Longrightarrow> l_ucsr t 12 = 1"
  by (auto simp: read_ckptinfo_def and_then_Inr start_program_ucsr split_beta Let_def)

lemma run_not_taken:
  assumes "replay_run E user s tr t" and "\<And>u v. user u v \<Longrightarrow> l_ucsr v = l_ucsr u" and "l_ucsr s 12 \<noteq> takeOverAddr E"
  shows "tr = [] \<and> l_ucsr t = l_ucsr s"
  using assms
proof (induction rule: replay_run.induct)
  case (run_call tr t u)
  then show ?case
    by (simp add: taken_over_def JmpTempReg_def)
qed auto

text \<open>
  C10.  A program restored by this loader never reaches the takeover.  \<open>read_ckptinfo\<close> puts the
  address of the takeover into the fourth added register and then calls \<open>init_start\<close>, whose last
  macro enables the counters with the instruction \<^verbatim>\<open>addi x0, t0, 12\<close>: twelve used to be the number
  of the enable bit and is now the number of that register.  So the register holds 1 when
  the program starts, and in no run from there is a call answered, unless the takeover is at 1.
\<close>

theorem restored_calls_miss_takeover:
  assumes "read_ckptinfo E path s = Inr t" and "takeOverAddr E \<noteq> 1"
    and "\<And>u v. user u v \<Longrightarrow> l_ucsr v = l_ucsr u" and "replay_run E user t tr u"
  shows "tr = [] \<and> l_ucsr u 12 = 1 \<and> l_pc (JmpTempReg 3 u) = 1"
  using run_not_taken [OF assms(4,3)] restored_ucsr [OF assms(1)] assms(2) by (auto simp: JmpTempReg_def)

lemma restored_calls_miss_takeover_witness:
  "\<exists>t. read_ckptinfo demo_restore ''ckptinfo.log'' demo_loader = Inr t \<and>
     load_le 4 (l_mem t) (l_pc t) = ECall_Replace \<and> l_pc (JmpTempReg 3 t) = 1"
proof -
  obtain t where t: "read_ckptinfo demo_restore ''ckptinfo.log'' demo_loader = Inr t" "l_pc t = 0x200000"
    "load_le 4 (l_mem t) 0x200000 = ECall_Replace"
    using restore_spec [OF demo_layout demo_file(1) refl, of demo_loader]
    by (auto simp: demo_image demo_table_ok(2) demo_call_def demo_fields)
  have "takeOverAddr demo_restore \<noteq> 1"
    by (simp add: demo_restore_def ckpt_demo_env_def)
  from restored_calls_miss_takeover [OF t(1) this _ run_start, of "\<lambda>_ _. False"] t show ?thesis
    by auto
qed

end
