(* ===== verification/CkptText.thy ===== *)
theory CkptText
  imports CkptProps
begin

text \<open>
  The code of the program.  \<open>loadelf\<close> takes from the checkpoint which parts of the code were
  executed and reads these parts of the executable's first loadable code segment.
\<close>

subsection \<open>The code segment of an executable\<close>

definition phdr_off :: "u8 list \<Rightarrow> nat \<Rightarrow> u64" where
  "phdr_off X i = le_at 8 32 (take 64 X) + int_product (of_nat i) (le_at 2 54 (take 64 X))"

definition phdr_bytes :: "u8 list \<Rightarrow> nat \<Rightarrow> u8 list" where
  "phdr_bytes X i = take 56 (drop (unat (phdr_off X i)) X)"

definition code_phdr :: "u8 list \<Rightarrow> bool" where
  "code_phdr ph \<longleftrightarrow> le_at 4 0 ph = 1 \<and> le_at 8 40 ph \<noteq> 0 \<and> le_at 8 32 ph > 0 \<and>
     loader_get_prot (le_at 4 4 ph) AND PROT_EXEC4 \<noteq> 0"

text \<open>Program header \<open>i\<close> is the first one of code, and it and those before it are in the file.\<close>

definition code_segment :: "u8 list \<Rightarrow> nat \<Rightarrow> bool" where
  "code_segment X i \<longleftrightarrow> 64 \<le> length X \<and> length X < 2 ^ 63 \<and> i < unat (le_at 2 56 (take 64 X)) \<and>
     (\<forall>j \<le> i. unat (phdr_off X j) + 56 \<le> length X) \<and> (\<forall>j < i. \<not> code_phdr (phdr_bytes X j)) \<and>
     code_phdr (phdr_bytes X i)"

definition code_off :: "u8 list \<Rightarrow> u64 \<Rightarrow> u64" where
  "code_off ph a = a - le_at 8 16 ph + le_at 8 8 ph"

definition code_block :: "u8 list \<Rightarrow> u8 list \<Rightarrow> u64 \<times> u64 \<Rightarrow> u8 list" where
  "code_block X ph r = take (unat (snd r)) (drop (unat (code_off ph (fst r))) X)"

lemma seek_in: "unat off + n \<le> length X \<Longrightarrow> length X < 2 ^ 63 \<Longrightarrow> fseek_set off (X, p) = (X, unat off)"
proof -
  assume "unat off + n \<le> length X" "length X < 2 ^ 63"
  then have "\<not> bit (unat off) 63"
    by (simp add: bit_iff_odd)
  then show ?thesis
    by (simp add: fseek_set_def bit_unsigned_iff)
qed

lemma scan_phdrs_spec:
  assumes X: "code_segment X i" and "j \<le> i"
  shows "\<exists>p. scan_phdrs n (take 64 X) [j..<unat (le_at 2 56 (take 64 X))] (X, q) s =
    and_then (load_ranges n (phdr_bytes X i) (X, p) s)
      (\<lambda>(f, s). if n = 0 then load_sections (take 64 X) f s else Inr (f, s))"
  using assms(2)
proof (induction "i - j" arbitrary: j q)
  case 0
  then have j: "j = i"
    by simp
  have o: "unat (phdr_off X i) + 56 \<le> length X" "length X < 2 ^ 63" "i < unat (le_at 2 56 (take 64 X))"
    using X by (simp_all add: code_segment_def)
  have r: "fread_var 56 (X, unat (phdr_off X i)) = Inr (phdr_bytes X i, X, unat (phdr_off X i) + 56)"
    using o(1) by (simp add: fread_var_def ahead_def advance_def phdr_bytes_def)
  have "code_phdr (phdr_bytes X i)"
    using X by (simp add: code_segment_def)
  then show ?case
    using seek_in [OF o(1,2)] r o(3)
    by (intro exI [of _ "unat (phdr_off X i) + 56"])
      (simp add: j upt_conv_Cons phdr_off_def [symmetric] code_phdr_def)
next
  case (Suc k)
  then have j: "j < i"
    by simp
  have o: "unat (phdr_off X j) + 56 \<le> length X" "length X < 2 ^ 63" "j < unat (le_at 2 56 (take 64 X))"
    using X j by (simp_all add: code_segment_def)
  have r: "fread_var 56 (X, unat (phdr_off X j)) = Inr (phdr_bytes X j, X, unat (phdr_off X j) + 56)"
    using o(1) by (simp add: fread_var_def ahead_def advance_def phdr_bytes_def)
  have "\<not> code_phdr (phdr_bytes X j)"
    using X j by (simp add: code_segment_def)
  moreover have "k = i - Suc j" "Suc j \<le> i"
    using Suc.hyps(2) j by simp_all
  ultimately show ?case
    using Suc.hyps(1) [of "Suc j" "unat (phdr_off X j) + 56"] seek_in [OF o(1,2)] r o(3)
    by (auto simp: upt_conv_Cons phdr_off_def [symmetric] code_phdr_def)
qed

subsection \<open>The executed parts\<close>

definition code_area :: "(u64 \<times> u64) list \<Rightarrow> u64 set" where
  "code_area ts = (\<Union>(a, b) \<in> set ts. span a (unat b))"

definition put_code :: "u8 list \<Rightarrow> u8 list \<Rightarrow> u64 \<times> u64 \<Rightarrow> mem \<Rightarrow> mem" where
  "put_code X ph r = put_bytes (fst r) (code_block X ph r)"

text \<open>The parts lie in the file, apart from each other and from the page that lists them.\<close>

definition code_parts :: "u8 list \<Rightarrow> u8 list \<Rightarrow> (u64 \<times> u64) list \<Rightarrow> bool" where
  "code_parts X ph ts \<longleftrightarrow> ts \<noteq> [] \<and> length ts < 2 ^ 31 \<and> length X < 2 ^ 63 \<and>
     (\<forall>(a, b) \<in> set ts. unat (code_off ph a) + unat b \<le> length X \<and> unat a + unat b \<le> 2 ^ 64) \<and>
     (\<forall>i < length ts. \<forall>j < i. span (fst (ts ! i)) (unat (snd (ts ! i))) \<inter>
        span (fst (ts ! j)) (unat (snd (ts ! j))) = {}) \<and>
     code_area ts \<inter> span RunningInfoAddr (16 * length ts) = {}"

lemma code_partsD:
  assumes "code_parts X ph ts" "i < length ts"
  shows "length (code_block X ph (ts ! i)) = unat (snd (ts ! i))"
    "unat (fst (ts ! i)) + unat (snd (ts ! i)) \<le> 2 ^ 64"
    "unat (code_off ph (fst (ts ! i))) + unat (snd (ts ! i)) \<le> length X"
    "span (fst (ts ! i)) (unat (snd (ts ! i))) \<subseteq> code_area ts"
proof -
  have "ts ! i \<in> set ts"
    using assms(2) by simp
  then show "unat (fst (ts ! i)) + unat (snd (ts ! i)) \<le> 2 ^ 64"
    "unat (code_off ph (fst (ts ! i))) + unat (snd (ts ! i)) \<le> length X"
    "span (fst (ts ! i)) (unat (snd (ts ! i))) \<subseteq> code_area ts"
    using assms(1) by (fastforce simp: code_parts_def code_area_def)+
  then show "length (code_block X ph (ts ! i)) = unat (snd (ts ! i))"
    by (simp add: code_block_def)
qed

lemma code_parts_apart:
  "code_parts X ph ts \<Longrightarrow> i < length ts \<Longrightarrow> j < i \<Longrightarrow>
   span (fst (ts ! i)) (unat (snd (ts ! i))) \<inter> span (fst (ts ! j)) (unat (snd (ts ! j))) = {}"
  unfolding code_parts_def by blast

lemma fold_put_code:
  assumes p: "code_parts X ph ts" and k: "k \<le> length ts"
  shows "agree (- code_area ts) m (fold (put_code X ph) (take k ts) m) \<and>
    (\<forall>i < k. \<forall>j < unat (snd (ts ! i)). fold (put_code X ph) (take k ts) m (fst (ts ! i) + of_nat j) =
       code_block X ph (ts ! i) ! j)"
  using k
proof (induction k)
  case (Suc k)
  let ?m = "fold (put_code X ph) (take k ts) m"
  obtain a b where ab: "ts ! k = (a, b)"
    by (cases "ts ! k")
  have k: "k < length ts"
    using Suc.prems by simp
  note P = code_partsD [OF p k, unfolded ab fst_conv snd_conv]
  have m: "fold (put_code X ph) (take (Suc k) ts) m = put_bytes a (code_block X ph (a, b)) ?m"
    using k by (simp add: take_Suc_conv_app_nth ab put_code_def)
  have out: "put_bytes a (code_block X ph (a, b)) ?m x = ?m x" if "x \<notin> span a (unat b)" for x
    using that P(1,2) by (intro put_bytes_outside) simp_all
  have "agree (- code_area ts) m (put_bytes a (code_block X ph (a, b)) ?m)"
    unfolding agree_def
  proof
    fix x
    assume x: "x \<in> - code_area ts"
    then have "put_bytes a (code_block X ph (a, b)) ?m x = ?m x"
      using P(4) by (intro out) blast
    then show "m x = put_bytes a (code_block X ph (a, b)) ?m x"
      using Suc k x by (simp add: agree_def)
  qed
  moreover have "put_bytes a (code_block X ph (a, b)) ?m (fst (ts ! i) + of_nat j) = code_block X ph (ts ! i) ! j"
    if i: "i < Suc k" and j: "j < unat (snd (ts ! i))" for i j
  proof (cases "i = k")
    case True
    then show ?thesis
      using j P(1,2) by (simp add: ab put_bytes_inside)
  next
    case False
    then have "i < k"
      using i by simp
    then have "span a (unat b) \<inter> span (fst (ts ! i)) (unat (snd (ts ! i))) = {}"
      using code_parts_apart [OF p k, of i] by (simp add: ab)
    moreover have "fst (ts ! i) + of_nat j \<in> span (fst (ts ! i)) (unat (snd (ts ! i)))"
      using j code_partsD(2) [OF p, of i] \<open>i < k\<close> k by (intro in_span) simp_all
    ultimately have "fst (ts ! i) + of_nat j \<notin> span a (unat b)"
      by blast
    from out [OF this] show ?thesis
      using Suc k \<open>i < k\<close> j by simp
  qed
  ultimately show ?case
    by (simp only: m) blast
qed simp

lemma load_ranges_spec:
  assumes p: "code_parts X ph ts"
    and t: "\<And>i. i < length ts \<Longrightarrow> peek (textinfo_at (of_nat i)) s = fst (ts ! i) \<and>
      peek (textinfo_at (of_nat i) + 8) s = snd (ts ! i)"
    and w: "16 * length ts + 0x150000 \<le> 2 ^ 64"
  shows "\<exists>q. load_ranges (of_nat (length ts)) ph (X, q0) s =
    Inr ((X, q), s\<lparr>l_mem := fold (put_code X ph) ts (l_mem s)\<rparr>)"
proof -
  let ?P = "\<lambda>i (f :: stream, u). fst f = X \<and> u = s\<lparr>l_mem := fold (put_code X ph) (take i ts) (l_mem s)\<rparr>"
  let ?body = "\<lambda>i (f, s). let addr = peek (textinfo_at (of_nat i)) s; size = peek (textinfo_at (of_nat i) + 8) s;
      f = fseek_set (addr - le_at 8 16 ph + le_at 8 8 ph) f
    in Inr (fread_mem addr (unat size) f s) :: stop + (stream \<times> loader)"
  have "\<exists>t. for_int (\<lambda>_. of_nat (length ts)) ?body 0 ((X, q0), s) = Inr t \<and> ?P (length ts) t"
  proof (rule for_int_rule [where P = ?P])
    fix i v
    assume i: "i < length ts" and "?P i v"
    then obtain q :: nat and u where v: "v = ((X, q), u)" and u: "u = s\<lparr>l_mem := fold (put_code X ph) (take i ts) (l_mem s)\<rparr>"
      by (cases v) auto
    note P = code_partsD [OF p i]
    have "span RunningInfoAddr (16 * length ts) \<inter> code_area ts = {}"
      using p unfolding code_parts_def by blast
    with conjunct1 [OF fold_put_code [OF p less_imp_le [OF i], of "l_mem s"]]
    have ag: "agree (span RunningInfoAddr (16 * length ts)) (l_mem s) (l_mem u)"
      unfolding u by (simp add: agree_on)
    have a: "unat (textinfo_at (of_nat i)) = 0x150000 + 16 * i"
      using i w by (simp add: textinfo_at_def unat_word_ariths unat_of_nat64)
    have a8: "unat (textinfo_at (of_nat i) + 8) = 0x150000 + 16 * i + 8"
      using i w unfolding unat_word_ariths(1) [of "textinfo_at (of_nat i)" 8] a by simp
    have "peek (textinfo_at (of_nat i)) u = fst (ts ! i)" "peek (textinfo_at (of_nat i) + 8) u = snd (ts ! i)"
      using t [OF i] agree_load [OF ag, of "textinfo_at (of_nat i)" 8]
        agree_load [OF ag, of "textinfo_at (of_nat i) + 8" 8] i w by (simp_all add: a a8 peek_def)
    moreover have "fseek_set (code_off ph (fst (ts ! i))) (X, q) = (X, unat (code_off ph (fst (ts ! i))))"
      using P(3) p by (intro seek_in) (auto simp: code_parts_def)
    ultimately have "?body i v = Inr (advance (unat (snd (ts ! i))) (X, unat (code_off ph (fst (ts ! i)))),
        u\<lparr>l_mem := put_code X ph (ts ! i) (l_mem u)\<rparr>)"
      by (simp add: v code_off_def fread_mem_def put_code_def code_block_def ahead_def Let_def)
    moreover have "?P (Suc i) (advance (unat (snd (ts ! i))) (X, unat (code_off ph (fst (ts ! i)))),
        u\<lparr>l_mem := put_code X ph (ts ! i) (l_mem u)\<rparr>)"
      using i by (simp add: u take_Suc_conv_app_nth)
    ultimately show "\<exists>w. ?body i v = Inr w \<and> ?P (Suc i) w"
      by blast
  qed (use p in \<open>simp_all add: code_parts_def\<close>)
  then show ?thesis
    by (auto simp: load_ranges_def)
qed

lemma textinfo_in_memory:
  assumes "length ts < 2 ^ 31" and "i < length ts"
  shows "load64 (put_bytes RunningInfoAddr (words_bytes (pair_words ts)) m) (textinfo_at (of_nat i)) = fst (ts ! i)"
    "load64 (put_bytes RunningInfoAddr (words_bytes (pair_words ts)) m) (textinfo_at (of_nat i) + 8) = snd (ts ! i)"
proof -
  have "unat RunningInfoAddr + 8 * length (pair_words ts) \<le> 2 ^ 64" "2 * i + 1 < length (pair_words ts)"
    using assms by simp_all
  then have "load64 (put_bytes RunningInfoAddr (words_bytes (pair_words ts)) m) (RunningInfoAddr + 8 * of_nat (2 * i)) = fst (ts ! i)"
    "load64 (put_bytes RunningInfoAddr (words_bytes (pair_words ts)) m) (RunningInfoAddr + 8 * of_nat (2 * i + 1)) = snd (ts ! i)"
    using nth_pair_words [OF assms(2)] by (simp_all only: put_words less_imp_le add_lessD1)
  moreover have "textinfo_at (of_nat i) = RunningInfoAddr + 8 * of_nat (2 * i)"
    "textinfo_at (of_nat i) + 8 = RunningInfoAddr + 8 * of_nat (2 * i + 1)"
    by (simp_all add: textinfo_at_def)
  ultimately show "load64 (put_bytes RunningInfoAddr (words_bytes (pair_words ts)) m) (textinfo_at (of_nat i)) = fst (ts ! i)"
    "load64 (put_bytes RunningInfoAddr (words_bytes (pair_words ts)) m) (textinfo_at (of_nat i) + 8) = snd (ts ! i)"
    by simp_all
qed

subsection \<open>Loading\<close>

definition code_map_size :: "(u64 \<times> u64) list \<Rightarrow> u64" where
  "code_map_size ts = fst (last ts) + snd (last ts) + 4096 - fst (hd ts)"

lemma loadelf_spec:
  assumes ck: "os_file E path = Some (pairs_bytes ts @ r)" and ex: "os_file E exe = Some X"
    and X: "code_segment X i" and p: "code_parts X (phdr_bytes X i) ts"
    and map: "mmap_keeps E True (fst (hd ts)) (code_map_size ts) (fst (hd ts))"
    and apart: "pages (fst (hd ts)) (code_map_size ts) \<inter> span RunningInfoAddr (16 * length ts) = {}"
  shows "\<exists>t. loadelf E (Some exe) path s = Inr t \<and>
    text_seg t = \<lparr>mr_addr = fst (hd ts), mr_size = code_map_size ts\<rparr> \<and>
    (\<forall>k < length ts. \<forall>j < unat (snd (ts ! k)). l_mem t (fst (ts ! k) + of_nat j) =
       X ! (unat (code_off (phdr_bytes X i) (fst (ts ! k))) + j)) \<and>
    agree (- (span RunningInfoAddr (16 * length ts) \<union> pages (fst (hd ts)) (code_map_size ts) \<union> code_area ts))
      (l_mem s) (l_mem t)"
proof -
  let ?n = "length ts" and ?ph = "phdr_bytes X i" and ?a = "fst (hd ts)" and ?z = "code_map_size ts"
  have n: "0 < ?n" "?n < 2 ^ 31" "ts \<noteq> []"
    using p by (auto simp: code_parts_def)
  then have un: "unat (of_nat ?n :: u64) = ?n"
    by (simp add: unat_of_nat64)
  let ?f = "(pairs_bytes ts @ r, 0)"
  have r1: "remains ?f = word_bytes (of_nat ?n) @ words_bytes (pair_words ts) @ r"
    by (simp add: remains_def pairs_bytes_def)
  have r2: "remains (advance 8 ?f) = words_bytes (pair_words ts) @ r"
    by (rule advance_remains [OF r1]) simp
  let ?m1 = "put_bytes RunningInfoAddr (words_bytes (pair_words ts)) (l_mem s)"
  have rd: "fread_mem RunningInfoAddr (16 * ?n) (advance 8 ?f) s = (advance (16 * ?n) (advance 8 ?f), s\<lparr>l_mem := ?m1\<rparr>)"
    by (rule fread_mem_remains [OF r2]) simp
  note T = textinfo_in_memory [OF n(2), of _ "l_mem s"]
  have first: "peek (textinfo_at 0) (s\<lparr>l_mem := ?m1\<rparr>) = ?a"
    using T(1) [of 0] n by (simp add: peek_def hd_conv_nth)
  have "of_nat ?n - 1 = (of_nat (?n - 1) :: u64)"
    using n(3) by (cases ts) simp_all
  then have last: "peek (textinfo_at (of_nat ?n - 1)) (s\<lparr>l_mem := ?m1\<rparr>) = fst (last ts)"
    "peek (textinfo_at (of_nat ?n - 1) + 8) (s\<lparr>l_mem := ?m1\<rparr>) = snd (last ts)"
    using T [of "?n - 1"] n by (simp_all add: peek_def last_conv_nth)
  obtain m2 where m2: "os_mmap E True ?a ?z ?m1 = (?a, m2)" "agree (- pages ?a ?z) ?m1 m2"
    using map unfolding mmap_keeps_def by (metis prod.collapse)
  let ?s = "s\<lparr>text_seg := \<lparr>mr_addr = ?a, mr_size = ?z\<rparr>, l_mem := m2\<rparr>"
  have ph: "fread_var 64 (X, 0) = Inr (take 64 X, X, 64)"
    using X by (simp add: fread_var_def ahead_def advance_def code_segment_def)
  obtain q where scan: "scan_phdrs (of_nat ?n) (take 64 X) [0..<unat (le_at 2 56 (take 64 X))] (X, 64) ?s =
      and_then (load_ranges (of_nat ?n) ?ph (X, q) ?s)
        (\<lambda>(f, s). if (of_nat ?n :: u64) = 0 then load_sections (take 64 X) f s else Inr (f, s))"
    using scan_phdrs_spec [OF X le0] by blast
  have info: "agree (span RunningInfoAddr (16 * ?n)) ?m1 m2"
    by (rule agree_on [OF m2(2)]) (use apart in blast)
  have at: "peek (textinfo_at (of_nat k)) ?s = fst (ts ! k) \<and> peek (textinfo_at (of_nat k) + 8) ?s = snd (ts ! k)"
    if k: "k < ?n" for k
  proof -
    have a: "unat (textinfo_at (of_nat k)) = 0x150000 + 16 * k"
      using k n(2) by (simp add: textinfo_at_def unat_word_ariths unat_of_nat64)
    have a8: "unat (textinfo_at (of_nat k) + 8) = 0x150000 + 16 * k + 8"
      using k n(2) unfolding unat_word_ariths(1) [of "textinfo_at (of_nat k)" 8] a by simp
    show ?thesis
      using T [OF k] agree_load [OF info, of "textinfo_at (of_nat k)" 8]
        agree_load [OF info, of "textinfo_at (of_nat k) + 8" 8] k n(2) by (simp add: a a8 peek_def)
  qed
  have "\<exists>q'. load_ranges (of_nat ?n) ?ph (X, q) ?s = Inr ((X, q'), ?s\<lparr>l_mem := fold (put_code X ?ph) ts (l_mem ?s)\<rparr>)"
    by (rule load_ranges_spec [OF p at]) (use n(2) in simp_all)
  then obtain q' where ld: "load_ranges (of_nat ?n) ?ph (X, q) ?s = Inr ((X, q'), ?s\<lparr>l_mem := fold (put_code X ?ph) ts m2\<rparr>)"
    by auto
  let ?m3 = "fold (put_code X ?ph) ts m2"
  have n0: "(of_nat ?n :: u64) \<noteq> 0"
    using un n(1) by (metis less_irrefl unat_0)
  have run: "loadelf E (Some exe) path s = Inr (?s\<lparr>l_mem := ?m3\<rparr>)"
    unfolding loadelf_def fopen_def ck ex option.case and_then_simps fread_zeroed_remains [OF r1] prod.case Let_def un rd
      first last code_map_size_def [symmetric]
    by (simp add: m2(1) ph scan ld n0)
  have c: "agree (- code_area ts) m2 ?m3"
    "\<forall>k < ?n. \<forall>j < unat (snd (ts ! k)). ?m3 (fst (ts ! k) + of_nat j) = code_block X ?ph (ts ! k) ! j"
    using fold_put_code [OF p order_refl, of m2] by simp_all
  have "?m3 (fst (ts ! k) + of_nat j) = X ! (unat (code_off ?ph (fst (ts ! k))) + j)"
    if "k < ?n" "j < unat (snd (ts ! k))" for k j
    using c(2) that code_partsD(3) [OF p that(1)] by (simp add: code_block_def)
  moreover have "agree (- span RunningInfoAddr (16 * ?n)) (l_mem s) ?m1"
    using put_agree(2) [of RunningInfoAddr "words_bytes (pair_words ts)" "l_mem s"] n(2) by simp
  then have "agree (- (span RunningInfoAddr (16 * ?n) \<union> pages ?a ?z)) (l_mem s) m2"
    by (rule agree_chain [OF _ m2(2)]) blast+
  then have "agree (- (span RunningInfoAddr (16 * ?n) \<union> pages ?a ?z \<union> code_area ts)) (l_mem s) ?m3"
    by (rule agree_chain [OF _ c(1)]) blast+
  ultimately show ?thesis
    using run by (intro exI [of _ "?s\<lparr>l_mem := ?m3\<rparr>"]) simp
qed

subsection \<open>From the two files to the running program\<close>

lemma demo_phdr_fields:
  "le_at 4 0 demo_phdr = 1" "le_at 4 4 demo_phdr = 5" "le_at 8 8 demo_phdr = 120" "le_at 8 16 demo_phdr = 0x200000"
  "le_at 8 32 demo_phdr = 256" "le_at 8 40 demo_phdr = 256"
proof -
  show "le_at 4 0 demo_phdr = 1" "le_at 4 4 demo_phdr = 5"
    by (simp_all add: le_at_def demo_phdr_def le_word_def)
  let ?w = "[0x500000001, 120, 0x200000, 0x200000, 256, 256, 4096]"
  have "demo_phdr = words_bytes ?w"
    by (simp add: demo_phdr_def word_bytes_def upt_rec)
  then show "le_at 8 8 demo_phdr = 120" "le_at 8 16 demo_phdr = 0x200000"
    "le_at 8 32 demo_phdr = 256" "le_at 8 40 demo_phdr = 256"
    using le_at_words [of 1 ?w] le_at_words [of 2 ?w] le_at_words [of 4 ?w] le_at_words [of 5 ?w]
    by (simp_all only: list.size nth_Cons_numeral) simp_all
qed

lemma demo_segment: "code_segment demo_exe 0" "phdr_bytes demo_exe 0 = demo_phdr" "length demo_exe = 376"
proof -
  show X': "length demo_exe = 376"
    by (simp add: demo_exe_def demo_exe_hdr_def demo_phdr_def)
  have X: "take 64 demo_exe = demo_exe_hdr" "drop 64 demo_exe = demo_phdr @ replicate 256 0x13"
    by (simp_all add: demo_exe_def demo_exe_hdr_def demo_phdr_def)
  have h: "le_at 8 32 demo_exe_hdr = 64" "le_at 2 56 demo_exe_hdr = 1"
    by (simp_all add: le_at_def demo_exe_hdr_def le_word_def)
  have o: "phdr_off demo_exe 0 = 64"
    by (simp add: phdr_off_def X h int_product_def)
  show ph: "phdr_bytes demo_exe 0 = demo_phdr"
    by (simp add: phdr_bytes_def o X) (simp add: demo_phdr_def)
  show "code_segment demo_exe 0"
    by (simp add: code_segment_def X X' h o ph code_phdr_def loader_get_prot_def demo_phdr_fields)
qed

text \<open>
  C8.  The loader as a whole, from its command line: given the checkpoint and the executable it
  was taken from, whose parts lie apart in memory, \<^verbatim>\<open>main\<close> leads to the program in its
  recorded state.  It starts at its recorded instruction with its recorded registers, its calls
  are replaced and their record is in place, its first loads are in memory, and every byte of the
  code it is known to execute, the replaced instructions aside, is the byte of the executable's
  code segment.
\<close>

theorem program_restored_from_files:
  assumes L: "layout E A n c" and ck: "os_file E path = Some (ckpt_file c)"
    and ex: "os_file E exe = Some X" "code_segment X i" and ph: "ph = phdr_bytes X i"
    and ts: "ts = k_text c" "code_parts X ph ts"
    and map: "mmap_keeps E True RunningInfoAddr 8192 RunningInfoAddr"
      "mmap_keeps E True (fst (hd ts)) (code_map_size ts) (fst (hd ts))"
    and apart: "pages (fst (hd ts)) (code_map_size ts) \<inter> span RunningInfoAddr (16 * length ts) = {}"
    and im: "im = table_image A (k_table c)"
  shows "\<exists>t. readckpt_main E [prog, path, exe] s = Inr t \<and> l_pc t = k_npc c \<and>
     (\<forall>r < 32. xreg t r = (if r = 0 then 0 else k_ints c ! r) \<and> l_f t r = k_fps c ! r) \<and>
     ready A (length (k_table c)) n 0 t \<and>
     (\<forall>k < n. recorded A n (l_mem t) k = recorded A n im k \<and>
        load_le 4 (l_mem t) (c_pc (recorded A n im k)) = ECall_Replace) \<and>
     (\<forall>(a, d) \<in> set (k_loads c). span a 8 \<inter> patched A n c = {} \<longrightarrow> load64 (l_mem t) a = d) \<and>
     (\<forall>k < length ts. \<forall>j < unat (snd (ts ! k)). fst (ts ! k) + of_nat j \<notin> restored_area E A n c \<longrightarrow>
        l_mem t (fst (ts ! k) + of_nat j) = X ! (unat (code_off ph (fst (ts ! k))) + j))"
proof -
  obtain m where m: "os_mmap E True RunningInfoAddr 8192 (l_mem s) = (RunningInfoAddr, m)"
    using map(1) unfolding mmap_keeps_def by (metis prod.collapse)
  have whole: "os_file E path = Some (pairs_bytes ts @ words_bytes [k_start c, k_sim c, k_exitpc c, k_cause c] @
     word_bytes (k_npc c) @ words_bytes (k_ints c) @ words_bytes (k_fps c) @
     pairs_bytes (k_ranges c) @ pairs_bytes (k_loads c) @ k_table c)"
    using ck by (simp add: ckpt_file_def ts(1))
  obtain u where u: "loadelf E (Some exe) path (s\<lparr>l_mem := m\<rparr>) = Inr u"
    "\<And>k j. k < length ts \<Longrightarrow> j < unat (snd (ts ! k)) \<Longrightarrow>
       l_mem u (fst (ts ! k) + of_nat j) = X ! (unat (code_off ph (fst (ts ! k))) + j)"
    using loadelf_spec [OF whole ex ts(2) [unfolded ph] map(2) apart, of "s\<lparr>l_mem := m\<rparr>"] unfolding ph by blast
  obtain t where t: "read_ckptinfo E path u = Inr t" "l_pc t = k_npc c"
    "\<forall>r < 32. xreg t r = (if r = 0 then 0 else k_ints c ! r) \<and> l_f t r = k_fps c ! r"
    "ready A (length (k_table c)) n 0 t"
    "\<forall>k < n. recorded A n (l_mem t) k = recorded A n im k \<and>
       load_le 4 (l_mem t) (c_pc (recorded A n im k)) = ECall_Replace"
    "\<forall>(a, d) \<in> set (k_loads c). span a 8 \<inter> patched A n c = {} \<longrightarrow> load64 (l_mem t) a = d"
    "agree (- restored_area E A n c) (l_mem u) (l_mem t)"
    using restore_spec [OF L ck im, of u] by blast
  have "readckpt_main E [prog, path, exe] s = Inr t"
    using u(1) t(1) by (simp add: readckpt_main_def m)
  moreover have "l_mem t x = l_mem u x" if "x \<notin> restored_area E A n c" for x
    using t(7) that by (simp add: agree_def)
  ultimately show ?thesis
    using t(2-6) u(2) by (intro exI [of _ t]) simp
qed

lemma program_restored_from_files_witness:
  "\<exists>t. readckpt_main demo_restore [''readckpt'', ''ckptinfo.log'', ''a.out''] demo_loader = Inr t \<and>
     l_pc t = 0x200000 \<and> l_mem t 0x200004 = 0x13"
proof -
  let ?ts = "[(0x200000, 0x100)] :: (u64 \<times> u64) list"
  have ts: "?ts = k_text demo_ckpt"
    by (simp add: demo_ckpt_def)
  have parts: "code_parts demo_exe demo_phdr ?ts"
    by (auto simp: code_parts_def demo_segment(3) code_off_def demo_phdr_fields code_area_def span_def)
  have apart: "pages (fst (hd ?ts)) (code_map_size ?ts) \<inter> span RunningInfoAddr (16 * length ?ts) = {}"
    by (auto simp: pages_def code_map_size_def span_def)
  have out: "(0x200004 :: u64) \<notin> restored_area demo_restore 0x2000000 (Suc 0) demo_ckpt"
    by (auto simp: restored_area_def demo_sites table_pages_def demo_sizes(1) pages_def table_map_size_def own_area_def
        demo_restore_def ckpt_demo_env_def ranges_area_def loads_area_def demo_fields span_def)
  have x: "demo_exe ! 124 = 0x13"
    by (simp add: demo_exe_def demo_exe_hdr_def demo_phdr_def nth_append)
  obtain t where t: "readckpt_main demo_restore [''readckpt'', ''ckptinfo.log'', ''a.out''] demo_loader = Inr t"
    "l_pc t = 0x200000"
    "\<forall>j < 256. 0x200000 + of_nat j \<notin> restored_area demo_restore 0x2000000 (Suc 0) demo_ckpt \<longrightarrow>
       l_mem t (0x200000 + of_nat j) = demo_exe ! (120 + j)"
    using program_restored_from_files [OF demo_layout demo_file demo_segment(1) demo_segment(2) [symmetric] ts parts
        demo_keeps demo_keeps apart refl, of "''readckpt''" demo_loader] demo_fields(1)
    by (auto simp: code_off_def demo_phdr_fields)
  from t(3) [rule_format, of 4] have "l_mem t 0x200004 = 0x13"
    using out x by simp
  then show ?thesis
    using t(1,2) by blast
qed

end
