(* ===== verification/CkptSample.thy ===== *)
theory CkptSample
  imports CkptLoad
begin

text \<open>
  The sampling handler of \<^verbatim>\<open>ctrl.h\<close>, which the processor enters in the middle of a
  program: what the program sees of it.
\<close>

definition regs_but_10 :: "nat list" where
  "regs_but_10 = [1..<10] @ [11..<32]"

lemma set_regs_but_10: "set regs_but_10 = {1..<32} - {10}" "distinct regs_but_10"
  unfolding regs_but_10_def by (simp only: set_append set_upt, force) simp

lemma save_all_spec:
  assumes b: "unat (tempStackMem E) + 0x8000 \<le> 2 ^ 64" and t: "t = Save_ALLIntRegs E s"
  shows "0 < i \<Longrightarrow> i < 32 \<Longrightarrow> peek (tempStackMem E + 8 * of_nat i) t = xreg s i"
    "agree (- own_area E) (l_mem s) (l_mem t)" "l_ucsr t = (l_ucsr s)(9 := xreg s 10)"
    "l_f t = l_f s" "l_exit_npc t = l_exit_npc s" "\<And>i. 32 \<le> i \<Longrightarrow> l_x t i = l_x s i"
    "maxevent t = maxevent s" "eventsel t = eventsel s" "sampleHapTimes t = sampleHapTimes s"
proof -
  let ?b = "tempStackMem E"
  let ?s = "li_a0 ?b (SetTempReg (xreg s 10) 0 s)"
  have x: "l_x ?s 10 = ?b" "\<And>i. i \<noteq> 10 \<Longrightarrow> xreg ?s i = xreg s i" "l_mem ?s = l_mem s"
    by (simp_all add: li_a0_def SetTempReg_def set_ucsr_def xreg_def)
  have "\<forall>i \<in> set regs_but_10. i < 32" "unat (l_x ?s 10) + 256 \<le> 2 ^ 64"
    using b by (simp_all add: set_regs_but_10 x(1))
  from fold_sd [OF set_regs_but_10(2) this] obtain m where m: "fold sd regs_but_10 ?s = ?s\<lparr>l_mem := m\<rparr>"
    "\<forall>i \<in> set regs_but_10. load64 m (?b + 8 * of_nat i) = xreg ?s i" "\<forall>x. x \<notin> span ?b 256 \<longrightarrow> m x = l_mem s x"
    unfolding x(1,3) by blast
  let ?m = "store64 m (?b + 8 * of_nat 10) (xreg s 10)"
  have t': "t = ?s\<lparr>l_mem := ?m, l_x := (l_x ?s)(11 := xreg s 10)\<rparr>"
    unfolding t Save_ALLIntRegs_def Regs_Operations_def regs_but_10_def [symmetric] Let_def m(1)
    by (simp add: poke_def xreg_def li_a0_def SetTempReg_def set_ucsr_def)
  have slot: "unat (?b + 8 * of_nat i) = unat ?b + 8 * i" if "i < 32" for i
    using that b by (intro unat_reg_slot) simp_all
  show "peek (?b + 8 * of_nat i) t = xreg s i" if "0 < i" "i < 32"
  proof (cases "i = 10")
    case True
    then show ?thesis
      by (simp add: t' peek_def)
  next
    case False
    have "load64 ?m (?b + 8 * of_nat i) = load64 m (?b + 8 * of_nat i)"
      using that False b slot [of i] slot [of 10] by (intro load_store_apart) auto
    then show ?thesis
      using m(2) that False x(2) by (simp add: t' peek_def set_regs_but_10)
  qed
  have "?m x = l_mem s x" if "x \<notin> own_area E" for x
  proof -
    have "x \<notin> span (?b + 8 * of_nat 10) 8" "x \<notin> span ?b 256" "unat (?b + 8 * of_nat 10) + 8 \<le> 2 ^ 64"
      using that slot [of 10] b by (auto simp: own_area_def span_def)
    then show ?thesis
      using m(3) store_le_outside by metis
  qed
  then show "agree (- own_area E) (l_mem s) (l_mem t)"
    by (simp add: agree_def t')
  show "l_ucsr t = (l_ucsr s)(9 := xreg s 10)" "l_f t = l_f s" "l_exit_npc t = l_exit_npc s"
    "\<And>i. 32 \<le> i \<Longrightarrow> l_x t i = l_x s i" "maxevent t = maxevent s" "eventsel t = eventsel s"
    "sampleHapTimes t = sampleHapTimes s"
    by (simp_all add: t' li_a0_def SetTempReg_def set_ucsr_def)
qed

lemma load_all_spec: "Load_ALLIntRegs E s =
    s\<lparr>l_x := \<lambda>i. if 0 < i \<and> i < 32 then peek (tempStackMem E + 8 * of_nat i) s else l_x s i\<rparr>"
proof -
  have js: "insert 10 (set regs_but_10) = {1..<32}" "10 \<notin> set regs_but_10"
    unfolding set_regs_but_10 by auto
  show ?thesis
    unfolding Load_ALLIntRegs_def Regs_Operations_def regs_but_10_def [symmetric] fold_ld_10 [OF js(2)] js(1)
    by (rule loader.equality) (auto simp: fun_eq_iff)
qed

text \<open>
  C37.  The sampling handler is transparent to the interrupted program: it returns to the
  instruction where the sample was taken with every integer and floating-point register as it was,
  and it writes no memory but the array it keeps for itself.  It counts the sample, resets the
  event counters and programs the next one without a warmup.  Of the four added registers a
  program may use, it changes the first, and it sets the fourth to 1.
\<close>

theorem sample_handler_transparent:
  assumes "unat (tempStackMem E) + 0x8000 \<le> 2 ^ 64" and "t = sample_func E s"
  shows "l_pc t = l_exit_npc s \<and> (\<forall>i. xreg t i = xreg s i) \<and> l_f t = l_f s \<and>
     agree (- own_area E) (l_mem s) (l_mem t) \<and> sampleHapTimes t = sampleHapTimes s + 1 \<and> l_pfc t = (\<lambda>_. 0) \<and>
     l_ucsr t = (l_ucsr s)(9 := l_exit_npc s, 7 := 1, 1 := procTag E, 2 := sampleFucAddr E,
       4 := maxevent s, 5 := 0, 3 := eventsel s, 12 := 1)"
proof -
  let ?s = "Save_ALLIntRegs E s"
  note S = save_all_spec [OF assms(1) refl, where s = s]
  obtain u where u: "sample_func E s = JmpTempReg 0 (Load_ALLIntRegs E u)" "l_mem u = l_mem ?s" "l_f u = l_f ?s"
    "sampleHapTimes u = sampleHapTimes ?s + 1" "l_pfc u = (\<lambda>_. 0)"
    "\<And>i. 32 \<le> i \<Longrightarrow> l_x u i = l_x ?s i"
    "l_ucsr u = (l_ucsr ?s)(9 := l_exit_npc ?s, 7 := 1, 1 := procTag E, 2 := sampleFucAddr E,
       4 := maxevent ?s, 5 := 0, 3 := eventsel ?s, 12 := 1)"
    by (rule that [OF sample_func_def [unfolded Let_def read_csrs_def prod.case]])
       (simp_all add: Load_Basic_Regs_def SetTempReg_def set_ucsr_def GetExitPC_def read_counters_def RESET_COUNTER_def
         SetPfcEnable_def SetSampleBaseInfo_def SetSampleCtrlReg_def Let_def)
  have p: "peek a u = peek a ?s" for a
    by (simp add: peek_def u(2))
  have "xreg t i = xreg s i" for i
    using S(1) [of i] S(6) [of i] u(6) [of i]
    by (cases "i = 0"; cases "i < 32") (auto simp: assms(2) u(1) load_all_spec JmpTempReg_def xreg_def p)
  then show ?thesis
    using S(2-5,7-9) u by (simp add: assms(2) load_all_spec JmpTempReg_def fun_upd_twist)
qed

lemma sample_handler_transparent_witness:
  "l_pc (sample_func ckpt_demo_env (demo_loader\<lparr>l_exit_npc := 0x200004\<rparr>)) = 0x200004 \<and>
   xreg (sample_func ckpt_demo_env (demo_loader\<lparr>l_exit_npc := 0x200004\<rparr>)) 17 = 64"
proof -
  have e: "unat (tempStackMem ckpt_demo_env) + 0x8000 \<le> 2 ^ 64"
    by (simp add: ckpt_demo_env_def)
  have "xreg (demo_loader\<lparr>l_exit_npc := 0x200004\<rparr>) 17 = 64"
    by (simp add: xreg_def demo_loader_def)
  then show ?thesis
    using sample_handler_transparent [OF e refl, of "demo_loader\<lparr>l_exit_npc := 0x200004\<rparr>"] by auto
qed

end
