(* ===== verification/Pmp.thy ===== *)
theory Pmp
  imports Minit
begin

text \<open>
  Physical memory protection: \<^verbatim>\<open>setup_pmp\<close> of \<^verbatim>\<open>machine/minit.c\<close>, and how \<^verbatim>\<open>bbl/bbl.c\<close>
  protects the monitor and starts the payload on a hart.  What the hardware does with a write to
  a protection register is a parameter: it traps when there is no such register, or the register
  then holds a value.
\<close>

record pmp =
  pmpaddr :: "nat \<Rightarrow> u64"
  pmpcfg :: u64

record pmp_hw =
  hw_pmpaddr :: "nat \<Rightarrow> u64 \<Rightarrow> u64 option"
  hw_pmpcfg :: "u64 \<Rightarrow> u64 option"

definition csrw_pmpaddr :: "pmp_hw \<Rightarrow> nat \<Rightarrow> u64 \<Rightarrow> pmp \<Rightarrow> pmp option" where
  "csrw_pmpaddr W i v p = map_option (\<lambda>w. p\<lparr>pmpaddr := (pmpaddr p)(i := w)\<rparr>) (hw_pmpaddr W i v)"

definition csrw_pmpcfg :: "pmp_hw \<Rightarrow> u64 \<Rightarrow> pmp \<Rightarrow> pmp option" where
  "csrw_pmpcfg W v p = map_option (\<lambda>w. p\<lparr>pmpcfg := w\<rparr>) (hw_pmpcfg W v)"

subsection \<open>The code\<close>

abbreviation (input) PMP_R :: u64 where "PMP_R \<equiv> 0x01"
abbreviation (input) PMP_W :: u64 where "PMP_W \<equiv> 0x02"
abbreviation (input) PMP_X :: u64 where "PMP_X \<equiv> 0x04"
abbreviation (input) PMP_TOR :: u64 where "PMP_TOR \<equiv> 0x08"
abbreviation (input) PMP_NAPOT :: u64 where "PMP_NAPOT \<equiv> 0x18"
abbreviation (input) PMP_SHIFT :: nat where "PMP_SHIFT \<equiv> 2"

text \<open>A trap goes to the end of the assembly: the registers written before it keep their values.\<close>

definition setup_pmp :: "pmp_hw \<Rightarrow> pmp \<Rightarrow> pmp" where
  "setup_pmp W p =
     (case csrw_pmpaddr W 0 (- 1) p of
        None \<Rightarrow> p
      | Some q \<Rightarrow> (case csrw_pmpcfg W (PMP_NAPOT OR PMP_R OR PMP_W OR PMP_X) q of None \<Rightarrow> q | Some r \<Rightarrow> r))"

primrec probe_pmp :: "pmp_hw \<Rightarrow> nat list \<Rightarrow> (nat \<Rightarrow> u64) \<Rightarrow> pmp \<Rightarrow> (nat \<Rightarrow> u64) \<times> pmp" where
  "probe_pmp W [] a p = (a, p)"
| "probe_pmp W (i # is) a p =
     (case csrw_pmpaddr W i (- 1) p of None \<Rightarrow> (a, p) | Some q \<Rightarrow> probe_pmp W is (a(i := pmpaddr q i)) q)"

text \<open>\<open>ftext\<close> and \<open>end_at\<close> are the addresses of \<^verbatim>\<open>_ftext\<close> and \<^verbatim>\<open>_end\<close>.\<close>

definition protect_memory :: "pmp_hw \<Rightarrow> u64 \<Rightarrow> u64 \<Rightarrow> pmp \<Rightarrow> pmp option" where
  "protect_memory W ftext end_at p =
     (let (a, p) = probe_pmp W [0, 1, 2, 3] (\<lambda>_. 0) p
      in if a 0 AND a 1 AND a 2 AND a 3 = 0 then Some (setup_pmp W p)
         else let cfg = push_bit 8 PMP_TOR OR push_bit 16 (PMP_NAPOT OR PMP_R OR PMP_W OR PMP_X)
              in do {
                   p0 \<leftarrow> csrw_pmpaddr W 0 (drop_bit PMP_SHIFT ftext) p;
                   p1 \<leftarrow> csrw_pmpaddr W 1 (drop_bit PMP_SHIFT end_at) p0;
                   p2 \<leftarrow> csrw_pmpaddr W 2 (- 1) p1;
                   p3 \<leftarrow> csrw_pmpaddr W 3 0 p2;
                   csrw_pmpcfg W cfg p3
                 })"

text \<open>The address that is jumped to, and the hart.\<close>

definition enter_machine_mode :: "u64 \<Rightarrow> u64 \<Rightarrow> u64 \<Rightarrow> u64 \<Rightarrow> 'd hart \<Rightarrow> u64 \<times> 'd hart" where
  "enter_machine_mode machine_stack fn arg0 arg1 h =
     (let c = fst h; s = snd h; m = cpu s
      in (fn, (c\<lparr>c_mscratch := machine_stack - (32 * 8 + 8 * 32 + 64)\<rparr>,
               s\<lparr>cpu := m\<lparr>c_mstatus := INSERT_FIELD (c_mstatus m) 0x80 0,
                   xr := (xr m)(10 := arg0, 11 := arg1)\<rparr>\<rparr>)))"

text \<open>
  A hart waits for the entry point, and sleeps forever when it is disabled; \<^verbatim>\<open>1 << hartid\<close> is an
  \<^verbatim>\<open>int\<close>.  \<open>boot_other_hart\<close> gets the values that it reads from \<^verbatim>\<open>entry_point\<close> in turn.
\<close>

datatype 'd hart_start = Awaiting_entry | Parked | Supervisor "'d hart" pmp | Pmp_trap

primrec boot_other_hart ::
  "pmp_hw \<Rightarrow> u64 \<Rightarrow> u64 \<Rightarrow> u64 \<Rightarrow> u64 \<Rightarrow> u64 \<Rightarrow> u64 list \<Rightarrow> 'd hart \<Rightarrow> pmp \<Rightarrow> 'd hart_start" where
  "boot_other_hart W ftext end_at payload_end machine_stack hartid [] h p = Awaiting_entry"
| "boot_other_hart W ftext end_at payload_end machine_stack hartid (entry # later) h p =
     (if entry = 0 then boot_other_hart W ftext end_at payload_end machine_stack hartid later h p
      else if scast (push_bit (unat hartid) 1 :: u32) AND disabled_hart_mask (snd h) \<noteq> 0 then Parked
      else case protect_memory W ftext end_at p of
             None \<Rightarrow> Pmp_trap
           | Some q \<Rightarrow> Supervisor
               (enter_supervisor_mode machine_stack entry hartid (dtb_output payload_end (snd h)) h) q)"

definition bbl_boot_loader ::
  "'d bus \<Rightarrow> pmp_hw \<Rightarrow> u64 \<Rightarrow> u64 \<Rightarrow> u64 \<Rightarrow> u64 \<Rightarrow> u64 \<Rightarrow> u64 \<Rightarrow> u64 \<Rightarrow> 'd hart \<Rightarrow> pmp \<Rightarrow> 'd hart_start option" where
  "bbl_boot_loader B W ftext end_at payload_start payload_end machine_stack hartid dtb h p =
     do {
       s \<leftarrow> filter_dtb B payload_end dtb (snd h);
       let entry_point = (if kernel_start s \<noteq> 0 then kernel_start s else payload_start);
       Some (boot_other_hart W ftext end_at payload_end machine_stack hartid [entry_point] (fst h, s) p)
     }"

subsection \<open>What the registers allow\<close>

text \<open>
  The check of the instruction set for an access of the supervisor: the first entry that matches
  decides, and without a match the access is refused.
\<close>

definition pmp_entry :: "pmp \<Rightarrow> nat \<Rightarrow> u64" where
  "pmp_entry p i = drop_bit (8 * i) (pmpcfg p) AND 0xFF"

definition pmp_matches :: "pmp \<Rightarrow> u64 \<Rightarrow> nat \<Rightarrow> bool" where
  "pmp_matches p a i =
     (let mode = drop_bit 3 (pmp_entry p i) AND 3; top = pmpaddr p i;
          base = (if i = 0 then 0 else pmpaddr p (i - 1)); w = drop_bit PMP_SHIFT a
      in if mode = 0 then False
         else if mode = 1 then base \<le> w \<and> w < top
         else if mode = 2 then w = top
         else (w XOR top) AND NOT (top XOR (top + 1)) = 0)"

definition supervisor_may :: "pmp \<Rightarrow> u64 \<Rightarrow> u64 \<Rightarrow> bool" where
  "supervisor_may p a perm =
     (case find (pmp_matches p a) [0..<8] of None \<Rightarrow> False | Some i \<Rightarrow> pmp_entry p i AND perm = perm)"

text \<open>Four entries with addresses of 56 bits, as the instruction set has them for RV64.\<close>

definition four_entries :: "pmp_hw \<Rightarrow> bool" where
  "four_entries W \<longleftrightarrow> (\<forall>i < 4. \<forall>v. hw_pmpaddr W i v = Some (v AND mask 54)) \<and> (\<forall>v. hw_pmpcfg W v = Some v)"

lemma four_entriesD:
  assumes "four_entries W"
  shows "i < 4 \<Longrightarrow> csrw_pmpaddr W i v p = Some (p\<lparr>pmpaddr := (pmpaddr p)(i := v AND mask 54)\<rparr>)"
    "csrw_pmpcfg W v p = Some (p\<lparr>pmpcfg := v\<rparr>)"
  using assms by (simp_all add: four_entries_def csrw_pmpaddr_def csrw_pmpcfg_def)

definition locked :: "pmp \<Rightarrow> u64 \<Rightarrow> u64 \<Rightarrow> pmp" where
  "locked p ftext end_at = \<lparr>pmpaddr = (pmpaddr p)(0 := drop_bit 2 ftext AND mask 54,
     1 := drop_bit 2 end_at AND mask 54, 2 := mask 54, 3 := 0), pmpcfg = 0x1F0800\<rparr>"

lemma protect_memory_locked:
  assumes "four_entries W"
  shows "protect_memory W ftext end_at p = Some (locked p ftext end_at)"
  using four_entriesD [OF assms]
  by (simp add: protect_memory_def locked_def Let_def mask_numeral fun_upd_twist)

lemma low54:
  fixes a :: u64
  assumes "unat a < 2 ^ 56"
  shows "drop_bit 2 a AND mask 54 = drop_bit 2 a"
proof -
  have "unat (drop_bit 2 a) < 2 ^ 54"
    using assms by (simp add: drop_bit_eq_div unat_div)
  then have "unat (take_bit 54 (drop_bit 2 a)) = unat (drop_bit 2 a)"
    by (simp add: unsigned_take_bit_eq take_bit_nat_eq_self)
  from arg_cong [where f = "of_nat :: nat \<Rightarrow> u64", OF this] have "take_bit 54 (drop_bit 2 a) = drop_bit 2 a"
    by simp
  then show ?thesis
    by (simp add: take_bit_eq_mask)
qed

lemma locked_find:
  assumes "unat a < 2 ^ 56" "unat ftext < 2 ^ 56" "unat end_at < 2 ^ 56"
  shows "find (pmp_matches (locked p ftext end_at) a) [0..<8] =
    Some (if drop_bit 2 ftext \<le> drop_bit 2 a \<and> drop_bit 2 a < drop_bit 2 end_at then Suc 0 else 2)"
proof -
  let ?q = "locked p ftext end_at"
  have e: "pmp_entry ?q 0 = 0" "pmp_entry ?q (Suc 0) = 0x08" "pmp_entry ?q 2 = 0x1F"
    by (simp_all add: pmp_entry_def locked_def)
  have "\<not> pmp_matches ?q a 0"
    by (simp add: pmp_matches_def e)
  moreover have "pmp_matches ?q a (Suc 0) \<longleftrightarrow> drop_bit 2 ftext \<le> drop_bit 2 a \<and> drop_bit 2 a < drop_bit 2 end_at"
    using low54 [OF assms(2)] low54 [OF assms(3)] by (simp add: pmp_matches_def e Let_def) (simp add: locked_def)
  moreover have "pmp_matches ?q a 2"
  proof -
    have "(mask 54 :: u64) XOR (mask 54 + 1) = mask 55"
      by (simp add: mask_numeral)
    moreover have "(drop_bit 2 a XOR mask 54) AND NOT (mask 55) = (0 :: u64)"
      by (subst low54 [OF assms(1), symmetric], rule bit_eqI) (auto simp: bit_simps)
    ultimately show ?thesis
      by (simp add: pmp_matches_def e Let_def) (simp add: locked_def)
  qed
  moreover have "[0..<8 :: nat] = 0 # Suc 0 # 2 # [3..<8]"
    by (simp add: upt_rec)
  ultimately show ?thesis
    by (simp only: find.simps if_True if_False simp_thms split: if_splits) blast
qed

subsection \<open>The monitor is out of reach\<close>

lemma granule_bounds:
  fixes f a e :: nat
  assumes "f mod 4 = 0" and "e mod 4 = 0"
  shows "f div 4 \<le> a div 4 \<and> a div 4 < e div 4 \<longleftrightarrow> f \<le> a \<and> a < e"
proof -
  from assms obtain k l where "f = k * 4" "e = l * 4"
    by (metis mod_0_imp_dvd dvd_def mult.commute)
  then show ?thesis
    by (simp add: less_eq_div_iff_mult_less_eq div_less_iff_less_mult)
qed

text \<open>
  C36.  The memory of the monitor is out of the supervisor's reach.  With four protection entries,
  whatever they held before, \<^verbatim>\<open>protect_memory\<close> returns and leaves them so that an access
  of the supervisor, of any kind and at any physical address, is refused exactly when it falls
  between \<^verbatim>\<open>_ftext\<close> and \<^verbatim>\<open>_end\<close>.
\<close>

theorem monitor_out_of_reach:
  assumes "four_entries W" and "unat ftext < 2 ^ 56" and "unat end_at < 2 ^ 56" and "unat a < 2 ^ 56"
    and "ftext AND 3 = 0" and "end_at AND 3 = 0" and "perm \<in> {PMP_R, PMP_W, PMP_X}"
  shows "\<exists>q. protect_memory W ftext end_at p = Some q \<and> (supervisor_may q a perm \<longleftrightarrow> \<not> (ftext \<le> a \<and> a < end_at))"
proof (intro exI conjI)
  let ?q = "locked p ftext end_at"
  show "protect_memory W ftext end_at p = Some ?q"
    by (rule protect_memory_locked [OF assms(1)])
  have u: "unat (drop_bit 2 x) = unat x div 4" for x :: u64
    by (simp add: drop_bit_eq_div unat_div)
  have m: "unat x mod 4 = 0" if "x AND 3 = 0" for x :: u64
    using that unat_and_mask [of x 2] by (simp add: mask_numeral)
  have "drop_bit 2 ftext \<le> drop_bit 2 a \<and> drop_bit 2 a < drop_bit 2 end_at \<longleftrightarrow> ftext \<le> a \<and> a < end_at"
    using granule_bounds [OF m [OF assms(5)] m [OF assms(6)]] by (simp only: word_le_nat_alt word_less_nat_alt u)
  moreover have "pmp_entry ?q (Suc 0) = 0x08" "pmp_entry ?q 2 = 0x1F"
    by (simp_all add: pmp_entry_def locked_def)
  ultimately show "supervisor_may ?q a perm \<longleftrightarrow> \<not> (ftext \<le> a \<and> a < end_at)"
    using locked_find [OF assms(4,2,3), of p] assms(7) by (auto simp: supervisor_may_def)
qed

text \<open>Four entries of an emulated core, as a concrete instance.\<close>

definition demo_pmp_hw :: pmp_hw where
  "demo_pmp_hw = \<lparr>hw_pmpaddr = (\<lambda>i v. if i < 16 then Some (v AND mask 54) else None), hw_pmpcfg = Some\<rparr>"

lemma monitor_out_of_reach_witness:
  "\<exists>q. protect_memory demo_pmp_hw 0x80000000 0x80020000 \<lparr>pmpaddr = (\<lambda>_. - 1), pmpcfg = 0x1F\<rparr> = Some q \<and>
     \<not> supervisor_may q 0x80001000 PMP_R"
  using monitor_out_of_reach [of demo_pmp_hw "0x80000000" "0x80020000" "0x80001000" PMP_R]
  by (auto simp: four_entries_def demo_pmp_hw_def)

end
