(* ===== verification/Spec2Isabelle.thy ===== *)
theory Spec2Isabelle
  imports BootRun EmulationProps FdtProps FpEmulation SoftFloatAdd CkptText CkptSample Pmp
begin

text \<open>
  Verification of the C programs of this repository.  \<^verbatim>\<open>src/riscv-pk\<close> holds the proxy
  kernel \<^verbatim>\<open>pk\<close>, which runs one user program on a tethered RISC-V core and forwards its
  system calls to a host, and the machine layer below it and below the boot loader \<^verbatim>\<open>bbl\<close>,
  which emulates what the core does not implement and serves the calls of the supervisor.
  \<^verbatim>\<open>src/ckpt_support/restoreCkpt/readckpt\<close> is a user program that restores a checkpoint of
  another program into itself and replays the recorded system calls, on a core with the added
  sampling instructions.

  \<^bold>\<open>How the parts interact.\<close>  \<^verbatim>\<open>mentry.S\<close> enters \<^verbatim>\<open>init_first_hart\<close>
  (\<^verbatim>\<open>machine/minit.c\<close>), which scans the device tree (\<^verbatim>\<open>machine/fdt.c\<close>) for consoles,
  memory, harts and interrupt controllers and then starts \<^verbatim>\<open>pk\<close> or a payload.  \<^verbatim>\<open>pk\<close>
  maps the kernel (\<^verbatim>\<open>pk/mmap.c\<close>), loads an ELF file obtained through the host
  (\<^verbatim>\<open>pk/elf.c\<close>, \<^verbatim>\<open>pk/file.c\<close>, \<^verbatim>\<open>pk/frontend.c\<close>), builds the first stack and enters user
  mode (\<^verbatim>\<open>pk/pk.c\<close>).  From then on the program traps: system calls go through
  \<^verbatim>\<open>handle_trap\<close> to \<^verbatim>\<open>pk/syscall.c\<close>, page faults to \<^verbatim>\<open>handle_page_fault\<close>, and illegal
  instructions, misaligned accesses and environment calls of the supervisor to the machine
  layer (\<^verbatim>\<open>machine/mtrap.c\<close>, \<^verbatim>\<open>emulation.c\<close>, \<^verbatim>\<open>misaligned_ldst.c\<close>,
  \<^verbatim>\<open>muldiv_emulation.c\<close>, \<^verbatim>\<open>fp_ldst.c\<close>, \<^verbatim>\<open>fp_emulation.c\<close> with \<^verbatim>\<open>softfloat/\<close>).

  \<^bold>\<open>The theories.\<close>
  \<^item> \<^verbatim>\<open>Prelude\<close>: word types, \<^verbatim>\<open>machine/bits.h\<close>, the option monad with \<^verbatim>\<open>kassert\<close>, the
    page loop \<^verbatim>\<open>for (a = x; a < lim; a += RISCV_PGSIZE)\<close>, search and counting lemmas.
  \<^item> \<^verbatim>\<open>Bytes\<close>, \<^verbatim>\<open>CString\<close>, \<^verbatim>\<open>Snprintf\<close>: byte memory, \<^verbatim>\<open>util/string.c\<close>,
    \<^verbatim>\<open>util/snprintf.c\<close>.
  \<^item> \<^verbatim>\<open>PkState\<close>: the state of the proxy kernel (memory, host, open files, page pool, mapping
    records, break, page tables); the fields are the global variables of the sources.
  \<^item> \<^verbatim>\<open>Files\<close>, \<^verbatim>\<open>FileIO\<close>: \<^verbatim>\<open>pk/file.c\<close>, \<^verbatim>\<open>pk/frontend.c\<close>, \<^verbatim>\<open>pk/console.c\<close>.
  \<^item> \<^verbatim>\<open>PageTable\<close>, \<^verbatim>\<open>Vm\<close>, \<^verbatim>\<open>VmInv\<close>, \<^verbatim>\<open>VmCost\<close>, \<^verbatim>\<open>VmProps\<close>: \<^verbatim>\<open>pk/mmap.c\<close>; the walk as
    a refinement of a map from addresses to entries, the invariant of the mapping records, the
    page tables a mapping needs from the pool, and the results of every mapping operation.
  \<^item> \<^verbatim>\<open>Syscall\<close>, \<^verbatim>\<open>SyscallInv\<close>, \<^verbatim>\<open>SyscallProps\<close>: \<^verbatim>\<open>pk/syscall.c\<close>, every function and the
    dispatch; each keeps the invariant of the whole kernel.
  \<^item> \<^verbatim>\<open>Handlers\<close>: \<^verbatim>\<open>pk/handlers.c\<close>, and the runs of a program as a step relation.
  \<^item> \<^verbatim>\<open>Elf\<close>, \<^verbatim>\<open>Boot\<close>: \<^verbatim>\<open>pk/elf.c\<close>, \<^verbatim>\<open>pk/pk.c\<close>.
  \<^item> \<^verbatim>\<open>VmBoot\<close>, \<^verbatim>\<open>BootInv\<close>, \<^verbatim>\<open>BootRun\<close>: from zeroed globals, \<^verbatim>\<open>file_init\<close> and
    \<^verbatim>\<open>pk_vm_init\<close> return and establish the invariant of the kernel; reading the arguments, loading
    the program, building its stack and everything the program then does keep it.
  \<^item> \<^verbatim>\<open>UserMem\<close>, \<^verbatim>\<open>StackImage\<close>: kernel loads and stores on pages that come in on demand, and
    the stack with which a program is entered.
  \<^item> \<^verbatim>\<open>Machine\<close>, \<^verbatim>\<open>Emulation\<close>, \<^verbatim>\<open>EmulationProps\<close>: the state of a hart and the macros of
    \<^verbatim>\<open>emulation.h\<close>, \<^verbatim>\<open>fp_emulation.h\<close>, \<^verbatim>\<open>unprivileged_memory.h\<close>; integer, load, store and
    CSR emulation.
  \<^item> \<^verbatim>\<open>SoftFloatPrim\<close>, \<^verbatim>\<open>SoftFloat\<close>, \<^verbatim>\<open>SoftFloatOps\<close>, \<^verbatim>\<open>SoftFloatProps\<close>,
    \<^verbatim>\<open>SoftFloatArith\<close>, \<^verbatim>\<open>SoftFloatAdd\<close>: the single and double precision arithmetic of
    \<^verbatim>\<open>softfloat/\<close> on bit patterns; rounding, with the sticky bits of the shifts, is proved against a
    definition on natural numbers, and the double precision product and sum of finite numbers
    are proved to be the correctly rounded exact ones.
  \<^item> \<^verbatim>\<open>FpEmulation\<close>: \<^verbatim>\<open>fp_emulation.c\<close> and the dispatch of \<^verbatim>\<open>illegal_insn_trap\<close>.
  \<^item> \<^verbatim>\<open>Platform\<close>, \<^verbatim>\<open>PlatformProps\<close>: \<^verbatim>\<open>mtrap.c\<close>, \<^verbatim>\<open>htif.c\<close>, \<^verbatim>\<open>uart.c\<close>,
    \<^verbatim>\<open>uart16550.c\<close>, \<^verbatim>\<open>finisher.c\<close>.
  \<^item> \<^verbatim>\<open>Fdt\<close>, \<^verbatim>\<open>FdtQueries\<close>, \<^verbatim>\<open>FdtProps\<close>, \<^verbatim>\<open>Minit\<close>: \<^verbatim>\<open>fdt.c\<close>, the queries of every
    driver, \<^verbatim>\<open>minit.c\<close> and the device-tree part of \<^verbatim>\<open>bbl/bbl.c\<close>.
  \<^item> \<^verbatim>\<open>Pmp\<close>: the memory protection registers, and the rest of \<^verbatim>\<open>bbl/bbl.c\<close>; the
    supervisor cannot reach the monitor.

  \<^item> \<^verbatim>\<open>Ckpt\<close>: the checkpoint loader, \<^verbatim>\<open>ckptinfo.h\<close>, \<^verbatim>\<open>define.h\<close>, \<^verbatim>\<open>ctrl.h\<close>,
    \<^verbatim>\<open>takeover_syscall.cpp\<close>, \<^verbatim>\<open>ckpt_load.cpp\<close>, \<^verbatim>\<open>elf_load.cpp\<close>, \<^verbatim>\<open>readckpt.cpp\<close>.
    \<^verbatim>\<open>CkptReplay\<close> shows that a takeover applies the recorded call to the program and keeps the
    loader's own memory, \<^verbatim>\<open>CkptRun\<close> that a run replays the record; \<^verbatim>\<open>CkptLoad\<close>,
    \<^verbatim>\<open>CkptRestore\<close>, \<^verbatim>\<open>CkptProps\<close>, \<^verbatim>\<open>CkptText\<close> follow the loader from the two files to the
    restored program; \<^verbatim>\<open>CkptSample\<close> is the sampling handler.

  \<^bold>\<open>Conventions.\<close>  Machine integers are words of their width, with wrap-around.  An operation
  takes the state and returns \<^theory_text>\<open>Some\<close> of its result and the new state; \<^theory_text>\<open>None\<close> stands for
  \<^verbatim>\<open>panic\<close>, \<^verbatim>\<open>die\<close>, a failed assertion, or a loop that does not end.  Loops whose number of
  rounds is not structural are \<^theory_text>\<open>partial_function (option)\<close>, and their termination is a
  property (\<^verbatim>\<open>vm_alloc_finds_free_run\<close>, \<^verbatim>\<open>mmap_fixed_returns\<close>) or part of the functional
  one; no definition takes fuel.  In the checkpoint loader the result is a sum whose left side
  says how the program stopped, and its loops are a \<^verbatim>\<open>for\<close> over an \<^verbatim>\<open>int\<close> that
  overflows after 2^31 rounds.  The configuration is RV64 with compressed instructions and
  atomics (\<^verbatim>\<open>MAX_HARTS\<close> 8), without the M, F and D extensions and with
  \<^verbatim>\<open>PK_ENABLE_FP_EMULATION\<close>, so that every emulation is compiled in.

  \<^bold>\<open>Parameters.\<close>  What the sources do not contain is an argument: the answers of the host, which
  accesses of the program fault, what a device register reads, the layout of \<^verbatim>\<open>struct stat\<close>;
  for the checkpoint loader, \<^verbatim>\<open>mmap\<close>, the files, the counters of the core, and the program
  that runs between two calls.

  \<^bold>\<open>What is shown.\<close>  For the kernel: an invariant of the whole state kept by every system call
  and trap; mmap, munmap, mprotect, brk and page faults do what they should to the address
  space, no call gives a program more access than the mapping has, and the descriptor table
  counts its references.  For the machine layer: an emulated instruction has the effect of the
  instruction set, traps are redirected as the hardware would, interrupts reach exactly the
  selected harts.  For the device tree: the scanner visits every node and property of a
  well-formed blob.  For the checkpoint loader: the program starts in its recorded state, its
  calls are answered from the record in order, and sampling does not disturb it; and that, as the
  code stands, the answers are never reached, because the counters are enabled with the number of
  the register that holds the address of the takeover.  Some properties state what the code does where that is not what it
  means to do; the manifest lists those as findings.

  \<^bold>\<open>Not modelled.\<close>  Assembly (\<^verbatim>\<open>mentry.S\<close>, \<^verbatim>\<open>entry.S\<close>, \<^verbatim>\<open>fp_asm.S\<close>) and what waits for
  other harts; TLB and instruction-cache flushes, which the memory model does not distinguish;
  locks (the models are sequential); \<^verbatim>\<open>fdt_print\<close>, the banner; the formats and
  variants of \<^verbatim>\<open>softfloat\<close> that are not compiled.  Outside \<^verbatim>\<open>riscv-pk\<close>: the processor
  (Scala), the sampling examples around \<^verbatim>\<open>ptrace\<close>, the patched files of the Linux kernel,
  the log scripts (Python) and the third-party test environment.  In the checkpoint loader the
  locals and the stack of the compiled code are not part of memory, what it prints is left out,
  and the added registers hold the whole value that is written to them.
\<close>

end
